(* ===== verification/Jocasta_Prelude.thy ===== *)
theory Jocasta_Prelude
  imports Main "HOL-Library.Word"
begin

unbundle bit_operations_syntax

section \<open>Prelude: results, bytes, checked accesses and readers\<close>

text \<open>
  The vocabulary shared by every component model.

  \<^item> Go bytes are \<open>8 word\<close>; a Go string is a sequence of bytes and is modelled by a
    character list (a HOL character is one byte), with \<open>str_bytes\<close> and \<open>bytes_str\<close> as the two
    conversions \<open>[]byte(s)\<close> and \<open>string(b)\<close>.
  \<^item> A Go function that returns \<open>(v, err)\<close> is a function into \<open>error + 'a\<close>. A run-time panic
    is one more kind of error (\<open>Panic\<close>), so that every way a function can end is a value.
  \<^item> An access \<open>xs[i]\<close> or \<open>xs[i:j]\<close> that the code does not guard is \<open>index_at\<close> or \<open>slice_at\<close>,
    which panic out of range. The capacity of a slice is taken to be its length.
  \<^item> An \<open>io.Reader\<close> consumed through \<open>io.ReadFull\<close> is the list of bytes that are still to
    come before end of file; a parser returns its value and what it left unread.
\<close>

named_theorems result_simps \<open>rewriting of sequenced results\<close>
named_theorems wire_simps \<open>evaluation of the encoders and parsers\<close>

type_synonym byte = "8 word"
type_synonym bytes = "byte list"

datatype go_panic =
    IndexOutOfRange
  | SliceOutOfRange
  | DivideByZero
  | NilDereference
  | PanicMsg string

datatype error =
    EOF
  | ErrUnexpectedEOF
  | ErrMsg string
  | Panic go_panic

type_synonym 'a result = "error + 'a"
type_synonym 'a parser = "bytes \<Rightarrow> ('a \<times> bytes) result"

subsection \<open>Sequencing of results\<close>

definition bindR :: "'a result \<Rightarrow> ('a \<Rightarrow> 'b result) \<Rightarrow> 'b result" where
  "bindR m f = (case m of Inl e \<Rightarrow> Inl e | Inr x \<Rightarrow> f x)"

definition bindP :: "'a parser \<Rightarrow> ('a \<Rightarrow> 'b parser) \<Rightarrow> 'b parser" where
  "bindP p f r = bindR (p r) (\<lambda>(x, r'). f x r')"

definition retP :: "'a \<Rightarrow> 'a parser" where
  "retP x r = Inr (x, r)"

definition failP :: "error \<Rightarrow> 'a parser" where
  "failP e r = Inl e"

definition panics :: "'a result \<Rightarrow> bool" where
  "panics m = (case m of Inl (Panic _) \<Rightarrow> True | _ \<Rightarrow> False)"

definition is_ok :: "'a result \<Rightarrow> bool" where
  "is_ok m = (case m of Inl _ \<Rightarrow> False | Inr _ \<Rightarrow> True)"

lemma bindR_Inl [simp, result_simps]: "bindR (Inl e) f = Inl e"
  by (simp add: bindR_def)

lemma bindR_Inr [simp, result_simps]: "bindR (Inr x) f = f x"
  by (simp add: bindR_def)

lemma bindR_eq_Inr:
  "bindR m f = Inr y \<longleftrightarrow> (\<exists>x. m = Inr x \<and> f x = Inr y)"
  by (cases m) auto

lemma bindR_eq_Inl:
  "bindR m f = Inl e \<longleftrightarrow> m = Inl e \<or> (\<exists>x. m = Inr x \<and> f x = Inl e)"
  by (cases m) auto

lemma bindR_assoc: "bindR (bindR m f) g = bindR m (\<lambda>x. bindR (f x) g)"
  by (cases m) simp_all

lemma retP_apply [simp, result_simps]: "retP x r = Inr (x, r)"
  by (simp add: retP_def)

lemma failP_apply [simp, result_simps]: "failP e r = Inl e"
  by (simp add: failP_def)

lemma bindP_Inr: "p r = Inr (x, r') \<Longrightarrow> bindP p f r = f x r'"
  by (simp add: bindP_def)

lemma bindP_Inl: "p r = Inl e \<Longrightarrow> bindP p f r = Inl e"
  by (simp add: bindP_def)

lemma bindP_eq_Inr:
  "bindP p f r = Inr y \<longleftrightarrow> (\<exists>x r'. p r = Inr (x, r') \<and> f x r' = Inr y)"
  by (auto simp: bindP_def bindR_eq_Inr)

lemma panics_simps [simp]:
  "panics (Inr x) = False"
  "panics (Inl (Panic p)) = True"
  "panics (Inl EOF) = False"
  "panics (Inl ErrUnexpectedEOF) = False"
  "panics (Inl (ErrMsg s)) = False"
  by (simp_all add: panics_def)

lemma is_ok_simps [simp]: "is_ok (Inr x)" "\<not> is_ok (Inl e)"
  by (simp_all add: is_ok_def)

lemma is_ok_ex: "is_ok m \<longleftrightarrow> (\<exists>x. m = Inr x)"
  by (cases m) simp_all

lemma panics_bindR:
  "panics (bindR m f) \<longleftrightarrow> panics m \<or> (\<exists>x. m = Inr x \<and> panics (f x))"
  by (cases m) (simp_all add: panics_def)

lemma panics_bindP:
  "panics (bindP p f r) \<longleftrightarrow> panics (p r) \<or> (\<exists>x r'. p r = Inr (x, r') \<and> panics (f x r'))"
  by (auto simp: bindP_def panics_bindR)

subsection \<open>Checked accesses\<close>

definition index_at :: "'a list \<Rightarrow> nat \<Rightarrow> 'a result" where
  "index_at xs i = (if i < length xs then Inr (xs ! i) else Inl (Panic IndexOutOfRange))"

definition slice_at :: "'a list \<Rightarrow> nat \<Rightarrow> nat \<Rightarrow> 'a list result" where
  "slice_at xs i j =
     (if i \<le> j \<and> j \<le> length xs then Inr (take (j - i) (drop i xs))
      else Inl (Panic SliceOutOfRange))"

lemma index_at_ok [simp]: "i < length xs \<Longrightarrow> index_at xs i = Inr (xs ! i)"
  by (simp add: index_at_def)

lemma slice_at_ok [simp]:
  "i \<le> j \<Longrightarrow> j \<le> length xs \<Longrightarrow> slice_at xs i j = Inr (take (j - i) (drop i xs))"
  by (simp add: slice_at_def)

lemma index_at_eq_Inr: "index_at xs i = Inr x \<longleftrightarrow> i < length xs \<and> xs ! i = x"
  by (auto simp: index_at_def)

lemma panics_index_at [simp]: "panics (index_at xs i) \<longleftrightarrow> length xs \<le> i"
  by (auto simp: index_at_def)

lemma panics_slice_at [simp]: "panics (slice_at xs i j) \<longleftrightarrow> \<not> (i \<le> j \<and> j \<le> length xs)"
  by (auto simp: slice_at_def)

subsection \<open>Readers\<close>

text \<open>
  \<open>io.ReadFull(r, buf)\<close> with \<open>len(buf) = n\<close>: end of file when no byte at all could be read,
  \<open>ErrUnexpectedEOF\<close> when only some could, and nothing is read for an empty buffer.
\<close>

definition ReadFull :: "nat \<Rightarrow> bytes parser" where
  "ReadFull n r =
     (if n \<le> length r then Inr (take n r, drop n r)
      else if r = [] then Inl EOF
      else Inl ErrUnexpectedEOF)"

lemma ReadFull_append: "length xs = n \<Longrightarrow> ReadFull n (xs @ r) = Inr (xs, r)"
  by (simp add: ReadFull_def)

lemma ReadFull_eq_Inr:
  "ReadFull n r = Inr (x, r') \<longleftrightarrow> length x = n \<and> r = x @ r'"
  by (auto simp: ReadFull_def)

lemma ReadFull_0 [simp]: "ReadFull 0 r = Inr ([], r)"
  by (simp add: ReadFull_def)

lemma ReadFull_1_Cons [simp]: "ReadFull 1 (x # r) = Inr ([x], r)" "ReadFull (Suc 0) (x # r) = Inr ([x], r)"
  by (simp_all add: ReadFull_def)

lemma ReadFull_2_Cons [simp]: "ReadFull 2 (x # y # r) = Inr ([x, y], r)"
  by (simp add: ReadFull_def)

lemma bindP_ReadFull_append: "length xs = n \<Longrightarrow> bindP (ReadFull n) f (xs @ r) = f xs r"
  by (simp add: bindP_def ReadFull_append)

lemma bindP_ReadFull_Cons [simp]:
  "bindP (ReadFull 1) f (x # r) = f [x] r"
  "bindP (ReadFull (Suc 0)) f (x # r) = f [x] r"
  "bindP (ReadFull 2) f (x # y # r) = f [x, y] r"
  by (simp_all add: bindP_def)

lemma panics_ReadFull [simp]: "\<not> panics (ReadFull n r)"
  by (simp add: ReadFull_def)

lemma ReadFull_length:
  "ReadFull n r = Inr (x, r') \<Longrightarrow> length x = n \<and> length r = n + length r'"
  by (auto simp: ReadFull_eq_Inr)

subsection \<open>Bytes and strings\<close>

definition byte_of_char :: "char \<Rightarrow> byte" where
  "byte_of_char c = of_nat (of_char c)"

definition char_of_byte :: "byte \<Rightarrow> char" where
  "char_of_byte b = char_of (unat b)"

definition str_bytes :: "string \<Rightarrow> bytes" where
  "str_bytes s = map byte_of_char s"

definition bytes_str :: "bytes \<Rightarrow> string" where
  "bytes_str b = map char_of_byte b"

lemma unat_byte_less [simp]: "unat (b :: byte) < 256"
  using unsigned_less [of b, where ?'a = nat] by simp

lemma unat_byte_of_char: "unat (byte_of_char c) = of_char c"
proof -
  have "of_char c mod 256 = (of_char c :: nat)" by simp
  then show ?thesis by (simp add: byte_of_char_def unat_of_nat)
qed

lemma char_of_byte_of_char [simp]: "char_of_byte (byte_of_char c) = c"
  by (simp add: char_of_byte_def unat_byte_of_char)

lemma byte_of_char_of_byte [simp]: "byte_of_char (char_of_byte b) = b"
proof -
  have "of_char (char_of (unat b)) = unat b mod (256 :: nat)" by simp
  also have "\<dots> = unat b" using unat_byte_less [of b] by (rule mod_less)
  finally show ?thesis by (simp add: byte_of_char_def char_of_byte_def)
qed

lemma bytes_str_bytes [simp]: "bytes_str (str_bytes s) = s"
  by (simp add: bytes_str_def str_bytes_def comp_def)

lemma str_bytes_str [simp]: "str_bytes (bytes_str b) = b"
  by (simp add: bytes_str_def str_bytes_def comp_def)

lemma length_str_bytes [simp]: "length (str_bytes s) = length s"
  by (simp add: str_bytes_def)

lemma length_bytes_str [simp]: "length (bytes_str b) = length b"
  by (simp add: bytes_str_def)

lemma bytes_str_append [simp]: "bytes_str (a @ b) = bytes_str a @ bytes_str b"
  by (simp add: bytes_str_def)

lemma str_bytes_append [simp]: "str_bytes (a @ b) = str_bytes a @ str_bytes b"
  by (simp add: str_bytes_def)

lemma str_bytes_inject [simp]: "str_bytes a = str_bytes b \<longleftrightarrow> a = b"
  by (metis bytes_str_bytes)

subsection \<open>Big-endian 16 bit numbers\<close>

definition be16 :: "byte \<Rightarrow> byte \<Rightarrow> int" where
  "be16 hi lo = uint hi * 256 + uint lo"

definition byte_of_int :: "int \<Rightarrow> byte" where
  "byte_of_int i = word_of_int i"

text \<open>\<open>byte(p >> 8), byte(p)\<close>: the two low bytes of a Go \<open>int\<close>, high byte first.\<close>

definition port_bytes :: "int \<Rightarrow> bytes" where
  "port_bytes p = [byte_of_int (p div 256), byte_of_int p]"

lemma uint_byte_bounds: "0 \<le> uint (b :: byte)" "uint (b :: byte) < 256"
  using uint_lt2p [of b] by simp_all

lemma uint_byte_of_int: "uint (byte_of_int i) = i mod 256"
  by (simp add: byte_of_int_def uint_word_of_int)

lemma byte_of_int_uint [simp]: "byte_of_int (uint b) = b"
  by (simp add: byte_of_int_def)

lemma byte_of_int_mod: "byte_of_int (i mod 256) = byte_of_int i"
  by (rule word_uint_eqI) (simp add: uint_byte_of_int)

lemma length_port_bytes [simp]: "length (port_bytes p) = 2"
  by (simp add: port_bytes_def)

lemma be16_bounds: "0 \<le> be16 a b" "be16 a b < 65536"
  using uint_byte_bounds [of a] uint_byte_bounds [of b] by (simp_all add: be16_def)

lemma mod_65536_split: "(p :: int) mod 65536 = p div 256 mod 256 * 256 + p mod 256"
  using mod_mult2_eq' [of p 256 256] by simp

lemma be16_port_bytes:
  "be16 (byte_of_int (p div 256)) (byte_of_int p) = p mod 65536"
  by (simp only: be16_def uint_byte_of_int mod_65536_split)

lemma port_bytes_be16: "port_bytes (be16 a b) = [a, b]"
proof -
  have "be16 a b div 256 = uint a" and "be16 a b mod 256 = uint b"
    using uint_byte_bounds [of b] by (simp_all add: be16_def)
  then show ?thesis
    using byte_of_int_mod [of "be16 a b"] by (simp add: port_bytes_def)
qed

end
