(* ===== verification/Go_Strings.thy ===== *)
theory Go_Strings
  imports Jocasta_Prelude
begin

section \<open>Go's string library, as far as the sources use it\<close>

text \<open>
  Executable models of the functions of packages \<open>strings\<close>, \<open>bytes\<close> and \<open>strconv\<close> that the
  components call: splitting and joining on a separator, trimming, prefixes, search, ASCII case
  mapping, and decimal conversion. The functions on separators are polymorphic in the element
  type because the sources call both the \<open>strings\<close> and the \<open>bytes\<close> versions.
\<close>

subsection \<open>Splitting and joining\<close>

text \<open>\<open>strings.Split(s, sep)\<close> for a separator of one character.\<close>

fun split_on :: "'a \<Rightarrow> 'a list \<Rightarrow> 'a list list" where
  "split_on c [] = [[]]"
| "split_on c (x # xs) =
     (if x = c then [] # split_on c xs
      else (case split_on c xs of [] \<Rightarrow> [[x]] | y # ys \<Rightarrow> (x # y) # ys))"

text \<open>\<open>strings.Join(xss, sep)\<close>.\<close>

fun join_with :: "'a list \<Rightarrow> 'a list list \<Rightarrow> 'a list" where
  "join_with sep [] = []"
| "join_with sep [x] = x"
| "join_with sep (x # y # zs) = x @ sep @ join_with sep (y # zs)"

text \<open>\<open>strings.HasPrefix\<close>, \<open>strings.TrimPrefix\<close>.\<close>

definition has_prefix :: "'a list \<Rightarrow> 'a list \<Rightarrow> bool" where
  "has_prefix p s \<longleftrightarrow> take (length p) s = p"

definition trim_prefix :: "'a list \<Rightarrow> 'a list \<Rightarrow> 'a list" where
  "trim_prefix p s = (if has_prefix p s then drop (length p) s else s)"

text \<open>
  The first position of a non-empty separator, as the pair of what stands before and what
  stands after it: the core of \<open>strings.Index\<close>, \<open>SplitN(s, sep, 2)\<close> and \<open>Replace(\<dots>, 1)\<close>.
\<close>

fun break_on :: "'a list \<Rightarrow> 'a list \<Rightarrow> ('a list \<times> 'a list) option" where
  "break_on sep [] = (if sep = [] then Some ([], []) else None)"
| "break_on sep (x # xs) =
     (if has_prefix sep (x # xs) then Some ([], drop (length sep) (x # xs))
      else map_option (\<lambda>(a, b). (x # a, b)) (break_on sep xs))"

definition str_contains :: "'a list \<Rightarrow> 'a list \<Rightarrow> bool" where
  "str_contains s sub = (break_on sub s \<noteq> None)"

lemma break_on_length:
  "break_on sep s = Some (a, b) \<Longrightarrow> length s = length a + length sep + length b"
proof (induction s arbitrary: a)
  case Nil
  then show ?case by (simp split: if_splits)
next
  case (Cons x xs)
  show ?case
  proof (cases "has_prefix sep (x # xs)")
    case True
    then have "length sep \<le> length (x # xs)"
      by (metis has_prefix_def length_take min.cobounded1)
    with True Cons.prems show ?thesis by auto
  next
    case False
    with Cons.prems obtain a' where "break_on sep xs = Some (a', b)" "a = x # a'"
      by auto
    with Cons.IH show ?thesis by auto
  qed
qed

text \<open>\<open>strings.Split(s, sep)\<close> for a separator of any positive length.\<close>

function split_str :: "'a list \<Rightarrow> 'a list \<Rightarrow> 'a list list" where
  "split_str sep s =
     (if sep = [] then map (\<lambda>x. [x]) s
      else case break_on sep s of
          None \<Rightarrow> [s]
        | Some (a, b) \<Rightarrow> a # split_str sep b)"
  by pat_completeness auto
termination
proof (relation "measure (\<lambda>(sep, s). length s)", simp)
  fix sep s :: "'a list" and x a b
  assume "sep \<noteq> []" "break_on sep s = Some x" "(a, b) = x"
  then show "((sep, b), sep, s) \<in> measure (\<lambda>(sep, s). length s)"
    by (auto dest: break_on_length)
qed

declare split_str.simps [simp del]

text \<open>\<open>strings.SplitN(s, sep, 2)\<close>.\<close>

definition split_n2 :: "'a list \<Rightarrow> 'a list \<Rightarrow> 'a list list" where
  "split_n2 sep s = (case break_on sep s of None \<Rightarrow> [s] | Some (a, b) \<Rightarrow> [a, b])"

text \<open>\<open>strings.Replace(s, old, new, 1)\<close>.\<close>

definition replace_first :: "'a list \<Rightarrow> 'a list \<Rightarrow> 'a list \<Rightarrow> 'a list" where
  "replace_first old new s =
     (case break_on old s of None \<Rightarrow> s | Some (a, b) \<Rightarrow> a @ new @ b)"

text \<open>\<open>strings.Trim(s, cutset)\<close>; \<open>strings.Fields(s)\<close> on ASCII white space.\<close>

definition trim_set :: "'a list \<Rightarrow> 'a list \<Rightarrow> 'a list" where
  "trim_set cs s =
     rev (dropWhile (\<lambda>c. c \<in> set cs) (rev (dropWhile (\<lambda>c. c \<in> set cs) s)))"

definition is_space :: "char \<Rightarrow> bool" where
  "is_space c \<longleftrightarrow> (of_char c :: nat) \<in> {9, 10, 11, 12, 13, 32}"

fun fields_acc :: "string \<Rightarrow> string \<Rightarrow> string list" where
  "fields_acc acc [] = (if acc = [] then [] else [rev acc])"
| "fields_acc acc (c # cs) =
     (if is_space c then (if acc = [] then [] else [rev acc]) @ fields_acc [] cs
      else fields_acc (c # acc) cs)"

definition str_fields :: "string \<Rightarrow> string list" where
  "str_fields s = fields_acc [] s"

text \<open>\<open>strings.ToUpper\<close> and \<open>strings.ToLower\<close> on ASCII.\<close>

definition upper_char :: "char \<Rightarrow> char" where
  "upper_char c = (let n = of_char c :: nat in if 97 \<le> n \<and> n \<le> 122 then char_of (n - 32) else c)"

definition lower_char :: "char \<Rightarrow> char" where
  "lower_char c = (let n = of_char c :: nat in if 65 \<le> n \<and> n \<le> 90 then char_of (n + 32) else c)"

definition to_upper :: "string \<Rightarrow> string" where
  "to_upper s = map upper_char s"

definition to_lower :: "string \<Rightarrow> string" where
  "to_lower s = map lower_char s"

subsection \<open>Decimal conversion\<close>

definition is_digit :: "char \<Rightarrow> bool" where
  "is_digit c \<longleftrightarrow> 48 \<le> (of_char c :: nat) \<and> (of_char c :: nat) \<le> 57"

definition digit_val :: "char \<Rightarrow> nat" where
  "digit_val c = of_char c - 48"

definition digit_char :: "nat \<Rightarrow> char" where
  "digit_char d = char_of (d + 48)"

fun dec_val :: "nat \<Rightarrow> string \<Rightarrow> nat" where
  "dec_val acc [] = acc"
| "dec_val acc (c # cs) = dec_val (acc * 10 + digit_val c) cs"

fun dec_str :: "nat \<Rightarrow> string" where
  "dec_str n = (if n < 10 then [digit_char n] else dec_str (n div 10) @ [digit_char (n mod 10)])"

declare dec_str.simps [simp del]

text \<open>\<open>strconv.Itoa\<close>.\<close>

definition Itoa :: "int \<Rightarrow> string" where
  "Itoa i = (if i < 0 then CHR ''-'' # dec_str (nat (- i)) else dec_str (nat i))"

text \<open>
  \<open>strconv.Atoi\<close>: an optional sign, at least one decimal digit and nothing else, and the value
  in the range of a 64 bit \<open>int\<close>.
\<close>

definition atoi_digits :: "bool \<Rightarrow> string \<Rightarrow> int result" where
  "atoi_digits neg ds =
     (if ds = [] \<or> \<not> list_all is_digit ds then Inl (ErrMsg ''strconv.Atoi: invalid syntax'')
      else let v = (if neg then - int (dec_val 0 ds) else int (dec_val 0 ds)) in
        if - (2 ^ 63) \<le> v \<and> v < 2 ^ 63 then Inr v
        else Inl (ErrMsg ''strconv.Atoi: value out of range''))"

definition Atoi :: "string \<Rightarrow> int result" where
  "Atoi s =
     (case s of
        [] \<Rightarrow> atoi_digits False []
      | c # cs \<Rightarrow>
          if c = CHR ''-'' then atoi_digits True cs
          else if c = CHR ''+'' then atoi_digits False cs
          else atoi_digits False s)"

subsection \<open>Lemmas on splitting and joining\<close>

lemma split_on_not_Nil [simp]: "split_on c s \<noteq> []"
  by (cases s) (auto split: list.splits)

lemma split_on_no_sep: "c \<notin> set s \<Longrightarrow> split_on c s = [s]"
  by (induction s) auto

lemma split_on_append:
  "c \<notin> set a \<Longrightarrow> split_on c (a @ c # b) = a # split_on c b"
  by (induction a) auto

lemma split_on_parts: "x \<in> set (split_on c s) \<Longrightarrow> c \<notin> set x"
proof (induction s arbitrary: x)
  case Nil
  then show ?case by simp
next
  case (Cons y ys)
  obtain z zs where "split_on c ys = z # zs"
    by (meson neq_Nil_conv split_on_not_Nil)
  with Cons show ?case by (auto split: if_splits)
qed

lemma join_split_on: "join_with [c] (split_on c s) = s"
proof (induction s)
  case Nil
  then show ?case by simp
next
  case (Cons x xs)
  obtain z zs where "split_on c xs = z # zs"
    by (meson neq_Nil_conv split_on_not_Nil)
  with Cons show ?case by (cases zs) auto
qed

lemma split_on_singleton_iff: "length (split_on c s) = 1 \<longleftrightarrow> c \<notin> set s"
proof
  assume "length (split_on c s) = 1"
  then obtain p where "split_on c s = [p]" by (metis One_nat_def length_0_conv length_Suc_conv)
  then show "c \<notin> set s"
    by (metis join_split_on join_with.simps(2) list.set_intros(1) split_on_parts)
qed (simp add: split_on_no_sep)

lemma split_on_two_iff:
  "split_on c s = [a, b] \<longleftrightarrow> s = a @ c # b \<and> c \<notin> set a \<and> c \<notin> set b"
proof
  assume h: "split_on c s = [a, b]"
  then have "c \<notin> set a" "c \<notin> set b"
    using split_on_parts [of a c s] split_on_parts [of b c s] by simp_all
  moreover have "s = a @ c # b"
    using join_split_on [of c s] h by simp
  ultimately show "s = a @ c # b \<and> c \<notin> set a \<and> c \<notin> set b" by simp
qed (simp add: split_on_append split_on_no_sep)

lemma has_prefix_append [simp]: "has_prefix p (p @ s)"
  by (simp add: has_prefix_def)

lemma has_prefix_ex: "has_prefix p s \<longleftrightarrow> (\<exists>t. s = p @ t)"
  by (metis append_take_drop_id has_prefix_append has_prefix_def)

lemma break_on_Some: "break_on sep s = Some (a, b) \<Longrightarrow> s = a @ sep @ b"
proof (induction s arbitrary: a)
  case Nil
  then show ?case by (simp split: if_splits)
next
  case (Cons x xs)
  show ?case
  proof (cases "has_prefix sep (x # xs)")
    case True
    with Cons.prems have "a = []" "b = drop (length sep) (x # xs)" by auto
    with True show ?thesis by (metis append_Nil append_take_drop_id has_prefix_def)
  next
    case False
    with Cons.prems obtain a' where "break_on sep xs = Some (a', b)" "a = x # a'"
      by auto
    with Cons.IH show ?thesis by simp
  qed
qed

lemma break_on_None: "break_on sep s = None \<Longrightarrow> s \<noteq> a @ sep @ b"
proof (induction s arbitrary: a)
  case Nil
  then show ?case by (auto split: if_splits)
next
  case (Cons x xs)
  show ?case
  proof
    assume eq: "x # xs = a @ sep @ b"
    show False
    proof (cases a)
      case Nil
      with eq have "has_prefix sep (x # xs)" by (metis append_Nil has_prefix_append)
      with Cons.prems show False by simp
    next
      case (Cons y ys)
      with eq have "xs = ys @ sep @ b" by simp
      moreover have "break_on sep xs = None"
        using Cons.prems by (auto split: if_splits)
      ultimately show False using Cons.IH by blast
    qed
  qed
qed

lemma str_contains_iff: "str_contains s sub \<longleftrightarrow> (\<exists>a b. s = a @ sub @ b)"
proof (cases "break_on sub s")
  case None
  then show ?thesis using break_on_None [of sub s] by (simp add: str_contains_def)
next
  case (Some ab)
  then show ?thesis
    using break_on_Some [of sub s "fst ab" "snd ab"] by (auto simp: str_contains_def)
qed

subsection \<open>Lemmas on trimming and fields\<close>

lemma trim_set_id:
  assumes "s \<noteq> []" "hd s \<notin> set cs" "last s \<notin> set cs"
  shows "trim_set cs s = s"
proof -
  have "dropWhile (\<lambda>c. c \<in> set cs) s = s" using assms by (cases s) auto
  moreover have "dropWhile (\<lambda>c. c \<in> set cs) (rev s) = rev s"
    using assms by (cases s rule: rev_cases) auto
  ultimately show ?thesis by (simp add: trim_set_def)
qed

lemma trim_set_Cons: "x \<notin> set cs \<Longrightarrow> \<exists>r'. trim_set cs (x # r) = x # r'"
  by (auto simp: trim_set_def dropWhile_append intro: exI [of _ "rev _"])

lemma trim_set_clean: "set s \<inter> set cs = {} \<Longrightarrow> trim_set cs s = s"
  by (cases "s = []") (simp add: trim_set_def, meson disjoint_iff hd_in_set last_in_set trim_set_id)

lemma trim_set_space:
  assumes "c \<in> set cs"
  shows "trim_set cs (c # s) = trim_set cs s"
  using assms by (simp add: trim_set_def)

lemma fields_acc_word: "\<forall>c \<in> set w. \<not> is_space c \<Longrightarrow> fields_acc acc (w @ s) = fields_acc (rev w @ acc) s"
  by (induction w arbitrary: acc) simp_all

text \<open>The words of a text are found again.\<close>

lemma str_fields_word:
  assumes "w \<noteq> []" "\<forall>c \<in> set w. \<not> is_space c" "is_space c"
  shows "str_fields (w @ c # s) = w # str_fields s"
  using assms by (simp add: str_fields_def fields_acc_word)

lemma str_fields_last: "w \<noteq> [] \<Longrightarrow> \<forall>c \<in> set w. \<not> is_space c \<Longrightarrow> str_fields w = [w]"
  using fields_acc_word [of w "[]" "[]"] by (simp add: str_fields_def)

lemma str_fields_Nil [simp]: "str_fields [] = []"
  by (simp add: str_fields_def)

lemma break_on_single: "c \<notin> set a \<Longrightarrow> break_on [c] (a @ c # b) = Some (a, b)"
  by (induction a) (auto simp: has_prefix_def)

lemma split_n2_single: "c \<notin> set a \<Longrightarrow> split_n2 [c] (a @ c # b) = [a, b]"
  by (simp add: split_n2_def break_on_single)

subsection \<open>Lemmas on decimal conversion\<close>

lemma of_char_digit_char: "d < 10 \<Longrightarrow> of_char (digit_char d) = d + 48"
  by (simp add: digit_char_def)

lemma digit_val_char [simp]: "d < 10 \<Longrightarrow> digit_val (digit_char d) = d"
  by (simp add: digit_val_def of_char_digit_char)

lemma is_digit_char [simp]: "d < 10 \<Longrightarrow> is_digit (digit_char d)"
  by (simp add: is_digit_def of_char_digit_char)

lemma dec_val_append: "dec_val acc (a @ b) = dec_val (dec_val acc a) b"
  by (induction a arbitrary: acc) simp_all

lemma dec_val_dec_str [simp]: "dec_val 0 (dec_str n) = n"
proof (induction n rule: dec_str.induct)
  case (1 n)
  then show ?case by (cases "n < 10") (simp_all add: dec_str.simps [of n] dec_val_append)
qed

lemma dec_str_digits [simp]: "list_all is_digit (dec_str n)"
proof (induction n rule: dec_str.induct)
  case (1 n)
  then show ?case by (cases "n < 10") (simp_all add: dec_str.simps [of n])
qed

lemma dec_str_not_Nil [simp]: "dec_str n \<noteq> []"
  by (simp add: dec_str.simps [of n])

lemma is_digit_not_sign: "is_digit c \<Longrightarrow> c \<noteq> CHR ''-'' \<and> c \<noteq> CHR ''+''"
  by (auto simp: is_digit_def)

lemma is_digit_not_addr:
  "is_digit c \<Longrightarrow> c \<noteq> CHR '':'' \<and> c \<noteq> CHR ''['' \<and> c \<noteq> CHR '']'' \<and> c \<noteq> CHR ''.''"
  by (auto simp: is_digit_def)

lemma dec_str_digit_mem: "c \<in> set (dec_str n) \<Longrightarrow> is_digit c"
  using dec_str_digits [of n] by (simp add: list_all_iff)

lemma Itoa_nat: "0 \<le> i \<Longrightarrow> Itoa i = dec_str (nat i)"
  by (simp add: Itoa_def)

lemma Itoa_nonempty [simp]: "Itoa i \<noteq> []"
  by (simp add: Itoa_def)

theorem Atoi_Itoa:
  assumes "- (2 ^ 63) \<le> i" "i < 2 ^ 63"
  shows "Atoi (Itoa i) = Inr i"
proof (cases "i < 0")
  case True
  with assms show ?thesis by (simp add: Itoa_def Atoi_def atoi_digits_def)
next
  case False
  obtain c cs where cs: "dec_str (nat i) = c # cs"
    by (meson dec_str_not_Nil neq_Nil_conv)
  then have "is_digit c" using dec_str_digit_mem [of c "nat i"] by simp
  with cs have "Atoi (Itoa i) = atoi_digits False (dec_str (nat i))"
    using False is_digit_not_sign [of c] by (simp add: Itoa_def Atoi_def)
  with False assms show ?thesis by (simp add: atoi_digits_def)
qed

lemma Atoi_range: "Atoi s = Inr i \<Longrightarrow> - (2 ^ 63) \<le> i \<and> i < 2 ^ 63"
  by (auto simp: Atoi_def atoi_digits_def Let_def split: list.splits if_splits)

lemma panics_Atoi [simp]: "\<not> panics (Atoi s)"
  by (auto simp: Atoi_def atoi_digits_def Let_def split: list.splits)

end
