(* ===== verification/Go_Net.thy ===== *)
theory Go_Net
  imports Go_Strings
begin

section \<open>Go's net package, as far as the sources use it\<close>

text \<open>
  Models of \<open>net.SplitHostPort\<close>, \<open>net.JoinHostPort\<close>, \<open>net.IP\<close> (a byte slice, nil being the
  empty list), its \<open>To4\<close>, \<open>To16\<close> and \<open>String\<close>, and \<open>net.ParseIP\<close>, as in the releases the
  repository builds on (Go 1.14 and 1.15: leading zeros of a decimal octet are accepted).
\<close>

subsection \<open>Host and port\<close>

definition break_last :: "'a \<Rightarrow> 'a list \<Rightarrow> ('a list \<times> 'a list) option" where
  "break_last c s =
     (if c \<in> set s
      then Some (rev (tl (dropWhile (\<lambda>x. x \<noteq> c) (rev s))), rev (takeWhile (\<lambda>x. x \<noteq> c) (rev s)))
      else None)"

definition split_check :: "string \<Rightarrow> nat \<Rightarrow> nat \<Rightarrow> string \<times> string \<Rightarrow> (string \<times> string) result" where
  "split_check s j k hp =
     (if CHR ''['' \<in> set (drop j s) then Inl (ErrMsg ''unexpected [ in address'')
      else if CHR '']'' \<in> set (drop k s) then Inl (ErrMsg ''unexpected ] in address'')
      else Inr hp)"

definition SplitHostPort :: "string \<Rightarrow> (string \<times> string) result" where
  "SplitHostPort s =
     (case break_last (CHR '':'') s of
        None \<Rightarrow> Inl (ErrMsg ''missing port in address'')
      | Some (bef, port) \<Rightarrow>
          if s ! 0 = CHR ''['' then
            (if CHR '']'' \<notin> set s then Inl (ErrMsg ''missing ] in address'')
             else let pre = takeWhile (\<lambda>x. x \<noteq> CHR '']'') s; e = length pre in
               if e + 1 = length s then Inl (ErrMsg ''missing port in address'')
               else if e + 1 = length bef then split_check s 1 (e + 1) (drop 1 pre, port)
               else if s ! (e + 1) = CHR '':'' then Inl (ErrMsg ''too many colons in address'')
               else Inl (ErrMsg ''missing port in address''))
          else if CHR '':'' \<in> set bef then Inl (ErrMsg ''too many colons in address'')
          else split_check s 0 0 (bef, port))"

definition JoinHostPort :: "string \<Rightarrow> string \<Rightarrow> string" where
  "JoinHostPort host port =
     (if CHR '':'' \<in> set host then ''['' @ host @ '']:'' @ port else host @ '':'' @ port)"

subsection \<open>IP addresses\<close>

definition v4_prefix :: bytes where
  "v4_prefix = [0, 0, 0, 0, 0, 0, 0, 0, 0, 0, 255, 255]"

definition IPv4 :: "byte \<Rightarrow> byte \<Rightarrow> byte \<Rightarrow> byte \<Rightarrow> bytes" where
  "IPv4 a b c d = v4_prefix @ [a, b, c, d]"

definition To4 :: "bytes \<Rightarrow> bytes" where
  "To4 ip =
     (if length ip = 4 then ip
      else if length ip = 16 \<and> take 12 ip = v4_prefix then drop 12 ip
      else [])"

definition To16 :: "bytes \<Rightarrow> bytes" where
  "To16 ip = (if length ip = 4 then v4_prefix @ ip else if length ip = 16 then ip else [])"

text \<open>Printing: dotted decimal, or hexadecimal groups with the longest run of zero groups cut.\<close>

definition hex_char :: "nat \<Rightarrow> char" where
  "hex_char d = (if d < 10 then char_of (d + 48) else char_of (d + 87))"

fun hex_str :: "nat \<Rightarrow> string" where
  "hex_str n = (if n < 16 then [hex_char n] else hex_str (n div 16) @ [hex_char (n mod 16)])"

declare hex_str.simps [simp del]

definition dotted :: "bytes \<Rightarrow> string" where
  "dotted ip = join_with ''.'' (map (\<lambda>b. dec_str (unat b)) ip)"

fun ip_groups :: "bytes \<Rightarrow> nat list" where
  "ip_groups (a # b # bs) = (unat a * 256 + unat b) # ip_groups bs"
| "ip_groups _ = []"

function best_run :: "nat list \<Rightarrow> nat \<Rightarrow> nat \<times> nat \<Rightarrow> nat \<times> nat" where
  "best_run gs i e =
     (if i \<ge> length gs then e
      else let n = length (takeWhile (\<lambda>g. g = 0) (drop i gs)) in
        if n > 0 \<and> n > snd e - fst e then best_run gs (Suc (i + n)) (i, i + n)
        else best_run gs (Suc i) e)"
  by pat_completeness auto
termination
  by (relation "measure (\<lambda>(gs, i, e). length gs - i)") auto

declare best_run.simps [simp del]

function print_groups :: "nat list \<Rightarrow> (nat \<times> nat) option \<Rightarrow> nat \<Rightarrow> string" where
  "print_groups gs e i =
     (if i \<ge> length gs then []
      else case e of
          Some (e0, e1) \<Rightarrow>
            if i = e0 \<and> e0 < e1 then
              ''::'' @ (if e1 \<ge> length gs then []
                         else hex_str (gs ! e1) @ print_groups gs e (Suc e1))
            else (if i > 0 then '':'' else []) @ hex_str (gs ! i) @ print_groups gs e (Suc i)
        | None \<Rightarrow> (if i > 0 then '':'' else []) @ hex_str (gs ! i) @ print_groups gs e (Suc i))"
  by pat_completeness auto
termination
  by (relation "measure (\<lambda>(gs, e, i). length gs - i)") auto

declare print_groups.simps [simp del]

definition ipv6_str :: "bytes \<Rightarrow> string" where
  "ipv6_str ip =
     (let gs = ip_groups ip; e = best_run gs 0 (0, 0) in
      print_groups gs (if snd e - fst e \<le> 1 then None else Some e) 0)"

definition IP_String :: "bytes \<Rightarrow> string" where
  "IP_String ip =
     (if ip = [] then ''<nil>''
      else if To4 ip \<noteq> [] then dotted (To4 ip)
      else if length ip \<noteq> 16
        then CHR ''?'' # concat (map (\<lambda>b. [hex_char (unat b div 16), hex_char (unat b mod 16)]) ip)
      else ipv6_str ip)"

text \<open>Parsing. The intermediate bound of Go's digit loops is implied by the final one.\<close>

definition dtoi :: "string \<Rightarrow> (nat \<times> string) option" where
  "dtoi s = (let ds = takeWhile is_digit s in
     if ds = [] then None else Some (dec_val 0 ds, dropWhile is_digit s))"

fun parse_octets :: "nat \<Rightarrow> bool \<Rightarrow> string \<Rightarrow> (bytes \<times> string) option" where
  "parse_octets 0 first s = Some ([], s)"
| "parse_octets (Suc k) first s =
     (if s = [] \<or> (\<not> first \<and> hd s \<noteq> CHR ''.'') then None
      else case dtoi (if first then s else tl s) of
          None \<Rightarrow> None
        | Some (n, rest) \<Rightarrow>
            if n > 255 then None
            else map_option (\<lambda>(bs, r). (of_nat n # bs, r)) (parse_octets k False rest))"

definition parseIPv4 :: "string \<Rightarrow> bytes" where
  "parseIPv4 s =
     (case parse_octets 4 True s of
        Some (bs, []) \<Rightarrow> v4_prefix @ bs
      | _ \<Rightarrow> [])"

definition hex_val :: "char \<Rightarrow> nat option" where
  "hex_val c = (let n = of_char c :: nat in
     if 48 \<le> n \<and> n \<le> 57 then Some (n - 48)
     else if 97 \<le> n \<and> n \<le> 102 then Some (n - 87)
     else if 65 \<le> n \<and> n \<le> 70 then Some (n - 55)
     else None)"

fun xtoi_loop :: "nat \<Rightarrow> string \<Rightarrow> nat \<times> string" where
  "xtoi_loop n [] = (n, [])"
| "xtoi_loop n (c # cs) =
     (case hex_val c of None \<Rightarrow> (n, c # cs) | Some d \<Rightarrow> xtoi_loop (n * 16 + d) cs)"

definition xtoi :: "string \<Rightarrow> (nat \<times> string) option" where
  "xtoi s = (if s = [] \<or> hex_val (hd s) = None then None else Some (xtoi_loop 0 s))"

text \<open>
  One round of the IPv6 loop: \<open>None\<close> is a syntax error, \<open>Inl\<close> leaves the loop and \<open>Inr\<close>
  goes on. The bytes written so far stand for the array and the index of the source.
\<close>

type_synonym parse6_state = "nat option \<times> bytes \<times> string"

definition parse6_step :: "parse6_state \<Rightarrow> (parse6_state + parse6_state) option" where
  "parse6_step st =
     (case st of (ell, acc, s) \<Rightarrow>
        case xtoi s of
          None \<Rightarrow> None
        | Some (n, rest) \<Rightarrow>
            if n > 65535 then None
            else if rest \<noteq> [] \<and> hd rest = CHR ''.'' then
              (if ell = None \<and> length acc \<noteq> 12 then None
               else if length acc + 4 > 16 then None
               else if parseIPv4 s = [] then None
               else Some (Inl (ell, acc @ drop 12 (parseIPv4 s), [])))
            else let acc' = acc @ [of_nat (n div 256), of_nat n] in
              case rest of
                [] \<Rightarrow> Some (Inl (ell, acc', []))
              | c # s1 \<Rightarrow>
                  if c \<noteq> CHR '':'' \<or> s1 = [] then None
                  else if hd s1 = CHR '':'' then
                    (if ell \<noteq> None then None
                     else if tl s1 = [] then Some (Inl (Some (length acc'), acc', []))
                     else Some (Inr (Some (length acc'), acc', tl s1)))
                  else Some (Inr (ell, acc', s1)))"

definition parse6_inv :: "parse6_state \<Rightarrow> bool" where
  "parse6_inv st \<longleftrightarrow> (case st of (ell, acc, s) \<Rightarrow>
     even (length acc) \<and> length acc \<le> 16 \<and> (\<forall>e. ell = Some e \<longrightarrow> e \<le> length acc))"

lemma parse6_step_grows:
  "parse6_step (ell, acc, s) = Some (Inr (ell', acc', s')) \<Longrightarrow> length acc' = length acc + 2"
  by (auto simp: parse6_step_def Let_def split: if_splits option.splits prod.splits list.splits)

function parse6_loop :: "parse6_state \<Rightarrow> parse6_state option" where
  "parse6_loop (ell, acc, s) =
     (if length acc \<ge> 16 then Some (ell, acc, s)
      else case parse6_step (ell, acc, s) of
          None \<Rightarrow> None
        | Some (Inl st) \<Rightarrow> Some st
        | Some (Inr (ell', acc', s')) \<Rightarrow> parse6_loop (ell', acc', s'))"
  by pat_completeness auto
termination
  by (relation "measure (\<lambda>(ell, acc, s). 16 - length acc)") (auto dest: parse6_step_grows)

declare parse6_loop.simps [simp del]

definition expand6 :: "nat option \<times> bytes \<times> string \<Rightarrow> bytes" where
  "expand6 st =
     (case st of (ell, acc, s) \<Rightarrow>
        if s \<noteq> [] then []
        else if length acc < 16 then
          (case ell of None \<Rightarrow> []
           | Some e \<Rightarrow> take e acc @ replicate (16 - length acc) 0 @ drop e acc)
        else if ell \<noteq> None then []
        else acc)"

definition parseIPv6 :: "string \<Rightarrow> bytes" where
  "parseIPv6 s =
     (let lead = has_prefix ''::'' s; s' = (if lead then drop 2 s else s) in
      if lead \<and> s' = [] then replicate 16 0
      else case parse6_loop (if lead then Some 0 else None, [], s') of
          None \<Rightarrow> []
        | Some st \<Rightarrow> expand6 st)"

definition ParseIP :: "string \<Rightarrow> bytes" where
  "ParseIP s =
     (case find (\<lambda>c. c = CHR ''.'' \<or> c = CHR '':'') s of
        None \<Rightarrow> []
      | Some c \<Rightarrow> if c = CHR ''.'' then parseIPv4 s else parseIPv6 s)"

subsection \<open>Round trip of host and port\<close>

definition addr_safe :: "string \<Rightarrow> bool" where
  "addr_safe s \<longleftrightarrow> CHR ''['' \<notin> set s \<and> CHR '']'' \<notin> set s"

lemma break_last_append:
  assumes "c \<notin> set b"
  shows "break_last c (a @ c # b) = Some (a, b)"
  using assms by (simp add: break_last_def takeWhile_append dropWhile_append)

theorem Split_Join:
  assumes h: "addr_safe host" and p: "addr_safe port" and np: "CHR '':'' \<notin> set port"
  shows "SplitHostPort (JoinHostPort host port) = Inr (host, port)"
proof (cases "CHR '':'' \<in> set host")
  case False
  then have j: "JoinHostPort host port = host @ CHR '':'' # port"
    by (simp add: JoinHostPort_def)
  have "(host @ CHR '':'' # port) ! 0 \<noteq> CHR ''[''"
    using h by (cases host) (auto simp: addr_safe_def)
  with False h p np show ?thesis
    by (simp add: j SplitHostPort_def break_last_append split_check_def addr_safe_def)
next
  case True
  let ?s = "(CHR ''['' # host @ [CHR '']'']) @ CHR '':'' # port"
  have j: "JoinHostPort host port = ?s"
    using True by (simp add: JoinHostPort_def)
  have pre: "takeWhile (\<lambda>x. x \<noteq> CHR '']'') ?s = CHR ''['' # host"
    using h by (simp add: addr_safe_def takeWhile_append)
  show ?thesis
    unfolding j SplitHostPort_def break_last_append [OF np] pre
    using h p by (simp add: split_check_def addr_safe_def)
qed

lemma Itoa_port_chars:
  assumes "0 \<le> i"
  shows "addr_safe (Itoa i)" "CHR '':'' \<notin> set (Itoa i)"
  using assms dec_str_digit_mem is_digit_not_addr
  by (auto simp: Itoa_nat addr_safe_def)

lemma panics_SplitHostPort [simp]: "\<not> panics (SplitHostPort s)"
  by (auto simp: SplitHostPort_def split_check_def Let_def split: option.splits)

lemma SplitHostPort_not_EOF:
  "SplitHostPort s = Inl e \<Longrightarrow> \<exists>m. e = ErrMsg m"
  by (auto simp: SplitHostPort_def split_check_def Let_def split: option.splits if_splits)

subsection \<open>Forms of an address\<close>

lemma length_v4_prefix [simp]: "length v4_prefix = 12"
  by (simp add: v4_prefix_def)

lemma length_IPv4 [simp]: "length (IPv4 a b c d) = 16"
  by (simp add: IPv4_def)

lemma IPv4_not_Nil [simp]: "IPv4 a b c d \<noteq> []"
  by (simp add: IPv4_def)

lemma To4_IPv4 [simp]: "To4 (IPv4 a b c d) = [a, b, c, d]"
  by (simp add: To4_def IPv4_def)

lemma To16_IPv4 [simp]: "To16 (IPv4 a b c d) = IPv4 a b c d"
  by (simp add: To16_def)

lemma To4_length: "To4 ip = [] \<or> length (To4 ip) = 4"
  by (simp add: To4_def)

lemma To16_length: "To16 ip = [] \<or> length (To16 ip) = 16"
  by (simp add: To16_def)

lemma To4_append_v4: "length q = 4 \<Longrightarrow> To4 (v4_prefix @ q) = q"
  by (simp add: To4_def)

lemma To16_of_16: "length ip = 16 \<Longrightarrow> To16 ip = ip"
  by (simp add: To16_def)

lemma length4_cases:
  assumes "length xs = 4"
  obtains a b c d where "xs = [a, b, c, d]"
  using assms by (auto simp: numeral_eq_Suc length_Suc_conv)

lemma parse_octets_length:
  "parse_octets k f s = Some (bs, r) \<Longrightarrow> length bs = k"
proof (induction k arbitrary: f s bs r)
  case 0
  then show ?case by simp
next
  case (Suc k)
  then show ?case by (auto split: if_splits option.splits prod.splits)
qed

lemma parseIPv4_length: "parseIPv4 s = [] \<or> length (parseIPv4 s) = 16"
  by (auto simp: parseIPv4_def split: option.splits list.splits dest: parse_octets_length)

lemma parseIPv4_form: "parseIPv4 s \<noteq> [] \<Longrightarrow> To4 (parseIPv4 s) \<noteq> []"
  by (auto simp: parseIPv4_def To4_append_v4 split: option.splits list.splits dest: parse_octets_length)

text \<open>The result of \<open>ParseIP\<close> is nil or has sixteen bytes.\<close>

lemma parse6_step_inv:
  assumes "parse6_step st = Some r" "parse6_inv st" "length (fst (snd st)) < 16"
  shows "case r of Inl st' \<Rightarrow> parse6_inv st' | Inr st' \<Rightarrow> parse6_inv st'"
proof -
  obtain ell acc s where st: "st = (ell, acc, s)" by (cases st)
  have acc: "even (length acc)" "length acc + 2 \<le> 16" "\<forall>e. ell = Some e \<longrightarrow> e \<le> length acc"
    using assms(2,3) by (auto simp: st parse6_inv_def elim!: evenE)
  have p4: "parseIPv4 s \<noteq> [] \<Longrightarrow> length (parseIPv4 s) = 16"
    using parseIPv4_length by blast
  show ?thesis
    using assms(1) acc p4 unfolding st parse6_step_def parse6_inv_def Let_def prod.case
    by (cases "xtoi s") (auto split: if_splits list.splits)
qed

lemma parse6_loop_inv: "parse6_loop st = Some st' \<Longrightarrow> parse6_inv st \<Longrightarrow> parse6_inv st'"
proof (induction st rule: parse6_loop.induct)
  case (1 ell acc s)
  show ?case
  proof (cases "length acc \<ge> 16")
    case True
    with "1.prems" show ?thesis by (simp add: parse6_loop.simps [of ell acc s])
  next
    case False
    with "1.prems" obtain r where r: "parse6_step (ell, acc, s) = Some r"
      by (auto simp: parse6_loop.simps [of ell acc s] split: option.splits)
    with False have inv: "case r of Inl st' \<Rightarrow> parse6_inv st' | Inr st' \<Rightarrow> parse6_inv st'"
      using parse6_step_inv [OF r "1.prems"(2)] by simp
    show ?thesis
    proof (cases r)
      case (Inl st1)
      with False r "1.prems"(1) inv show ?thesis by (simp add: parse6_loop.simps [of ell acc s])
    next
      case (Inr st1)
      obtain e1 a1 s1 where st1: "st1 = (e1, a1, s1)" by (cases st1)
      from False r "1.prems"(1) have "parse6_loop (e1, a1, s1) = Some st'"
        by (simp add: parse6_loop.simps [of ell acc s] Inr st1)
      with False r inv show ?thesis
        using "1.IH" [OF False r Inr st1 [symmetric] refl] by (simp add: Inr st1)
    qed
  qed
qed

lemma expand6_length: "parse6_inv st \<Longrightarrow> expand6 st = [] \<or> length (expand6 st) = 16"
  by (auto simp: expand6_def parse6_inv_def split: option.splits prod.splits)

lemma parseIPv6_length: "parseIPv6 s = [] \<or> length (parseIPv6 s) = 16"
proof -
  have "expand6 st = [] \<or> length (expand6 st) = 16"
    if "parse6_loop (l, [], t) = Some st" "l = None \<or> l = Some 0" for l t st
    using parse6_loop_inv [OF that(1)] that(2)
    by (intro expand6_length) (auto simp: parse6_inv_def)
  then show ?thesis
    by (auto simp: parseIPv6_def Let_def split: option.splits if_splits)
qed

lemma ParseIP_length: "ParseIP s = [] \<or> length (ParseIP s) = 16"
  using parseIPv4_length [of s] parseIPv6_length [of s]
  by (auto simp: ParseIP_def split: option.splits)

lemma To16_ParseIP [simp]: "To16 (ParseIP s) = ParseIP s"
  using ParseIP_length [of s] by (auto simp: To16_def)

subsection \<open>Round trip of dotted addresses\<close>

lemma dtoi_dec_str:
  assumes "r = [] \<or> \<not> is_digit (hd r)"
  shows "dtoi (dec_str n @ r) = Some (n, r)"
proof -
  have "takeWhile is_digit r = []" "dropWhile is_digit r = r"
    using assms by (cases r; simp)+
  moreover have "\<forall>c \<in> set (dec_str n). is_digit c"
    using dec_str_digit_mem by blast
  ultimately show ?thesis
    by (simp add: dtoi_def takeWhile_append dropWhile_append)
qed

lemma parse_octets_dotted:
  "bs \<noteq> [] \<Longrightarrow>
   parse_octets (length bs) f ((if f then [] else ''.'') @ dotted bs) = Some (bs, [])"
proof (induction bs arbitrary: f)
  case Nil
  then show ?case by simp
next
  case (Cons b bs)
  have dot: "\<not> is_digit (CHR ''.'')" by (simp add: is_digit_def)
  let ?r = "(if bs = [] then [] else ''.'' @ dotted bs)"
  have d: "dotted (b # bs) = dec_str (unat b) @ ?r"
    by (cases bs) (simp_all add: dotted_def)
  have "dtoi (dec_str (unat b) @ ?r) = Some (unat b, ?r)"
    using dot by (intro dtoi_dec_str) simp
  moreover have "parse_octets (length bs) False ?r = Some (bs, [])"
    using Cons.IH [of False] by (cases "bs = []") simp_all
  moreover have "\<not> 255 < unat b" using unat_byte_less [of b] by linarith
  ultimately show ?case by (simp add: d)
qed

lemma find_dotted: "length bs \<ge> 2 \<Longrightarrow>
  find (\<lambda>c. c = CHR ''.'' \<or> c = CHR '':'') (dotted bs) = Some (CHR ''.'')"
proof -
  assume "length bs \<ge> 2"
  then obtain a b cs where bs: "bs = a # b # cs"
    by (metis Suc_le_length_iff numeral_2_eq_2)
  have "find (\<lambda>c. c = CHR ''.'' \<or> c = CHR '':'') (ds @ CHR ''.'' # t) = Some (CHR ''.'')"
    if "\<forall>c \<in> set ds. is_digit c" for ds t
    using that by (induction ds) (auto dest: is_digit_not_addr)
  then show ?thesis
    using dec_str_digit_mem by (simp add: bs dotted_def)
qed

theorem ParseIP_dotted: "ParseIP (dotted [a, b, c, d]) = IPv4 a b c d"
proof -
  have "parse_octets 4 True (dotted [a, b, c, d]) = Some ([a, b, c, d], [])"
    using parse_octets_dotted [of "[a, b, c, d]" True]
    by (simp add: numeral_eq_Suc del: parse_octets.simps)
  then show ?thesis
    by (simp add: ParseIP_def find_dotted parseIPv4_def IPv4_def)
qed

lemma dotted_addr_safe: "addr_safe (dotted bs)" "CHR '':'' \<notin> set (dotted bs)"
proof -
  have "is_digit c \<or> c = CHR ''.''" if "c \<in> set (dotted bs)" for c
    using that
  proof (induction bs)
    case Nil
    then show ?case by (simp add: dotted_def)
  next
    case (Cons b bs)
    then show ?case
      by (cases bs) (auto simp: dotted_def dest: dec_str_digit_mem)
  qed
  then show "addr_safe (dotted bs)" "CHR '':'' \<notin> set (dotted bs)"
    using is_digit_not_addr by (fastforce simp: addr_safe_def)+
qed

lemma IP_String_IPv4 [simp]: "IP_String (IPv4 a b c d) = dotted [a, b, c, d]"
  by (simp add: IP_String_def)

lemma IP_String_4 [simp]: "IP_String [a, b, c, d] = dotted [a, b, c, d]"
  by (simp add: IP_String_def To4_def)

end
