(* ===== verification/Go_Conn.thy ===== *)
theory Go_Conn
  imports Go_Net
begin

section \<open>A network connection\<close>

text \<open>
  The peer's bytes arrive in segments: one \<open>Read\<close> returns at most one segment, as much of it as
  fits the buffer, and the rest stays for the next one; end of file follows the last segment.
  Every successful \<open>Write\<close> is recorded as one segment; whether the write with a given number
  fails, and how, is part of the connection. Deadlines are not modelled: a time-out is one of the
  errors a read or write can end with. An operation that reads and writes is a function from the
  connection to a result and the connection afterwards.
\<close>

record conn =
  inbox :: "bytes list"
  outbox :: "bytes list"
  write_no :: nat
  write_err :: "nat \<Rightarrow> error option"

type_synonym 'a io = "conn \<Rightarrow> 'a result \<times> conn"

definition retIO :: "'a \<Rightarrow> 'a io" where
  "retIO x c = (Inr x, c)"

definition failIO :: "error \<Rightarrow> 'a io" where
  "failIO e c = (Inl e, c)"

definition liftR :: "'a result \<Rightarrow> 'a io" where
  "liftR r c = (r, c)"

definition bindIO :: "'a io \<Rightarrow> ('a \<Rightarrow> 'b io) \<Rightarrow> 'b io" where
  "bindIO m f c = (case m c of (Inl e, c) \<Rightarrow> (Inl e, c) | (Inr x, c) \<Rightarrow> f x c)"

text \<open>
  An error of \<open>m\<close> replaced by \<open>e\<close>, and an error of \<open>m\<close> ignored; a panic is not an error and passes
  through both.
\<close>

definition mapErr :: "error \<Rightarrow> 'a io \<Rightarrow> 'a io" where
  "mapErr e m c = (case m c of
     (Inl (Panic p), c) \<Rightarrow> (Inl (Panic p), c) | (Inl _, c) \<Rightarrow> (Inl e, c) | (Inr x, c) \<Rightarrow> (Inr x, c))"

definition ignoreErr :: "'a io \<Rightarrow> unit io" where
  "ignoreErr m c = (case m c of
     (Inl (Panic p), c) \<Rightarrow> (Inl (Panic p), c) | (_, c) \<Rightarrow> (Inr (), c))"

definition conn_Read :: "nat \<Rightarrow> bytes io" where
  "conn_Read n c = (case inbox c of
     [] \<Rightarrow> (Inl EOF, c)
   | s # ss \<Rightarrow> (Inr (take n s), c\<lparr>inbox := (if length s \<le> n then ss else drop n s # ss)\<rparr>))"

definition conn_Write :: "bytes \<Rightarrow> unit io" where
  "conn_Write b c = (case write_err c (write_no c) of
     Some e \<Rightarrow> (Inl e, c\<lparr>write_no := Suc (write_no c)\<rparr>)
   | None \<Rightarrow> (Inr (), c\<lparr>write_no := Suc (write_no c), outbox := outbox c @ [b]\<rparr>))"

fun drop_segs :: "nat \<Rightarrow> bytes list \<Rightarrow> bytes list" where
  "drop_segs n [] = []"
| "drop_segs n (s # ss) =
     (if n = 0 then s # ss
      else if length s \<le> n then drop_segs (n - length s) ss
      else drop n s # ss)"

definition conn_ReadFull :: "nat \<Rightarrow> bytes io" where
  "conn_ReadFull n c =
     (let all = concat (inbox c) in
      if n \<le> length all then (Inr (take n all), c\<lparr>inbox := drop_segs n (inbox c)\<rparr>)
      else (Inl (if all = [] then EOF else ErrUnexpectedEOF), c\<lparr>inbox := []\<rparr>))"

text \<open>A connection on which every write succeeds.\<close>

definition good_conn :: "bytes list \<Rightarrow> conn" where
  "good_conn segs = \<lparr>inbox = segs, outbox = [], write_no = 0, write_err = (\<lambda>_. None)\<rparr>"

subsection \<open>Rewriting\<close>

named_theorems io_simps \<open>evaluation of operations on a connection\<close>

lemma bindIO_simps [io_simps]:
  "m c = (Inr x, c') \<Longrightarrow> bindIO m f c = f x c'"
  "m c = (Inl e, c') \<Longrightarrow> bindIO m f c = (Inl e, c')"
  by (simp_all add: bindIO_def)

lemma retIO_simp [io_simps]: "retIO x c = (Inr x, c)"
  by (simp add: retIO_def)

lemma failIO_simp [io_simps]: "failIO e c = (Inl e, c)"
  by (simp add: failIO_def)

lemma liftR_simp [io_simps]: "liftR r c = (r, c)"
  by (simp add: liftR_def)

lemma bindIO_ret [io_simps]: "bindIO (retIO x) f c = f x c" "bindIO (liftR (Inr x)) f c = f x c"
  by (simp_all add: bindIO_def retIO_def liftR_def)

lemma mapErr_ok [io_simps]: "m c = (Inr x, c') \<Longrightarrow> mapErr e m c = (Inr x, c')"
  by (simp add: mapErr_def)

lemma ignoreErr_ok [io_simps]: "m c = (Inr x, c') \<Longrightarrow> ignoreErr m c = (Inr (), c')"
  by (simp add: ignoreErr_def)

lemma conn_Write_ok [io_simps]:
  "write_err c (write_no c) = None \<Longrightarrow>
   conn_Write b c = (Inr (), c\<lparr>write_no := Suc (write_no c), outbox := outbox c @ [b]\<rparr>)"
  by (simp add: conn_Write_def)

lemma conn_Read_seg [io_simps]:
  "inbox c = s # ss \<Longrightarrow> length s \<le> n \<Longrightarrow> conn_Read n c = (Inr s, c\<lparr>inbox := ss\<rparr>)"
  by (simp add: conn_Read_def)

lemma concat_drop_segs: "concat (drop_segs n ss) = drop n (concat ss)"
proof (induction n ss rule: drop_segs.induct)
  case (2 n s ss)
  then show ?case by (cases "n = 0") auto
qed simp

lemma conn_ReadFull_ok:
  assumes "n \<le> length (concat (inbox c))"
  shows "\<exists>c'. conn_ReadFull n c = (Inr (take n (concat (inbox c))), c') \<and>
    concat (inbox c') = drop n (concat (inbox c)) \<and> outbox c' = outbox c \<and> write_no c' = write_no c \<and>
    write_err c' = write_err c"
  using assms by (auto simp: conn_ReadFull_def Let_def concat_drop_segs)

end
