(* ===== verification/Socks5_Packets.thy ===== *)
theory Socks5_Packets
  imports Go_Conn
begin

section \<open>core/socks5/structs.go: messages of SOCKS5\<close>

text \<open>
  Requests, method negotiation and UDP packets. A fixed buffer that a \<open>Read\<close> filled with \<open>n\<close> bytes
  is the bytes followed by zeros. Sums of a byte and a constant, such as \<open>5 + domainLen\<close>, are of
  type \<open>uint8\<close> in the code and wrap; they are words here.
\<close>

definition VERSION_V5 :: byte where "VERSION_V5 = 5"
definition Method_NO_AUTH :: byte where "Method_NO_AUTH = 0"
definition Method_USER_PASS :: byte where "Method_USER_PASS = 2"
definition Method_NONE_ACCEPTABLE :: byte where "Method_NONE_ACCEPTABLE = 255"
definition CMD_CONNECT :: byte where "CMD_CONNECT = 1"
definition CMD_BIND :: byte where "CMD_BIND = 2"
definition CMD_ASSOCIATE :: byte where "CMD_ASSOCIATE = 3"
definition ATYP_IPV4 :: byte where "ATYP_IPV4 = 1"
definition ATYP_DOMAIN :: byte where "ATYP_DOMAIN = 3"
definition ATYP_IPV6 :: byte where "ATYP_IPV6 = 4"
definition REP_SUCCESS :: byte where "REP_SUCCESS = 0"
definition REP_REQ_FAIL :: byte where "REP_REQ_FAIL = 1"
definition REP_UNKNOWN :: byte where "REP_UNKNOWN = 9"
definition RSV :: byte where "RSV = 0"

lemmas socks_consts = VERSION_V5_def Method_NO_AUTH_def Method_USER_PASS_def Method_NONE_ACCEPTABLE_def
  CMD_CONNECT_def CMD_BIND_def CMD_ASSOCIATE_def ATYP_IPV4_def ATYP_DOMAIN_def ATYP_IPV6_def
  REP_SUCCESS_def REP_REQ_FAIL_def REP_UNKNOWN_def RSV_def

text \<open>
  \<open>strconv.Atoi\<close> and \<open>strconv.ParseUint\<close> where the code ignores the error: a malformed number
  gives 0, one out of range the nearest bound.
\<close>

definition Atoi_val :: "string \<Rightarrow> int" where
  "Atoi_val s = (case Atoi s of
     Inr v \<Rightarrow> v
   | Inl e \<Rightarrow> if e = ErrMsg ''strconv.Atoi: value out of range''
             then (if hd s = CHR ''-'' then - (2 ^ 63) else 2 ^ 63 - 1) else 0)"

definition ParseUint_val :: "string \<Rightarrow> int" where
  "ParseUint_val s =
     (if s = [] \<or> \<not> list_all is_digit s then 0 else min (int (dec_val 0 s)) (2 ^ 64 - 1))"

definition index_int :: "'a list \<Rightarrow> int \<Rightarrow> 'a result" where
  "index_int xs i = (if 0 \<le> i \<and> nat i < length xs then Inr (xs ! nat i) else Inl (Panic IndexOutOfRange))"

definition slice_int :: "'a list \<Rightarrow> int \<Rightarrow> int \<Rightarrow> 'a list result" where
  "slice_int xs i j =
     (if 0 \<le> i \<and> i \<le> j \<and> nat j \<le> length xs then Inr (take (nat (j - i)) (drop (nat i) xs))
      else Inl (Panic SliceOutOfRange))"

subsection \<open>Requests\<close>

record SocksRequest =
  sq_ver :: byte
  sq_cmd :: byte
  sq_reserve :: byte
  sq_addressType :: byte
  sq_dstAddr :: string
  sq_dstPort :: string
  sq_dstHost :: string
  sq_bytes :: bytes

text \<open>
  \<open>Request.NewReply\<close>: the address must have an IP as its host, because the bytes of its 16 byte
  form are printed before it is tested.
\<close>

definition NewReply :: "byte \<Rightarrow> string \<Rightarrow> bytes result" where
  "NewReply rep addr =
     (let (host, port) = (case SplitHostPort addr of Inl _ \<Rightarrow> ('''', '''') | Inr hp \<Rightarrow> hp);
          ip = ParseIP host;
          ipb = To4 ip;
          ipv6 = To16 ip
      in if length ipv6 < 12 then Inl (Panic IndexOutOfRange)
         else let zeroiIPv6 = concat (map (\<lambda>b. dec_str (unat b)) (take 12 ipv6));
                  (atyp, ipb) = (if ipb = [] \<and> ipv6 \<noteq> [] \<and> ''0000000000255255'' \<noteq> zeroiIPv6
                                 then (ATYP_IPV6, To16 ip) else (ATYP_IPV4, ipb))
              in Inr ([VERSION_V5, rep, RSV, atyp] @ ipb @ port_bytes (Atoi_val port)))"

definition UDPReply :: "byte \<Rightarrow> string \<Rightarrow> unit io" where
  "UDPReply rep addr = bindIO (liftR (NewReply rep addr)) conn_Write"

definition TCPReply :: "byte \<Rightarrow> unit io" where
  "TCPReply rep = bindIO (liftR (NewReply rep ''0.0.0.0:0'')) conn_Write"

definition request_host :: "bytes \<Rightarrow> nat \<Rightarrow> string result" where
  "request_host b n =
     (if b ! 3 = 1 then Inr (IP_String (IPv4 (b ! 4) (b ! 5) (b ! 6) (b ! 7)))
      else if b ! 3 = 3 then bindR (slice_int b 5 (int n - 2)) (\<lambda>h. Inr (bytes_str h))
      else if b ! 3 = 4 then Inr (IP_String (take 16 (drop 4 b)))
      else Inr '''')"

definition NewRequest :: "SocksRequest io" where
  "NewRequest =
     bindIO (mapErr (ErrMsg ''read req data fail'') (conn_Read 1024)) (\<lambda>d.
       let n = length d; b = d @ replicate (1024 - n) 0 in
       if b ! 0 \<noteq> 5 then
         bindIO (ignoreErr (TCPReply REP_REQ_FAIL)) (\<lambda>_. failIO (ErrMsg ''sosck version supported''))
       else
         bindIO (liftR (request_host b n)) (\<lambda>host.
         bindIO (liftR (index_int b (int n - 2))) (\<lambda>hi.
         bindIO (liftR (index_int b (int n - 1))) (\<lambda>lo.
           let port = Itoa (be16 hi lo) in
           retIO \<lparr>sq_ver = b ! 0, sq_cmd = b ! 1, sq_reserve = b ! 2, sq_addressType = b ! 3,
                  sq_dstAddr = JoinHostPort host port, sq_dstPort = port, sq_dstHost = host, sq_bytes = d\<rparr>))))"

subsection \<open>Method negotiation\<close>

record MethodsRequest =
  mr_ver :: byte
  mr_methodsCount :: byte
  mr_methods :: bytes
  mr_bytes :: bytes

definition NewMethodsRequest :: "bytes \<Rightarrow> MethodsRequest io" where
  "NewMethodsRequest header =
     bindIO (if length header > 1 then retIO (header, header)
             else bindIO (conn_Read 300) (\<lambda>d. retIO (d, d @ replicate (300 - length d) 0)))
       (\<lambda>(d, buf).
          if buf ! 0 \<noteq> 5 then failIO (ErrMsg ''socks version not supported'')
          else if length d \<noteq> unat (buf ! 1) + 2 then failIO (ErrMsg ''socks methods data length error'')
          else retIO \<lparr>mr_ver = buf ! 0, mr_methodsCount = buf ! 1, mr_methods = drop 2 d, mr_bytes = d\<rparr>)"

definition MethodsRequest_Select :: "byte \<Rightarrow> MethodsRequest \<Rightarrow> bool" where
  "MethodsRequest_Select method s \<longleftrightarrow> method \<in> set (mr_methods s)"

definition MethodsRequest_Reply :: "byte \<Rightarrow> unit io" where
  "MethodsRequest_Reply method = conn_Write [VERSION_V5, method]"

subsection \<open>UDP packets\<close>

record UDPPacket =
  up_frag :: byte
  up_atype :: byte
  up_dstHost :: string
  up_dstPort :: string
  up_data :: bytes
  up_header :: bytes
  up_bytes :: bytes

text \<open>Host and index of the port; every byte access is checked by the run time.\<close>

definition udp_addr :: "bytes \<Rightarrow> (string \<times> nat) result" where
  "udp_addr b =
     bindR (index_at b 3) (\<lambda>atype.
       if atype = ATYP_IPV4 then
         bindR (index_at b 7) (\<lambda>_. Inr (IP_String (IPv4 (b ! 4) (b ! 5) (b ! 6) (b ! 7)), 8))
       else if atype = ATYP_DOMAIN then
         bindR (index_at b 4) (\<lambda>domainLen.
         bindR (slice_at b 5 (unat (5 + domainLen))) (\<lambda>h. Inr (bytes_str h, unat (5 + domainLen))))
       else if atype = ATYP_IPV6 then
         bindR (index_at b 19) (\<lambda>_. Inr (IP_String (take 16 (drop 4 b)), 20))
       else Inr ('''', 0))"

definition ParseUDPPacket :: "bytes \<Rightarrow> UDPPacket result" where
  "ParseUDPPacket b =
     bindR (index_at b 2) (\<lambda>frag.
       if frag \<noteq> 0 then bindR (slice_at b 0 4) (\<lambda>_. Inl (ErrMsg ''FRAG only support for 0''))
       else
         bindR (udp_addr b) (\<lambda>(host, portIndex).
         bindR (index_at b portIndex) (\<lambda>hi.
         bindR (index_at b (portIndex + 1)) (\<lambda>lo.
           Inr \<lparr>up_frag = frag, up_atype = b ! 3, up_dstHost = host, up_dstPort = Itoa (be16 hi lo),
                up_data = drop (portIndex + 2) b, up_header = take (portIndex + 2) b, up_bytes = b\<rparr>))))"

definition UDPPacket_NewReply :: "UDPPacket \<Rightarrow> bytes \<Rightarrow> bytes" where
  "UDPPacket_NewReply s d = up_header s @ d"

record PacketUDP =
  pu_rsv :: "16 word"
  pu_frag :: byte
  pu_atype :: byte
  pu_dstHost :: string
  pu_dstPort :: string
  pu_data :: bytes

definition NewPacketUDP :: PacketUDP where
  "NewPacketUDP = \<lparr>pu_rsv = 0, pu_frag = 0, pu_atype = 0, pu_dstHost = '''', pu_dstPort = '''', pu_data = []\<rparr>"

definition PacketUDP_Build :: "string \<Rightarrow> bytes \<Rightarrow> PacketUDP \<Rightarrow> error option \<times> PacketUDP" where
  "PacketUDP_Build destAddr d p =
     (case SplitHostPort destAddr of
        Inl err \<Rightarrow> (Some err, p)
      | Inr (host, port) \<Rightarrow>
          let p = p\<lparr>pu_rsv := 0, pu_frag := 0, pu_dstHost := host, pu_dstPort := port, pu_atype := ATYP_IPV4\<rparr>;
              ip = ParseIP host
          in if ip \<noteq> [] then
               (None, p\<lparr>pu_atype := (if To4 ip \<noteq> [] then ATYP_IPV4 else ATYP_IPV6), pu_data := d\<rparr>)
             else if length host > 255 then (Some (ErrMsg ''proxy: destination host name too long''), p)
             else (None, p\<lparr>pu_atype := ATYP_DOMAIN, pu_data := d\<rparr>))"

definition PacketUDP_Parse :: "bytes \<Rightarrow> PacketUDP \<Rightarrow> PacketUDP result" where
  "PacketUDP_Parse b p =
     (if length b < 9 then Inl (ErrMsg ''too short packet'')
      else let p = p\<lparr>pu_frag := b ! 2\<rparr> in
        if pu_frag p \<noteq> 0 then Inl (ErrMsg ''FRAG only support for 0'')
        else let p = p\<lparr>pu_atype := b ! 3\<rparr> in
          if (pu_atype p = ATYP_IPV4 \<and> length b < 11) \<or>
             (pu_atype p = ATYP_DOMAIN \<and> length b < unat (b ! 4) + 7) \<or>
             (pu_atype p = ATYP_IPV6 \<and> length b < 22)
          then Inl (ErrMsg ''too short packet'')
          else
            bindR (if pu_atype p \<in> {ATYP_IPV4, ATYP_DOMAIN, ATYP_IPV6} then udp_addr b
                   else Inr (pu_dstHost p, 0)) (\<lambda>(host, portIndex).
            bindR (index_at b portIndex) (\<lambda>hi.
            bindR (index_at b (portIndex + 1)) (\<lambda>lo.
              Inr (p\<lparr>pu_dstHost := host, pu_dstPort := Itoa (be16 hi lo), pu_data := drop (portIndex + 2) b\<rparr>)))))"

definition PacketUDP_Header :: "PacketUDP \<Rightarrow> bytes" where
  "PacketUDP_Header p =
     [0, 0, pu_frag p, pu_atype p] @
     (if pu_atype p = ATYP_IPV4 then To4 (ParseIP (pu_dstHost p))
      else if pu_atype p = ATYP_IPV6 then To16 (ParseIP (pu_dstHost p))
      else if pu_atype p = ATYP_DOMAIN then
        of_nat (length (pu_dstHost p)) # str_bytes (pu_dstHost p)
      else []) @
     port_bytes (ParseUint_val (pu_dstPort p))"

definition PacketUDP_Bytes :: "PacketUDP \<Rightarrow> bytes" where
  "PacketUDP_Bytes p = PacketUDP_Header p @ pu_data p"

definition PacketUDP_Addr :: "PacketUDP \<Rightarrow> string" where
  "PacketUDP_Addr p = JoinHostPort (pu_dstHost p) (pu_dstPort p)"

subsection \<open>Building and parsing UDP packets\<close>

lemma ParseUint_Itoa: "0 \<le> p \<Longrightarrow> p < 2 ^ 64 \<Longrightarrow> ParseUint_val (Itoa p) = p"
  by (simp add: ParseUint_val_def Itoa_nat)

text \<open>The host a receiver sees: an IP in its canonical form, a name as it is.\<close>

definition canon_host :: "string \<Rightarrow> string" where
  "canon_host host = (if ParseIP host \<noteq> [] then IP_String (ParseIP host) else host)"

lemma ip_cases:
  assumes "ParseIP host \<noteq> []"
  obtains (v4) a b c d where "ParseIP host = IPv4 a b c d" "To4 (ParseIP host) = [a, b, c, d]"
  | (v6) "To4 (ParseIP host) = []" "length (ParseIP host) = 16"
proof (cases "To4 (ParseIP host) = []")
  case False
  have len: "length (ParseIP host) = 16" using ParseIP_length assms by blast
  with False have pre: "take 12 (ParseIP host) = v4_prefix" "To4 (ParseIP host) = drop 12 (ParseIP host)"
    by (auto simp: To4_def split: if_splits)
  have "length (drop 12 (ParseIP host)) = 4" using len by simp
  then obtain a b c d where q: "drop 12 (ParseIP host) = [a, b, c, d]" by (rule length4_cases)
  have "ParseIP host = IPv4 a b c d"
    unfolding IPv4_def using pre(1) q by (metis append_take_drop_id)
  with pre(2) q v4 show thesis by metis
qed (use v6 ParseIP_length assms in blast)

lemma udp_addr_ipv4:
  "udp_addr ([x, y, z, ATYP_IPV4, a, b, c, d] @ r) = Inr (IP_String (IPv4 a b c d), 8)"
  by (simp add: udp_addr_def ATYP_IPV4_def index_at_def del: IP_String_IPv4)

lemma udp_addr_ipv6:
  assumes "length ip = 16"
  shows "udp_addr ([x, y, z, ATYP_IPV6] @ ip @ r) = Inr (IP_String ip, 20)"
  using assms by (simp add: udp_addr_def socks_consts index_at_def)

lemma unat_5_plus: "n \<le> 250 \<Longrightarrow> unat (5 + of_nat n :: byte) = 5 + n"
  by (simp add: unat_word_ariths unat_of_nat take_bit_eq_mod)

lemma udp_addr_domain:
  assumes "length h \<le> 250"
  shows "udp_addr ([x, y, z, ATYP_DOMAIN, of_nat (length h)] @ str_bytes h @ r) = Inr (h, 5 + length h)"
  using assms by (simp add: udp_addr_def socks_consts index_at_def unat_5_plus)

lemma udp_addr_domain_wraps:
  assumes "250 < length h" "length h \<le> 255"
  shows "udp_addr ([x, y, z, ATYP_DOMAIN, of_nat (length h)] @ str_bytes h @ r) = Inl (Panic SliceOutOfRange)"
proof -
  have "unat (5 + of_nat (length h) :: byte) = (5 + length h) mod 256"
    by (simp add: unat_word_ariths unat_of_nat take_bit_eq_mod mod_add_right_eq)
  also have "\<dots> = length h - 251" using assms by (simp add: mod_if)
  finally have "unat (5 + of_nat (length h) :: byte) < 5" using assms by simp
  then show ?thesis by (simp add: udp_addr_def socks_consts index_at_def slice_at_def)
qed

definition udp_prefix :: "string \<Rightarrow> bytes" where
  "udp_prefix host =
     (if ParseIP host = [] then [0, 0, 0, ATYP_DOMAIN, of_nat (length host)] @ str_bytes host
      else if To4 (ParseIP host) \<noteq> [] then [0, 0, 0, ATYP_IPV4] @ To4 (ParseIP host)
      else [0, 0, 0, ATYP_IPV6] @ ParseIP host)"

lemma Build_ok:
  assumes "addr_safe host" "length host \<le> 255" "0 \<le> port" "port < 65536"
  shows "\<exists>p. PacketUDP_Build (JoinHostPort host (Itoa port)) d NewPacketUDP = (None, p) \<and>
    PacketUDP_Bytes p = udp_prefix host @ port_bytes port @ d"
proof -
  have split: "SplitHostPort (JoinHostPort host (Itoa port)) = Inr (host, Itoa port)"
    using Split_Join assms(1) Itoa_port_chars [OF assms(3)] by blast
  have port: "ParseUint_val (Itoa port) = port" using assms(3,4) by (simp add: ParseUint_Itoa)
  have at: "ATYP_IPV4 \<noteq> ATYP_DOMAIN" "ATYP_IPV4 \<noteq> ATYP_IPV6" "ATYP_DOMAIN \<noteq> ATYP_IPV6" by (simp_all add: socks_consts)
  show ?thesis
    using assms(2) at at [symmetric]
    by (simp add: PacketUDP_Build_def split Let_def PacketUDP_Bytes_def PacketUDP_Header_def port
        udp_prefix_def NewPacketUDP_def To16_ParseIP)
qed

lemma udp_addr_prefix:
  assumes "length host \<le> 250"
  shows "udp_addr (udp_prefix host @ r) = Inr (canon_host host, length (udp_prefix host))"
proof (cases "ParseIP host = []")
  case True
  then show ?thesis
    using udp_addr_domain [OF assms, of 0 0 0 r] by (simp add: udp_prefix_def canon_host_def)
next
  case False
  then show ?thesis
  proof (cases rule: ip_cases)
    case (v4 a b c d)
    then show ?thesis
      using udp_addr_ipv4 [of 0 0 0 a b c d r] False by (simp add: udp_prefix_def canon_host_def)
  next
    case v6
    then show ?thesis
      using udp_addr_ipv6 [OF v6(2), of 0 0 0 r] False by (simp add: udp_prefix_def canon_host_def)
  qed
qed

lemma udp_prefix_bytes: "take 3 (udp_prefix host @ r) = [0, 0, 0]" "4 < length (udp_prefix host)"
  "(udp_prefix host @ r) ! 2 = 0"
  "(udp_prefix host @ r) ! 3 \<in> {ATYP_IPV4, ATYP_DOMAIN, ATYP_IPV6}"
  by (auto simp: udp_prefix_def numeral_eq_Suc)

text \<open>The packet is long enough for the tests of \<open>PacketUDP.Parse\<close>.\<close>

definition udp_long_enough :: "string \<Rightarrow> bytes \<Rightarrow> bool" where
  "udp_long_enough host d \<longleftrightarrow>
     (if ParseIP host = [] then 2 \<le> length host + length d else To4 (ParseIP host) = [] \<or> d \<noteq> [])"

lemma Parse_guards:
  fixes port :: int
  assumes "length host \<le> 250" "udp_long_enough host d"
  defines "b \<equiv> udp_prefix host @ port_bytes port @ d"
  shows "9 \<le> length b" "b ! 3 = ATYP_IPV4 \<Longrightarrow> 11 \<le> length b"
    "b ! 3 = ATYP_DOMAIN \<Longrightarrow> unat (b ! 4) + 7 \<le> length b" "b ! 3 = ATYP_IPV6 \<Longrightarrow> 22 \<le> length b"
proof -
  have "9 \<le> length b \<and> (b ! 3 = ATYP_IPV4 \<longrightarrow> 11 \<le> length b) \<and>
    (b ! 3 = ATYP_DOMAIN \<longrightarrow> unat (b ! 4) + 7 \<le> length b) \<and> (b ! 3 = ATYP_IPV6 \<longrightarrow> 22 \<le> length b)"
  proof (cases "ParseIP host = []")
    case True
    have "unat (of_nat (length host) :: byte) = length host"
      using assms(1) by (simp add: unat_of_nat take_bit_eq_mod)
    with True assms(2) show ?thesis by (simp add: b_def udp_prefix_def udp_long_enough_def socks_consts)
  next
    case False
    then show ?thesis
    proof (cases rule: ip_cases)
      case (v4 q1 q2 q3 q4)
      with assms(2) False show ?thesis
        by (cases d) (simp_all add: b_def udp_prefix_def udp_long_enough_def socks_consts)
    next
      case v6
      with False show ?thesis by (simp add: b_def udp_prefix_def socks_consts)
    qed
  qed
  then show "9 \<le> length b" "b ! 3 = ATYP_IPV4 \<Longrightarrow> 11 \<le> length b"
    "b ! 3 = ATYP_DOMAIN \<Longrightarrow> unat (b ! 4) + 7 \<le> length b" "b ! 3 = ATYP_IPV6 \<Longrightarrow> 22 \<le> length b" by blast+
qed

lemma index_port:
  "index_at (pre @ port_bytes port @ d) (length pre) = Inr (byte_of_int (port div 256))"
  "index_at (pre @ port_bytes port @ d) (Suc (length pre)) = Inr (byte_of_int port)"
  by (simp_all add: port_bytes_def index_at_def nth_append)

lemma Parse_prefix:
  assumes "length host \<le> 250" "udp_long_enough host d" "0 \<le> port" "port < 65536"
  shows "\<exists>p'. PacketUDP_Parse (udp_prefix host @ port_bytes port @ d) p = Inr p' \<and>
    pu_dstHost p' = canon_host host \<and> pu_dstPort p' = Itoa port \<and> pu_data p' = d \<and>
    pu_frag p' = 0 \<and> pu_atype p' = udp_prefix host ! 3"
proof -
  define b where "b = udp_prefix host @ port_bytes port @ d"
  note g = Parse_guards [OF assms(1,2), of port, folded b_def]
  have bytes: "b ! 2 = 0" "b ! 3 \<in> {ATYP_IPV4, ATYP_DOMAIN, ATYP_IPV6}"
    unfolding b_def by (rule udp_prefix_bytes)+
  have addr: "udp_addr b = Inr (canon_host host, length (udp_prefix host))"
    unfolding b_def by (rule udp_addr_prefix [OF assms(1)])
  have ix: "index_at b (length (udp_prefix host)) = Inr (byte_of_int (port div 256))"
    "index_at b (Suc (length (udp_prefix host))) = Inr (byte_of_int port)"
    unfolding b_def by (rule index_port)+
  have rest: "drop (Suc (Suc (length (udp_prefix host)))) b = d" by (simp add: b_def port_bytes_def)
  have "be16 (byte_of_int (port div 256)) (byte_of_int port) = port"
    using assms(3,4) by (simp add: be16_port_bytes)
  moreover have "\<not> length b < 9" "\<not> ((b ! 3 = ATYP_IPV4 \<and> length b < 11) \<or>
      (b ! 3 = ATYP_DOMAIN \<and> length b < unat (b ! 4) + 7) \<or> (b ! 3 = ATYP_IPV6 \<and> length b < 22))"
    using g by (auto simp: not_less)
  ultimately have "PacketUDP_Parse b p = Inr (p\<lparr>pu_frag := 0, pu_atype := b ! 3, pu_dstHost := canon_host host,
      pu_dstPort := Itoa port, pu_data := d\<rparr>)"
    unfolding PacketUDP_Parse_def Let_def using bytes by (simp add: addr ix rest)
  moreover have "b ! 3 = udp_prefix host ! 3" using udp_prefix_bytes(2) [of host] by (simp add: b_def nth_append)
  ultimately show ?thesis unfolding b_def by simp
qed

subsection \<open>Properties\<close>

text \<open>A UDP packet built for a destination and sent is parsed by the receiver, \<open>PacketUDP.Parse\<close> and
  \<open>ParseUDPPacket\<close> alike, with the same host (an IP in its canonical form), port and data, for
  host names of at most 250 bytes and packets above the parser's minimum length.\<close>

theorem udp_packet_roundtrip:
  assumes "addr_safe host" "length host \<le> 250" "0 \<le> port" "port < 65536" "udp_long_enough host d"
  shows "\<exists>p p' u. PacketUDP_Build (JoinHostPort host (Itoa port)) d NewPacketUDP = (None, p) \<and>
    PacketUDP_Parse (PacketUDP_Bytes p) q = Inr p' \<and>
    pu_dstHost p' = canon_host host \<and> pu_dstPort p' = Itoa port \<and> pu_data p' = d \<and>
    ParseUDPPacket (PacketUDP_Bytes p) = Inr u \<and>
    up_dstHost u = canon_host host \<and> up_dstPort u = Itoa port \<and> up_data u = d \<and>
    UDPPacket_NewReply u d = PacketUDP_Bytes p"
proof -
  obtain p where p: "PacketUDP_Build (JoinHostPort host (Itoa port)) d NewPacketUDP = (None, p)"
    "PacketUDP_Bytes p = udp_prefix host @ port_bytes port @ d"
    using Build_ok [OF assms(1) _ assms(3,4)] assms(2) by force
  define b where "b = udp_prefix host @ port_bytes port @ d"
  obtain p' where p': "PacketUDP_Parse b q = Inr p'"
    "pu_dstHost p' = canon_host host" "pu_dstPort p' = Itoa port" "pu_data p' = d"
    using Parse_prefix [OF assms(2,5,3,4)] unfolding b_def by blast
  have len: "2 < length b" using udp_prefix_bytes(2) [of host] unfolding b_def length_append by linarith
  have "b ! 2 = 0" unfolding b_def by (rule udp_prefix_bytes)
  moreover have "udp_addr b = Inr (canon_host host, length (udp_prefix host))"
    unfolding b_def by (rule udp_addr_prefix [OF assms(2)])
  moreover have "index_at b (length (udp_prefix host)) = Inr (byte_of_int (port div 256))"
    "index_at b (Suc (length (udp_prefix host))) = Inr (byte_of_int port)"
    unfolding b_def by (rule index_port)+
  moreover have "be16 (byte_of_int (port div 256)) (byte_of_int port) = port"
    using assms(3,4) by (simp add: be16_port_bytes)
  ultimately have u: "ParseUDPPacket b = Inr \<lparr>up_frag = 0, up_atype = b ! 3, up_dstHost = canon_host host,
      up_dstPort = Itoa port, up_data = drop (length (udp_prefix host) + 2) b,
      up_header = take (length (udp_prefix host) + 2) b, up_bytes = b\<rparr>"
    using len by (simp add: ParseUDPPacket_def)
  show ?thesis
    by (intro exI conjI, rule p(1), unfold p(2) b_def [symmetric], rule p'(1), rule p'(2), rule p'(3), rule p'(4), rule u)
      (simp_all add: b_def UDPPacket_NewReply_def)
qed

theorem udp_packet_roundtrip_witness:
  "\<exists>p p'. PacketUDP_Build (JoinHostPort ''foo'' (Itoa 53)) [1] NewPacketUDP = (None, p) \<and>
     PacketUDP_Parse (PacketUDP_Bytes p) NewPacketUDP = Inr p' \<and> pu_dstHost p' = ''foo''"
proof -
  have "ParseIP ''foo'' = []" by (simp add: ParseIP_def)
  then have "canon_host ''foo'' = ''foo''" "udp_long_enough ''foo'' [1]"
    by (simp_all add: canon_host_def udp_long_enough_def)
  with udp_packet_roundtrip [of "''foo''" 53 "[1]" NewPacketUDP] show ?thesis
    by (auto simp: addr_safe_def)
qed

text \<open>A host name of 251 to 255 bytes is accepted by \<open>Build\<close>, but the \<open>uint8\<close> sum \<open>5 + domainLen\<close>
  wraps in both parsers, which then panic.\<close>

theorem udp_long_domain_panics:
  assumes "addr_safe host" "250 < length host" "length host \<le> 255" "ParseIP host = []" "0 \<le> port" "port < 65536"
  shows "\<exists>p. PacketUDP_Build (JoinHostPort host (Itoa port)) d NewPacketUDP = (None, p) \<and>
    panics (PacketUDP_Parse (PacketUDP_Bytes p) q) \<and> panics (ParseUDPPacket (PacketUDP_Bytes p))"
proof -
  obtain p where p: "PacketUDP_Build (JoinHostPort host (Itoa port)) d NewPacketUDP = (None, p)"
    "PacketUDP_Bytes p = udp_prefix host @ port_bytes port @ d"
    using Build_ok [OF assms(1,3,5,6)] by force
  define r where "r = port_bytes port @ d"
  have b: "PacketUDP_Bytes p = [0, 0, 0, ATYP_DOMAIN, of_nat (length host)] @ str_bytes host @ r"
    using assms(4) by (simp add: p(2) udp_prefix_def r_def)
  have len: "unat (of_nat (length host) :: byte) = length host"
    using assms(3) by (simp add: unat_of_nat take_bit_eq_mod)
  have "udp_addr (PacketUDP_Bytes p) = Inl (Panic SliceOutOfRange)"
    unfolding b by (rule udp_addr_domain_wraps [OF assms(2,3)])
  moreover have "length r \<ge> 2" by (simp add: r_def)
  ultimately have "panics (PacketUDP_Parse (PacketUDP_Bytes p) q)" "panics (ParseUDPPacket (PacketUDP_Bytes p))"
    using assms(2) len by (simp_all add: PacketUDP_Parse_def ParseUDPPacket_def Let_def b socks_consts index_at_def)
  with p(1) show ?thesis by blast
qed

theorem udp_long_domain_panics_witness:
  "\<exists>p. PacketUDP_Build (JoinHostPort (replicate 251 CHR ''a'') (Itoa 53)) [1] NewPacketUDP = (None, p) \<and>
     panics (ParseUDPPacket (PacketUDP_Bytes p))"
proof -
  have "find (\<lambda>c. c = CHR ''.'' \<or> c = CHR '':'') (replicate 251 CHR ''a'') = None"
    by (simp add: find_None_iff)
  then have "ParseIP (replicate 251 CHR ''a'') = []" by (simp add: ParseIP_def)
  with udp_long_domain_panics [of "replicate 251 CHR ''a''" 53 "[1]" NewPacketUDP] show ?thesis
    by (auto simp: addr_safe_def)
qed

end
