(* ===== verification/Concurrent_Map.thy ===== *)
theory Concurrent_Map
  imports Go_Net "HOL-Library.DAList"
begin

section \<open>The concurrent map of the tables\<close>

text \<open>
  The password table, the DNS cache, the filter tables and the session tables are
  \<open>cmap.ConcurrentMap\<close> values of the module \<open>github.com/orcaman/concurrent-map\<close>, which is not part
  of the repository. Its operations are a parameter, the record \<open>cmap\<close>, and \<open>cmap_laws\<close> states
  what its documentation promises of them; an operation takes effect atomically. Association
  lists with distinct keys are an instance, used where a statement is evaluated on an input.
\<close>

record ('m, 'v) cmap =
  cm_New :: 'm
  cm_Get :: "string \<Rightarrow> 'm \<Rightarrow> 'v option"
  cm_Set :: "string \<Rightarrow> 'v \<Rightarrow> 'm \<Rightarrow> 'm"
  cm_Has :: "string \<Rightarrow> 'm \<Rightarrow> bool"
  cm_Remove :: "string \<Rightarrow> 'm \<Rightarrow> 'm"
  cm_Count :: "'m \<Rightarrow> nat"
  cm_Items :: "'m \<Rightarrow> (string \<times> 'v) list"
  cm_SetIfAbsent :: "string \<Rightarrow> 'v \<Rightarrow> 'm \<Rightarrow> 'm"
  cm_Upsert :: "string \<Rightarrow> 'v \<Rightarrow> ('v option \<Rightarrow> 'v \<Rightarrow> 'v) \<Rightarrow> 'm \<Rightarrow> 'm"

definition cmap_laws :: "('m, 'v) cmap \<Rightarrow> bool" where
  "cmap_laws cm \<longleftrightarrow>
     (\<forall>k. cm_Get cm k (cm_New cm) = None) \<and>
     (\<forall>k k' v m. cm_Get cm k (cm_Set cm k' v m) = (if k = k' then Some v else cm_Get cm k m)) \<and>
     (\<forall>k k' m. cm_Get cm k (cm_Remove cm k' m) = (if k = k' then None else cm_Get cm k m)) \<and>
     (\<forall>k m. cm_Has cm k m \<longleftrightarrow> cm_Get cm k m \<noteq> None) \<and>
     (\<forall>m. cm_Count cm m = card {k. cm_Get cm k m \<noteq> None}) \<and>
     (\<forall>m. distinct (map fst (cm_Items cm m)) \<and> map_of (cm_Items cm m) = (\<lambda>k. cm_Get cm k m)) \<and>
     (\<forall>k k' v m. cm_Get cm k (cm_SetIfAbsent cm k' v m) =
        (if k = k' \<and> cm_Get cm k m = None then Some v else cm_Get cm k m)) \<and>
     (\<forall>k k' v f m. cm_Get cm k (cm_Upsert cm k' v f m) =
        (if k = k' then Some (f (cm_Get cm k m) v) else cm_Get cm k m))"

lemma cmap_New: "cmap_laws cm \<Longrightarrow> cm_Get cm k (cm_New cm) = None"
  by (simp add: cmap_laws_def)

lemma cmap_Set: "cmap_laws cm \<Longrightarrow> cm_Get cm k (cm_Set cm k' v m) = (if k = k' then Some v else cm_Get cm k m)"
  by (simp add: cmap_laws_def)

lemma cmap_Remove: "cmap_laws cm \<Longrightarrow> cm_Get cm k (cm_Remove cm k' m) = (if k = k' then None else cm_Get cm k m)"
  by (simp add: cmap_laws_def)

lemma cmap_Has: "cmap_laws cm \<Longrightarrow> cm_Has cm k m \<longleftrightarrow> cm_Get cm k m \<noteq> None"
  by (simp add: cmap_laws_def)

lemma cmap_Count: "cmap_laws cm \<Longrightarrow> cm_Count cm m = card {k. cm_Get cm k m \<noteq> None}"
  by (simp add: cmap_laws_def)

lemma cmap_Items: "cmap_laws cm \<Longrightarrow> distinct (map fst (cm_Items cm m)) \<and> map_of (cm_Items cm m) = (\<lambda>k. cm_Get cm k m)"
  by (simp add: cmap_laws_def)

lemma cmap_SetIfAbsent: "cmap_laws cm \<Longrightarrow> cm_Get cm k (cm_SetIfAbsent cm k' v m) =
   (if k = k' \<and> cm_Get cm k m = None then Some v else cm_Get cm k m)"
  by (simp add: cmap_laws_def)

lemma cmap_Upsert: "cmap_laws cm \<Longrightarrow> cm_Get cm k (cm_Upsert cm k' v f m) =
   (if k = k' then Some (f (cm_Get cm k m) v) else cm_Get cm k m)"
  by (simp add: cmap_laws_def)

lemma cmap_Items_iff: "cmap_laws cm \<Longrightarrow> (k, v) \<in> set (cm_Items cm m) \<longleftrightarrow> cm_Get cm k m = Some v"
  using cmap_Items [of cm m] by (metis map_of_eq_Some_iff)

lemmas cmap_simps = cmap_New cmap_Set cmap_Remove cmap_Has cmap_SetIfAbsent cmap_Upsert

definition alist_cmap :: "((string, 'v) alist, 'v) cmap" where
  "alist_cmap = \<lparr>cm_New = DAList.empty, cm_Get = (\<lambda>k m. DAList.lookup m k), cm_Set = DAList.update,
     cm_Has = (\<lambda>k m. DAList.lookup m k \<noteq> None), cm_Remove = DAList.delete,
     cm_Count = (\<lambda>m. length (DAList.impl_of m)), cm_Items = DAList.impl_of,
     cm_SetIfAbsent = (\<lambda>k v m. if DAList.lookup m k = None then DAList.update k v m else m),
     cm_Upsert = (\<lambda>k v f m. DAList.update k (f (DAList.lookup m k) v) m)\<rparr>"

lemma alist_cmap_laws: "cmap_laws alist_cmap"
proof -
  have "length (DAList.impl_of m) = card {k. DAList.lookup m k \<noteq> None}" for m :: "(string, 'a) alist"
  proof -
    have "{k. DAList.lookup m k \<noteq> None} = fst ` set (DAList.impl_of m)"
      by transfer (auto simp: map_of_eq_None_iff [symmetric] dom_map_of_conv_image_fst [symmetric])
    moreover have "card (fst ` set (DAList.impl_of m)) = length (DAList.impl_of m)"
      by (metis distinct_card impl_of_distinct length_map list.set_map)
    ultimately show ?thesis by simp
  qed
  moreover have "map_of (DAList.impl_of m) = DAList.lookup m" for m :: "(string, 'a) alist"
    by (simp add: DAList.lookup.rep_eq fun_eq_iff)
  ultimately show ?thesis
    by (auto simp: cmap_laws_def alist_cmap_def lookup_update fun_eq_iff)
qed

end
