(* ===== verification/Idns.thy ===== *)
theory Idns
  imports Concurrent_Map
begin

section \<open>core/idns: the caching resolver\<close>

text \<open>
  The resolver keeps a cache from host names to addresses with an expiry time. The DNS client of
  \<open>github.com/miekg/dns\<close> is the parameter \<open>dns\<close>: \<open>Fqdn\<close>, and \<open>Exchange\<close>, which asks a server at
  a moment and returns a reply or none and an error or none. Of a reply the code looks at
  whether the code is success, and for each answer whether it is of type A and its printed form.
  The two readings of the clock in one call, \<open>now\<close> for the expiry test and \<open>later\<close> when an answer
  is stored, are arguments, in Unix seconds. A Go pair of a value and an error is a pair.
\<close>

record dns_item =
  item_ip :: string
  expiredAt :: int

record 'm Resolver =
  publicDNSAddr :: string
  ttl :: int
  cache :: 'm

record dns_reply =
  rcode_success :: bool
  answers :: "(bool \<times> string) list"

record dns_client =
  Fqdn :: "string \<Rightarrow> string"
  Exchange :: "int \<Rightarrow> string \<Rightarrow> string \<Rightarrow> dns_reply option \<times> error option"

definition idns_New :: "('m, dns_item) cmap \<Rightarrow> string \<Rightarrow> int \<Rightarrow> 'm Resolver" where
  "idns_New cm addr t = \<lparr>publicDNSAddr = addr, ttl = t, cache = cm_New cm\<rparr>"

definition TTL :: "'m Resolver \<Rightarrow> int" where
  "TTL sf = ttl sf"

definition PublicDNSAddr :: "'m Resolver \<Rightarrow> string" where
  "PublicDNSAddr sf = publicDNSAddr sf"

definition joinIPPort :: "string \<Rightarrow> string \<Rightarrow> string" where
  "joinIPPort ip port = (if port \<noteq> '''' then JoinHostPort ip port else ip)"

text \<open>The first answer of type A whose printed form has at least five fields: its fifth field.\<close>

fun first_A :: "(bool \<times> string) list \<Rightarrow> string option" where
  "first_A [] = None"
| "first_A ((isA, txt) # as) =
     (if isA \<and> length (str_fields txt) \<ge> 5 then Some (str_fields txt ! 4) else first_A as)"

definition resolve_query ::
  "('m, dns_item) cmap \<Rightarrow> dns_client \<Rightarrow> int \<Rightarrow> int \<Rightarrow> string \<Rightarrow> string \<Rightarrow> 'm Resolver \<Rightarrow> (string \<times> error option) \<times> 'm Resolver" where
  "resolve_query cm dns now later dstDomain port sf =
     (case Exchange dns now (Fqdn dns dstDomain) (publicDNSAddr sf) of
        (_, Some err) \<Rightarrow> (('''', Some err), sf)
      | (None, None) \<Rightarrow> (('''', None), sf)
      | (Some r, None) \<Rightarrow>
          if \<not> rcode_success r then (('''', Some (ErrMsg ''invalid answer name'')), sf)
          else case first_A (answers r) of
                 None \<Rightarrow> (('''', Some (ErrMsg ''unknow answer'')), sf)
               | Some ip \<Rightarrow>
                   ((joinIPPort ip port, None),
                    sf\<lparr>cache := cm_Set cm dstDomain \<lparr>item_ip = ip, expiredAt = later + ttl sf\<rparr> (cache sf)\<rparr>))"

definition Resolve ::
  "('m, dns_item) cmap \<Rightarrow> dns_client \<Rightarrow> int \<Rightarrow> int \<Rightarrow> string \<Rightarrow> 'm Resolver \<Rightarrow> (string \<times> error option) \<times> 'm Resolver" where
  "Resolve cm dns now later domain sf =
     (case (if CHR '':'' \<in> set domain then SplitHostPort domain else Inr (domain, '''')) of
        Inl err \<Rightarrow> (('''', Some err), sf)
      | Inr (dstDomain, port) \<Rightarrow>
          if ParseIP dstDomain \<noteq> [] then ((joinIPPort dstDomain port, None), sf)
          else case cm_Get cm dstDomain (cache sf) of
                 Some itm \<Rightarrow>
                   if expiredAt itm > now then ((joinIPPort (item_ip itm) port, None), sf)
                   else resolve_query cm dns now later dstDomain port sf
               | None \<Rightarrow> resolve_query cm dns now later dstDomain port sf)"

definition MustResolve ::
  "('m, dns_item) cmap \<Rightarrow> dns_client \<Rightarrow> int \<Rightarrow> int \<Rightarrow> string \<Rightarrow> 'm Resolver \<Rightarrow> string \<times> 'm Resolver" where
  "MustResolve cm dns now later address sf =
     (case Resolve cm dns now later address sf of
        ((ip, Some err), sf) \<Rightarrow> (address, sf)
      | ((ip, None), sf) \<Rightarrow> (ip, sf))"

subsection \<open>Resolution\<close>

text \<open>Host and port of an address as \<open>Resolve\<close> reads it.\<close>

definition split_domain :: "string \<Rightarrow> (string \<times> string) result" where
  "split_domain domain = (if CHR '':'' \<in> set domain then SplitHostPort domain else Inr (domain, ''''))"

definition cached :: "('m, dns_item) cmap \<Rightarrow> 'm Resolver \<Rightarrow> string \<Rightarrow> int \<Rightarrow> string option" where
  "cached cm sf host now =
     (case cm_Get cm host (cache sf) of
        Some itm \<Rightarrow> if expiredAt itm > now then Some (item_ip itm) else None
      | None \<Rightarrow> None)"

lemma Resolve_unfold:
  "Resolve cm dns now later domain sf =
     (case split_domain domain of
        Inl err \<Rightarrow> (('''', Some err), sf)
      | Inr (host, port) \<Rightarrow>
          if ParseIP host \<noteq> [] then ((joinIPPort host port, None), sf)
          else case cached cm sf host now of
                 Some ip \<Rightarrow> ((joinIPPort ip port, None), sf)
               | None \<Rightarrow> resolve_query cm dns now later host port sf)"
  by (auto simp: Resolve_def split_domain_def cached_def split: sum.splits option.splits)

lemma resolve_query_ok:
  assumes "resolve_query cm dns now later host port sf = ((ip, None), sf')" "ip \<noteq> ''''"
  obtains a where "ip = joinIPPort a port"
    "sf' = sf\<lparr>cache := cm_Set cm host \<lparr>item_ip = a, expiredAt = later + ttl sf\<rparr> (cache sf)\<rparr>"
  using assms by (auto simp: resolve_query_def split: prod.splits option.splits if_splits)

lemma Resolve_frame:
  assumes "cmap_laws cm" "Resolve cm dns now later domain sf = (r, sf')"
  shows "ttl sf' = ttl sf" "publicDNSAddr sf' = publicDNSAddr sf"
    "split_domain domain = Inr (host, port) \<Longrightarrow> k \<noteq> host \<Longrightarrow> cm_Get cm k (cache sf') = cm_Get cm k (cache sf)"
  using assms
  by (auto simp: Resolve_unfold resolve_query_def cmap_Set
      split: sum.splits prod.splits option.splits if_splits)

text \<open>An address whose host is an IPv4 address is returned as it is, without a query.\<close>

lemma resolve_literal:
  assumes "length q = 4" "0 \<le> p"
  shows "Resolve cm dns now later (dotted q) sf = ((dotted q, None), sf)"
    "Resolve cm dns now later (JoinHostPort (dotted q) (Itoa p)) sf = ((JoinHostPort (dotted q) (Itoa p), None), sf)"
proof -
  obtain a b c d where "q = [a, b, c, d]" using assms(1) by (rule length4_cases)
  then have ip: "ParseIP (dotted q) \<noteq> []" by (simp add: ParseIP_dotted IPv4_def)
  have c: "CHR '':'' \<notin> set (dotted q)" by (rule dotted_addr_safe)
  then show "Resolve cm dns now later (dotted q) sf = ((dotted q, None), sf)"
    using ip by (simp add: Resolve_unfold split_domain_def joinIPPort_def)
  have "split_domain (JoinHostPort (dotted q) (Itoa p)) = Inr (dotted q, Itoa p)"
    using Split_Join [of "dotted q" "Itoa p"] dotted_addr_safe Itoa_port_chars [OF assms(2)] c
    by (auto simp: split_domain_def JoinHostPort_def)
  then show "Resolve cm dns now later (JoinHostPort (dotted q) (Itoa p)) sf = ((JoinHostPort (dotted q) (Itoa p), None), sf)"
    using ip by (cases "Itoa p = ''''") (simp_all add: Resolve_unfold joinIPPort_def Itoa_nonempty)
qed

subsection \<open>Properties\<close>

text \<open>C34. An answer is cached: once a host name has been resolved, any request for it within the time
  to live, whatever port it asks for and whatever the DNS server would answer by then, gets the
  same address with its own port, and leaves the resolver unchanged; requests for other host
  names in between do not disturb it.\<close>

theorem resolve_cached:
  assumes cm: "cmap_laws cm" and host: "split_domain d = Inr (host, port)" "ParseIP host = []"
    and first: "cached cm sf host now = None" "Resolve cm dns now later d sf = ((ip, None), sf1)" "ip \<noteq> ''''"
    and other: "split_domain d2 = Inr (host2, port2)" "host2 \<noteq> host" "Resolve cm dns2 now2 later2 d2 sf1 = (r2, sf2)"
    and again: "split_domain d3 = Inr (host, port3)" "now3 < later + ttl sf"
  shows "\<exists>a. ip = joinIPPort a port \<and>
    Resolve cm dns3 now3 later3 d3 sf2 = ((joinIPPort a port3, None), sf2)"
proof -
  have "resolve_query cm dns now later host port sf = ((ip, None), sf1)"
    using first(1,2) host by (simp add: Resolve_unfold)
  then obtain a where a: "ip = joinIPPort a port"
    "sf1 = sf\<lparr>cache := cm_Set cm host \<lparr>item_ip = a, expiredAt = later + ttl sf\<rparr> (cache sf)\<rparr>"
    using first(3) by (rule resolve_query_ok)
  then have "cm_Get cm host (cache sf1) = Some \<lparr>item_ip = a, expiredAt = later + ttl sf\<rparr>"
    using cm by (simp add: cmap_Set)
  then have "cm_Get cm host (cache sf2) = Some \<lparr>item_ip = a, expiredAt = later + ttl sf\<rparr>"
    using Resolve_frame(3) [OF cm other(3,1)] other(2) by metis
  then have "cached cm sf2 host now3 = Some a" using again(2) by (simp add: cached_def)
  with a(1) show ?thesis using host(2) again(1) by (intro exI [of _ a]) (simp add: Resolve_unfold)
qed

definition example_dns :: dns_client where
  "example_dns = \<lparr>Fqdn = (\<lambda>s. s @ ''.''), Exchange = (\<lambda>_ _ _.
     (Some \<lparr>rcode_success = True, answers = [(False, ''x''), (True, ''h. 60 IN A 10.1.2.3'')]\<rparr>, None))\<rparr>"

lemma example_split:
  "split_domain ''h:80'' = Inr (''h'', ''80'')" "split_domain ''h:443'' = Inr (''h'', ''443'')"
  "split_domain ''k'' = Inr (''k'', [])" "ParseIP ''h'' = []" "ParseIP ''k'' = []"
  by (simp_all add: split_domain_def SplitHostPort_def break_last_def split_check_def ParseIP_def)

lemma example_fields: "str_fields ''h. 60 IN A 10.1.2.3'' = [''h.'', ''60'', ''IN'', ''A'', ''10.1.2.3'']"
  by (simp add: str_fields_def is_space_def)

theorem resolve_cached_witness:
  "\<exists>sf1 sf2 r2. Resolve alist_cmap example_dns 0 5 ''h:80'' (idns_New alist_cmap ''8.8.8.8:53'' 60) = ((''10.1.2.3:80'', None), sf1)
     \<and> Resolve alist_cmap example_dns 7 7 ''k'' sf1 = (r2, sf2)
     \<and> (\<exists>a. ''10.1.2.3:80'' = joinIPPort a ''80'' \<and>
          Resolve alist_cmap (example_dns\<lparr>Exchange := \<lambda>_ _ _. (None, None)\<rparr>) 64 64 ''h:443'' sf2 = ((joinIPPort a ''443'', None), sf2))"
proof -
  let ?sf = "idns_New alist_cmap ''8.8.8.8:53'' 60"
  have none: "cached alist_cmap ?sf ''h'' 0 = None"
    by (simp add: cached_def idns_New_def cmap_New [OF alist_cmap_laws])
  have "fst (Resolve alist_cmap example_dns 0 5 ''h:80'' ?sf) = (''10.1.2.3:80'', None)"
    by (simp add: Resolve_unfold example_split none resolve_query_def example_dns_def example_fields
        joinIPPort_def JoinHostPort_def)
  then obtain sf1 where sf1: "Resolve alist_cmap example_dns 0 5 ''h:80'' ?sf = ((''10.1.2.3:80'', None), sf1)"
    by (metis prod.collapse)
  obtain r2 sf2 where sf2: "Resolve alist_cmap example_dns 7 7 ''k'' sf1 = (r2, sf2)" by fastforce
  have "64 < 5 + ttl ?sf" by (simp add: idns_New_def)
  from resolve_cached [OF alist_cmap_laws example_split(1,4) none sf1 _ example_split(3) _ sf2 example_split(2) this]
  show ?thesis using sf1 sf2 by simp
qed


text \<open>\<open>MustResolve\<close> gives the address back when resolution fails with an error, but the empty
  string when the client returned neither a reply nor an error.\<close>

theorem must_resolve_fallback:
  assumes "split_domain d = Inr (host, port)" "ParseIP host = []" "cached cm sf host now = None"
  shows "case Exchange dns now (Fqdn dns host) (publicDNSAddr sf) of
      (_, Some err) \<Rightarrow> MustResolve cm dns now later d sf = (d, sf)
    | (None, None) \<Rightarrow> MustResolve cm dns now later d sf = ('''', sf)
    | (Some r, None) \<Rightarrow> \<not> rcode_success r \<or> first_A (answers r) = None \<longrightarrow> MustResolve cm dns now later d sf = (d, sf)"
  using assms by (auto simp: MustResolve_def Resolve_unfold resolve_query_def split: prod.splits option.splits)

theorem must_resolve_fallback_witness:
  "MustResolve alist_cmap (example_dns\<lparr>Exchange := \<lambda>_ _ _. (None, None)\<rparr>) 0 0 ''h:80'' (idns_New alist_cmap '''' 1)
     = ('''', idns_New alist_cmap '''' 1)"
  using must_resolve_fallback [OF example_split(1,4), of alist_cmap "idns_New alist_cmap '''' 1" 0
      "example_dns\<lparr>Exchange := \<lambda>_ _ _. (None, None)\<rparr>" 0]
  by (simp add: cached_def idns_New_def cmap_New [OF alist_cmap_laws])

end
