(* ===== verification/BasicAuth.thy ===== *)
theory BasicAuth
  imports Idns
begin

section \<open>core/basicAuth: the authentication centre\<close>

text \<open>
  User names and passwords are kept in a concurrent map; a centre may also ask a remote server.
  What the code calls outside the repository is gathered in \<open>auth_env\<close>: the maps, the DNS client,
  the HTTP round trip \<open>client_do\<close> (attempt, whether TLS verification is off, URL, host header and
  time-out to a body and a status, or an error), \<open>retry_op\<close> for \<open>backoff.Retry\<close> with a constant
  delay and a number of retries (given the outcome of the operation at each attempt), the file
  system, and the host that \<open>url.Parse\<close> extracts, \<open>None\<close> when it fails. The text of an error is
  kept without its formatted details.
\<close>

record ('m, 'd) auth_env =
  pw_cmap :: "('m, string) cmap"
  au_cmap :: "('d, dns_item) cmap"
  au_dns :: dns_client
  url_host :: "string \<Rightarrow> string option"
  client_do :: "nat \<Rightarrow> bool \<Rightarrow> string \<Rightarrow> string \<Rightarrow> int \<Rightarrow> (bytes \<times> int) result"
  retry_op :: "nat \<Rightarrow> (nat \<Rightarrow> error option) \<Rightarrow> error option"
  read_file :: "string \<Rightarrow> string result"

record ('m, 'd) Center =
  passwords :: 'm
  au_resolver :: "'d Resolver option"
  au_url :: string
  successCode :: int
  au_timeout :: int
  au_retry :: nat

datatype 'd auth_option = AuthDNSServer "'d Resolver option" | AuthURL string int int nat

definition SetDNSServer :: "'d Resolver option \<Rightarrow> ('m, 'd) Center \<Rightarrow> ('m, 'd) Center" where
  "SetDNSServer d sf = sf\<lparr>au_resolver := d\<rparr>"

definition SetAuthURL :: "string \<Rightarrow> int \<Rightarrow> int \<Rightarrow> nat \<Rightarrow> ('m, 'd) Center \<Rightarrow> ('m, 'd) Center" where
  "SetAuthURL url timeout code n sf =
     sf\<lparr>au_url := url, successCode := code, au_timeout := timeout, au_retry := n\<rparr>"

definition auth_New :: "('m, 'd) auth_env \<Rightarrow> 'd auth_option list \<Rightarrow> ('m, 'd) Center" where
  "auth_New env opts =
     foldl (\<lambda>c opt. case opt of AuthDNSServer d \<Rightarrow> SetDNSServer d c
                     | AuthURL url t code n \<Rightarrow> SetAuthURL url t code n c)
       \<lparr>passwords = cm_New (pw_cmap env), au_resolver = None, au_url = '''', successCode = 0,
        au_timeout = 0, au_retry = 0\<rparr> opts"

fun auth_Add :: "('m, 'd) auth_env \<Rightarrow> string list \<Rightarrow> ('m, 'd) Center \<Rightarrow> nat \<times> ('m, 'd) Center" where
  "auth_Add env [] sf = (0, sf)"
| "auth_Add env (up # ups) sf =
     (case split_on (CHR '':'') up of
        [user, pwd] \<Rightarrow>
          (case auth_Add env ups (sf\<lparr>passwords := cm_Set (pw_cmap env) user pwd (passwords sf)\<rparr>) of
             (n, sf) \<Rightarrow> (n + 1, sf))
      | _ \<Rightarrow> auth_Add env ups sf)"

fun auth_load_lines :: "('m, 'd) auth_env \<Rightarrow> string list \<Rightarrow> ('m, 'd) Center \<Rightarrow> nat \<times> ('m, 'd) Center" where
  "auth_load_lines env [] sf = (0, sf)"
| "auth_load_lines env (l # ls) sf =
     (let up = trim_set '' '' l in
      if up = '''' \<or> has_prefix ''#'' up then auth_load_lines env ls sf
      else case auth_Add env [up] sf of
             (k, sf) \<Rightarrow> case auth_load_lines env ls sf of (n, sf) \<Rightarrow> (k + n, sf))"

definition auth_LoadFromFile :: "('m, 'd) auth_env \<Rightarrow> string \<Rightarrow> ('m, 'd) Center \<Rightarrow> nat result \<times> ('m, 'd) Center" where
  "auth_LoadFromFile env filename sf =
     (case read_file env filename of
        Inl err \<Rightarrow> (Inl err, sf)
      | Inr content \<Rightarrow>
          (case auth_load_lines env (split_on (CHR 0x0A) (filter (\<lambda>c. c \<noteq> CHR 0x0D) content)) sf of
             (n, sf) \<Rightarrow> (Inr n, sf)))"

definition auth_Delete :: "('m, 'd) auth_env \<Rightarrow> string list \<Rightarrow> ('m, 'd) Center \<Rightarrow> ('m, 'd) Center" where
  "auth_Delete env users sf =
     foldl (\<lambda>sf u. sf\<lparr>passwords := cm_Remove (pw_cmap env) u (passwords sf)\<rparr>) sf users"

definition auth_Total :: "('m, 'd) auth_env \<Rightarrow> ('m, 'd) Center \<Rightarrow> nat" where
  "auth_Total env sf = cm_Count (pw_cmap env) (passwords sf)"

definition auth_Has :: "('m, 'd) auth_env \<Rightarrow> string \<Rightarrow> ('m, 'd) Center \<Rightarrow> bool" where
  "auth_Has env user sf = cm_Has (pw_cmap env) user (passwords sf)"

definition VerifyFromLocal :: "('m, 'd) auth_env \<Rightarrow> string \<Rightarrow> string \<Rightarrow> ('m, 'd) Center \<Rightarrow> bool" where
  "VerifyFromLocal env user pwd sf =
     (case cm_Get (pw_cmap env) user (passwords sf) of Some p \<Rightarrow> p = pwd | None \<Rightarrow> False)"

text \<open>\<open>url.QueryEscape\<close>.\<close>

definition upper_hex :: "nat \<Rightarrow> char" where
  "upper_hex d = (if d < 10 then char_of (d + 48) else char_of (d + 55))"

definition QueryEscape :: "string \<Rightarrow> string" where
  "QueryEscape s = concat (map (\<lambda>c. let n = of_char c :: nat in
     if is_digit c \<or> (65 \<le> n \<and> n \<le> 90) \<or> (97 \<le> n \<and> n \<le> 122) \<or> c \<in> set ''-_.~'' then [c]
     else if c = CHR '' '' then ''+''
     else [CHR ''%'', upper_hex (n div 16), upper_hex (n mod 16)]) s)"

definition httpGet :: "('m, 'd) auth_env \<Rightarrow> nat \<Rightarrow> string \<Rightarrow> int \<Rightarrow> string \<Rightarrow> (bytes \<times> int) result" where
  "httpGet env attempt url timeout host =
     (let https = str_contains url ''https://'';
          url = (if \<not> https \<and> \<not> str_contains url ''http://'' then ''http://'' @ url else url)
      in client_do env attempt https url host timeout)"

definition auth_url :: "('m, 'd) Center \<Rightarrow> string \<Rightarrow> string \<Rightarrow> string \<Rightarrow> string \<Rightarrow> string \<Rightarrow> string" where
  "auth_url sf user pwd userIP localIP target =
     au_url sf @ (if str_contains (au_url sf) ''?'' then ''&'' else ''?'') @
     ''user='' @ user @ ''&pass='' @ pwd @ ''&ip='' @ userIP @ ''&local_ip='' @ localIP @
     ''&target='' @ QueryEscape target"

text \<open>The URL that is fetched and the host header, after resolving the host of the service.\<close>

definition auth_target :: "('m, 'd) auth_env \<Rightarrow> int \<Rightarrow> int \<Rightarrow> string \<Rightarrow> ('m, 'd) Center \<Rightarrow> (string \<times> string) result \<times> ('m, 'd) Center" where
  "auth_target env now later URL sf =
     (case au_resolver sf of
        None \<Rightarrow> (Inr (URL, ''''), sf)
      | Some dns \<Rightarrow>
          (case url_host env (au_url sf) of
             None \<Rightarrow> (Inl (Panic NilDereference), sf)
           | Some domain \<Rightarrow>
               (case MustResolve (au_cmap env) (au_dns env) now later domain dns of
                  (domainIP, dns) \<Rightarrow>
                    (Inr (if domainIP \<noteq> domain then replace_first domain domainIP URL else URL, domain),
                     sf\<lparr>au_resolver := Some dns\<rparr>))))"

definition auth_attempt :: "('m, 'd) auth_env \<Rightarrow> string \<Rightarrow> string \<Rightarrow> ('m, 'd) Center \<Rightarrow> nat \<Rightarrow> error option" where
  "auth_attempt env getURL domain sf k =
     (case httpGet env k getURL (au_timeout sf) domain of
        Inl err \<Rightarrow> Some (ErrMsg ''auth fail from url'')
      | Inr (body, code) \<Rightarrow> if code = successCode sf then None else Some (ErrMsg ''auth fail from url, response code''))"

definition VerifyFromURL ::
  "('m, 'd) auth_env \<Rightarrow> int \<Rightarrow> int \<Rightarrow> string \<Rightarrow> string \<Rightarrow> string \<Rightarrow> string \<Rightarrow> string \<Rightarrow> ('m, 'd) Center \<Rightarrow> error option result \<times> ('m, 'd) Center" where
  "VerifyFromURL env now later user pwd userIP localIP target sf =
     (if au_url sf = '''' then (Inr (Some (ErrMsg ''invalid remote basic auth url'')), sf)
      else case auth_target env now later (auth_url sf user pwd userIP localIP target) sf of
             (Inl e, sf) \<Rightarrow> (Inl e, sf)
           | (Inr (getURL, domain), sf) \<Rightarrow>
               (Inr (retry_op env (au_retry sf) (auth_attempt env getURL domain sf)), sf))"

definition Verify ::
  "('m, 'd) auth_env \<Rightarrow> int \<Rightarrow> int \<Rightarrow> string \<Rightarrow> string \<Rightarrow> string \<Rightarrow> string \<Rightarrow> ('m, 'd) Center \<Rightarrow> bool result \<times> ('m, 'd) Center" where
  "Verify env now later userPwdPair userIP localIP target sf =
     (case split_on (CHR '':'') (trim_set '' '' userPwdPair) of
        [user, pwd] \<Rightarrow>
          if VerifyFromLocal env user pwd sf then (Inr True, sf)
          else (case VerifyFromURL env now later user pwd userIP localIP target sf of
                  (Inl e, sf) \<Rightarrow> (Inl e, sf)
                | (Inr err, sf) \<Rightarrow> (Inr (err = None), sf))
      | _ \<Rightarrow> (Inr False, sf))"

definition Format :: "string \<Rightarrow> string \<Rightarrow> string" where
  "Format user pwd = user @ '':'' @ pwd"

subsection \<open>The password table\<close>

text \<open>The abstract table: what a user's password is after a sequence of changes.\<close>

datatype auth_op = OpAdd "string list" | OpDelete "string list"

definition add_pair :: "(string \<rightharpoonup> string) \<Rightarrow> string \<Rightarrow> (string \<rightharpoonup> string)" where
  "add_pair t up = (case split_on (CHR '':'') up of [u, p] \<Rightarrow> t(u \<mapsto> p) | _ \<Rightarrow> t)"

definition table_op :: "(string \<rightharpoonup> string) \<Rightarrow> auth_op \<Rightarrow> (string \<rightharpoonup> string)" where
  "table_op t op = (case op of
     OpAdd ups \<Rightarrow> foldl add_pair t ups | OpDelete users \<Rightarrow> (\<lambda>u. if u \<in> set users then None else t u))"

definition auth_op :: "('m, 'd) auth_env \<Rightarrow> ('m, 'd) Center \<Rightarrow> auth_op \<Rightarrow> ('m, 'd) Center" where
  "auth_op env sf op = (case op of
     OpAdd ups \<Rightarrow> snd (auth_Add env ups sf) | OpDelete users \<Rightarrow> auth_Delete env users sf)"

definition table :: "('m, 'd) auth_env \<Rightarrow> ('m, 'd) Center \<Rightarrow> (string \<rightharpoonup> string)" where
  "table env sf = (\<lambda>u. cm_Get (pw_cmap env) u (passwords sf))"

lemma table_set:
  "cmap_laws (pw_cmap env) \<Longrightarrow>
   table env (sf\<lparr>passwords := cm_Set (pw_cmap env) u p (passwords sf)\<rparr>) = (table env sf)(u \<mapsto> p)"
  by (auto simp: table_def cmap_Set fun_eq_iff)

lemma pair_cases:
  obtains u p where "split_on (CHR '':'') up = [u, p]" | "length (split_on (CHR '':'') up) \<noteq> 2"
  by (cases "length (split_on (CHR '':'') up) = 2") (auto simp: length_Suc_conv numeral_2_eq_2)

lemma auth_Add_pair:
  "split_on (CHR '':'') up = [u, p] \<Longrightarrow> auth_Add env (up # ups) sf =
     map_prod Suc id (auth_Add env ups (sf\<lparr>passwords := cm_Set (pw_cmap env) u p (passwords sf)\<rparr>))"
  "length (split_on (CHR '':'') up) \<noteq> 2 \<Longrightarrow> auth_Add env (up # ups) sf = auth_Add env ups sf"
  by (auto simp: case_prod_beta map_prod_def split: list.splits)

lemma auth_Add_table:
  assumes "cmap_laws (pw_cmap env)"
  shows "table env (snd (auth_Add env ups sf)) = foldl add_pair (table env sf) ups \<and>
    fst (auth_Add env ups sf) = length (filter (\<lambda>up. length (split_on (CHR '':'') up) = 2) ups)"
proof (induction ups arbitrary: sf)
  case (Cons up ups)
  show ?case
  proof (cases rule: pair_cases [of up])
    case (1 u p)
    then have "add_pair t up = t(u \<mapsto> p)" for t by (simp add: add_pair_def)
    with 1 show ?thesis
      using Cons [of "sf\<lparr>passwords := cm_Set (pw_cmap env) u p (passwords sf)\<rparr>"]
      by (simp add: auth_Add_pair table_set [OF assms] fun_upd_def del: auth_Add.simps)
  next
    case 2
    then have "add_pair t up = t" for t by (auto simp: add_pair_def split: list.splits)
    with 2 Cons show ?thesis by (simp add: auth_Add_pair del: auth_Add.simps)
  qed
qed simp

lemma auth_Delete_table:
  assumes "cmap_laws (pw_cmap env)"
  shows "table env (auth_Delete env users sf) = (\<lambda>u. if u \<in> set users then None else table env sf u)"
proof (induction users arbitrary: sf)
  case (Cons u users)
  have "table env (sf\<lparr>passwords := cm_Remove (pw_cmap env) u (passwords sf)\<rparr>) = (table env sf)(u := None)"
    using assms by (auto simp: table_def cmap_Remove fun_eq_iff)
  with Cons [of "sf\<lparr>passwords := cm_Remove (pw_cmap env) u (passwords sf)\<rparr>"] show ?case
    by (auto simp: auth_Delete_def fun_eq_iff)
qed (simp add: auth_Delete_def)

lemma auth_op_table:
  assumes "cmap_laws (pw_cmap env)"
  shows "table env (auth_op env sf op) = table_op (table env sf) op"
  by (cases op) (simp_all add: auth_op_def table_op_def auth_Add_table [OF assms] auth_Delete_table [OF assms])

lemma auth_run_table:
  assumes "cmap_laws (pw_cmap env)"
  shows "table env (foldl (auth_op env) sf ops) = foldl table_op (table env sf) ops"
  by (induction ops arbitrary: sf) (simp_all add: auth_op_table [OF assms])

lemma auth_New_table: "cmap_laws (pw_cmap env) \<Longrightarrow> table env (auth_New env opts) = Map.empty"
proof (induction opts rule: rev_induct)
  case (snoc opt opts)
  then show ?case
    by (auto simp: auth_New_def table_def SetDNSServer_def SetAuthURL_def split: auth_option.splits)
qed (simp add: auth_New_def table_def cmap_New fun_eq_iff)

lemma VerifyFromLocal_table: "VerifyFromLocal env user pwd sf \<longleftrightarrow> table env sf user = Some pwd"
  by (auto simp: VerifyFromLocal_def table_def split: option.splits)

subsection \<open>Verification\<close>

text \<open>
  What is relied on of \<open>backoff.Retry\<close> with \<open>n\<close> retries: it succeeds only when some attempt does,
  and it succeeds when one of the first attempts, \<open>n\<close> retries included, does.
\<close>

definition retry_ok :: "(nat \<Rightarrow> (nat \<Rightarrow> error option) \<Rightarrow> error option) \<Rightarrow> bool" where
  "retry_ok R \<longleftrightarrow> (\<forall>n op. (R n op = None \<longrightarrow> (\<exists>k. op k = None)) \<and> ((\<exists>k \<le> n. op k = None) \<longrightarrow> R n op = None))"

lemma trim_space_id:
  assumes "s \<noteq> []" "hd s \<noteq> CHR '' ''" "last s \<noteq> CHR '' ''"
  shows "trim_set '' '' s = s"
  using assms by (intro trim_set_id) simp_all

lemma VerifyFromURL_sound:
  assumes "retry_ok (retry_op env)" "VerifyFromURL env now later user pwd ip lip target sf = (Inr None, sf')"
  shows "au_url sf \<noteq> '''' \<and> (\<exists>k url host body. httpGet env k url (au_timeout sf) host = Inr (body, successCode sf))"
proof -
  have "au_timeout sf1 = au_timeout sf \<and> successCode sf1 = successCode sf"
    if "auth_target env now later URL sf = (r, sf1)" for URL r sf1
    using that by (auto simp: auth_target_def split: option.splits prod.splits)
  note frame = this
  have url: "au_url sf \<noteq> []" using assms(2) by (auto simp: VerifyFromURL_def)
  obtain r sf1 where t: "auth_target env now later (auth_url sf user pwd ip lip target) sf = (r, sf1)"
    by fastforce
  with assms(2) url obtain getURL domain where "r = Inr (getURL, domain)"
    and "retry_op env (au_retry sf1) (auth_attempt env getURL domain sf1) = None"
    by (auto simp: VerifyFromURL_def split: sum.splits prod.splits)
  then obtain k where "auth_attempt env getURL domain sf1 k = None"
    using assms(1) unfolding retry_ok_def by blast
  then show ?thesis
    using frame [OF t] url by (auto simp: auth_attempt_def split: sum.splits prod.splits if_splits)
qed

subsection \<open>Properties\<close>

text \<open>C22. The password table refines a map: after any sequence of \<open>Add\<close> and \<open>Delete\<close> calls a local
  verification succeeds exactly for the password the last change left for the user, a pair being
  accepted only with exactly one colon; \<open>Has\<close> and \<open>Total\<close> agree with the map.\<close>

theorem auth_table_refines:
  fixes env :: "('m, 'd) auth_env"
  assumes "cmap_laws (pw_cmap env)" "sf = foldl (auth_op env) (auth_New env opts) ops"
    and "t = foldl table_op Map.empty ops"
  shows "(VerifyFromLocal env user pwd sf \<longleftrightarrow> t user = Some pwd) \<and>
    (auth_Has env user sf \<longleftrightarrow> user \<in> dom t) \<and> auth_Total env sf = card (dom t)"
proof -
  have t: "table env sf = t"
    using auth_run_table [OF assms(1), of "auth_New env opts" ops] auth_New_table [OF assms(1), of opts]
    by (simp only: assms(2,3))
  then have "cm_Get (pw_cmap env) u (passwords sf) = t u" for u by (auto simp: table_def)
  note get = this
  show ?thesis
    unfolding VerifyFromLocal_table auth_Has_def auth_Total_def cmap_Has [OF assms(1)] cmap_Count [OF assms(1)]
      t get dom_def by simp
qed

definition example_auth :: "((string, string) alist, (string, dns_item) alist) auth_env" where
  "example_auth = \<lparr>pw_cmap = alist_cmap, au_cmap = alist_cmap, au_dns = example_dns, url_host = (\<lambda>_. Some ''h''),
     client_do = (\<lambda>k _ _ _ _. if k = 1 then Inr ([], 204) else Inl EOF),
     retry_op = (\<lambda>n op. if \<exists>k \<in> {0..n}. op k = None then None else op n), read_file = (\<lambda>_. Inl EOF)\<rparr>"

theorem auth_table_refines_witness:
  "VerifyFromLocal example_auth ''tom'' ''pw2''
     (foldl (auth_op example_auth) (auth_New example_auth []) [OpAdd [''tom:pw'', ''bad'', ''ann:x''], OpDelete [''ann''], OpAdd [''tom:pw2'']])"
  using auth_table_refines [of example_auth _ "[]" "[OpAdd [''tom:pw'', ''bad'', ''ann:x''], OpDelete [''ann''], OpAdd [''tom:pw2'']]"
      _ "''tom''" "''pw2''", OF _ refl refl]
  by (simp add: example_auth_def alist_cmap_laws table_op_def add_pair_def)

text \<open>What an accepted request is backed by.\<close>

definition accepted_by :: "('m, 'd) auth_env \<Rightarrow> ('m, 'd) Center \<Rightarrow> string \<Rightarrow> bool" where
  "accepted_by env sf pair \<longleftrightarrow>
     (\<exists>user pwd. trim_set '' '' pair = Format user pwd \<and> CHR '':'' \<notin> set user \<and> CHR '':'' \<notin> set pwd \<and>
        (VerifyFromLocal env user pwd sf \<or>
         (au_url sf \<noteq> '''' \<and> (\<exists>k url host body. httpGet env k url (au_timeout sf) host = Inr (body, successCode sf)))))"

lemma Verify_accepted:
  assumes "retry_ok (retry_op env)" "Verify env now later pair ip lip target sf = (Inr True, sf')"
  shows "accepted_by env sf pair"
proof -
  from assms(2) obtain user pwd where split: "split_on (CHR '':'') (trim_set '' '' pair) = [user, pwd]"
    by (auto simp: Verify_def split: list.splits)
  then have pair: "trim_set '' '' pair = Format user pwd \<and> CHR '':'' \<notin> set user \<and> CHR '':'' \<notin> set pwd"
    by (simp add: split_on_two_iff Format_def)
  show ?thesis
  proof (cases "VerifyFromLocal env user pwd sf")
    case False
    with assms(2) split have "VerifyFromURL env now later user pwd ip lip target sf = (Inr None, sf')"
      by (auto simp: Verify_def split: prod.splits sum.splits)
    from VerifyFromURL_sound [OF assms(1) this] pair show ?thesis unfolding accepted_by_def by blast
  qed (use pair in \<open>unfold accepted_by_def, blast\<close>)
qed

lemma Verify_core:
  assumes "Verify env now later pair ip lip target sf = (r, sf')"
  shows "\<exists>d. sf' = sf\<lparr>au_resolver := d\<rparr>"
proof -
  have id: "\<exists>d. x = x\<lparr>au_resolver := d\<rparr>" for x :: "('a, 'b) Center"
    by (rule exI [of _ "au_resolver x"]) simp
  have t: "\<exists>d. x = sf\<lparr>au_resolver := d\<rparr>" if "auth_target env now later u sf = (q, x)" for u q x
    using that id unfolding auth_target_def by (auto split: option.splits prod.splits)
  have v: "\<exists>d. x = sf\<lparr>au_resolver := d\<rparr>" if "VerifyFromURL env now later u p ip lip target sf = (q, x)" for u p q x
    using that id t unfolding VerifyFromURL_def by (auto split: prod.splits sum.splits if_splits)
  show ?thesis
    using assms id v unfolding Verify_def by (auto split: list.splits if_splits prod.splits sum.splits)
qed



text \<open>A pair that \<open>Add\<close> accepts with a space at its end is never verified, because \<open>Verify\<close> trims it.\<close>

lemma add_verify_mismatch:
  assumes "cmap_laws (pw_cmap env)"
  shows "fst (Verify env now later ''tom:pw '' ip lip target (snd (auth_Add env [''tom:pw ''] (auth_New env [])))) = Inr False"
proof -
  let ?sf = "snd (auth_Add env [''tom:pw ''] (auth_New env []))"
  have "table env ?sf = [''tom'' \<mapsto> ''pw '']"
    by (simp add: auth_Add_table [OF assms] auth_New_table [OF assms] add_pair_def del: auth_Add.simps)
  moreover have "au_url ?sf = ''''" by (simp add: auth_New_def)
  moreover have "trim_set '' '' ''tom:pw '' = ''tom:pw''" by (simp add: trim_set_def)
  ultimately show ?thesis
    by (simp add: Verify_def VerifyFromLocal_table VerifyFromURL_def del: auth_Add.simps)
qed

end
