(* ===== verification/Socks5.thy ===== *)
theory Socks5
  imports Socks5_Packets BasicAuth
begin

section \<open>core/socks5/server.go and client.go: the two ends of a handshake\<close>

text \<open>
  Both handshakes are operations on a connection. The server reads each message with one \<open>Read\<close>,
  so it relies on a message arriving in one segment; the client reads exact numbers of bytes. The
  authentication centre is the one of \<open>BasicAuth\<close> with its parameters; the addresses of the two
  ends of the connection, the clock of a verification and the outcome of opening a UDP listener
  (its local address) are given in \<open>socks_env\<close>. A failed handshake yields its error; what it had
  stored in the server object by then is not observed by the callers and is left out.
\<close>

record ('m, 'd) socks_env =
  se_auth :: "('m, 'd) auth_env"
  se_now :: int
  se_later :: int
  se_remote :: string
  se_local :: string
  se_listen :: "string result"

record ('m, 'd) SocksServer =
  ss_target :: string
  ss_pUser :: string
  ss_pPassword :: string
  ss_user :: string
  ss_password :: string
  ss_auth :: "('m, 'd) Center option"
  ss_header :: bytes
  ss_ver :: byte
  ss_methodsCount :: byte
  ss_methods :: bytes
  ss_method :: byte
  ss_cmd :: byte
  ss_reserve :: byte
  ss_addressType :: byte
  ss_dstAddr :: string
  ss_dstPort :: string
  ss_dstHost :: string
  ss_listener :: "string option"
  ss_enableUDP :: bool
  ss_udpIP :: string

definition NewServer :: "('m, 'd) Center option \<Rightarrow> bool \<Rightarrow> string \<Rightarrow> bytes \<Rightarrow> ('m, 'd) SocksServer" where
  "NewServer auth enableUDP udpHost header =
     \<lparr>ss_target = '''', ss_pUser = '''', ss_pPassword = '''', ss_user = '''', ss_password = '''', ss_auth = auth,
      ss_header = header, ss_ver = VERSION_V5, ss_methodsCount = 0, ss_methods = [], ss_method = 0, ss_cmd = 0,
      ss_reserve = 0, ss_addressType = 0, ss_dstAddr = '''', ss_dstPort = '''', ss_dstHost = '''',
      ss_listener = None, ss_enableUDP = enableUDP, ss_udpIP = udpHost\<rparr>"

definition IsUDP :: "('m, 'd) SocksServer \<Rightarrow> bool" where
  "IsUDP s \<longleftrightarrow> ss_cmd s = CMD_ASSOCIATE"

definition IsTCP :: "('m, 'd) SocksServer \<Rightarrow> bool" where
  "IsTCP s \<longleftrightarrow> ss_cmd s = CMD_CONNECT"

text \<open>
  The user name and password of RFC 1929, read into a buffer of 500 bytes: \<open>r[2 : r[1]+2]\<close> may
  reach beyond the bytes read, into the zeros of the buffer, and both sums wrap at 256.
\<close>

definition parse_auth :: "bytes \<Rightarrow> (string \<times> string) result" where
  "parse_auth r =
     bindR (index_at r 1) (\<lambda>ulen.
     bindR (slice_at (r @ replicate (500 - length r) 0) 2 (unat (ulen + 2))) (\<lambda>u.
     bindR (slice_at r (unat (2 + ulen + 1)) (length r)) (\<lambda>p.
       Inr (bytes_str u, bytes_str p))))"

definition verify_auth :: "('m, 'd) socks_env \<Rightarrow> ('m, 'd) SocksServer \<Rightarrow> (bool \<times> ('m, 'd) SocksServer) result" where
  "verify_auth env s =
     (case ss_auth s of
        None \<Rightarrow> Inr (True, s)
      | Some center \<Rightarrow>
          (case Verify (se_auth env) (se_now env) (se_later env) (Format (ss_user s) (ss_password s))
                  (hd (split_on (CHR '':'') (se_remote env))) (hd (split_on (CHR '':'') (se_local env))) '''' center of
             (Inl e, _) \<Rightarrow> Inl e
           | (Inr ok, center) \<Rightarrow> Inr (ok, s\<lparr>ss_auth := Some center\<rparr>)))"

definition server_userpass :: "('m, 'd) socks_env \<Rightarrow> ('m, 'd) SocksServer \<Rightarrow> ('m, 'd) SocksServer io" where
  "server_userpass env s =
     bindIO (mapErr (ErrMsg ''reply answer data fail'') (MethodsRequest_Reply Method_USER_PASS)) (\<lambda>_.
     bindIO (mapErr (ErrMsg ''read auth info fail'') (conn_Read 500)) (\<lambda>r.
     bindIO (liftR (parse_auth r)) (\<lambda>(u, p).
       let s = s\<lparr>ss_method := Method_USER_PASS, ss_pUser := u, ss_pPassword := p\<rparr> in
       bindIO (liftR (verify_auth env s)) (\<lambda>(ok, s).
         if ok then bindIO (mapErr (ErrMsg ''answer auth success fail'') (conn_Write [1, 0])) (\<lambda>_. retIO s)
         else bindIO (mapErr (ErrMsg ''answer auth fail fail'') (conn_Write [1, 1])) (\<lambda>_. failIO (ErrMsg ''auth fail''))))))"

definition server_methods :: "('m, 'd) socks_env \<Rightarrow> ('m, 'd) SocksServer \<Rightarrow> (MethodsRequest \<times> ('m, 'd) SocksServer) io" where
  "server_methods env s c =
     (case NewMethodsRequest (ss_header s) c of
        (Inl (Panic p), c) \<Rightarrow> (Inl (Panic p), c)
      | (Inl _, c) \<Rightarrow>
          bindIO (ignoreErr (MethodsRequest_Reply Method_NONE_ACCEPTABLE))
            (\<lambda>_. failIO (ErrMsg ''new methods request fail'')) c
      | (Inr m, c) \<Rightarrow>
          (if ss_auth s = None \<and> MethodsRequest_Select Method_NO_AUTH m \<and> \<not> MethodsRequest_Select Method_USER_PASS m
           then bindIO (mapErr (ErrMsg ''reply answer data fail'') (MethodsRequest_Reply Method_NO_AUTH))
                  (\<lambda>_. retIO (m, s\<lparr>ss_method := Method_NO_AUTH\<rparr>))
           else if \<not> MethodsRequest_Select Method_USER_PASS m
           then bindIO (ignoreErr (MethodsRequest_Reply Method_NONE_ACCEPTABLE))
                  (\<lambda>_. failIO (ErrMsg ''none method found : Method_USER_PASS''))
           else bindIO (server_userpass env s) (\<lambda>s. retIO (m, s))) c)"

definition server_associate :: "('m, 'd) socks_env \<Rightarrow> ('m, 'd) SocksServer \<Rightarrow> ('m, 'd) SocksServer io" where
  "server_associate env s =
     (if \<not> ss_enableUDP s then
        bindIO (mapErr (ErrMsg ''UDPReply REP_UNKNOWN fail'') (UDPReply REP_UNKNOWN ''0.0.0.0:0''))
          (\<lambda>_. failIO (ErrMsg ''cmd associate not supported''))
      else case se_listen env of
             Inl _ \<Rightarrow> bindIO (ignoreErr (UDPReply REP_UNKNOWN ''0.0.0.0:0'')) (\<lambda>_. failIO (ErrMsg ''udp bind fail''))
           | Inr laddr \<Rightarrow>
               let port = (case SplitHostPort laddr of Inl _ \<Rightarrow> '''' | Inr (_, port) \<Rightarrow> port) in
               bindIO (mapErr (ErrMsg ''UDPReply REP_SUCCESS fail'') (UDPReply REP_SUCCESS (JoinHostPort (ss_udpIP s) port)))
                 (\<lambda>_. retIO (s\<lparr>ss_listener := Some laddr\<rparr>)))"

definition server_command :: "('m, 'd) socks_env \<Rightarrow> byte \<Rightarrow> ('m, 'd) SocksServer \<Rightarrow> ('m, 'd) SocksServer io" where
  "server_command env cmd s =
     (if cmd = CMD_BIND then
        bindIO (mapErr (ErrMsg ''TCPReply REP_UNKNOWN fail'') (TCPReply REP_UNKNOWN)) (\<lambda>_. failIO (ErrMsg ''cmd bind not supported''))
      else if cmd = CMD_CONNECT then
        bindIO (mapErr (ErrMsg ''TCPReply REP_SUCCESS fail'') (TCPReply REP_SUCCESS)) (\<lambda>_. retIO s)
      else if cmd = CMD_ASSOCIATE then server_associate env s
      else retIO s)"

definition Server_Handshake :: "('m, 'd) socks_env \<Rightarrow> ('m, 'd) SocksServer \<Rightarrow> ('m, 'd) SocksServer io" where
  "Server_Handshake env s =
     bindIO (server_methods env s) (\<lambda>(m, s).
     bindIO (mapErr (ErrMsg ''read request data fail'') NewRequest) (\<lambda>q.
     bindIO (server_command env (sq_cmd q) s) (\<lambda>s.
       retIO (s\<lparr>ss_target := sq_dstAddr q, ss_methodsCount := mr_methodsCount m, ss_methods := mr_methods m,
                ss_cmd := sq_cmd q, ss_reserve := sq_reserve q, ss_addressType := sq_addressType q,
                ss_dstAddr := sq_dstAddr q, ss_dstHost := sq_dstHost q, ss_dstPort := sq_dstPort q\<rparr>))))"

subsection \<open>The client\<close>

record SocksClient =
  sc_user :: string
  sc_password :: string
  sc_header :: bytes
  sc_addr :: string
  sc_network :: string
  sc_UDPAddr :: string

definition NewClient :: "string \<Rightarrow> string \<Rightarrow> (string \<times> string) option \<Rightarrow> bytes \<Rightarrow> SocksClient" where
  "NewClient network target auth header =
     \<lparr>sc_user = (case auth of None \<Rightarrow> '''' | Some (u, _) \<Rightarrow> u),
      sc_password = (case auth of None \<Rightarrow> '''' | Some (_, p) \<Rightarrow> p),
      sc_header = header,
      sc_addr = (if network = ''udp'' \<and> target = '''' then ''0.0.0.0:0'' else target),
      sc_network = network, sc_UDPAddr = ''''\<rparr>"

definition client_greeting :: "SocksClient \<Rightarrow> bytes" where
  "client_greeting s =
     (if 0 < length (sc_user s) \<and> length (sc_user s) < 256 \<and> length (sc_password s) < 256
      then [VERSION_V5, 2, Method_NO_AUTH, Method_USER_PASS] else [VERSION_V5, 1, Method_NO_AUTH])"

definition client_auth :: "SocksClient \<Rightarrow> bytes" where
  "client_auth s = [1, of_nat (length (sc_user s))] @ str_bytes (sc_user s) @
     [of_nat (length (sc_password s))] @ str_bytes (sc_password s)"

definition client_handshake :: "SocksClient \<Rightarrow> unit io" where
  "client_handshake s =
     bindIO (mapErr (ErrMsg ''proxy: failed to write greeting'') (conn_Write (client_greeting s))) (\<lambda>_.
     bindIO (mapErr (ErrMsg ''proxy: failed to read greeting'') (conn_ReadFull 2)) (\<lambda>buf.
       if buf ! 0 \<noteq> 5 then failIO (ErrMsg ''proxy: unexpected version'')
       else if buf ! 1 = 255 then failIO (ErrMsg ''proxy: requires authentication'')
       else if buf ! 1 = Method_USER_PASS then
         bindIO (mapErr (ErrMsg ''proxy: failed to write authentication request'') (conn_Write (client_auth s))) (\<lambda>_.
         bindIO (mapErr (ErrMsg ''proxy: failed to read authentication reply'') (conn_ReadFull 2)) (\<lambda>buf.
           if buf ! 1 \<noteq> 0 then failIO (ErrMsg ''proxy: rejected username/password'') else retIO ()))
       else retIO ()))"

definition client_request :: "SocksClient \<Rightarrow> string \<Rightarrow> int \<Rightarrow> bytes result" where
  "client_request s host port =
     (let buf = [VERSION_V5, if sc_network s = ''tcp'' then CMD_CONNECT else CMD_ASSOCIATE, 0];
          ip = ParseIP host
      in if ip \<noteq> [] then
           Inr (buf @ (if To4 ip \<noteq> [] then ATYP_IPV4 # To4 ip else ATYP_IPV6 # ip) @ port_bytes port)
         else if length host > 255 then Inl (ErrMsg ''proxy: destination host name too long'')
         else Inr (buf @ [ATYP_DOMAIN, of_nat (length host)] @ str_bytes host @ port_bytes port))"

text \<open>The reply of the server: status, then an address of which only an IP is kept, and a port.\<close>

definition client_bound :: "bytes \<Rightarrow> string" where
  "client_bound ip =
     (if length ip = 4 \<or> length ip = 16 then (if To4 ip \<noteq> [] then IP_String (To4 ip) else IP_String (To16 ip)) else '''')"

definition client_reply :: "SocksClient \<Rightarrow> SocksClient io" where
  "client_reply s =
     bindIO (mapErr (ErrMsg ''proxy: failed to read connect reply'') (conn_ReadFull 4)) (\<lambda>buf.
       if buf ! 1 \<noteq> 0 then failIO (ErrMsg ''proxy: failed to connect'')
       else
         bindIO (if buf ! 3 = ATYP_IPV4 then retIO 4
                 else if buf ! 3 = ATYP_IPV6 then retIO 16
                 else if buf ! 3 = ATYP_DOMAIN then
                   bindIO (mapErr (ErrMsg ''proxy: failed to read domain length'') (conn_ReadFull 1)) (\<lambda>l. retIO (unat (l ! 0)))
                 else failIO (ErrMsg ''proxy: got unknown address type'')) (\<lambda>n.
         bindIO (mapErr (ErrMsg ''proxy: failed to read address'') (conn_ReadFull n)) (\<lambda>ip.
         bindIO (mapErr (ErrMsg ''proxy: failed to read port'') (conn_ReadFull 2)) (\<lambda>pb.
           retIO (s\<lparr>sc_UDPAddr := JoinHostPort (client_bound ip) (Itoa (be16 (pb ! 0) (pb ! 1)))\<rparr>)))))"

definition Client_Handshake :: "SocksClient \<Rightarrow> SocksClient io" where
  "Client_Handshake s =
     bindIO (liftR (SplitHostPort (sc_addr s))) (\<lambda>(host, portStr).
     bindIO (mapErr (ErrMsg ''proxy: failed to parse port number'') (liftR (Atoi portStr))) (\<lambda>port.
       if sc_network s = ''tcp'' \<and> (port < 1 \<or> port > 65535) then failIO (ErrMsg ''proxy: port number out of range'')
       else
         bindIO (client_handshake s) (\<lambda>_.
         bindIO (liftR (client_request s host port)) (\<lambda>buf.
         bindIO (mapErr (ErrMsg ''proxy: failed to write connect request'') (conn_Write buf)) (\<lambda>_.
           client_reply s)))))"

subsection \<open>Evaluation of the messages\<close>

lemma Atoi_val_Itoa: "- (2 ^ 63) \<le> i \<Longrightarrow> i < 2 ^ 63 \<Longrightarrow> Atoi_val (Itoa i) = i"
  by (simp add: Atoi_val_def Atoi_Itoa)

lemma NewReply_ipv4:
  assumes "0 \<le> port" "port < 65536"
  shows "NewReply rep (JoinHostPort (dotted [a, b, c, d]) (Itoa port)) =
    Inr ([VERSION_V5, rep, RSV, ATYP_IPV4, a, b, c, d] @ port_bytes port)"
proof -
  have "SplitHostPort (JoinHostPort (dotted [a, b, c, d]) (Itoa port)) = Inr (dotted [a, b, c, d], Itoa port)"
    using Split_Join [OF dotted_addr_safe(1) Itoa_port_chars [OF assms(1)]] .
  moreover have "Atoi_val (Itoa port) = port" using assms by (intro Atoi_val_Itoa) simp_all
  moreover have "\<not> length (IPv4 a b c d) < 12" by simp
  ultimately show ?thesis by (simp add: NewReply_def ParseIP_dotted)
qed

lemma NewReply_zero: "NewReply rep ''0.0.0.0:0'' = Inr [5, rep, 0, 1, 0, 0, 0, 0, 0, 0]"
proof -
  have "JoinHostPort (dotted [0, 0, 0, 0]) (Itoa 0) = ''0.0.0.0:0''"
    by (simp add: JoinHostPort_def dotted_def Itoa_def dec_str.simps digit_char_def) (simp add: char_of_def bit_iff_odd)
  with NewReply_ipv4 [of 0 rep 0 0 0 0] show ?thesis
    by (simp add: socks_consts port_bytes_def byte_of_int_def)
qed

text \<open>The request of a client for a destination, as the server reads it.\<close>

lemma client_request_length:
  assumes "client_request s host port = Inr q"
  shows "length q \<le> 1024" "7 \<le> length q"
proof -
  have "length q \<le> 1024 \<and> 7 \<le> length q"
  proof (cases "ParseIP host = []")
    case True
    then show ?thesis using assms by (auto simp: client_request_def Let_def split: if_splits)
  next
    case False
    then show ?thesis
      by (cases rule: ip_cases) (use assms False in \<open>auto simp: client_request_def Let_def\<close>)
  qed
  then show "length q \<le> 1024" "7 \<le> length q" by simp_all
qed

lemma client_request_shape:
  assumes "client_request s host port = Inr q"
  obtains t where "q = t @ port_bytes port" "t ! 0 = 5"
    "t ! 1 = (if sc_network s = ''tcp'' then CMD_CONNECT else CMD_ASSOCIATE)" "t ! 2 = 0" "4 < length t"
    "\<And>z. request_host (q @ replicate z 0) (length q) = Inr (canon_host host)"
proof (cases "ParseIP host = []")
  case True
  let ?t = "[VERSION_V5, if sc_network s = ''tcp'' then CMD_CONNECT else CMD_ASSOCIATE, 0, ATYP_DOMAIN,
      of_nat (length host)] @ str_bytes host"
  have q: "q = ?t @ port_bytes port" using assms True by (auto simp: client_request_def Let_def split: if_splits)
  moreover have "request_host (q @ replicate z 0) (length q) = Inr (canon_host host)" for z
    using True by (simp add: q request_host_def socks_consts slice_int_def canon_host_def nat_add_distrib)
  ultimately show thesis using that [of ?t] by (simp add: VERSION_V5_def)
next
  case False
  then show thesis
  proof (cases rule: ip_cases)
    case (v4 a b c d)
    let ?t = "[VERSION_V5, if sc_network s = ''tcp'' then CMD_CONNECT else CMD_ASSOCIATE, 0, ATYP_IPV4, a, b, c, d]"
    have q: "q = ?t @ port_bytes port" using assms v4 by (auto simp: client_request_def Let_def)
    moreover have "request_host (q @ replicate z 0) (length q) = Inr (canon_host host)" for z
      using False v4 by (simp add: q request_host_def socks_consts canon_host_def)
    ultimately show thesis using that [of ?t] by (simp add: VERSION_V5_def)
  next
    case v6
    let ?t = "[VERSION_V5, if sc_network s = ''tcp'' then CMD_CONNECT else CMD_ASSOCIATE, 0, ATYP_IPV6] @ ParseIP host"
    have q: "q = ?t @ port_bytes port" using assms v6 False by (auto simp: client_request_def Let_def)
    moreover have "request_host (q @ replicate z 0) (length q) = Inr (canon_host host)" for z
      using False v6 by (simp add: q request_host_def socks_consts canon_host_def)
    ultimately show thesis using that [of ?t] v6 by (simp add: VERSION_V5_def)
  qed
qed

lemma NewRequest_client:
  assumes q: "client_request s host port = Inr q" and c: "inbox c = q # ss" and port: "0 \<le> port" "port < 65536"
  shows "NewRequest c = (Inr \<lparr>sq_ver = 5, sq_cmd = (if sc_network s = ''tcp'' then CMD_CONNECT else CMD_ASSOCIATE),
    sq_reserve = 0, sq_addressType = q ! 3, sq_dstAddr = JoinHostPort (canon_host host) (Itoa port),
    sq_dstPort = Itoa port, sq_dstHost = canon_host host, sq_bytes = q\<rparr>, c\<lparr>inbox := ss\<rparr>)"
proof -
  note len = client_request_length [OF q]
  from client_request_shape [OF q] obtain t where t: "q = t @ port_bytes port" "t ! 0 = 5"
    "t ! 1 = (if sc_network s = ''tcp'' then CMD_CONNECT else CMD_ASSOCIATE)" "t ! 2 = 0" "4 < length t"
    "\<And>z. request_host (q @ replicate z 0) (length q) = Inr (canon_host host)" by metis
  define b where "b = q @ replicate (1024 - length q) 0"
  have "t \<noteq> []" using t(5) by auto
  with t(2-5) have hd_b: "b ! 0 = 5"
    "b ! 1 = (if sc_network s = ''tcp'' then CMD_CONNECT else CMD_ASSOCIATE)" "b ! 2 = 0" "b ! 3 = q ! 3"
    by (simp_all add: b_def t(1) nth_append)
  have nq: "int (length q) - 2 = int (length t)" "int (length q) - 1 = int (length t) + 1" by (simp_all add: t(1))
  have ix: "index_int b (int (length q) - 2) = Inr (byte_of_int (port div 256))"
    "index_int b (int (length q) - 1) = Inr (byte_of_int port)"
    unfolding index_int_def nq by (simp_all add: b_def t(1) nth_append port_bytes_def nat_add_distrib)
  have be: "be16 (byte_of_int (port div 256)) (byte_of_int port) = port"
    using port by (simp add: be16_port_bytes)
  have read: "mapErr (ErrMsg ''read req data fail'') (conn_Read 1024) c = (Inr q, c\<lparr>inbox := ss\<rparr>)"
    using conn_Read_seg [of c q ss 1024] c len(1) by (simp add: mapErr_def)
  have host: "request_host b (length q) = Inr (canon_host host)" unfolding b_def by (rule t(6))
  show ?thesis
    unfolding NewRequest_def bindIO_simps(1) [of "mapErr (ErrMsg ''read req data fail'') (conn_Read 1024)", OF read]
    using hd_b by (simp add: Let_def b_def [symmetric] host ix bindIO_ret be retIO_simp)
qed

lemma NewMethodsRequest_greeting:
  assumes "inbox c = g # ss" "g = [5, of_nat (length ms)] @ ms" "length ms \<le> 255"
  shows "NewMethodsRequest [] c = (Inr \<lparr>mr_ver = 5, mr_methodsCount = of_nat (length ms), mr_methods = ms, mr_bytes = g\<rparr>,
    c\<lparr>inbox := ss\<rparr>)"
proof -
  have "conn_Read 300 c = (Inr g, c\<lparr>inbox := ss\<rparr>)"
    using assms by (intro conn_Read_seg) simp_all
  moreover have "unat (of_nat (length ms) :: byte) = length ms"
    using assms(3) by (simp add: unat_of_nat take_bit_eq_mod)
  ultimately show ?thesis
    using assms(2) by (simp add: NewMethodsRequest_def bindIO_def retIO_def failIO_def)
qed

lemma conn_Write_good:
  "write_err c = (\<lambda>_. None) \<Longrightarrow>
   mapErr e (conn_Write b) c = (Inr (), c\<lparr>write_no := Suc (write_no c), outbox := outbox c @ [b]\<rparr>)"
  by (simp add: mapErr_def conn_Write_def)

lemma TCPReply_good:
  "write_err c = (\<lambda>_. None) \<Longrightarrow>
   mapErr e (TCPReply rep) c = (Inr (), c\<lparr>write_no := Suc (write_no c), outbox := outbox c @ [[5, rep, 0, 1, 0, 0, 0, 0, 0, 0]]\<rparr>)"
  by (simp add: TCPReply_def NewReply_zero bindIO_ret mapErr_def conn_Write_def)

text \<open>The part of the server's handshake after the methods, for a \<open>CONNECT\<close>.\<close>

lemma server_connect:
  assumes q: "client_request cl host port = Inr q" "sc_network cl = ''tcp''" "0 \<le> port" "port < 65536"
    and c: "inbox c = q # ss" "write_err c = (\<lambda>_. None)"
    and m: "server_methods env s c0 = (Inr (m, s1), c)"
  shows "\<exists>s'. Server_Handshake env s c0 = (Inr s', c\<lparr>inbox := ss, write_no := Suc (write_no c),
      outbox := outbox c @ [[5, 0, 0, 1, 0, 0, 0, 0, 0, 0]]\<rparr>) \<and>
    ss_target s' = JoinHostPort (canon_host host) (Itoa port) \<and> ss_dstHost s' = canon_host host \<and>
    IsTCP s' \<and> ss_method s' = ss_method s1"
proof -
  note r = NewRequest_client [OF q(1) c(1) q(3,4)]
  then have "mapErr (ErrMsg ''read request data fail'') NewRequest c = (Inr (fst_req), c\<lparr>inbox := ss\<rparr>)"
    if "fst_req = \<lparr>sq_ver = 5, sq_cmd = CMD_CONNECT, sq_reserve = 0, sq_addressType = q ! 3,
      sq_dstAddr = JoinHostPort (canon_host host) (Itoa port), sq_dstPort = Itoa port, sq_dstHost = canon_host host, sq_bytes = q\<rparr>" for fst_req
    using that q(2) by (simp add: mapErr_def)
  moreover have "CMD_CONNECT \<noteq> CMD_BIND" by (simp add: socks_consts)
  ultimately show ?thesis
    using m c(2)
    by (simp add: Server_Handshake_def bindIO_def server_command_def TCPReply_good retIO_def IsTCP_def REP_SUCCESS_def)
qed

lemma server_methods_noauth:
  assumes "ss_auth s = None" "ss_header s = []" "inbox c = [5, 1, 0] # ss" "write_err c = (\<lambda>_. None)"
  shows "\<exists>m. server_methods env s c = (Inr (m, s\<lparr>ss_method := Method_NO_AUTH\<rparr>),
     c\<lparr>inbox := ss, write_no := Suc (write_no c), outbox := outbox c @ [[5, 0]]\<rparr>)"
  using NewMethodsRequest_greeting [OF assms(3), of "[0]"] assms
  by (simp add: server_methods_def MethodsRequest_Select_def socks_consts MethodsRequest_Reply_def
      bindIO_def conn_Write_good retIO_def)

subsection \<open>The client's side\<close>

text \<open>
  The client never looks at segment boundaries: on the bytes \<open>m @ r\<close> an exact read of the length
  of \<open>m\<close> returns \<open>m\<close> and leaves \<open>r\<close>.
\<close>

definition conn_at :: "bytes \<Rightarrow> bytes list \<Rightarrow> conn \<Rightarrow> bool" where
  "conn_at r out c \<longleftrightarrow> concat (inbox c) = r \<and> outbox c = out \<and> write_err c = (\<lambda>_. None)"

lemma ReadFull_at:
  assumes "conn_at (m @ r) out c" "length m = n"
  shows "\<exists>c'. mapErr e (conn_ReadFull n) c = (Inr m, c') \<and> conn_at r out c'"
  using conn_ReadFull_ok [of n c] assms by (auto simp: conn_at_def mapErr_def)

lemma Write_at:
  assumes "conn_at r out c"
  shows "\<exists>c'. mapErr e (conn_Write b) c = (Inr (), c') \<and> conn_at r (out @ [b]) c'"
  using assms conn_Write_good [of c e b] by (auto simp: conn_at_def)

lemma client_handshake_noauth:
  assumes "conn_at ([5, 0] @ r) out c"
  shows "\<exists>c'. client_handshake s c = (Inr (), c') \<and> conn_at r (out @ [client_greeting s]) c'"
proof -
  obtain c1 where c1: "mapErr (ErrMsg ''proxy: failed to write greeting'') (conn_Write (client_greeting s)) c = (Inr (), c1)"
    "conn_at ([5, 0] @ r) (out @ [client_greeting s]) c1" using Write_at [OF assms] by blast
  obtain c2 where c2: "mapErr (ErrMsg ''proxy: failed to read greeting'') (conn_ReadFull 2) c1 = (Inr [5, 0], c2)"
    "conn_at r (out @ [client_greeting s]) c2" using ReadFull_at [OF c1(2), of 2] by auto
  show ?thesis using c1(1) c2 by (simp add: client_handshake_def bindIO_def retIO_def socks_consts)
qed

lemma client_reply_ipv4:
  assumes "conn_at ([5, 0, 0, 1, x1, x2, x3, x4, y1, y2] @ r) out c"
  shows "\<exists>c'. client_reply s c = (Inr (s\<lparr>sc_UDPAddr := JoinHostPort (dotted [x1, x2, x3, x4]) (Itoa (be16 y1 y2))\<rparr>), c') \<and>
    conn_at r out c'"
proof -
  have "conn_at ([5, 0, 0, 1] @ [x1, x2, x3, x4, y1, y2] @ r) out c" using assms by simp
  from ReadFull_at [OF this, of 4] obtain c1 where c1: "mapErr (ErrMsg ''proxy: failed to read connect reply'') (conn_ReadFull 4) c = (Inr [5, 0, 0, 1], c1)"
    "conn_at ([x1, x2, x3, x4] @ [y1, y2] @ r) out c1" by auto
  from ReadFull_at [OF c1(2), of 4] obtain c2 where c2: "mapErr (ErrMsg ''proxy: failed to read address'') (conn_ReadFull 4) c1 = (Inr [x1, x2, x3, x4], c2)"
    "conn_at ([y1, y2] @ r) out c2" by auto
  from ReadFull_at [OF c2(2), of 2] obtain c3 where c3: "mapErr (ErrMsg ''proxy: failed to read port'') (conn_ReadFull 2) c2 = (Inr [y1, y2], c3)"
    "conn_at r out c3" by auto
  have "To4 [x1, x2, x3, x4] = [x1, x2, x3, x4]" by (simp add: To4_def)
  then show ?thesis
    using c1(1) c2(1) c3 by (simp add: client_reply_def bindIO_def retIO_def socks_consts client_bound_def)
qed

lemma client_connects:
  assumes addr: "sc_addr s = JoinHostPort host (Itoa port)" "addr_safe host" "1 \<le> port" "port \<le> 65535"
    and req: "client_request s host port = Inr q"
    and c: "conn_at ([5, 0] @ [5, 0, 0, 1, x1, x2, x3, x4, y1, y2] @ r) out c"
  shows "\<exists>c'. Client_Handshake s c = (Inr (s\<lparr>sc_UDPAddr := JoinHostPort (dotted [x1, x2, x3, x4]) (Itoa (be16 y1 y2))\<rparr>), c') \<and>
    conn_at r (out @ [client_greeting s, q]) c'"
proof -
  have split: "SplitHostPort (sc_addr s) = Inr (host, Itoa port)"
    unfolding addr(1) using Split_Join addr(2) Itoa_port_chars [of port] addr(3) by simp
  have atoi: "Atoi (Itoa port) = Inr port" using addr(3,4) by (intro Atoi_Itoa) simp_all
  obtain c1 where c1: "client_handshake s c = (Inr (), c1)"
    "conn_at ([5, 0, 0, 1, x1, x2, x3, x4, y1, y2] @ r) (out @ [client_greeting s]) c1"
    using client_handshake_noauth [OF c] by blast
  obtain c2 where c2: "mapErr (ErrMsg ''proxy: failed to write connect request'') (conn_Write q) c1 = (Inr (), c2)"
    "conn_at ([5, 0, 0, 1, x1, x2, x3, x4, y1, y2] @ r) ((out @ [client_greeting s]) @ [q]) c2"
    using Write_at [OF c1(2)] by blast
  from client_reply_ipv4 [OF c2(2), of s] c1(1) c2(1) show ?thesis
    using addr(3,4) by (auto simp: Client_Handshake_def bindIO_def liftR_def split mapErr_def atoi req)
qed

subsection \<open>Properties\<close>

text \<open>C15. The two ends understand each other: for a host of at most 255 bytes and a port from 1 to 65535,
  a client without credentials and a server without an authentication centre complete the TCP
  handshake, what each writes being what the other reads (in any segmentation for the client),
  and the server's target is the client's destination, an IP in its canonical form.\<close>

theorem socks_handshake_agrees:
  assumes "addr_safe host" "length host \<le> 255" "1 \<le> port" "port \<le> 65535"
    and "cl = NewClient ''tcp'' (JoinHostPort host (Itoa port)) None header"
    and "srv = NewServer None en udpIP []"
    and "concat segs = concat toClient" "toClient = [[5, 0], [5, 0, 0, 1, 0, 0, 0, 0, 0, 0]]"
  shows "\<exists>toServer cl' c srv' d.
    Client_Handshake cl (good_conn segs) = (Inr cl', c) \<and> outbox c = toServer \<and> concat (inbox c) = [] \<and>
    Server_Handshake env srv (good_conn toServer) = (Inr srv', d) \<and> outbox d = toClient \<and> inbox d = [] \<and>
    IsTCP srv' \<and> ss_target srv' = JoinHostPort (canon_host host) (Itoa port)"
proof -
  have cl: "sc_addr cl = JoinHostPort host (Itoa port)" "sc_network cl = ''tcp''" "client_greeting cl = [5, 1, 0]"
    by (simp_all add: assms(5) NewClient_def client_greeting_def socks_consts)
  obtain q where q: "client_request cl host port = Inr q"
    using assms(2) by (simp add: client_request_def Let_def) (metis not_le)
  have "conn_at ([5, 0] @ [5, 0, 0, 1, 0, 0, 0, 0, 0, 0] @ []) [] (good_conn segs)"
    using assms(7,8) by (simp add: conn_at_def good_conn_def)
  from client_connects [OF cl(1) assms(1,3,4) q this] obtain cl' c
    where c: "Client_Handshake cl (good_conn segs) = (Inr cl', c)" "conn_at [] [[5, 1, 0], q] c"
    by (auto simp: cl(3))
  let ?d0 = "good_conn [[5, 1, 0], q]"
  have srv: "ss_auth srv = None" "ss_header srv = []" by (simp_all add: assms(6) NewServer_def)
  from server_methods_noauth [OF srv, of ?d0 "[q]" env] obtain m
    where m: "server_methods env srv ?d0 = (Inr (m, srv\<lparr>ss_method := Method_NO_AUTH\<rparr>),
      ?d0\<lparr>inbox := [q], write_no := Suc 0, outbox := [[5, 0]]\<rparr>)"
    by (auto simp: good_conn_def)
  have "0 \<le> port" "port < 65536" using assms(3,4) by simp_all
  from server_connect [OF q cl(2) this _ _ m, of "[]"] obtain srv' d
    where "Server_Handshake env srv ?d0 = (Inr srv', d)" "outbox d = toClient" "inbox d = []"
      "IsTCP srv'" "ss_target srv' = JoinHostPort (canon_host host) (Itoa port)"
    by (auto simp: good_conn_def assms(8))
  with c show ?thesis unfolding conn_at_def by blast
qed

definition example_socks_env :: "((string, string) alist, (string, dns_item) alist) socks_env" where
  "example_socks_env = \<lparr>se_auth = example_auth, se_now = 0, se_later = 0, se_remote = ''10.0.0.9:5000'',
     se_local = ''10.0.0.1:1080'', se_listen = Inl EOF\<rparr>"

theorem socks_handshake_agrees_witness:
  "\<exists>toServer cl' c srv' d.
    Client_Handshake (NewClient ''tcp'' (JoinHostPort ''foo'' (Itoa 80)) None []) (good_conn [[5, 0, 5, 0], [0, 1, 0, 0, 0, 0, 0, 0]]) = (Inr cl', c) \<and>
    outbox c = toServer \<and>
    Server_Handshake example_socks_env (NewServer None False '''' []) (good_conn toServer) = (Inr srv', d) \<and>
    ss_target srv' = JoinHostPort (canon_host ''foo'') (Itoa 80)"
  using socks_handshake_agrees [of "''foo''" 80 _ "[]" _ False "''''" "[[5, 0, 5, 0], [0, 1, 0, 0, 0, 0, 0, 0]]" _ example_socks_env,
      OF _ _ _ _ refl refl _ refl]
  by (simp add: addr_safe_def) blast

text \<open>C37. The credentials a client sends are not the ones that are verified: with an authentication
  centre that has no remote service, a server built by \<open>NewServer\<close> refuses every client, whatever
  user name and password it sends, unless the table holds the empty user with the empty
  password, in which case it accepts every client.\<close>

theorem socks_auth_ignores_credentials:
  assumes "srv = NewServer (Some center) en udpIP []" "au_url center = ''''"
    and "length ms \<le> 255" "Method_USER_PASS \<in> set ms" "length r \<le> 500" "parse_auth r = Inr (user, pwd)"
    and "c = good_conn (([5, of_nat (length ms)] @ ms) # r # rest)"
  shows "if VerifyFromLocal (se_auth env) '''' '''' center
    then \<exists>m srv' c'. server_methods env srv c = (Inr (m, srv'), c') \<and> outbox c' = [[5, 2], [1, 0]] \<and> inbox c' = rest
    else \<exists>c'. Server_Handshake env srv c = (Inl (ErrMsg ''auth fail''), c') \<and> outbox c' = [[5, 2], [1, 1]]"
proof -
  let ?ok = "VerifyFromLocal (se_auth env) '''' '''' center"
  have "trim_set '' '' (Format '''' '''') = '':''" by (simp add: Format_def trim_set_def)
  then have v: "Verify (se_auth env) (se_now env) (se_later env) (Format '''' '''') ip lip '''' center = (Inr ?ok, center)" for ip lip
    using assms(2) by (simp add: Verify_def VerifyFromURL_def)
  have fresh: "ss_user srv = ''''" "ss_password srv = ''''" "ss_auth srv = Some center" "ss_header srv = []"
    by (simp_all add: assms(1) NewServer_def)
  let ?m = "\<lparr>mr_ver = 5, mr_methodsCount = of_nat (length ms), mr_methods = ms, mr_bytes = [5, of_nat (length ms)] @ ms\<rparr>"
  have m: "NewMethodsRequest [] c = (Inr ?m, c\<lparr>inbox := r # rest\<rparr>)"
    using assms(3) by (intro NewMethodsRequest_greeting) (simp_all add: assms(7) good_conn_def)
  have wc: "write_err c = (\<lambda>_. None)" "write_no c = 0" "outbox c = []" by (simp_all add: assms(7) good_conn_def)
  have sel: "MethodsRequest_Select Method_USER_PASS ?m" using assms(4) by (simp add: MethodsRequest_Select_def)
  let ?c1 = "c\<lparr>inbox := r # rest, write_no := Suc 0, outbox := [[5, 2]]\<rparr>"
  have w: "mapErr (ErrMsg ''reply answer data fail'') (MethodsRequest_Reply Method_USER_PASS) (c\<lparr>inbox := r # rest\<rparr>) = (Inr (), ?c1)"
    by (simp add: MethodsRequest_Reply_def conn_Write_good wc socks_consts)
  have rd: "mapErr (ErrMsg ''read auth info fail'') (conn_Read 500) ?c1 = (Inr r, ?c1\<lparr>inbox := rest\<rparr>)"
    using conn_Read_seg [of ?c1 r rest 500] assms(5) by (simp add: mapErr_def)
  let ?s = "srv\<lparr>ss_method := Method_USER_PASS, ss_pUser := user, ss_pPassword := pwd\<rparr>"
  have va: "verify_auth env ?s = Inr (?ok, ?s\<lparr>ss_auth := Some center\<rparr>)"
    by (simp add: verify_auth_def fresh v)
  have "server_methods env srv c = (if ?ok then (Inr (?m, ?s\<lparr>ss_auth := Some center\<rparr>),
        ?c1\<lparr>inbox := rest, write_no := Suc (Suc 0), outbox := [[5, 2], [1, 0]]\<rparr>)
      else (Inl (ErrMsg ''auth fail''), ?c1\<lparr>inbox := rest, write_no := Suc (Suc 0), outbox := [[5, 2], [1, 1]]\<rparr>))"
    using sel
    by (simp add: server_methods_def fresh m server_userpass_def bindIO_def w rd liftR_def assms(6) va Let_def
        conn_Write_good retIO_def failIO_def wc)
  then show ?thesis by (auto simp: Server_Handshake_def bindIO_def)
qed

theorem socks_auth_ignores_credentials_witness:
  "\<exists>c'. Server_Handshake example_socks_env
      (NewServer (Some (snd (auth_Add example_auth [''tom:pw''] (auth_New example_auth [])))) False '''' [])
      (good_conn [[5, 1, 2], [1, 3, 116, 111, 109, 2, 112, 119]]) = (Inl (ErrMsg ''auth fail''), c')"
proof -
  let ?center = "snd (auth_Add example_auth [''tom:pw''] (auth_New example_auth []))"
  have laws: "cmap_laws (pw_cmap example_auth)" by (simp add: example_auth_def alist_cmap_laws)
  have "\<not> VerifyFromLocal example_auth '''' '''' ?center"
    by (simp add: VerifyFromLocal_table auth_Add_table [OF laws] auth_New_table [OF laws] add_pair_def del: auth_Add.simps)
  moreover have "au_url ?center = ''''" by (simp add: auth_New_def)
  moreover have "\<exists>u p. parse_auth [1, 3, 116, 111, 109, 2, 112, 119] = Inr (u, p)"
    by (simp add: parse_auth_def index_at_def slice_at_def)
  moreover have "se_auth example_socks_env = example_auth" by (simp add: example_socks_env_def)
  ultimately show ?thesis
    using socks_auth_ignores_credentials [where srv = "NewServer (Some ?center) False '''' []" and center = ?center and en = False
        and udpIP = "''''" and ms = "[2]" and r = "[1, 3, 116, 111, 109, 2, 112, 119]" and rest = "[]"
        and c = "good_conn [[5, 1, 2], [1, 3, 116, 111, 109, 2, 112, 119]]" and env = example_socks_env]
    by (auto simp: Method_USER_PASS_def)
qed

subsection \<open>What a completed handshake says of the authentication centre\<close>

lemma bindIO_InrE:
  assumes "bindIO m f c = (Inr y, c')"
  obtains x c1 where "m c = (Inr x, c1)" "f x c1 = (Inr y, c')"
  using assms by (auto simp: bindIO_def split: prod.splits sum.splits)

lemma mapErr_Inr: "mapErr e m c = (Inr x, c') \<longleftrightarrow> m c = (Inr x, c')"
  by (auto simp: mapErr_def split: prod.splits sum.splits error.splits)

definition center_verified :: "('m, 'd) socks_env \<Rightarrow> ('m, 'd) SocksServer \<Rightarrow> ('m, 'd) SocksServer \<Rightarrow> bool" where
  "center_verified env s s' \<longleftrightarrow>
     (case ss_auth s of
        None \<Rightarrow> ss_auth s' = None
      | Some ce \<Rightarrow> \<exists>ip lip ce'. Verify (se_auth env) (se_now env) (se_later env) (Format (ss_user s) (ss_password s)) ip lip '''' ce = (Inr True, ce') \<and>
                     ss_auth s' = Some ce')"

lemma center_verified_auth: "center_verified env s s1 \<Longrightarrow> ss_auth s2 = ss_auth s1 \<Longrightarrow> center_verified env s s2"
  by (simp add: center_verified_def split: option.splits)

lemma server_userpass_verified:
  assumes "server_userpass env s c = (Inr s', c')"
  shows "center_verified env s s'"
proof -
  from assms obtain u p c1 ok s1 where v: "verify_auth env (s\<lparr>ss_method := Method_USER_PASS, ss_pUser := u, ss_pPassword := p\<rparr>) = Inr (ok, s1)"
    "(if ok then bindIO (mapErr (ErrMsg ''answer auth success fail'') (conn_Write [1, 0])) (\<lambda>_. retIO s1)
      else bindIO (mapErr (ErrMsg ''answer auth fail fail'') (conn_Write [1, 1])) (\<lambda>_. failIO (ErrMsg ''auth fail''))) c1 = (Inr s', c')"
    unfolding server_userpass_def Let_def by (auto elim!: bindIO_InrE simp: liftR_def split: prod.splits)
  then have "ok" "s' = s1" by (auto elim!: bindIO_InrE simp: retIO_def failIO_def split: if_splits)
  with v(1) show ?thesis
    by (auto simp: verify_auth_def center_verified_def split: option.splits prod.splits sum.splits intro!: exI)
qed

lemma server_methods_verified:
  assumes "server_methods env s c = (Inr (m, s'), c')"
  shows "center_verified env s s'"
proof -
  obtain q c1 where q: "NewMethodsRequest (ss_header s) c = (q, c1)" by fastforce
  show ?thesis
  proof (cases q)
    case (Inl e)
    then show ?thesis using assms q
      by (cases e) (auto simp: server_methods_def failIO_def elim!: bindIO_InrE)
  next
    case (Inr m')
    have k: "bindIO (server_userpass env s) (\<lambda>s. retIO (m', s)) c1 = (Inr (m, s'), c') \<Longrightarrow> ?thesis"
      by (auto elim!: bindIO_InrE simp: retIO_def intro: server_userpass_verified)
    show ?thesis using assms q Inr k
      by (auto simp: server_methods_def failIO_def retIO_def center_verified_def elim!: bindIO_InrE split: if_splits)
  qed
qed

lemma server_command_auth: "server_command env cmd s c = (Inr s', c') \<Longrightarrow> ss_auth s' = ss_auth s"
  by (auto simp: server_command_def server_associate_def Let_def retIO_def failIO_def elim!: bindIO_InrE split: if_splits sum.splits)

lemma Server_Handshake_verified:
  assumes "Server_Handshake env s c = (Inr s', c')"
  shows "center_verified env s s'"
  using assms unfolding Server_Handshake_def
  by (elim bindIO_InrE) (auto simp: retIO_def elim!: bindIO_InrE split: prod.splits
      dest!: server_methods_verified server_command_auth, rule center_verified_auth, assumption, simp)

subsection \<open>What a completed handshake of the client has written\<close>

lemma conn_Write_Inr:
  "conn_Write b c = (Inr u, c') \<Longrightarrow> outbox c' = outbox c @ [b]"
  by (auto simp: conn_Write_def split: option.splits)

lemma conn_ReadFull_outbox: "conn_ReadFull n c = (r, c') \<Longrightarrow> outbox c' = outbox c"
  by (auto simp: conn_ReadFull_def Let_def split: if_splits)

lemma client_handshake_writes:
  assumes "client_handshake s c = (Inr u, c')"
  shows "\<exists>mid. outbox c' = outbox c @ [client_greeting s] @ mid \<and> (mid = [] \<or> mid = [client_auth s])"
  using assms
  by (auto simp: client_handshake_def mapErr_Inr retIO_def failIO_def elim!: bindIO_InrE split: if_splits
      dest!: conn_Write_Inr conn_ReadFull_outbox)

lemma client_reply_outbox: "client_reply s c = (Inr s', c') \<Longrightarrow> outbox c' = outbox c"
  by (auto simp: client_reply_def mapErr_Inr retIO_def failIO_def elim!: bindIO_InrE split: if_splits dest!: conn_ReadFull_outbox)

lemma Client_Handshake_writes:
  assumes "Client_Handshake s c = (Inr s', c')"
  obtains host portStr port q mid where "SplitHostPort (sc_addr s) = Inr (host, portStr)" "Atoi portStr = Inr port"
    "client_request s host port = Inr q" "outbox c' = outbox c @ [client_greeting s] @ mid @ [q]" "mid = [] \<or> mid = [client_auth s]"
proof -
  from assms obtain host portStr port c1 q c2 where *: "SplitHostPort (sc_addr s) = Inr (host, portStr)" "Atoi portStr = Inr port"
    "client_handshake s c = (Inr (), c1)" "client_request s host port = Inr q" "conn_Write q c1 = (Inr (), c2)" "client_reply s c2 = (Inr s', c')"
    unfolding Client_Handshake_def
    by (auto simp: mapErr_Inr liftR_def failIO_def elim!: bindIO_InrE split: if_splits prod.splits)
  obtain mid where "outbox c1 = outbox c @ [client_greeting s] @ mid" "mid = [] \<or> mid = [client_auth s]"
    using client_handshake_writes [OF *(3)] by blast
  with * client_reply_outbox [OF *(6)] conn_Write_Inr [OF *(5)] that show thesis by simp
qed

end
