(* ===== verification/Shadowsocks.thy ===== *)
theory Shadowsocks
  imports Socks5_Packets
begin

section \<open>connection/shadowsocks: addresses, ciphers and encrypted connections\<close>

text \<open>
  The stream ciphers come from the module \<open>github.com/things-go/encrypt\<close>: what is used of it is
  the record \<open>ss_env\<close>, with the state of a \<open>cipher.Stream\<close> as the type parameter. The bytes drawn
  from \<open>crypto/rand\<close> for an initialisation vector are an argument, a result because drawing can
  fail. A nil slice is distinguished from an empty one for the stored vector only, which the code
  compares with nil. The buffer pool has no effect on the values and is left out.
\<close>

subsection \<open>request.go: the address of a request\<close>

unbundle bit_operations_syntax

definition AddrMask :: byte where "AddrMask = 15"
definition typeIPv4 :: byte where "typeIPv4 = 1"
definition typeDomain :: byte where "typeDomain = 3"
definition typeIPv6 :: byte where "typeIPv6 = 4"

definition ss_port :: "bytes \<Rightarrow> nat \<Rightarrow> int" where
  "ss_port t k = be16 (t ! k) (t ! (k + 1))"

definition ss_ParseRequest :: "string parser" where
  "ss_ParseRequest =
     bindP (ReadFull 1) (\<lambda>tmp.
       let at = tmp ! 0 AND AddrMask in
       if at = typeIPv4 then
         bindP (ReadFull 6) (\<lambda>t. retP (JoinHostPort (IP_String (take 4 t)) (Itoa (ss_port t 4))))
       else if at = typeIPv6 then
         bindP (ReadFull 18) (\<lambda>t. retP (JoinHostPort (IP_String (take 16 t)) (Itoa (ss_port t 16))))
       else if at = typeDomain then
         bindP (ReadFull 1) (\<lambda>l. let n = unat (l ! 0) in
         bindP (ReadFull (n + 2)) (\<lambda>t. retP (JoinHostPort (bytes_str (take n t)) (Itoa (ss_port t n)))))
       else failP (ErrMsg ''address type not supported''))"

definition ss_ParseAddrSpec :: "string \<Rightarrow> bytes result" where
  "ss_ParseAddrSpec addr =
     (case SplitHostPort addr of
        Inl _ \<Rightarrow> Inl (ErrMsg ''shadowsocks: address error'')
      | Inr (host, portStr) \<Rightarrow>
          (case Atoi portStr of
             Inl _ \<Rightarrow> Inl (ErrMsg ''shadowsocks: invalid port'')
           | Inr port \<Rightarrow>
               let ip = ParseIP host;
                   (addrType, addrBytes) =
                     (if To4 ip \<noteq> [] then (typeIPv4, To4 ip)
                      else if To16 ip \<noteq> [] then (typeIPv6, To16 ip)
                      else (typeDomain, str_bytes host))
               in Inr ([addrType] @ (if addrType = typeDomain then [of_nat (length addrBytes)] else []) @
                       addrBytes @ port_bytes port)))"

subsection \<open>encrypt.go: ciphers\<close>

record 'st ss_env =
  GetCipher :: "string \<Rightarrow> (nat \<times> nat) option"
  Evp2Key :: "string \<Rightarrow> nat \<Rightarrow> bytes"
  NewStream :: "string \<Rightarrow> bytes \<Rightarrow> bytes \<Rightarrow> bool \<Rightarrow> 'st result"
  XORKeyStream :: "'st \<Rightarrow> bytes \<Rightarrow> bytes \<times> 'st"

record 'st Cipher =
  writer :: "'st option"
  reader :: "'st option"
  meth :: string
  ivLen :: nat
  key :: bytes
  iv :: "bytes option"

definition NewCipher :: "'st ss_env \<Rightarrow> string \<Rightarrow> string \<Rightarrow> 'st Cipher result" where
  "NewCipher env m password =
     (if password = '''' then Inl (ErrMsg ''empty password'')
      else case GetCipher env m of
             None \<Rightarrow> Inl (ErrMsg ''unsupported encryption method'')
           | Some (keyLen, n) \<Rightarrow>
               Inr \<lparr>writer = None, reader = None, meth = m, ivLen = n, key = Evp2Key env password keyLen, iv = None\<rparr>)"

definition initEncrypt :: "'st ss_env \<Rightarrow> bytes result \<Rightarrow> 'st Cipher \<Rightarrow> bytes result \<times> 'st Cipher" where
  "initEncrypt env rnd c =
     (case (case iv c of None \<Rightarrow> rnd | Some v \<Rightarrow> Inr v) of
        Inl err \<Rightarrow> (Inl err, c)
      | Inr v \<Rightarrow>
          let c = c\<lparr>iv := Some v\<rparr> in
          case NewStream env (meth c) (key c) v True of
            Inl err \<Rightarrow> (Inl err, c\<lparr>writer := None\<rparr>)
          | Inr st \<Rightarrow> (Inr v, c\<lparr>writer := Some st\<rparr>))"

definition ss_encrypt :: "'st ss_env \<Rightarrow> bytes \<Rightarrow> 'st Cipher \<Rightarrow> bytes result \<times> 'st Cipher" where
  "ss_encrypt env src c =
     (case writer c of
        None \<Rightarrow> (Inl (Panic NilDereference), c)
      | Some st \<Rightarrow> (case XORKeyStream env st src of (d, st) \<Rightarrow> (Inr d, c\<lparr>writer := Some st\<rparr>)))"

definition initDecrypt :: "'st ss_env \<Rightarrow> bytes \<Rightarrow> 'st Cipher \<Rightarrow> unit result \<times> 'st Cipher" where
  "initDecrypt env v c =
     (case NewStream env (meth c) (key c) v False of
        Inl err \<Rightarrow> (Inl err, c\<lparr>reader := None\<rparr>)
      | Inr st \<Rightarrow>
          let c = c\<lparr>reader := Some st\<rparr> in
          (Inr (), if (case iv c of None \<Rightarrow> True | Some w \<Rightarrow> w = []) then c\<lparr>iv := Some v\<rparr> else c))"

definition ss_decrypt :: "'st ss_env \<Rightarrow> bytes \<Rightarrow> 'st Cipher \<Rightarrow> bytes result \<times> 'st Cipher" where
  "ss_decrypt env src c =
     (case reader c of
        None \<Rightarrow> (Inl (Panic NilDereference), c)
      | Some st \<Rightarrow> (case XORKeyStream env st src of (d, st) \<Rightarrow> (Inr d, c\<lparr>reader := Some st\<rparr>)))"

definition Clone :: "'st Cipher \<Rightarrow> 'st Cipher" where
  "Clone c = c\<lparr>writer := None, reader := None\<rparr>"

definition Encrypt :: "'st ss_env \<Rightarrow> bytes result \<Rightarrow> bytes \<Rightarrow> 'st Cipher \<Rightarrow> bytes result" where
  "Encrypt env rnd src c =
     (case initEncrypt env rnd (Clone c) of
        (Inl err, _) \<Rightarrow> Inl err
      | (Inr v, cip) \<Rightarrow> bindR (fst (ss_encrypt env src cip)) (\<lambda>d. Inr (v @ d)))"

definition Decrypt :: "'st ss_env \<Rightarrow> bytes \<Rightarrow> 'st Cipher \<Rightarrow> bytes result" where
  "Decrypt env input c =
     (if length input < ivLen c then Inl (ErrMsg ''invalid input data'')
      else case initDecrypt env (take (ivLen c) input) (Clone c) of
             (Inl err, _) \<Rightarrow> Inl err
           | (Inr _, cip) \<Rightarrow> fst (ss_decrypt env (drop (ivLen c) input) cip))"

subsection \<open>conn.go: an encrypted connection\<close>

record 'st ss_conn =
  raw :: conn
  cipher :: "'st Cipher"

definition ss_Read :: "'st ss_env \<Rightarrow> nat \<Rightarrow> 'st ss_conn \<Rightarrow> bytes result \<times> 'st ss_conn" where
  "ss_Read env n sf =
     (case (if reader (cipher sf) = None then
              (case conn_ReadFull (ivLen (cipher sf)) (raw sf) of
                 (Inl err, c) \<Rightarrow> (Inl err, sf\<lparr>raw := c\<rparr>)
               | (Inr v, c) \<Rightarrow>
                   (case initDecrypt env v (cipher sf) of (r, cip) \<Rightarrow> (r, sf\<lparr>raw := c, cipher := cip\<rparr>)))
            else (Inr (), sf)) of
        (Inl err, sf) \<Rightarrow> (Inl err, sf)
      | (Inr _, sf) \<Rightarrow>
          (case conn_Read n (raw sf) of
             (Inl err, c) \<Rightarrow> (Inl err, sf\<lparr>raw := c\<rparr>)
           | (Inr d, c) \<Rightarrow>
               if d = [] then (Inr [], sf\<lparr>raw := c\<rparr>)
               else (case ss_decrypt env d (cipher sf) of (r, cip) \<Rightarrow> (r, sf\<lparr>raw := c, cipher := cip\<rparr>))))"

definition ss_Write :: "'st ss_env \<Rightarrow> bytes result \<Rightarrow> bytes \<Rightarrow> 'st ss_conn \<Rightarrow> nat result \<times> 'st ss_conn" where
  "ss_Write env rnd b sf =
     (case (if writer (cipher sf) = None then initEncrypt env rnd (cipher sf) else (Inr [], cipher sf)) of
        (Inl err, cip) \<Rightarrow> (Inl err, sf\<lparr>cipher := cip\<rparr>)
      | (Inr v, cip) \<Rightarrow>
          (case ss_encrypt env b cip of
             (Inl err, cip) \<Rightarrow> (Inl err, sf\<lparr>cipher := cip\<rparr>)
           | (Inr d, cip) \<Rightarrow>
               (case conn_Write (v @ d) (raw sf) of
                  (Inl err, c) \<Rightarrow> (Inl err, \<lparr>raw = c, cipher = cip\<rparr>)
                | (Inr _, c) \<Rightarrow> (Inr (length b), \<lparr>raw = c, cipher = cip\<rparr>))))"

definition NewConnWithRawAddr :: "'st ss_env \<Rightarrow> bytes result \<Rightarrow> conn \<Rightarrow> bytes \<Rightarrow> 'st Cipher \<Rightarrow> 'st ss_conn result" where
  "NewConnWithRawAddr env rnd rawConn rawaddr c =
     (case ss_Write env rnd rawaddr \<lparr>raw = rawConn, cipher = c\<rparr> of
        (Inl err, _) \<Rightarrow> Inl err
      | (Inr _, sc) \<Rightarrow> Inr sc)"

definition DialWithRawAddr :: "'st ss_env \<Rightarrow> bytes result \<Rightarrow> (string \<Rightarrow> conn result) \<Rightarrow> bytes \<Rightarrow> string \<Rightarrow> 'st Cipher \<Rightarrow> 'st ss_conn result" where
  "DialWithRawAddr env rnd dial rawAddr server c =
     bindR (dial server) (\<lambda>cn. NewConnWithRawAddr env rnd cn rawAddr c)"

definition ss_Dial :: "'st ss_env \<Rightarrow> bytes result \<Rightarrow> (string \<Rightarrow> conn result) \<Rightarrow> string \<Rightarrow> string \<Rightarrow> 'st Cipher \<Rightarrow> 'st ss_conn result" where
  "ss_Dial env rnd dial addr server c =
     bindR (ss_ParseAddrSpec addr) (\<lambda>ra. DialWithRawAddr env rnd dial ra server c)"

subsection \<open>Addresses\<close>

lemmas ss_types = typeIPv4_def typeIPv6_def typeDomain_def AddrMask_def

lemma ss_port_append: "length t = k \<Longrightarrow> 0 \<le> p \<Longrightarrow> p < 65536 \<Longrightarrow> ss_port (t @ port_bytes p) k = p"
  by (auto simp: ss_port_def port_bytes_def nth_append be16_port_bytes)

lemma ss_ParseRequest_ipv4:
  assumes "0 \<le> p" "p < 65536"
  shows "ss_ParseRequest ([typeIPv4, a, b, c, d] @ port_bytes p @ r) = Inr (JoinHostPort (dotted [a, b, c, d]) (Itoa p), r)"
proof -
  have "bindP (ReadFull 6) f (([a, b, c, d] @ port_bytes p) @ r) = f ([a, b, c, d] @ port_bytes p) r" for f :: "bytes \<Rightarrow> string parser"
    by (rule bindP_ReadFull_append) simp
  with ss_port_append [of "[a, b, c, d]" 4 p] assms show ?thesis
    by (simp add: ss_ParseRequest_def Let_def ss_types retP_def)
qed

lemma ss_ParseRequest_ipv6:
  assumes "length ip = 16" "0 \<le> p" "p < 65536"
  shows "ss_ParseRequest ([typeIPv6] @ ip @ port_bytes p @ r) = Inr (JoinHostPort (IP_String ip) (Itoa p), r)"
proof -
  have "bindP (ReadFull 18) f ((ip @ port_bytes p) @ r) = f (ip @ port_bytes p) r" for f :: "bytes \<Rightarrow> string parser"
    using assms(1) by (intro bindP_ReadFull_append) simp
  with ss_port_append [of ip 16 p] assms show ?thesis
    by (simp add: ss_ParseRequest_def Let_def ss_types retP_def)
qed

lemma ss_ParseRequest_domain:
  assumes "length h \<le> 255" "0 \<le> p" "p < 65536"
  shows "ss_ParseRequest ([typeDomain, of_nat (length h)] @ str_bytes h @ port_bytes p @ r) = Inr (JoinHostPort h (Itoa p), r)"
proof -
  have n: "unat (of_nat (length h) :: byte) = length h"
    using assms(1) by (simp add: unat_of_nat take_bit_eq_mod)
  have "bindP (ReadFull (length h + 2)) f ((str_bytes h @ port_bytes p) @ r) = f (str_bytes h @ port_bytes p) r" for f :: "bytes \<Rightarrow> string parser"
    by (rule bindP_ReadFull_append) simp
  with ss_port_append [of "str_bytes h" "length h" p] assms n show ?thesis
    by (simp add: ss_ParseRequest_def Let_def ss_types retP_def)
qed

lemma ss_address:
  assumes "addr_safe host" "length host \<le> 255" "0 \<le> port" "port < 65536"
  shows "\<exists>buf. ss_ParseAddrSpec (JoinHostPort host (Itoa port)) = Inr buf \<and>
    (\<forall>r. ss_ParseRequest (buf @ r) = Inr (JoinHostPort (canon_host host) (Itoa port), r))"
proof -
  have split: "SplitHostPort (JoinHostPort host (Itoa port)) = Inr (host, Itoa port)"
    using Split_Join assms(1) Itoa_port_chars [OF assms(3)] by blast
  have atoi: "Atoi (Itoa port) = Inr port" using assms(3,4) by (intro Atoi_Itoa) simp_all
  have ty: "typeIPv4 \<noteq> typeDomain" "typeIPv6 \<noteq> typeDomain" by (simp_all add: ss_types)
  show ?thesis
  proof (cases "ParseIP host = []")
    case True
    then show ?thesis
      using ss_ParseRequest_domain [OF assms(2-4)]
      by (simp add: ss_ParseAddrSpec_def split atoi To4_def To16_def canon_host_def)
  next
    case False
    then show ?thesis
    proof (cases rule: ip_cases)
      case (v4 a b c d)
      then show ?thesis
        using ss_ParseRequest_ipv4 [OF assms(3,4)] ty by (simp add: ss_ParseAddrSpec_def split atoi canon_host_def)
    next
      case v6
      then show ?thesis
        using ss_ParseRequest_ipv6 [OF v6(2) assms(3,4)] ty False by (simp add: ss_ParseAddrSpec_def split atoi canon_host_def)
    qed
  qed
qed

subsection \<open>Ciphers\<close>

text \<open>
  What is relied on of the stream ciphers. Successive calls of \<open>XORKeyStream\<close> behave as one call on
  the concatenation (the documentation of \<open>cipher.Stream\<close>), a call without data does nothing, the
  result is as long as the input, and the encrypting and the decrypting stream made for the same
  method, key and vector, related by \<open>R\<close>, undo each other.
\<close>

definition stream_laws :: "'st ss_env \<Rightarrow> ('st \<Rightarrow> 'st \<Rightarrow> bool) \<Rightarrow> bool" where
  "stream_laws env R \<longleftrightarrow>
     (\<forall>m k v e. NewStream env m k v True = Inr e \<longrightarrow> (\<exists>d. NewStream env m k v False = Inr d \<and> R e d)) \<and>
     (\<forall>e d x. R e d \<longrightarrow> fst (XORKeyStream env d (fst (XORKeyStream env e x))) = x) \<and>
     (\<forall>s x. length (fst (XORKeyStream env s x)) = length x) \<and>
     (\<forall>s. XORKeyStream env s [] = ([], s)) \<and>
     (\<forall>s x y. XORKeyStream env s (x @ y) =
        (fst (XORKeyStream env s x) @ fst (XORKeyStream env (snd (XORKeyStream env s x)) y),
         snd (XORKeyStream env (snd (XORKeyStream env s x)) y)))"

lemma stream_pair:
  "stream_laws env R \<Longrightarrow> NewStream env m k v True = Inr e \<Longrightarrow> \<exists>d. NewStream env m k v False = Inr d \<and> R e d"
  unfolding stream_laws_def by blast

lemma stream_inverse:
  "stream_laws env R \<Longrightarrow> R e d \<Longrightarrow> fst (XORKeyStream env d (fst (XORKeyStream env e x))) = x"
  unfolding stream_laws_def by blast

lemma stream_append:
  "stream_laws env R \<Longrightarrow> XORKeyStream env s (x @ y) =
     (fst (XORKeyStream env s x) @ fst (XORKeyStream env (snd (XORKeyStream env s x)) y),
      snd (XORKeyStream env (snd (XORKeyStream env s x)) y))"
  unfolding stream_laws_def by blast

lemma stream_empty: "stream_laws env R \<Longrightarrow> XORKeyStream env s [] = ([], s)"
  unfolding stream_laws_def by blast

lemma stream_length: "stream_laws env R \<Longrightarrow> length (fst (XORKeyStream env s x)) = length x"
  unfolding stream_laws_def by blast

text \<open>A cipher whose stored vector, if any, has the length of the method.\<close>

definition wf_cipher :: "'st Cipher \<Rightarrow> bool" where
  "wf_cipher c \<longleftrightarrow> (case iv c of None \<Rightarrow> True | Some v \<Rightarrow> length v = ivLen c)"

lemma NewCipher_wf: "NewCipher env m pw = Inr c \<Longrightarrow> wf_cipher c \<and> writer c = None \<and> reader c = None"
  by (auto simp: NewCipher_def wf_cipher_def split: if_splits option.splits)

lemma initEncrypt_ok:
  assumes "initEncrypt env rnd c = (Inr v, c')"
  obtains e where "NewStream env (meth c) (key c) v True = Inr e"
    "c' = c\<lparr>iv := Some v, writer := Some e\<rparr>" "iv c = Some v \<or> iv c = None \<and> rnd = Inr v"
  using assms
  by (auto simp: initEncrypt_def Let_def split: option.splits sum.splits)

text \<open>
  What the sender has put on the wire after some writes: nothing before the first, then the
  vector followed by the encryption of everything written.
\<close>

fun ss_writes :: "'st ss_env \<Rightarrow> bytes result \<Rightarrow> bytes list \<Rightarrow> 'st ss_conn \<Rightarrow> 'st ss_conn" where
  "ss_writes env rnd [] sf = sf"
| "ss_writes env rnd (b # bs) sf = ss_writes env rnd bs (snd (ss_Write env rnd b sf))"

definition sent :: "'st ss_env \<Rightarrow> 'st \<Rightarrow> bytes \<Rightarrow> bytes \<Rightarrow> 'st ss_conn \<Rightarrow> bool" where
  "sent env e v pt sf \<longleftrightarrow>
     writer (cipher sf) = Some (snd (XORKeyStream env e pt)) \<and>
     concat (outbox (raw sf)) = v @ fst (XORKeyStream env e pt) \<and> write_err (raw sf) = (\<lambda>_. None)"

lemma ss_Write_first:
  assumes "writer (cipher sf) = None" "initEncrypt env rnd (cipher sf) = (Inr v, c')" "writer c' = Some e"
    "outbox (raw sf) = []" "write_err (raw sf) = (\<lambda>_. None)"
  shows "sent env e v b (snd (ss_Write env rnd b sf))"
  using assms
  by (auto simp: ss_Write_def ss_encrypt_def conn_Write_def sent_def split: prod.splits)

lemma ss_Write_next:
  assumes "stream_laws env R" "sent env e v pt sf"
  shows "sent env e v (pt @ b) (snd (ss_Write env rnd b sf))"
  using assms
  by (auto simp: ss_Write_def ss_encrypt_def conn_Write_def sent_def stream_append [OF assms(1)] split: prod.splits)

lemma ss_writes_sent:
  assumes "stream_laws env R"
  shows "sent env e v pt sf \<Longrightarrow> sent env e v (pt @ concat bs) (ss_writes env rnd bs sf)"
proof (induction bs arbitrary: pt sf)
  case (Cons b bs)
  from Cons.IH [OF ss_Write_next [OF assms Cons.prems]] show ?case by simp
qed simp

text \<open>The reads of the receiver, until one of them fails.\<close>

fun ss_reads :: "'st ss_env \<Rightarrow> nat list \<Rightarrow> 'st ss_conn \<Rightarrow> bytes list \<times> 'st ss_conn" where
  "ss_reads env [] sf = ([], sf)"
| "ss_reads env (n # ns) sf =
     (case ss_Read env n sf of
        (Inl err, sf) \<Rightarrow> ([], sf)
      | (Inr d, sf) \<Rightarrow> (case ss_reads env ns sf of (ds, sf) \<Rightarrow> (d # ds, sf)))"

definition received :: "'st ss_env \<Rightarrow> 'st \<Rightarrow> bytes \<Rightarrow> bytes \<Rightarrow> 'st ss_conn \<Rightarrow> bool" where
  "received env d ct seen sf \<longleftrightarrow>
     reader (cipher sf) = Some (snd (XORKeyStream env d seen)) \<and> ct = seen @ concat (inbox (raw sf))"

lemma conn_Read_concat:
  "conn_Read n c = (Inr d, c') \<Longrightarrow> concat (inbox c) = d @ concat (inbox c')"
  by (auto simp: conn_Read_def split: list.splits if_splits)

lemma conn_Read_fail: "conn_Read n c = (Inl e, c') \<Longrightarrow> c' = c"
  by (auto simp: conn_Read_def split: list.splits)

lemma ss_Read_next:
  assumes "stream_laws env R" "received env d ct seen sf" "ss_Read env n sf = (r, sf')"
  shows "case r of Inl _ \<Rightarrow> received env d ct seen sf'
    | Inr x \<Rightarrow> \<exists>y. x = fst (XORKeyStream env (snd (XORKeyStream env d seen)) y) \<and> received env d ct (seen @ y) sf'"
proof -
  have rd: "reader (cipher sf) = Some (snd (XORKeyStream env d seen))" "ct = seen @ concat (inbox (raw sf))"
    using assms(2) by (simp_all add: received_def)
  have empty: "fst (XORKeyStream env s []) = []" for s using stream_length [OF assms(1), of s "[]"] by simp
  obtain q c where q: "conn_Read n (raw sf) = (q, c)" by fastforce
  show ?thesis
  proof (cases q)
    case (Inl err)
    then show ?thesis
      using assms(2,3) q rd conn_Read_fail [of n "raw sf" err c] by (auto simp: ss_Read_def received_def)
  next
    case (Inr y)
    then have y: "concat (inbox (raw sf)) = y @ concat (inbox c)" using conn_Read_concat q by simp
    show ?thesis
    proof (cases "y = []")
      case True
      then show ?thesis
        using assms(3) q Inr rd y empty by (auto simp: ss_Read_def received_def intro!: exI [of _ "[]"])
    next
      case False
      then show ?thesis
        using assms(3) q Inr rd y stream_append [OF assms(1), of d seen y]
        by (auto simp: ss_Read_def ss_decrypt_def received_def split: prod.splits intro!: exI [of _ y])
    qed
  qed
qed

lemma ss_reads_received:
  assumes "stream_laws env R"
  shows "received env d ct seen sf \<Longrightarrow> ss_reads env ns sf = (xs, sf') \<Longrightarrow>
    \<exists>y. received env d ct (seen @ y) sf' \<and> concat xs = fst (XORKeyStream env (snd (XORKeyStream env d seen)) y)"
proof (induction ns arbitrary: seen sf xs)
  case Nil
  have "fst (XORKeyStream env s []) = []" for s using stream_length [OF assms, of s "[]"] by simp
  with Nil show ?case by (intro exI [of _ "[]"]) auto
next
  case (Cons n ns)
  obtain r sf1 where r: "ss_Read env n sf = (r, sf1)" by fastforce
  note step = ss_Read_next [OF assms Cons.prems(1) r]
  show ?case
  proof (cases r)
    case (Inl err)
    have "fst (XORKeyStream env s []) = []" for s using stream_length [OF assms, of s "[]"] by simp
    with Inl step Cons.prems(2) r show ?thesis by (intro exI [of _ "[]"]) auto
  next
    case (Inr x)
    then obtain y where y: "x = fst (XORKeyStream env (snd (XORKeyStream env d seen)) y)" "received env d ct (seen @ y) sf1"
      using step by auto
    obtain xs1 where xs1: "ss_reads env ns sf1 = (xs1, sf')" "xs = x # xs1"
      using Cons.prems(2) r Inr by (auto split: prod.splits)
    obtain z where z: "received env d ct ((seen @ y) @ z) sf'"
      "concat xs1 = fst (XORKeyStream env (snd (XORKeyStream env d (seen @ y))) z)"
      using Cons.IH [OF y(2) xs1(1)] by blast
    have "concat xs = fst (XORKeyStream env (snd (XORKeyStream env d seen)) (y @ z))"
      using y(1) z(2) xs1(2) stream_append [OF assms] by (metis (no_types) concat.simps(2) fst_conv snd_conv)
    with z(1) show ?thesis by (intro exI [of _ "y @ z"]) simp
  qed
qed

lemma ss_Read_first:
  assumes laws: "stream_laws env R" and fresh: "reader (cipher sf) = None"
    and wire: "concat (inbox (raw sf)) = v @ ct" "length v = ivLen (cipher sf)"
    and d: "NewStream env (meth (cipher sf)) (key (cipher sf)) v False = Inr d"
  obtains sf1 where "\<And>n. ss_Read env n sf = ss_Read env n sf1" "received env d ct [] sf1"
proof -
  have "ivLen (cipher sf) \<le> length (concat (inbox (raw sf)))" using wire by simp
  then obtain c where c: "conn_ReadFull (ivLen (cipher sf)) (raw sf) = (Inr v, c)" "concat (inbox c) = ct"
    using conn_ReadFull_ok wire by (metis append_eq_conv_conj)
  obtain cip where cip: "initDecrypt env v (cipher sf) = (Inr (), cip)" "reader cip = Some d"
    using d by (auto simp: initDecrypt_def Let_def)
  let ?sf1 = "sf\<lparr>raw := c, cipher := cip\<rparr>"
  have "ss_Read env n sf = ss_Read env n ?sf1" for n
    using c(1) cip fresh by (simp add: ss_Read_def)
  moreover have "received env d ct [] ?sf1"
    using cip(2) c(2) stream_empty [OF laws] by (simp add: received_def)
  ultimately show thesis by (rule that)
qed

lemma ss_reads_plain:
  assumes laws: "stream_laws env R" and fresh: "reader (cipher sf) = None"
    and wire: "concat (inbox (raw sf)) = v @ fst (XORKeyStream env e pt)" "length v = ivLen (cipher sf)"
    and d: "NewStream env (meth (cipher sf)) (key (cipher sf)) v False = Inr d" "R e d"
    and reads: "ss_reads env ns sf = (xs, sf')" "ns \<noteq> []"
  shows "\<exists>rest. pt = concat xs @ rest \<and> (concat (inbox (raw sf')) = [] \<longrightarrow> rest = [])"
proof -
  let ?ct = "fst (XORKeyStream env e pt)"
  obtain sf1 where sf1: "\<And>n. ss_Read env n sf = ss_Read env n sf1" "received env d ?ct [] sf1"
    using ss_Read_first [OF laws fresh wire d(1)] by blast
  have "ss_reads env ns sf1 = (xs, sf')" using reads sf1(1) by (cases ns) simp_all
  from ss_reads_received [OF laws sf1(2) this] obtain y
    where y: "?ct = y @ concat (inbox (raw sf'))" "concat xs = fst (XORKeyStream env d y)"
    by (auto simp: received_def stream_empty [OF laws])
  have "pt = fst (XORKeyStream env d ?ct)" using stream_inverse [OF laws d(2)] by simp
  also have "\<dots> = concat xs @ fst (XORKeyStream env (snd (XORKeyStream env d y)) (concat (inbox (raw sf'))))"
    using y stream_append [OF laws, of d y] by simp
  finally show ?thesis using stream_empty [OF laws] by (metis fst_conv)
qed

lemma Decrypt_Encrypt:
  assumes laws: "stream_laws env R" and enc: "initEncrypt env rnd c = (Inr v, c1)" "length v = ivLen c"
    and receiver: "meth c2 = meth c" "key c2 = key c" "ivLen c2 = ivLen c"
  shows "\<exists>ct. Encrypt env rnd pt c = Inr ct \<and> Decrypt env ct c2 = Inr pt"
proof -
  obtain e where e: "NewStream env (meth c) (key c) v True = Inr e" "c1 = c\<lparr>iv := Some v, writer := Some e\<rparr>"
    "iv c = Some v \<or> iv c = None \<and> rnd = Inr v"
    using enc(1) by (rule initEncrypt_ok)
  obtain d where d: "NewStream env (meth c) (key c) v False = Inr d" "R e d"
    using stream_pair [OF laws e(1)] by blast
  have "initEncrypt env rnd (Clone c) = (Inr v, (Clone c)\<lparr>iv := Some v, writer := Some e\<rparr>)"
    using e(1,3) by (auto simp: initEncrypt_def Clone_def Let_def)
  then have "Encrypt env rnd pt c = Inr (v @ fst (XORKeyStream env e pt))"
    by (simp add: Encrypt_def ss_encrypt_def split: prod.splits)
  moreover have "Decrypt env (v @ fst (XORKeyStream env e pt)) c2 = Inr pt"
    using enc(2) receiver d(1) stream_inverse [OF laws d(2), of pt]
    by (auto simp: Decrypt_def initDecrypt_def Clone_def Let_def ss_decrypt_def split: prod.splits)
  ultimately show ?thesis by blast
qed

subsection \<open>Properties\<close>

text \<open>Addresses: for a host of at most 255 bytes and a 16 bit port the raw address of \<open>ParseAddrSpec\<close>
  at the start of a stream is read back by \<open>ParseRequest\<close> as the same address, an IP in its
  canonical form, and exactly these bytes are consumed.\<close>

theorem ss_address_roundtrip:
  assumes "addr_safe host" "length host \<le> 255" "0 \<le> port" "port < 65536"
  shows "\<exists>buf. ss_ParseAddrSpec (JoinHostPort host (Itoa port)) = Inr buf \<and>
    (\<forall>r. ss_ParseRequest (buf @ r) = Inr (JoinHostPort (canon_host host) (Itoa port), r))"
  using assms by (rule ss_address)

theorem ss_address_roundtrip_witness:
  "\<exists>buf. ss_ParseAddrSpec (JoinHostPort ''foo'' (Itoa 443)) = Inr buf \<and>
    ss_ParseRequest (buf @ [1, 2]) = Inr (JoinHostPort (canon_host ''foo'') (Itoa 443), [1, 2])"
  using ss_address_roundtrip [of "''foo''" 443] by (auto simp: addr_safe_def)

text \<open>C23. An encrypted connection is transparent: whatever the sender writes, in any number of writes,
  and however the network cuts the bytes, what the receiver has read is a prefix of it, all of it
  once no bytes are left; the receiver's cipher has the same method and key. The same holds of a
  single packet: \<open>Decrypt\<close> undoes \<open>Encrypt\<close>.\<close>

theorem ss_transparent:
  assumes laws: "stream_laws env R" and c: "wf_cipher c" "writer c = None"
    and enc: "initEncrypt env rnd c = (Inr v, c1)" "length v = ivLen c"
    and sender: "sf = ss_writes env rnd (b # bs) \<lparr>raw = good_conn [], cipher = c\<rparr>"
    and receiver: "meth c2 = meth c" "key c2 = key c" "ivLen c2 = ivLen c" "reader c2 = None"
    and wire: "concat segs = concat (outbox (raw sf))"
    and reads: "ss_reads env ns \<lparr>raw = good_conn segs, cipher = c2\<rparr> = (xs, rf)" "ns \<noteq> []"
  shows "(\<exists>rest. concat (b # bs) = concat xs @ rest \<and> (concat (inbox (raw rf)) = [] \<longrightarrow> rest = []))
    \<and> (\<exists>ct. Encrypt env rnd pt c = Inr ct \<and> Decrypt env ct c2 = Inr pt)"
proof -
  obtain e where e: "NewStream env (meth c) (key c) v True = Inr e" "c1 = c\<lparr>iv := Some v, writer := Some e\<rparr>"
    "iv c = Some v \<or> iv c = None \<and> rnd = Inr v"
    using enc(1) by (rule initEncrypt_ok)
  obtain d where d: "NewStream env (meth c) (key c) v False = Inr d" "R e d"
    using stream_pair [OF laws e(1)] by blast
  let ?sf0 = "\<lparr>raw = good_conn [], cipher = c\<rparr>"
  have w1: "writer c1 = Some e" by (simp add: e(2))
  have "sent env e v b (snd (ss_Write env rnd b ?sf0))"
    by (rule ss_Write_first [OF _ _ w1]) (simp_all add: good_conn_def c(2) enc(1))
  from ss_writes_sent [OF laws this, of bs rnd]
  have wire': "concat segs = v @ fst (XORKeyStream env e (concat (b # bs)))"
    by (simp add: sender wire sent_def)
  then have stream: "\<exists>rest. concat (b # bs) = concat xs @ rest \<and> (concat (inbox (raw rf)) = [] \<longrightarrow> rest = [])"
    using enc(2) receiver d reads by (intro ss_reads_plain [OF laws]) (simp_all add: good_conn_def)
  show ?thesis using stream Decrypt_Encrypt [OF laws enc receiver(1-3)] by blast
qed

text \<open>A cipher that adds the key byte by byte, for the example.\<close>

definition example_ss_env :: "byte ss_env" where
  "example_ss_env = \<lparr>GetCipher = (\<lambda>_. Some (1, 2)), Evp2Key = (\<lambda>_ _. [7]),
     NewStream = (\<lambda>m k v enc. Inr (if enc then hd (k @ [0]) else - hd (k @ [0]))),
     XORKeyStream = (\<lambda>s x. (map ((+) s) x, s))\<rparr>"

theorem ss_transparent_witness:
  "\<exists>c xs rf. NewCipher example_ss_env ''m'' ''pw'' = Inr c \<and>
     ss_reads example_ss_env [2, 2] \<lparr>raw = good_conn [[9], [8, 17, 18], [19]], cipher = c\<rparr> = (xs, rf) \<and>
     (\<exists>rest. [10, 11, 12] = concat xs @ rest)"
proof -
  define c :: "byte Cipher" where "c = \<lparr>writer = None, reader = None, meth = ''m'', ivLen = 2, key = [7], iv = None\<rparr>"
  have c: "NewCipher example_ss_env ''m'' ''pw'' = Inr c" "meth c = ''m''" "key c = [7]" "ivLen c = 2"
    "iv c = None" "writer c = None" "reader c = None"
    by (simp_all add: NewCipher_def example_ss_env_def c_def)
  have laws: "stream_laws example_ss_env (\<lambda>e d. d = - e)"
    by (auto simp: stream_laws_def example_ss_env_def comp_def)
  obtain c1 where enc: "initEncrypt example_ss_env (Inr [9, 8]) c = (Inr [9, 8], c1)" "writer c1 = Some 7"
    using c by (simp add: initEncrypt_def example_ss_env_def Let_def)
  let ?sf = "ss_writes example_ss_env (Inr [9, 8]) ([10] # [[11, 12]]) \<lparr>raw = good_conn [], cipher = c\<rparr>"
  have "sent example_ss_env 7 [9, 8] [10] (snd (ss_Write example_ss_env (Inr [9, 8]) [10] \<lparr>raw = good_conn [], cipher = c\<rparr>))"
    by (rule ss_Write_first [OF _ _ enc(2)]) (simp_all add: good_conn_def c(6) enc(1))
  from ss_writes_sent [OF laws this, of "[[11, 12]]" "Inr [9, 8]"]
  have wire: "concat [[9], [8, 17, 18], [19]] = concat (outbox (raw ?sf))"
    by (simp add: sent_def example_ss_env_def)
  obtain xs rf where reads: "ss_reads example_ss_env [2, 2] \<lparr>raw = good_conn [[9], [8, 17, 18], [19]], cipher = c\<rparr> = (xs, rf)"
    by fastforce
  have "wf_cipher c" using NewCipher_wf [OF c(1)] by simp
  from ss_transparent [OF laws this c(6) enc(1) _ refl _ _ _ c(7) wire reads, of "[]"] c(1,4) reads
  show ?thesis by (simp del: ss_reads.simps) blast
qed

end
