(* ===== verification/Wire_Codec.thy ===== *)
theory Wire_Codec
  imports Jocasta_Prelude
begin

section \<open>The contract of a self-delimiting message format\<close>

text \<open>
  Every message the proxy puts on a byte stream has an encoder that may refuse a message and a
  parser that takes the message off the front of the stream. The locale states what a transport
  relies on: a message the encoder accepts is taken off the stream again, as its normal form,
  with nothing of what follows consumed. From this one law the transport obtains that the
  format is unambiguous and that a sequence of messages written one after another is read back
  as the same sequence.
\<close>

fun parse_n :: "nat \<Rightarrow> 'a parser \<Rightarrow> 'a list parser" where
  "parse_n 0 p r = Inr ([], r)"
| "parse_n (Suc n) p r =
     (case p r of
        Inl e \<Rightarrow> Inl e
      | Inr (x, r') \<Rightarrow> map_sum id (\<lambda>(xs, r''). (x # xs, r'')) (parse_n n p r'))"

fun encode_all :: "('a \<Rightarrow> bytes result) \<Rightarrow> 'a list \<Rightarrow> bytes result" where
  "encode_all enc [] = Inr []"
| "encode_all enc (x # xs) =
     bindR (enc x) (\<lambda>b. bindR (encode_all enc xs) (\<lambda>bs. Inr (b @ bs)))"

locale wire_codec =
  fixes wf :: "'a \<Rightarrow> bool"
    and norm :: "'a \<Rightarrow> 'b"
    and enc :: "'a \<Rightarrow> bytes result"
    and dec :: "'b parser"
  assumes enc_ok: "wf x \<Longrightarrow> \<exists>bs. enc x = Inr bs"
    and dec_enc: "wf x \<Longrightarrow> enc x = Inr bs \<Longrightarrow> dec (bs @ rest) = Inr (norm x, rest)"
begin

lemma unambiguous:
  assumes "wf x" "wf y" "enc x = Inr a" "enc y = Inr b" "a @ r = b @ s"
  shows "norm x = norm y \<and> r = s"
proof -
  have "dec (a @ r) = Inr (norm x, r)" using assms(1,3) by (rule dec_enc)
  moreover have "dec (b @ s) = Inr (norm y, s)" using assms(2,4) by (rule dec_enc)
  ultimately show ?thesis using assms(5) by simp
qed

lemma prefix_free:
  assumes "wf x" "wf y" "enc x = Inr a" "enc y = Inr (a @ b)"
  shows "b = []"
  using unambiguous [OF assms, of b "[]"] by simp

lemma encode_all_ok: "\<forall>x \<in> set xs. wf x \<Longrightarrow> \<exists>bs. encode_all enc xs = Inr bs"
proof (induction xs)
  case Nil
  then show ?case by simp
next
  case (Cons x xs)
  then obtain b bs where "enc x = Inr b" "encode_all enc xs = Inr bs"
    using enc_ok [of x] by auto
  then show ?case by simp
qed

lemma parse_n_encode_all:
  "\<forall>x \<in> set xs. wf x \<Longrightarrow> encode_all enc xs = Inr bs \<Longrightarrow>
   parse_n (length xs) dec (bs @ rest) = Inr (map norm xs, rest)"
proof (induction xs arbitrary: bs)
  case Nil
  then show ?case by simp
next
  case (Cons x xs)
  then obtain b cs where b: "enc x = Inr b" and cs: "encode_all enc xs = Inr cs" and "bs = b @ cs"
    by (auto simp: bindR_eq_Inr)
  moreover have "dec (b @ (cs @ rest)) = Inr (norm x, cs @ rest)"
    using Cons.prems(1) b by (intro dec_enc) simp_all
  moreover have "parse_n (length xs) dec (cs @ rest) = Inr (map norm xs, rest)"
    using Cons.prems(1) cs by (intro Cons.IH) simp_all
  ultimately show ?case by simp
qed

end

end
