(* ===== verification/Captain_Datalen.thy ===== *)
theory Captain_Datalen
  imports Wire_Codec
begin

section \<open>core/captain/datalen.go: the variable-length data length\<close>

text \<open>
  A data length is written in base 128, least significant digit first, in one to three bytes;
  bit 7 of a byte says that another byte follows. \<open>DataLen\<close> returns the array of three bytes
  and how many of them count. The loops of the source are recursions that carry the loop
  variables; both end after at most three rounds.
\<close>

text \<open>Lines 30-40: the loop of \<open>DataLen\<close> over \<open>ds\<close>, \<open>n\<close> and \<open>length\<close>.\<close>

function datalen_loop :: "bytes \<Rightarrow> nat \<Rightarrow> int \<Rightarrow> bytes \<times> nat" where
  "datalen_loop ds n len =
     (let b = byte_of_int (len AND 127);
          len' = drop_bit 7 len;
          b' = (if len' > 0 then b OR 128 else b);
          ds' = ds[n := b'];
          n' = n + 1
      in if n' < 3 \<and> len' > 0 then datalen_loop ds' n' len' else (ds', n'))"
  by pat_completeness auto
termination
  by (relation "measure (\<lambda>(ds, n, len). 3 - n)") auto

declare datalen_loop.simps [simp del]

definition DataLen :: "int \<Rightarrow> (bytes \<times> nat) result" where
  "DataLen len =
     (if len < 0 \<or> len > 2097151 then Inl (ErrMsg ''invalid data length'')
      else Inr (datalen_loop [0, 0, 0] 0 len))"

text \<open>\<open>ds[:n]\<close>, the way every caller uses the result.\<close>

definition DataLen_bytes :: "int \<Rightarrow> bytes result" where
  "DataLen_bytes len = bindR (DataLen len) (\<lambda>(ds, n). slice_at ds 0 n)"

function parse_datalen_loop :: "nat \<Rightarrow> int \<Rightarrow> int parser" where
  "parse_datalen_loop i len r =
     (case ReadFull 1 r of
        Inl e \<Rightarrow> Inl e
      | Inr (tmp, r') \<Rightarrow>
          let b = tmp ! 0;
              len' = len + push_bit (7 * i) (uint (b AND 127));
              remain = b AND 128
          in if remain = 128 \<and> i < 2 then parse_datalen_loop (i + 1) len' r'
             else if remain = 128 then Inl (ErrMsg ''invalid data length'')
             else Inr (len', r'))"
  by pat_completeness auto
termination
  by (relation "measure (\<lambda>(i, len, r). 3 - i)") auto

declare parse_datalen_loop.simps [simp del]

definition ParseDataLen :: "int parser" where
  "ParseDataLen r = parse_datalen_loop 0 0 r"

subsection \<open>Digits\<close>

lemma and_127_int: "(len :: int) AND 127 = len mod 128"
  using take_bit_eq_mask [of 7 len] by (simp add: take_bit_eq_mod mask_eq_exp_minus_1)

lemma drop_7_int: "drop_bit 7 (len :: int) = len div 128"
  by (simp add: drop_bit_eq_div)

lemma uint_and_127: "uint ((b :: byte) AND 127) = uint b mod 128"
  by (simp add: unsigned_and_eq and_127_int)

lemma and_exp_int: "(x :: int) AND 2 ^ n = (if bit x n then 2 ^ n else 0)"
  by (rule bit_eqI) (auto simp: bit_and_iff bit_exp_iff)

lemma and_128_int: "(x :: int) AND 128 = (if odd (x div 128) then 128 else 0)"
  using and_exp_int [of x 7] by (simp add: bit_iff_odd)

lemma and_128_iff: "(b :: byte) AND 128 = 128 \<longleftrightarrow> 128 \<le> uint b"
proof -
  have "odd (uint b div 128) \<longleftrightarrow> 128 \<le> uint b"
  proof (cases "128 \<le> uint b")
    case True
    with uint_byte_bounds [of b] have "uint b div 128 = 1" by linarith
    with True show ?thesis by simp
  next
    case False
    with uint_byte_bounds [of b] have "uint b div 128 = 0" by (simp add: div_pos_pos_trivial)
    with False show ?thesis by simp
  qed
  then have "uint (b AND 128) = (if 128 \<le> uint b then 128 else 0)"
    by (simp add: unsigned_and_eq and_128_int)
  then show ?thesis
    by (auto intro: word_uint_eqI split: if_splits)
qed

lemma or_128_int: "0 \<le> x \<Longrightarrow> x < 128 \<Longrightarrow> (x :: int) OR 128 = x + 128"
  by (subst disjunctive_add_eq_or [symmetric]) (simp_all add: and_128_int)

lemma uint_or_128: "uint (b :: byte) < 128 \<Longrightarrow> uint (b OR 128) = uint b + 128"
  by (simp add: unsigned_or_eq or_128_int)

text \<open>A digit with and without the continuation bit, as the reader sees it.\<close>

lemma digit_last:
  assumes "0 \<le> d" "d < 128"
  shows "uint (byte_of_int d AND 127) = d" "byte_of_int d AND 128 \<noteq> 128"
  using assms by (simp_all add: uint_and_127 and_128_iff uint_byte_of_int)

lemma digit_more:
  assumes "0 \<le> d" "d < 128"
  shows "uint ((byte_of_int d OR 128) AND 127) = d" "(byte_of_int d OR 128) AND 128 = 128"
  using assms by (simp_all add: uint_and_127 and_128_iff uint_or_128 uint_byte_of_int)

subsection \<open>The encoding in closed form\<close>

definition datalen_spec :: "int \<Rightarrow> bytes" where
  "datalen_spec len =
     (let d0 = byte_of_int (len mod 128);
          d1 = byte_of_int (len div 128 mod 128);
          d2 = byte_of_int (len div 16384)
      in if len < 128 then [d0]
         else if len < 16384 then [d0 OR 128, d1]
         else [d0 OR 128, d1 OR 128, d2])"

lemma div_128_128: "(len :: int) div 128 div 128 = len div 16384"
  by (simp add: zdiv_zmult2_eq [symmetric])

lemma DataLen_spec:
  assumes "0 \<le> len" "len \<le> 2097151"
  shows "DataLen_bytes len = Inr (datalen_spec len)"
proof -
  have small: "len div 16384 div 128 = 0" "len div 16384 mod 128 = len div 16384"
    using assms by (simp_all add: zdiv_zmult2_eq [symmetric])
  have pos: "0 < len div 128 \<longleftrightarrow> 128 \<le> len" "0 < len div 16384 \<longleftrightarrow> 16384 \<le> len"
    using assms by (simp_all add: pos_imp_zdiv_pos_iff)
  show ?thesis
    using assms small pos
    by (simp add: DataLen_bytes_def DataLen_def datalen_loop.simps and_127_int drop_7_int
        div_128_128 datalen_spec_def Let_def slice_at_def)
qed

lemma datalen_spec_length:
  "length (datalen_spec len) = (if len < 128 then 1 else if len < 16384 then 2 else 3)"
  by (simp add: datalen_spec_def Let_def)

lemma parse_last_digit:
  assumes "0 \<le> d" "d < 128"
  shows "parse_datalen_loop i acc (byte_of_int d # rest) = Inr (acc + push_bit (7 * i) d, rest)"
  using digit_last [OF assms]
  by (subst parse_datalen_loop.simps) (simp add: Let_def)

lemma parse_more_digit:
  assumes "0 \<le> d" "d < 128" "i < 2"
  shows "parse_datalen_loop i acc ((byte_of_int d OR 128) # rest) =
         parse_datalen_loop (i + 1) (acc + push_bit (7 * i) d) rest"
  using digit_more [OF assms(1,2)] assms(3)
  by (subst parse_datalen_loop.simps) (simp add: Let_def)

lemma parse_datalen_spec:
  assumes "0 \<le> len" "len \<le> 2097151"
  shows "ParseDataLen (datalen_spec len @ rest) = Inr (len, rest)"
proof -
  have d2: "0 \<le> len div 16384" "len div 16384 < 128"
    using assms by simp_all
  have two: "len < 16384 \<Longrightarrow> len div 128 mod 128 = len div 128"
    using assms by simp
  have value3: "len mod 128 + len div 128 mod 128 * 128 + len div 16384 * 16384 = len"
    using div_mult_mod_eq [of "len div 128" 128] div_mult_mod_eq [of len 128]
    unfolding div_128_128 by linarith
  have value2: "len mod 128 + len div 128 * 128 = len"
    using div_mult_mod_eq [of len 128] by linarith
  consider "len < 128" | "128 \<le> len" "len < 16384" | "16384 \<le> len" by linarith
  then show ?thesis
  proof cases
    case 1
    with assms show ?thesis
      by (simp add: datalen_spec_def Let_def ParseDataLen_def parse_last_digit)
  next
    case 2
    with two value2 show ?thesis
      by (simp add: datalen_spec_def Let_def ParseDataLen_def parse_more_digit parse_last_digit
          push_bit_eq_mult)
  next
    case 3
    with d2 value3 show ?thesis
      by (simp add: datalen_spec_def Let_def ParseDataLen_def parse_more_digit parse_last_digit
          push_bit_eq_mult)
  qed
qed

subsection \<open>What the parser can return\<close>

lemma parse_datalen_loop_bounds:
  "parse_datalen_loop i acc r = Inr (len, r') \<Longrightarrow> i \<le> 2 \<Longrightarrow> 0 \<le> acc \<Longrightarrow> acc < 2 ^ (7 * i) \<Longrightarrow>
   0 \<le> len \<and> len < 2097152 \<and> (\<exists>ds. r = ds @ r' \<and> ds \<noteq> [] \<and> length ds \<le> 3 - i)"
proof (induction i acc r rule: parse_datalen_loop.induct)
  case (1 i acc r)
  show ?case
  proof (cases r)
    case Nil
    with "1.prems"(1) show ?thesis by (subst (asm) parse_datalen_loop.simps) (simp add: ReadFull_def)
  next
    case (Cons b rs)
    let ?d = "uint (b AND 127)"
    let ?acc = "acc + push_bit (7 * i) ?d"
    have d: "0 \<le> ?d" "?d < 128" by (simp_all add: uint_and_127)
    have step: "acc + 2 ^ (7 * i) * ?d < 2 ^ (7 * (i + 1))"
    proof -
      have "2 ^ (7 * i) * ?d \<le> 2 ^ (7 * i) * 127" using d by (intro mult_left_mono) simp_all
      moreover have "(2 :: int) ^ (7 * (i + 1)) = 128 * 2 ^ (7 * i)" by (simp add: power_add)
      ultimately show ?thesis using "1.prems"(4) by linarith
    qed
    then have acc: "0 \<le> ?acc" "?acc < 2 ^ (7 * (i + 1))"
      using "1.prems"(3) d by (simp_all add: push_bit_eq_mult mult.commute)
    show ?thesis
    proof (cases "b AND 128 = 128 \<and> i < 2")
      case True
      then have "parse_datalen_loop (i + 1) ?acc rs = Inr (len, r')"
        using "1.prems"(1) by (subst (asm) parse_datalen_loop.simps) (simp add: Cons Let_def)
      moreover have "i + 1 \<le> 2" using True by simp
      ultimately have "0 \<le> len \<and> len < 2097152 \<and>
          (\<exists>ds. rs = ds @ r' \<and> ds \<noteq> [] \<and> length ds \<le> 3 - (i + 1))"
        using "1.IH" [of "([b], rs)" "[b]" rs b ?acc "b AND 128"] acc True by (simp add: Cons)
      then obtain ds where "0 \<le> len \<and> len < 2097152" "rs = ds @ r'" "length ds \<le> 3 - (i + 1)"
        by blast
      with True show ?thesis by (intro conjI exI [of _ "b # ds"]) (auto simp: Cons)
    next
      case False
      then have "len = ?acc" "r' = rs"
        using "1.prems"(1) by (subst (asm) parse_datalen_loop.simps, simp add: Cons Let_def split: if_splits)+
      moreover have "?acc < 2 ^ 21"
      proof (rule order_less_le_trans [OF acc(2)])
        show "(2 :: int) ^ (7 * (i + 1)) \<le> 2 ^ 21"
          using "1.prems"(2) by (intro power_increasing) simp_all
      qed
      ultimately show ?thesis
        using acc(1) "1.prems"(2) by (intro conjI exI [of _ "[b]"]) (auto simp: Cons)
    qed
  qed
qed

lemma ParseDataLen_bounds:
  "ParseDataLen r = Inr (len, r') \<Longrightarrow>
   0 \<le> len \<and> len \<le> 2097151 \<and> (\<exists>ds. r = ds @ r' \<and> ds \<noteq> [] \<and> length ds \<le> 3)"
  using parse_datalen_loop_bounds [of 0 0 r len r'] by (auto simp: ParseDataLen_def)

lemma panics_parse_datalen_loop: "\<not> panics (parse_datalen_loop i acc r)"
proof (induction i acc r rule: parse_datalen_loop.induct)
  case (1 i acc r)
  show ?case
  proof (cases r)
    case Nil
    then show ?thesis by (subst parse_datalen_loop.simps) (simp add: ReadFull_def)
  next
    case (Cons b rs)
    then show ?thesis
      using "1.IH" [of "([b], rs)" "[b]" rs b _ "b AND 128"]
      by (subst parse_datalen_loop.simps) (simp add: Let_def)
  qed
qed

lemma panics_ParseDataLen [simp]: "\<not> panics (ParseDataLen r)"
  by (simp add: ParseDataLen_def panics_parse_datalen_loop)

subsection \<open>Properties\<close>

text \<open>Every data length from 0 to 2097151 is encoded, in the shortest of the three forms of
  the table in the source, and the parser reads exactly that length back, leaving whatever
  follows on the stream untouched.\<close>

theorem datalen_roundtrip:
  assumes "0 \<le> len" "len \<le> 2097151"
  shows "\<exists>ds. DataLen_bytes len = Inr ds
    \<and> length ds = (if len < 128 then 1 else if len < 16384 then 2 else 3)
    \<and> (\<forall>rest. ParseDataLen (ds @ rest) = Inr (len, rest))"
  using DataLen_spec [OF assms] parse_datalen_spec [OF assms] datalen_spec_length [of len] by simp

theorem datalen_roundtrip_witness:
  "\<exists>ds. DataLen_bytes 300 = Inr ds \<and> length ds = 2 \<and> (\<forall>rest. ParseDataLen (ds @ rest) = Inr (300, rest))"
  using datalen_roundtrip [of 300] by simp

text \<open>Whatever bytes arrive, a length the parser accepts lies between 0 and 2097151 and took
  one to three bytes off the stream; a length outside that range is refused by the encoder.\<close>

theorem datalen_bounds:
  "(ParseDataLen r = Inr (len, r') \<longrightarrow>
      0 \<le> len \<and> len \<le> 2097151 \<and> (\<exists>ds. r = ds @ r' \<and> 1 \<le> length ds \<and> length ds \<le> 3))
   \<and> (is_ok (DataLen_bytes n) \<longleftrightarrow> 0 \<le> n \<and> n \<le> 2097151)"
proof
  show "ParseDataLen r = Inr (len, r') \<longrightarrow>
      0 \<le> len \<and> len \<le> 2097151 \<and> (\<exists>ds. r = ds @ r' \<and> 1 \<le> length ds \<and> length ds \<le> 3)"
    using ParseDataLen_bounds [of r len r'] by (auto simp: Suc_le_eq)
  show "is_ok (DataLen_bytes n) \<longleftrightarrow> 0 \<le> n \<and> n \<le> 2097151"
  proof (cases "0 \<le> n \<and> n \<le> 2097151")
    case True
    then show ?thesis using DataLen_spec [of n] by simp
  next
    case False
    then show ?thesis by (auto simp: DataLen_bytes_def DataLen_def)
  qed
qed

theorem datalen_bounds_witness:
  "ParseDataLen [0xFF, 0xFF, 0x7F, 9] = Inr (2097151, [9]) \<and>
   (\<exists>ds. [0xFF, 0xFF, 0x7F, 9] = ds @ [9 :: byte] \<and> 1 \<le> length ds \<and> length ds \<le> 3)"
proof -
  have "ParseDataLen [0xFF, 0xFF, 0x7F, 9] = Inr (2097151, [9])" by code_simp
  with datalen_bounds [of "[0xFF, 0xFF, 0x7F, 9]" 2097151 "[9]" 0] show ?thesis by blast
qed

end
