(* ===== verification/Captain.thy ===== *)
theory Captain
  imports Captain_Datalen Go_Net
begin

section \<open>core/captain: addresses, requests, replies and datagrams\<close>

text \<open>
  The proxy's own wire formats. \<open>AddrSpec\<close> is a target address; \<open>Request\<close> and \<open>Reply\<close> are the
  handshake of the tunnel nodes; \<open>Datagram\<close> is a UDP payload with its address, and
  \<open>StreamDatagram\<close> the same thing sent over a byte stream, with a data length. Every parser and
  every encoder of the package is one definition, with the panics of unguarded accesses as
  values. A nil \<open>net.IP\<close> is the empty list.
\<close>

definition ATYPIPv4 :: byte where "ATYPIPv4 = 1"
definition ATYPDomain :: byte where "ATYPDomain = 3"
definition ATYPIPv6 :: byte where "ATYPIPv6 = 4"

definition ErrUnrecognizedAddrType :: error where
  "ErrUnrecognizedAddrType = ErrMsg ''Unrecognized address type''"

lemmas atyp_defs = ATYPIPv4_def ATYPDomain_def ATYPIPv6_def

subsection \<open>addr.go\<close>

record AddrSpec =
  FQDN :: string
  IP :: bytes
  Port :: int
  AddrType :: byte

definition empty_addr :: AddrSpec where
  "empty_addr = \<lparr>FQDN = [], IP = [], Port = 0, AddrType = 0\<rparr>"

definition AddrSpec_String :: "AddrSpec \<Rightarrow> string" where
  "AddrSpec_String a =
     (if length (IP a) \<noteq> 0 then JoinHostPort (IP_String (IP a)) (Itoa (Port a))
      else JoinHostPort (FQDN a) (Itoa (Port a)))"

definition AddrSpec_Address :: "AddrSpec \<Rightarrow> string" where
  "AddrSpec_Address a =
     (if FQDN a \<noteq> [] then FQDN a @ '' ('' @ IP_String (IP a) @ ''):'' @ Itoa (Port a)
      else IP_String (IP a) @ '':'' @ Itoa (Port a))"

definition ParseAddrSpec :: "string \<Rightarrow> AddrSpec result" where
  "ParseAddrSpec addr =
     bindR (SplitHostPort addr) (\<lambda>(host, port).
     bindR (Atoi port) (\<lambda>p.
       let ip = ParseIP host in
       if To4 ip \<noteq> [] then Inr (empty_addr\<lparr>Port := p, AddrType := ATYPIPv4, IP := ip\<rparr>)
       else if To16 ip \<noteq> [] then Inr (empty_addr\<lparr>Port := p, AddrType := ATYPIPv6, IP := ip\<rparr>)
       else Inr (empty_addr\<lparr>Port := p, AddrType := ATYPDomain, FQDN := host\<rparr>)))"

subsection \<open>datagram.go\<close>

record Datagram =
  Reserved :: byte
  Addr :: AddrSpec
  Data :: bytes

definition NewDatagram :: "string \<Rightarrow> bytes \<Rightarrow> Datagram result" where
  "NewDatagram destAddr data =
     bindR (ParseAddrSpec destAddr) (\<lambda>a.
       if AddrType a = ATYPDomain \<and> length (FQDN a) > 255
       then Inl (ErrMsg ''destination host name too long'')
       else Inr \<lparr>Reserved = 0, Addr = a, Data = data\<rparr>)"

text \<open>\<open>binary.BigEndian.Uint16(b[k:])\<close>: the slice_at, then the access to its second byte.\<close>

definition Uint16_at :: "bytes \<Rightarrow> nat \<Rightarrow> int result" where
  "Uint16_at b k =
     bindR (slice_at b k (length b)) (\<lambda>t.
     bindR (index_at t 1) (\<lambda>lo.
     bindR (index_at t 0) (\<lambda>hi. Inr (be16 hi lo))))"

text \<open>The switch of \<open>ParseDatagram\<close>: the address and the length of the header.\<close>

definition datagram_addr :: "bytes \<Rightarrow> byte \<Rightarrow> (AddrSpec \<times> nat) result" where
  "datagram_addr b atyp =
     (let a = empty_addr\<lparr>AddrType := atyp\<rparr> in
      if atyp = ATYPIPv4 then
        (let headLen = 2 + (4 + 2) in
         bindR (index_at b 2) (\<lambda>i0. bindR (index_at b 3) (\<lambda>i1.
         bindR (index_at b 4) (\<lambda>i2. bindR (index_at b 5) (\<lambda>i3.
         bindR (Uint16_at b (headLen - 2)) (\<lambda>port.
           Inr (a\<lparr>IP := IPv4 i0 i1 i2 i3, Port := port\<rparr>, headLen)))))))
      else if atyp = ATYPIPv6 then
        (let headLen = 2 + (16 + 2) in
         if length b \<le> headLen then Inl (ErrMsg ''datagram to short'')
         else bindR (slice_at b 2 (2 + 16)) (\<lambda>ip.
              bindR (Uint16_at b (headLen - 2)) (\<lambda>port.
                Inr (a\<lparr>IP := ip, Port := port\<rparr>, headLen))))
      else if atyp = ATYPDomain then
        bindR (index_at b 2) (\<lambda>l.
          let addrLen = unat l; headLen = 2 + (1 + addrLen + 2) in
          if length b \<le> headLen then Inl (ErrMsg ''datagram to short'')
          else bindR (slice_at b 3 (3 + addrLen)) (\<lambda>name.
               bindR (Uint16_at b (headLen - 2)) (\<lambda>port.
                 Inr (a\<lparr>FQDN := bytes_str name, Port := port\<rparr>, headLen))))
      else Inl ErrUnrecognizedAddrType)"

definition ParseDatagram :: "bytes \<Rightarrow> Datagram result" where
  "ParseDatagram b =
     (if length b < 2 + 4 + 2 then Inl (ErrMsg ''datagram to short'')
      else bindR (index_at b 0) (\<lambda>rsv.
           bindR (index_at b 1) (\<lambda>atyp.
           bindR (datagram_addr b atyp) (\<lambda>(a, headLen).
           bindR (slice_at b headLen (length b)) (\<lambda>data.
             Inr \<lparr>Reserved = rsv, Addr = a, Data = data\<rparr>)))))"

text \<open>
  The address bytes chosen by the switch of \<open>values\<close> (the same in \<open>datagram.go\<close> and
  \<open>stream_datagram.go\<close>); \<open>None\<close> is the default branch.
\<close>

definition addr_bytes :: "AddrSpec \<Rightarrow> bytes option" where
  "addr_bytes a =
     (if AddrType a = ATYPIPv4 then Some (To4 (IP a))
      else if AddrType a = ATYPIPv6 then Some (To16 (IP a))
      else if AddrType a = ATYPDomain then Some (str_bytes (FQDN a))
      else None)"

text \<open>The header both \<open>values\<close> methods append: reserved byte, type, name length, address, port.\<close>

definition addr_header :: "byte \<Rightarrow> AddrSpec \<Rightarrow> bytes \<Rightarrow> bytes" where
  "addr_header rsv a addr =
     [rsv, AddrType a]
     @ (if AddrType a = ATYPDomain then [of_nat (length (FQDN a))] else [])
     @ addr @ port_bytes (Port a)"

definition Datagram_values :: "bool \<Rightarrow> Datagram \<Rightarrow> bytes result" where
  "Datagram_values hasData da =
     (case addr_bytes (Addr da) of
        None \<Rightarrow> Inl (Panic (PanicMsg ''invalid address type''))
      | Some addr \<Rightarrow>
          Inr (addr_header (Reserved da) (Addr da) addr @ (if hasData then Data da else [])))"

definition Datagram_Header :: "Datagram \<Rightarrow> bytes result" where
  "Datagram_Header da = Datagram_values False da"

definition Datagram_Bytes :: "Datagram \<Rightarrow> bytes result" where
  "Datagram_Bytes da = Datagram_values True da"

subsection \<open>stream.go\<close>

record Request =
  Types :: byte
  Version :: byte
  ReqData :: bytes

definition ParseRequest :: "Request parser" where
  "ParseRequest =
     bindP (ReadFull 2) (\<lambda>tmp.
     bindP ParseDataLen (\<lambda>len.
     bindP (ReadFull (nat len)) (\<lambda>data.
       retP \<lparr>Types = tmp ! 0, Version = tmp ! 1, ReqData = data\<rparr>)))"

definition Request_value :: "bool \<Rightarrow> Request \<Rightarrow> bytes result" where
  "Request_value hasData req =
     bindR (DataLen (int (length (ReqData req)))) (\<lambda>(ds, n).
     bindR (slice_at ds 0 n) (\<lambda>dl.
       Inr ([Types req, Version req] @ dl @ (if hasData then ReqData req else []))))"

definition Request_Bytes :: "Request \<Rightarrow> bytes result" where
  "Request_Bytes req = Request_value True req"

definition Request_Header :: "Request \<Rightarrow> bytes result" where
  "Request_Header req = Request_value False req"

record Reply =
  Status :: byte
  RepVersion :: byte

definition ParseReply :: "Reply parser" where
  "ParseReply = bindP (ReadFull 2) (\<lambda>tmp. retP \<lparr>Status = tmp ! 0, RepVersion = tmp ! 1\<rparr>)"

text \<open>\<open>SendReply\<close>: the bytes handed to the writer.\<close>

definition SendReply :: "byte \<Rightarrow> byte \<Rightarrow> bytes" where
  "SendReply status version = [status, version]"

subsection \<open>stream\_datagram.go\<close>

record StreamDatagram =
  sReserved :: byte
  sAddr :: AddrSpec
  sData :: bytes

definition NewStreamDatagram :: "string \<Rightarrow> bytes \<Rightarrow> StreamDatagram result" where
  "NewStreamDatagram destAddr data =
     bindR (ParseAddrSpec destAddr) (\<lambda>a.
       if AddrType a = ATYPDomain \<and> length (FQDN a) > 255
       then Inl (ErrMsg ''destination host name too long'')
       else Inr \<lparr>sReserved = 0, sAddr = a, sData = data\<rparr>)"

definition stream_addr :: "byte \<Rightarrow> AddrSpec parser" where
  "stream_addr atyp =
     (let a = empty_addr\<lparr>AddrType := atyp\<rparr> in
      if atyp = ATYPIPv4 then
        bindP (ReadFull (4 + 2)) (\<lambda>ip.
          retP (a\<lparr>IP := IPv4 (ip ! 0) (ip ! 1) (ip ! 2) (ip ! 3),
                  Port := be16 (ip ! 4) (ip ! 5)\<rparr>))
      else if atyp = ATYPIPv6 then
        bindP (ReadFull (16 + 2)) (\<lambda>ip.
          retP (a\<lparr>IP := take 16 ip, Port := be16 (ip ! 16) (ip ! 17)\<rparr>))
      else if atyp = ATYPDomain then
        bindP (ReadFull 1) (\<lambda>tmp.
          let addrLen = unat (tmp ! 0) in
          bindP (ReadFull (addrLen + 2)) (\<lambda>fqdn.
            retP (a\<lparr>FQDN := bytes_str (take addrLen fqdn),
                    Port := be16 (fqdn ! addrLen) (fqdn ! (addrLen + 1))\<rparr>)))
      else failP ErrUnrecognizedAddrType)"

definition ParseStreamDatagram :: "Datagram parser" where
  "ParseStreamDatagram =
     bindP (ReadFull 2) (\<lambda>tmp.
     bindP (stream_addr (tmp ! 1)) (\<lambda>a.
     bindP ParseDataLen (\<lambda>len.
     bindP (ReadFull (nat len)) (\<lambda>data.
       retP \<lparr>Reserved = tmp ! 0, Addr = a, Data = data\<rparr>))))"

definition StreamDatagram_values :: "bool \<Rightarrow> StreamDatagram \<Rightarrow> bytes result" where
  "StreamDatagram_values hasData sd =
     (case addr_bytes (sAddr sd) of
        None \<Rightarrow> Inl (ErrMsg (''invalid address type: '' @ Itoa (uint (AddrType (sAddr sd)))))
      | Some addr \<Rightarrow>
          bindR (DataLen (int (length (sData sd)))) (\<lambda>(ds, n).
          bindR (slice_at ds 0 n) (\<lambda>dl.
            Inr (addr_header (sReserved sd) (sAddr sd) addr @ dl
                 @ (if hasData then sData sd else [])))))"

definition StreamDatagram_Header :: "StreamDatagram \<Rightarrow> bytes result" where
  "StreamDatagram_Header sd = StreamDatagram_values False sd"

definition StreamDatagram_Bytes :: "StreamDatagram \<Rightarrow> bytes result" where
  "StreamDatagram_Bytes sd = StreamDatagram_values True sd"

section \<open>Well-formed addresses and messages\<close>

definition wf_addr :: "AddrSpec \<Rightarrow> bool" where
  "wf_addr a \<longleftrightarrow>
     0 \<le> Port a \<and> Port a < 65536 \<and>
     (AddrType a = ATYPIPv4 \<and> To4 (IP a) \<noteq> []
      \<or> AddrType a = ATYPIPv6 \<and> To16 (IP a) \<noteq> []
      \<or> AddrType a = ATYPDomain \<and> length (FQDN a) \<le> 255)"

text \<open>The address a parser builds: sixteen byte IP, and only the field its type uses.\<close>

definition norm_addr :: "AddrSpec \<Rightarrow> AddrSpec" where
  "norm_addr a =
     (if AddrType a = ATYPIPv4 then a\<lparr>FQDN := [], IP := v4_prefix @ To4 (IP a)\<rparr>
      else if AddrType a = ATYPIPv6 then a\<lparr>FQDN := [], IP := To16 (IP a)\<rparr>
      else a\<lparr>IP := []\<rparr>)"

definition max_data :: nat where
  "max_data = 2097151"

definition wf_request :: "Request \<Rightarrow> bool" where
  "wf_request req \<longleftrightarrow> length (ReqData req) \<le> max_data"

definition wf_stream_datagram :: "StreamDatagram \<Rightarrow> bool" where
  "wf_stream_datagram sd \<longleftrightarrow> wf_addr (sAddr sd) \<and> length (sData sd) \<le> max_data"

definition datagram_of_stream :: "StreamDatagram \<Rightarrow> Datagram" where
  "datagram_of_stream sd = \<lparr>Reserved = sReserved sd, Addr = norm_addr (sAddr sd), Data = sData sd\<rparr>"

lemma unat_of_nat_byte: "n \<le> 255 \<Longrightarrow> unat (of_nat n :: byte) = n"
  by (simp add: unat_of_nat)

lemma DataLen_slice:
  assumes "n \<le> max_data"
  shows "bindR (DataLen (int n)) (\<lambda>(ds, k). bindR (slice_at ds 0 k) f) = f (datalen_spec (int n))"
proof -
  have "bindR (DataLen_bytes (int n)) f = f (datalen_spec (int n))"
    using assms by (simp add: DataLen_spec max_data_def)
  then show ?thesis
    by (simp add: DataLen_bytes_def bindR_assoc case_prod_unfold)
qed

lemma DataLen_too_long:
  assumes "max_data < n"
  shows "DataLen (int n) = Inl (ErrMsg ''invalid data length'')"
  using assms by (simp add: DataLen_def max_data_def)

text \<open>The data part of a message: the length, then the data.\<close>

lemma parse_data_part:
  assumes "length d \<le> max_data"
  shows "bindP ParseDataLen (\<lambda>len. bindP (ReadFull (nat len)) f)
           (datalen_spec (int (length d)) @ d @ rest) = f d rest"
proof -
  have "ParseDataLen (datalen_spec (int (length d)) @ d @ rest) = Inr (int (length d), d @ rest)"
    using assms by (intro parse_datalen_spec) (simp_all add: max_data_def)
  then show ?thesis by (simp add: bindP_def ReadFull_append)
qed

subsection \<open>Requests and replies\<close>

lemma Request_Bytes_eq:
  "wf_request req \<Longrightarrow>
   Request_Bytes req =
     Inr ([Types req, Version req] @ datalen_spec (int (length (ReqData req))) @ ReqData req)"
  by (simp add: Request_Bytes_def Request_value_def DataLen_slice wf_request_def)

lemma ParseRequest_Bytes:
  assumes "wf_request req" "Request_Bytes req = Inr bs"
  shows "ParseRequest (bs @ rest) = Inr (req, rest)"
proof -
  have bs: "bs = Types req # Version req # datalen_spec (int (length (ReqData req))) @ ReqData req"
    using assms by (simp add: Request_Bytes_eq)
  show ?thesis
    using assms(1) unfolding ParseRequest_def bs wf_request_def
    by (simp add: parse_data_part)
qed

lemma Request_Bytes_too_long:
  "\<not> wf_request req \<Longrightarrow> Request_Bytes req = Inl (ErrMsg ''invalid data length'')"
  by (simp add: Request_Bytes_def Request_value_def wf_request_def DataLen_too_long)

interpretation request_codec: wire_codec wf_request id Request_Bytes ParseRequest
  by unfold_locales (auto simp: Request_Bytes_eq intro: ParseRequest_Bytes)

interpretation reply_codec: wire_codec "\<lambda>_. True" id
  "\<lambda>r. Inr (SendReply (Status r) (RepVersion r))" ParseReply
  by unfold_locales (auto simp: SendReply_def ParseReply_def bindP_def)

subsection \<open>Addresses on the wire\<close>

lemma addr_bytes_wf:
  assumes "wf_addr a"
  obtains addr where "addr_bytes a = Some addr"
    "AddrType a = ATYPIPv4 \<Longrightarrow> length addr = 4 \<and> addr = To4 (IP a)"
    "AddrType a = ATYPIPv6 \<Longrightarrow> length addr = 16 \<and> addr = To16 (IP a)"
    "AddrType a = ATYPDomain \<Longrightarrow> length (FQDN a) \<le> 255 \<and> addr = str_bytes (FQDN a)"
  using assms To4_length [of "IP a"] To16_length [of "IP a"]
  by (auto simp: wf_addr_def addr_bytes_def atyp_defs)

lemma wf_addr_type:
  assumes "wf_addr a"
  obtains "AddrType a = ATYPIPv4" | "AddrType a = ATYPIPv6" | "AddrType a = ATYPDomain"
  using assms by (auto simp: wf_addr_def)

lemma be16_port:
  "0 \<le> p \<Longrightarrow> p < 65536 \<Longrightarrow> be16 (byte_of_int (p div 256)) (byte_of_int p) = p"
  by (simp add: be16_port_bytes)

lemma stream_addr_header:
  assumes wf: "wf_addr a" and ab: "addr_bytes a = Some addr"
  shows "stream_addr (AddrType a) (drop 2 (addr_header rsv a addr) @ rest) = Inr (norm_addr a, rest)"
proof -
  have port: "be16 (byte_of_int (Port a div 256)) (byte_of_int (Port a)) = Port a"
    using wf by (simp add: wf_addr_def be16_port)
  show ?thesis
    using wf
  proof (cases rule: wf_addr_type)
    case 1
    with wf ab have "length addr = 4" and addr: "addr = To4 (IP a)"
      by (auto elim: addr_bytes_wf)
    then obtain i0 i1 i2 i3 where i: "To4 (IP a) = [i0, i1, i2, i3]"
      by (metis length4_cases)
    have "ReadFull 6 (To4 (IP a) @ port_bytes (Port a) @ rest) =
        Inr (To4 (IP a) @ port_bytes (Port a), rest)"
      by (subst append_assoc [symmetric], rule ReadFull_append) (simp add: i)
    with 1 port show ?thesis
      by (simp add: stream_addr_def addr_header_def addr atyp_defs bindP_def norm_addr_def IPv4_def i
          port_bytes_def empty_addr_def Let_def)
  next
    case 2
    with wf ab have len: "length addr = 16" and addr: "addr = To16 (IP a)"
      by (auto elim: addr_bytes_wf)
    have "ReadFull 18 (addr @ port_bytes (Port a) @ rest) = Inr (addr @ port_bytes (Port a), rest)"
      by (subst append_assoc [symmetric], rule ReadFull_append) (simp add: len)
    with 2 port len show ?thesis
      by (simp add: stream_addr_def addr_header_def atyp_defs bindP_def norm_addr_def nth_append
          port_bytes_def empty_addr_def Let_def addr)
  next
    case 3
    with wf ab have len: "length (FQDN a) \<le> 255" and addr: "addr = str_bytes (FQDN a)"
      by (auto elim: addr_bytes_wf)
    have "ReadFull (length (FQDN a) + 2) (addr @ port_bytes (Port a) @ rest) =
        Inr (addr @ port_bytes (Port a), rest)"
      by (subst append_assoc [symmetric], rule ReadFull_append) (simp add: addr)
    with 3 port len show ?thesis
      by (simp add: stream_addr_def addr_header_def atyp_defs bindP_def norm_addr_def nth_append
          port_bytes_def empty_addr_def Let_def addr unat_of_nat_byte)
  qed
qed

subsection \<open>Stream datagrams\<close>

lemma StreamDatagram_Bytes_eq:
  assumes "wf_stream_datagram sd" "addr_bytes (sAddr sd) = Some addr"
  shows "StreamDatagram_Bytes sd =
    Inr (addr_header (sReserved sd) (sAddr sd) addr @
         datalen_spec (int (length (sData sd))) @ sData sd)"
  using assms
  by (simp add: StreamDatagram_Bytes_def StreamDatagram_values_def DataLen_slice wf_stream_datagram_def)

lemma ParseStreamDatagram_Bytes:
  assumes wf: "wf_stream_datagram sd" and bs: "StreamDatagram_Bytes sd = Inr bs"
  shows "ParseStreamDatagram (bs @ rest) = Inr (datagram_of_stream sd, rest)"
proof -
  have wfa: "wf_addr (sAddr sd)" and len: "length (sData sd) \<le> max_data"
    using wf by (simp_all add: wf_stream_datagram_def)
  from wfa obtain addr where ab: "addr_bytes (sAddr sd) = Some addr"
    by (rule addr_bytes_wf)
  let ?h = "addr_header (sReserved sd) (sAddr sd) addr"
  let ?t = "datalen_spec (int (length (sData sd))) @ sData sd @ rest"
  have "bs @ rest = sReserved sd # AddrType (sAddr sd) # (drop 2 ?h @ ?t)"
    using bs StreamDatagram_Bytes_eq [OF wf ab] by (simp add: addr_header_def)
  moreover have "stream_addr (AddrType (sAddr sd)) (drop 2 ?h @ ?t) = Inr (norm_addr (sAddr sd), ?t)"
    using wfa ab by (rule stream_addr_header)
  ultimately show ?thesis
    by (simp add: ParseStreamDatagram_def bindP_Inr datagram_of_stream_def parse_data_part [OF len])
qed

interpretation stream_datagram_codec:
  wire_codec wf_stream_datagram datagram_of_stream StreamDatagram_Bytes ParseStreamDatagram
proof unfold_locales
  fix sd :: StreamDatagram
  assume wf: "wf_stream_datagram sd"
  then obtain addr where "addr_bytes (sAddr sd) = Some addr"
    using addr_bytes_wf wf_stream_datagram_def by metis
  with wf show "\<exists>bs. StreamDatagram_Bytes sd = Inr bs"
    by (auto simp: StreamDatagram_Bytes_eq)
qed (rule ParseStreamDatagram_Bytes)

lemma panics_stream_addr [simp]: "\<not> panics (stream_addr t r)"
  by (simp add: stream_addr_def panics_bindP Let_def ErrUnrecognizedAddrType_def)

lemma panics_ParseStreamDatagram [simp]: "\<not> panics (ParseStreamDatagram r)"
  by (simp add: ParseStreamDatagram_def panics_bindP)

subsection \<open>Datagrams in a packet\<close>

lemma ParseDatagram_total: "\<not> panics (ParseDatagram b)"
proof (cases "length b < 8")
  case True
  then show ?thesis by (simp add: ParseDatagram_def)
next
  case False
  have addr: "\<not> panics (datagram_addr b t)" for t
    using False
    by (auto simp: datagram_addr_def Let_def panics_bindR Uint16_at_def ErrUnrecognizedAddrType_def)
  have head: "headLen \<le> length b" if "datagram_addr b t = Inr (a, headLen)" for t a headLen
    using that False
    by (auto simp: datagram_addr_def Let_def bindR_eq_Inr split: if_splits)
  show ?thesis
    using False addr head by (auto simp: ParseDatagram_def panics_bindR)
qed

text \<open>
  What the length test of the parser demands of a datagram: eight bytes in all, and at least
  one data byte after an IPv6 or a domain address.
\<close>

definition datagram_min :: "Datagram \<Rightarrow> bool" where
  "datagram_min da \<longleftrightarrow>
     (AddrType (Addr da) \<noteq> ATYPIPv4 \<longrightarrow> Data da \<noteq> []) \<and>
     (AddrType (Addr da) = ATYPDomain \<longrightarrow> 3 \<le> length (FQDN (Addr da)) + length (Data da))"

lemma Uint16_at_port:
  "length xs = k \<Longrightarrow> Uint16_at (xs @ port_bytes p @ d) k = Inr (p mod 65536)"
  by (simp add: Uint16_at_def port_bytes_def be16_port_bytes)

lemma slice_at_mid: "length xs = i \<Longrightarrow> j = i + length ys \<Longrightarrow> slice_at (xs @ ys @ zs) i j = Inr ys"
  by simp

lemma Suc3_eq: "Suc (Suc (Suc n)) = 3 + n"
  by simp

lemma datagram_addr_v4:
  "datagram_addr ([r, t, i0, i1, i2, i3] @ port_bytes p @ d) ATYPIPv4 =
   Inr (empty_addr\<lparr>AddrType := ATYPIPv4, IP := IPv4 i0 i1 i2 i3, Port := p mod 65536\<rparr>, 8)"
proof -
  define b where "b = [r, t, i0, i1, i2, i3] @ port_bytes p @ d"
  have "Uint16_at b 6 = Inr (p mod 65536)"
    unfolding b_def by (rule Uint16_at_port) simp
  moreover have "index_at b 2 = Inr i0" "index_at b 3 = Inr i1" "index_at b 4 = Inr i2" "index_at b 5 = Inr i3"
    by (simp_all add: b_def)
  ultimately show ?thesis
    unfolding b_def [symmetric] by (simp add: datagram_addr_def)
qed

lemma datagram_addr_v6:
  assumes "length ip = 16" "d \<noteq> []"
  shows "datagram_addr (([r, t] @ ip) @ port_bytes p @ d) ATYPIPv6 =
    Inr (empty_addr\<lparr>AddrType := ATYPIPv6, IP := ip, Port := p mod 65536\<rparr>, 20)"
proof -
  define b where "b = ([r, t] @ ip) @ port_bytes p @ d"
  have "Uint16_at b 18 = Inr (p mod 65536)"
    unfolding b_def using assms by (intro Uint16_at_port) simp
  moreover have "slice_at b 2 18 = Inr ip" "\<not> length b \<le> 20"
    using assms by (simp_all add: b_def)
  ultimately show ?thesis
    unfolding b_def [symmetric] by (simp add: datagram_addr_def atyp_defs)
qed

lemma datagram_addr_domain:
  assumes "length n \<le> 255" "d \<noteq> []"
  shows "datagram_addr (([r, t, of_nat (length n)] @ str_bytes n) @ port_bytes p @ d) ATYPDomain =
    Inr (empty_addr\<lparr>AddrType := ATYPDomain, FQDN := n, Port := p mod 65536\<rparr>, 5 + length n)"
proof -
  define b where "b = ([r, t, of_nat (length n)] @ str_bytes n) @ port_bytes p @ d"
  have "Uint16_at b (3 + length n) = Inr (p mod 65536)"
    unfolding b_def using assms by (intro Uint16_at_port) simp
  moreover have "index_at b 2 = Inr (of_nat (length n))" "slice_at b 3 (3 + length n) = Inr (str_bytes n)"
    "\<not> length b \<le> 5 + length n"
    using assms by (simp_all add: b_def)
  ultimately show ?thesis
    using assms unfolding b_def [symmetric]
    by (simp add: datagram_addr_def atyp_defs unat_of_nat_byte Let_def Suc3_eq)
qed

lemma ParseDatagram_split:
  assumes "bs = h @ d" "length h = hl" "8 \<le> length bs" "bs ! 0 = r" "bs ! 1 = t"
    "datagram_addr bs t = Inr (a, hl)"
  shows "ParseDatagram bs = Inr \<lparr>Reserved = r, Addr = a, Data = d\<rparr>"
proof -
  have "slice_at bs hl (length bs) = Inr d" using assms(1,2) by simp
  moreover have "index_at bs 0 = Inr r" "index_at bs 1 = Inr t"
    using assms(3-5) by (auto simp: index_at_def)
  ultimately show ?thesis using assms(3,6) by (simp add: ParseDatagram_def)
qed

lemma ParseDatagram_Bytes:
  assumes wf: "wf_addr (Addr da)" and mn: "datagram_min da" and bs: "Datagram_Bytes da = Inr bs"
  shows "ParseDatagram bs = Inr (da\<lparr>Addr := norm_addr (Addr da)\<rparr>)"
proof -
  let ?a = "Addr da"
  have port: "Port ?a mod 65536 = Port ?a"
    using wf by (simp add: wf_addr_def)
  from wf obtain addr where ab: "addr_bytes ?a = Some addr"
    by (rule addr_bytes_wf)
  with bs have bs': "bs = addr_header (Reserved da) ?a addr @ Data da"
    by (simp add: Datagram_Bytes_def Datagram_values_def)
  have d: "da\<lparr>Addr := norm_addr ?a\<rparr> = \<lparr>Reserved = Reserved da, Addr = norm_addr ?a, Data = Data da\<rparr>"
    by simp
  show ?thesis
    using wf
  proof (cases rule: wf_addr_type)
    case 1
    with wf ab have "length addr = 4" and addr: "addr = To4 (IP ?a)"
      by (auto elim: addr_bytes_wf)
    then obtain i0 i1 i2 i3 where i: "To4 (IP ?a) = [i0, i1, i2, i3]"
      by (metis length4_cases)
    have b: "bs = [Reserved da, ATYPIPv4, i0, i1, i2, i3] @ port_bytes (Port ?a) @ Data da"
      using 1 by (simp add: bs' addr_header_def addr i atyp_defs)
    show ?thesis
      unfolding d
    proof (rule ParseDatagram_split)
      show "bs = ([Reserved da, ATYPIPv4, i0, i1, i2, i3] @ port_bytes (Port ?a)) @ Data da"
        by (simp add: b)
      show "length ([Reserved da, ATYPIPv4, i0, i1, i2, i3] @ port_bytes (Port ?a)) = 8"
        by simp
      show "datagram_addr bs ATYPIPv4 = Inr (norm_addr ?a, 8)"
        unfolding b datagram_addr_v4 using 1 port
        by (simp add: norm_addr_def empty_addr_def IPv4_def i)
    qed (simp_all add: b)
  next
    case 2
    with wf ab have len: "length addr = 16" and addr: "addr = To16 (IP ?a)"
      by (auto elim: addr_bytes_wf)
    have b: "bs = ([Reserved da, ATYPIPv6] @ addr) @ port_bytes (Port ?a) @ Data da"
      using 2 by (simp add: bs' addr_header_def atyp_defs)
    show ?thesis
      unfolding d
    proof (rule ParseDatagram_split)
      show "bs = (([Reserved da, ATYPIPv6] @ addr) @ port_bytes (Port ?a)) @ Data da"
        by (simp add: b)
      show "length (([Reserved da, ATYPIPv6] @ addr) @ port_bytes (Port ?a)) = 20"
        by (simp add: len)
      have "Data da \<noteq> []" using mn 2 by (simp add: datagram_min_def atyp_defs)
      with len have "datagram_addr bs ATYPIPv6 =
          Inr (empty_addr\<lparr>AddrType := ATYPIPv6, IP := addr, Port := Port ?a mod 65536\<rparr>, 20)"
        unfolding b by (rule datagram_addr_v6)
      with 2 port show "datagram_addr bs ATYPIPv6 = Inr (norm_addr ?a, 20)"
        by (simp add: norm_addr_def empty_addr_def atyp_defs addr)
    qed (simp_all add: b len)
  next
    case 3
    with wf ab have len: "length (FQDN ?a) \<le> 255" and addr: "addr = str_bytes (FQDN ?a)"
      by (auto elim: addr_bytes_wf)
    have mn': "Data da \<noteq> []" "3 \<le> length (FQDN ?a) + length (Data da)"
      using mn 3 by (simp_all add: datagram_min_def atyp_defs)
    have b: "bs = ([Reserved da, ATYPDomain, of_nat (length (FQDN ?a))] @ str_bytes (FQDN ?a))
        @ port_bytes (Port ?a) @ Data da"
      using 3 by (simp add: bs' addr_header_def atyp_defs addr)
    show ?thesis
      unfolding d
    proof (rule ParseDatagram_split)
      show "bs = (([Reserved da, ATYPDomain, of_nat (length (FQDN ?a))] @ str_bytes (FQDN ?a))
          @ port_bytes (Port ?a)) @ Data da"
        by (simp add: b)
      show "length (([Reserved da, ATYPDomain, of_nat (length (FQDN ?a))] @ str_bytes (FQDN ?a))
          @ port_bytes (Port ?a)) = 5 + length (FQDN ?a)"
        by simp
      have "datagram_addr bs ATYPDomain = Inr (empty_addr\<lparr>AddrType := ATYPDomain,
          FQDN := FQDN ?a, Port := Port ?a mod 65536\<rparr>, 5 + length (FQDN ?a))"
        unfolding b using len mn'(1) by (rule datagram_addr_domain)
      with 3 port show "datagram_addr bs ATYPDomain = Inr (norm_addr ?a, 5 + length (FQDN ?a))"
        by (simp add: norm_addr_def empty_addr_def atyp_defs)
    qed (use mn' in \<open>simp_all add: b\<close>)
  qed
qed

subsection \<open>Addresses from text\<close>

lemma ParseAddrSpec_cases:
  assumes "ParseAddrSpec s = Inr a"
  obtains (v4) host port p where "SplitHostPort s = Inr (host, port)" "Atoi port = Inr p"
      "To4 (ParseIP host) \<noteq> []"
      "a = empty_addr\<lparr>Port := p, AddrType := ATYPIPv4, IP := ParseIP host\<rparr>"
    | (v6) host port p where "SplitHostPort s = Inr (host, port)" "Atoi port = Inr p"
      "To4 (ParseIP host) = []" "ParseIP host \<noteq> []"
      "a = empty_addr\<lparr>Port := p, AddrType := ATYPIPv6, IP := ParseIP host\<rparr>"
    | (domain) host port p where "SplitHostPort s = Inr (host, port)" "Atoi port = Inr p"
      "ParseIP host = []"
      "a = empty_addr\<lparr>Port := p, AddrType := ATYPDomain, FQDN := host\<rparr>"
proof -
  let ?addr = "\<lambda>host p. if To4 (ParseIP host) \<noteq> []
        then Inr (empty_addr\<lparr>Port := p, AddrType := ATYPIPv4, IP := ParseIP host\<rparr>)
        else if ParseIP host \<noteq> []
        then Inr (empty_addr\<lparr>Port := p, AddrType := ATYPIPv6, IP := ParseIP host\<rparr>)
        else (Inr (empty_addr\<lparr>Port := p, AddrType := ATYPDomain, FQDN := host\<rparr>) :: AddrSpec result)"
  from assms obtain host port where sp: "SplitHostPort s = Inr (host, port)"
    and r: "bindR (Atoi port) (?addr host) = Inr a"
    by (auto simp: ParseAddrSpec_def bindR_eq_Inr [of "SplitHostPort s"] Let_def cong: if_cong)
  from r obtain p where at: "Atoi port = Inr p" and a: "?addr host p = Inr a"
    unfolding bindR_eq_Inr by blast
  consider "To4 (ParseIP host) \<noteq> []" | "To4 (ParseIP host) = []" "ParseIP host \<noteq> []"
    | "To4 (ParseIP host) = []" "ParseIP host = []"
    by blast
  then show ?thesis
  proof cases
    case 1
    with a show ?thesis by (intro v4 [OF sp at]) simp_all
  next
    case 2
    with a show ?thesis by (intro v6 [OF sp at]) simp_all
  next
    case 3
    with a show ?thesis by (intro domain [OF sp at]) simp_all
  qed
qed

lemma To4_nonempty_16:
  assumes "To4 ip \<noteq> []" "length ip = 16"
  shows "v4_prefix @ To4 ip = ip"
proof -
  have "take 12 ip = v4_prefix" "To4 ip = drop 12 ip"
    using assms by (simp_all add: To4_def split: if_splits)
  then show ?thesis by (metis append_take_drop_id)
qed

lemma To4_ParseIP_length: "To4 (ParseIP host) \<noteq> [] \<Longrightarrow> length (ParseIP host) = 16"
  using ParseIP_length [of host] by (auto simp: To4_def)

lemma norm_ParseAddrSpec:
  assumes "ParseAddrSpec s = Inr a"
  shows "norm_addr a = a"
  using assms
proof (cases rule: ParseAddrSpec_cases)
  case (v4 host port p)
  then show ?thesis by (simp add: norm_addr_def empty_addr_def To4_nonempty_16 To4_ParseIP_length)
qed (simp_all add: norm_addr_def empty_addr_def atyp_defs)

lemma wf_ParseAddrSpec:
  assumes "ParseAddrSpec s = Inr a" "0 \<le> Port a" "Port a < 65536"
    "AddrType a = ATYPDomain \<longrightarrow> length (FQDN a) \<le> 255"
  shows "wf_addr a"
  using assms(1)
proof (cases rule: ParseAddrSpec_cases)
  case (domain host port p)
  with assms(2-4) show ?thesis by (simp add: wf_addr_def empty_addr_def)
qed (use assms(2,3) in \<open>simp_all add: wf_addr_def empty_addr_def\<close>)

lemma NewStreamDatagram_wf:
  assumes "NewStreamDatagram s data = Inr sd" "length data \<le> max_data"
    "0 \<le> Port (sAddr sd)" "Port (sAddr sd) < 65536"
  shows "wf_stream_datagram sd \<and> norm_addr (sAddr sd) = sAddr sd \<and> sData sd = data"
  using assms
  by (auto simp: NewStreamDatagram_def bindR_eq_Inr wf_stream_datagram_def norm_ParseAddrSpec
      intro!: wf_ParseAddrSpec split: if_splits)

lemma NewDatagram_wf:
  assumes "NewDatagram s data = Inr da" "0 \<le> Port (Addr da)" "Port (Addr da) < 65536"
  shows "wf_addr (Addr da) \<and> norm_addr (Addr da) = Addr da \<and> Data da = data"
  using assms
  by (auto simp: NewDatagram_def bindR_eq_Inr norm_ParseAddrSpec
      intro!: wf_ParseAddrSpec split: if_splits)

text \<open>Printing an address and parsing it again, for a host name and for dotted IPv4.\<close>

lemma ParseAddrSpec_domain_String:
  assumes "AddrType a = ATYPDomain" "IP a = []" "ParseIP (FQDN a) = []" "addr_safe (FQDN a)"
    "0 \<le> Port a" "Port a < 2 ^ 63"
  shows "ParseAddrSpec (AddrSpec_String a) = Inr a"
proof -
  have "SplitHostPort (AddrSpec_String a) = Inr (FQDN a, Itoa (Port a))"
    using assms Itoa_port_chars by (simp add: AddrSpec_String_def Split_Join)
  moreover have "Atoi (Itoa (Port a)) = Inr (Port a)"
    using assms by (intro Atoi_Itoa) simp_all
  ultimately show ?thesis
    using assms by (simp add: ParseAddrSpec_def To4_def To16_def empty_addr_def)
qed

lemma ParseAddrSpec_v4_String:
  assumes "AddrType a = ATYPIPv4" "IP a = IPv4 i j k l" "FQDN a = []" "0 \<le> Port a" "Port a < 2 ^ 63"
  shows "ParseAddrSpec (AddrSpec_String a) = Inr a"
proof -
  have "SplitHostPort (AddrSpec_String a) = Inr (dotted [i, j, k, l], Itoa (Port a))"
    using assms Itoa_port_chars dotted_addr_safe by (simp add: AddrSpec_String_def Split_Join)
  moreover have "Atoi (Itoa (Port a)) = Inr (Port a)"
    using assms by (intro Atoi_Itoa) simp_all
  ultimately show ?thesis
    using assms by (simp add: ParseAddrSpec_def ParseIP_dotted empty_addr_def)
qed

section \<open>Properties\<close>

text \<open>C36. Requests written one after another on a stream are read back as the same requests, in
  order, and nothing after them is consumed; a request whose data is longer than 2097151 bytes
  is refused by the encoder instead.\<close>

theorem request_stream_roundtrip:
  "(\<forall>req. \<not> wf_request req \<longrightarrow> \<not> is_ok (Request_Bytes req)) \<and>
   ((\<forall>req \<in> set reqs. wf_request req) \<longrightarrow>
     (\<exists>bs. encode_all Request_Bytes reqs = Inr bs \<and>
       (\<forall>rest. parse_n (length reqs) ParseRequest (bs @ rest) = Inr (reqs, rest))))"
proof (intro conjI allI impI)
  fix req :: Request
  assume "\<not> wf_request req"
  then show "\<not> is_ok (Request_Bytes req)" by (simp add: Request_Bytes_too_long)
next
  assume wf: "\<forall>req \<in> set reqs. wf_request req"
  then obtain bs where "encode_all Request_Bytes reqs = Inr bs"
    using request_codec.encode_all_ok by blast
  with request_codec.parse_n_encode_all [OF wf] show
    "\<exists>bs. encode_all Request_Bytes reqs = Inr bs \<and>
      (\<forall>rest. parse_n (length reqs) ParseRequest (bs @ rest) = Inr (reqs, rest))"
    by simp
qed

theorem request_stream_roundtrip_witness:
  "\<exists>bs. encode_all Request_Bytes
      [\<lparr>Types = 1, Version = 1, ReqData = [7, 8]\<rparr>, \<lparr>Types = 2, Version = 1, ReqData = []\<rparr>] = Inr bs
    \<and> (\<forall>rest. parse_n 2 ParseRequest (bs @ rest) =
        Inr ([\<lparr>Types = 1, Version = 1, ReqData = [7, 8]\<rparr>, \<lparr>Types = 2, Version = 1, ReqData = []\<rparr>], rest))"
proof -
  let ?reqs = "[\<lparr>Types = 1, Version = 1, ReqData = [7, 8]\<rparr>, \<lparr>Types = 2, Version = 1, ReqData = []\<rparr>]"
  have wf: "\<forall>req \<in> set ?reqs. wf_request req" by (simp add: wf_request_def max_data_def)
  have "length ?reqs = 2" by simp
  with conjunct2 [OF request_stream_roundtrip [of ?reqs], rule_format, OF wf [rule_format]] show ?thesis
    by (simp only:)
qed

text \<open>A stream datagram built for a textual destination with a port that fits in 16 bits and
  at most 2097151 data bytes is encoded without error, and the receiving end of the stream
  obtains the same address, the same data and a zero reserved byte, whatever follows it.\<close>

theorem stream_datagram_roundtrip:
  assumes "NewStreamDatagram dest data = Inr sd" "length data \<le> max_data"
    "0 \<le> Port (sAddr sd)" "Port (sAddr sd) < 65536"
  shows "\<exists>bs. StreamDatagram_Bytes sd = Inr bs \<and>
    (\<forall>rest. ParseStreamDatagram (bs @ rest) =
       Inr (\<lparr>Reserved = 0, Addr = sAddr sd, Data = data\<rparr>, rest))"
proof -
  have wf: "wf_stream_datagram sd" and "norm_addr (sAddr sd) = sAddr sd" "sData sd = data"
    using NewStreamDatagram_wf [OF assms] by simp_all
  moreover have "sReserved sd = 0"
    using assms(1) by (auto simp: NewStreamDatagram_def bindR_eq_Inr split: if_splits)
  moreover obtain bs where "StreamDatagram_Bytes sd = Inr bs"
    using stream_datagram_codec.enc_ok [OF wf] by blast
  ultimately show ?thesis
    using ParseStreamDatagram_Bytes [OF wf] by (simp add: datagram_of_stream_def)
qed

theorem stream_datagram_roundtrip_witness:
  "\<exists>sd bs. NewStreamDatagram ''a.b:80'' [1, 2] = Inr sd \<and> StreamDatagram_Bytes sd = Inr bs \<and>
     ParseStreamDatagram (bs @ [9]) = Inr (\<lparr>Reserved = 0, Addr = sAddr sd, Data = [1, 2]\<rparr>, [9])"
proof -
  let ?sd = "\<lparr>sReserved = 0,
    sAddr = \<lparr>FQDN = ''a.b'', IP = [], Port = 80, AddrType = 3\<rparr>, sData = [1, 2]\<rparr> :: StreamDatagram"
  have "NewStreamDatagram ''a.b:80'' [1, 2] = Inr ?sd" by code_simp
  with stream_datagram_roundtrip [of "''a.b:80''" "[1, 2]" ?sd] show ?thesis
    by (auto simp: max_data_def)
qed

text \<open>Stream datagrams of any senders, written one after another, are read back in order with
  their addresses in the parser's normal form.\<close>

theorem stream_datagrams_framing:
  assumes "\<forall>sd \<in> set sds. wf_stream_datagram sd"
  shows "\<exists>bs. encode_all StreamDatagram_Bytes sds = Inr bs \<and>
    parse_n (length sds) ParseStreamDatagram (bs @ rest) = Inr (map datagram_of_stream sds, rest)"
  using stream_datagram_codec.encode_all_ok [OF assms]
    stream_datagram_codec.parse_n_encode_all [OF assms] by blast

theorem stream_datagrams_framing_witness:
  "\<exists>bs. encode_all StreamDatagram_Bytes
     [\<lparr>sReserved = 0, sAddr = \<lparr>FQDN = [], IP = [10, 0, 0, 1], Port = 53, AddrType = 1\<rparr>, sData = [5]\<rparr>]
     = Inr bs \<and>
   parse_n 1 ParseStreamDatagram (bs @ [9]) =
     Inr ([\<lparr>Reserved = 0,
            Addr = \<lparr>FQDN = [], IP = IPv4 10 0 0 1, Port = 53, AddrType = 1\<rparr>, Data = [5]\<rparr>], [9])"
proof -
  let ?sd = "\<lparr>sReserved = 0, sAddr = \<lparr>FQDN = [], IP = [10, 0, 0, 1], Port = 53, AddrType = 1\<rparr>,
    sData = [5]\<rparr> :: StreamDatagram"
  have "\<forall>sd \<in> set [?sd]. wf_stream_datagram sd"
    by (simp add: wf_stream_datagram_def wf_addr_def max_data_def atyp_defs To4_def)
  from stream_datagrams_framing [OF this, of "[9]"] show ?thesis
    by (simp add: datagram_of_stream_def norm_addr_def IPv4_def To4_def atyp_defs del: parse_n.simps encode_all.simps)
qed

text \<open>A datagram built for a textual destination with a 16 bit port is read back as it was
  sent when the packet reaches the parser's minimum: some data after an IPv6 or domain address,
  and eight bytes in all.\<close>

theorem datagram_roundtrip:
  assumes "NewDatagram dest data = Inr da" "0 \<le> Port (Addr da)" "Port (Addr da) < 65536"
    and "datagram_min da"
  shows "\<exists>bs. Datagram_Bytes da = Inr bs \<and> ParseDatagram bs = Inr da"
proof -
  have wf: "wf_addr (Addr da)" and norm: "norm_addr (Addr da) = Addr da"
    using NewDatagram_wf [OF assms(1-3)] by simp_all
  from wf obtain bs where bs: "Datagram_Bytes da = Inr bs"
    by (elim addr_bytes_wf) (simp add: Datagram_Bytes_def Datagram_values_def)
  from ParseDatagram_Bytes [OF wf assms(4) bs] norm bs show ?thesis by simp
qed

theorem datagram_roundtrip_witness:
  "\<exists>da bs. NewDatagram ''1.2.3.4:53'' [] = Inr da \<and> Datagram_Bytes da = Inr bs \<and> ParseDatagram bs = Inr da"
proof -
  let ?da = "\<lparr>Reserved = 0, Addr = \<lparr>FQDN = [], IP = IPv4 1 2 3 4, Port = 53, AddrType = 1\<rparr>, Data = []\<rparr>"
  have "NewDatagram ''1.2.3.4:53'' [] = Inr ?da" by code_simp
  with datagram_roundtrip [of "''1.2.3.4:53''" "[]" ?da] show ?thesis
    by (auto simp: datagram_min_def atyp_defs)
qed

text \<open>The packet parser refuses an IPv6 or domain datagram with an empty payload although the
  encoder produces it for a well-formed address: its length test is \<open>len(b) <= headLen\<close>.\<close>

theorem datagram_empty_payload_refused:
  assumes "wf_addr (Addr da)" "AddrType (Addr da) \<noteq> ATYPIPv4" "Data da = []"
  shows "\<exists>bs. Datagram_Bytes da = Inr bs \<and> ParseDatagram bs = Inl (ErrMsg ''datagram to short'')"
proof -
  from assms(1) obtain addr where ab: "addr_bytes (Addr da) = Some addr"
    and v6: "AddrType (Addr da) = ATYPIPv6 \<Longrightarrow> length addr = 16 \<and> addr = To16 (IP (Addr da))"
    and dom: "AddrType (Addr da) = ATYPDomain \<Longrightarrow>
      length (FQDN (Addr da)) \<le> 255 \<and> addr = str_bytes (FQDN (Addr da))"
    by (rule addr_bytes_wf) blast
  from ab assms(3) have bs: "Datagram_Bytes da = Inr (addr_header (Reserved da) (Addr da) addr)"
    by (simp add: Datagram_Bytes_def Datagram_values_def)
  have "ParseDatagram (addr_header (Reserved da) (Addr da) addr) = Inl (ErrMsg ''datagram to short'')"
    using assms(1)
  proof (cases rule: wf_addr_type)
    case 2
    with v6 have "length addr = 16" by blast
    with 2 show ?thesis
      by (simp add: ParseDatagram_def addr_header_def datagram_addr_def atyp_defs Let_def)
  next
    case 3
    with dom show ?thesis
      by (simp add: ParseDatagram_def addr_header_def datagram_addr_def atyp_defs Let_def
          unat_of_nat_byte)
  qed (use assms(2) in simp)
  with bs show ?thesis by simp
qed

theorem datagram_empty_payload_refused_witness:
  "\<exists>bs. Datagram_Bytes \<lparr>Reserved = 0,
       Addr = \<lparr>FQDN = ''abcdefg'', IP = [], Port = 80, AddrType = 3\<rparr>, Data = []\<rparr> = Inr bs
     \<and> ParseDatagram bs = Inl (ErrMsg ''datagram to short'')"
  using datagram_empty_payload_refused [of "\<lparr>Reserved = 0,
       Addr = \<lparr>FQDN = ''abcdefg'', IP = [], Port = 80, AddrType = 3\<rparr>, Data = []\<rparr>"]
  by (simp add: wf_addr_def atyp_defs)

text \<open>No input makes the two datagram parsers panic: every byte access they make is within
  the bytes they were given.\<close>

theorem datagram_parsers_total:
  "\<not> panics (ParseDatagram b) \<and> \<not> panics (ParseStreamDatagram r)"
  by (simp add: ParseDatagram_total)

text \<open>The address in a message is printed as text that parses back to the same address, for a
  host name that is not an IP literal and for an IPv4 address.\<close>

theorem addr_string_roundtrip:
  assumes "0 \<le> Port a" "Port a < 65536"
    and "AddrType a = ATYPDomain \<and> IP a = [] \<and> ParseIP (FQDN a) = [] \<and> addr_safe (FQDN a)
      \<or> AddrType a = ATYPIPv4 \<and> FQDN a = [] \<and> (\<exists>i j k l. IP a = IPv4 i j k l)"
  shows "ParseAddrSpec (AddrSpec_String a) = Inr a"
proof -
  have "Port a < 2 ^ 63" using assms(2) by simp
  with assms ParseAddrSpec_domain_String [of a] show ?thesis
    by (auto intro: ParseAddrSpec_v4_String)
qed

theorem addr_string_roundtrip_witness:
  "ParseAddrSpec (AddrSpec_String \<lparr>FQDN = [], IP = IPv4 10 1 2 3, Port = 8080, AddrType = 1\<rparr>) =
   Inr \<lparr>FQDN = [], IP = IPv4 10 1 2 3, Port = 8080, AddrType = 1\<rparr>"
  by (rule addr_string_roundtrip) (auto simp: atyp_defs)

end
