(* ===== verification/Through.thy ===== *)
theory Through
  imports Captain
begin

section \<open>pkg/through: negotiation and handshake of the tunnel\<close>

text \<open>
  The two requests of the tunnel are protocol buffers in the frame of a \<open>captain.Request\<close>. The
  protocol buffer code is generated and its run time belongs to another module: \<open>proto.Marshal\<close>
  and \<open>proto.Unmarshal\<close> on the message type are parameters.
\<close>

definition TypesUnknown :: byte where "TypesUnknown = 0"
definition TypesClient :: byte where "TypesClient = 1"
definition TypesServer :: byte where "TypesServer = 2"

record 'n NegotiateRequest =
  nr_Types :: byte
  nr_Version :: byte
  nr_Nego :: 'n

definition ParseNegotiateRequest :: "(bytes \<Rightarrow> 'n result) \<Rightarrow> 'n NegotiateRequest parser" where
  "ParseNegotiateRequest unmarshal =
     bindP ParseRequest (\<lambda>tr r.
       bindR (unmarshal (ReqData tr)) (\<lambda>n.
         Inr (\<lparr>nr_Types = Types tr, nr_Version = Version tr, nr_Nego = n\<rparr>, r)))"

definition NegotiateRequest_Bytes :: "('n \<Rightarrow> bytes result) \<Rightarrow> 'n NegotiateRequest \<Rightarrow> bytes result" where
  "NegotiateRequest_Bytes marshal sf =
     bindR (marshal (nr_Nego sf)) (\<lambda>d.
       Request_Bytes \<lparr>Types = nr_Types sf, Version = nr_Version sf, ReqData = d\<rparr>)"

record 'h HandshakeRequest =
  hr_Version :: byte
  hr_Hand :: 'h

definition ParseHandshakeRequest :: "(bytes \<Rightarrow> 'h result) \<Rightarrow> 'h HandshakeRequest parser" where
  "ParseHandshakeRequest unmarshal =
     bindP ParseRequest (\<lambda>tr r.
       bindR (unmarshal (ReqData tr)) (\<lambda>h. Inr (\<lparr>hr_Version = Version tr, hr_Hand = h\<rparr>, r)))"

definition HandshakeRequest_Bytes :: "('h \<Rightarrow> bytes result) \<Rightarrow> 'h HandshakeRequest \<Rightarrow> bytes result" where
  "HandshakeRequest_Bytes marshal sf =
     bindR (marshal (hr_Hand sf)) (\<lambda>d. Request_Bytes \<lparr>Types = 0, Version = hr_Version sf, ReqData = d\<rparr>)"

text \<open>What is relied on of the protocol buffers: a message that was marshalled is unmarshalled to itself.\<close>

definition proto_ok :: "('n \<Rightarrow> bytes result) \<Rightarrow> (bytes \<Rightarrow> 'n result) \<Rightarrow> bool" where
  "proto_ok marshal unmarshal \<longleftrightarrow> (\<forall>m d. marshal m = Inr d \<longrightarrow> unmarshal d = Inr m)"

lemma request_frame:
  assumes "Request_Bytes q = Inr b"
  shows "ParseRequest (b @ r) = Inr (q, r)"
proof -
  have "wf_request q" using assms Request_Bytes_too_long [of q] by fastforce
  from request_codec.dec_enc [OF this assms, of r] show ?thesis by simp
qed

text \<open>A message whose encoding fits a frame.\<close>

definition fits :: "('n \<Rightarrow> bytes result) \<Rightarrow> 'n \<Rightarrow> bool" where
  "fits marshal m \<longleftrightarrow> (\<exists>d. marshal m = Inr d \<and> length d \<le> max_data)"

subsection \<open>Properties\<close>

text \<open>The tunnel's requests survive the wire: a negotiation and a handshake request whose message fits a
  frame are encoded, and read back from the start of a stream as the same requests, one after the
  other, with the rest of the stream left.\<close>

theorem through_requests_roundtrip:
  assumes "proto_ok mn un" "proto_ok mh uh" "fits mn (nr_Nego nr)" "fits mh (hr_Hand hr)"
  shows "\<exists>a b. NegotiateRequest_Bytes mn nr = Inr a \<and> HandshakeRequest_Bytes mh hr = Inr b \<and>
    (\<forall>r. ParseNegotiateRequest un (a @ b @ r) = Inr (nr, b @ r) \<and> ParseHandshakeRequest uh (b @ r) = Inr (hr, r))"
proof -
  obtain d where d: "mn (nr_Nego nr) = Inr d" "length d \<le> max_data" using assms(3) by (auto simp: fits_def)
  obtain e where e: "mh (hr_Hand hr) = Inr e" "length e \<le> max_data" using assms(4) by (auto simp: fits_def)
  let ?q = "\<lparr>Types = nr_Types nr, Version = nr_Version nr, ReqData = d\<rparr>"
  let ?p = "\<lparr>Types = 0, Version = hr_Version hr, ReqData = e\<rparr>"
  have "wf_request ?q" "wf_request ?p" using d e by (simp_all add: wf_request_def)
  then obtain a b where ab: "Request_Bytes ?q = Inr a" "Request_Bytes ?p = Inr b"
    using request_codec.enc_ok by metis
  have "un d = Inr (nr_Nego nr)" "uh e = Inr (hr_Hand hr)" using assms(1,2) d e by (auto simp: proto_ok_def)
  then have "ParseNegotiateRequest un (a @ b @ r) = Inr (nr, b @ r)" "ParseHandshakeRequest uh (b @ r) = Inr (hr, r)" for r
    using request_frame [OF ab(1), of "b @ r"] request_frame [OF ab(2), of r]
    by (simp_all add: ParseNegotiateRequest_def ParseHandshakeRequest_def bindP_def)
  then show ?thesis
    using ab d e by (simp add: NegotiateRequest_Bytes_def HandshakeRequest_Bytes_def)
qed

theorem through_requests_roundtrip_witness:
  "\<exists>a b. NegotiateRequest_Bytes Inr \<lparr>nr_Types = TypesClient, nr_Version = 1, nr_Nego = [1, 2, 3]\<rparr> = Inr a \<and>
     HandshakeRequest_Bytes Inr \<lparr>hr_Version = 1, hr_Hand = [4]\<rparr> = Inr b \<and>
     ParseNegotiateRequest Inr (a @ b @ [9]) = Inr (\<lparr>nr_Types = TypesClient, nr_Version = 1, nr_Nego = [1, 2, 3]\<rparr>, b @ [9])"
proof -
  have "proto_ok Inr Inr" by (simp add: proto_ok_def)
  moreover have "fits Inr [1 :: byte, 2, 3]" "fits Inr [4 :: byte]" by (simp_all add: fits_def max_data_def)
  ultimately show ?thesis
    using through_requests_roundtrip [of Inr Inr Inr Inr "\<lparr>nr_Types = TypesClient, nr_Version = 1, nr_Nego = [1, 2, 3]\<rparr>"
        "\<lparr>hr_Version = 1, hr_Hand = [4]\<rparr>"] by (simp) blast
qed

end
