(* ===== verification/Conn_Manager.thy ===== *)
theory Conn_Manager
  imports Concurrent_Map
begin

section \<open>Objects addressed by index\<close>

text \<open>Connections and sessions are objects that several goroutines share. A service keeps them in a
  list, an object being its index, and changes one in place.\<close>

definition upd_at :: "nat \<Rightarrow> ('a \<Rightarrow> 'a) \<Rightarrow> 'a list \<Rightarrow> 'a list" where
  "upd_at i f xs = (if i < length xs then xs[i := f (xs ! i)] else xs)"

lemma upd_at_simps [simp]:
  "length (upd_at i f xs) = length xs"
  "j < length xs \<Longrightarrow> upd_at i f xs ! j = (if i = j then f (xs ! j) else xs ! j)"
  by (simp_all add: upd_at_def)

text \<open>A field that the change keeps has the same value at every index.\<close>

lemma upd_at_field: "(\<And>x. g (f x) = g x) \<Longrightarrow> g (upd_at i f xs ! j) = g (xs ! j)"
  by (cases "i = j") (simp_all add: upd_at_def)

section \<open>connection/manager.go: a table with garbage collection\<close>

text \<open>
  A \<open>Manager\<close> is a concurrent map with a collector. On every tick of its ticker \<open>Watch\<close> takes a
  snapshot of the table, asks the call-back about each item of it, and removes the key of an item
  the call-back gives up. The call-back acts on the owner's state (it closes the connection), so
  that it is a state transformer here. The map, the snapshot and the decisions are separate
  atomic moments: the state of a collector is what is left of its snapshot and the key it is about
  to remove, and the services that own a manager interleave \<open>gc_tick\<close>, \<open>gc_check\<close> and \<open>gc_remove\<close>
  with their own steps. \<open>gc_pass\<close> is a whole pass that nothing interferes with.
\<close>

type_synonym ('v, 's) gc_cb = "string \<Rightarrow> 'v \<Rightarrow> int \<Rightarrow> 's \<Rightarrow> bool \<times> 's"

record ('m, 'v, 's) Manager =
  mgr_map :: 'm
  mgr_interval :: int
  mgr_gcIterCb :: "('v, 's) gc_cb option"

definition mgr_New :: "('m, 'v) cmap \<Rightarrow> int \<Rightarrow> ('v, 's) gc_cb option \<Rightarrow> ('m, 'v, 's) Manager" where
  "mgr_New cm gcInterval gcIterCb =
     \<lparr>mgr_map = cm_New cm, mgr_interval = gcInterval, mgr_gcIterCb = gcIterCb\<rparr>"

text \<open>The loop of \<open>Watch\<close> is entered only with an interval and a call-back.\<close>

definition watches :: "('m, 'v, 's) Manager \<Rightarrow> bool" where
  "watches sf \<longleftrightarrow> \<not> (mgr_interval sf \<le> 0 \<or> mgr_gcIterCb sf = None)"

text \<open>The collector between two atomic moments: the time of the tick, the items left to ask about,
  and the key whose item was given up and is about to be removed.\<close>

record 'v collector =
  gc_now :: int
  gc_items :: "(string \<times> 'v) list"
  gc_del :: "string option"

definition gc_idle :: "'v collector" where
  "gc_idle = \<lparr>gc_now = 0, gc_items = [], gc_del = None\<rparr>"

definition gc_busy :: "'v collector \<Rightarrow> bool" where
  "gc_busy g \<longleftrightarrow> gc_items g \<noteq> [] \<or> gc_del g \<noteq> None"

definition gc_tick :: "('m, 'v) cmap \<Rightarrow> int \<Rightarrow> 'm \<Rightarrow> 'v collector" where
  "gc_tick cm now m = \<lparr>gc_now = now, gc_items = cm_Items cm m, gc_del = None\<rparr>"

definition gc_check :: "('v, 's) gc_cb \<Rightarrow> 'v collector \<Rightarrow> 's \<Rightarrow> 'v collector \<times> 's" where
  "gc_check cb g s =
     (case gc_items g of
        [] \<Rightarrow> (g, s)
      | (k, v) # r \<Rightarrow>
          (let (dead, s') = cb k v (gc_now g) s
           in (g\<lparr>gc_items := r, gc_del := (if dead then Some k else None)\<rparr>, s')))"

definition gc_remove :: "('m, 'v) cmap \<Rightarrow> 'v collector \<Rightarrow> 'm \<Rightarrow> 'v collector \<times> 'm" where
  "gc_remove cm g m =
     (case gc_del g of None \<Rightarrow> (g, m) | Some k \<Rightarrow> (g\<lparr>gc_del := None\<rparr>, cm_Remove cm k m))"

primrec gc_loop :: "('m, 'v) cmap \<Rightarrow> ('v, 's) gc_cb \<Rightarrow> int \<Rightarrow> (string \<times> 'v) list \<Rightarrow> 'm \<times> 's \<Rightarrow> 'm \<times> 's" where
  "gc_loop cm cb now [] ms = ms"
| "gc_loop cm cb now (kv # r) ms =
     (let (dead, s') = cb (fst kv) (snd kv) now (snd ms)
      in gc_loop cm cb now r (if dead then cm_Remove cm (fst kv) (fst ms) else fst ms, s'))"

definition gc_pass :: "('m, 'v) cmap \<Rightarrow> ('v, 's) gc_cb \<Rightarrow> int \<Rightarrow> 'm \<times> 's \<Rightarrow> 'm \<times> 's" where
  "gc_pass cm cb now ms = gc_loop cm cb now (cm_Items cm (fst ms)) ms"

subsection \<open>Laws\<close>

lemma in_remove1D: "x \<in> set (remove1 y xs) \<Longrightarrow> x \<in> set xs"
  by (rule set_remove1_subset [THEN subsetD])

text \<open>The keys a collector can still remove.\<close>

definition gc_keys :: "'v collector \<Rightarrow> string set" where
  "gc_keys g = fst ` set (gc_items g) \<union> set_option (gc_del g)"

lemma gc_keys_idle [simp]: "gc_keys gc_idle = {}"
  by (simp add: gc_keys_def gc_idle_def)

lemma gc_check_Cons:
  "gc_items g = (k, v) # r \<Longrightarrow> cb k v (gc_now g) s = (dead, s') \<Longrightarrow>
   gc_check cb g s = (g\<lparr>gc_items := r, gc_del := (if dead then Some k else None)\<rparr>, s')"
  by (simp add: gc_check_def)

text \<open>A pass that is not interfered with, by a call-back whose verdict does not depend on the state
  it acts on, leaves exactly the items that the call-back keeps.\<close>

lemma gc_loop_Get:
  assumes "cmap_laws cm" "\<And>k v s. fst (cb k v now s) = dead k v" "distinct (map fst kvs)"
  shows "cm_Get cm k (fst (gc_loop cm cb now kvs (m, s))) =
    (case map_of kvs k of Some v \<Rightarrow> if dead k v then None else cm_Get cm k m | None \<Rightarrow> cm_Get cm k m)"
  using assms(3)
proof (induction kvs arbitrary: m s)
  case (Cons kv r)
  obtain a v where kv: "kv = (a, v)" by (cases kv)
  obtain s' where cb: "cb a v now s = (dead a v, s')" using assms(2) [of a v s] by (cases "cb a v now s") auto
  have "map_of r a = None" using Cons.prems by (simp add: kv map_of_eq_None_iff)
  then show ?case
    using Cons by (cases "map_of r k") (auto simp: kv cb cmap_Remove [OF assms(1)])
qed simp

lemma gc_pass_Get:
  assumes "cmap_laws cm" "\<And>k v s. fst (cb k v now s) = dead k v"
  shows "cm_Get cm k (fst (gc_pass cm cb now (m, s))) =
    (case cm_Get cm k m of Some v \<Rightarrow> if dead k v then None else Some v | None \<Rightarrow> None)"
  using cmap_Items [OF assms(1), of m] gc_loop_Get [where dead = dead and cb = cb, OF assms(1)] assms(2)
  by (auto simp: gc_pass_def split: option.splits)

end
