(* ===== verification/Bridge.thy ===== *)
theory Bridge
  imports Through Conn_Manager
begin

section \<open>services/mux/bridge.go: the bridge of the tunnel\<close>

text \<open>
  The bridge accepts connections of two kinds of nodes. A server node opens streams on its
  session; each of them is bound to a stream the bridge opens on the session of the client node
  with the same secret key. The bridge keeps the client sessions by secret key, in a table that a
  collector cleans of closed sessions, and the server sessions by remote address.

  A session of \<open>smux\<close>, which is another module, is known to the bridge as an object that is
  created on a connection, may be found closed and can be closed; it is an index into \<open>b_sess\<close>.
  Whether its creation and \<open>OpenStream\<close> succeed, when the peer of a session disappears and when a
  stream dies are choices of the environment. The goroutines are part of the state: the server
  nodes' loops (\<open>b_handlers\<close>), the streams that look for a client (\<open>b_streams\<close>, with the number of
  retries that \<open>backoff\<close> has left), the bound pairs (\<open>b_bound\<close>) and the collector (\<open>b_gc\<close>).
  \<open>bridge_step\<close> interleaves their atomic steps.
\<close>

definition through_Version :: byte where "through_Version = 1"
definition RepSuccess :: byte where "RepSuccess = 0"
definition RepServerFailure :: byte where "RepServerFailure = 2"
definition RepTypesNotSupport :: byte where "RepTypesNotSupport = 4"

definition ErrClosedPipe :: error where
  "ErrClosedPipe = ErrMsg ''io: read/write on closed pipe''"

text \<open>The negotiation message of the generated package \<open>ddt\<close>.\<close>

record nego =
  SecretKey :: string
  NegoId :: string

record session =
  s_client :: bool
  s_key :: string
  s_closed :: bool

definition sess_Close :: "nat \<Rightarrow> session list \<Rightarrow> session list" where
  "sess_Close i ss = (if i < length ss then ss[i := (ss ! i)\<lparr>s_closed := True\<rparr>] else ss)"

definition sess_IsClosed :: "session list \<Rightarrow> nat \<Rightarrow> bool" where
  "sess_IsClosed ss i \<longleftrightarrow> s_closed (ss ! i)"

record 'm Bridge =
  b_clientSession :: "('m, nat, session list) Manager"
  b_serverSession :: 'm
  b_channel :: bool
  b_cancelled :: bool
  b_sess :: "session list"
  b_handlers :: "(string \<times> nat) list"
  b_streams :: "(nat \<times> nat) list"
  b_bound :: "(nat \<times> nat) list"
  b_gc :: "nat collector"

text \<open>The collector's call-back: a closed session is closed and given up.\<close>

definition bridge_gc_cb :: "(nat, session list) gc_cb" where
  "bridge_gc_cb key v now ss = (if sess_IsClosed ss v then (True, sess_Close v ss) else (False, ss))"

text \<open>\<open>NewBridge\<close>, and the bridge once \<open>Start\<close> has opened the listener.\<close>

definition NewBridge :: "('m, nat) cmap \<Rightarrow> 'm Bridge" where
  "NewBridge cm =
     \<lparr>b_clientSession = mgr_New cm 5000000000 (Some bridge_gc_cb), b_serverSession = cm_New cm,
      b_channel = False, b_cancelled = False, b_sess = [], b_handlers = [], b_streams = [], b_bound = [],
      b_gc = gc_idle\<rparr>"

definition bridge_started :: "('m, nat) cmap \<Rightarrow> 'm Bridge" where
  "bridge_started cm = (NewBridge cm)\<lparr>b_channel := True\<rparr>"

subsection \<open>Operations\<close>

text \<open>\<open>Upsert\<close> with the call-back of the handler: the new session replaces the one in the table,
  which is closed.\<close>

definition session_upsert :: "('m, nat) cmap \<Rightarrow> string \<Rightarrow> nat \<Rightarrow> 'm \<Rightarrow> session list \<Rightarrow> 'm \<times> session list" where
  "session_upsert cm k i m ss =
     (cm_Upsert cm k i (\<lambda>valueInMap newValue. newValue) m,
      case cm_Get cm k m of None \<Rightarrow> ss | Some old \<Rightarrow> sess_Close old ss)"

definition add_server :: "('m, nat) cmap \<Rightarrow> string \<Rightarrow> nego \<Rightarrow> 'm Bridge \<Rightarrow> 'm Bridge" where
  "add_server cm inAddr n b =
     (let i = length (b_sess b);
          (m, ss) = session_upsert cm inAddr i (b_serverSession b)
                      (b_sess b @ [\<lparr>s_client = False, s_key = SecretKey n, s_closed = False\<rparr>])
      in b\<lparr>b_serverSession := m, b_sess := ss, b_handlers := (inAddr, i) # b_handlers b\<rparr>)"

definition add_client :: "('m, nat) cmap \<Rightarrow> nego \<Rightarrow> 'm Bridge \<Rightarrow> 'm Bridge" where
  "add_client cm n b =
     (let i = length (b_sess b);
          (m, ss) = session_upsert cm (SecretKey n) i (mgr_map (b_clientSession b))
                      (b_sess b @ [\<lparr>s_client = True, s_key = SecretKey n, s_closed = False\<rparr>])
      in b\<lparr>b_clientSession := (b_clientSession b)\<lparr>mgr_map := m\<rparr>, b_sess := ss\<rparr>)"

text \<open>\<open>handler\<close> up to the loop of a server node: what is written on the connection, whether it is
  closed, and the new state. \<open>smux_ok\<close> says whether the session could be created.\<close>

definition bridge_handler ::
  "(bytes \<Rightarrow> nego result) \<Rightarrow> ('m, nat) cmap \<Rightarrow> string \<Rightarrow> bytes \<Rightarrow> bool \<Rightarrow> 'm Bridge \<Rightarrow> (bytes \<times> bool) \<times> 'm Bridge" where
  "bridge_handler unmarshal cm inAddr input smux_ok b =
     (case ParseNegotiateRequest unmarshal input of
        Inl err \<Rightarrow> (([], True), b)
      | Inr (negos, _) \<Rightarrow>
          if nr_Types negos = TypesServer then
            if \<not> smux_ok then (([RepServerFailure, through_Version], True), b)
            else ((SendReply RepSuccess through_Version, False), add_server cm inAddr (nr_Nego negos) b)
          else if nr_Types negos = TypesClient then
            if \<not> smux_ok then ((SendReply RepServerFailure through_Version, True), b)
            else ((SendReply RepSuccess through_Version, False), add_client cm (nr_Nego negos) b)
          else ((SendReply RepTypesNotSupport through_Version, False), b))"

text \<open>The loop of a server node: \<open>AcceptStream\<close> gives a stream, for which \<open>proxyStream\<close> is started
  with ten retries, or fails, and the deferred clean-up runs.\<close>

definition max_retries :: nat where "max_retries = 10"

definition accept_stream :: "string \<times> nat \<Rightarrow> 'm Bridge \<Rightarrow> 'm Bridge" where
  "accept_stream h b = b\<lparr>b_streams := (snd h, max_retries) # b_streams b\<rparr>"

definition server_released :: "('m, nat) cmap \<Rightarrow> string \<times> nat \<Rightarrow> 'm Bridge \<Rightarrow> 'm Bridge" where
  "server_released cm h b =
     b\<lparr>b_handlers := remove1 h (b_handlers b),
       b_serverSession := cm_Remove cm (fst h) (b_serverSession b),
       b_sess := sess_Close (snd h) (b_sess b)\<rparr>"

datatype attempt = Retry error | Permanent error | Opened nat

text \<open>The operation that \<open>proxyStream\<close> retries: \<open>died\<close> says whether the stream's die channel is
  closed, \<open>open\<close> is the error of \<open>OpenStream\<close> if it fails.\<close>

definition bind_attempt :: "('m, nat) cmap \<Rightarrow> bool \<Rightarrow> error option \<Rightarrow> string \<Rightarrow> 'm Bridge \<Rightarrow> attempt" where
  "bind_attempt cm died open_err sk b =
     (if died then Permanent ErrClosedPipe
      else case cm_Get cm sk (mgr_map (b_clientSession b)) of
        None \<Rightarrow> Retry (ErrMsg ''client not exists'')
      | Some conn \<Rightarrow>
          if sess_IsClosed (b_sess b) conn then Permanent ErrClosedPipe
          else (case open_err of
                  None \<Rightarrow> Opened conn
                | Some e \<Rightarrow> if e = ErrClosedPipe then Permanent ErrClosedPipe else Retry e))"

text \<open>One round of \<open>backoff.Retry\<close>: the stream is bound, given up, or waits for the next round. It is
  given up when no retry is left or the context is cancelled.\<close>

definition proxyStream :: "('m, nat) cmap \<Rightarrow> nat \<times> nat \<Rightarrow> bool \<Rightarrow> error option \<Rightarrow> 'm Bridge \<Rightarrow> 'm Bridge" where
  "proxyStream cm p died open_err b =
     (let b' = b\<lparr>b_streams := remove1 p (b_streams b)\<rparr>
      in case bind_attempt cm died open_err (s_key (b_sess b ! fst p)) b of
           Opened conn \<Rightarrow> b'\<lparr>b_bound := (fst p, conn) # b_bound b\<rparr>
         | Permanent e \<Rightarrow> b'
         | Retry e \<Rightarrow> if snd p = 0 \<or> b_cancelled b then b'
                      else b'\<lparr>b_streams := (fst p, snd p - 1) # b_streams b'\<rparr>)"

definition bridge_Stop :: "('m, nat) cmap \<Rightarrow> 'm Bridge \<Rightarrow> 'm Bridge" where
  "bridge_Stop cm b =
     b\<lparr>b_cancelled := True, b_channel := False,
       b_sess := fold (\<lambda>kv. sess_Close (snd kv)) (cm_Items cm (b_serverSession b))
                  (fold (\<lambda>kv. sess_Close (snd kv)) (cm_Items cm (mgr_map (b_clientSession b))) (b_sess b))\<rparr>"

text \<open>The collector's moments on the state of the bridge.\<close>

definition bridge_tick :: "('m, nat) cmap \<Rightarrow> int \<Rightarrow> 'm Bridge \<Rightarrow> 'm Bridge" where
  "bridge_tick cm now b = b\<lparr>b_gc := gc_tick cm now (mgr_map (b_clientSession b))\<rparr>"

definition bridge_check :: "'m Bridge \<Rightarrow> 'm Bridge" where
  "bridge_check b =
     (case mgr_gcIterCb (b_clientSession b) of
        None \<Rightarrow> b
      | Some cb \<Rightarrow> (let (g, ss) = gc_check cb (b_gc b) (b_sess b) in b\<lparr>b_gc := g, b_sess := ss\<rparr>))"

definition bridge_remove :: "('m, nat) cmap \<Rightarrow> 'm Bridge \<Rightarrow> 'm Bridge" where
  "bridge_remove cm b =
     (let (g, m) = gc_remove cm (b_gc b) (mgr_map (b_clientSession b))
      in b\<lparr>b_gc := g, b_clientSession := (b_clientSession b)\<lparr>mgr_map := m\<rparr>\<rparr>)"

subsection \<open>Interleaving\<close>

text \<open>A registration is stale for the collector when it is about to decide on an older session of
  the same key. The flag \<open>calm\<close> of the step relation excludes such registrations.\<close>

definition stale :: "(bytes \<Rightarrow> nego result) \<Rightarrow> bytes \<Rightarrow> 'm Bridge \<Rightarrow> bool" where
  "stale unmarshal input b \<longleftrightarrow>
     (case ParseNegotiateRequest unmarshal input of
        Inl _ \<Rightarrow> False
      | Inr (negos, _) \<Rightarrow> nr_Types negos = TypesClient \<and> SecretKey (nr_Nego negos) \<in> gc_keys (b_gc b))"

text \<open>The collector may find a tick and the cancelled context at once and then choose the tick, so
  that ticks do not depend on \<open>b_cancelled\<close>.\<close>

inductive bridge_step :: "bool \<Rightarrow> (bytes \<Rightarrow> nego result) \<Rightarrow> ('m, nat) cmap \<Rightarrow> 'm Bridge \<Rightarrow> 'm Bridge \<Rightarrow> bool"
  for calm :: bool and unmarshal :: "bytes \<Rightarrow> nego result" and cm :: "('m, nat) cmap" where
  step_accept: "b_channel b \<Longrightarrow> \<not> (calm \<and> stale unmarshal input b) \<Longrightarrow>
    bridge_step calm unmarshal cm b (snd (bridge_handler unmarshal cm inAddr input smux_ok b))"
| step_stream: "h \<in> set (b_handlers b) \<Longrightarrow> \<not> sess_IsClosed (b_sess b) (snd h) \<Longrightarrow>
    bridge_step calm unmarshal cm b (accept_stream h b)"
| step_released: "h \<in> set (b_handlers b) \<Longrightarrow> bridge_step calm unmarshal cm b (server_released cm h b)"
| step_attempt: "p \<in> set (b_streams b) \<Longrightarrow>
    bridge_step calm unmarshal cm b (proxyStream cm p died open_err b)"
| step_unbound: "bridge_step calm unmarshal cm b (b\<lparr>b_bound := remove1 q (b_bound b)\<rparr>)"
| step_gone: "bridge_step calm unmarshal cm b (b\<lparr>b_sess := sess_Close i (b_sess b)\<rparr>)"
| step_tick: "watches (b_clientSession b) \<Longrightarrow> \<not> gc_busy (b_gc b) \<Longrightarrow>
    bridge_step calm unmarshal cm b (bridge_tick cm now b)"
| step_check: "gc_del (b_gc b) = None \<Longrightarrow> bridge_step calm unmarshal cm b (bridge_check b)"
| step_remove: "bridge_step calm unmarshal cm b (bridge_remove cm b)"
| step_stop: "bridge_step calm unmarshal cm b (bridge_Stop cm b)"

inductive bridge_reach :: "bool \<Rightarrow> (bytes \<Rightarrow> nego result) \<Rightarrow> ('m, nat) cmap \<Rightarrow> 'm Bridge \<Rightarrow> bool"
  for calm :: bool and unmarshal :: "bytes \<Rightarrow> nego result" and cm :: "('m, nat) cmap" where
  reach_started: "bridge_reach calm unmarshal cm (bridge_started cm)"
| reach_step: "bridge_reach calm unmarshal cm b \<Longrightarrow> bridge_step calm unmarshal cm b b' \<Longrightarrow>
    bridge_reach calm unmarshal cm b'"


subsection \<open>Sessions\<close>

text \<open>Sessions are only added and closed.\<close>

definition sess_le :: "session list \<Rightarrow> session list \<Rightarrow> bool" where
  "sess_le ss ss' \<longleftrightarrow> length ss \<le> length ss' \<and>
     (\<forall>i < length ss. s_client (ss' ! i) = s_client (ss ! i) \<and> s_key (ss' ! i) = s_key (ss ! i))"

lemma sess_Close_simps [simp]:
  "length (sess_Close i ss) = length ss"
  "s_client (sess_Close i ss ! j) = s_client (ss ! j)"
  "s_key (sess_Close i ss ! j) = s_key (ss ! j)"
  "s_closed (sess_Close i ss ! j) \<longleftrightarrow> s_closed (ss ! j) \<or> i = j \<and> i < length ss"
  by (auto simp: sess_Close_def nth_list_update)

lemma sess_Close_all [simp]:
  "length (fold (\<lambda>kv. sess_Close (snd kv)) kvs ss) = length ss"
  "s_client (fold (\<lambda>kv. sess_Close (snd kv)) kvs ss ! j) = s_client (ss ! j)"
  "s_key (fold (\<lambda>kv. sess_Close (snd kv)) kvs ss ! j) = s_key (ss ! j)"
  "s_closed (fold (\<lambda>kv. sess_Close (snd kv)) kvs ss ! j) \<longleftrightarrow> s_closed (ss ! j) \<or> j < length ss \<and> j \<in> snd ` set kvs"
  by (induction kvs arbitrary: ss) auto

lemma sess_le_refl [simp]: "sess_le ss ss"
  by (simp add: sess_le_def)

lemma sess_le_Close [simp]: "sess_le ss (sess_Close i ss)"
  "sess_le ss (fold (\<lambda>kv. sess_Close (snd kv)) kvs ss)"
  by (simp_all add: sess_le_def)

lemma sess_le_trans: "sess_le a b \<Longrightarrow> sess_le b c \<Longrightarrow> sess_le a c"
  by (simp add: sess_le_def)

lemma sess_le_append [simp]: "sess_le ss (ss @ xs)"
  by (simp add: sess_le_def nth_append)

lemma sess_le_upsert: "sess_le ss (snd (session_upsert cm k i m ss))"
  by (simp add: session_upsert_def split: option.split)

lemma sess_le_check: "sess_le ss (snd (bridge_gc_cb k v now ss))"
  by (simp add: bridge_gc_cb_def)

subsection \<open>The tables are well typed\<close>

definition client_ok :: "session list \<Rightarrow> string \<Rightarrow> nat \<Rightarrow> bool" where
  "client_ok ss k i \<longleftrightarrow> i < length ss \<and> s_client (ss ! i) \<and> s_key (ss ! i) = k"

definition server_ok :: "session list \<Rightarrow> nat \<Rightarrow> bool" where
  "server_ok ss i \<longleftrightarrow> i < length ss \<and> \<not> s_client (ss ! i)"

definition bridge_inv :: "('m, nat) cmap \<Rightarrow> 'm Bridge \<Rightarrow> bool" where
  "bridge_inv cm b \<longleftrightarrow>
     mgr_gcIterCb (b_clientSession b) = Some bridge_gc_cb \<and>
     (\<forall>k i. cm_Get cm k (mgr_map (b_clientSession b)) = Some i \<longrightarrow> client_ok (b_sess b) k i) \<and>
     (\<forall>a i. cm_Get cm a (b_serverSession b) = Some i \<longrightarrow> server_ok (b_sess b) i) \<and>
     (\<forall>k i. (k, i) \<in> set (gc_items (b_gc b)) \<longrightarrow> client_ok (b_sess b) k i) \<and>
     (\<forall>a i. (a, i) \<in> set (b_handlers b) \<longrightarrow> server_ok (b_sess b) i) \<and>
     (\<forall>i n. (i, n) \<in> set (b_streams b) \<longrightarrow> server_ok (b_sess b) i \<and> n \<le> max_retries) \<and>
     (\<forall>i j. (i, j) \<in> set (b_bound b) \<longrightarrow> server_ok (b_sess b) i \<and> client_ok (b_sess b) (s_key (b_sess b ! i)) j)"

lemma client_ok_le: "client_ok ss k i \<Longrightarrow> sess_le ss ss' \<Longrightarrow> client_ok ss' k i"
  by (auto simp: client_ok_def sess_le_def)

lemma server_ok_le: "server_ok ss i \<Longrightarrow> sess_le ss ss' \<Longrightarrow> server_ok ss' i \<and> s_key (ss' ! i) = s_key (ss ! i)"
  by (auto simp: server_ok_def sess_le_def)

lemma bridge_inv_sess:
  assumes "bridge_inv cm b" "sess_le (b_sess b) ss"
  shows "bridge_inv cm (b\<lparr>b_sess := ss\<rparr>)"
  using assms(1) client_ok_le [OF _ assms(2)] server_ok_le [OF _ assms(2)]
  by (simp add: bridge_inv_def)

lemma bridge_inv_started: "cmap_laws cm \<Longrightarrow> bridge_inv cm (bridge_started cm)"
  by (simp add: bridge_inv_def bridge_started_def NewBridge_def mgr_New_def cmap_New gc_idle_def)

lemma bridge_inv_add_server:
  assumes "cmap_laws cm" "bridge_inv cm b"
  shows "bridge_inv cm (add_server cm a n b)"
proof -
  let ?ss = "b_sess b @ [\<lparr>s_client = False, s_key = SecretKey n, s_closed = False\<rparr>]"
  let ?u = "session_upsert cm a (length (b_sess b)) (b_serverSession b) ?ss"
  have le: "sess_le (b_sess b) (snd ?u)" "sess_le ?ss (snd ?u)"
    by (blast intro: sess_le_trans sess_le_upsert sess_le_append)+
  have "server_ok (snd ?u) (length (b_sess b))"
    using server_ok_le [OF _ le(2), of "length (b_sess b)"] by (simp add: server_ok_def)
  moreover have "cm_Get cm k (fst ?u) = (if k = a then Some (length (b_sess b)) else cm_Get cm k (b_serverSession b))" for k
    by (simp add: session_upsert_def cmap_Upsert [OF assms(1)])
  ultimately show ?thesis
    using bridge_inv_sess [OF assms(2) le(1)]
    by (auto simp: add_server_def bridge_inv_def Let_def split: prod.split if_splits)
qed

lemma bridge_inv_add_client:
  assumes "cmap_laws cm" "bridge_inv cm b"
  shows "bridge_inv cm (add_client cm n b)"
proof -
  let ?ss = "b_sess b @ [\<lparr>s_client = True, s_key = SecretKey n, s_closed = False\<rparr>]"
  let ?u = "session_upsert cm (SecretKey n) (length (b_sess b)) (mgr_map (b_clientSession b)) ?ss"
  have le: "sess_le (b_sess b) (snd ?u)" "sess_le ?ss (snd ?u)"
    by (blast intro: sess_le_trans sess_le_upsert sess_le_append)+
  have "client_ok (snd ?u) (SecretKey n) (length (b_sess b))"
    using client_ok_le [OF _ le(2), of "SecretKey n" "length (b_sess b)"] by (simp add: client_ok_def)
  moreover have "cm_Get cm k (fst ?u) =
      (if k = SecretKey n then Some (length (b_sess b)) else cm_Get cm k (mgr_map (b_clientSession b)))" for k
    by (simp add: session_upsert_def cmap_Upsert [OF assms(1)])
  ultimately show ?thesis
    using bridge_inv_sess [OF assms(2) le(1)]
    by (auto simp: add_client_def bridge_inv_def Let_def split: prod.split if_splits)
qed

lemma bridge_inv_check:
  assumes "bridge_inv cm b"
  shows "bridge_inv cm (bridge_check b)"
proof (cases "gc_items (b_gc b)")
  case Nil
  then show ?thesis using assms by (simp add: bridge_check_def gc_check_def bridge_inv_def)
next
  case (Cons kv r)
  obtain k v where kv: "kv = (k, v)" by (cases kv)
  obtain dead ss where cb: "bridge_gc_cb k v (gc_now (b_gc b)) (b_sess b) = (dead, ss)" by fastforce
  then have "sess_le (b_sess b) ss" using sess_le_check by (metis snd_conv)
  from bridge_inv_sess [OF assms this] show ?thesis
    using Cons assms by (auto simp: bridge_check_def gc_check_def kv cb bridge_inv_def)
qed

lemma bridge_inv_remove: "cmap_laws cm \<Longrightarrow> bridge_inv cm b \<Longrightarrow> bridge_inv cm (bridge_remove cm b)"
  by (auto simp: bridge_remove_def gc_remove_def bridge_inv_def cmap_Remove split: option.splits if_splits)

lemma bridge_inv_tick: "cmap_laws cm \<Longrightarrow> bridge_inv cm b \<Longrightarrow> bridge_inv cm (bridge_tick cm now b)"
  by (simp add: bridge_tick_def gc_tick_def bridge_inv_def cmap_Items_iff)

lemma bridge_inv_released:
  assumes "cmap_laws cm" "bridge_inv cm b"
  shows "bridge_inv cm (server_released cm h b)"
  using bridge_inv_sess [OF assms(2) sess_le_Close(1)]
  by (auto simp: server_released_def bridge_inv_def cmap_Remove [OF assms(1)] dest: in_remove1D)

lemma bind_attempt_Opened:
  "bind_attempt cm died e sk b = Opened c \<Longrightarrow>
     cm_Get cm sk (mgr_map (b_clientSession b)) = Some c \<and> \<not> sess_IsClosed (b_sess b) c"
  by (simp add: bind_attempt_def split: if_splits option.splits)

lemma bridge_inv_proxyStream:
  assumes "bridge_inv cm b" "p \<in> set (b_streams b)"
  shows "bridge_inv cm (proxyStream cm p died e b)"
proof -
  obtain i n where p: "p = (i, n)" by (cases p)

  have ok: "server_ok (b_sess b) i" "n \<le> max_retries" using assms p by (auto simp: bridge_inv_def)
  show ?thesis
  proof (cases "bind_attempt cm died e (s_key (b_sess b ! i)) b")
    case (Opened c)
    with assms(1) have "client_ok (b_sess b) (s_key (b_sess b ! i)) c"
      using bind_attempt_Opened [OF Opened] by (simp add: bridge_inv_def)
    then show ?thesis using assms(1) ok Opened
      by (auto simp: proxyStream_def p Let_def bridge_inv_def dest: in_remove1D)
  qed (use assms(1) ok in \<open>auto simp: proxyStream_def p Let_def bridge_inv_def dest: in_remove1D\<close>)
qed

lemma bridge_inv_handler:
  "cmap_laws cm \<Longrightarrow> bridge_inv cm b \<Longrightarrow> bridge_inv cm (snd (bridge_handler un cm a input ok b))"
  by (simp add: bridge_handler_def bridge_inv_add_server bridge_inv_add_client split: sum.split prod.split)

lemma bridge_inv_flags:
  "bridge_inv cm (b\<lparr>b_cancelled := y, b_channel := x, b_sess := ss\<rparr>) = bridge_inv cm (b\<lparr>b_sess := ss\<rparr>)"
  by (simp add: bridge_inv_def)

lemma bridge_inv_Stop: "bridge_inv cm b \<Longrightarrow> bridge_inv cm (bridge_Stop cm b)"
  using bridge_inv_sess [OF _ sess_le_trans [OF sess_le_Close(2) sess_le_Close(2)]]
  by (simp add: bridge_Stop_def bridge_inv_flags)

lemma bridge_inv_step:
  assumes "bridge_step calm un cm b b'" "cmap_laws cm" "bridge_inv cm b"
  shows "bridge_inv cm b'"
  using assms
proof (cases rule: bridge_step.cases)
  case (step_stream h)
  then show ?thesis using assms(3) by (cases h) (auto simp: accept_stream_def bridge_inv_def)
next
  case (step_unbound q)
  then show ?thesis using assms(3) by (auto simp: bridge_inv_def dest: in_remove1D)
next
  case (step_gone i)
  then show ?thesis using bridge_inv_sess [OF assms(3) sess_le_Close(1)] by simp
qed (simp_all add: bridge_inv_handler bridge_inv_released bridge_inv_proxyStream bridge_inv_tick
      bridge_inv_check bridge_inv_remove bridge_inv_Stop)

lemma bridge_reach_inv: "bridge_reach calm un cm b \<Longrightarrow> cmap_laws cm \<Longrightarrow> bridge_inv cm b"
  by (induction rule: bridge_reach.induct) (blast intro: bridge_inv_started bridge_inv_step)+

subsection \<open>Live clients are in the table\<close>

definition live_inv :: "('m, nat) cmap \<Rightarrow> 'm Bridge \<Rightarrow> bool" where
  "live_inv cm b \<longleftrightarrow>
     (\<forall>i < length (b_sess b). s_client (b_sess b ! i) \<and> \<not> s_closed (b_sess b ! i) \<longrightarrow>
        cm_Get cm (s_key (b_sess b ! i)) (mgr_map (b_clientSession b)) = Some i) \<and>
     (\<forall>k v i. (k, v) \<in> set (gc_items (b_gc b)) \<longrightarrow>
        cm_Get cm k (mgr_map (b_clientSession b)) = Some i \<longrightarrow> i = v) \<and>
     (\<forall>k i. gc_del (b_gc b) = Some k \<longrightarrow>
        cm_Get cm k (mgr_map (b_clientSession b)) = Some i \<longrightarrow> s_closed (b_sess b ! i))"

text \<open>Closing sessions, and whatever does not touch the client table, its collector and the client
  sessions, keeps the invariant.\<close>

definition sess_closing :: "session list \<Rightarrow> session list \<Rightarrow> bool" where
  "sess_closing ss ss' \<longleftrightarrow> length ss' = length ss \<and>
     (\<forall>i. s_client (ss' ! i) = s_client (ss ! i) \<and> s_key (ss' ! i) = s_key (ss ! i) \<and>
          (s_closed (ss ! i) \<longrightarrow> s_closed (ss' ! i)))"

lemma sess_closing_Close [simp]: "sess_closing ss (sess_Close i ss)"
  "sess_closing ss (fold (\<lambda>kv. sess_Close (snd kv)) kvs (fold (\<lambda>kv. sess_Close (snd kv)) kvs' ss))"
  by (auto simp: sess_closing_def)

lemma live_inv_closing:
  assumes "live_inv cm b" "sess_closing (b_sess b) (b_sess b')"
    and "b_clientSession b' = b_clientSession b" "b_gc b' = b_gc b"
  shows "live_inv cm b'"
  using assms(1,2) unfolding live_inv_def sess_closing_def assms(3,4) by metis

lemma live_inv_frame:
  "live_inv cm b \<Longrightarrow> b_sess b' = b_sess b \<Longrightarrow> b_clientSession b' = b_clientSession b \<Longrightarrow>
   b_gc b' = b_gc b \<Longrightarrow> live_inv cm b'"
  by (simp add: live_inv_def)

lemma live_inv_append:
  assumes "live_inv cm b" "bridge_inv cm b" "\<not> s_client s"
  shows "live_inv cm (b\<lparr>b_sess := b_sess b @ [s]\<rparr>)"
proof -
  have "cm_Get cm k (mgr_map (b_clientSession b)) = Some i \<Longrightarrow> i < length (b_sess b)" for k i
    using assms(2) by (auto simp: bridge_inv_def client_ok_def)
  then show ?thesis
    using assms(1,3) by (auto simp: live_inv_def nth_append less_Suc_eq)
qed

lemma live_inv_add_server:
  assumes "live_inv cm b" "bridge_inv cm b"
  shows "live_inv cm (add_server cm a n b)"
proof -
  let ?s = "\<lparr>s_client = False, s_key = SecretKey n, s_closed = False\<rparr>"
  have "live_inv cm (b\<lparr>b_sess := b_sess b @ [?s]\<rparr>)"
    using assms by (simp add: live_inv_append)
  then show ?thesis
    by (rule live_inv_closing)
      (auto simp: add_server_def session_upsert_def Let_def sess_closing_def split: option.split)
qed

lemma live_inv_add_client:
  assumes cm: "cmap_laws cm" and live: "live_inv cm b" and inv: "bridge_inv cm b"
    and fresh: "SecretKey n \<notin> gc_keys (b_gc b)"
  shows "live_inv cm (add_client cm n b)"
proof -
  let ?K = "SecretKey n" and ?T = "mgr_map (b_clientSession b)" and ?N = "length (b_sess b)"
  define ss where "ss = snd (session_upsert cm ?K ?N ?T
    (b_sess b @ [\<lparr>s_client = True, s_key = ?K, s_closed = False\<rparr>]))"
  have dom: "cm_Get cm k ?T = Some i \<Longrightarrow> i < ?N \<and> s_key (b_sess b ! i) = k" for k i
    using inv by (auto simp: bridge_inv_def client_ok_def)
  have new: "ss ! ?N = \<lparr>s_client = True, s_key = ?K, s_closed = False\<rparr>" "length ss = Suc ?N"
    by (auto simp: ss_def session_upsert_def sess_Close_def nth_append list_update_append1 dest!: dom split: option.split)
  have old: "s_client (ss ! i) = s_client (b_sess b ! i) \<and> s_key (ss ! i) = s_key (b_sess b ! i) \<and>
      (s_closed (ss ! i) \<longleftrightarrow> s_closed (b_sess b ! i) \<or> cm_Get cm ?K ?T = Some i)" if "i < ?N" for i
    using that by (auto simp: ss_def session_upsert_def nth_append split: option.split)
  have get: "cm_Get cm k (mgr_map (b_clientSession (add_client cm n b))) =
      (if k = ?K then Some ?N else cm_Get cm k ?T)" for k
    by (simp add: add_client_def session_upsert_def Let_def cmap_Upsert [OF cm])
  have rest: "b_sess (add_client cm n b) = ss" "b_gc (add_client cm n b) = b_gc b"
    by (simp_all add: add_client_def ss_def Let_def split: prod.split)
  show ?thesis
    unfolding live_inv_def get rest new(2)
  proof (intro conjI allI impI)
    fix i assume "i < Suc ?N" "s_client (ss ! i) \<and> \<not> s_closed (ss ! i)"
    then show "(if s_key (ss ! i) = ?K then Some ?N else cm_Get cm (s_key (ss ! i)) ?T) = Some i"
      using old [of i] live by (cases "i = ?N") (auto simp: new live_inv_def less_Suc_eq)
  next
    fix k v i assume "(k, v) \<in> set (gc_items (b_gc b))" "(if k = ?K then Some ?N else cm_Get cm k ?T) = Some i"
    moreover from this(1) have "k \<in> gc_keys (b_gc b)" unfolding gc_keys_def by force
    ultimately have "cm_Get cm k ?T = Some i" "(k, v) \<in> set (gc_items (b_gc b))"
      using fresh by (metis, simp)
    then show "i = v" using live unfolding live_inv_def by blast
  next
    fix k i assume "gc_del (b_gc b) = Some k" "(if k = ?K then Some ?N else cm_Get cm k ?T) = Some i"
    then show "s_closed (ss ! i)"
      using fresh live dom [of k i] old [of i] by (auto simp: live_inv_def gc_keys_def)
  qed
qed

lemma live_inv_handler:
  assumes "cmap_laws cm" "live_inv cm b" "bridge_inv cm b" "\<not> stale un input b"
  shows "live_inv cm (snd (bridge_handler un cm a input ok b))"
  using assms live_inv_add_client [OF assms(1-3)]
  by (auto simp: bridge_handler_def stale_def live_inv_add_server split: sum.splits)

lemma live_inv_check:
  assumes "live_inv cm b" "bridge_inv cm b"
  shows "live_inv cm (bridge_check b)"
proof (cases "gc_items (b_gc b)")
  case Nil
  then show ?thesis using assms by (simp add: bridge_check_def gc_check_def bridge_inv_def)
next
  case (Cons kv r)
  then show ?thesis
    using assms by (cases kv) (auto simp: bridge_check_def gc_check_def bridge_inv_def live_inv_def
        bridge_gc_cb_def sess_IsClosed_def)
qed

lemma live_inv_remove: "cmap_laws cm \<Longrightarrow> live_inv cm b \<Longrightarrow> live_inv cm (bridge_remove cm b)"
  by (auto simp: bridge_remove_def gc_remove_def live_inv_def cmap_Remove split: option.splits)

lemma live_inv_tick: "cmap_laws cm \<Longrightarrow> live_inv cm b \<Longrightarrow> live_inv cm (bridge_tick cm now b)"
  by (simp add: bridge_tick_def gc_tick_def live_inv_def cmap_Items_iff)

lemma live_inv_step:
  assumes "bridge_step True un cm b b'" "cmap_laws cm" "bridge_inv cm b" "live_inv cm b"
  shows "live_inv cm b'"
  using assms(1)
proof (cases rule: bridge_step.cases)
  case (step_attempt p died e)
  then show ?thesis
    using assms(4) by (auto simp: proxyStream_def Let_def live_inv_def split: attempt.split)
qed (use assms(2-4) in \<open>auto simp: live_inv_handler live_inv_check live_inv_remove live_inv_tick
      accept_stream_def server_released_def bridge_Stop_def
      intro: live_inv_frame [OF assms(4)] live_inv_closing [OF assms(4)]\<close>)

lemma bridge_reach_live:
  assumes "bridge_reach True un cm b" "cmap_laws cm"
  shows "live_inv cm b"
  using assms
proof (induction rule: bridge_reach.induct)
  case reach_started
  then show ?case by (simp add: live_inv_def bridge_started_def NewBridge_def gc_idle_def)
next
  case (reach_step b b')
  then show ?case by (blast intro: live_inv_step bridge_reach_inv)
qed

subsection \<open>Properties\<close>

text \<open>A message type for the examples: the bytes of the message are the secret key.\<close>

definition key_only :: "bytes \<Rightarrow> nego result" where
  "key_only d = Inr \<lparr>SecretKey = bytes_str d, NegoId = ''''\<rparr>"

lemma parse_key_only:
  "ParseNegotiateRequest key_only [1, 1, 1, 107] = Inr (\<lparr>nr_Types = TypesClient, nr_Version = 1,
     nr_Nego = \<lparr>SecretKey = ''k'', NegoId = ''''\<rparr>\<rparr>, [])"
  "ParseNegotiateRequest key_only [2, 1, 1, 107] = Inr (\<lparr>nr_Types = TypesServer, nr_Version = 1,
     nr_Nego = \<lparr>SecretKey = ''k'', NegoId = ''''\<rparr>\<rparr>, [])"
  "ParseNegotiateRequest key_only [0, 1, 1, 107] = Inr (\<lparr>nr_Types = 0, nr_Version = 1,
     nr_Nego = \<lparr>SecretKey = ''k'', NegoId = ''''\<rparr>\<rparr>, [])"
  by code_simp+

abbreviation example_bridge :: "(string, nat) alist Bridge" where
  "example_bridge \<equiv> bridge_started alist_cmap"

abbreviation with_client :: "(string, nat) alist Bridge \<Rightarrow> (string, nat) alist Bridge" where
  "with_client b \<equiv> add_client alist_cmap \<lparr>SecretKey = ''k'', NegoId = ''''\<rparr> b"

abbreviation with_server :: "(string, nat) alist Bridge \<Rightarrow> (string, nat) alist Bridge" where
  "with_server b \<equiv> add_server alist_cmap ''a:1'' \<lparr>SecretKey = ''k'', NegoId = ''''\<rparr> b"

lemma reach_with_client:
  assumes "bridge_reach calm key_only alist_cmap b" "b_channel b" "calm \<Longrightarrow> gc_keys (b_gc b) = {}"
  shows "bridge_reach calm key_only alist_cmap (with_client b)"
proof -
  have "snd (bridge_handler key_only alist_cmap ''a:1'' [1, 1, 1, 107] True b) = with_client b"
    by (simp add: bridge_handler_def parse_key_only TypesClient_def TypesServer_def)
  then show ?thesis
    using reach_step [OF assms(1) step_accept, of "[1, 1, 1, 107]" "''a:1''" True] assms(2,3)
    by (auto simp: stale_def parse_key_only)
qed

lemma reach_with_server:
  assumes "bridge_reach calm key_only alist_cmap b" "b_channel b"
  shows "bridge_reach calm key_only alist_cmap (with_server b)"
proof -
  have "snd (bridge_handler key_only alist_cmap ''a:1'' [2, 1, 1, 107] True b) = with_server b"
    by (simp add: bridge_handler_def parse_key_only TypesServer_def)
  then show ?thesis
    using reach_step [OF assms(1) step_accept, of "[2, 1, 1, 107]" "''a:1''" True] assms(2)
    by (auto simp: stale_def parse_key_only TypesClient_def TypesServer_def)
qed

lemmas bridge_eval = add_client_def add_server_def session_upsert_def bridge_started_def NewBridge_def
  mgr_New_def alist_cmap_def gc_idle_def lookup_update lookup_empty sess_Close_def



text \<open>As long as no client node registers while the collector is deciding on an older session
  of its key, every live client session is the one in the table under its key (so that there is
  one per key), an attempt of a waiting stream of a server node with that key binds the stream to
  it when the stream is alive and the session opens one, and \<open>Stop\<close> closes all client sessions.\<close>

theorem bridge_live_clients:
  assumes "cmap_laws cm" "bridge_reach True unmarshal cm b"
  shows "(\<forall>i < length (b_sess b). s_client (b_sess b ! i) \<and> \<not> s_closed (b_sess b ! i) \<longrightarrow>
      cm_Get cm (s_key (b_sess b ! i)) (mgr_map (b_clientSession b)) = Some i \<and>
      (\<forall>p \<in> set (b_streams b). s_key (b_sess b ! fst p) = s_key (b_sess b ! i) \<longrightarrow>
         (fst p, i) \<in> set (b_bound (proxyStream cm p False None b)))) \<and>
    (\<forall>i < length (b_sess b). s_client (b_sess b ! i) \<longrightarrow> s_closed (b_sess (bridge_Stop cm b) ! i))"
proof -
  have live: "i < length (b_sess b) \<Longrightarrow> s_client (b_sess b ! i) \<Longrightarrow> \<not> s_closed (b_sess b ! i) \<Longrightarrow>
      cm_Get cm (s_key (b_sess b ! i)) (mgr_map (b_clientSession b)) = Some i" for i
    using bridge_reach_live [OF assms(2,1)] by (simp add: live_inv_def)
  have "(fst p, i) \<in> set (b_bound (proxyStream cm p False None b))"
    if "i < length (b_sess b)" "s_client (b_sess b ! i)" "\<not> s_closed (b_sess b ! i)"
      "s_key (b_sess b ! fst p) = s_key (b_sess b ! i)" for p i
    using live [OF that(1-3)] that by (simp add: proxyStream_def bind_attempt_def sess_IsClosed_def)
  moreover have "s_closed (b_sess (bridge_Stop cm b) ! i)"
    if "i < length (b_sess b)" "s_client (b_sess b ! i)" for i
    using live [OF that] that cmap_Items_iff [OF assms(1)] by (force simp: bridge_Stop_def)
  ultimately show ?thesis using live by blast
qed

theorem bridge_live_clients_witness:
  "\<exists>b. bridge_reach True key_only alist_cmap b \<and>
     s_closed (b_sess b ! 0) \<and> \<not> s_closed (b_sess b ! 1) \<and>
     cm_Get alist_cmap ''k'' (mgr_map (b_clientSession b)) = Some 1 \<and>
     s_closed (b_sess (bridge_Stop alist_cmap b) ! 1)"
proof -
  let ?b = "with_client (with_client example_bridge)"
  have r: "bridge_reach True key_only alist_cmap ?b"
    by (intro reach_with_client reach_started) (simp_all add: bridge_eval gc_keys_def)
  moreover have "b_sess ?b = [\<lparr>s_client = True, s_key = ''k'', s_closed = True\<rparr>,
      \<lparr>s_client = True, s_key = ''k'', s_closed = False\<rparr>]"
    by (simp add: bridge_eval)
  ultimately show ?thesis
    using bridge_live_clients [OF alist_cmap_laws r] by (intro exI [of _ ?b]) auto
qed

text \<open>Without that restriction the collector can drop a live client: it took its snapshot
  before the client node reconnected, finds the old session of the snapshot closed, and removes
  the key, under which the new session is by then. The new session is open and no longer in the
  table, so that no stream is bound to it and \<open>Stop\<close> leaves it open. Likewise a connection whose
  node type is neither of the two gets its reply and is left open.\<close>

theorem bridge_anomalies:
  "(\<exists>b. bridge_reach False key_only alist_cmap b \<and>
      b_sess b ! 1 = \<lparr>s_client = True, s_key = ''k'', s_closed = False\<rparr> \<and>
      cm_Get alist_cmap ''k'' (mgr_map (b_clientSession b)) = None \<and>
      bind_attempt alist_cmap False None ''k'' b = Retry (ErrMsg ''client not exists'') \<and>
      b_sess (bridge_Stop alist_cmap b) ! 1 = \<lparr>s_client = True, s_key = ''k'', s_closed = False\<rparr>) \<and>
   bridge_handler key_only alist_cmap ''a:1'' [0, 1, 1, 107] True example_bridge =
     (([4, 1], False), example_bridge)"
proof -
  define b1 where "b1 = bridge_tick alist_cmap 5 (with_client example_bridge)"
  define b2 where "b2 = with_client b1"
  define b3 where "b3 = bridge_remove alist_cmap (bridge_check b2)"
  have "bridge_reach False key_only alist_cmap (with_client example_bridge)"
    by (intro reach_with_client reach_started) (simp_all add: bridge_eval)
  then have "bridge_reach False key_only alist_cmap b1"
    unfolding b1_def by (rule reach_step [OF _ step_tick]) (simp_all add: bridge_eval watches_def gc_busy_def)
  then have "bridge_reach False key_only alist_cmap b2"
    unfolding b2_def by (rule reach_with_client) (simp_all add: b1_def bridge_tick_def bridge_eval)
  then have "bridge_reach False key_only alist_cmap (bridge_check b2)"
    by (rule reach_step [OF _ step_check]) (simp add: b2_def b1_def bridge_tick_def gc_tick_def add_client_def session_upsert_def Let_def)
  then have r: "bridge_reach False key_only alist_cmap b3"
    unfolding b3_def by (rule reach_step [OF _ step_remove])
  have gc: "b_gc b2 = \<lparr>gc_now = 5, gc_items = [(''k'', 0)], gc_del = None\<rparr>"
    by (simp add: b2_def b1_def bridge_tick_def gc_tick_def bridge_eval update.rep_eq empty.rep_eq)
  have ss: "b_sess b2 = [\<lparr>s_client = True, s_key = ''k'', s_closed = True\<rparr>,
      \<lparr>s_client = True, s_key = ''k'', s_closed = False\<rparr>]"
    by (simp add: b2_def b1_def bridge_tick_def bridge_eval)
  have cb: "mgr_gcIterCb (b_clientSession b2) = Some bridge_gc_cb" "b_serverSession b2 = DAList.empty"
    "mgr_map (b_clientSession b2) = DAList.update ''k'' 1 (DAList.update ''k'' 0 DAList.empty)"
    by (simp_all add: b2_def b1_def bridge_tick_def bridge_eval)
  have check: "bridge_check b2 = b2\<lparr>b_gc := \<lparr>gc_now = 5, gc_items = [], gc_del = Some ''k''\<rparr>\<rparr>"
    by (simp add: bridge_check_def cb gc_check_def gc bridge_gc_cb_def sess_IsClosed_def ss sess_Close_def)
  have b3: "b_sess b3 = b_sess b2" "b_serverSession b3 = DAList.empty"
    "mgr_map (b_clientSession b3) = DAList.delete ''k'' (DAList.update ''k'' 1 (DAList.update ''k'' 0 DAList.empty))"
    by (simp_all add: b3_def check bridge_remove_def gc_remove_def cb alist_cmap_def)
  have "DAList.impl_of (mgr_map (b_clientSession b3)) = []"
    by (simp add: b3 delete.rep_eq update.rep_eq empty.rep_eq)
  moreover have "bridge_handler key_only alist_cmap ''a:1'' [0, 1, 1, 107] True example_bridge =
     (([4, 1], False), example_bridge)"
    by (simp add: bridge_handler_def parse_key_only TypesClient_def TypesServer_def SendReply_def
        RepTypesNotSupport_def through_Version_def)
  ultimately show ?thesis
    using r
    by (intro conjI exI [of _ b3])
      (simp_all add: b3 ss bind_attempt_def bridge_Stop_def alist_cmap_def empty.rep_eq lookup_delete)
qed

end
