(* ===== verification/Binding.thy ===== *)
theory Binding
  imports Go_Conn
begin

section \<open>core/binding and pkg/bpool: joining two connections\<close>

text \<open>
  \<open>Proxy\<close> starts two goroutines, one per direction, and returns when the first of them ends. A round
  of \<open>io.CopyBuffer\<close> reads once and writes what it got; end of file ends a direction without an
  error. The two directions are interleaved round by round in \<open>bind_step\<close>. The buffers come from a pool.
\<close>

subsection \<open>Buffers\<close>

text \<open>A free buffer is empty; what matters of it is its capacity.\<close>

record Buffer =
  buf_capacity :: nat
  buf_max :: nat
  freeList :: "nat list"

definition NewBuffer :: "nat \<Rightarrow> nat \<Rightarrow> Buffer" where
  "NewBuffer maxFreeSize cap = \<lparr>buf_capacity = cap, buf_max = maxFreeSize, freeList = []\<rparr>"

definition buf_Get :: "Buffer \<Rightarrow> nat \<times> Buffer" where
  "buf_Get sf = (case freeList sf of [] \<Rightarrow> (buf_capacity sf, sf) | b # bs \<Rightarrow> (b, sf\<lparr>freeList := bs\<rparr>))"

definition buf_Put :: "nat \<Rightarrow> Buffer \<Rightarrow> Buffer result" where
  "buf_Put b sf =
     (if b \<noteq> buf_capacity sf then Inl (Panic (PanicMsg ''invalid buffer capacity that's put into leaky buffer''))
      else if length (freeList sf) < buf_max sf then Inr (sf\<lparr>freeList := freeList sf @ [b]\<rparr>)
      else Inr sf)"

definition wf_buffer :: "Buffer \<Rightarrow> bool" where
  "wf_buffer sf \<longleftrightarrow> (\<forall>b \<in> set (freeList sf). b = buf_capacity sf) \<and> length (freeList sf) \<le> buf_max sf"

text \<open>In a pool that is used through its operations every buffer has the capacity of the pool, so that
  what was taken can always be given back.\<close>

lemma buffer_wf:
  "wf_buffer (NewBuffer m n)"
  "wf_buffer sf \<Longrightarrow> fst (buf_Get sf) = buf_capacity sf \<and> wf_buffer (snd (buf_Get sf)) \<and> buf_capacity (snd (buf_Get sf)) = buf_capacity sf"
  "wf_buffer sf \<Longrightarrow> buf_Put b sf = Inr sf' \<Longrightarrow> wf_buffer sf' \<and> buf_capacity sf' = buf_capacity sf"
  by (auto simp: wf_buffer_def NewBuffer_def buf_Get_def buf_Put_def split: list.splits if_splits)

lemma buffer_put_back: "wf_buffer sf \<Longrightarrow> buf_Get sf = (b, sf') \<Longrightarrow> is_ok (buf_Put b sf')"
  using buffer_wf(2) [of sf] by (auto simp: buf_Put_def)

subsection \<open>Copying\<close>

text \<open>The size of the buffers of the services, for copying and for reading datagrams.\<close>

definition BindingSize :: nat where "BindingSize = 4096"

text \<open>One round of \<open>io.CopyBuffer(dst, src, buf)\<close>: whether and how it ends the copy, and the two connections.\<close>

definition copy_round :: "nat \<Rightarrow> conn \<Rightarrow> conn \<Rightarrow> unit result option \<times> conn \<times> conn" where
  "copy_round n dst src =
     (case conn_Read n src of
        (Inl e, src) \<Rightarrow> (Some (if e = EOF then Inr () else Inl e), dst, src)
      | (Inr b, src) \<Rightarrow>
          if b = [] then (None, dst, src)
          else case conn_Write b dst of
                 (Inl e, dst) \<Rightarrow> (Some (Inl e), dst, src)
               | (Inr _, dst) \<Rightarrow> (None, dst, src))"

text \<open>The two connections, and how each direction ended: \<open>end1\<close> for the copy to \<open>rw1\<close>, \<open>end2\<close> for the copy to \<open>rw2\<close>.\<close>

record binding =
  rw1 :: conn
  rw2 :: conn
  end1 :: "unit result option"
  end2 :: "unit result option"

definition bind_start :: "conn \<Rightarrow> conn \<Rightarrow> binding" where
  "bind_start a b = \<lparr>rw1 = a, rw2 = b, end1 = None, end2 = None\<rparr>"

inductive bind_step :: "nat \<Rightarrow> binding \<Rightarrow> binding \<Rightarrow> bool" for n :: nat where
  to_rw1: "end1 s = None \<Longrightarrow> copy_round n (rw1 s) (rw2 s) = (e, a, b) \<Longrightarrow> bind_step n s (s\<lparr>rw1 := a, rw2 := b, end1 := e\<rparr>)"
| to_rw2: "end2 s = None \<Longrightarrow> copy_round n (rw2 s) (rw1 s) = (e, b, a) \<Longrightarrow> bind_step n s (s\<lparr>rw1 := a, rw2 := b, end2 := e\<rparr>)"

text \<open>\<open>Proxy\<close> can return once a direction has ended.\<close>

definition Proxy_returns :: "binding \<Rightarrow> bool" where
  "Proxy_returns s \<longleftrightarrow> end1 s \<noteq> None \<or> end2 s \<noteq> None"

text \<open>
  What a direction has done: \<open>t\<close> was taken from the source and written, in order; \<open>lost\<close> was read but not
  written, which happens at most once, with a write error that ended the copy.
\<close>

definition relayed :: "conn \<Rightarrow> conn \<Rightarrow> conn \<Rightarrow> conn \<Rightarrow> unit result option \<Rightarrow> bool" where
  "relayed src0 dst0 src dst e \<longleftrightarrow>
     (\<exists>t lost. concat (inbox src0) = t @ lost @ concat (inbox src) \<and> concat (outbox dst) = concat (outbox dst0) @ t \<and>
        (lost \<noteq> [] \<longrightarrow> (\<exists>err. e = Some (Inl err))) \<and> (e = Some (Inr ()) \<longrightarrow> inbox src = []))"

definition bound :: "conn \<Rightarrow> conn \<Rightarrow> binding \<Rightarrow> bool" where
  "bound a0 b0 s \<longleftrightarrow> relayed a0 b0 (rw1 s) (rw2 s) (end2 s) \<and> relayed b0 a0 (rw2 s) (rw1 s) (end1 s)"

lemma bound_start: "bound a b (bind_start a b)"
  by (auto simp: bound_def bind_start_def relayed_def)

lemma conn_Read_split:
  "conn_Read n c = (Inr b, c') \<Longrightarrow> concat (inbox c) = b @ concat (inbox c') \<and> outbox c' = outbox c"
  "conn_Read n c = (Inl e, c') \<Longrightarrow> c' = c \<and> e = EOF \<and> inbox c = []"
  by (auto simp: conn_Read_def split: list.splits)

lemma conn_Write_split:
  "conn_Write b c = (r, c') \<Longrightarrow> inbox c' = inbox c \<and> (is_ok r \<longrightarrow> outbox c' = outbox c @ [b]) \<and> (\<not> is_ok r \<longrightarrow> outbox c' = outbox c)"
  by (auto simp: conn_Write_def split: option.splits)

lemma copy_round_relayed:
  assumes "copy_round n dst src = (e, dst', src')" "relayed src0 dst0 src dst None"
  shows "relayed src0 dst0 src' dst' e \<and> inbox dst' = inbox dst \<and> outbox src' = outbox src"
proof (cases "conn_Read n src")
  case (Pair r s1)
  show ?thesis
  proof (cases r)
    case (Inl err)
    then show ?thesis using assms Pair conn_Read_split(2) [of n src err s1] by (auto simp: copy_round_def relayed_def)
  next
    case (Inr b)
    note rd = conn_Read_split(1) [OF Pair [unfolded Inr]]
    obtain w d1 where w: "conn_Write b dst = (w, d1)" by fastforce
    note wr = conn_Write_split [OF w]
    from assms(2) obtain t where t: "concat (inbox src0) = t @ concat (inbox src)" "concat (outbox dst) = concat (outbox dst0) @ t"
      by (auto simp: relayed_def)
    consider "b = []" | err where "b \<noteq> []" "w = Inl err" | u where "b \<noteq> []" "w = Inr u" by (cases w) auto
    then show ?thesis
    proof cases
      case 1
      then have "dst' = dst" "src' = s1" "e = None" using assms(1) Pair Inr by (simp_all add: copy_round_def)
      then show ?thesis using rd t 1 unfolding relayed_def by auto
    next
      case 2
      then have o: "dst' = d1" "src' = s1" "e = Some (Inl err)" using assms(1) Pair Inr w by (simp_all add: copy_round_def)
      then show ?thesis using rd wr t 2 unfolding relayed_def o by (intro conjI exI [of _ t] exI [of _ b]) auto
    next
      case 3
      then have o: "dst' = d1" "src' = s1" "e = None" using assms(1) Pair \<open>r = Inr b\<close> w by (simp_all add: copy_round_def)
      then show ?thesis using rd wr t 3 unfolding relayed_def o by (intro conjI exI [of _ "t @ b"] exI [of _ "[]"]) auto
    qed
  qed
qed

lemma relayed_frame:
  assumes "relayed src0 dst0 src dst e" "inbox src' = inbox src" "outbox dst' = outbox dst"
  shows "relayed src0 dst0 src' dst' e"
  using assms by (simp add: relayed_def)

lemma bind_step_bound: "bind_step n s s' \<Longrightarrow> bound a0 b0 s \<Longrightarrow> bound a0 b0 s'"
proof (induction rule: bind_step.induct)
  case (to_rw1 s e a b)
  then show ?case using copy_round_relayed [OF to_rw1(2), of b0 a0] by (auto simp: bound_def elim: relayed_frame)
next
  case (to_rw2 s e b a)
  then show ?case using copy_round_relayed [OF to_rw2(2), of a0 b0] by (auto simp: bound_def elim: relayed_frame)
qed

end
