(* ===== verification/Udp_Frames.thy ===== *)
theory Udp_Frames
  imports Binding Captain
begin

section \<open>Datagrams over streams\<close>

text \<open>
  The UDP proxy, the TCP proxy and the two nodes of the tunnel carry datagrams over a stream in the
  same way: a datagram is written as a \<open>captain.StreamDatagram\<close> that holds an address, header and
  data in one write, and the other side reads in a loop until an error. \<open>stream_frame\<close> is the
  writer's side for a textual address, \<open>read_loop\<close> the reader's side on the bytes of a stream.
\<close>


definition stream_frame :: "string \<Rightarrow> bytes \<Rightarrow> bytes result" where
  "stream_frame srcAddr data =
     bindR (ParseAddrSpec srcAddr) (\<lambda>as.
     bindR (StreamDatagram_Header \<lparr>sReserved = 0, sAddr = as, sData = data\<rparr>) (\<lambda>header.
       Inr (header @ data)))"

text \<open>The text of an error, as \<open>Error()\<close> gives it.\<close>

definition err_text :: "error \<Rightarrow> string" where
  "err_text e = (case e of EOF \<Rightarrow> ''EOF'' | ErrUnexpectedEOF \<Rightarrow> ''unexpected EOF'' | ErrMsg s \<Rightarrow> s | Panic p \<Rightarrow> '''')"

text \<open>
  The loops go on after an error whose text contains \<open>n != int(\<close>. No error of
  \<open>ParseStreamDatagram\<close> does, so that the first error ends the loop.
\<close>

lemma ReadFull_err: "ReadFull n r = Inl e \<Longrightarrow> e = EOF \<or> e = ErrUnexpectedEOF"
  by (auto simp: ReadFull_def split: if_splits)

lemma bindP_err:
  assumes "bindP p f r = Inl e"
  obtains "p r = Inl e" | x r' where "p r = Inr (x, r')" "f x r' = Inl e"
  using assms by (auto simp: bindP_def bindR_eq_Inl)

lemma stream_addr_err: "stream_addr t r = Inl e \<Longrightarrow> e \<in> {EOF, ErrUnexpectedEOF, ErrUnrecognizedAddrType}"
  by (auto simp: stream_addr_def Let_def split: if_splits elim!: bindP_err dest: ReadFull_err)

lemma parse_datalen_loop_err:
  "parse_datalen_loop i len r = Inl e \<Longrightarrow> e \<in> {EOF, ErrUnexpectedEOF, ErrMsg ''invalid data length''}"
proof (induction i len r rule: parse_datalen_loop.induct)
  case (1 i len r)
  then show ?case
    using ReadFull_err [of 1 r e]
    by (subst (asm) (2) parse_datalen_loop.simps) (auto simp: Let_def split: sum.splits if_splits)
qed

lemma ParseStreamDatagram_err:
  assumes "ParseStreamDatagram r = Inl e"
  shows "e \<in> {EOF, ErrUnexpectedEOF, ErrUnrecognizedAddrType, ErrMsg ''invalid data length''}"
  using assms unfolding ParseStreamDatagram_def
  by (auto elim!: bindP_err dest: ReadFull_err stream_addr_err parse_datalen_loop_err simp: ParseDataLen_def)

lemma no_continue: "ParseStreamDatagram r = Inl e \<Longrightarrow> \<not> str_contains (err_text e) ''n != int(''"
  using ParseStreamDatagram_err [of r e]
  by (auto simp: err_text_def ErrUnrecognizedAddrType_def str_contains_def has_prefix_def)

subsection \<open>The reader's loop ends\<close>

lemma ReadFull_rest: "ReadFull n r = Inr (x, r') \<Longrightarrow> length r' + n = length r"
  by (auto simp: ReadFull_def split: if_splits)

lemma stream_addr_rest: "stream_addr t r = Inr (x, r') \<Longrightarrow> length r' \<le> length r"
  by (auto simp: stream_addr_def Let_def bindP_eq_Inr split: if_splits dest!: ReadFull_rest)

lemma ParseStreamDatagram_rest:
  assumes "ParseStreamDatagram r = Inr (da, r')"
  shows "length r' < length r"
  using assms unfolding ParseStreamDatagram_def
  by (auto simp: bindP_eq_Inr dest!: ReadFull_rest stream_addr_rest ParseDataLen_bounds)

text \<open>The datagrams a loop reads from a stream that holds these bytes and then ends, and the error
  it ends with. Every datagram takes bytes from the stream.\<close>

function read_loop :: "bytes \<Rightarrow> Datagram list \<times> error" where
  "read_loop r =
     (case ParseStreamDatagram r of
        Inl err \<Rightarrow> ([], err)
      | Inr (da, r') \<Rightarrow> (let (das, err) = read_loop r' in (da # das, err)))"
  by pat_completeness auto
termination
  by (relation "measure length") (auto dest: ParseStreamDatagram_rest)

declare read_loop.simps [simp del]

subsection \<open>Frames are read back\<close>

lemma stream_frame_Bytes:
  assumes "stream_frame s d = Inr b" "ParseAddrSpec s = Inr as"
  shows "StreamDatagram_Bytes \<lparr>sReserved = 0, sAddr = as, sData = d\<rparr> = Inr b"
  using assms
  by (auto simp: stream_frame_def StreamDatagram_Header_def StreamDatagram_Bytes_def StreamDatagram_values_def
      bindR_eq_Inr split: option.splits)

lemma frame_decode:
  assumes "stream_frame s d = Inr b" "length d \<le> max_data" "ParseAddrSpec s = Inr as" "wf_addr as"
  shows "ParseStreamDatagram (b @ r) = Inr (\<lparr>Reserved = 0, Addr = as, Data = d\<rparr>, r)"
proof -
  let ?sd = "\<lparr>sReserved = 0, sAddr = as, sData = d\<rparr> :: StreamDatagram"
  have "wf_stream_datagram ?sd" using assms(2,4) by (simp add: wf_stream_datagram_def)
  from ParseStreamDatagram_Bytes [OF this stream_frame_Bytes [OF assms(1,3)]] show ?thesis
    using norm_ParseAddrSpec [OF assms(3)] by (simp add: datagram_of_stream_def)
qed

lemma frames_decode:
  assumes "\<forall>b \<in> set bs. \<exists>d. P d \<and> length d \<le> 2048 \<and> stream_frame s d = Inr b" "ParseAddrSpec s = Inr as" "wf_addr as"
  shows "\<exists>ds. length ds = length bs \<and> (\<forall>d \<in> set ds. P d) \<and>
    (\<forall>rest. parse_n (length ds) ParseStreamDatagram (concat bs @ rest) =
       Inr (map (\<lambda>d. \<lparr>Reserved = 0, Addr = as, Data = d\<rparr>) ds, rest))"
  using assms(1)
proof (induction bs)
  case (Cons b bs)
  then obtain ds where ds: "length ds = length bs" "\<forall>d \<in> set ds. P d"
    "\<And>rest. parse_n (length ds) ParseStreamDatagram (concat bs @ rest) =
       Inr (map (\<lambda>d. \<lparr>Reserved = 0, Addr = as, Data = d\<rparr>) ds, rest)" by auto
  from Cons.prems obtain d where d: "P d" "length d \<le> 2048" "stream_frame s d = Inr b" by auto
  have "ParseStreamDatagram (b @ r) = Inr (\<lparr>Reserved = 0, Addr = as, Data = d\<rparr>, r)" for r
    using frame_decode [OF d(3) _ assms(2,3)] d(2) by (simp add: max_data_def)
  then show ?case using ds d(1) by (intro exI [of _ "d # ds"]) (simp add: bindP_def)
qed simp

lemma read_loop_parse_n:
  assumes "parse_n n ParseStreamDatagram r = Inr (das, r')"
  shows "read_loop r = (das @ fst (read_loop r'), snd (read_loop r'))"
  using assms
proof (induction n arbitrary: r das)
  case (Suc n)
  then obtain da r1 das' where p: "ParseStreamDatagram r = Inr (da, r1)"
    "parse_n n ParseStreamDatagram r1 = Inr (das', r')" "das = da # das'"
    by (cases "ParseStreamDatagram r"; cases "parse_n n ParseStreamDatagram (snd (projr (ParseStreamDatagram r)))") auto
  show ?case using Suc.IH [OF p(2)] by (subst read_loop.simps) (simp add: p split: prod.split)
qed simp

lemma read_loop_end [simp]: "read_loop [] = ([], EOF)"
  by (subst read_loop.simps) (simp add: ParseStreamDatagram_def bindP_Inl ReadFull_def)

subsection \<open>A stream that is cut short\<close>

text \<open>A parser whose success does not depend on what follows.\<close>

definition extends :: "'a parser \<Rightarrow> bool" where
  "extends p \<longleftrightarrow> (\<forall>r x r' s. p r = Inr (x, r') \<longrightarrow> p (r @ s) = Inr (x, r' @ s))"

lemma extendsD: "extends p \<Longrightarrow> p r = Inr (x, r') \<Longrightarrow> p (r @ s) = Inr (x, r' @ s)"
  by (simp add: extends_def)

lemma extends_basic [simp]: "extends (ReadFull n)" "extends (retP x)" "extends (failP e)"
  by (auto simp: extends_def ReadFull_def retP_def failP_def split: if_splits)

lemma extends_bindP: "extends p \<Longrightarrow> (\<And>x. extends (f x)) \<Longrightarrow> extends (bindP p f)"
  unfolding extends_def bindP_eq_Inr by blast

lemma extends_datalen: "parse_datalen_loop i len r = Inr (n, r') \<Longrightarrow> parse_datalen_loop i len (r @ s) = Inr (n, r' @ s)"
proof (induction i len r rule: parse_datalen_loop.induct)
  case (1 i len r)
  from 1(2) obtain b r1 where b: "ReadFull 1 r = Inr (b, r1)"
    by (subst (asm) parse_datalen_loop.simps) (auto split: sum.splits)
  have b': "ReadFull 1 (r @ s) = Inr (b, r1 @ s)" by (rule extendsD [OF extends_basic(1) b])
  show ?case
    using 1(2) 1(1) [OF b refl refl refl refl]
    by (subst parse_datalen_loop.simps, subst (asm) parse_datalen_loop.simps) (auto simp: b [simplified] b' [simplified] Let_def split: if_splits)
qed

lemma extends_ParseStreamDatagram: "extends ParseStreamDatagram"
proof -
  have "extends (stream_addr t)" for t
    unfolding stream_addr_def Let_def by (auto intro!: extends_bindP)
  moreover have "extends ParseDataLen"
    unfolding extends_def ParseDataLen_def using extends_datalen by blast
  ultimately show ?thesis
    unfolding ParseStreamDatagram_def by (intro extends_bindP) auto
qed

lemma read_loop_Inr: "ParseStreamDatagram r = Inr (da, r') \<Longrightarrow> read_loop r = (da # fst (read_loop r'), snd (read_loop r'))"
  by (subst read_loop.simps) (simp split: prod.split)

lemma read_loop_prefix: "\<exists>more. fst (read_loop (r @ s)) = fst (read_loop r) @ more"
proof (induction r rule: read_loop.induct)
  case (1 r)
  show ?case
  proof (cases "ParseStreamDatagram r")
    case (Inl e)
    then show ?thesis by (subst (2) read_loop.simps) simp
  next
    case (Inr q)
    obtain da r' where q: "ParseStreamDatagram r = Inr (da, r')" using Inr by (cases q) auto
    show ?thesis
      using 1 [OF Inr] q Inr read_loop_Inr [OF q] read_loop_Inr [OF extendsD [OF extends_ParseStreamDatagram q], of s]
      by auto
  qed
qed

lemma stream_addr_takes: "stream_addr t r = Inr (x, r') \<Longrightarrow> length r' + 3 \<le> length r"
  by (auto simp: stream_addr_def Let_def bindP_eq_Inr split: if_splits dest!: ReadFull_rest)

lemma ParseStreamDatagram_takes:
  assumes "ParseStreamDatagram r = Inr (da, r')"
  shows "length r' + 6 \<le> length r"
proof -
  have "ds \<noteq> [] \<Longrightarrow> 1 \<le> length ds" for ds :: bytes by (cases ds) auto
  then show ?thesis
    using assms unfolding ParseStreamDatagram_def
    by (auto simp: bindP_eq_Inr dest!: ReadFull_rest stream_addr_takes ParseDataLen_bounds) fastforce
qed

lemma read_loop_err: "\<exists>r'. ParseStreamDatagram r' = Inl (snd (read_loop r))"
proof (induction r rule: read_loop.induct)
  case (1 r)
  show ?case
  proof (cases "ParseStreamDatagram r")
    case (Inl e)
    then show ?thesis by (subst read_loop.simps) auto
  next
    case (Inr q)
    then show ?thesis using 1 [OF Inr] by (cases q) (simp add: read_loop_Inr)
  qed
qed

lemma read_loop_length: "6 * length (fst (read_loop r)) \<le> length r"
proof (induction r rule: read_loop.induct)
  case (1 r)
  show ?case
  proof (cases "ParseStreamDatagram r")
    case (Inl e)
    then show ?thesis by (subst read_loop.simps) simp
  next
    case (Inr q)
    obtain da r' where q: "q = (da, r')" by (cases q)
    then show ?thesis
      using 1 [OF Inr] ParseStreamDatagram_takes [of r da r'] Inr by (simp add: read_loop_Inr)
  qed
qed

subsection \<open>Properties\<close>

text \<open>C40. The loops that read datagrams from a stream end on every input: after at most one datagram
  for every six bytes an error of the parser stops them, one of four, none of which the loops
  would skip. From a stream that is cut short they read the first of the datagrams they would have
  read from the whole.\<close>

theorem read_loop_ends:
  "6 * length (fst (read_loop r)) \<le> length r \<and>
   snd (read_loop r) \<in> {EOF, ErrUnexpectedEOF, ErrUnrecognizedAddrType, ErrMsg ''invalid data length''} \<and>
   \<not> str_contains (err_text (snd (read_loop r))) ''n != int('' \<and>
   (\<exists>later. fst (read_loop (r @ s)) = fst (read_loop r) @ later)"
  using read_loop_length read_loop_err [of r] ParseStreamDatagram_err no_continue read_loop_prefix by metis

end
