(* ===== verification/Udp_Service.thy ===== *)
theory Udp_Service
  imports Udp_Frames Conn_Manager
begin

section \<open>services/udp: the UDP proxy\<close>

text \<open>
  The service receives datagrams on a local socket and keeps one connection to the parent per
  source address, in a managed table. Over a stream parent every datagram is framed as a
  \<open>captain.StreamDatagram\<close> with the source's address; over a UDP parent it is sent as it is. A
  goroutine per connection carries the answers back to the source; it removes the source's address
  from the table when it ends, and the table's collector does so for a connection that was idle
  for too long.

  A connection item is an index into \<open>u_items\<close>; its \<open>ci_out\<close> is what was written on the parent's
  connection, one entry per call of \<open>Write\<close>, and \<open>ci_in\<close> what the parent has sent and was not read
  yet. Goroutines are part of the state: a datagram between \<open>single.Do\<close> and its \<open>Write\<close>
  (\<open>u_pending\<close>), the readers of the connections (\<open>u_readers\<close>) and the collector (\<open>u_gc\<close>). The body
  of \<open>single.Do\<close> runs once at a time for a key; nobody else adds an entry, so that it is one step.
  Dialling and the outcome of reads and writes are choices of the environment. \<open>u_recv\<close>, \<open>u_local\<close>
  and \<open>ci_replies\<close> record the traffic: what was received from the sources, what was sent to them,
  and the payloads read from the parent.
\<close>

record connItem =
  ci_srcAddr :: string
  ci_lastActiveTime :: int
  ci_closed :: bool
  ci_out :: "bytes list"
  ci_in :: bytes
  ci_replies :: "bytes list"

type_synonym items = "connItem list"


definition target_Close :: "nat \<Rightarrow> items \<Rightarrow> items" where
  "target_Close i = upd_at i (\<lambda>c. c\<lparr>ci_closed := True\<rparr>)"

text \<open>The collector's call-back.\<close>

definition udp_gc_cb :: "int \<Rightarrow> (nat, items) gc_cb" where
  "udp_gc_cb udpIdleTime key v now cs =
     (if now - ci_lastActiveTime (cs ! v) > udpIdleTime then (True, target_Close v cs) else (False, cs))"

record 'm UDP =
  u_ParentType :: string
  u_conns :: "('m, nat, items) Manager"
  u_udpIdleTime :: int
  u_open :: bool
  u_cancelled :: bool
  u_items :: items
  u_readers :: "nat list"
  u_pending :: "(nat \<times> bytes) list"
  u_gc :: "nat collector"
  u_recv :: "(string \<times> bytes) list"
  u_local :: "(string \<times> bytes) list"

definition defaultUDPIdleTime :: int where "defaultUDPIdleTime = 10"

definition WithUDPIdleTime :: "int \<Rightarrow> int \<Rightarrow> int" where
  "WithUDPIdleTime sec idle = (if sec > 0 then sec else idle)"

text \<open>\<open>New\<close> with the values given to \<open>WithUDPIdleTime\<close> options, in their order.\<close>

definition udp_New :: "('m, nat) cmap \<Rightarrow> string \<Rightarrow> int list \<Rightarrow> 'm UDP" where
  "udp_New cm parentType opts =
     (let idle = fold WithUDPIdleTime opts defaultUDPIdleTime
      in \<lparr>u_ParentType = parentType, u_conns = mgr_New cm 1000000000 (Some (udp_gc_cb idle)),
          u_udpIdleTime = idle, u_open = False, u_cancelled = False, u_items = [], u_readers = [],
          u_pending = [], u_gc = gc_idle, u_recv = [], u_local = []\<rparr>)"

definition udp_started :: "('m, nat) cmap \<Rightarrow> string \<Rightarrow> int list \<Rightarrow> 'm UDP" where
  "udp_started cm parentType opts = (udp_New cm parentType opts)\<lparr>u_open := True\<rparr>"

subsection \<open>Operations\<close>

text \<open>The part the two directions of \<open>single.Do\<close> share: a new item in the table and its reader.\<close>

definition add_item :: "('m, nat) cmap \<Rightarrow> int \<Rightarrow> string \<Rightarrow> 'm UDP \<Rightarrow> 'm UDP" where
  "add_item cm now srcAddr u =
     (let i = length (u_items u)
      in u\<lparr>u_items := u_items u @ [\<lparr>ci_srcAddr = srcAddr, ci_lastActiveTime = now, ci_closed = False,
                                    ci_out = [], ci_in = [], ci_replies = []\<rparr>],
           u_conns := (u_conns u)\<lparr>mgr_map := cm_Set cm srcAddr i (mgr_map (u_conns u))\<rparr>,
           u_readers := i # u_readers u\<rparr>)"

definition stream_do :: "('m, nat) cmap \<Rightarrow> bool \<Rightarrow> int \<Rightarrow> string \<Rightarrow> 'm UDP \<Rightarrow> nat option \<times> 'm UDP" where
  "stream_do cm dial_ok now srcAddr u =
     (case cm_Get cm srcAddr (mgr_map (u_conns u)) of
        Some v \<Rightarrow> (Some v, u)
      | None \<Rightarrow> if \<not> dial_ok then (None, u) else (Some (length (u_items u)), add_item cm now srcAddr u))"

definition udp_do :: "('m, nat) cmap \<Rightarrow> bool \<Rightarrow> bool \<Rightarrow> int \<Rightarrow> string \<Rightarrow> 'm UDP \<Rightarrow> nat option \<times> 'm UDP" where
  "udp_do cm resolve_ok dial_ok now srcAddr u =
     (case cm_Get cm srcAddr (mgr_map (u_conns u)) of
        Some v \<Rightarrow> (Some v, u)
      | None \<Rightarrow>
          if \<not> resolve_ok then (None, u)
          else if \<not> dial_ok then (None, u)
          else (Some (length (u_items u)), add_item cm now srcAddr u))"

text \<open>The loop of \<open>Start\<close> reads at most 2048 bytes of a datagram and hands it to \<open>handle\<close>, which ends
  with the item the datagram goes to, if any.\<close>

definition udp_handle :: "('m, nat) cmap \<Rightarrow> bool \<Rightarrow> bool \<Rightarrow> int \<Rightarrow> string \<Rightarrow> bytes \<Rightarrow> 'm UDP \<Rightarrow> 'm UDP" where
  "udp_handle cm resolve_ok dial_ok now srcAddr packet u =
     (let data = take 2048 packet; u0 = u\<lparr>u_recv := (srcAddr, data) # u_recv u\<rparr>;
          r = (if u_ParentType u \<in> {''tcp'', ''tls'', ''stcp'', ''kcp''} then stream_do cm dial_ok now srcAddr u0
               else if u_ParentType u = ''udp'' then udp_do cm resolve_ok dial_ok now srcAddr u0
               else (None, u0))
      in case r of
           (None, u') \<Rightarrow> u'
         | (Some i, u') \<Rightarrow> u'\<lparr>u_pending := (i, data) # u_pending u'\<rparr>)"

text \<open>\<open>Write\<close> on the parent's connection writes nothing on a closed one. On an open one it writes all
  bytes (\<open>None\<close>), or fails after some number of them.\<close>

definition target_Write :: "nat option \<Rightarrow> bytes \<Rightarrow> connItem \<Rightarrow> connItem" where
  "target_Write fails b c =
     (if ci_closed c then c
      else case fails of
             None \<Rightarrow> c\<lparr>ci_out := ci_out c @ [b]\<rparr>
           | Some n \<Rightarrow> if n = 0 then c else c\<lparr>ci_out := ci_out c @ [take n b]\<rparr>)"

definition stream_forward :: "nat option \<Rightarrow> int \<Rightarrow> bytes \<Rightarrow> connItem \<Rightarrow> connItem" where
  "stream_forward fails now data c =
     (let c' = c\<lparr>ci_lastActiveTime := now\<rparr>
      in case stream_frame (ci_srcAddr c) data of Inl err \<Rightarrow> c' | Inr b \<Rightarrow> target_Write fails b c')"

definition udp_forward :: "nat option \<Rightarrow> int \<Rightarrow> bytes \<Rightarrow> connItem \<Rightarrow> connItem" where
  "udp_forward fails now data c = target_Write fails data (c\<lparr>ci_lastActiveTime := now\<rparr>)"

definition forward :: "nat option \<Rightarrow> int \<Rightarrow> nat \<times> bytes \<Rightarrow> 'm UDP \<Rightarrow> 'm UDP" where
  "forward fails now p u =
     u\<lparr>u_pending := remove1 p (u_pending u),
       u_items := upd_at (fst p)
         (if u_ParentType u = ''udp'' then udp_forward fails now (snd p) else stream_forward fails now (snd p))
         (u_items u)\<rparr>"

text \<open>The deferred clean-up of a reader.\<close>

definition reader_released :: "('m, nat) cmap \<Rightarrow> nat \<Rightarrow> 'm UDP \<Rightarrow> 'm UDP" where
  "reader_released cm i u =
     u\<lparr>u_conns := (u_conns u)\<lparr>mgr_map := cm_Remove cm (ci_srcAddr (u_items u ! i)) (mgr_map (u_conns u))\<rparr>,
       u_items := target_Close i (u_items u), u_readers := remove1 i (u_readers u)\<rparr>"

text \<open>An answer for the source: \<open>WriteToUDP\<close> on the local socket.\<close>

definition answered :: "int \<Rightarrow> bool \<Rightarrow> nat \<Rightarrow> bytes \<Rightarrow> bytes \<Rightarrow> 'm UDP \<Rightarrow> 'm UDP" where
  "answered now write_ok i data rest u =
     u\<lparr>u_items := upd_at i (\<lambda>c. c\<lparr>ci_lastActiveTime := now, ci_in := rest, ci_replies := data # ci_replies c\<rparr>) (u_items u),
       u_local := (if write_ok then (ci_srcAddr (u_items u ! i), data) # u_local u else u_local u)\<rparr>"

text \<open>One round of the loop that reads from a stream parent, on the result of
  \<open>ParseStreamDatagram\<close>.\<close>

definition stream_reader :: "('m, nat) cmap \<Rightarrow> int \<Rightarrow> bool \<Rightarrow> nat \<Rightarrow> (Datagram \<times> bytes) result \<Rightarrow> 'm UDP \<Rightarrow> 'm UDP" where
  "stream_reader cm now write_ok i r u =
     (case r of
        Inl err \<Rightarrow> if str_contains (err_text err) ''n != int('' then u else reader_released cm i u
      | Inr (da, rest) \<Rightarrow> answered now write_ok i (Data da) rest u)"

text \<open>One round of the loop that reads from a UDP parent, on the result of \<open>Read\<close> with a buffer of
  \<open>BindingSize\<close> bytes.\<close>

definition udp_reader :: "('m, nat) cmap \<Rightarrow> int \<Rightarrow> bool \<Rightarrow> nat \<Rightarrow> bytes result \<Rightarrow> 'm UDP \<Rightarrow> 'm UDP" where
  "udp_reader cm now write_ok i r u =
     (case r of
        Inl err \<Rightarrow> reader_released cm i u
      | Inr packet \<Rightarrow>
          (let u' = answered now write_ok i (take BindingSize packet) [] u
           in if write_ok then u' else reader_released cm i u'))"

definition udp_Stop :: "('m, nat) cmap \<Rightarrow> 'm UDP \<Rightarrow> 'm UDP" where
  "udp_Stop cm u =
     u\<lparr>u_cancelled := True, u_open := False,
       u_items := fold (\<lambda>kv. target_Close (snd kv)) (cm_Items cm (mgr_map (u_conns u))) (u_items u)\<rparr>"

text \<open>The collector's moments on the state of the service.\<close>

definition udp_tick :: "('m, nat) cmap \<Rightarrow> int \<Rightarrow> 'm UDP \<Rightarrow> 'm UDP" where
  "udp_tick cm now u = u\<lparr>u_gc := gc_tick cm now (mgr_map (u_conns u))\<rparr>"

definition udp_check :: "'m UDP \<Rightarrow> 'm UDP" where
  "udp_check u =
     (case mgr_gcIterCb (u_conns u) of
        None \<Rightarrow> u
      | Some cb \<Rightarrow> (let (g, cs) = gc_check cb (u_gc u) (u_items u) in u\<lparr>u_gc := g, u_items := cs\<rparr>))"

definition udp_remove :: "('m, nat) cmap \<Rightarrow> 'm UDP \<Rightarrow> 'm UDP" where
  "udp_remove cm u =
     (let (g, m) = gc_remove cm (u_gc u) (mgr_map (u_conns u))
      in u\<lparr>u_gc := g, u_conns := (u_conns u)\<lparr>mgr_map := m\<rparr>\<rparr>)"

subsection \<open>Interleaving\<close>

text \<open>With the flag \<open>whole\<close> no \<open>Write\<close> on a parent's connection fails in the middle.\<close>

inductive udp_step :: "bool \<Rightarrow> ('m, nat) cmap \<Rightarrow> 'm UDP \<Rightarrow> 'm UDP \<Rightarrow> bool"
  for whole :: bool and cm :: "('m, nat) cmap" where
  udp_recv: "u_open u \<Longrightarrow> udp_step whole cm u (udp_handle cm resolve_ok dial_ok now srcAddr packet u)"
| udp_write: "p \<in> set (u_pending u) \<Longrightarrow> \<not> (whole \<and> fails \<noteq> None \<and> fails \<noteq> Some 0) \<Longrightarrow>
    udp_step whole cm u (forward fails now p u)"
| udp_arrive: "udp_step whole cm u (u\<lparr>u_items := upd_at i (\<lambda>c. c\<lparr>ci_in := ci_in c @ bs\<rparr>) (u_items u)\<rparr>)"
| udp_read_stream: "i \<in> set (u_readers u) \<Longrightarrow> u_ParentType u \<noteq> ''udp'' \<Longrightarrow>
    ParseStreamDatagram (ci_in (u_items u ! i)) = Inr r \<Longrightarrow>
    udp_step whole cm u (stream_reader cm now write_ok i (Inr r) u)"
| udp_read_fails: "i \<in> set (u_readers u) \<Longrightarrow> u_ParentType u \<noteq> ''udp'' \<Longrightarrow>
    udp_step whole cm u (stream_reader cm now write_ok i (Inl err) u)"
| udp_read_udp: "i \<in> set (u_readers u) \<Longrightarrow> u_ParentType u = ''udp'' \<Longrightarrow>
    udp_step whole cm u (udp_reader cm now write_ok i r u)"
| udp_ticks: "watches (u_conns u) \<Longrightarrow> \<not> gc_busy (u_gc u) \<Longrightarrow> udp_step whole cm u (udp_tick cm now u)"
| udp_checks: "gc_del (u_gc u) = None \<Longrightarrow> udp_step whole cm u (udp_check u)"
| udp_removes: "udp_step whole cm u (udp_remove cm u)"
| udp_stops: "udp_step whole cm u (udp_Stop cm u)"

inductive udp_reach :: "bool \<Rightarrow> ('m, nat) cmap \<Rightarrow> 'm UDP \<Rightarrow> bool"
  for whole :: bool and cm :: "('m, nat) cmap" where
  udp_reach_started: "udp_reach whole cm (udp_started cm parentType opts)"
| udp_reach_step: "udp_reach whole cm u \<Longrightarrow> udp_step whole cm u u' \<Longrightarrow> udp_reach whole cm u'"

subsection \<open>Items\<close>


lemma target_Close_all [simp]:
  "length (fold (\<lambda>kv. target_Close (snd kv)) kvs cs) = length cs"
  "j < length cs \<Longrightarrow> fold (\<lambda>kv. target_Close (snd kv)) kvs cs ! j =
     (if j \<in> snd ` set kvs then (cs ! j)\<lparr>ci_closed := True\<rparr> else cs ! j)"
  by (induction kvs arbitrary: cs) (auto simp: target_Close_def)

text \<open>What happens to the items later: they keep their source, and their record of answers grows.\<close>

definition items_le :: "items \<Rightarrow> items \<Rightarrow> bool" where
  "items_le cs cs' \<longleftrightarrow> length cs \<le> length cs' \<and>
     (\<forall>i < length cs. ci_srcAddr (cs' ! i) = ci_srcAddr (cs ! i) \<and>
        set (ci_replies (cs ! i)) \<subseteq> set (ci_replies (cs' ! i)))"

text \<open>The same with nothing written.\<close>

definition items_quiet :: "items \<Rightarrow> items \<Rightarrow> bool" where
  "items_quiet cs cs' \<longleftrightarrow> length cs' = length cs \<and>
     (\<forall>i < length cs. ci_srcAddr (cs' ! i) = ci_srcAddr (cs ! i) \<and> ci_out (cs' ! i) = ci_out (cs ! i) \<and>
        (ci_closed (cs ! i) \<longrightarrow> ci_closed (cs' ! i)))"

subsection \<open>Sources are kept apart\<close>

definition udp_tab :: "('m, nat) cmap \<Rightarrow> 'm UDP \<Rightarrow> bool" where
  "udp_tab cm u \<longleftrightarrow>
     (\<forall>k i. cm_Get cm k (mgr_map (u_conns u)) = Some i \<longrightarrow> i < length (u_items u) \<and> ci_srcAddr (u_items u ! i) = k) \<and>
     (\<forall>i d. (i, d) \<in> set (u_pending u) \<longrightarrow> i < length (u_items u) \<and> length d \<le> 2048 \<and>
        (ci_srcAddr (u_items u ! i), d) \<in> set (u_recv u)) \<and>
     (\<forall>s d. (s, d) \<in> set (u_local u) \<longrightarrow>
        (\<exists>i < length (u_items u). ci_srcAddr (u_items u ! i) = s \<and> d \<in> set (ci_replies (u_items u ! i)))) \<and>
     (\<forall>i \<in> set (u_readers u). i < length (u_items u))"

lemma udp_tab_items:
  assumes "udp_tab cm u" "items_le (u_items u) cs"
  shows "udp_tab cm (u\<lparr>u_items := cs\<rparr>)"
proof -
  have le: "i < length (u_items u) \<Longrightarrow> i < length cs \<and> ci_srcAddr (cs ! i) = ci_srcAddr (u_items u ! i) \<and>
      set (ci_replies (u_items u ! i)) \<subseteq> set (ci_replies (cs ! i))" for i
    using assms(2) by (auto simp: items_le_def)
  have "(\<exists>i < length (u_items u). ci_srcAddr (u_items u ! i) = s \<and> d \<in> set (ci_replies (u_items u ! i))) \<Longrightarrow>
      (\<exists>i < length cs. ci_srcAddr (cs ! i) = s \<and> d \<in> set (ci_replies (cs ! i)))" for s d
    using le by blast
  then show ?thesis using assms(1) le unfolding udp_tab_def by simp
qed

lemma udp_tab_started: "cmap_laws cm \<Longrightarrow> udp_tab cm (udp_started cm pt opts)"
  by (simp add: udp_tab_def udp_started_def udp_New_def mgr_New_def cmap_New Let_def)

lemma udp_tab_add_item:
  assumes "cmap_laws cm" "udp_tab cm u"
  shows "udp_tab cm (add_item cm now s u)"
proof -
  let ?c = "\<lparr>ci_srcAddr = s, ci_lastActiveTime = now, ci_closed = False, ci_out = [], ci_in = [], ci_replies = []\<rparr>"
  have "udp_tab cm (u\<lparr>u_items := u_items u @ [?c]\<rparr>)"
    by (rule udp_tab_items [OF assms(2)]) (simp add: items_le_def nth_append)
  then show ?thesis
    by (auto simp: add_item_def udp_tab_def Let_def cmap_Set [OF assms(1)])
qed

definition do_result :: "('m, nat) cmap \<Rightarrow> int \<Rightarrow> string \<Rightarrow> 'm UDP \<Rightarrow> nat option \<times> 'm UDP \<Rightarrow> bool" where
  "do_result cm now s u r \<longleftrightarrow>
     r = (None, u) \<or> (\<exists>i. r = (Some i, u) \<and> cm_Get cm s (mgr_map (u_conns u)) = Some i) \<or>
     r = (Some (length (u_items u)), add_item cm now s u)"

lemma do_results: "do_result cm now s u (stream_do cm ok now s u)" "do_result cm now s u (udp_do cm ok' ok now s u)"
  by (auto simp: do_result_def stream_do_def udp_do_def split: option.split)

text \<open>What \<open>udp_handle\<close> can do: drop the datagram, or queue it for an item of its source.\<close>

lemma udp_handle_cases:
  obtains (dropped) "udp_handle cm ok' ok now s pkt u = u\<lparr>u_recv := (s, take 2048 pkt) # u_recv u\<rparr>"
  | (known) i where "cm_Get cm s (mgr_map (u_conns u)) = Some i"
      "udp_handle cm ok' ok now s pkt u =
         u\<lparr>u_recv := (s, take 2048 pkt) # u_recv u, u_pending := (i, take 2048 pkt) # u_pending u\<rparr>"
  | (new) "udp_handle cm ok' ok now s pkt u =
      (add_item cm now s (u\<lparr>u_recv := (s, take 2048 pkt) # u_recv u\<rparr>))
        \<lparr>u_pending := (length (u_items u), take 2048 pkt) # u_pending u\<rparr>"
proof -
  let ?u = "u\<lparr>u_recv := (s, take 2048 pkt) # u_recv u\<rparr>"
  define r where "r = (if u_ParentType u \<in> {''tcp'', ''tls'', ''stcp'', ''kcp''} then stream_do cm ok now s ?u
               else if u_ParentType u = ''udp'' then udp_do cm ok' ok now s ?u else (None, ?u))"
  have h: "udp_handle cm ok' ok now s pkt u = (case r of (None, u') \<Rightarrow> u'
      | (Some i, u') \<Rightarrow> u'\<lparr>u_pending := (i, take 2048 pkt) # u_pending u'\<rparr>)"
    by (simp only: udp_handle_def Let_def r_def)
  have "do_result cm now s ?u r"
    unfolding r_def by (simp add: do_results) (simp add: do_result_def)
  then consider "r = (None, ?u)" | i where "r = (Some i, ?u)" "cm_Get cm s (mgr_map (u_conns u)) = Some i"
    | "r = (Some (length (u_items u)), add_item cm now s ?u)"
    unfolding do_result_def by auto
  then show ?thesis
    by cases (use h dropped known new in \<open>simp_all add: add_item_def Let_def\<close>)
qed

lemma udp_tab_handle:
  assumes "cmap_laws cm" "udp_tab cm u"
  shows "udp_tab cm (udp_handle cm ok' ok now s pkt u)"
proof -
  let ?u = "u\<lparr>u_recv := (s, take 2048 pkt) # u_recv u\<rparr>"
  have u: "udp_tab cm ?u" using assms(2) by (simp add: udp_tab_def)
  show ?thesis
  proof (cases rule: udp_handle_cases [of cm ok' ok now s pkt u])
    case new
    have "udp_tab cm (add_item cm now s ?u)" by (rule udp_tab_add_item [OF assms(1) u])
    then show ?thesis by (auto simp: new udp_tab_def add_item_def Let_def)
  qed (use u in \<open>auto simp: udp_tab_def\<close>)
qed

lemma items_le_upd:
  "(\<And>c. ci_srcAddr (f c) = ci_srcAddr c \<and> set (ci_replies c) \<subseteq> set (ci_replies (f c))) \<Longrightarrow> items_le cs (upd_at i f cs)"
  by (simp add: items_le_def)

lemma items_le_Close: "items_le cs (target_Close i cs)"
  by (simp add: target_Close_def items_le_upd)

lemma target_Close_simps [simp]:
  "length (target_Close i cs) = length cs"
  "ci_srcAddr (target_Close i cs ! j) = ci_srcAddr (cs ! j)"
  "ci_replies (target_Close i cs ! j) = ci_replies (cs ! j)"
  "ci_out (target_Close i cs ! j) = ci_out (cs ! j)"
  "ci_closed (target_Close i cs ! j) \<longleftrightarrow> ci_closed (cs ! j) \<or> i = j \<and> i < length cs"
  by (auto simp: target_Close_def upd_at_def nth_list_update)

lemma forward_keeps [simp]:
  "ci_srcAddr (udp_forward n now d c) = ci_srcAddr c" "ci_srcAddr (stream_forward n now d c) = ci_srcAddr c"
  "ci_replies (udp_forward n now d c) = ci_replies c" "ci_replies (stream_forward n now d c) = ci_replies c"
  "ci_closed (udp_forward n now d c) = ci_closed c" "ci_closed (stream_forward n now d c) = ci_closed c"
  by (simp_all add: udp_forward_def stream_forward_def target_Write_def Let_def split: option.split sum.split)

lemma udp_tab_forward:
  assumes "udp_tab cm u"
  shows "udp_tab cm (forward n now p u)"
proof -
  let ?u = "u\<lparr>u_pending := remove1 p (u_pending u)\<rparr>"
  have "udp_tab cm ?u" using assms by (auto simp: udp_tab_def dest: in_remove1D)
  moreover have "items_le (u_items ?u) (u_items (forward n now p u))"
    by (simp add: forward_def items_le_upd)
  ultimately have "udp_tab cm (?u\<lparr>u_items := u_items (forward n now p u)\<rparr>)" by (rule udp_tab_items)
  then show ?thesis by (simp add: forward_def)
qed

lemma udp_tab_released:
  assumes "cmap_laws cm" "udp_tab cm u"
  shows "udp_tab cm (reader_released cm i u)"
proof -
  have "udp_tab cm (u\<lparr>u_items := target_Close i (u_items u)\<rparr>)"
    by (rule udp_tab_items [OF assms(2) items_le_Close])
  then show ?thesis
    by (auto simp: reader_released_def udp_tab_def cmap_Remove [OF assms(1)] dest: in_remove1D)
qed

lemma udp_tab_answered:
  assumes "udp_tab cm u" "i < length (u_items u)"
  shows "udp_tab cm (answered now ok i d rest u)"
proof -
  define cs where "cs = upd_at i (\<lambda>c. c\<lparr>ci_lastActiveTime := now, ci_in := rest, ci_replies := d # ci_replies c\<rparr>) (u_items u)"
  have tab: "udp_tab cm (u\<lparr>u_items := cs\<rparr>)"
    unfolding cs_def by (rule udp_tab_items [OF assms(1) items_le_upd]) auto
  have new: "i < length cs \<and> ci_srcAddr (cs ! i) = ci_srcAddr (u_items u ! i) \<and> d \<in> set (ci_replies (cs ! i))"
    using assms(2) by (simp add: cs_def)
  have ans: "answered now ok i d rest u =
      u\<lparr>u_items := cs, u_local := (if ok then (ci_srcAddr (u_items u ! i), d) # u_local u else u_local u)\<rparr>"
    by (simp add: answered_def cs_def)
  show ?thesis using tab new unfolding ans udp_tab_def by auto
qed

lemma udp_tab_gc:
  assumes "cmap_laws cm" "udp_tab cm u"
  shows "udp_tab cm (udp_remove cm u)" "udp_tab cm (udp_Stop cm u)" "udp_tab cm (udp_tick cm now u)"
  using assms(2) udp_tab_items [OF assms(2), of "u_items (udp_Stop cm u)"]
  by (auto simp: udp_remove_def gc_remove_def udp_tick_def udp_Stop_def udp_tab_def items_le_def
      cmap_Remove [OF assms(1)] split: option.splits if_splits)

text \<open>A verdict of the collector closes an item or changes nothing but the collector.\<close>

lemma udp_check_cases:
  assumes "mgr_gcIterCb (u_conns u) = Some (udp_gc_cb idle)"
  obtains (kept) g where "udp_check u = u\<lparr>u_gc := g\<rparr>"
  | (closed) g v where "udp_check u = u\<lparr>u_gc := g, u_items := target_Close v (u_items u)\<rparr>"
      "gc_now (u_gc u) - ci_lastActiveTime (u_items u ! v) > idle"
proof (cases "gc_items (u_gc u)")
  case Nil
  then show ?thesis using kept [of "u_gc u"] by (simp add: udp_check_def gc_check_def assms)
next
  case (Cons kv r)
  obtain k v where kv: "kv = (k, v)" by (cases kv)
  show ?thesis
  proof (cases "gc_now (u_gc u) - ci_lastActiveTime (u_items u ! v) > idle")
    case True
    then show ?thesis using Cons closed [where v = v] by (simp add: kv udp_check_def gc_check_def assms udp_gc_cb_def)
  next
    case False
    then show ?thesis using Cons kept by (simp add: kv udp_check_def gc_check_def assms udp_gc_cb_def)
  qed
qed

definition udp_cb :: "'m UDP \<Rightarrow> bool" where
  "udp_cb u \<longleftrightarrow> mgr_gcIterCb (u_conns u) = Some (udp_gc_cb (u_udpIdleTime u))"

lemma udp_cb_started: "udp_cb (udp_started cm pt opts)"
  by (simp add: udp_cb_def udp_started_def udp_New_def mgr_New_def Let_def)

lemma udp_cb_step:
  assumes "udp_step whole cm u u'" "udp_cb u"
  shows "udp_cb u'"
  using assms(1)
proof (cases rule: udp_step.cases)
  case (udp_recv ok' ok now s pkt)
  then show ?thesis using assms(2)
    by (cases rule: udp_handle_cases [of cm ok' ok now s pkt u]) (simp_all add: udp_cb_def add_item_def Let_def)
next
  case udp_checks
  then show ?thesis using assms(2) udp_check_cases [of u "u_udpIdleTime u" "udp_cb u'"]
    by (auto simp: udp_cb_def)
qed (use assms(2) in \<open>auto simp: udp_cb_def forward_def stream_reader_def udp_reader_def answered_def reader_released_def
      udp_tick_def udp_remove_def udp_Stop_def gc_remove_def Let_def split: sum.splits option.splits\<close>)

lemma udp_tab_check:
  assumes "udp_tab cm u" "udp_cb u"
  shows "udp_tab cm (udp_check u)"
proof -
  have "udp_tab cm (u\<lparr>u_items := target_Close v (u_items u)\<rparr>)" for v
    by (rule udp_tab_items [OF assms(1) items_le_Close])
  then show ?thesis
    using udp_check_cases [OF assms(2) [unfolded udp_cb_def], of "udp_tab cm (udp_check u)"] assms(1)
    by (auto simp: udp_tab_def)
qed

lemma udp_tab_step:
  assumes "udp_step whole cm u u'" "cmap_laws cm" "udp_cb u" "udp_tab cm u"
  shows "udp_tab cm u'"
  using assms(1)
proof (cases rule: udp_step.cases)
  case (udp_arrive i bs)
  then show ?thesis using udp_tab_items [OF assms(4) items_le_upd] by simp
next
  case (udp_read_stream i r now ok)
  then have "i < length (u_items u)" using assms(4) by (simp add: udp_tab_def)
  then show ?thesis using udp_read_stream assms(4)
    by (simp add: stream_reader_def udp_tab_answered split: prod.split)
next
  case (udp_read_udp i now ok r)
  then have "i < length (u_items u)" using assms(4) by (simp add: udp_tab_def)
  then show ?thesis using udp_read_udp assms(2,4)
    by (simp add: udp_reader_def Let_def udp_tab_answered udp_tab_released split: sum.split)
qed (use assms(2-4) in \<open>simp_all add: udp_tab_handle udp_tab_forward stream_reader_def udp_tab_released udp_tab_gc udp_tab_check\<close>)

lemma udp_reach_tab: "udp_reach whole cm u \<Longrightarrow> cmap_laws cm \<Longrightarrow> udp_cb u \<and> udp_tab cm u"
  by (induction rule: udp_reach.induct) (blast intro: udp_cb_started udp_tab_started udp_cb_step udp_tab_step)+

subsection \<open>An open connection has a reader\<close>

definition udp_live :: "'m UDP \<Rightarrow> bool" where
  "udp_live u \<longleftrightarrow> (\<forall>i < length (u_items u). \<not> ci_closed (u_items u ! i) \<longrightarrow> i \<in> set (u_readers u))"

lemma udp_live_items:
  assumes "udp_live u" "length cs = length (u_items u)"
    and "\<And>i. i < length cs \<Longrightarrow> ci_closed (u_items u ! i) \<Longrightarrow> ci_closed (cs ! i)"
  shows "udp_live (u\<lparr>u_items := cs\<rparr>)"
  using assms by (auto simp: udp_live_def)

lemma udp_live_released:
  assumes "udp_live u" "i < length (u_items u)"
  shows "udp_live (reader_released cm i u)"
  using assms by (auto simp: udp_live_def reader_released_def)

lemma udp_live_answered: "udp_live u \<Longrightarrow> udp_live (answered now ok i d rest u)"
  by (auto simp: udp_live_def answered_def split: if_splits)

lemma udp_live_step:
  assumes "udp_step whole cm u u'" "udp_cb u" "udp_tab cm u" "udp_live u"
  shows "udp_live u'"
  using assms(1)
proof (cases rule: udp_step.cases)
  case (udp_recv ok' ok now s pkt)
  then show ?thesis using assms(4)
    by (cases rule: udp_handle_cases [of cm ok' ok now s pkt u])
      (auto simp: udp_live_def add_item_def Let_def nth_append less_Suc_eq)
next
  case udp_checks
  then show ?thesis
    using udp_check_cases [OF assms(2) [unfolded udp_cb_def], of "udp_live u'"] assms(4)
    by (auto simp: udp_live_def)
next
  case (udp_read_stream i r now ok)
  then show ?thesis using assms(4) by (simp add: stream_reader_def udp_live_answered split: prod.split)
next
  case (udp_read_fails i now ok err)
  then show ?thesis using assms(3,4) by (simp add: stream_reader_def udp_live_released udp_tab_def)
next
  case (udp_read_udp i now ok r)
  then have i: "i < length (u_items u)" using assms(3) by (simp add: udp_tab_def)
  have "length (u_items (answered now ok i d rest u)) = length (u_items u)" for ok d rest
    by (simp add: answered_def)
  then show ?thesis using udp_read_udp assms(4) i
    by (simp add: udp_reader_def Let_def udp_live_released udp_live_answered split: sum.split)
qed (use assms(4) in \<open>auto simp: udp_live_def forward_def udp_tick_def udp_remove_def gc_remove_def udp_Stop_def
      split: option.splits if_splits\<close>)

lemma udp_reach_live: "udp_reach whole cm u \<Longrightarrow> cmap_laws cm \<Longrightarrow> udp_live u"
proof (induction rule: udp_reach.induct)
  case (udp_reach_started pt opts)
  show ?case by (simp add: udp_live_def udp_started_def udp_New_def Let_def)
next
  case (udp_reach_step u u')
  then show ?case using udp_reach_tab [OF udp_reach_step(1,4)] by (blast intro: udp_live_step)
qed

subsection \<open>Every block on a stream parent is a frame\<close>

definition framed :: "(string \<times> bytes) list \<Rightarrow> connItem \<Rightarrow> bool" where
  "framed received c \<longleftrightarrow> (\<forall>b \<in> set (ci_out c). \<exists>d. (ci_srcAddr c, d) \<in> set received \<and> length d \<le> 2048 \<and>
     stream_frame (ci_srcAddr c) d = Inr b)"

definition udp_frames :: "'m UDP \<Rightarrow> bool" where
  "udp_frames u \<longleftrightarrow> (u_ParentType u \<noteq> ''udp'' \<longrightarrow> (\<forall>i < length (u_items u). framed (u_recv u) (u_items u ! i)))"

lemma framed_mono: "framed rs c \<Longrightarrow> set rs \<subseteq> set rs' \<Longrightarrow> framed rs' c"
  unfolding framed_def by blast

lemma framed_same: "ci_srcAddr c' = ci_srcAddr c \<Longrightarrow> ci_out c' = ci_out c \<Longrightarrow> framed rs c' = framed rs c"
  by (simp add: framed_def)

lemma framed_forward:
  assumes "framed rs c" "(ci_srcAddr c, d) \<in> set rs" "length d \<le> 2048" "fails = None \<or> fails = Some 0"
  shows "framed rs (stream_forward fails now d c)"
proof (cases "stream_frame (ci_srcAddr c) d")
  case (Inl e)
  then show ?thesis using assms(1) by (simp add: stream_forward_def framed_def)
next
  case (Inr b)
  have "stream_forward fails now d c = c\<lparr>ci_lastActiveTime := now\<rparr> \<or>
      stream_forward fails now d c = c\<lparr>ci_lastActiveTime := now, ci_out := ci_out c @ [b]\<rparr>"
    using Inr assms(4) by (auto simp: stream_forward_def target_Write_def Let_def)
  then show ?thesis using Inr assms(1-3) by (auto simp: framed_def)
qed

lemma udp_frames_forward:
  assumes "udp_frames u" "udp_tab cm u" "p \<in> set (u_pending u)" "fails = None \<or> fails = Some 0"
  shows "udp_frames (forward fails now p u)"
proof -
  obtain i d where p: "p = (i, d)" by (cases p)
  then have "i < length (u_items u)" "length d \<le> 2048" "(ci_srcAddr (u_items u ! i), d) \<in> set (u_recv u)"
    using assms(2,3) by (auto simp: udp_tab_def)
  then show ?thesis using assms(1,4) by (simp add: udp_frames_def forward_def p framed_forward)
qed

lemma udp_frames_quiet:
  assumes "udp_frames u" "u_ParentType u' = u_ParentType u" "u_recv u' = u_recv u" "length (u_items u') = length (u_items u)"
    "\<And>i. i < length (u_items u) \<Longrightarrow> ci_srcAddr (u_items u' ! i) = ci_srcAddr (u_items u ! i) \<and> ci_out (u_items u' ! i) = ci_out (u_items u ! i)"
  shows "udp_frames u'"
  using assms(1) framed_same [of "u_items u' ! _" "u_items u ! _"] assms(5) unfolding udp_frames_def assms(2-4) by simp

lemma udp_frames_step:
  assumes "udp_step True cm u u'" "udp_cb u" "udp_tab cm u" "udp_frames u"
  shows "udp_frames u'"
  using assms(1)
proof (cases rule: udp_step.cases)
  case (udp_recv ok' ok now s pkt)
  have "framed (u_recv u) c \<Longrightarrow> framed ((s, d) # u_recv u) c" for c d by (rule framed_mono) auto
  then show ?thesis using assms(4) udp_recv
    by (cases rule: udp_handle_cases [of cm ok' ok now s pkt u])
      (auto simp: udp_frames_def add_item_def Let_def nth_append less_Suc_eq, simp add: framed_def)
next
  case (udp_write p fails now)
  then show ?thesis using udp_frames_forward [OF assms(4,3)] by auto
next
  case udp_checks
  then show ?thesis
    by (cases rule: udp_check_cases [OF assms(2) [unfolded udp_cb_def]]) (auto intro!: udp_frames_quiet [OF assms(4)])
qed (auto intro!: udp_frames_quiet [OF assms(4)] simp: stream_reader_def udp_reader_def answered_def reader_released_def
      udp_tick_def udp_remove_def gc_remove_def udp_Stop_def Let_def split: sum.splits prod.splits option.splits if_splits)

lemma udp_reach_frames: "udp_reach True cm u \<Longrightarrow> cmap_laws cm \<Longrightarrow> udp_frames u"
proof (induction rule: udp_reach.induct)
  case (udp_reach_started pt opts)
  show ?case by (simp add: udp_frames_def udp_started_def udp_New_def Let_def)
next
  case (udp_reach_step u u')
  then show ?case using udp_reach_tab [OF udp_reach_step(1,4)] by (blast intro: udp_frames_step)
qed

subsection \<open>An example run\<close>

text \<open>A datagram from \<open>10.0.0.1:53\<close> that is forwarded to a stream parent.\<close>

definition ex_addr :: AddrSpec where
  "ex_addr = \<lparr>FQDN = [], IP = IPv4 10 0 0 1, Port = 53, AddrType = 1\<rparr>"

definition ex_u1 :: "(string, nat) alist UDP" where
  "ex_u1 = udp_handle alist_cmap True True 0 ''10.0.0.1:53'' [5] (udp_started alist_cmap ''tcp'' [])"

definition ex_u2 :: "(string, nat) alist UDP" where
  "ex_u2 = forward None 1 (0, [5]) ex_u1"

lemma ex_addr: "ParseAddrSpec ''10.0.0.1:53'' = Inr ex_addr" "wf_addr ex_addr" "AddrSpec_String ex_addr = ''10.0.0.1:53''"
  by code_simp+

lemma ex_frame: "stream_frame ''10.0.0.1:53'' [5] = Inr [0, 1, 10, 0, 0, 1, 0, 53, 1, 5]"
  by code_simp

lemma ex_u1_eval:
  "u_pending ex_u1 = [(0, [5])]" "u_ParentType ex_u1 = ''tcp''" "u_recv ex_u1 = [(''10.0.0.1:53'', [5])]"
  "u_items ex_u1 = [\<lparr>ci_srcAddr = ''10.0.0.1:53'', ci_lastActiveTime = 0, ci_closed = False, ci_out = [], ci_in = [], ci_replies = []\<rparr>]"
  by (simp_all add: ex_u1_def udp_handle_def stream_do_def add_item_def udp_started_def udp_New_def mgr_New_def
      alist_cmap_def Let_def lookup_empty)

lemma ex_u2_eval:
  "u_ParentType ex_u2 = ''tcp''" "length (u_items ex_u2) = 1" "ci_srcAddr (u_items ex_u2 ! 0) = ''10.0.0.1:53''"
  "ci_out (u_items ex_u2 ! 0) = [[0, 1, 10, 0, 0, 1, 0, 53, 1, 5]]" "u_recv ex_u2 = [(''10.0.0.1:53'', [5])]"
  by (simp_all add: ex_u2_def forward_def ex_u1_eval upd_at_def stream_forward_def ex_frame target_Write_def Let_def)

lemma ex_u2_reach: "udp_reach True alist_cmap ex_u2"
proof -
  have "udp_reach True alist_cmap ex_u1"
    unfolding ex_u1_def by (rule udp_reach_step [OF udp_reach_started udp_recv]) (simp add: udp_started_def)
  then show ?thesis
    unfolding ex_u2_def by (rule udp_reach_step [OF _ udp_write]) (simp_all add: ex_u1_eval)
qed

subsection \<open>Properties\<close>



text \<open>In every state the service can reach, an entry of the table is the connection of the
  source it is filed under, a waiting datagram goes to the connection of the source it came from,
  an answer sent to a source was read from a connection of that source, and every open connection
  has a running reader.\<close>

theorem udp_sources:
  assumes "cmap_laws cm" "udp_reach whole cm u"
  shows "(\<forall>k i. cm_Get cm k (mgr_map (u_conns u)) = Some i \<longrightarrow>
        i < length (u_items u) \<and> ci_srcAddr (u_items u ! i) = k) \<and>
    (\<forall>i d. (i, d) \<in> set (u_pending u) \<longrightarrow> (ci_srcAddr (u_items u ! i), d) \<in> set (u_recv u)) \<and>
    (\<forall>s d. (s, d) \<in> set (u_local u) \<longrightarrow>
        (\<exists>i < length (u_items u). ci_srcAddr (u_items u ! i) = s \<and> d \<in> set (ci_replies (u_items u ! i)))) \<and>
    (\<forall>i < length (u_items u). \<not> ci_closed (u_items u ! i) \<longrightarrow> i \<in> set (u_readers u))"
  using udp_reach_tab [OF assms(2,1)] udp_reach_live [OF assms(2,1)] by (simp add: udp_tab_def udp_live_def)

theorem udp_sources_witness:
  "\<exists>u. udp_reach True alist_cmap u \<and> cm_Get alist_cmap ''s'' (mgr_map (u_conns u)) = Some 0 \<and>
     ci_srcAddr (u_items u ! 0) = ''s'' \<and> \<not> ci_closed (u_items u ! 0) \<and> 0 \<in> set (u_readers u)"
proof -
  define u1 where "u1 = udp_handle alist_cmap True True 0 ''s'' [5] (udp_started alist_cmap ''udp'' [])"
  have r1: "udp_reach True alist_cmap u1"
    unfolding u1_def by (rule udp_reach_step [OF udp_reach_started udp_recv]) (simp add: udp_started_def)
  moreover have "cm_Get alist_cmap ''s'' (mgr_map (u_conns u1)) = Some 0 \<and> \<not> ci_closed (u_items u1 ! 0)"
    by (simp add: u1_def udp_handle_def udp_do_def add_item_def udp_started_def udp_New_def mgr_New_def
        alist_cmap_def Let_def lookup_empty lookup_update)
  ultimately show ?thesis using udp_sources [OF alist_cmap_laws r1] by blast
qed

text \<open>A connection can be lost: after the collector closed and removed the idle connection of
  a source, the source sends again and gets a new connection before the reader of the old one has
  noticed; that reader then removes the source's address, and with it the new connection. It is
  open and not in the table, where neither the collector nor \<open>Stop\<close> finds it.\<close>

theorem udp_lost_connection:
  "\<exists>u. udp_reach True alist_cmap u \<and> length (u_items u) = 2 \<and> \<not> ci_closed (u_items u ! 1) \<and>
     cm_Get alist_cmap (ci_srcAddr (u_items u ! 1)) (mgr_map (u_conns u)) = None \<and>
     \<not> ci_closed (u_items (udp_Stop alist_cmap u) ! 1)"
proof -
  define u1 where "u1 = udp_handle alist_cmap True True 0 ''s'' [5] (udp_started alist_cmap ''udp'' [])"
  define u2 where "u2 = udp_tick alist_cmap 11 u1"
  define u3 where "u3 = udp_remove alist_cmap (udp_check u2)"
  define u4 where "u4 = udp_handle alist_cmap True True 11 ''s'' [6] u3"
  define u5 where "u5 = udp_reader alist_cmap 11 True 0 (Inl EOF) u4"
  note eval = udp_handle_def udp_do_def add_item_def udp_started_def udp_New_def mgr_New_def alist_cmap_def
    gc_idle_def lookup_update lookup_empty lookup_delete defaultUDPIdleTime_def
  have u1: "u1 = \<lparr>u_ParentType = ''udp'', u_conns = \<lparr>mgr_map = DAList.update ''s'' 0 DAList.empty,
      mgr_interval = 1000000000, mgr_gcIterCb = Some (udp_gc_cb 10)\<rparr>, u_udpIdleTime = 10, u_open = True, u_cancelled = False,
      u_items = [\<lparr>ci_srcAddr = ''s'', ci_lastActiveTime = 0, ci_closed = False, ci_out = [], ci_in = [], ci_replies = []\<rparr>],
      u_readers = [0], u_pending = [(0, [5])], u_gc = gc_idle, u_recv = [(''s'', [5])], u_local = []\<rparr>"
    by (simp add: u1_def eval Let_def)
  have u3: "u3 = u1\<lparr>u_conns := (u_conns u1)\<lparr>mgr_map := DAList.delete ''s'' (DAList.update ''s'' 0 DAList.empty)\<rparr>,
      u_items := [\<lparr>ci_srcAddr = ''s'', ci_lastActiveTime = 0, ci_closed = True, ci_out = [], ci_in = [], ci_replies = []\<rparr>],
      u_gc := \<lparr>gc_now = 11, gc_items = [], gc_del = None\<rparr>\<rparr>"
    by (simp add: u3_def u2_def u1 udp_tick_def udp_check_def udp_remove_def gc_tick_def gc_check_def gc_remove_def
        udp_gc_cb_def target_Close_def upd_at_def alist_cmap_def update.rep_eq empty.rep_eq)
  have r1: "udp_reach True alist_cmap u1"
    unfolding u1_def by (rule udp_reach_step [OF udp_reach_started udp_recv]) (simp add: udp_started_def)
  then have "udp_reach True alist_cmap u2"
    unfolding u2_def by (rule udp_reach_step [OF _ udp_ticks]) (simp_all add: u1 watches_def gc_busy_def gc_idle_def)
  then have "udp_reach True alist_cmap (udp_check u2)"
    by (rule udp_reach_step [OF _ udp_checks]) (simp add: u2_def udp_tick_def gc_tick_def)
  then have "udp_reach True alist_cmap u3"
    unfolding u3_def by (rule udp_reach_step [OF _ udp_removes])
  then have r4: "udp_reach True alist_cmap u4"
    unfolding u4_def by (rule udp_reach_step [OF _ udp_recv]) (simp add: u3 u1)
  have u4: "u_items u4 = u_items u3 @ [\<lparr>ci_srcAddr = ''s'', ci_lastActiveTime = 11, ci_closed = False,
      ci_out = [], ci_in = [], ci_replies = []\<rparr>]"
    "u_readers u4 = [1, 0]" "u_ParentType u4 = ''udp''"
    "mgr_map (u_conns u4) = DAList.update ''s'' 1 (DAList.delete ''s'' (DAList.update ''s'' 0 DAList.empty))"
    by (simp_all add: u4_def u3 u1 udp_handle_def udp_do_def add_item_def alist_cmap_def Let_def lookup_update lookup_empty lookup_delete)
  have "udp_reach True alist_cmap u5"
    unfolding u5_def by (rule udp_reach_step [OF r4 udp_read_udp]) (simp_all add: u4)
  moreover have "u_items u5 = [\<lparr>ci_srcAddr = ''s'', ci_lastActiveTime = 0, ci_closed = True, ci_out = [], ci_in = [], ci_replies = []\<rparr>,
     \<lparr>ci_srcAddr = ''s'', ci_lastActiveTime = 11, ci_closed = False, ci_out = [], ci_in = [], ci_replies = []\<rparr>]"
    "mgr_map (u_conns u5) = DAList.delete ''s'' (mgr_map (u_conns u4))"
    by (simp_all add: u5_def udp_reader_def reader_released_def u4 u3 target_Close_def upd_at_def alist_cmap_def)
  moreover have "DAList.impl_of (DAList.delete ''s'' (mgr_map (u_conns u4))) = []"
    by (simp add: u4 delete.rep_eq update.rep_eq empty.rep_eq)
  ultimately show ?thesis
    by (intro exI [of _ u5]) (simp add: alist_cmap_def lookup_delete udp_Stop_def)
qed

end
