(* ===== verification/Tcp_Service.thy ===== *)
theory Tcp_Service
  imports Udp_Frames Conn_Manager
begin

section \<open>services/tcp: the TCP proxy\<close>

text \<open>
  The service accepts stream connections. With a stream parent each is copied to a connection of
  its own to the parent. With a UDP parent it is the far end of a UDP proxy: the connection carries
  framed datagrams, each with the address of the source that sent it; every source address gets a
  UDP socket to the parent, in a managed table, and a reader that frames the parent's answers and
  writes them on the connection the item was made for.

  Incoming connections and items are indices into \<open>t_conns\<close> and \<open>t_items\<close>. A handler goroutine of a
  UDP parent is a connection with, between \<open>single.Do\<close> and the \<open>Write\<close>, the item and the payload
  that is about to be written. With a stream parent \<open>t_proxied\<close> holds the connections that are being
  copied, each with its connection to the parent. Dialling, name resolution and the outcome of
  reads and writes are choices of the environment; the copying of bytes between two streams
  belongs to it as well.
\<close>

record in_conn =
  ic_addr :: string
  ic_in :: bytes
  ic_out :: "bytes list"
  ic_closed :: bool

record tcp_item =
  ti_conn :: nat
  ti_key :: string
  ti_src :: string
  ti_lastActiveTime :: int
  ti_closed :: bool
  ti_out :: "(nat \<times> bytes) list"
  ti_replies :: "bytes list"

type_synonym tcp_world = "in_conn list \<times> tcp_item list"

definition conn_Close :: "nat \<Rightarrow> in_conn list \<Rightarrow> in_conn list" where
  "conn_Close c = upd_at c (\<lambda>x. x\<lparr>ic_closed := True\<rparr>)"

definition item_Close :: "nat \<Rightarrow> tcp_item list \<Rightarrow> tcp_item list" where
  "item_Close i = upd_at i (\<lambda>x. x\<lparr>ti_closed := True\<rparr>)"

text \<open>The collector's call-back closes both ends of an idle item.\<close>

definition tcp_gc_cb :: "int \<Rightarrow> (nat, tcp_world) gc_cb" where
  "tcp_gc_cb udpIdleTime key v now w =
     (if now - ti_lastActiveTime (snd w ! v) > udpIdleTime
      then (True, (conn_Close (ti_conn (snd w ! v)) (fst w), item_Close v (snd w)))
      else (False, w))"

record 'm TCP =
  t_ParentType :: string
  t_userConns :: "('m, nat, tcp_world) Manager"
  t_udpIdleTime :: int
  t_open :: bool
  t_cancelled :: bool
  t_conns :: "in_conn list"
  t_items :: "tcp_item list"
  t_handlers :: "(nat \<times> (nat \<times> bytes) option) list"
  t_readers :: "nat list"
  t_proxied :: "nat list"
  t_gc :: "nat collector"

definition tcp_defaultUDPIdleTime :: int where "tcp_defaultUDPIdleTime = 10"

definition tcp_WithUDPIdleTime :: "int \<Rightarrow> int \<Rightarrow> int" where
  "tcp_WithUDPIdleTime sec idle = (if sec > 0 then sec else idle)"

text \<open>\<open>New\<close> with the values given to \<open>WithUDPIdleTime\<close> options, in their order, and the service once
  \<open>Start\<close> has opened the listener.\<close>

definition tcp_New :: "('m, nat) cmap \<Rightarrow> string \<Rightarrow> int list \<Rightarrow> 'm TCP" where
  "tcp_New cm parentType opts =
     (let idle = fold tcp_WithUDPIdleTime opts tcp_defaultUDPIdleTime
      in \<lparr>t_ParentType = parentType, t_userConns = mgr_New cm 1000000000 (Some (tcp_gc_cb idle)),
          t_udpIdleTime = idle, t_open = False, t_cancelled = False, t_conns = [], t_items = [],
          t_handlers = [], t_readers = [], t_proxied = [], t_gc = gc_idle\<rparr>)"

definition tcp_started :: "('m, nat) cmap \<Rightarrow> string \<Rightarrow> int list \<Rightarrow> 'm TCP" where
  "tcp_started cm parentType opts = (tcp_New cm parentType opts)\<lparr>t_open := True\<rparr>"

subsection \<open>Operations\<close>

text \<open>The part of \<open>handler\<close> and \<open>proxyStream2Stream\<close> before the copying, for a connection from a
  remote address: the connection replaces one with the same address, which is closed. A failing
  dial closes the new connection.\<close>

definition tcp_upsert :: "('m, nat) cmap \<Rightarrow> string \<Rightarrow> nat \<Rightarrow> 'm \<Rightarrow> in_conn list \<Rightarrow> 'm \<times> in_conn list" where
  "tcp_upsert cm k c m cs =
     (cm_Upsert cm k c (\<lambda>valueInMap newValue. newValue) m,
      case cm_Get cm k m of None \<Rightarrow> cs | Some old \<Rightarrow> conn_Close old cs)"

definition new_conn :: "string \<Rightarrow> in_conn" where
  "new_conn addr = \<lparr>ic_addr = addr, ic_in = [], ic_out = [], ic_closed = False\<rparr>"

definition proxyStream2Stream :: "('m, nat) cmap \<Rightarrow> bool \<Rightarrow> nat \<Rightarrow> 'm TCP \<Rightarrow> 'm TCP" where
  "proxyStream2Stream cm dial_ok c t =
     (if \<not> dial_ok then t\<lparr>t_conns := conn_Close c (t_conns t)\<rparr>
      else let (m, cs) = tcp_upsert cm (ic_addr (t_conns t ! c)) c (mgr_map (t_userConns t)) (t_conns t)
           in t\<lparr>t_userConns := (t_userConns t)\<lparr>mgr_map := m\<rparr>, t_conns := cs, t_proxied := c # t_proxied t\<rparr>)"

text \<open>The end of the copying: the deferred clean-up closes both connections.\<close>

definition stream_released :: "('m, nat) cmap \<Rightarrow> nat \<Rightarrow> 'm TCP \<Rightarrow> 'm TCP" where
  "stream_released cm c t =
     t\<lparr>t_userConns := (t_userConns t)\<lparr>mgr_map := cm_Remove cm (ic_addr (t_conns t ! c)) (mgr_map (t_userConns t))\<rparr>,
       t_conns := conn_Close c (t_conns t), t_proxied := remove1 c (t_proxied t)\<rparr>"

text \<open>The end of a handler of a UDP parent.\<close>

definition handler_ends :: "nat \<times> (nat \<times> bytes) option \<Rightarrow> 'm TCP \<Rightarrow> 'm TCP" where
  "handler_ends h t = t\<lparr>t_handlers := remove1 h (t_handlers t), t_conns := conn_Close (fst h) (t_conns t)\<rparr>"

definition tcp_handler :: "('m, nat) cmap \<Rightarrow> bool \<Rightarrow> bool \<Rightarrow> string \<Rightarrow> 'm TCP \<Rightarrow> 'm TCP" where
  "tcp_handler cm resolve_ok dial_ok addr t =
     (let c = length (t_conns t); t' = t\<lparr>t_conns := t_conns t @ [new_conn addr]\<rparr>
      in if t_ParentType t \<in> {''tcp'', ''tls'', ''stcp'', ''kcp''} then proxyStream2Stream cm dial_ok c t'
         else if t_ParentType t = ''udp'' \<and> resolve_ok then t'\<lparr>t_handlers := (c, None) # t_handlers t\<rparr>
         else t'\<lparr>t_conns := conn_Close c (t_conns t')\<rparr>)"

text \<open>\<open>single.Do\<close> of \<open>proxyStream2UDP\<close>: the item of the source, or a new one with its reader. The
  time of last activity of a new item is zero until the handler stores it. \<open>resolved\<close> is the text
  of the resolved source address.\<close>

definition tcp_do :: "('m, nat) cmap \<Rightarrow> bool \<Rightarrow> string \<Rightarrow> nat \<Rightarrow> string \<Rightarrow> 'm TCP \<Rightarrow> nat option \<times> 'm TCP" where
  "tcp_do cm dial_ok resolved c srcAddr t =
     (case cm_Get cm srcAddr (mgr_map (t_userConns t)) of
        Some v \<Rightarrow> (Some v, t)
      | None \<Rightarrow>
          if \<not> dial_ok then (None, t)
          else (Some (length (t_items t)),
                t\<lparr>t_items := t_items t @ [\<lparr>ti_conn = c, ti_key = srcAddr, ti_src = resolved, ti_lastActiveTime = 0,
                                           ti_closed = False, ti_out = [], ti_replies = []\<rparr>],
                  t_userConns := (t_userConns t)\<lparr>mgr_map := cm_Set cm srcAddr (length (t_items t)) (mgr_map (t_userConns t))\<rparr>,
                  t_readers := length (t_items t) # t_readers t\<rparr>))"

text \<open>One round of the loop of \<open>proxyStream2UDP\<close> up to the \<open>Write\<close>, on the result of
  \<open>ParseStreamDatagram\<close>.\<close>

definition tcp_round :: "('m, nat) cmap \<Rightarrow> bool \<Rightarrow> string \<Rightarrow> nat \<Rightarrow> (Datagram \<times> bytes) result \<Rightarrow> 'm TCP \<Rightarrow> 'm TCP" where
  "tcp_round cm dial_ok resolved c r t =
     (if t_cancelled t then handler_ends (c, None) t
      else case r of
        Inl err \<Rightarrow> if str_contains (err_text err) ''n != int('' then t else handler_ends (c, None) t
      | Inr (da, rest) \<Rightarrow>
          (let t' = t\<lparr>t_conns := upd_at c (\<lambda>x. x\<lparr>ic_in := rest\<rparr>) (t_conns t)\<rparr>
           in case tcp_do cm dial_ok resolved c (AddrSpec_String (Addr da)) t' of
                (None, t2) \<Rightarrow> handler_ends (c, None) t2
              | (Some i, t2) \<Rightarrow> t2\<lparr>t_handlers := (c, Some (i, Data da)) # remove1 (c, None) (t_handlers t2)\<rparr>))"

text \<open>The rest of the round: the payload goes to the item's socket. On an error the loop ends.\<close>

definition tcp_write :: "bool \<Rightarrow> int \<Rightarrow> nat \<Rightarrow> nat \<Rightarrow> bytes \<Rightarrow> 'm TCP \<Rightarrow> 'm TCP" where
  "tcp_write ok now c i d t =
     (if ok \<and> \<not> ti_closed (t_items t ! i)
      then t\<lparr>t_items := upd_at i (\<lambda>x. x\<lparr>ti_lastActiveTime := now, ti_out := ti_out x @ [(c, d)]\<rparr>) (t_items t),
             t_handlers := (c, None) # remove1 (c, Some (i, d)) (t_handlers t)\<rparr>
      else handler_ends (c, Some (i, d)) (t\<lparr>t_items := upd_at i (\<lambda>x. x\<lparr>ti_lastActiveTime := now\<rparr>) (t_items t)\<rparr>))"

text \<open>The deferred clean-up of a reader, and one round of its loop: an answer of the parent is
  framed with the item's source address and written on the item's connection. The error of that
  write is dropped; only an address that cannot be framed ends the reader.\<close>

definition tcp_released :: "('m, nat) cmap \<Rightarrow> nat \<Rightarrow> 'm TCP \<Rightarrow> 'm TCP" where
  "tcp_released cm i t =
     t\<lparr>t_userConns := (t_userConns t)\<lparr>mgr_map := cm_Remove cm (ti_key (t_items t ! i)) (mgr_map (t_userConns t))\<rparr>,
       t_conns := conn_Close (ti_conn (t_items t ! i)) (t_conns t),
       t_items := item_Close i (t_items t), t_readers := remove1 i (t_readers t)\<rparr>"

definition tcp_reader :: "('m, nat) cmap \<Rightarrow> int \<Rightarrow> nat option \<Rightarrow> nat \<Rightarrow> bytes result \<Rightarrow> 'm TCP \<Rightarrow> 'm TCP" where
  "tcp_reader cm now fails i r t =
     (case r of
        Inl err \<Rightarrow> tcp_released cm i t
      | Inr packet \<Rightarrow>
          (let t' = t\<lparr>t_items := upd_at i (\<lambda>x. x\<lparr>ti_lastActiveTime := now, ti_replies := take BindingSize packet # ti_replies x\<rparr>) (t_items t)\<rparr>
           in case stream_frame (ti_src (t_items t ! i)) (take BindingSize packet) of
                Inl err \<Rightarrow> tcp_released cm i t'
              | Inr b \<Rightarrow> t'\<lparr>t_conns := upd_at (ti_conn (t_items t ! i)) (\<lambda>x.
                    if ic_closed x then x
                    else case fails of
                           None \<Rightarrow> x\<lparr>ic_out := ic_out x @ [b]\<rparr>
                         | Some n \<Rightarrow> if n = 0 then x else x\<lparr>ic_out := ic_out x @ [take n b]\<rparr>) (t_conns t)\<rparr>))"

definition tcp_Stop :: "('m, nat) cmap \<Rightarrow> 'm TCP \<Rightarrow> 'm TCP" where
  "tcp_Stop cm t =
     (let vs = map snd (cm_Items cm (mgr_map (t_userConns t))); t' = t\<lparr>t_cancelled := True, t_open := False\<rparr>
      in if t_ParentType t = ''udp''
         then t'\<lparr>t_conns := fold (\<lambda>v. conn_Close (ti_conn (t_items t ! v))) vs (t_conns t),
                 t_items := fold item_Close vs (t_items t)\<rparr>
         else t'\<lparr>t_conns := fold conn_Close vs (t_conns t)\<rparr>)"

text \<open>The collector, which runs for a UDP parent only.\<close>

definition tcp_tick :: "('m, nat) cmap \<Rightarrow> int \<Rightarrow> 'm TCP \<Rightarrow> 'm TCP" where
  "tcp_tick cm now t = t\<lparr>t_gc := gc_tick cm now (mgr_map (t_userConns t))\<rparr>"

definition tcp_check :: "'m TCP \<Rightarrow> 'm TCP" where
  "tcp_check t =
     (case mgr_gcIterCb (t_userConns t) of
        None \<Rightarrow> t
      | Some cb \<Rightarrow> (let (g, w) = gc_check cb (t_gc t) (t_conns t, t_items t)
                    in t\<lparr>t_gc := g, t_conns := fst w, t_items := snd w\<rparr>))"

definition tcp_remove :: "('m, nat) cmap \<Rightarrow> 'm TCP \<Rightarrow> 'm TCP" where
  "tcp_remove cm t =
     (let (g, m) = gc_remove cm (t_gc t) (mgr_map (t_userConns t))
      in t\<lparr>t_gc := g, t_userConns := (t_userConns t)\<lparr>mgr_map := m\<rparr>\<rparr>)"

subsection \<open>Interleaving\<close>

text \<open>With the flag \<open>sole\<close> no source address is used on two connections, and no \<open>Write\<close> on a
  connection fails in the middle.\<close>

definition foreign_item :: "('m, nat) cmap \<Rightarrow> nat \<Rightarrow> string \<Rightarrow> 'm TCP \<Rightarrow> bool" where
  "foreign_item cm c k t \<longleftrightarrow>
     (case cm_Get cm k (mgr_map (t_userConns t)) of None \<Rightarrow> False | Some i \<Rightarrow> ti_conn (t_items t ! i) \<noteq> c)"

inductive tcp_step :: "bool \<Rightarrow> ('m, nat) cmap \<Rightarrow> 'm TCP \<Rightarrow> 'm TCP \<Rightarrow> bool"
  for sole :: bool and cm :: "('m, nat) cmap" where
  tcp_accept: "t_open t \<Longrightarrow> tcp_step sole cm t (tcp_handler cm resolve_ok dial_ok addr t)"
| tcp_copied: "c \<in> set (t_proxied t) \<Longrightarrow> tcp_step sole cm t (stream_released cm c t)"
| tcp_arrive: "tcp_step sole cm t (t\<lparr>t_conns := upd_at c (\<lambda>x. x\<lparr>ic_in := ic_in x @ bs\<rparr>) (t_conns t)\<rparr>)"
| tcp_reads: "(c, None) \<in> set (t_handlers t) \<Longrightarrow> ParseStreamDatagram (ic_in (t_conns t ! c)) = Inr (da, rest) \<Longrightarrow>
    \<not> (sole \<and> foreign_item cm c (AddrSpec_String (Addr da)) t) \<Longrightarrow>
    tcp_step sole cm t (tcp_round cm dial_ok resolved c (Inr (da, rest)) t)"
| tcp_read_fails: "(c, None) \<in> set (t_handlers t) \<Longrightarrow>
    tcp_step sole cm t (tcp_round cm dial_ok resolved c (Inl err) t)"
| tcp_writes: "(c, Some (i, d)) \<in> set (t_handlers t) \<Longrightarrow> tcp_step sole cm t (tcp_write ok now c i d t)"
| tcp_answers: "i \<in> set (t_readers t) \<Longrightarrow> \<not> (sole \<and> fails \<noteq> None \<and> fails \<noteq> Some 0) \<Longrightarrow>
    tcp_step sole cm t (tcp_reader cm now fails i r t)"
| tcp_ticks: "t_ParentType t = ''udp'' \<Longrightarrow> watches (t_userConns t) \<Longrightarrow> \<not> gc_busy (t_gc t) \<Longrightarrow>
    tcp_step sole cm t (tcp_tick cm now t)"
| tcp_checks: "gc_del (t_gc t) = None \<Longrightarrow> tcp_step sole cm t (tcp_check t)"
| tcp_removes: "tcp_step sole cm t (tcp_remove cm t)"
| tcp_stops: "tcp_step sole cm t (tcp_Stop cm t)"

inductive tcp_reach :: "bool \<Rightarrow> ('m, nat) cmap \<Rightarrow> 'm TCP \<Rightarrow> bool"
  for sole :: bool and cm :: "('m, nat) cmap" where
  tcp_reach_started: "tcp_reach sole cm (tcp_started cm parentType opts)"
| tcp_reach_step: "tcp_reach sole cm t \<Longrightarrow> tcp_step sole cm t t' \<Longrightarrow> tcp_reach sole cm t'"

subsection \<open>Connections and items\<close>

lemma conn_Close_simps [simp]:
  "length (conn_Close c cs) = length cs" "ic_addr (conn_Close c cs ! j) = ic_addr (cs ! j)"
  "ic_out (conn_Close c cs ! j) = ic_out (cs ! j)"
  by (simp_all add: conn_Close_def upd_at_field)

lemma item_Close_simps [simp]:
  "length (item_Close i is') = length is'" "ti_conn (item_Close i is' ! j) = ti_conn (is' ! j)"
  "ti_key (item_Close i is' ! j) = ti_key (is' ! j)" "ti_src (item_Close i is' ! j) = ti_src (is' ! j)"
  "ti_out (item_Close i is' ! j) = ti_out (is' ! j)" "ti_replies (item_Close i is' ! j) = ti_replies (is' ! j)"
  by (simp_all add: item_Close_def upd_at_field)

lemma fold_Close_simps [simp]:
  "length (fold (\<lambda>v. conn_Close (f v)) vs cs) = length cs" "ic_addr (fold (\<lambda>v. conn_Close (f v)) vs cs ! j) = ic_addr (cs ! j)"
  "ic_out (fold (\<lambda>v. conn_Close (f v)) vs cs ! j) = ic_out (cs ! j)"
  "length (fold conn_Close vs cs) = length cs" "ic_addr (fold conn_Close vs cs ! j) = ic_addr (cs ! j)"
  "ic_out (fold conn_Close vs cs ! j) = ic_out (cs ! j)"
  "length (fold item_Close vs is') = length is'" "ti_conn (fold item_Close vs is' ! j) = ti_conn (is' ! j)"
  "ti_key (fold item_Close vs is' ! j) = ti_key (is' ! j)" "ti_src (fold item_Close vs is' ! j) = ti_src (is' ! j)"
  "ti_out (fold item_Close vs is' ! j) = ti_out (is' ! j)" "ti_replies (fold item_Close vs is' ! j) = ti_replies (is' ! j)"
  by (induction vs arbitrary: cs is') auto

text \<open>A block that frames an answer of an item of the connection.\<close>

definition frame_of :: "tcp_item list \<Rightarrow> nat \<Rightarrow> bytes \<Rightarrow> bool" where
  "frame_of its c b \<longleftrightarrow> (\<exists>i < length its. ti_conn (its ! i) = c \<and>
     (\<exists>d \<in> set (ti_replies (its ! i)). stream_frame (ti_src (its ! i)) d = Inr b))"

lemma frame_of_Close [simp]:
  "frame_of (item_Close i its) c b = frame_of its c b" "frame_of (fold item_Close vs its) c b = frame_of its c b"
  by (simp_all add: frame_of_def)

lemma frame_of_upd:
  assumes "frame_of its c b" "\<And>x. ti_conn (f x) = ti_conn x \<and> ti_src (f x) = ti_src x \<and> set (ti_replies x) \<subseteq> set (ti_replies (f x))"
  shows "frame_of (upd_at i f its) c b"
proof -
  obtain j d where "j < length its" "ti_conn (its ! j) = c" "d \<in> set (ti_replies (its ! j))"
    "stream_frame (ti_src (its ! j)) d = Inr b" using assms(1) by (auto simp: frame_of_def)
  then show ?thesis using assms(2) unfolding frame_of_def by (intro exI [of _ j]) (auto simp: subset_iff)
qed

lemma frame_of_append: "frame_of its c b \<Longrightarrow> frame_of (its @ xs) c b"
  unfolding frame_of_def by (metis length_append nth_append trans_less_add1)

subsection \<open>Invariants\<close>

text \<open>The table, by the kind of the parent.\<close>

definition tcp_tab :: "('m, nat) cmap \<Rightarrow> 'm TCP \<Rightarrow> bool" where
  "tcp_tab cm t \<longleftrightarrow>
     mgr_gcIterCb (t_userConns t) = Some (tcp_gc_cb (t_udpIdleTime t)) \<and>
     (t_ParentType t = ''udp'' \<longrightarrow> (\<forall>k i. cm_Get cm k (mgr_map (t_userConns t)) = Some i \<longrightarrow>
        i < length (t_items t) \<and> ti_key (t_items t ! i) = k)) \<and>
     (t_ParentType t \<noteq> ''udp'' \<longrightarrow> t_handlers t = [] \<and> (\<forall>k c. cm_Get cm k (mgr_map (t_userConns t)) = Some c \<longrightarrow>
        c < length (t_conns t) \<and> ic_addr (t_conns t ! c) = k))"

text \<open>The references between items, connections and goroutines; with \<open>sole\<close>, what an item has
  written came from its own connection.\<close>

definition item_ok :: "bool \<Rightarrow> nat \<Rightarrow> tcp_item \<Rightarrow> bool" where
  "item_ok sole n x \<longleftrightarrow> ti_conn x < n \<and> (sole \<longrightarrow> fst ` set (ti_out x) \<subseteq> {ti_conn x})"

definition handler_ok :: "bool \<Rightarrow> nat \<Rightarrow> tcp_item list \<Rightarrow> nat \<times> (nat \<times> bytes) option \<Rightarrow> bool" where
  "handler_ok sole n its h \<longleftrightarrow> fst h < n \<and>
     (case snd h of None \<Rightarrow> True | Some (i, _) \<Rightarrow> i < length its \<and> (sole \<longrightarrow> ti_conn (its ! i) = fst h))"

definition tcp_refs :: "bool \<Rightarrow> 'm TCP \<Rightarrow> bool" where
  "tcp_refs sole t \<longleftrightarrow>
     (\<forall>i < length (t_items t). item_ok sole (length (t_conns t)) (t_items t ! i)) \<and>
     (\<forall>h \<in> set (t_handlers t). handler_ok sole (length (t_conns t)) (t_items t) h) \<and>
     (\<forall>i \<in> set (t_readers t). i < length (t_items t))"

lemma item_ok_cong: "ti_conn x = ti_conn y \<Longrightarrow> ti_out x = ti_out y \<Longrightarrow> item_ok sole n x = item_ok sole n y"
  by (simp add: item_ok_def)

lemma ok_Close [simp]:
  "item_ok sole n (item_Close i its ! j) = item_ok sole n (its ! j)"
  "item_ok sole n (fold item_Close vs its ! j) = item_ok sole n (its ! j)"
  "handler_ok sole n (item_Close i its) h = handler_ok sole n its h"
  "handler_ok sole n (fold item_Close vs its) h = handler_ok sole n its h"
  by (simp_all add: item_ok_def handler_ok_def split: option.split)

lemma ok_less: "item_ok sole n x \<Longrightarrow> n \<le> m \<Longrightarrow> item_ok sole m x"
  "handler_ok sole n its h \<Longrightarrow> n \<le> m \<Longrightarrow> handler_ok sole m (its @ xs) h"
  by (auto simp: item_ok_def handler_ok_def nth_append split: option.splits)

lemma handler_ok_upd:
  assumes "\<And>x. ti_conn (f x) = ti_conn x"
  shows "handler_ok sole n (upd_at i f its) h = handler_ok sole n its h"
  by (simp add: handler_ok_def upd_at_field [where g = ti_conn, OF assms] split: option.split)

definition tcp_frames :: "'m TCP \<Rightarrow> bool" where
  "tcp_frames t \<longleftrightarrow> (\<forall>c < length (t_conns t). \<forall>b \<in> set (ic_out (t_conns t ! c)). frame_of (t_items t) c b)"

definition tcp_inv :: "bool \<Rightarrow> ('m, nat) cmap \<Rightarrow> 'm TCP \<Rightarrow> bool" where
  "tcp_inv sole cm t \<longleftrightarrow> tcp_tab cm t \<and> tcp_refs sole t \<and> (sole \<longrightarrow> tcp_frames t)"

lemmas tcp_inv_defs = tcp_inv_def tcp_tab_def tcp_refs_def tcp_frames_def

lemma tcp_inv_released: "cmap_laws cm \<Longrightarrow> tcp_inv sole cm t \<Longrightarrow> tcp_inv sole cm (tcp_released cm i t)"
  by (auto simp: tcp_inv_defs tcp_released_def cmap_Remove split: if_splits dest!: in_remove1D)

lemma tcp_inv_ends: "tcp_inv sole cm t \<Longrightarrow> tcp_inv sole cm (handler_ends h t)"
  by (auto simp: tcp_inv_defs handler_ends_def dest!: in_remove1D)

text \<open>A verdict of the collector closes connections and items, or changes only the collector.\<close>

lemma tcp_check_cases:
  assumes "mgr_gcIterCb (t_userConns t) = Some (tcp_gc_cb idle)"
  obtains (kept) g where "tcp_check t = t\<lparr>t_gc := g\<rparr>"
  | (closed) g c v where "tcp_check t = t\<lparr>t_gc := g, t_conns := conn_Close c (t_conns t), t_items := item_Close v (t_items t)\<rparr>"
proof (cases "gc_items (t_gc t)")
  case Nil
  then show ?thesis using kept [of "t_gc t"] by (simp add: tcp_check_def gc_check_def assms)
next
  case (Cons kv r)
  obtain k v where kv: "kv = (k, v)" by (cases kv)
  show ?thesis
  proof (cases "gc_now (t_gc t) - ti_lastActiveTime (t_items t ! v) > idle")
    case True
    then show ?thesis using Cons closed [where v = v and c = "ti_conn (t_items t ! v)"]
      by (simp add: kv tcp_check_def gc_check_def assms tcp_gc_cb_def)
  next
    case False
    then show ?thesis using Cons kept by (simp add: kv tcp_check_def gc_check_def assms tcp_gc_cb_def)
  qed
qed

lemma tcp_inv_check:
  assumes "tcp_inv sole cm t"
  shows "tcp_inv sole cm (tcp_check t)"
proof -
  have "mgr_gcIterCb (t_userConns t) = Some (tcp_gc_cb (t_udpIdleTime t))" using assms by (simp add: tcp_inv_defs)
  then show ?thesis
    using assms by (cases rule: tcp_check_cases) (simp_all add: tcp_inv_defs)
qed

lemma tcp_inv_remove: "cmap_laws cm \<Longrightarrow> tcp_inv sole cm t \<Longrightarrow> tcp_inv sole cm (tcp_remove cm t)"
  by (auto simp: tcp_remove_def gc_remove_def tcp_inv_defs cmap_Remove split: option.splits if_splits)

lemma tcp_inv_Stop: "tcp_inv sole cm t \<Longrightarrow> tcp_inv sole cm (tcp_Stop cm t)"
  by (simp add: tcp_Stop_def tcp_inv_defs Let_def)

lemma tcp_inv_copied: "cmap_laws cm \<Longrightarrow> tcp_inv sole cm t \<Longrightarrow> tcp_inv sole cm (stream_released cm c t)"
  by (simp add: stream_released_def tcp_inv_defs cmap_Remove)

text \<open>A new connection.\<close>

lemma tcp_inv_conn:
  assumes "tcp_inv sole cm t"
  shows "tcp_inv sole cm (t\<lparr>t_conns := t_conns t @ [new_conn addr]\<rparr>)"
proof -
  let ?n = "length (t_conns t)"
  have "item_ok sole ?n x \<Longrightarrow> item_ok sole (Suc ?n) x" "handler_ok sole ?n its h \<Longrightarrow> handler_ok sole (Suc ?n) its h" for x its h
    using ok_less(1) [where n = ?n and m = "Suc ?n"] ok_less(2) [where n = ?n and m = "Suc ?n" and xs = "[]"] by simp_all
  moreover have "c < ?n \<and> P \<Longrightarrow> c < Suc ?n" for c P by simp
  ultimately show ?thesis
    using assms by (fastforce simp: tcp_inv_defs nth_append new_conn_def less_Suc_eq)
qed

lemma tcp_inv_Stream:
  assumes "cmap_laws cm" "tcp_inv sole cm t" "t_ParentType t \<noteq> ''udp''" "c < length (t_conns t)"
  shows "tcp_inv sole cm (proxyStream2Stream cm ok c t)"
proof -
  obtain m cs where u: "tcp_upsert cm (ic_addr (t_conns t ! c)) c (mgr_map (t_userConns t)) (t_conns t) = (m, cs)" by fastforce
  have cs: "length cs = length (t_conns t)" "ic_addr (cs ! j) = ic_addr (t_conns t ! j)" "ic_out (cs ! j) = ic_out (t_conns t ! j)" for j
    using u by (auto simp: tcp_upsert_def split: option.splits)
  have "cm_Get cm k m = (if k = ic_addr (t_conns t ! c) then Some c else cm_Get cm k (mgr_map (t_userConns t)))" for k
    using u by (auto simp: tcp_upsert_def cmap_Upsert [OF assms(1)])
  then show ?thesis
    using assms(2-4) by (simp add: proxyStream2Stream_def u tcp_inv_defs cs)
qed

lemma tcp_inv_handler:
  assumes "cmap_laws cm" "tcp_inv sole cm t"
  shows "tcp_inv sole cm (tcp_handler cm ok' ok addr t)"
proof -
  define t1 where "t1 = t\<lparr>t_conns := t_conns t @ [new_conn addr]\<rparr>"
  have t1: "tcp_inv sole cm t1" "t_ParentType t1 = t_ParentType t" "t_handlers t1 = t_handlers t"
    "length (t_conns t1) = Suc (length (t_conns t))"
    using tcp_inv_conn [OF assms(2)] by (simp_all add: t1_def)
  have h: "tcp_handler cm ok' ok addr t =
      (if t_ParentType t \<in> {''tcp'', ''tls'', ''stcp'', ''kcp''} then proxyStream2Stream cm ok (length (t_conns t)) t1
       else if t_ParentType t = ''udp'' \<and> ok' then t1\<lparr>t_handlers := (length (t_conns t), None) # t_handlers t\<rparr>
       else t1\<lparr>t_conns := conn_Close (length (t_conns t)) (t_conns t1)\<rparr>)"
    unfolding tcp_handler_def t1_def Let_def by (rule refl)
  have "tcp_inv sole cm (t1\<lparr>t_handlers := (length (t_conns t), None) # t_handlers t\<rparr>)" if "t_ParentType t = ''udp''"
    using t1 that by (simp add: tcp_inv_defs handler_ok_def)
  moreover have "tcp_inv sole cm (t1\<lparr>t_conns := conn_Close (length (t_conns t)) (t_conns t1)\<rparr>)"
    using t1 by (simp add: tcp_inv_defs)
  moreover have "tcp_inv sole cm (proxyStream2Stream cm ok (length (t_conns t)) t1)" if "t_ParentType t \<noteq> ''udp''"
    using tcp_inv_Stream [OF assms(1) t1(1)] t1 that by simp
  ultimately show ?thesis unfolding h by auto
qed

text \<open>The handlers of a UDP parent.\<close>

lemma tcp_handlers_udp: "tcp_inv sole cm t \<Longrightarrow> h \<in> set (t_handlers t) \<Longrightarrow> t_ParentType t = ''udp''"
  by (auto simp: tcp_inv_defs)

lemma tcp_inv_in: "tcp_inv sole cm t \<Longrightarrow> tcp_inv sole cm (t\<lparr>t_conns := upd_at c (\<lambda>x. x\<lparr>ic_in := f x\<rparr>) (t_conns t)\<rparr>)"
  by (simp add: tcp_inv_defs upd_at_field)

lemma tcp_inv_set_handlers:
  assumes "tcp_inv sole cm t" "t_ParentType t = ''udp''" "\<And>h. h \<in> set hs \<Longrightarrow> handler_ok sole (length (t_conns t)) (t_items t) h"
  shows "tcp_inv sole cm (t\<lparr>t_handlers := hs\<rparr>)"
  using assms by (simp add: tcp_inv_defs)

lemma tcp_do_inv:
  assumes "cmap_laws cm" "tcp_inv sole cm t" "t_ParentType t = ''udp''" "c < length (t_conns t)"
    and "\<not> (sole \<and> foreign_item cm c k t)" "tcp_do cm ok resolved c k t = (r, t')"
  shows "tcp_inv sole cm t' \<and> t_ParentType t' = ''udp'' \<and> t_conns t' = t_conns t \<and> t_handlers t' = t_handlers t \<and>
    (\<forall>i d. r = Some i \<longrightarrow> handler_ok sole (length (t_conns t')) (t_items t') (c, Some (i, d)))"
proof (cases "cm_Get cm k (mgr_map (t_userConns t))")
  case (Some v)
  then show ?thesis using assms by (auto simp: tcp_do_def tcp_inv_defs handler_ok_def foreign_item_def)
next
  case None
  show ?thesis
  proof (cases ok)
    case True
    let ?x = "\<lparr>ti_conn = c, ti_key = k, ti_src = resolved, ti_lastActiveTime = 0, ti_closed = False, ti_out = [], ti_replies = []\<rparr>"
    have t': "r = Some (length (t_items t))" "t' = t\<lparr>t_items := t_items t @ [?x],
        t_userConns := (t_userConns t)\<lparr>mgr_map := cm_Set cm k (length (t_items t)) (mgr_map (t_userConns t))\<rparr>,
        t_readers := length (t_items t) # t_readers t\<rparr>"
      using None True assms(6) by (simp_all add: tcp_do_def)
    have "tcp_tab cm t'"
      using assms(2,3) by (auto simp: t' tcp_inv_defs nth_append less_Suc_eq cmap_Set [OF assms(1)])
    moreover have "tcp_refs sole t'"
      using assms(2,4) ok_less(2) [where m = "length (t_conns t)" and xs = "[?x]"]
      by (auto simp: t' tcp_inv_defs nth_append less_Suc_eq item_ok_def)
    moreover have "sole \<Longrightarrow> tcp_frames t'"
      using assms(2) by (simp add: t' tcp_inv_defs frame_of_append)
    ultimately show ?thesis using assms(3,4) by (simp add: t' tcp_inv_def handler_ok_def)
  qed (use None assms in \<open>auto simp: tcp_do_def\<close>)
qed

lemma tcp_inv_round:
  assumes "cmap_laws cm" "tcp_inv sole cm t" "(c, None) \<in> set (t_handlers t)"
    and "\<And>da rest. r = Inr (da, rest) \<Longrightarrow> \<not> (sole \<and> foreign_item cm c (AddrSpec_String (Addr da)) t)"
  shows "tcp_inv sole cm (tcp_round cm ok resolved c r t)"
proof (cases "t_cancelled t \<or> (\<exists>e. r = Inl e)")
  case True
  then show ?thesis using tcp_inv_ends [OF assms(2)] assms(2) by (auto simp: tcp_round_def)
next
  case False
  then obtain da rest where r: "r = Inr (da, rest)" by (cases r) auto
  define t1 where "t1 = t\<lparr>t_conns := upd_at c (\<lambda>x. x\<lparr>ic_in := rest\<rparr>) (t_conns t)\<rparr>"
  have udp: "t_ParentType t1 = ''udp''" using tcp_handlers_udp [OF assms(2,3)] by (simp add: t1_def)
  have inv1: "tcp_inv sole cm t1" using tcp_inv_in [OF assms(2)] by (simp add: t1_def)
  have c: "c < length (t_conns t1)" using assms(2,3) by (auto simp: t1_def tcp_inv_defs handler_ok_def)
  obtain q t2 where t2: "tcp_do cm ok resolved c (AddrSpec_String (Addr da)) t1 = (q, t2)" by fastforce
  have "\<not> (sole \<and> foreign_item cm c (AddrSpec_String (Addr da)) t1)"
    using assms(4) [OF r] by (simp add: t1_def foreign_item_def cong: option.case_cong)
  note 2 = tcp_do_inv [OF assms(1) inv1 udp c this t2]
  show ?thesis
  proof (cases q)
    case None
    from 2 have "tcp_inv sole cm (handler_ends (c, None) t2)" using tcp_inv_ends by blast
    then show ?thesis using False None by (simp add: tcp_round_def r t1_def [symmetric] t2)
  next
    case (Some i)
    have "handler_ok sole (length (t_conns t2)) (t_items t2) h" if "h \<in> set ((c, Some (i, Data da)) # remove1 (c, None) (t_handlers t2))" for h
      using that 2 Some by (auto simp: tcp_inv_defs dest!: in_remove1D)
    then have "tcp_inv sole cm (t2\<lparr>t_handlers := (c, Some (i, Data da)) # remove1 (c, None) (t_handlers t2)\<rparr>)"
      using 2 by (intro tcp_inv_set_handlers) auto
    then show ?thesis using False Some by (simp add: tcp_round_def r t1_def [symmetric] t2)
  qed
qed

lemma tcp_inv_touch: "tcp_inv sole cm t \<Longrightarrow> tcp_inv sole cm (t\<lparr>t_items := upd_at i (\<lambda>x. x\<lparr>ti_lastActiveTime := now\<rparr>) (t_items t)\<rparr>)"
  by (auto simp: tcp_inv_defs upd_at_field handler_ok_upd item_ok_def intro!: frame_of_upd)

lemma tcp_inv_write:
  assumes "tcp_inv sole cm t" "(c, Some (i, d)) \<in> set (t_handlers t)"
  shows "tcp_inv sole cm (tcp_write ok now c i d t)"
proof -
  let ?its = "upd_at i (\<lambda>x. x\<lparr>ti_lastActiveTime := now, ti_out := ti_out x @ [(c, d)]\<rparr>) (t_items t)"
  have h: "handler_ok sole (length (t_conns t)) (t_items t) (c, Some (i, d))"
    using assms by (auto simp: tcp_inv_defs)
  have "item_ok sole (length (t_conns t)) (?its ! j)" if "j < length (t_items t)" for j
    using that assms(1) h by (cases "j = i") (auto simp: tcp_inv_defs item_ok_def handler_ok_def)
  moreover have "frame_of (t_items t) c' b \<Longrightarrow> frame_of ?its c' b" for c' b by (rule frame_of_upd) auto
  ultimately have "tcp_inv sole cm (t\<lparr>t_items := ?its\<rparr>)"
    using assms(1) unfolding tcp_inv_defs by (simp add: upd_at_field handler_ok_upd)
  moreover have "handler_ok sole (length (t_conns t)) ?its h'" if "h' \<in> set ((c, None) # remove1 (c, Some (i, d)) (t_handlers t))" for h'
  proof -
    have "handler_ok sole (length (t_conns t)) (t_items t) (c, None)" using h by (simp add: handler_ok_def)
    moreover have "h' = (c, None) \<or> h' \<in> set (t_handlers t)" using that by (auto dest: in_remove1D)
    ultimately have "handler_ok sole (length (t_conns t)) (t_items t) h'"
      using assms(1) by (auto simp: tcp_inv_def tcp_refs_def)
    then show ?thesis by (simp add: handler_ok_upd)
  qed
  ultimately have "tcp_inv sole cm (t\<lparr>t_items := ?its, t_handlers := (c, None) # remove1 (c, Some (i, d)) (t_handlers t)\<rparr>)"
    using tcp_inv_set_handlers [of sole cm "t\<lparr>t_items := ?its\<rparr>" "(c, None) # remove1 (c, Some (i, d)) (t_handlers t)"]
      tcp_handlers_udp [OF assms] by simp
  then show ?thesis using tcp_inv_ends [OF tcp_inv_touch [OF assms(1)]] by (simp add: tcp_write_def)
qed

text \<open>A reader.\<close>

lemma tcp_inv_reader:
  assumes "cmap_laws cm" "tcp_inv sole cm t" "i \<in> set (t_readers t)" "\<not> (sole \<and> fails \<noteq> None \<and> fails \<noteq> Some 0)"
  shows "tcp_inv sole cm (tcp_reader cm now fails i r t)"
proof (cases r)
  case (Inl e)
  then show ?thesis using tcp_inv_released [OF assms(1,2)] by (simp add: tcp_reader_def)
next
  case (Inr p)
  define d where "d = take BindingSize p"
  define its where "its = upd_at i (\<lambda>x. x\<lparr>ti_lastActiveTime := now, ti_replies := d # ti_replies x\<rparr>) (t_items t)"
  have i: "i < length (t_items t)" using assms(2,3) by (simp add: tcp_inv_defs)
  have fr: "frame_of (t_items t) c b \<Longrightarrow> frame_of its c b" for c b
    unfolding its_def by (rule frame_of_upd) auto
  have f: "length its = length (t_items t)" "ti_conn (its ! j) = ti_conn (t_items t ! j)" "ti_key (its ! j) = ti_key (t_items t ! j)"
    "item_ok sole n (its ! j) = item_ok sole n (t_items t ! j)" "handler_ok sole n its h = handler_ok sole n (t_items t) h" for j n h
    by (simp_all add: its_def upd_at_field handler_ok_upd item_ok_def)
  have inv: "tcp_inv sole cm (t\<lparr>t_items := its\<rparr>)"
    using assms(2) fr by (simp add: tcp_inv_defs f)
  show ?thesis
  proof (cases "stream_frame (ti_src (t_items t ! i)) d")
    case (Inl e)
    then show ?thesis using tcp_inv_released [OF assms(1) inv] Inr
      by (simp add: tcp_reader_def d_def [symmetric] its_def [symmetric])
  next
    case (Inr b)
    define cs where "cs = upd_at (ti_conn (t_items t ! i)) (\<lambda>x. if ic_closed x then x
       else case fails of None \<Rightarrow> x\<lparr>ic_out := ic_out x @ [b]\<rparr>
              | Some n \<Rightarrow> if n = 0 then x else x\<lparr>ic_out := ic_out x @ [take n b]\<rparr>) (t_conns t)"
    have cs: "length cs = length (t_conns t)" "ic_addr (cs ! j) = ic_addr (t_conns t ! j)" for j
      by (simp_all add: cs_def upd_at_field split: option.split)
    have "frame_of its (ti_conn (t_items t ! i)) b"
      unfolding frame_of_def using i Inr by (intro exI [of _ i]) (simp add: its_def)
    then have "frame_of its c b'" if "sole" "c < length (t_conns t)" "b' \<in> set (ic_out (cs ! c))" for c b'
      using that assms(2,4) fr by (auto simp: cs_def tcp_inv_defs split: if_splits option.splits)
    then have "tcp_inv sole cm (t\<lparr>t_items := its, t_conns := cs\<rparr>)"
      using inv by (simp add: tcp_inv_defs cs)
    then show ?thesis using \<open>r = Inr p\<close> Inr by (simp add: tcp_reader_def d_def [symmetric] its_def [symmetric] cs_def)
  qed
qed

lemma tcp_inv_step:
  assumes "tcp_step sole cm t t'" "cmap_laws cm" "tcp_inv sole cm t"
  shows "tcp_inv sole cm t'"
  using assms(1)
proof (cases rule: tcp_step.cases)
  case (tcp_ticks now)
  then show ?thesis using assms(3) by (simp add: tcp_tick_def tcp_inv_defs)
next
  case (tcp_reads c da rest ok resolved)
  then show ?thesis using tcp_inv_round [OF assms(2,3), of c "Inr (da, rest)"] by simp
next
  case (tcp_read_fails c ok resolved err)
  then show ?thesis using tcp_inv_round [OF assms(2,3), of c "Inl err"] by simp
qed (use assms(2,3) in \<open>simp_all add: tcp_inv_handler tcp_inv_copied tcp_inv_in tcp_inv_round tcp_inv_write tcp_inv_reader
      tcp_inv_check tcp_inv_remove tcp_inv_Stop\<close>)

lemma tcp_reach_inv:
  assumes "tcp_reach sole cm t" "cmap_laws cm"
  shows "tcp_inv sole cm t"
  using assms
proof (induction rule: tcp_reach.induct)
  case (tcp_reach_started pt idle)
  then show ?case by (simp add: tcp_inv_defs tcp_started_def tcp_New_def mgr_New_def cmap_New Let_def)
next
  case (tcp_reach_step t t')
  then show ?case by (blast intro: tcp_inv_step)
qed

subsection \<open>An example run\<close>

definition example_frame :: "byte \<Rightarrow> bytes" where
  "example_frame x = [0, 1, 10, 0, 0, 1, 0, 53, 1, x]"

definition example_datagram :: "byte \<Rightarrow> Datagram" where
  "example_datagram x = \<lparr>Reserved = 0, Addr = \<lparr>FQDN = [], IP = IPv4 10 0 0 1, Port = 53, AddrType = 1\<rparr>, Data = [x]\<rparr>"

lemma example_eval:
  "ParseStreamDatagram (example_frame 5) = Inr (example_datagram 5, [])"
  "ParseStreamDatagram (example_frame 6) = Inr (example_datagram 6, [])"
  "stream_frame ''10.0.0.1:53'' [7] = Inr (example_frame 7)"
  by code_simp+

lemma example_key: "AddrSpec_String (Addr (example_datagram x)) = ''10.0.0.1:53''"
  by code_simp

text \<open>A connection that carries a datagram of the source \<open>10.0.0.1:53\<close>, its request and its answer.\<close>

definition ex_t1 :: "(string, nat) alist TCP" where
  "ex_t1 = (let t = tcp_handler alist_cmap True True ''a:1'' (tcp_started alist_cmap ''udp'' [])
    in t\<lparr>t_conns := upd_at 0 (\<lambda>x. x\<lparr>ic_in := ic_in x @ example_frame 5\<rparr>) (t_conns t)\<rparr>)"

definition ex_t2 :: "(string, nat) alist TCP" where
  "ex_t2 = tcp_round alist_cmap True ''10.0.0.1:53'' 0 (Inr (example_datagram 5, [])) ex_t1"

definition ex_t3 :: "(string, nat) alist TCP" where
  "ex_t3 = tcp_write True 20 0 0 [5] ex_t2"

lemma ex_t1_eval:
  "t_conns ex_t1 = [\<lparr>ic_addr = ''a:1'', ic_in = example_frame 5, ic_out = [], ic_closed = False\<rparr>]"
  "t_items ex_t1 = []" "t_handlers ex_t1 = [(0, None)]" "t_readers ex_t1 = []" "t_cancelled ex_t1 = False"
  "t_open ex_t1 = True" "t_ParentType ex_t1 = ''udp''" "t_gc ex_t1 = gc_idle"
  "t_userConns ex_t1 = \<lparr>mgr_map = DAList.empty, mgr_interval = 1000000000, mgr_gcIterCb = Some (tcp_gc_cb 10)\<rparr>"
  by (simp_all add: ex_t1_def tcp_handler_def tcp_started_def tcp_New_def tcp_defaultUDPIdleTime_def mgr_New_def new_conn_def alist_cmap_def Let_def upd_at_def)

lemma ex_t2_eval:
  "t_conns ex_t2 = [\<lparr>ic_addr = ''a:1'', ic_in = [], ic_out = [], ic_closed = False\<rparr>]"
  "t_items ex_t2 = [\<lparr>ti_conn = 0, ti_key = ''10.0.0.1:53'', ti_src = ''10.0.0.1:53'', ti_lastActiveTime = 0,
     ti_closed = False, ti_out = [], ti_replies = []\<rparr>]"
  "t_handlers ex_t2 = [(0, Some (0, [5]))]" "t_readers ex_t2 = [0]" "t_cancelled ex_t2 = False" "t_open ex_t2 = True"
  "t_ParentType ex_t2 = ''udp''" "t_gc ex_t2 = gc_idle"
  "t_userConns ex_t2 = \<lparr>mgr_map = DAList.update ''10.0.0.1:53'' 0 DAList.empty, mgr_interval = 1000000000, mgr_gcIterCb = Some (tcp_gc_cb 10)\<rparr>"
  by (simp_all add: ex_t2_def tcp_round_def ex_t1_eval example_key tcp_do_def alist_cmap_def lookup_empty Let_def upd_at_def)
    (simp_all add: example_datagram_def)

lemma ex_t3_eval:
  "t_conns ex_t3 = t_conns ex_t2"
  "t_items ex_t3 = [\<lparr>ti_conn = 0, ti_key = ''10.0.0.1:53'', ti_src = ''10.0.0.1:53'', ti_lastActiveTime = 20,
     ti_closed = False, ti_out = [(0, [5])], ti_replies = []\<rparr>]"
  "t_handlers ex_t3 = [(0, None)]" "t_readers ex_t3 = [0]" "t_cancelled ex_t3 = False" "t_open ex_t3 = True"
  "t_ParentType ex_t3 = ''udp''" "t_userConns ex_t3 = t_userConns ex_t2"
  by (simp_all add: ex_t3_def tcp_write_def ex_t2_eval upd_at_def)

lemma ex_reach:
  "tcp_reach sole alist_cmap ex_t1" "tcp_reach sole alist_cmap ex_t2" "tcp_reach sole alist_cmap ex_t3"
proof -
  show 1: "tcp_reach sole alist_cmap ex_t1"
    unfolding ex_t1_def Let_def
    by (rule tcp_reach_step [OF tcp_reach_step [OF tcp_reach_started tcp_accept] tcp_arrive]) (simp add: tcp_started_def)
  show 2: "tcp_reach sole alist_cmap ex_t2"
    unfolding ex_t2_def
    by (rule tcp_reach_step [OF 1 tcp_reads]) (simp_all add: ex_t1_eval example_eval foreign_item_def alist_cmap_def lookup_empty)
  show "tcp_reach sole alist_cmap ex_t3"
    unfolding ex_t3_def by (rule tcp_reach_step [OF 2 tcp_writes]) (simp add: ex_t2_eval)
qed

subsection \<open>Properties\<close>



text \<open>Without the restriction two clients can be mixed up: a second connection that carries
  datagrams of a source address already in the table, of another client, shares that client's
  item; the datagram goes out on its socket and the answer is written on the first connection. And a
  new item is filed with time zero, so that a tick before the handler has stored the time closes
  its socket and its connection at once.\<close>

theorem tcp_anomalies:
  "(\<exists>t. tcp_reach False alist_cmap t \<and> length (t_items t) = 1 \<and> ti_out (t_items t ! 0) = [(0, [5]), (1, [6])] \<and>
      ic_out (t_conns t ! 0) = [example_frame 7] \<and> ic_out (t_conns t ! 1) = []) \<and>
   (\<exists>t. tcp_reach True alist_cmap t \<and> t_handlers t = [(0, Some (0, [5]))] \<and> ti_lastActiveTime (t_items t ! 0) = 0 \<and>
      ti_closed (t_items t ! 0) \<and> ic_closed (t_conns t ! 0))"
proof
  define t4 where "t4 = tcp_handler alist_cmap True True ''b:2'' ex_t3"
  define t5 where "t5 = t4\<lparr>t_conns := upd_at 1 (\<lambda>x. x\<lparr>ic_in := ic_in x @ example_frame 6\<rparr>) (t_conns t4)\<rparr>"
  define t6 where "t6 = tcp_round alist_cmap True ''10.0.0.1:53'' 1 (Inr (example_datagram 6, [])) t5"
  define t7 where "t7 = tcp_write True 21 1 0 [6] t6"
  define t8 where "t8 = tcp_reader alist_cmap 22 None 0 (Inr [7]) t7"
  have r4: "tcp_reach False alist_cmap t4"
    unfolding t4_def by (rule tcp_reach_step [OF ex_reach(3) tcp_accept]) (simp add: ex_t3_eval)
  have r5: "tcp_reach False alist_cmap t5"
    unfolding t5_def by (rule tcp_reach_step [OF r4 tcp_arrive])
  have t5: "t_conns t5 = [\<lparr>ic_addr = ''a:1'', ic_in = [], ic_out = [], ic_closed = False\<rparr>,
      \<lparr>ic_addr = ''b:2'', ic_in = example_frame 6, ic_out = [], ic_closed = False\<rparr>]"
    "t_handlers t5 = [(1, None), (0, None)]" "t_items t5 = t_items ex_t3" "t_readers t5 = [0]" "t_cancelled t5 = False"
    "t_userConns t5 = t_userConns ex_t2" "t_ParentType t5 = ''udp''"
    by (simp_all add: t5_def t4_def tcp_handler_def ex_t3_eval ex_t2_eval new_conn_def Let_def upd_at_def)
  have r6: "tcp_reach False alist_cmap t6"
    unfolding t6_def by (rule tcp_reach_step [OF r5 tcp_reads]) (simp_all add: t5 example_eval)
  have t6: "t_conns t6 = [\<lparr>ic_addr = ''a:1'', ic_in = [], ic_out = [], ic_closed = False\<rparr>,
      \<lparr>ic_addr = ''b:2'', ic_in = [], ic_out = [], ic_closed = False\<rparr>]"
    "t_handlers t6 = [(1, Some (0, [6])), (0, None)]" "t_items t6 = t_items ex_t3" "t_readers t6 = [0]"
    "t_userConns t6 = t_userConns ex_t2"
    by (simp_all add: t6_def tcp_round_def t5 example_key tcp_do_def alist_cmap_def ex_t2_eval lookup_update Let_def upd_at_def)
      (simp_all add: example_datagram_def)
  have r7: "tcp_reach False alist_cmap t7"
    unfolding t7_def by (rule tcp_reach_step [OF r6 tcp_writes]) (simp add: t6)
  have t7: "t_conns t7 = t_conns t6" "t_readers t7 = [0]"
    "t_items t7 = [\<lparr>ti_conn = 0, ti_key = ''10.0.0.1:53'', ti_src = ''10.0.0.1:53'', ti_lastActiveTime = 21,
       ti_closed = False, ti_out = [(0, [5]), (1, [6])], ti_replies = []\<rparr>]"
    by (simp_all add: t7_def tcp_write_def t6 ex_t3_eval upd_at_def)
  have "tcp_reach False alist_cmap t8"
    unfolding t8_def by (rule tcp_reach_step [OF r7 tcp_answers]) (simp_all add: t7)
  moreover have "length (t_items t8) = 1" "ti_out (t_items t8 ! 0) = [(0, [5]), (1, [6])]"
    "ic_out (t_conns t8 ! 0) = [example_frame 7]" "ic_out (t_conns t8 ! 1) = []"
    by (simp_all add: t8_def tcp_reader_def t7 t6 BindingSize_def example_eval upd_at_def Let_def)
  ultimately show "\<exists>t. tcp_reach False alist_cmap t \<and> length (t_items t) = 1 \<and> ti_out (t_items t ! 0) = [(0, [5]), (1, [6])] \<and>
      ic_out (t_conns t ! 0) = [example_frame 7] \<and> ic_out (t_conns t ! 1) = []" by blast
next
  define t where "t = tcp_check (tcp_tick alist_cmap 1000 ex_t2)"
  have "tcp_reach True alist_cmap (tcp_tick alist_cmap 1000 ex_t2)"
    by (rule tcp_reach_step [OF ex_reach(2) tcp_ticks]) (simp_all add: ex_t2_eval watches_def gc_busy_def gc_idle_def)
  then have "tcp_reach True alist_cmap t"
    unfolding t_def by (rule tcp_reach_step [OF _ tcp_checks]) (simp add: tcp_tick_def gc_tick_def)
  moreover have "t_handlers t = [(0, Some (0, [5]))]" "ti_lastActiveTime (t_items t ! 0) = 0" "ti_closed (t_items t ! 0)" "ic_closed (t_conns t ! 0)"
    by (simp_all add: t_def tcp_check_def tcp_tick_def gc_tick_def gc_check_def tcp_gc_cb_def ex_t2_eval alist_cmap_def
        update.rep_eq empty.rep_eq conn_Close_def item_Close_def upd_at_def)
  ultimately show "\<exists>t. tcp_reach True alist_cmap t \<and> t_handlers t = [(0, Some (0, [5]))] \<and> ti_lastActiveTime (t_items t ! 0) = 0 \<and>
      ti_closed (t_items t ! 0) \<and> ic_closed (t_conns t ! 0)" by blast
qed

subsection \<open>The loop of a handler\<close>

text \<open>\<open>n\<close> rounds of \<open>proxyStream2UDP\<close> on a connection when nothing interferes, dialling succeeds and
  the writes to the parent succeed.\<close>

definition serve_round :: "('m, nat) cmap \<Rightarrow> int \<Rightarrow> nat \<Rightarrow> 'm TCP \<Rightarrow> 'm TCP" where
  "serve_round cm now c t =
     (case ParseStreamDatagram (ic_in (t_conns t ! c)) of
        Inl err \<Rightarrow> tcp_round cm True [] c (Inl err) t
      | Inr (da, rest) \<Rightarrow>
          (let k = AddrSpec_String (Addr da); t' = tcp_round cm True k c (Inr (da, rest)) t
           in case cm_Get cm k (mgr_map (t_userConns t')) of
                None \<Rightarrow> t'
              | Some i \<Rightarrow> tcp_write True now c i (Data da) t'))"

definition serve :: "('m, nat) cmap \<Rightarrow> int \<Rightarrow> nat \<Rightarrow> nat \<Rightarrow> 'm TCP \<Rightarrow> 'm TCP" where
  "serve cm now c n t = (serve_round cm now c ^^ n) t"

definition serving :: "('m, nat) cmap \<Rightarrow> nat \<Rightarrow> string \<Rightarrow> nat \<Rightarrow> (nat \<times> bytes) list \<Rightarrow> bytes \<Rightarrow> 'm TCP \<Rightarrow> bool" where
  "serving cm c k i sent r t \<longleftrightarrow>
     (c, None) \<in> set (t_handlers t) \<and> \<not> t_cancelled t \<and> c < length (t_conns t) \<and> ic_in (t_conns t ! c) = r \<and>
     cm_Get cm k (mgr_map (t_userConns t)) = Some i \<and> i < length (t_items t) \<and> \<not> ti_closed (t_items t ! i) \<and>
     ti_out (t_items t ! i) = sent"

lemma serve_round_known:
  assumes "serving cm c (AddrSpec_String (Addr da)) i sent r t" "ParseStreamDatagram r = Inr (da, rest)"
  shows "serving cm c (AddrSpec_String (Addr da)) i (sent @ [(c, Data da)]) rest (serve_round cm now c t)"
  using assms by (simp add: serving_def serve_round_def tcp_round_def tcp_do_def tcp_write_def Let_def upd_at_field)

lemma serve_round_new:
  assumes "cmap_laws cm" "(c, None) \<in> set (t_handlers t)" "\<not> t_cancelled t" "c < length (t_conns t)"
    and "cm_Get cm (AddrSpec_String (Addr da)) (mgr_map (t_userConns t)) = None"
    and "ParseStreamDatagram (ic_in (t_conns t ! c)) = Inr (da, rest)"
  shows "serving cm c (AddrSpec_String (Addr da)) (length (t_items t)) [(c, Data da)] rest (serve_round cm now c t)"
  using assms(2-) by (simp add: serving_def serve_round_def tcp_round_def tcp_do_def tcp_write_def Let_def cmap_Set [OF assms(1)])

lemma serve_rest:
  assumes "parse_n (length ds) ParseStreamDatagram r = Inr (map (\<lambda>d. \<lparr>Reserved = 0, Addr = as, Data = d\<rparr>) ds, rest)"
    and "serving cm c (AddrSpec_String as) i sent r t"
  shows "serving cm c (AddrSpec_String as) i (sent @ map (Pair c) ds) rest (serve cm now c (length ds) t)"
  using assms
proof (induction ds arbitrary: r sent t)
  case Nil
  then show ?case by (simp add: serve_def)
next
  case (Cons d ds)
  then obtain r1 where p: "ParseStreamDatagram r = Inr (\<lparr>Reserved = 0, Addr = as, Data = d\<rparr>, r1)"
    "parse_n (length ds) ParseStreamDatagram r1 = Inr (map (\<lambda>d. \<lparr>Reserved = 0, Addr = as, Data = d\<rparr>) ds, rest)"
    by (cases "ParseStreamDatagram r"; cases "parse_n (length ds) ParseStreamDatagram (snd (projr (ParseStreamDatagram r)))") auto
  have "serving cm c (AddrSpec_String as) i (sent @ [(c, d)]) r1 (serve_round cm now c t)"
    using serve_round_known [of cm c "\<lparr>Reserved = 0, Addr = as, Data = d\<rparr>" i sent r t r1 now] Cons.prems(2) p(1) by simp
  from Cons.IH [OF p(2) this] show ?case by (simp add: serve_def funpow_swap1)
qed

text \<open>A connection that starts with frames of one source, not in the table yet, is served by sending
  their payloads to the parent in order on one new socket.\<close>

lemma serve_all:
  assumes "cmap_laws cm" "(c, None) \<in> set (t_handlers t)" "\<not> t_cancelled t" "c < length (t_conns t)"
    and "cm_Get cm (AddrSpec_String as) (mgr_map (t_userConns t)) = None" "ds \<noteq> []"
    and "parse_n (length ds) ParseStreamDatagram (ic_in (t_conns t ! c)) = Inr (map (\<lambda>d. \<lparr>Reserved = 0, Addr = as, Data = d\<rparr>) ds, rest)"
  shows "serving cm c (AddrSpec_String as) (length (t_items t)) (map (Pair c) ds) rest (serve cm now c (length ds) t)"
proof -
  obtain d ds' where ds: "ds = d # ds'" using assms(6) by (cases ds) auto
  then obtain r1 where p: "ParseStreamDatagram (ic_in (t_conns t ! c)) = Inr (\<lparr>Reserved = 0, Addr = as, Data = d\<rparr>, r1)"
    "parse_n (length ds') ParseStreamDatagram r1 = Inr (map (\<lambda>d. \<lparr>Reserved = 0, Addr = as, Data = d\<rparr>) ds', rest)"
    using assms(7) by (cases "ParseStreamDatagram (ic_in (t_conns t ! c))";
      cases "parse_n (length ds') ParseStreamDatagram (snd (projr (ParseStreamDatagram (ic_in (t_conns t ! c)))))") auto
  have "serving cm c (AddrSpec_String as) (length (t_items t)) [(c, d)] r1 (serve_round cm now c t)"
    using serve_round_new [OF assms(1-4), of "\<lparr>Reserved = 0, Addr = as, Data = d\<rparr>" r1 now] assms(5) p(1) by simp
  from serve_rest [OF p(2) this, of now] show ?thesis by (simp add: ds serve_def funpow_swap1)
qed

end
