(* ===== verification/Sni.thy ===== *)
theory Sni
  imports Go_Conn
begin

section \<open>connection/sni: the server name of a TLS client hello\<close>

text \<open>
  The connection is read through a \<open>bufio.Reader\<close> of 4096 bytes: \<open>fill_to\<close> is the loop of \<open>Peek\<close>,
  which reads until enough bytes are buffered, the buffer is full or the connection ends. The
  parser works on indices into the buffered record, and an access that the code does not guard
  well enough panics.
\<close>

definition bufio_size :: nat where "bufio_size = 4096"

fun fill_to :: "nat \<Rightarrow> bytes \<Rightarrow> bytes list \<Rightarrow> bytes \<times> bytes list" where
  "fill_to n buf [] = (buf, [])"
| "fill_to n buf (s # ss) =
     (if length buf < n \<and> length buf < bufio_size then
        let room = bufio_size - length buf in
        if length s \<le> room then fill_to n (buf @ s) ss else (buf @ take room s, drop room s # ss)
      else (buf, s # ss))"

definition Peek :: "nat \<Rightarrow> bytes \<Rightarrow> bytes list \<Rightarrow> bytes result \<times> bytes \<times> bytes list" where
  "Peek n buf ss =
     (case fill_to n buf ss of (buf, ss) \<Rightarrow>
        (if n > bufio_size then Inl (ErrMsg ''bufio: buffer full'')
         else if length buf < n then Inl EOF else Inr (take n buf), buf, ss))"

definition be16_at :: "bytes \<Rightarrow> nat \<Rightarrow> nat result" where
  "be16_at rest i =
     bindR (index_at rest i) (\<lambda>hi. bindR (index_at rest (i + 1)) (\<lambda>lo. Inr (unat hi * 256 + unat lo)))"

definition errMalformed :: error where
  "errMalformed = ErrMsg ''SNI: malformed client hello''"

text \<open>
  The body of the branch for a server name extension: the name. It has then moved the cursor by
  5, past the count, the type and the length of the name but not past the name itself.
\<close>

definition server_name :: "bytes \<Rightarrow> nat \<Rightarrow> string result" where
  "server_name rest current =
     (let current = current + 2 in
      if current > length rest then Inl errMalformed
      else bindR (index_at rest current) (\<lambda>nameType.
        let current = current + 1 in
        if nameType \<noteq> 0 then Inl (ErrMsg ''SNI: extension not a hostname'')
        else if current + 1 > length rest then Inl errMalformed
        else bindR (be16_at rest current) (\<lambda>nameLen.
          let current = current + 2 in
          if current + nameLen > length rest then Inl errMalformed
          else Inr (bytes_str (take nameLen (drop current rest))))))"

function sni_loop :: "bytes \<Rightarrow> nat \<Rightarrow> string \<Rightarrow> string result" where
  "sni_loop rest current hostname =
     (if current + 4 < length rest \<and> hostname = '''' then
        bindR (be16_at rest current) (\<lambda>extensionType.
        bindR (be16_at rest (current + 2)) (\<lambda>extensionDataLength.
          if extensionType = 0 then
            bindR (server_name rest (current + 4)) (\<lambda>h.
              sni_loop rest (current + 4 + 5 + extensionDataLength) h)
          else sni_loop rest (current + 4 + extensionDataLength) hostname))
      else Inr hostname)"
  by pat_completeness auto

termination
  by (relation "measure (\<lambda>(rest, current, _). length rest - current)") (auto split: if_splits)

definition parse_hello :: "bytes \<Rightarrow> string result" where
  "parse_hello rest =
     (if rest = [] then Inl errMalformed
      else if rest ! 0 \<noteq> 1 then Inl (ErrMsg ''SNI: not a ClientHello'')
      else let current = 38 in
        if current > length rest then Inl errMalformed
        else bindR (index_at rest current) (\<lambda>sessionIDLength.
          let current = current + 1 + unat sessionIDLength in
          if current + 1 > length rest then Inl errMalformed
          else bindR (be16_at rest current) (\<lambda>cipherSuiteLength.
            let current = current + 2 + cipherSuiteLength in
            if current > length rest then Inl errMalformed
            else bindR (index_at rest current) (\<lambda>compressionMethodLength.
              let current = current + 1 + unat compressionMethodLength in
              if current > length rest then Inl (ErrMsg ''SNI: no extensions'')
              else bindR (sni_loop rest (current + 2) '''') (\<lambda>hostname.
                if hostname = '''' then Inl (ErrMsg ''SNI: no hostname found'') else Inr hostname)))))"

definition getServername :: "bytes list \<Rightarrow> (string \<times> bytes) result \<times> bytes list" where
  "getServername ss =
     (case Peek 5 [] ss of
        (Inl e, _, ss) \<Rightarrow> (Inl e, ss)
      | (Inr b, buf, ss) \<Rightarrow>
          if b ! 0 \<noteq> 0x16 then (Inl (ErrMsg ''SNI: not TLS''), ss)
          else if b ! 1 < 3 \<or> (b ! 1 = 3 \<and> b ! 2 < 1) then (Inl (ErrMsg ''SNI: expected TLS version >= 3.1''), ss)
          else
            (case Peek (5 + (unat (b ! 3) * 256 + unat (b ! 4))) buf ss of
               (Inl e, _, ss) \<Rightarrow> (Inl e, ss)
             | (Inr al, buf, ss) \<Rightarrow> (bindR (parse_hello (drop 5 al)) (\<lambda>h. Inr (h, al)), ss)))"

text \<open>
  \<open>ServerNameFromConn\<close>: the name, and what a reader of the returned connection will see: the record,
  then what is still unread of the connection.
\<close>

definition ServerNameFromConn :: "bytes list \<Rightarrow> (string \<times> bytes list) result" where
  "ServerNameFromConn ss =
     (case getServername ss of
        (Inl e, _) \<Rightarrow> Inl e
      | (Inr (hostname, helloBytes), ss) \<Rightarrow> Inr (hostname, helloBytes # ss))"

text \<open>\<open>bytes.Reader\<close> returns everything that fits, so the data is one segment.\<close>

definition ServerNameFromBytes :: "bytes \<Rightarrow> string result" where
  "ServerNameFromBytes d = bindR (ServerNameFromConn [d]) (\<lambda>(h, _). Inr h)"

declare sni_loop.simps [simp del]

subsection \<open>The buffered reader\<close>

lemma fill_to_bytes: "fill_to n buf ss = (buf', ss') \<Longrightarrow> buf @ concat ss = buf' @ concat ss'"
proof (induction n buf ss rule: fill_to.induct)
  case (2 n buf s ss)
  then show ?case by (auto simp: Let_def split: if_splits)
qed simp

lemma fill_to_enough:
  "fill_to n buf ss = (buf', ss') \<Longrightarrow> n \<le> length (buf @ concat ss) \<Longrightarrow> n \<le> bufio_size \<Longrightarrow> n \<le> length buf'"
proof (induction n buf ss rule: fill_to.induct)
  case (2 n buf s ss)
  then show ?case by (auto simp: Let_def split: if_splits)
qed simp

lemma Peek_ok:
  assumes "n \<le> length (buf @ concat ss)" "n \<le> bufio_size"
  obtains buf' ss' where "Peek n buf ss = (Inr (take n (buf @ concat ss)), buf', ss')"
    "buf' @ concat ss' = buf @ concat ss" "n \<le> length buf'"
proof -
  obtain buf' ss' where f: "fill_to n buf ss = (buf', ss')" by fastforce
  have len: "n \<le> length buf'" by (rule fill_to_enough [OF f assms])
  moreover have all: "buf @ concat ss = buf' @ concat ss'" by (rule fill_to_bytes [OF f])
  ultimately have "take n (buf @ concat ss) = take n buf'" by simp
  with f len assms(2) have "Peek n buf ss = (Inr (take n (buf @ concat ss)), buf', ss')"
    by (simp add: Peek_def)
  with that all len show thesis by metis
qed

lemma Peek_bytes: "Peek n buf ss = (r, buf', ss') \<Longrightarrow> buf @ concat ss = buf' @ concat ss'"
  by (auto simp: Peek_def dest: fill_to_bytes split: prod.splits)

lemma Peek_Inr: "Peek n buf ss = (Inr b, buf', ss') \<Longrightarrow> b = take n buf' \<and> n \<le> length buf'"
  by (auto simp: Peek_def split: prod.splits if_splits)

subsection \<open>A client hello\<close>

definition be2 :: "nat \<Rightarrow> bytes" where
  "be2 n = [of_nat (n div 256), of_nat n]"

definition ext_bytes :: "nat \<times> bytes \<Rightarrow> bytes" where
  "ext_bytes e = be2 (fst e) @ be2 (length (snd e)) @ snd e"

definition wf_ext :: "nat \<times> bytes \<Rightarrow> bool" where
  "wf_ext e \<longleftrightarrow> 0 < fst e \<and> fst e < 65536 \<and> length (snd e) < 65536"

text \<open>The body of a server name extension for one host name.\<close>

definition name_ext :: "nat \<Rightarrow> bytes \<Rightarrow> nat \<times> bytes" where
  "name_ext k name = (0, be2 k @ [0] @ be2 (length name) @ name)"

lemma length_be2 [simp]: "length (be2 n) = 2"
  by (simp add: be2_def)

lemma be16_be2: "n < 65536 \<Longrightarrow> unat (of_nat (n div 256) :: byte) * 256 + unat (of_nat n :: byte) = n"
  by (simp add: unat_of_nat take_bit_eq_mod div_mult_mod_eq less_mult_imp_div_less)

lemma be16_at_be2:
  "n < 65536 \<Longrightarrow> length p = i \<Longrightarrow> be16_at (p @ be2 n @ r) i = Inr n"
  by (auto simp: be16_at_def be2_def index_at_def nth_append be16_be2)

lemma server_name_ok:
  assumes "length name < 65536"
  shows "server_name (p @ snd (name_ext k name) @ r) (length p) = Inr (bytes_str name)"
proof -
  let ?rest = "p @ be2 k @ [0] @ be2 (length name) @ name @ r"
  have "be16_at ((p @ be2 k @ [0]) @ be2 (length name) @ name @ r) (length p + 3) = Inr (length name)"
    using assms by (intro be16_at_be2) simp_all
  moreover have "index_at ?rest (length p + 2) = Inr 0"
    by (simp add: index_at_def nth_append)
  ultimately show ?thesis
    by (simp add: server_name_def name_ext_def Let_def numeral_eq_Suc)
qed

lemma sni_loop_done: "hostname \<noteq> '''' \<Longrightarrow> sni_loop rest current hostname = Inr hostname"
  by (subst sni_loop.simps) simp

lemma ext_header:
  assumes "t < 65536" "length d < 65536"
  shows "be16_at (p @ ext_bytes (t, d) @ r) (length p) = Inr t"
    "be16_at (p @ ext_bytes (t, d) @ r) (Suc (Suc (length p))) = Inr (length d)"
proof -
  have "be16_at (p @ be2 t @ (be2 (length d) @ d @ r)) (length p) = Inr t"
    using assms(1) by (rule be16_at_be2) simp
  then show "be16_at (p @ ext_bytes (t, d) @ r) (length p) = Inr t" by (simp add: ext_bytes_def)
  have "be16_at ((p @ be2 t) @ be2 (length d) @ d @ r) (length p + 2) = Inr (length d)"
    using assms(2) by (rule be16_at_be2) simp
  then show "be16_at (p @ ext_bytes (t, d) @ r) (Suc (Suc (length p))) = Inr (length d)" by (simp add: ext_bytes_def)
qed

lemma length_ext_bytes [simp]: "length (ext_bytes (t, d)) = 4 + length d"
  by (simp add: ext_bytes_def)

lemma length_name_ext: "length (snd (name_ext k name)) = 5 + length name"
  by (simp add: name_ext_def)

lemma sni_loop_name:
  assumes "name \<noteq> []" "length name + 5 < 65536"
  shows "sni_loop (p @ ext_bytes (name_ext k name) @ r) (length p) '''' = Inr (bytes_str name)"
proof -
  define d where "d = snd (name_ext k name)"
  have ext: "name_ext k name = (0, d)" by (simp add: d_def name_ext_def)
  have len: "length d = 5 + length name" unfolding d_def by (rule length_name_ext)
  then have hdr: "be16_at (p @ ext_bytes (0, d) @ r) (length p) = Inr 0"
    "be16_at (p @ ext_bytes (0, d) @ r) (Suc (Suc (length p))) = Inr (length d)"
    using assms(2) by (intro ext_header; simp)+
  have "server_name ((p @ be2 0 @ be2 (length d)) @ snd (name_ext k name) @ r) (length (p @ be2 0 @ be2 (length d))) = Inr (bytes_str name)"
    using assms(2) by (intro server_name_ok) simp
  then have sn: "server_name (p @ ext_bytes (0, d) @ r) (length p + 4) = Inr (bytes_str name)"
    by (simp add: ext_bytes_def d_def)
  have ne: "bytes_str name \<noteq> ''''" using assms(1) by (simp add: bytes_str_def)
  show ?thesis
    unfolding ext by (subst sni_loop.simps) (simp add: hdr sn len sni_loop_done [OF ne] del: One_nat_def)
qed

lemma sni_loop_skip:
  assumes "wf_ext x" "5 \<le> length r"
  shows "sni_loop (p @ ext_bytes x @ r) (length p) '''' = sni_loop (p @ ext_bytes x @ r) (length (p @ ext_bytes x)) ''''"
proof -
  obtain t d where x: "x = (t, d)" by (cases x)
  have td: "0 < t" "t < 65536" "length d < 65536" using assms(1) by (simp_all add: x wf_ext_def)
  note hdr = ext_header [OF td(2,3), of p r]
  show ?thesis
    unfolding x using td(1) assms(2) by (subst sni_loop.simps) (auto simp: hdr add.assoc)
qed

lemma sni_loop_finds:
  assumes "name \<noteq> []" "length name + 5 < 65536"
  shows "list_all wf_ext es \<Longrightarrow>
    sni_loop (p @ concat (map ext_bytes es) @ ext_bytes (name_ext k name) @ r) (length p) '''' = Inr (bytes_str name)"
proof (induction es arbitrary: p)
  case Nil
  then show ?case using sni_loop_name [OF assms] by simp
next
  case (Cons x es)
  let ?r = "concat (map ext_bytes es) @ ext_bytes (name_ext k name) @ r"
  have "5 \<le> length ?r" by (simp add: name_ext_def)
  then have "sni_loop (p @ ext_bytes x @ ?r) (length p) '''' = sni_loop (p @ ext_bytes x @ ?r) (length (p @ ext_bytes x)) ''''"
    using Cons.prems by (intro sni_loop_skip) simp_all
  also have "\<dots> = Inr (bytes_str name)" using Cons.IH [of "p @ ext_bytes x"] Cons.prems by simp
  finally show ?case by simp
qed

definition hello_body :: "bytes \<Rightarrow> bytes \<Rightarrow> bytes \<Rightarrow> bytes \<Rightarrow> bytes \<Rightarrow> bytes \<Rightarrow> bytes" where
  "hello_body hdr sid cs cm el exts =
     (1 # hdr) @ [of_nat (length sid)] @ sid @ be2 (length cs) @ cs @ [of_nat (length cm)] @ cm @ el @ exts"

lemma index_at_append: "length p = i \<Longrightarrow> index_at (p @ x # r) i = Inr x"
  by (auto simp: index_at_def nth_append)

lemma unat_byte_of_nat: "n < 256 \<Longrightarrow> unat (of_nat n :: byte) = n"
  by (simp add: unat_of_nat take_bit_eq_mod)

lemma parse_hello_body:
  assumes "length hdr = 37" "length sid < 256" "length cs < 65536" "length cm < 256" "length el = 2"
    and "sni_loop (hello_body hdr sid cs cm el exts) (length (hello_body hdr sid cs cm el exts) - length exts) '''' = Inr h" "h \<noteq> ''''"
  shows "parse_hello (hello_body hdr sid cs cm el exts) = Inr h"
proof -
  define rest where "rest = hello_body hdr sid cs cm el exts"
  define p1 p2 p3 where "p1 = 1 # hdr" and "p2 = p1 @ [of_nat (length sid)] @ sid"
    and "p3 = p2 @ be2 (length cs) @ cs"
  have l: "length p1 = 38" "length p2 = 39 + length sid" "length p3 = 41 + length sid + length cs"
    using assms(1) by (simp_all add: p1_def p2_def p3_def)
  have r1: "rest = p1 @ of_nat (length sid) # (sid @ be2 (length cs) @ cs @ [of_nat (length cm)] @ cm @ el @ exts)"
    and r2: "rest = p2 @ be2 (length cs) @ (cs @ [of_nat (length cm)] @ cm @ el @ exts)"
    and r3: "rest = p3 @ of_nat (length cm) # (cm @ el @ exts)"
    by (simp_all add: rest_def hello_body_def p1_def p2_def p3_def)
  have len: "length rest = 42 + length sid + length cs + length cm + 2 + length exts"
    using r3 l(3) assms(5) by simp
  have i1: "index_at rest 38 = Inr (of_nat (length sid))" unfolding r1 by (rule index_at_append [OF l(1)])
  have i2: "be16_at rest (39 + length sid) = Inr (length cs)" unfolding r2 by (rule be16_at_be2 [OF assms(3) l(2)])
  have i3: "index_at rest (41 + length sid + length cs) = Inr (of_nat (length cm))"
    unfolding r3 by (rule index_at_append [OF l(3)])
  have i0: "rest \<noteq> []" "rest ! 0 = 1" by (simp_all add: rest_def hello_body_def)
  have loop: "sni_loop rest (42 + length sid + length cs + length cm + 2) '''' = Inr h"
    using assms(6) len unfolding rest_def [symmetric] by simp
  have a1: "38 + 1 + length sid = 39 + length sid" and a2: "39 + length sid + 2 + length cs = 41 + length sid + length cs"
    and a3: "41 + length sid + length cs + 1 + length cm = 42 + length sid + length cs + length cm" by simp_all
  have "parse_hello rest = Inr h"
    unfolding parse_hello_def Let_def
    using i0 len assms(7)
    by (simp only: i1 bindR_Inr unat_byte_of_nat [OF assms(2)] a1 i2 a2 i3 unat_byte_of_nat [OF assms(4)] a3 loop) simp
  then show ?thesis by (simp add: rest_def)
qed

definition tls_record :: "byte \<Rightarrow> byte \<Rightarrow> bytes \<Rightarrow> bytes" where
  "tls_record v1 v2 body = [0x16, v1, v2] @ be2 (length body) @ body"

lemma getServername_record:
  assumes "concat ss = tls_record v1 v2 body @ tail" "length body + 5 \<le> bufio_size" "3 < v1 \<or> v1 = 3 \<and> 1 \<le> v2"
    and "parse_hello body = Inr h"
  obtains lost ss' where "getServername ss = (Inr (h, tls_record v1 v2 body), ss')" "tail = lost @ concat ss'"
proof -
  let ?al = "tls_record v1 v2 body"
  have al: "length ?al = 5 + length body" by (simp add: tls_record_def)
  have five: "5 \<le> length ([] @ concat ss)" using assms(1) al by simp
  obtain buf1 ss1 where p1: "Peek 5 [] ss = (Inr (take 5 ([] @ concat ss)), buf1, ss1)" "buf1 @ concat ss1 = [] @ concat ss"
  proof -
    have "5 \<le> bufio_size" by (simp add: bufio_size_def)
    from Peek_ok [OF five this] that show thesis by metis
  qed
  define b where "b = take 5 (concat ss)"
  have b: "b = [0x16, v1, v2, of_nat (length body div 256), of_nat (length body)]"
    by (simp add: b_def assms(1) tls_record_def be2_def)
  have n: "unat (b ! 3) * 256 + unat (b ! 4) = length body"
    using assms(2) be16_be2 [of "length body"] by (simp add: b bufio_size_def)
  have enough: "5 + length body \<le> length (buf1 @ concat ss1)" using p1(2) assms(1) al by simp
  have "5 + length body \<le> bufio_size" using assms(2) by simp
  from Peek_ok [OF enough this] obtain buf2 ss2
    where p2: "Peek (5 + length body) buf1 ss1 = (Inr (take (5 + length body) (buf1 @ concat ss1)), buf2, ss2)"
      "buf2 @ concat ss2 = buf1 @ concat ss1" "5 + length body \<le> length buf2" by metis
  have tk: "take (5 + length body) (buf1 @ concat ss1) = ?al" using p1(2) assms(1) al by simp
  have ver: "\<not> (b ! 1 < 3 \<or> b ! 1 = 3 \<and> b ! 2 < 1)"
    using assms(3) by (auto simp: b not_less word_le_nat_alt word_less_nat_alt)
  have p1': "Peek 5 [] ss = (Inr b, buf1, ss1)" using p1(1) by (simp add: b_def)
  have p2': "Peek (5 + length body) buf1 ss1 = (Inr ?al, buf2, ss2)" using p2(1) unfolding tk .
  have "b ! 0 = 0x16" "drop 5 ?al = body" by (simp_all add: b tls_record_def be2_def)
  then have "getServername ss = (Inr (h, ?al), ss2)"
    unfolding getServername_def p1' prod.case sum.case n p2' using ver assms(4) by simp
  moreover have "tail = drop (5 + length body) buf2 @ concat ss2"
  proof -
    have "?al @ tail = buf2 @ concat ss2" using p1(2) p2(2) assms(1) by simp
    with al p2(3) show ?thesis by (metis append_eq_conv_conj drop_append diff_is_0_eq' drop_0)
  qed
  ultimately show thesis by (rule that)
qed

subsection \<open>Properties\<close>



text \<open>Two faults: a record that ends just after the random number makes the parser read beyond it and
  panic; and a byte that arrives in the same segment as the client hello, behind it, is lost to
  the reader of the returned connection.\<close>

theorem sni_anomalies:
  "panics (ServerNameFromBytes (tls_record 3 1 (1 # replicate 37 0)))
   \<and> (\<exists>record. ServerNameFromConn [record @ [7]] = Inr (''a'', [record]))"
proof
  show "panics (ServerNameFromBytes (tls_record 3 1 (1 # replicate 37 0)))"
    by (simp add: ServerNameFromBytes_def ServerNameFromConn_def getServername_def Peek_def tls_record_def be2_def
        bufio_size_def parse_hello_def index_at_def)
  let ?body = "hello_body (replicate 37 0) [] [] [] [0, 0] (ext_bytes (name_ext 4 [97]))"
  have "parse_hello ?body = Inr ''a''"
  proof -
    define p where "p = 1 # replicate 37 0 @ [0 :: byte, 0, 0, 0, 0, 0]"
    have b: "?body = p @ ext_bytes (name_ext 4 [97]) @ []" by (simp add: hello_body_def p_def be2_def)
    have "sni_loop (p @ ext_bytes (name_ext 4 [97]) @ []) (length p) '''' = Inr (bytes_str [97])"
      by (rule sni_loop_name) simp_all
    moreover have "bytes_str [97] = ''a''" by (simp add: bytes_str_def char_of_byte_def) (simp add: char_of_def bit_iff_odd)
    ultimately show ?thesis
      by (intro parse_hello_body) (simp_all add: b)
  qed
  then have "ServerNameFromConn [tls_record 3 1 ?body @ [7]] = Inr (''a'', [tls_record 3 1 ?body])"
    by (simp add: ServerNameFromConn_def getServername_def Peek_def tls_record_def be2_def bufio_size_def
        hello_body_def name_ext_def ext_bytes_def)
  then show "\<exists>record. ServerNameFromConn [record @ [7]] = Inr (''a'', [record])" by blast
qed

end
