(* ===== verification/Enet.thy ===== *)
theory Enet
  imports Go_Net
begin

section \<open>pkg/enet: recognising protocols and editing proxy headers\<close>

text \<open>
  A request head is a string, its bytes read as characters. The keys already seen by
  \<open>RemoveProxyHeaders\<close> are a list used as a set. The time-out wrappers only set deadlines around a
  call and are not modelled.
\<close>

definition httpMethod :: "string list" where
  "httpMethod =
     [''GET'', ''HEAD'', ''POST'', ''PUT'', ''DELETE'', ''CONNECT'', ''OPTIONS'', ''TRACE'', ''PATCH'',
      ''get'', ''head'', ''post'', ''put'', ''delete'', ''connect'', ''options'', ''trace'', ''patch'']"

definition IsHTTP :: "string \<Rightarrow> bool" where
  "IsHTTP head = list_ex (\<lambda>m. length head \<ge> length m \<and> take (length m) head = m) httpMethod"

definition IsSocks5 :: "bytes \<Rightarrow> bool" where
  "IsSocks5 head \<longleftrightarrow>
     length head \<ge> 3 \<and> head ! 0 = 5 \<and> (0 < head ! 1 \<and> head ! 1 < 255) \<and> length head = 2 + unat (head ! 1)"

definition CRLF :: string where
  "CRLF = [CHR 0x0D, CHR 0x0A]"

definition InsertProxyHeaders :: "string \<Rightarrow> string \<Rightarrow> string" where
  "InsertProxyHeaders head headers = replace_first CRLF (CRLF @ headers) head"

fun remove_loop :: "bool \<Rightarrow> nat \<Rightarrow> bool \<Rightarrow> string list \<Rightarrow> string list \<Rightarrow> string list" where
  "remove_loop http i isBody keys [] = []"
| "remove_loop http i isBody keys (line # ls) =
     (if line = [] \<or> isBody then line # remove_loop http (Suc i) True keys ls
      else if i = 0 \<and> http then line # remove_loop http (Suc i) isBody keys ls
      else case split_n2 '':'' line of
             [h, _] \<Rightarrow>
               let k = to_upper h in
               if k \<in> set keys \<or> has_prefix ''PROXY-'' k then remove_loop http (Suc i) isBody keys ls
               else line # remove_loop http (Suc i) isBody (k # keys) ls
           | _ \<Rightarrow> remove_loop http (Suc i) isBody keys ls)"

definition RemoveProxyHeaders :: "string \<Rightarrow> string" where
  "RemoveProxyHeaders head =
     join_with CRLF (remove_loop (IsHTTP head) 0 False [] (split_str CRLF head))"

subsection \<open>Lines\<close>

text \<open>A line: no line end in it.\<close>

definition is_line :: "string \<Rightarrow> bool" where
  "is_line l \<longleftrightarrow> \<not> str_contains l CRLF"

lemma break_CRLF: "is_line a \<Longrightarrow> break_on CRLF (a @ CRLF @ r) = Some (a, r)"
proof (induction a)
  case Nil
  then show ?case by (simp add: CRLF_def has_prefix_def)
next
  case (Cons x xs)
  have "is_line xs" using Cons.prems by (auto simp: is_line_def str_contains_iff) (metis append_Cons)
  moreover have "\<not> has_prefix CRLF (x # xs @ CRLF @ r)"
  proof
    assume p: "has_prefix CRLF (x # xs @ CRLF @ r)"
    show False
    proof (cases xs)
      case Nil
      with p show ?thesis by (simp add: CRLF_def has_prefix_def)
    next
      case (Cons y ys)
      with p have "x # xs = [] @ CRLF @ ys" by (simp add: CRLF_def has_prefix_def)
      with Cons.prems show ?thesis unfolding is_line_def str_contains_iff by blast
    qed
  qed
  ultimately show ?case using Cons.IH by simp
qed

lemma split_CRLF: "is_line a \<Longrightarrow> split_str CRLF (a @ CRLF @ r) = a # split_str CRLF r"
  by (subst split_str.simps) (simp add: break_CRLF, simp add: CRLF_def)

lemma split_str_not_Nil [simp]: "split_str CRLF s \<noteq> []"
  by (subst split_str.simps) (simp add: CRLF_def split: option.splits prod.splits)

lemma join_split_CRLF: "join_with CRLF (split_str CRLF s) = s"
proof (induction CRLF s rule: split_str.induct)
  case (1 s)
  show ?case
  proof (cases "break_on CRLF s")
    case None
    then show ?thesis by (subst split_str.simps) (simp add: CRLF_def)
  next
    case (Some ab)
    obtain a b where ab: "ab = (a, b)" by (cases ab)
    then have "join_with CRLF (split_str CRLF b) = b" using 1 Some by (simp add: CRLF_def)
    moreover have "split_str CRLF s = a # split_str CRLF b"
      using Some ab by (subst split_str.simps) (simp add: CRLF_def)
    moreover have "s = a @ CRLF @ b" using Some ab break_on_Some by blast
    ultimately show ?thesis by (cases "split_str CRLF b") simp_all
  qed
qed

lemma join_with_append: "xs \<noteq> [] \<Longrightarrow> ys \<noteq> [] \<Longrightarrow> join_with sep (xs @ ys) = join_with sep xs @ sep @ join_with sep ys"
proof (induction sep xs rule: join_with.induct)
  case (2 sep x)
  then show ?case by (cases ys) auto
qed auto

lemma split_head:
  "list_all is_line hs \<Longrightarrow> hs \<noteq> [] \<Longrightarrow> split_str CRLF (join_with CRLF hs @ CRLF @ s) = hs @ split_str CRLF s"
proof (induction CRLF hs rule: join_with.induct)
  case (3 x y zs)
  then show ?case using split_CRLF [of x "join_with CRLF (y # zs) @ CRLF @ s"] by simp
qed (simp_all add: split_CRLF)

subsection \<open>What is removed\<close>

definition header_key :: "string \<Rightarrow> string option" where
  "header_key line = (case break_on '':'' line of None \<Rightarrow> None | Some (h, _) \<Rightarrow> Some (to_upper h))"

text \<open>The header lines that are kept: the first with each name, without the \<open>Proxy-\<close> names.\<close>

fun kept :: "string list \<Rightarrow> string list \<Rightarrow> string list" where
  "kept keys [] = []"
| "kept keys (l # ls) =
     (case header_key l of
        None \<Rightarrow> kept keys ls
      | Some k \<Rightarrow> if k \<in> set keys \<or> has_prefix ''PROXY-'' k then kept keys ls else l # kept (k # keys) ls)"

lemma remove_loop_body: "remove_loop http i True keys ls = ls"
  by (induction ls arbitrary: i) auto

lemma remove_loop_headers:
  assumes "\<not> (i = 0 \<and> http)"
  shows "list_all (\<lambda>l. l \<noteq> []) hs \<Longrightarrow>
    remove_loop http i False keys (hs @ [] # b) = kept keys hs @ [] # b"
  using assms
proof (induction hs arbitrary: i keys)
  case (Cons h hs)
  then show ?case
    by (auto simp: header_key_def split_n2_def Let_def split: option.splits)
qed (simp add: remove_loop_body)

lemma kept_facts:
  "l \<in> set (kept keys hs) \<Longrightarrow> l \<in> set hs \<and> (\<exists>k. header_key l = Some k \<and> k \<notin> set keys \<and> \<not> has_prefix ''PROXY-'' k)"
proof (induction hs arbitrary: keys)
  case (Cons h hs)
  then show ?case by (fastforce split: option.splits if_splits)
qed simp

lemma kept_distinct: "distinct (map header_key (kept keys hs))"
proof (induction hs arbitrary: keys)
  case (Cons h hs)
  then show ?case by (auto split: option.splits dest!: kept_facts)
qed simp

lemma kept_complete:
  "l \<in> set hs \<Longrightarrow> header_key l = Some k \<Longrightarrow> k \<notin> set keys \<Longrightarrow> \<not> has_prefix ''PROXY-'' k \<Longrightarrow>
   Some k \<in> set (map header_key (kept keys hs))"
proof (induction hs arbitrary: keys)
  case (Cons h hs)
  then show ?case by (auto split: option.splits if_splits) (metis set_ConsD)
qed simp

subsection \<open>Properties\<close>

text \<open>\<open>RemoveProxyHeaders\<close> on an HTTP request of a request line, header lines and a body: the request
  line and every byte from the empty line on are unchanged; of the header lines exactly the first
  with each name (case-insensitively) is kept, none of them named \<open>Proxy-\<dots>\<close>.\<close>

theorem remove_proxy_headers:
  assumes "IsHTTP req" "list_all (\<lambda>l. is_line l \<and> l \<noteq> []) (req # hs)"
  shows "RemoveProxyHeaders (join_with CRLF (req # hs) @ CRLF @ CRLF @ body) =
      join_with CRLF (req # kept [] hs) @ CRLF @ CRLF @ body
    \<and> distinct (map header_key (kept [] hs))
    \<and> set (map header_key (kept [] hs)) =
       {Some k | k l. l \<in> set hs \<and> header_key l = Some k \<and> \<not> has_prefix ''PROXY-'' k}"
proof (intro conjI)
  let ?head = "join_with CRLF (req # hs) @ CRLF @ CRLF @ body"
  have "\<exists>t. ?head = req @ t" by (cases hs) auto
  then obtain t where t: "?head = req @ t" by blast
  have http: "IsHTTP ?head"
  proof -
    obtain m where "m \<in> set httpMethod" "length m \<le> length req" "take (length m) req = m"
      using assms(1) by (auto simp: IsHTTP_def list_ex_iff)
    then show ?thesis unfolding t IsHTTP_def list_ex_iff by (intro bexI [of _ m]) simp_all
  qed
  have "split_str CRLF ?head = (req # hs) @ split_str CRLF (CRLF @ body)"
    using assms(2) by (intro split_head) (auto simp: list_all_iff)
  also have "split_str CRLF (CRLF @ body) = [] # split_str CRLF body"
    using split_CRLF [of "[]" body] by (simp add: is_line_def str_contains_def CRLF_def)
  finally have "remove_loop True 0 False [] (split_str CRLF ?head) = req # kept [] hs @ [] # split_str CRLF body"
    using assms(2) remove_loop_headers [of 1 True hs "[]" "split_str CRLF body"] by (simp add: list_all_iff)
  then have "RemoveProxyHeaders ?head = join_with CRLF ((req # kept [] hs) @ ([] # split_str CRLF body))"
    using http by (simp add: RemoveProxyHeaders_def)
  also have "\<dots> = join_with CRLF (req # kept [] hs) @ CRLF @ join_with CRLF ([] # split_str CRLF body)"
    by (rule join_with_append) simp_all
  also have "join_with CRLF ([] # split_str CRLF body) = CRLF @ body"
    using join_split_CRLF [of body] by (cases "split_str CRLF body") simp_all
  finally show "RemoveProxyHeaders ?head = join_with CRLF (req # kept [] hs) @ CRLF @ CRLF @ body" .
  show "distinct (map header_key (kept [] hs))" by (rule kept_distinct)
  show "set (map header_key (kept [] hs)) =
       {Some k | k l. l \<in> set hs \<and> header_key l = Some k \<and> \<not> has_prefix ''PROXY-'' k}"
  proof (intro equalityI subsetI)
    fix x assume "x \<in> set (map header_key (kept [] hs))"
    then obtain l where "l \<in> set (kept [] hs)" "x = header_key l" by auto
    then show "x \<in> {Some k | k l. l \<in> set hs \<and> header_key l = Some k \<and> \<not> has_prefix ''PROXY-'' k}"
      using kept_facts by fastforce
  next
    fix x assume "x \<in> {Some k | k l. l \<in> set hs \<and> header_key l = Some k \<and> \<not> has_prefix ''PROXY-'' k}"
    then obtain k l where "x = Some k" "l \<in> set hs" "header_key l = Some k" "\<not> has_prefix ''PROXY-'' k" by blast
    then show "x \<in> set (map header_key (kept [] hs))" using kept_complete [of l hs k "[]"] by simp
  qed
qed

theorem remove_proxy_headers_witness:
  "RemoveProxyHeaders (join_with CRLF [''GET / HTTP/1.1'', ''PROXY-X: 1'', ''HOST: a''] @ CRLF @ CRLF @ ''b'') =
     join_with CRLF (''GET / HTTP/1.1'' # kept [] [''PROXY-X: 1'', ''HOST: a'']) @ CRLF @ CRLF @ ''b''"
proof -
  have "IsHTTP ''GET / HTTP/1.1''" by (simp add: IsHTTP_def httpMethod_def)
  moreover have "list_all (\<lambda>l. is_line l \<and> l \<noteq> []) [''GET / HTTP/1.1'', ''PROXY-X: 1'', ''HOST: a'']"
    by (simp add: is_line_def str_contains_def CRLF_def has_prefix_def)
  ultimately show ?thesis using remove_proxy_headers by blast
qed

end
