(* ===== verification/Outil.thy ===== *)
theory Outil
  imports Idns
begin

section \<open>pkg/outil: small helpers of the services\<close>

text \<open>
  \<open>SubStr\<close>, \<open>SubBytes\<close> and \<open>Resolve\<close>. A Go conversion \<open>[]rune(s)\<close> decodes UTF-8; every byte that
  is not part of a valid encoding becomes the rune U+FFFD on its own. A rune is represented here by its encoding, so
  that \<open>runes\<close> is \<open>[]rune(s)\<close> and \<open>concat\<close> is the conversion back to a string.
\<close>

subsection \<open>Runes\<close>

definition cont_byte :: "byte \<Rightarrow> bool" where
  "cont_byte b \<longleftrightarrow> 0x80 \<le> b \<and> b \<le> 0xBF"

text \<open>The number of bytes of the encoding at the head of a non-empty byte sequence, 0 if it is not valid.\<close>

definition rune_len :: "bytes \<Rightarrow> nat" where
  "rune_len bs =
     (case bs of
        [] \<Rightarrow> 0
      | b # r \<Rightarrow>
          if b < 0x80 then 1
          else if 0xC2 \<le> b \<and> b \<le> 0xDF then (case r of c # _ \<Rightarrow> if cont_byte c then 2 else 0 | _ \<Rightarrow> 0)
          else if 0xE0 \<le> b \<and> b \<le> 0xEF then
            (case r of
               c # d # _ \<Rightarrow>
                 if (if b = 0xE0 then 0xA0 else 0x80) \<le> c \<and> c \<le> (if b = 0xED then 0x9F else 0xBF) \<and> cont_byte d then 3 else 0
             | _ \<Rightarrow> 0)
          else if 0xF0 \<le> b \<and> b \<le> 0xF4 then
            (case r of
               c # d # e # _ \<Rightarrow>
                 if (if b = 0xF0 then 0x90 else 0x80) \<le> c \<and> c \<le> (if b = 0xF4 then 0x8F else 0xBF) \<and> cont_byte d \<and> cont_byte e
                 then 4 else 0
             | _ \<Rightarrow> 0)
          else 0)"

definition RuneError :: bytes where
  "RuneError = [0xEF, 0xBF, 0xBD]"

function runes :: "bytes \<Rightarrow> bytes list" where
  "runes [] = []"
| "runes (b # r) =
     (case rune_len (b # r) of
        0 \<Rightarrow> RuneError # runes r
      | Suc n \<Rightarrow> (b # take n r) # runes (drop n r))"
  by pat_completeness auto
termination
  by (relation "measure length") auto

subsection \<open>Parts of strings and byte sequences\<close>

definition SubStr :: "bytes \<Rightarrow> int \<Rightarrow> int \<Rightarrow> bytes result" where
  "SubStr str start len =
     (if str = [] then Inr []
      else let rs = runes str;
               start = (if start < 0 then 0 else start);
               end0 = start + len;
               end1 = (if end0 < 0 \<or> end0 \<ge> int (length str) then int (length rs) else end0)
           in if start > end1 then Inl (Panic SliceOutOfRange)
              else bindR (slice_at rs (nat start) (nat end1)) (\<lambda>p. Inr (concat p)))"

definition SubBytes :: "bytes \<Rightarrow> int \<Rightarrow> int \<Rightarrow> bytes result" where
  "SubBytes b start len =
     (if b = [] then Inr b
      else let start = (if start < 0 then 0 else start);
               end0 = start + len;
               end1 = (if end0 < 0 \<or> end0 \<ge> int (length b) then int (length b) else end0)
           in if start > end1 then Inl (Panic SliceOutOfRange) else slice_at b (nat start) (nat end1))"

definition outil_Resolve ::
  "('m, dns_item) cmap \<Rightarrow> dns_client \<Rightarrow> int \<Rightarrow> int \<Rightarrow> 'm Resolver option \<Rightarrow> string \<Rightarrow> string \<times> 'm Resolver option" where
  "outil_Resolve cm dns now later dnsResolver address =
     (case dnsResolver of
        Some r \<Rightarrow> (case MustResolve cm dns now later address r of (a, r) \<Rightarrow> (a, Some r))
      | None \<Rightarrow> (address, None))"

lemma runes_ascii: "\<forall>b \<in> set bs. b < 0x80 \<Longrightarrow> runes bs = map (\<lambda>b. [b]) bs"
  by (induction bs) (simp_all add: rune_len_def)

lemma slice_at_map: "slice_at (map f xs) i j = bindR (slice_at xs i j) (\<lambda>p. Inr (map f p))"
  by (simp add: slice_at_def take_map drop_map)

lemma concat_single: "concat (map (\<lambda>b. [b]) xs) = xs"
  by (induction xs) simp_all

text \<open>On ASCII text \<open>SubStr\<close> is \<open>SubBytes\<close>. On other text it panics when the end lies between the
  number of runes and the number of bytes, because it is compared with the latter.\<close>

lemma SubStr_ascii: "\<forall>b \<in> set bs. b < 0x80 \<Longrightarrow> SubStr bs start len = SubBytes bs start len"
  by (simp add: SubStr_def SubBytes_def runes_ascii slice_at_map bindR_assoc Let_def concat_single bindR_def split: sum.splits)

lemma runes_length: "length (runes bs) \<le> length bs"
proof (induction bs rule: runes.induct)
  case (2 b r)
  show ?case
  proof (cases "rune_len (b # r)")
    case (Suc n)
    from 2(2) [OF Suc] have "length (runes (drop n r)) \<le> length r" by simp
    with Suc show ?thesis by simp
  qed (simp add: 2(1))
qed simp

lemma SubStr_panics_iff:
  "panics (SubStr bs 0 (int n)) \<longleftrightarrow> length (runes bs) < n \<and> n < length bs"
  using runes_length [of bs] by (cases "bs = []") (auto simp: SubStr_def Let_def panics_bindR)

end
