(* ===== verification/Go_Base64.thy ===== *)
theory Go_Base64
  imports Jocasta_Prelude
begin

section \<open>encoding/base64: the standard encoding\<close>

text \<open>
  \<open>StdEncoding.EncodeToString\<close> and \<open>StdEncoding.DecodeString\<close>: groups of three bytes as four
  characters, padded with \<open>=\<close>. The decoder skips line breaks anywhere, wants the padding and
  nothing behind it, and does not look at the unused bits of the last character.
\<close>

definition b64_char :: "nat \<Rightarrow> char" where
  "b64_char n =
     (if n < 26 then char_of (n + 65) else if n < 52 then char_of (n + 71) else if n < 62 then char_of (n - 4)
      else if n = 62 then CHR ''+'' else CHR ''/'')"

definition b64_val :: "char \<Rightarrow> nat option" where
  "b64_val c =
     (let n = of_char c :: nat in
      if 65 \<le> n \<and> n \<le> 90 then Some (n - 65) else if 97 \<le> n \<and> n \<le> 122 then Some (n - 71)
      else if 48 \<le> n \<and> n \<le> 57 then Some (n + 4) else if c = CHR ''+'' then Some 62
      else if c = CHR ''/'' then Some 63 else None)"

fun EncodeToString :: "bytes \<Rightarrow> string" where
  "EncodeToString [] = []"
| "EncodeToString [a] =
     (let x = unat a in [b64_char (x div 4), b64_char (x mod 4 * 16), CHR ''='', CHR ''=''])"
| "EncodeToString [a, b] =
     (let x = unat a; y = unat b
      in [b64_char (x div 4), b64_char (x mod 4 * 16 + y div 16), b64_char (y mod 16 * 4), CHR ''=''])"
| "EncodeToString (a # b # c # r) =
     (let x = unat a; y = unat b; z = unat c
      in [b64_char (x div 4), b64_char (x mod 4 * 16 + y div 16), b64_char (y mod 16 * 4 + z div 64), b64_char (z mod 64)]
         @ EncodeToString r)"

fun decode_groups :: "string \<Rightarrow> bytes option" where
  "decode_groups [] = Some []"
| "decode_groups (p # q # r # s # rest) =
     (case (b64_val p, b64_val q) of
        (Some a, Some b) \<Rightarrow>
          if r = CHR ''='' then (if s = CHR ''='' \<and> rest = [] then Some [of_nat (a * 4 + b div 16)] else None)
          else (case b64_val r of
                  None \<Rightarrow> None
                | Some c \<Rightarrow>
                    if s = CHR ''='' then
                      (if rest = [] then Some [of_nat (a * 4 + b div 16), of_nat (b mod 16 * 16 + c div 4)] else None)
                    else (case b64_val s of
                            None \<Rightarrow> None
                          | Some d \<Rightarrow>
                              map_option (\<lambda>bs. [of_nat (a * 4 + b div 16), of_nat (b mod 16 * 16 + c div 4), of_nat (c mod 4 * 64 + d)] @ bs)
                                (decode_groups rest)))
      | _ \<Rightarrow> None)"
| "decode_groups _ = None"

definition DecodeString :: "string \<Rightarrow> bytes option" where
  "DecodeString s = decode_groups (filter (\<lambda>c. c \<noteq> CHR 0x0A \<and> c \<noteq> CHR 0x0D) s)"

subsection \<open>Decoding undoes encoding\<close>

lemma of_b64_char:
  "n < 64 \<Longrightarrow> (of_char (b64_char n) :: nat) =
     (if n < 26 then n + 65 else if n < 52 then n + 71 else if n < 62 then n - 4 else if n = 62 then 43 else 47)"
  by (simp add: b64_char_def)

lemma char_eq_of_char: "c = d \<longleftrightarrow> (of_char c :: nat) = of_char d"
  by simp

lemma b64_val_char: "n < 64 \<Longrightarrow> b64_val (b64_char n) = Some n"
  unfolding b64_val_def Let_def char_eq_of_char of_b64_char by (auto split: if_splits)

text \<open>The characters of an encoded text: no white space and no colon.\<close>

definition b64_text :: "char \<Rightarrow> bool" where
  "b64_text c \<longleftrightarrow> (of_char c :: nat) \<in> {43, 47, 61} \<union> {48..57} \<union> {65..90} \<union> {97..122}"

lemma b64_text_char: "n < 64 \<Longrightarrow> b64_text (b64_char n)"
  unfolding b64_text_def of_b64_char by auto

lemma b64_char_not_pad: "n < 64 \<Longrightarrow> b64_char n \<noteq> CHR ''=''"
  unfolding char_eq_of_char of_b64_char by auto

lemma byte_bounds: "unat (a :: byte) div 4 < 64" "unat a mod 4 * 16 + unat b div 16 < 64" "unat a mod 4 * 16 < 64"
  "unat b mod 16 * 4 + unat c div 64 < 64" "unat b mod 16 * 4 < 64" "unat c mod 64 < 64" for b c :: byte
proof -
  have "unat a < 256" "unat b < 256" "unat c < 256" by (simp_all)
  moreover have "unat a mod 4 < 4" "unat b mod 16 < 16" by simp_all
  ultimately show "unat a div 4 < 64" "unat a mod 4 * 16 + unat b div 16 < 64" "unat a mod 4 * 16 < 64"
    "unat b mod 16 * 4 + unat c div 64 < 64" "unat b mod 16 * 4 < 64" "unat c mod 64 < 64"
    by linarith+
qed

lemma EncodeToString_text: "c \<in> set (EncodeToString bs) \<Longrightarrow> b64_text c"
proof (induction bs rule: EncodeToString.induct)
  case (4 x y z r)
  then show ?case by (auto simp: Let_def b64_text_char byte_bounds)
qed (auto simp: Let_def b64_text_char byte_bounds b64_text_def [of "CHR ''=''"])

lemma regroup:
  fixes x y z :: nat
  assumes "x < 256" "y < 256" "z < 256"
  shows "x div 4 * 4 + (x mod 4 * 16 + y div 16) div 16 = x" "x div 4 * 4 + (x mod 4 * 16) div 16 = x"
    "(x mod 4 * 16 + y div 16) mod 16 * 16 + (y mod 16 * 4 + z div 64) div 4 = y"
    "(x mod 4 * 16 + y div 16) mod 16 * 16 + (y mod 16 * 4) div 4 = y"
    "(y mod 16 * 4 + z div 64) mod 4 * 64 + z mod 64 = z"
proof -
  have d: "y div 16 < 16" "z div 64 < 4" using assms by auto
  have e: "(x mod 4 * 16 + y div 16) div 16 = x mod 4" "(x mod 4 * 16 + y div 16) mod 16 = y div 16"
    "(y mod 16 * 4 + z div 64) div 4 = y mod 16" "(y mod 16 * 4 + z div 64) mod 4 = z div 64"
    using d by simp_all
  show "x div 4 * 4 + (x mod 4 * 16 + y div 16) div 16 = x" "x div 4 * 4 + (x mod 4 * 16) div 16 = x"
    "(x mod 4 * 16 + y div 16) mod 16 * 16 + (y mod 16 * 4 + z div 64) div 4 = y"
    "(x mod 4 * 16 + y div 16) mod 16 * 16 + (y mod 16 * 4) div 4 = y"
    "(y mod 16 * 4 + z div 64) mod 4 * 64 + z mod 64 = z"
    unfolding e by simp_all
qed

lemma word_of_nat_unat: "of_nat (unat (b :: byte)) = b"
  by simp

lemmas regroup_byte = regroup [OF unat_byte_less unat_byte_less unat_byte_less]

lemma decode_encode: "decode_groups (EncodeToString bs) = Some bs"
proof (induction bs rule: EncodeToString.induct)
  case (2 a)
  show ?case
    unfolding EncodeToString.simps Let_def decode_groups.simps b64_val_char [OF byte_bounds(1)] b64_val_char [OF byte_bounds(3)]
    by (simp only: option.case prod.case regroup_byte word_of_nat_unat) simp
next
  case (3 a b)
  show ?case
    unfolding EncodeToString.simps Let_def decode_groups.simps b64_val_char [OF byte_bounds(1)] b64_val_char [OF byte_bounds(2)]
      b64_val_char [OF byte_bounds(5)]
    by (simp only: option.case prod.case regroup_byte word_of_nat_unat) (simp add: b64_char_not_pad byte_bounds)
next
  case (4 a b c r)
  show ?case
    unfolding EncodeToString.simps Let_def append.simps decode_groups.simps b64_val_char [OF byte_bounds(1)] b64_val_char [OF byte_bounds(2)]
      b64_val_char [OF byte_bounds(4)] b64_val_char [OF byte_bounds(6)]
    by (simp only: option.case prod.case regroup_byte word_of_nat_unat 4) (simp add: b64_char_not_pad byte_bounds)
qed simp

text \<open>Credentials and other texts that were encoded are decoded to themselves.\<close>

theorem DecodeString_Encode: "DecodeString (EncodeToString bs) = Some bs"
proof -
  have "b64_text c \<Longrightarrow> c \<noteq> CHR 0x0A \<and> c \<noteq> CHR 0x0D" for c by (auto simp: b64_text_def)
  then have "filter (\<lambda>c. c \<noteq> CHR 0x0A \<and> c \<noteq> CHR 0x0D) (EncodeToString bs) = EncodeToString bs"
    using EncodeToString_text by (intro filter_True) blast
  then show ?thesis by (simp add: DecodeString_def decode_encode)
qed

end
