(* ===== verification/Httpc.thy ===== *)
theory Httpc
  imports Sni Enet BasicAuth Outil Go_Base64
begin

section \<open>pkg/httpc: the request at the head of a connection, and cs/proxy\_forward.go\<close>

text \<open>
  \<open>httpc.New\<close> reads once from the connection and decodes what it got: as a TLS client hello, or else
  as the head of an HTTP request. It authenticates the request when there is an authentication
  centre, and finds the host the request is for. The raw header is kept as a string. \<open>url.Parse\<close>
  is the parameter \<open>url_host\<close> of the authentication centre. \<open>fmt.Sscanf\<close> with two \<open>%s\<close> verbs reads
  the first two words of the line. On an error the connection is closed, at the latest by the
  handler that called \<open>New\<close>; a closed connection is not used any further and the closing is not part of the
  model.

  The other side of the protocol is the dialler \<open>HTTPS\<close> of the package \<open>cs\<close>, which asks an HTTP proxy
  for a tunnel.
\<close>

record HttpRequest =
  rq_RawHeader :: string
  rq_Host :: string
  rq_Method :: string
  rq_RawURL :: string
  rq_hostOrURL :: string
  rq_IsSNI :: bool

fun header_loop :: "string \<Rightarrow> string list \<Rightarrow> string" where
  "header_loop key [] = ''''"
| "header_loop key (line # ls) =
     (case split_n2 '':'' (trim_set [CHR 0x0D, CHR 0x0A, CHR '' ''] line) of
        [k, v] \<Rightarrow> if key = to_upper (trim_set '' '' k) then trim_set '' '' v else header_loop key ls
      | _ \<Rightarrow> header_loop key ls)"

definition getHeader :: "string \<Rightarrow> HttpRequest \<Rightarrow> string" where
  "getHeader key req = header_loop (to_upper key) (split_str CRLF (rq_RawHeader req))"

definition getHTTPRawURL :: "HttpRequest \<Rightarrow> string" where
  "getHTTPRawURL req =
     (if \<not> has_prefix ''/'' (rq_hostOrURL req) then rq_hostOrURL req
      else let host = getHeader ''host'' req
           in if host \<noteq> '''' then ''http://'' @ host @ rq_hostOrURL req else '''')"

definition IsHTTPS :: "HttpRequest \<Rightarrow> bool" where
  "IsHTTPS req \<longleftrightarrow> rq_Method req = ''CONNECT''"

definition HTTPSReply :: "unit io" where
  "HTTPSReply = conn_Write (str_bytes (''HTTP/1.1 200 Connection established'' @ CRLF @ CRLF))"

definition auth_required :: bytes where
  "auth_required = str_bytes (''HTTP/1.1 407 Proxy Authentication Required'' @ CRLF @
     ''Proxy-Authenticate: Basic realm='' @ [CHR 0x22, CHR 0x22] @ CRLF @ CRLF @ ''Proxy Authentication Required'')"

definition auth_refused :: bytes where
  "auth_refused = str_bytes (''HTTP/1.1 407 Proxy Authentication Required'' @ CRLF @ CRLF @ ''Proxy Authentication Required'')"

definition auth_pair :: "string \<Rightarrow> string result" where
  "auth_pair authorization =
     (case str_fields authorization of
        [scheme, cred] \<Rightarrow>
          (case DecodeString cred of
             None \<Rightarrow> Inl (ErrMsg ''authorization data parse error'')
           | Some user \<Rightarrow> Inr (bytes_str user))
      | _ \<Rightarrow> Inl (ErrMsg ''authorization data error''))"

definition GetProxyAuthUserPassPair :: "HttpRequest \<Rightarrow> string io" where
  "GetProxyAuthUserPassPair req =
     (let authorization = trim_set [CHR '' '', CHR 0x0D, CHR 0x0A, CHR 0x09] (getHeader ''Proxy-Authorization'' req)
      in if authorization = '''' then
           bindIO (ignoreErr (conn_Write auth_required)) (\<lambda>_. failIO (ErrMsg ''require auth header data''))
         else liftR (auth_pair authorization))"

definition GetProxyAuthUserPass :: "HttpRequest \<Rightarrow> (string \<times> string) io" where
  "GetProxyAuthUserPass req =
     bindIO (GetProxyAuthUserPassPair req) (\<lambda>userPass.
       case split_on (CHR '':'') userPass of
         [u, p] \<Rightarrow> retIO (u, p)
       | _ \<Rightarrow> failIO (ErrMsg ''invalid user password pair''))"

text \<open>The addresses of the two ends of the connection and the clock of a call.\<close>

record peer =
  RemoteAddr :: string
  LocalAddr :: string
  p_now :: int
  p_later :: int

text \<open>\<open>BasicAuth\<close> is called before the host of the request is known, so that the target it reports
  for \<open>CONNECT\<close> is always \<open>https://\<close>.\<close>

definition auth_URL :: "HttpRequest \<Rightarrow> string" where
  "auth_URL req = (if IsHTTPS req then ''https://'' @ rq_Host req else getHTTPRawURL req)"

definition req_BasicAuth ::
  "('m, 'd) auth_env \<Rightarrow> peer \<Rightarrow> HttpRequest \<Rightarrow> ('m, 'd) Center option \<Rightarrow> conn \<Rightarrow> (unit result \<times> ('m, 'd) Center option) \<times> conn" where
  "req_BasicAuth env p req center c =
     (case center of
        None \<Rightarrow> ((Inr (), None), c)
      | Some ce \<Rightarrow>
          (case GetProxyAuthUserPassPair req c of
             (Inl e, c) \<Rightarrow> ((Inl e, Some ce), c)
           | (Inr user, c) \<Rightarrow>
               (case Verify env (p_now p) (p_later p) user (hd (split_on (CHR '':'') (RemoteAddr p)))
                       (hd (split_on (CHR '':'') (LocalAddr p))) (auth_URL req) ce of
                  (Inl e, ce) \<Rightarrow> ((Inl e, Some ce), c)
                | (Inr ok, ce) \<Rightarrow>
                    if ok then ((Inr (), Some ce), c)
                    else ((Inl (ErrMsg ''basic auth fail''), Some ce), snd (conn_Write auth_refused c)))))"

text \<open>
  Decoding of the bytes that were read. The error messages quote the first 50 characters of what was
  read, which may panic. The request line is taken to be ASCII.
\<close>

definition decode_error :: "bytes \<Rightarrow> string \<Rightarrow> 'a result" where
  "decode_error buf msg = bindR (SubStr buf 0 50) (\<lambda>_. Inl (ErrMsg msg))"

definition first_words :: "string \<Rightarrow> string \<times> string" where
  "first_words line = (case str_fields line of [] \<Rightarrow> ('''', '''') | [m] \<Rightarrow> (m, '''') | m # u # _ \<Rightarrow> (m, u))"

definition decode_head :: "bytes \<Rightarrow> HttpRequest result" where
  "decode_head buf =
     (let raw = bytes_str buf;
          req = \<lparr>rq_RawHeader = raw, rq_Host = '''', rq_Method = '''', rq_RawURL = '''', rq_hostOrURL = '''', rq_IsSNI = False\<rparr>
      in case ServerNameFromBytes buf of
           Inr serverName \<Rightarrow>
             Inr (req\<lparr>rq_Method := ''SNI'', rq_hostOrURL := ''https://'' @ serverName @ '':443'', rq_IsSNI := True\<rparr>)
         | Inl (Panic p) \<Rightarrow> Inl (Panic p)
         | Inl _ \<Rightarrow>
             if CHR 0x0A \<notin> set raw then decode_error buf ''http decoder data line err''
             else (case first_words (takeWhile (\<lambda>c. c \<noteq> CHR 0x0A) raw) of
                     (m, u) \<Rightarrow>
                       if m = '''' \<or> u = '''' then decode_error buf ''http decoder data err''
                       else Inr (req\<lparr>rq_Method := to_upper m, rq_hostOrURL := u\<rparr>)))"

definition with_host :: "('m, 'd) auth_env \<Rightarrow> HttpRequest \<Rightarrow> HttpRequest result" where
  "with_host env req =
     (let add_port = (\<lambda>req port. if CHR '':'' \<in> set (rq_Host req) then req else req\<lparr>rq_Host := rq_Host req @ '':'' @ port\<rparr>)
      in if IsHTTPS req then Inr (add_port (req\<lparr>rq_Host := rq_hostOrURL req\<rparr>) ''443'')
         else case url_host env (getHTTPRawURL req) of
                None \<Rightarrow> Inl (ErrMsg ''parse url'')
              | Some h \<Rightarrow> Inr (add_port (req\<lparr>rq_RawURL := getHTTPRawURL req, rq_Host := h\<rparr>) ''80''))"

definition httpc_New ::
  "('m, 'd) auth_env \<Rightarrow> peer \<Rightarrow> nat \<Rightarrow> ('m, 'd) Center option \<Rightarrow> conn \<Rightarrow> (HttpRequest result \<times> ('m, 'd) Center option) \<times> conn" where
  "httpc_New env p bufSize center c =
     (case conn_Read bufSize c of
        (Inl e, c) \<Rightarrow> ((Inl e, center), c)
      | (Inr buf, c) \<Rightarrow>
          (case decode_head buf of
             Inl e \<Rightarrow> ((Inl e, center), c)
           | Inr req \<Rightarrow>
               (case req_BasicAuth env p req center c of
                  ((Inl e, center), c) \<Rightarrow> ((Inl e, center), c)
                | ((Inr _, center), c) \<Rightarrow> ((with_host env req, center), c))))"

subsection \<open>cs/proxy.go and cs/proxy\_forward.go\<close>

text \<open>\<open>ParseProxyURL\<close> accepts two schemes and leaves the rest to \<open>url.Parse\<close>, a parameter here.\<close>

definition ParseProxyURL :: "(string \<Rightarrow> 'u result) \<Rightarrow> string \<Rightarrow> 'u result" where
  "ParseProxyURL url_Parse proxyURL =
     (if has_prefix ''socks5://'' proxyURL \<or> has_prefix ''https://'' proxyURL then url_Parse proxyURL
      else Inl (ErrMsg ''invalid proxy url''))"

definition ValidProxyURL :: "(string \<Rightarrow> 'u result) \<Rightarrow> string \<Rightarrow> bool" where
  "ValidProxyURL url_Parse proxyURL = is_ok (ParseProxyURL url_Parse proxyURL)"

text \<open>A parsed URL as far as it is used: the user information, with a password or without.\<close>

type_synonym userinfo = "string \<times> string option"

definition ProxyAuth :: "userinfo option option \<Rightarrow> (string \<times> string) option" where
  "ProxyAuth proxyURL =
     (case proxyURL of
        Some (Some (user, pwd)) \<Rightarrow> Some (user, case pwd of None \<Rightarrow> '''' | Some p \<Rightarrow> p)
      | _ \<Rightarrow> None)"

text \<open>\<open>HTTPS.Dial\<close> on the connection to the proxy: the request and what the reply means.\<close>

definition connect_request :: "string \<Rightarrow> (string \<times> string) option \<Rightarrow> string" where
  "connect_request addr auth =
     ''CONNECT '' @ addr @ '' HTTP/1.1'' @ CRLF @
     ''Host: '' @ addr @ CRLF @
     ''Proxy-Host: '' @ addr @ CRLF @
     ''Proxy-Connection: Keep-Alive'' @ CRLF @
     ''Connection: Keep-Alive'' @ CRLF @
     (case auth of
        None \<Rightarrow> ''''
      | Some (user, pwd) \<Rightarrow> ''Proxy-Authorization: Basic '' @ EncodeToString (str_bytes (user @ '':'' @ pwd)) @ CRLF) @
     CRLF"

definition HTTPS_Dial :: "string \<Rightarrow> (string \<times> string) option \<Rightarrow> unit io" where
  "HTTPS_Dial addr auth =
     bindIO (mapErr (ErrMsg ''connecting to proxy'') (conn_Write (str_bytes (connect_request addr auth)))) (\<lambda>_.
     bindIO (mapErr (ErrMsg ''ead reply from proxy'') (conn_Read 1024)) (\<lambda>reply.
       if \<not> str_contains (bytes_str reply) ''200'' then failIO (ErrMsg ''greeting to proxy'')
       else retIO ()))"

subsection \<open>Reading headers\<close>

definition line_cut :: string where
  "line_cut = [CHR 0x0D, CHR 0x0A, CHR '' '']"

text \<open>A header line as it is written: a name, a colon, a space and a value.\<close>

definition header_line :: "string \<Rightarrow> string \<Rightarrow> string" where
  "header_line k v = k @ '': '' @ v"

definition wf_key :: "string \<Rightarrow> bool" where
  "wf_key k \<longleftrightarrow> k \<noteq> '''' \<and> CHR '':'' \<notin> set k \<and> set k \<inter> set line_cut = {}"

definition wf_value :: "string \<Rightarrow> bool" where
  "wf_value v \<longleftrightarrow> v \<noteq> '''' \<and> hd v \<notin> set line_cut \<and> last v \<notin> set line_cut"

lemma header_loop_line:
  assumes "wf_key k" "wf_value v"
  shows "header_loop key (header_line k v # ls) = (if key = to_upper k then v else header_loop key ls)"
proof -
  have k: "k \<noteq> ''''" "hd k \<notin> set line_cut" using assms(1) by (auto simp: wf_key_def dest: hd_in_set)
  have v: "v \<noteq> ''''" "hd v \<noteq> CHR '' ''" "last v \<notin> set line_cut" "last v \<noteq> CHR '' ''"
    using assms(2) by (auto simp: wf_value_def line_cut_def)
  have "trim_set line_cut (header_line k v) = k @ CHR '':'' # CHR '' '' # v"
    using k v by (simp add: header_line_def trim_set_id)
  moreover have "split_n2 '':'' (k @ CHR '':'' # CHR '' '' # v) = [k, CHR '' '' # v]"
    using assms(1) by (simp add: wf_key_def split_n2_single)
  moreover have "trim_set '' '' k = k" using assms(1) by (intro trim_set_clean) (auto simp: wf_key_def line_cut_def)
  moreover have "trim_set '' '' (CHR '' '' # v) = v" using v by (simp add: trim_set_space trim_set_id)
  ultimately show ?thesis by (simp add: line_cut_def)
qed

text \<open>The line of another header, and the request line, are passed over.\<close>

lemma header_loop_skip:
  assumes "x \<notin> set line_cut" "key \<noteq> ''''" "hd key \<noteq> upper_char x"
  shows "header_loop key ((x # r) # ls) = header_loop key ls"
proof -
  obtain r' where r': "trim_set line_cut (x # r) = x # r'" using trim_set_Cons [OF assms(1)] by blast
  have ne: "key \<noteq> to_upper (trim_set '' '' a)" if "break_on '':'' (x # r') = Some (a, b)" for a b
  proof (cases a)
    case Nil
    then show ?thesis using assms(2) by (simp add: trim_set_def to_upper_def)
  next
    case (Cons y a')
    with break_on_Some [OF that] have "y = x" by simp
    moreover have "x \<notin> set '' ''" using assms(1) by (simp add: line_cut_def)
    ultimately obtain a'' where "trim_set '' '' a = x # a''" using trim_set_Cons [of x "'' ''" a'] Cons by auto
    then show ?thesis using assms(3) by (metis list.sel(1) list.simps(9) to_upper_def)
  qed
  have loop: "header_loop key ((x # r) # ls) =
      (case split_n2 '':'' (x # r') of
         [k, v] \<Rightarrow> if key = to_upper (trim_set '' '' k) then trim_set '' '' v else header_loop key ls
       | _ \<Rightarrow> header_loop key ls)"
    using r' by (simp add: line_cut_def)
  show ?thesis
  proof (cases "break_on '':'' (x # r')")
    case None
    then show ?thesis unfolding loop split_n2_def by simp
  next
    case (Some ab)
    then show ?thesis using ne [of "fst ab" "snd ab"] unfolding loop split_n2_def by (cases ab) simp
  qed
qed

lemma header_loop_end: "key \<noteq> '''' \<Longrightarrow> header_loop key ['''', ''''] = ''''"
  by (simp add: trim_set_def split_n2_def has_prefix_def)

subsection \<open>The tunnel request of \<open>cs.HTTPS\<close>\<close>

definition plain_addr :: "string \<Rightarrow> bool" where
  "plain_addr a \<longleftrightarrow> CHR '':'' \<in> set a \<and> (\<forall>c \<in> set a. \<not> is_space c)"

definition connect_lines :: "string \<Rightarrow> string \<Rightarrow> string list" where
  "connect_lines addr cred =
     [''CONNECT '' @ addr @ '' HTTP/1.1'', header_line ''Host'' addr, header_line ''Proxy-Host'' addr,
      header_line ''Proxy-Connection'' ''Keep-Alive'', header_line ''Connection'' ''Keep-Alive'',
      header_line ''Proxy-Authorization'' (''Basic '' @ cred)]"

lemma not_LF_is_line: "CHR 0x0A \<notin> set l \<Longrightarrow> is_line l"
  by (auto simp: is_line_def str_contains_iff CRLF_def)

lemma plain_addr_mem:
  "plain_addr a \<Longrightarrow> c \<in> set a \<Longrightarrow> c \<notin> set line_cut \<and> \<not> is_space c"
  by (auto simp: plain_addr_def is_space_def line_cut_def)

lemma plain_addr_value: "plain_addr a \<Longrightarrow> wf_value a"
  using plain_addr_mem [of a "hd a"] plain_addr_mem [of a "last a"]
  by (cases "a = []") (simp_all add: wf_value_def plain_addr_def)

lemma b64_text_mem: "b64_text c \<Longrightarrow> c \<notin> set line_cut \<and> \<not> is_space c \<and> c \<noteq> CHR 0x09"
  by (auto simp: b64_text_def line_cut_def is_space_def)

lemma EncodeToString_nonempty: "bs \<noteq> [] \<Longrightarrow> EncodeToString bs \<noteq> []"
  by (cases bs rule: EncodeToString.cases) (simp_all add: Let_def)

lemma connect_request_lines:
  "connect_request addr (Some (user, pwd)) =
     join_with CRLF (connect_lines addr (EncodeToString (str_bytes (user @ '':'' @ pwd)))) @ CRLF @ CRLF"
  by (simp add: connect_request_def connect_lines_def header_line_def)

lemma split_connect:
  assumes "plain_addr addr" "\<forall>c \<in> set cred. b64_text c"
  shows "split_str CRLF (join_with CRLF (connect_lines addr cred) @ CRLF @ CRLF) = connect_lines addr cred @ ['''', '''']"
proof -
  have a: "CHR 0x0A \<notin> set addr" using plain_addr_mem [OF assms(1)] by (auto simp: line_cut_def)
  have c: "CHR 0x0A \<notin> set cred" using assms(2) b64_text_mem by (fastforce simp: line_cut_def)
  have "list_all is_line (connect_lines addr cred)" "connect_lines addr cred \<noteq> []"
    using a c by (auto simp: connect_lines_def header_line_def list_all_iff intro!: not_LF_is_line)
  then have "split_str CRLF (join_with CRLF (connect_lines addr cred) @ CRLF @ CRLF) = connect_lines addr cred @ split_str CRLF CRLF"
    by (rule split_head)
  moreover have "split_str CRLF CRLF = '''' # split_str CRLF ''''"
    using split_CRLF [of "''''" "''''"] by (simp add: not_LF_is_line)
  moreover have "split_str CRLF '''' = ['''']" by (subst split_str.simps) (simp add: CRLF_def)
  ultimately show ?thesis by simp
qed

lemma connect_header:
  assumes "plain_addr addr" "\<forall>c \<in> set cred. b64_text c" "cred \<noteq> ''''"
    "rq_RawHeader req = join_with CRLF (connect_lines addr cred) @ CRLF @ CRLF"
  shows "getHeader ''Proxy-Authorization'' req = ''Basic '' @ cred"
proof -
  define key where "key = to_upper ''Proxy-Authorization''"
  have key: "key = ''PROXY-AUTHORIZATION''" unfolding key_def by code_simp
  have up: "upper_char (CHR ''C'') = CHR ''C''" "upper_char (CHR ''H'') = CHR ''H''" by (simp_all add: upper_char_def)
  have ne: "key \<noteq> to_upper ''Proxy-Host''" "key \<noteq> to_upper ''Proxy-Connection''" unfolding key by code_simp+
  have k: "wf_key ''Proxy-Host''" "wf_key ''Proxy-Connection''" "wf_key ''Proxy-Authorization''"
    by (simp_all add: wf_key_def line_cut_def)
  have v: "wf_value addr" "wf_value ''Keep-Alive''" "wf_value (''Basic '' @ cred)"
    using plain_addr_value [OF assms(1)] assms(2,3) b64_text_mem last_in_set [of cred] by (auto simp: wf_value_def line_cut_def)
  have c: "CHR ''C'' \<notin> set line_cut" "CHR ''H'' \<notin> set line_cut" "key \<noteq> ''''" "hd key = CHR ''P''"
    by (simp_all add: line_cut_def key)
  have "getHeader ''Proxy-Authorization'' req = header_loop key (connect_lines addr cred @ ['''', ''''])"
    unfolding getHeader_def assms(4) split_connect [OF assms(1,2)] key_def ..
  also have "\<dots> = ''Basic '' @ cred"
    using header_loop_skip [OF c(1,3)] header_loop_skip [OF c(2,3)] ne
    by (simp add: connect_lines_def header_loop_line [OF k(1) v(1)] header_loop_line [OF k(2) v(2)] header_loop_line [OF k(3) v(3) [simplified]]
        header_line_def [of "''Host''"] header_line_def [of "''Connection''"] up c(4) key_def [symmetric] del: header_loop.simps)
  finally show ?thesis .
qed

lemma connect_auth_pair:
  assumes "\<forall>c \<in> set (EncodeToString bs). b64_text c" "bs \<noteq> []"
  shows "trim_set [CHR '' '', CHR 0x0D, CHR 0x0A, CHR 0x09] (''Basic '' @ EncodeToString bs) = ''Basic '' @ EncodeToString bs"
    "auth_pair (''Basic '' @ EncodeToString bs) = Inr (bytes_str bs)"
proof -
  have ne: "EncodeToString bs \<noteq> []" using EncodeToString_nonempty [OF assms(2)] .
  then have "b64_text (last (EncodeToString bs))" using assms(1) last_in_set by blast
  then have l: "last (EncodeToString bs) \<notin> set [CHR '' '', CHR 0x0D, CHR 0x0A, CHR 0x09]"
    using b64_text_mem [of "last (EncodeToString bs)"] by (simp add: line_cut_def)
  show "trim_set [CHR '' '', CHR 0x0D, CHR 0x0A, CHR 0x09] (''Basic '' @ EncodeToString bs) = ''Basic '' @ EncodeToString bs"
    using ne l by (intro trim_set_id) simp_all
  have "\<forall>c \<in> set (EncodeToString bs). \<not> is_space c" using assms(1) b64_text_mem by blast
  then have "str_fields (''Basic'' @ CHR '' '' # EncodeToString bs) = [''Basic'', EncodeToString bs]"
    using str_fields_word [of "''Basic''" "CHR '' ''" "EncodeToString bs"] ne by (simp add: is_space_def str_fields_last)
  then show "auth_pair (''Basic '' @ EncodeToString bs) = Inr (bytes_str bs)"
    by (simp add: auth_pair_def DecodeString_Encode)
qed

lemma not_tls:
  assumes "5 \<le> length d" "d ! 0 \<noteq> 0x16"
  shows "ServerNameFromBytes d = Inl (ErrMsg ''SNI: not TLS'')"
proof -
  obtain buf ss where f: "fill_to 5 [] [d] = (buf, ss)" by (cases "fill_to 5 [] [d]")
  then have "buf = take bufio_size d" using assms(1) by (auto simp: bufio_size_def split: if_splits)
  then have "5 \<le> length buf" "buf ! 0 = d ! 0" using assms(1) by (auto simp: bufio_size_def)
  then show ?thesis using f assms(2)
    by (simp add: ServerNameFromBytes_def ServerNameFromConn_def getServername_def Peek_def bufio_size_def)
qed

lemma decode_connect:
  assumes "plain_addr addr" "raw = ''CONNECT '' @ addr @ '' HTTP/1.1'' @ CRLF @ r0"
  shows "decode_head (str_bytes raw) =
    Inr \<lparr>rq_RawHeader = raw, rq_Host = '''', rq_Method = ''CONNECT'', rq_RawURL = '''', rq_hostOrURL = addr, rq_IsSNI = False\<rparr>"
proof -
  obtain r where raw: "raw = (''CONNECT '' @ addr @ '' HTTP/1.1'' @ [CHR 0x0D]) @ CHR 0x0A # r"
    by (simp add: assms(2) CRLF_def)
  have a: "CHR 0x0A \<notin> set addr" "addr \<noteq> ''''" "\<forall>c \<in> set addr. \<not> is_space c"
    using plain_addr_mem [OF assms(1)] assms(1) by (auto simp: line_cut_def plain_addr_def)
  define line where "line = ''CONNECT '' @ addr @ '' HTTP/1.1'' @ [CHR 0x0D]"
  have "CHR 0x0A \<notin> set line" using a(1) by (simp add: line_def)
  then have line: "takeWhile (\<lambda>c. c \<noteq> CHR 0x0A) raw = line" "CHR 0x0A \<in> set raw"
    unfolding raw line_def [symmetric] by (auto simp: takeWhile_tail)
  have "str_fields line = ''CONNECT'' # str_fields (addr @ CHR '' '' # ''HTTP/1.1'' @ [CHR 0x0D])"
    using str_fields_word [of "''CONNECT''" "CHR '' ''" "addr @ CHR '' '' # ''HTTP/1.1'' @ [CHR 0x0D]"]
    by (simp add: line_def is_space_def)
  also have "\<dots> = ''CONNECT'' # addr # str_fields (''HTTP/1.1'' @ [CHR 0x0D])"
    using str_fields_word [OF a(2,3), of "CHR '' ''" "''HTTP/1.1'' @ [CHR 0x0D]"] by (simp add: is_space_def)
  finally have "first_words line = (''CONNECT'', addr)" by (simp add: first_words_def)
  moreover have "ServerNameFromBytes (str_bytes raw) = Inl (ErrMsg ''SNI: not TLS'')"
    by (rule not_tls) (simp_all add: raw, simp add: str_bytes_def byte_of_char_def)
  moreover have "to_upper ''CONNECT'' = ''CONNECT''" by code_simp
  ultimately show ?thesis using line a(2) by (simp add: decode_head_def)
qed

lemma Verify_local:
  assumes "CHR '':'' \<notin> set user" "CHR '':'' \<notin> set pwd" "trim_set '' '' (Format user pwd) = Format user pwd" "au_url ce = ''''"
  shows "Verify env now later (Format user pwd) ip lip target ce = (Inr (VerifyFromLocal env user pwd ce), ce)"
proof -
  have "split_on (CHR '':'') (Format user pwd) = [user, pwd]" using assms(1,2) by (simp add: split_on_two_iff Format_def)
  then show ?thesis using assms(3,4) by (simp add: Verify_def VerifyFromURL_def)
qed

lemma HTTPS_Dial_reply:
  assumes "length r \<le> 1024"
  shows "HTTPS_Dial addr auth (good_conn (r # rs)) =
    (if str_contains (bytes_str r) ''200'' then Inr () else Inl (ErrMsg ''greeting to proxy''),
     (good_conn rs)\<lparr>write_no := 1, outbox := [str_bytes (connect_request addr auth)]\<rparr>)"
  using assms by (simp add: HTTPS_Dial_def bindIO_def mapErr_def conn_Write_def conn_Read_def good_conn_def failIO_def retIO_def)

lemma connect_pair:
  assumes "plain_addr addr" "rq_RawHeader req = connect_request addr (Some (user, pwd))"
  shows "GetProxyAuthUserPassPair req = retIO (Format user pwd)"
proof -
  define bs where "bs = str_bytes (user @ '':'' @ pwd)"
  have bs: "bytes_str bs = Format user pwd" by (simp only: bs_def Format_def bytes_str_bytes)
  then have "length bs = length (Format user pwd)" by (metis length_bytes_str)
  with bs have bs: "bs \<noteq> []" "bytes_str bs = Format user pwd" by (auto simp: Format_def)
  have t: "\<forall>c \<in> set (EncodeToString bs). b64_text c" using EncodeToString_text by blast
  have "getHeader ''Proxy-Authorization'' req = ''Basic '' @ EncodeToString bs"
    using connect_header [OF assms(1) t EncodeToString_nonempty [OF bs(1)]] assms(2)
    by (simp add: connect_request_lines bs_def)
  then show ?thesis using connect_auth_pair [OF t bs(1)] bs(2)
    by (simp add: GetProxyAuthUserPassPair_def Let_def fun_eq_iff liftR_def retIO_def)
qed

lemma New_connect:
  assumes "plain_addr addr" "length (connect_request addr (Some (user, pwd))) \<le> bufSize"
    and pair: "CHR '':'' \<notin> set user" "CHR '':'' \<notin> set pwd" "trim_set '' '' (Format user pwd) = Format user pwd" "au_url ce = ''''"
    and "inbox c = str_bytes (connect_request addr (Some (user, pwd))) # rest"
  shows "httpc_New env p bufSize (Some ce) c =
    (if VerifyFromLocal env user pwd ce then
       ((Inr \<lparr>rq_RawHeader = connect_request addr (Some (user, pwd)), rq_Host = addr, rq_Method = ''CONNECT'', rq_RawURL = '''',
              rq_hostOrURL = addr, rq_IsSNI = False\<rparr>, Some ce), c\<lparr>inbox := rest\<rparr>)
     else ((Inl (ErrMsg ''basic auth fail''), Some ce), snd (conn_Write auth_refused (c\<lparr>inbox := rest\<rparr>))))"
proof -
  define raw where "raw = connect_request addr (Some (user, pwd))"
  define req where "req = \<lparr>rq_RawHeader = raw, rq_Host = '''', rq_Method = ''CONNECT'', rq_RawURL = '''', rq_hostOrURL = addr, rq_IsSNI = False\<rparr>"
  have "decode_head (str_bytes raw) = Inr req"
    unfolding req_def by (rule decode_connect [OF assms(1)]) (simp add: raw_def connect_request_def)
  moreover have "GetProxyAuthUserPassPair req = retIO (Format user pwd)"
    by (rule connect_pair [OF assms(1)]) (simp add: req_def raw_def)
  moreover have "with_host env req = Inr (req\<lparr>rq_Host := addr\<rparr>)"
    using assms(1) by (simp add: with_host_def req_def IsHTTPS_def plain_addr_def)
  moreover have "conn_Read bufSize c = (Inr (str_bytes raw), c\<lparr>inbox := rest\<rparr>)"
    using assms(2,7) by (simp add: conn_Read_seg raw_def)
  ultimately show ?thesis
    by (simp add: httpc_New_def req_BasicAuth_def retIO_def Verify_local [OF pair] raw_def [symmetric]) (simp add: req_def)
qed

text \<open>Without an authentication centre at the proxy, any credentials will do.\<close>

lemma New_connect_open:
  assumes "plain_addr addr" "length (connect_request addr auth) \<le> bufSize" "inbox c = str_bytes (connect_request addr auth) # rest"
  shows "httpc_New env p bufSize None c =
    ((Inr \<lparr>rq_RawHeader = connect_request addr auth, rq_Host = addr, rq_Method = ''CONNECT'', rq_RawURL = '''',
           rq_hostOrURL = addr, rq_IsSNI = False\<rparr>, None), c\<lparr>inbox := rest\<rparr>)"
proof -
  have "decode_head (str_bytes (connect_request addr auth)) = Inr \<lparr>rq_RawHeader = connect_request addr auth, rq_Host = '''',
      rq_Method = ''CONNECT'', rq_RawURL = '''', rq_hostOrURL = addr, rq_IsSNI = False\<rparr>"
    by (rule decode_connect [OF assms(1)]) (simp add: connect_request_def)
  moreover have "conn_Read bufSize c = (Inr (str_bytes (connect_request addr auth)), c\<lparr>inbox := rest\<rparr>)"
    using assms(2,3) by (simp add: conn_Read_seg)
  ultimately show ?thesis
    using assms(1) by (simp add: httpc_New_def req_BasicAuth_def with_host_def IsHTTPS_def plain_addr_def)
qed

text \<open>C16. A tunnel through an HTTP proxy. The request that the dialler \<open>cs.HTTPS\<close> writes for a target, with a
  user and a password, is decoded by \<open>httpc.New\<close> at the proxy as a CONNECT request for exactly that target,
  and it is accepted exactly when the table of the proxy has this password for the user; then nothing but
  the request is consumed, and the reply of the proxy makes the dialler succeed. Otherwise the proxy
  answers 407 and the dialler fails.\<close>

theorem https_tunnel:
  assumes "plain_addr addr" "length (connect_request addr (Some (user, pwd))) \<le> bufSize"
    and "CHR '':'' \<notin> set user" "CHR '':'' \<notin> set pwd" "trim_set '' '' (Format user pwd) = Format user pwd" "au_url ce = ''''"
  shows "let dial = HTTPS_Dial addr (Some (user, pwd));
             request = str_bytes (connect_request addr (Some (user, pwd)));
             server = httpc_New env p bufSize (Some ce) (good_conn (request # rest)) in
     (\<forall>r rs. length r \<le> 1024 \<longrightarrow> outbox (snd (dial (good_conn (r # rs)))) = [request]) \<and>
     (VerifyFromLocal env user pwd ce \<longrightarrow>
        (\<exists>req s. server = ((Inr req, Some ce), s) \<and> IsHTTPS req \<and> rq_Host req = addr \<and> inbox s = rest \<and> outbox s = [] \<and>
           fst (dial (good_conn (outbox (snd (HTTPSReply s))))) = Inr ())) \<and>
     (\<not> VerifyFromLocal env user pwd ce \<longrightarrow>
        (\<exists>s. server = ((Inl (ErrMsg ''basic auth fail''), Some ce), s) \<and>
           fst (dial (good_conn (outbox s))) = Inl (ErrMsg ''greeting to proxy'')))"
proof -
  define reply where "reply = str_bytes (''HTTP/1.1 200 Connection established'' @ CRLF @ CRLF)"
  have l: "length reply \<le> 1024" "length auth_refused \<le> 1024" by (simp_all add: reply_def auth_refused_def CRLF_def)
  have c: "str_contains (bytes_str reply) ''200''" "\<not> str_contains (bytes_str auth_refused) ''200''"
    unfolding reply_def auth_refused_def bytes_str_bytes by code_simp+
  have g: "(good_conn ss)\<lparr>inbox := rest\<rparr> = good_conn rest" for ss by (simp add: good_conn_def)
  have w: "outbox (snd (conn_Write b (good_conn rest))) = [b]" for b by (simp add: conn_Write_def good_conn_def)
  have r: "outbox (snd (HTTPSReply (good_conn rest))) = [reply]" unfolding HTTPSReply_def reply_def [symmetric] by (rule w)
  have s: "inbox (good_conn rest) = rest" "outbox (good_conn rest) = []" by (simp_all add: good_conn_def)
  have i: "inbox (good_conn (x # rest)) = x # rest" for x by (simp add: good_conn_def)
  show ?thesis
    unfolding Let_def New_connect [OF assms i] g by (simp add: r w s c HTTPS_Dial_reply l IsHTTPS_def)
qed

definition example_center :: "((string, string) alist, (string, dns_item) alist) Center" where
  "example_center = snd (auth_Add example_auth [''tom:pw''] (auth_New example_auth []))"

definition example_peer :: peer where
  "example_peer = \<lparr>RemoteAddr = ''10.0.0.9:4000'', LocalAddr = ''10.0.0.1:8080'', p_now = 0, p_later = 0\<rparr>"

lemma example_center_facts: "au_url example_center = ''''"
  "VerifyFromLocal example_auth ''tom'' ''pw'' example_center" "\<not> VerifyFromLocal example_auth ''tom'' ''px'' example_center"
  by (simp_all add: example_center_def example_auth_def auth_New_def VerifyFromLocal_def alist_cmap_laws cmap_Set)

theorem https_tunnel_witness:
  "(\<exists>req s. httpc_New example_auth example_peer 4096 (Some example_center)
        (good_conn [str_bytes (connect_request ''a.b:443'' (Some (''tom'', ''pw'')))]) = ((Inr req, Some example_center), s) \<and>
        rq_Host req = ''a.b:443'') \<and>
   (\<exists>s. httpc_New example_auth example_peer 4096 (Some example_center)
        (good_conn [str_bytes (connect_request ''a.b:443'' (Some (''tom'', ''px'')))]) =
          ((Inl (ErrMsg ''basic auth fail''), Some example_center), s))"
proof -
  have h: "plain_addr ''a.b:443''" by (simp add: plain_addr_def is_space_def)
  have l: "length (connect_request ''a.b:443'' (Some (''tom'', ''pw''))) \<le> 4096"
    "length (connect_request ''a.b:443'' (Some (''tom'', ''px''))) \<le> 4096" by code_simp+
  have t: "trim_set '' '' (Format ''tom'' ''pw'') = Format ''tom'' ''pw''" "trim_set '' '' (Format ''tom'' ''px'') = Format ''tom'' ''px''"
    by code_simp+
  show ?thesis
    using https_tunnel [OF h l(1) _ _ t(1) example_center_facts(1), of example_auth example_peer "[]"]
      https_tunnel [OF h l(2) _ _ t(2) example_center_facts(1), of example_auth example_peer "[]"] example_center_facts(2,3)
    unfolding Let_def by auto
qed

subsection \<open>What a decoded request guarantees\<close>

lemma decode_head_raw: "decode_head buf = Inr req \<Longrightarrow> rq_RawHeader req = bytes_str buf"
  by (auto simp: decode_head_def decode_error_def Let_def bindR_def split: sum.splits error.splits if_splits prod.splits)

lemma with_host_raw: "with_host env req = Inr req' \<Longrightarrow> rq_RawHeader req' = rq_RawHeader req \<and> rq_Method req' = rq_Method req \<and> rq_IsSNI req' = rq_IsSNI req"
  by (auto simp: with_host_def Let_def split: if_splits option.splits)

lemma GetProxyAuthUserPassPair_ok:
  "GetProxyAuthUserPassPair req c = (Inr pair, c') \<Longrightarrow> c' = c \<and>
     auth_pair (trim_set [CHR '' '', CHR 0x0D, CHR 0x0A, CHR 0x09] (getHeader ''Proxy-Authorization'' req)) = Inr pair"
  by (auto simp: GetProxyAuthUserPassPair_def Let_def bindIO_def failIO_def liftR_def split: if_splits prod.splits sum.splits)

lemma getHeader_cong: "rq_RawHeader req = rq_RawHeader req' \<Longrightarrow> getHeader k req = getHeader k req'"
  by (simp add: getHeader_def)

text \<open>The credentials a request carries.\<close>

definition credentials :: "HttpRequest \<Rightarrow> string result" where
  "credentials req = auth_pair (trim_set [CHR '' '', CHR 0x0D, CHR 0x0A, CHR 0x09] (getHeader ''Proxy-Authorization'' req))"

lemma accepted_by_resolver [simp]: "accepted_by env (ce\<lparr>au_resolver := d\<rparr>) pair = accepted_by env ce pair"
  by (simp add: accepted_by_def VerifyFromLocal_def)

lemma New_core:
  assumes "httpc_New env p n center c = ((r, center'), c')"
  shows "map_option (\<lambda>ce. ce\<lparr>au_resolver := None\<rparr>) center' = map_option (\<lambda>ce. ce\<lparr>au_resolver := None\<rparr>) center"
proof -
  have "map_option (\<lambda>ce. ce\<lparr>au_resolver := None\<rparr>) ce' = map_option (\<lambda>ce. ce\<lparr>au_resolver := None\<rparr>) center"
    if "req_BasicAuth env p req center c0 = ((q, ce'), c1)" for req c0 q ce' c1
    using that by (auto simp: req_BasicAuth_def dest!: Verify_core split: option.splits prod.splits sum.splits if_splits)
  then show ?thesis using assms by (auto simp: httpc_New_def split: prod.splits sum.splits)
qed

lemma New_sound:
  assumes "httpc_New env p n center c = ((Inr req, center'), c')"
  shows "outbox c' = outbox c \<and> write_no c' = write_no c \<and> write_err c' = write_err c \<and>
    (case center of
       None \<Rightarrow> center' = None
     | Some ce \<Rightarrow> \<exists>pair target ce'. credentials req = Inr pair \<and>
         Verify env (p_now p) (p_later p) pair (hd (split_on (CHR '':'') (RemoteAddr p))) (hd (split_on (CHR '':'') (LocalAddr p)))
           target ce = (Inr True, ce') \<and> center' = Some ce')"
proof -
  from assms obtain buf c1 where r: "conn_Read n c = (Inr buf, c1)"
    by (auto simp: httpc_New_def split: prod.splits sum.splits)
  from assms r obtain req0 where d: "decode_head buf = Inr req0" by (auto simp: httpc_New_def split: sum.splits)
  from assms r d obtain c2 where b: "req_BasicAuth env p req0 center c1 = ((Inr (), center'), c2)"
    "with_host env req0 = Inr req" "c' = c2"
    by (auto simp: httpc_New_def split: prod.splits sum.splits)
  have raw: "rq_RawHeader req = rq_RawHeader req0" using with_host_raw [OF b(2)] by simp
  have c1: "outbox c1 = outbox c \<and> write_no c1 = write_no c \<and> write_err c1 = write_err c"
    using r by (auto simp: conn_Read_def split: list.splits)
  show ?thesis
  proof (cases center)
    case None
    then show ?thesis using b c1 by (simp add: req_BasicAuth_def)
  next
    case (Some ce)
    from b(1) Some obtain pair c3 ce' where g: "GetProxyAuthUserPassPair req0 c1 = (Inr pair, c3)"
      "Verify env (p_now p) (p_later p) pair (hd (split_on (CHR '':'') (RemoteAddr p))) (hd (split_on (CHR '':'') (LocalAddr p)))
           (auth_URL req0) ce = (Inr True, ce')" "center' = Some ce'" "c2 = c3"
      by (auto simp: req_BasicAuth_def split: prod.splits sum.splits if_splits)
    from GetProxyAuthUserPassPair_ok [OF g(1)] getHeader_cong [OF raw] have "credentials req = Inr pair" "c3 = c1"
      by (simp_all add: credentials_def)
    with Some g b(3) c1 show ?thesis by auto
  qed
qed

text \<open>Fifty characters are quoted of a head without a line end: when it has more than fifty bytes but fewer than fifty
  characters, the decoder panics.\<close>

lemma decoder_panics:
  assumes "inbox c = [d]" "length d \<le> bufSize" "5 \<le> length d" "d ! 0 \<noteq> 0x16" "0x0A \<notin> set d" "length (runes d) < 50" "50 < length d"
  shows "panics (fst (fst (httpc_New env p bufSize center c)))"
proof -
  have "byte_of_char (CHR 0x0A) = 0x0A" by (simp add: byte_of_char_def)
  then have "CHR 0x0A \<notin> set (bytes_str d)"
    using assms(5) by (auto simp: bytes_str_def)
  moreover have "panics (SubStr d 0 50)" using SubStr_panics_iff [of d 50] assms(6,7) by simp
  then have "panics (decode_error d m :: HttpRequest result)" for m by (auto simp: decode_error_def panics_bindR)
  ultimately have "panics (decode_head d)" using not_tls [OF assms(3,4)] by (simp add: decode_head_def Let_def)
  then show ?thesis using conn_Read_seg [of c d "[]" bufSize] assms(1,2) by (auto simp: httpc_New_def panics_def split: sum.splits)
qed

end
