(* ===== verification/Upstream.thy ===== *)
theory Upstream
  imports Go_Net
begin

section \<open>core/loadbalance/upstream.go: upstreams, their health and their pool\<close>

text \<open>
  An upstream is its configuration (the embedded \<open>Config\<close>, hence a record extension) with the
  counters of the health check and of the open connections, kept at their machine width: the
  health flag and the probe counters are \<open>uint32\<close>, the connection counter is an \<open>int64\<close> read
  through \<open>sint\<close>. A liveness probe is the program's or the caller's function; it is given the
  moment of the call, because the network may answer differently each time, and answers with an
  error or not. The default probe dials; the dialler is a parameter.

  The pool holds pointers; a selector returns one of them. The model of a pool is a list of
  upstreams and a pointer into it is an index.
\<close>

type_synonym probe = "nat \<Rightarrow> string \<Rightarrow> int \<Rightarrow> error option"

record Config =
  cAddr :: string
  cWeight :: int
  cMaxConnections :: int
  cSuccessThreshold :: "32 word"
  cFailureThreshold :: "32 word"
  cPeriod :: int
  cTimeout :: int
  cLivenessProbe :: "probe option"

record Upstream = Config +
  health :: "32 word"
  successCount :: "32 word"
  failureCount :: "32 word"
  connections :: "64 word"
  leastTime :: int

type_synonym UpstreamPool = "Upstream list"

text \<open>\<open>time.Second\<close> in nanoseconds.\<close>

definition second :: int where
  "second = 1000000000"

definition default_config :: "Config \<Rightarrow> Config" where
  "default_config c =
     (let c = (if cSuccessThreshold c = 0 then c\<lparr>cSuccessThreshold := 3\<rparr> else c);
          c = (if cFailureThreshold c = 0 then c\<lparr>cFailureThreshold := 3\<rparr> else c);
          c = (if cWeight c \<le> 0 then c\<lparr>cWeight := 1\<rparr> else c);
          c = (if cTimeout c \<le> 0 then c\<lparr>cTimeout := second * 1\<rparr> else c);
          c = (if cPeriod c \<le> 0 then c\<lparr>cPeriod := second * 30\<rparr> else c)
      in c)"

definition NewUpstream :: "Config \<Rightarrow> Upstream result" where
  "NewUpstream config =
     (case SplitHostPort (cAddr config) of
        Inl _ \<Rightarrow> Inl (ErrMsg ''address required like host:port'')
      | Inr _ \<Rightarrow>
          Inr (Config.extend (default_config config)
                 \<lparr>health = 0, successCount = 0, failureCount = 0, connections = 0, leastTime = 0\<rparr>))"

definition ConnsCount :: "Upstream \<Rightarrow> int" where
  "ConnsCount u = sint (connections u)"

definition ConnsIncrease :: "Upstream \<Rightarrow> Upstream" where
  "ConnsIncrease u = u\<lparr>connections := connections u + 1\<rparr>"

definition ConnsDecrease :: "Upstream \<Rightarrow> Upstream" where
  "ConnsDecrease u = u\<lparr>connections := connections u + (- 1)\<rparr>"

definition Healthy :: "Upstream \<Rightarrow> bool" where
  "Healthy u \<longleftrightarrow> health u = 1"

definition LeastTime :: "Upstream \<Rightarrow> int" where
  "LeastTime u = leastTime u"

definition Full :: "Upstream \<Rightarrow> bool" where
  "Full u \<longleftrightarrow> cMaxConnections u > 0 \<and> sint (connections u) \<ge> cMaxConnections u"

definition Available :: "Upstream \<Rightarrow> bool" where
  "Available u \<longleftrightarrow> Healthy u \<and> \<not> Full u"

text \<open>
  \<open>tcpLivenessProbe\<close>: dial within the timeout, and close the connection again. The dialler is
  given; closing has no effect on the answer.
\<close>

definition tcpLivenessProbe :: "probe \<Rightarrow> probe" where
  "tcpLivenessProbe dial now addr timeout =
     (case dial now addr timeout of Some err \<Rightarrow> Some err | None \<Rightarrow> None)"

definition healthyCheck :: "probe \<Rightarrow> nat \<Rightarrow> int \<Rightarrow> string \<Rightarrow> Upstream \<Rightarrow> Upstream" where
  "healthyCheck dial now elapsed addr u =
     (let livenessProbe = (case cLivenessProbe u of Some p \<Rightarrow> p | None \<Rightarrow> tcpLivenessProbe dial);
          err = livenessProbe now addr (cTimeout u);
          u = u\<lparr>leastTime := elapsed\<rparr>
      in case err of
           Some _ \<Rightarrow>
             let u = u\<lparr>failureCount := failureCount u + 1\<rparr> in
             if failureCount u \<ge> cFailureThreshold u
             then u\<lparr>successCount := 0, health := 0\<rparr> else u
         | None \<Rightarrow>
             let u = u\<lparr>successCount := successCount u + 1\<rparr> in
             if successCount u \<ge> cSuccessThreshold u
             then u\<lparr>failureCount := 0, health := 1\<rparr> else u)"

subsection \<open>The pool\<close>

fun NewUpstreamPool :: "Config list \<Rightarrow> UpstreamPool" where
  "NewUpstreamPool [] = []"
| "NewUpstreamPool (c # cs) =
     (case NewUpstream c of
        Inl _ \<Rightarrow> NewUpstreamPool cs
      | Inr b \<Rightarrow> b # NewUpstreamPool cs)"

fun pool_ConnsIncrease :: "string \<Rightarrow> UpstreamPool \<Rightarrow> UpstreamPool" where
  "pool_ConnsIncrease addr [] = []"
| "pool_ConnsIncrease addr (u # us) =
     (if cAddr u = addr then ConnsIncrease u # us else u # pool_ConnsIncrease addr us)"

fun pool_ConnsDecrease :: "string \<Rightarrow> UpstreamPool \<Rightarrow> UpstreamPool" where
  "pool_ConnsDecrease addr [] = []"
| "pool_ConnsDecrease addr (u # us) =
     (if cAddr u = addr then ConnsDecrease u # us else u # pool_ConnsDecrease addr us)"

fun pool_HasHealthy :: "UpstreamPool \<Rightarrow> bool" where
  "pool_HasHealthy [] = False"
| "pool_HasHealthy (u # us) = (if Healthy u then True else pool_HasHealthy us)"

fun pool_HealthyCount :: "UpstreamPool \<Rightarrow> nat \<Rightarrow> nat" where
  "pool_HealthyCount [] count = count"
| "pool_HealthyCount (u # us) count =
     (if Healthy u then pool_HealthyCount us (count + 1) else pool_HealthyCount us count)"

subsection \<open>Configuration of an upstream\<close>

definition wf_upstream :: "Upstream \<Rightarrow> bool" where
  "wf_upstream u \<longleftrightarrow>
     cWeight u \<ge> 1 \<and> cSuccessThreshold u \<noteq> 0 \<and> cFailureThreshold u \<noteq> 0 \<and>
     cTimeout u > 0 \<and> cPeriod u > 0 \<and> is_ok (SplitHostPort (cAddr u)) \<and> health u \<in> {0, 1}"

lemmas upstream_simps = Config.defs Upstream.defs

lemma default_config_fields:
  "cWeight (default_config c) \<ge> 1"
  "cSuccessThreshold (default_config c) \<noteq> 0"
  "cFailureThreshold (default_config c) \<noteq> 0"
  "cTimeout (default_config c) > 0"
  "cPeriod (default_config c) > 0"
  "cAddr (default_config c) = cAddr c"
  by (auto simp: default_config_def Let_def second_def)

lemma NewUpstream_ok:
  "NewUpstream c = Inr u \<longleftrightarrow>
   is_ok (SplitHostPort (cAddr c)) \<and>
   u = Config.extend (default_config c)
         \<lparr>health = 0, successCount = 0, failureCount = 0, connections = 0, leastTime = 0\<rparr>"
  by (cases "SplitHostPort (cAddr c)") (auto simp: NewUpstream_def)

lemma NewUpstream_wf: "NewUpstream c = Inr u \<Longrightarrow> wf_upstream u \<and> \<not> Healthy u \<and> ConnsCount u = 0"
  using default_config_fields [of c]
  by (auto simp: NewUpstream_ok wf_upstream_def Healthy_def ConnsCount_def Config.extend_def)

lemma NewUpstreamPool_wf: "u \<in> set (NewUpstreamPool cs) \<Longrightarrow> wf_upstream u \<and> \<not> Healthy u"
  by (induction cs) (auto split: sum.splits dest: NewUpstream_wf)

lemma NewUpstreamPool_addrs:
  "map cAddr (NewUpstreamPool cs) = filter (\<lambda>a. is_ok (SplitHostPort a)) (map cAddr cs)"
proof (induction cs)
  case (Cons c cs)
  then show ?case
    using default_config_fields(6) [of c]
    by (cases "SplitHostPort (cAddr c)") (auto simp: NewUpstream_def Config.extend_def)
qed simp

subsection \<open>Counting connections\<close>

lemma ConnsDecrease_Increase [simp]:
  "ConnsDecrease (ConnsIncrease u) = u" "ConnsIncrease (ConnsDecrease u) = u"
  by (simp_all add: ConnsDecrease_def ConnsIncrease_def)

lemma cAddr_Conns [simp]: "cAddr (ConnsIncrease u) = cAddr u" "cAddr (ConnsDecrease u) = cAddr u"
  by (simp_all add: ConnsDecrease_def ConnsIncrease_def)

lemma pool_Conns_inverse:
  "pool_ConnsDecrease addr (pool_ConnsIncrease addr us) = us"
  "pool_ConnsIncrease addr (pool_ConnsDecrease addr us) = us"
  by (induction us) auto

datatype conn_event = Opened string | Closed string

definition conn_step :: "conn_event \<Rightarrow> UpstreamPool \<Rightarrow> UpstreamPool" where
  "conn_step e us = (case e of
     Opened a \<Rightarrow> pool_ConnsIncrease a us | Closed a \<Rightarrow> pool_ConnsDecrease a us)"

text \<open>Only the first upstream with the address is counted; every other field is kept.\<close>

definition is_first :: "UpstreamPool \<Rightarrow> nat \<Rightarrow> bool" where
  "is_first us i \<longleftrightarrow> i < length us \<and> cAddr (us ! i) \<notin> set (take i (map cAddr us))"

definition conn_delta :: "string \<Rightarrow> conn_event \<Rightarrow> 64 word" where
  "conn_delta a e = (case e of Opened b \<Rightarrow> (if a = b then 1 else 0) | Closed b \<Rightarrow> (if a = b then - 1 else 0))"

lemma is_first_Cons:
  "is_first (u # us) 0"
  "is_first (u # us) (Suc i) \<longleftrightarrow> is_first us i \<and> cAddr (us ! i) \<noteq> cAddr u"
  by (auto simp: is_first_def)

lemma conn_step_nth:
  assumes "i < length us"
  shows "conn_step e us ! i = (us ! i)\<lparr>connections := connections (us ! i) +
    (if is_first us i then conn_delta (cAddr (us ! i)) e else 0)\<rparr>"
  using assms
proof (induction us arbitrary: i)
  case (Cons u us)
  then show ?case
    by (cases i; cases e)
      (auto simp: conn_step_def conn_delta_def is_first_Cons ConnsIncrease_def ConnsDecrease_def)
qed simp

lemma conn_step_frame [simp]:
  "length (conn_step e us) = length us" "map cAddr (conn_step e us) = map cAddr us"
proof -
  have "length (pool_ConnsIncrease a us) = length us \<and> map cAddr (pool_ConnsIncrease a us) = map cAddr us"
    "length (pool_ConnsDecrease a us) = length us \<and> map cAddr (pool_ConnsDecrease a us) = map cAddr us" for a
    by (induction us) auto
  then show "length (conn_step e us) = length us" "map cAddr (conn_step e us) = map cAddr us"
    by (simp_all add: conn_step_def split: conn_event.splits)
qed

lemma is_first_cong: "map cAddr us = map cAddr vs \<Longrightarrow> is_first us i = is_first vs i"
  unfolding is_first_def by (metis length_map nth_map)

lemma conn_run_nth:
  "i < length us \<Longrightarrow>
   fold conn_step es us ! i = (us ! i)\<lparr>connections := connections (us ! i) +
     (if is_first us i then (\<Sum>e \<leftarrow> es. conn_delta (cAddr (us ! i)) e) else 0)\<rparr>"
proof (induction es arbitrary: us)
  case (Cons e es)
  have "is_first (conn_step e us) i = is_first us i"
    by (rule is_first_cong) simp
  with Cons show ?case by (simp add: conn_step_nth add.assoc)
qed simp

subsection \<open>Health\<close>

definition outcome :: "probe \<Rightarrow> Upstream \<Rightarrow> string \<Rightarrow> nat \<Rightarrow> error option" where
  "outcome dial u addr now =
     (case cLivenessProbe u of Some p \<Rightarrow> p | None \<Rightarrow> tcpLivenessProbe dial) now addr (cTimeout u)"

lemma healthyCheck_success:
  assumes "outcome dial u addr now = None"
  shows "healthyCheck dial now el addr u =
    (if successCount u + 1 \<ge> cSuccessThreshold u
     then u\<lparr>leastTime := el, successCount := successCount u + 1, failureCount := 0, health := 1\<rparr>
     else u\<lparr>leastTime := el, successCount := successCount u + 1\<rparr>)"
  using assms by (simp add: healthyCheck_def outcome_def Let_def)

lemma healthyCheck_failure:
  assumes "outcome dial u addr now = Some err"
  shows "healthyCheck dial now el addr u =
    (if failureCount u + 1 \<ge> cFailureThreshold u
     then u\<lparr>leastTime := el, failureCount := failureCount u + 1, successCount := 0, health := 0\<rparr>
     else u\<lparr>leastTime := el, failureCount := failureCount u + 1\<rparr>)"
  using assms by (simp add: healthyCheck_def outcome_def Let_def)

lemma healthyCheck_config [simp]:
  "Config.truncate (healthyCheck dial now el addr u) = Config.truncate u"
  "outcome dial (healthyCheck dial now el addr u) = outcome dial u"
  "cSuccessThreshold (healthyCheck dial now el addr u) = cSuccessThreshold u"
  "cFailureThreshold (healthyCheck dial now el addr u) = cFailureThreshold u"
  "cAddr (healthyCheck dial now el addr u) = cAddr u"
  "connections (healthyCheck dial now el addr u) = connections u"
  by (cases "outcome dial u addr now";
      simp add: healthyCheck_success healthyCheck_failure outcome_def [abs_def] Config.truncate_def)+

text \<open>A run of checks: each at its moment, with the time it took.\<close>

fun health_run :: "probe \<Rightarrow> string \<Rightarrow> (nat \<times> int) list \<Rightarrow> Upstream \<Rightarrow> Upstream" where
  "health_run dial addr [] u = u"
| "health_run dial addr ((now, el) # ps) u = health_run dial addr ps (healthyCheck dial now el addr u)"

lemma health_run_append:
  "health_run dial addr (ps @ qs) u = health_run dial addr qs (health_run dial addr ps u)"
  by (induction ps arbitrary: u) auto

lemma health_run_config [simp]:
  "outcome dial (health_run dial addr ps u) = outcome dial u"
  "cSuccessThreshold (health_run dial addr ps u) = cSuccessThreshold u"
  "cFailureThreshold (health_run dial addr ps u) = cFailureThreshold u"
  by (induction ps arbitrary: u) auto

lemma unat_inc32: "unat (x :: 32 word) + 1 < 2 ^ 32 \<Longrightarrow> unat (x + 1) = unat x + 1"
  by (simp add: unat_word_ariths)

lemma le32: "(x :: 32 word) \<le> y \<longleftrightarrow> unat x \<le> unat y"
  by (simp add: word_le_nat_alt)

text \<open>
  The state between checks: the counters are bounded by the number of checks made, and the flag
  agrees with the thresholds.
\<close>

definition health_inv :: "nat \<Rightarrow> Upstream \<Rightarrow> bool" where
  "health_inv n u \<longleftrightarrow>
     unat (successCount u) \<le> n \<and> unat (failureCount u) \<le> n \<and> health u \<in> {0, 1} \<and>
     (health u = 1 \<longrightarrow> cSuccessThreshold u \<le> successCount u)"

lemma healthyCheck_inv:
  assumes "health_inv n u" "Suc n < 2 ^ 32"
  shows "health_inv (Suc n) (healthyCheck dial now el addr u)"
proof -
  have s: "unat (successCount u + 1) = unat (successCount u) + 1"
    and f: "unat (failureCount u + 1) = unat (failureCount u) + 1"
    using assms unfolding health_inv_def by (intro unat_inc32; linarith)+
  show ?thesis
    using assms s f
    by (cases "outcome dial u addr now")
      (auto simp: healthyCheck_success healthyCheck_failure health_inv_def le32)
qed

lemma health_run_inv:
  "health_inv n u \<Longrightarrow> n + length ps < 2 ^ 32 \<Longrightarrow> health_inv (n + length ps) (health_run dial addr ps u)"
proof (induction ps arbitrary: n u)
  case (Cons p ps)
  obtain now el where p: "p = (now, el)" by (cases p)
  have "health_inv (Suc n) (healthyCheck dial now el addr u)"
    using Cons.prems by (intro healthyCheck_inv) simp_all
  then have "health_inv (Suc n + length ps) (health_run dial addr ps (healthyCheck dial now el addr u))"
    using Cons.prems(2) by (intro Cons.IH) simp_all
  then show ?case by (simp add: p)
qed simp

lemma NewUpstream_inv: "NewUpstream c = Inr u \<Longrightarrow> health_inv 0 u"
  by (auto simp: NewUpstream_ok health_inv_def Config.extend_def)

lemma success_streak:
  assumes "\<forall>p \<in> set qs. outcome dial u addr (fst p) = None" "qs \<noteq> []"
    and "unat (successCount u) + length qs < 2 ^ 32"
  shows "unat (successCount (health_run dial addr qs u)) = unat (successCount u) + length qs \<and>
    (unat (cSuccessThreshold u) \<le> unat (successCount u) + length qs \<longrightarrow>
       health (health_run dial addr qs u) = 1 \<and> failureCount (health_run dial addr qs u) = 0)"
  using assms(2,1,3)
proof (induction qs rule: rev_nonempty_induct)
  case (single p)
  then show ?case
    by (cases p) (auto simp: healthyCheck_success le32 unat_inc32)
next
  case (snoc p qs)
  let ?v = "health_run dial addr qs u"
  have v: "unat (successCount ?v) = unat (successCount u) + length qs"
    using snoc by simp
  then have "unat (successCount ?v + 1) = unat (successCount u) + length (qs @ [p])"
    using snoc.prems(2) by (simp add: unat_inc32)
  moreover have "outcome dial ?v addr (fst p) = None" using snoc.prems(1) by simp
  ultimately show ?case
    by (cases p) (auto simp: health_run_append healthyCheck_success le32)
qed

lemma failure_streak:
  assumes "\<forall>p \<in> set qs. outcome dial u addr (fst p) \<noteq> None" "qs \<noteq> []"
    and "unat (failureCount u) + length qs < 2 ^ 32"
  shows "unat (failureCount (health_run dial addr qs u)) = unat (failureCount u) + length qs \<and>
    (unat (cFailureThreshold u) \<le> unat (failureCount u) + length qs \<longrightarrow>
       health (health_run dial addr qs u) = 0 \<and> successCount (health_run dial addr qs u) = 0) \<and>
    (unat (failureCount u) + length qs < unat (cFailureThreshold u) \<longrightarrow>
       health (health_run dial addr qs u) = health u)"
  using assms(2,1,3)
proof (induction qs rule: rev_nonempty_induct)
  case (single p)
  then obtain err where "outcome dial u addr (fst p) = Some err" by auto
  with single show ?case
    by (cases p) (auto simp: healthyCheck_failure le32 unat_inc32)
next
  case (snoc p qs)
  let ?v = "health_run dial addr qs u"
  have v: "unat (failureCount ?v) = unat (failureCount u) + length qs"
    using snoc by simp
  then have "unat (failureCount ?v + 1) = unat (failureCount u) + length (qs @ [p])"
    using snoc.prems(2) by (simp add: unat_inc32)
  moreover obtain err where "outcome dial ?v addr (fst p) = Some err"
    using snoc.prems(1) by auto
  ultimately show ?case
    using snoc by (cases p) (auto simp: health_run_append healthyCheck_failure le32)
qed

subsection \<open>Properties\<close>

text \<open>C13. Health of an upstream over any run of fewer than \<open>2 ^ 32\<close> checks from its creation: when
  the last checks, at least the success threshold many, all succeeded it is healthy; when the
  last checks, at least the failure threshold many, all failed it is not.\<close>

theorem health_follows_streak:
  assumes new: "NewUpstream c = Inr u" and len: "length ps + length qs < 2 ^ 32"
    and u': "u' = health_run dial addr (ps @ qs) u"
  shows "((\<forall>p \<in> set qs. outcome dial u addr (fst p) = None) \<and> unat (cSuccessThreshold u) \<le> length qs
           \<longrightarrow> Healthy u')
       \<and> ((\<forall>p \<in> set qs. outcome dial u addr (fst p) \<noteq> None) \<and> unat (cFailureThreshold u) \<le> length qs
           \<longrightarrow> \<not> Healthy u')"
proof -
  let ?v = "health_run dial addr ps u"
  have inv: "health_inv (length ps) ?v"
    using health_run_inv [OF NewUpstream_inv [OF new], of ps] len by simp
  then have bounds: "unat (successCount ?v) + length qs < 2 ^ 32" "unat (failureCount ?v) + length qs < 2 ^ 32"
    using len by (auto simp: health_inv_def)
  have pos: "0 < unat (cSuccessThreshold u)" "0 < unat (cFailureThreshold u)"
    using NewUpstream_wf [OF new] by (auto simp: wf_upstream_def unat_gt_0)
  have run: "u' = health_run dial addr qs ?v" by (simp add: u' health_run_append)
  show ?thesis
  proof (intro conjI impI)
    assume h: "(\<forall>p \<in> set qs. outcome dial u addr (fst p) = None) \<and> unat (cSuccessThreshold u) \<le> length qs"
    with pos have "qs \<noteq> []" by auto
    with success_streak [of qs dial ?v addr] h bounds show "Healthy u'"
      by (auto simp: run Healthy_def)
  next
    assume h: "(\<forall>p \<in> set qs. outcome dial u addr (fst p) \<noteq> None) \<and> unat (cFailureThreshold u) \<le> length qs"
    with pos have "qs \<noteq> []" by auto
    with failure_streak [of qs dial ?v addr] h bounds show "\<not> Healthy u'"
      by (auto simp: run Healthy_def)
  qed
qed

definition example_config :: Config where
  "example_config = \<lparr>cAddr = ''10.0.0.1:80'', cWeight = 0, cMaxConnections = 0, cSuccessThreshold = 0,
     cFailureThreshold = 2, cPeriod = 0, cTimeout = 0, cLivenessProbe = None\<rparr>"

theorem health_follows_streak_witness:
  "\<exists>u. NewUpstream example_config = Inr u \<and>
     Healthy (health_run (\<lambda>_ _ _. None) ''10.0.0.1:80'' ([] @ [(0, 1), (1, 1), (2, 1)]) u)"
proof -
  obtain u where u: "NewUpstream example_config = Inr u" "cLivenessProbe u = None" "cSuccessThreshold u = 3"
    by (simp add: NewUpstream_def example_config_def default_config_def Config.extend_def
        SplitHostPort_def break_last_def split_check_def)
  then have "outcome (\<lambda>_ _ _. None) u ''10.0.0.1:80'' t = None" for t
    by (simp add: outcome_def tcpLivenessProbe_def)
  with health_follows_streak [OF u(1), of "[]" "[(0, 1), (1, 1), (2, 1)]" _ "\<lambda>_ _ _. None" "''10.0.0.1:80''"]
    u show ?thesis by (intro exI [of _ u]) (simp del: health_run.simps)
qed

text \<open>A healthy upstream survives isolated failures: when a check succeeds in a healthy state,
  fewer failures in a row than the failure threshold leave it healthy.\<close>

theorem health_tolerates_short_failures:
  assumes new: "NewUpstream c = Inr u" and len: "length ps + 1 + length qs < 2 ^ 32"
    and healthy: "Healthy (health_run dial addr ps u)"
    and ok: "outcome dial u addr now = None"
    and bad: "\<forall>p \<in> set qs. outcome dial u addr (fst p) \<noteq> None"
    and short: "length qs < unat (cFailureThreshold u)"
  shows "Healthy (health_run dial addr (ps @ (now, el) # qs) u)"
proof -
  let ?v = "health_run dial addr ps u"
  let ?w = "healthyCheck dial now el addr ?v"
  have inv: "health_inv (length ps) ?v"
    using health_run_inv [OF NewUpstream_inv [OF new], of ps] len by simp
  have "unat (successCount ?v + 1) = unat (successCount ?v) + 1"
    using inv len by (intro unat_inc32) (simp add: health_inv_def)
  then have "cSuccessThreshold ?v \<le> successCount ?v + 1"
    using inv healthy by (simp add: health_inv_def Healthy_def le32)
  then have w: "health ?w = 1" "failureCount ?w = 0"
    using ok by (simp_all add: healthyCheck_success)
  have "health (health_run dial addr qs ?w) = 1"
  proof (cases "qs = []")
    case False
    have "unat (failureCount ?w) + length qs < 2 ^ 32" using len w(2) by simp
    with failure_streak [of qs dial ?w addr] bad short w False show ?thesis by simp
  qed (simp add: w)
  then show ?thesis by (simp add: health_run_append Healthy_def)
qed

theorem health_tolerates_short_failures_witness:
  "\<exists>u. NewUpstream example_config = Inr u \<and>
     Healthy (health_run (\<lambda>now _ _. if now = 9 then Some EOF else None) ''10.0.0.1:80''
       ([(0, 1), (1, 1), (2, 1)] @ (3, 1) # [(9, 1)]) u)"
proof -
  let ?dial = "\<lambda>now _ _. if now = 9 then Some EOF else None :: error option"
  obtain u where u: "NewUpstream example_config = Inr u" "cLivenessProbe u = None"
    "cSuccessThreshold u = 3" "cFailureThreshold u = 2" "successCount u = 0"
    by (simp add: NewUpstream_def example_config_def default_config_def Config.extend_def
        SplitHostPort_def break_last_def split_check_def)
  have out: "outcome ?dial u ''10.0.0.1:80'' t = (if t = 9 then Some EOF else None)" for t
    using u by (simp add: outcome_def tcpLivenessProbe_def)
  have "Healthy (health_run ?dial ''10.0.0.1:80'' [(0, 1), (1, 1), (2, 1)] u)"
    using success_streak [of "[(0, 1), (1, 1), (2, 1)]" ?dial u "''10.0.0.1:80''"] u out
    by (simp add: Healthy_def del: health_run.simps)
  with health_tolerates_short_failures [OF u(1), of "[(0, 1), (1, 1), (2, 1)]" "[(9, 1)]" ?dial
      "''10.0.0.1:80''" 3 1] u out show ?thesis
    by (intro exI [of _ u]) (simp del: health_run.simps)
qed

text \<open>Accounting of connections: after any sequence of openings and closings the counter of an
  upstream has moved by the openings less the closings for its address, modulo \<open>2 ^ 64\<close>, when it
  is the first upstream with that address; an upstream behind another with the same address is
  never counted; nothing else of any upstream changes.\<close>

theorem connection_accounting:
  assumes "i < length us"
  shows "fold conn_step es us ! i = (us ! i)\<lparr>connections := connections (us ! i) +
    (if is_first us i then (\<Sum>e \<leftarrow> es. conn_delta (cAddr (us ! i)) e) else 0)\<rparr>"
  using assms by (rule conn_run_nth)

theorem connection_accounting_witness:
  "connections (fold conn_step [Opened ''a:1'', Opened ''a:1'', Closed ''a:1'']
     [Config.extend (example_config\<lparr>cAddr := ''a:1''\<rparr>)
        \<lparr>health = 1, successCount = 0, failureCount = 0, connections = 4, leastTime = 0\<rparr>] ! 0) = 5"
  using connection_accounting [of 0 "[Config.extend (example_config\<lparr>cAddr := ''a:1''\<rparr>)
        \<lparr>health = 1, successCount = 0, failureCount = 0, connections = 4, leastTime = 0\<rparr>]"
      "[Opened ''a:1'', Opened ''a:1'', Closed ''a:1'']"]
  by (simp add: is_first_def conn_delta_def Config.extend_def)

text \<open>A pool is built from the configurations whose address has the form host:port, in order;
  every upstream in it has a positive weight, thresholds and time-outs, and starts unhealthy.\<close>

theorem new_pool_wellformed:
  "map cAddr (NewUpstreamPool cs) = filter (\<lambda>a. is_ok (SplitHostPort a)) (map cAddr cs)
   \<and> list_all (\<lambda>u. wf_upstream u \<and> \<not> Healthy u) (NewUpstreamPool cs)
   \<and> pool_HealthyCount (NewUpstreamPool cs) 0 = 0 \<and> \<not> pool_HasHealthy (NewUpstreamPool cs)"
proof (intro conjI)
  show "map cAddr (NewUpstreamPool cs) = filter (\<lambda>a. is_ok (SplitHostPort a)) (map cAddr cs)"
    by (rule NewUpstreamPool_addrs)
  show all: "list_all (\<lambda>u. wf_upstream u \<and> \<not> Healthy u) (NewUpstreamPool cs)"
    using NewUpstreamPool_wf by (auto simp: list_all_iff)
  have "list_all (\<lambda>u. \<not> Healthy u) us \<Longrightarrow> pool_HealthyCount us n = n \<and> \<not> pool_HasHealthy us" for us n
    by (induction us) auto
  then show "pool_HealthyCount (NewUpstreamPool cs) 0 = 0" "\<not> pool_HasHealthy (NewUpstreamPool cs)"
    using all by (simp_all add: list_all_iff)
qed

end
