(* ===== verification/Selector.thy ===== *)
theory Selector
  imports Upstream
begin

section \<open>core/loadbalance/selector.go: choosing an upstream\<close>

text \<open>
  A selector is given the pool and the source address and returns a pointer into the pool or
  \<open>nil\<close>: an index, or \<open>None\<close>. The numbers drawn from \<open>math/rand\<close> are a function \<open>rnd\<close>: \<open>rnd i\<close> is
  the number drawn while the loop is at position \<open>i\<close> of the pool. \<open>extmath.Gcdx\<close> belongs to
  another module and is the parameter \<open>gcdx\<close>. The state of a stateful selector is threaded: the
  \<open>uint32\<close> cursor of \<open>RoundRobin\<close>, the record of \<open>Weight\<close>.
\<close>

unbundle bit_operations_syntax

type_synonym draws = "nat \<Rightarrow> nat"
type_synonym choice = "nat option result"

fun random_loop :: "draws \<Rightarrow> UpstreamPool \<Rightarrow> nat \<Rightarrow> nat option \<Rightarrow> nat \<Rightarrow> nat option" where
  "random_loop rnd [] i b count = b"
| "random_loop rnd (u # us) i b count =
     (if Available u then
        let count = count + 1 in
        random_loop rnd us (Suc i) (if rnd i mod count = 0 then Some i else b) count
      else random_loop rnd us (Suc i) b count)"

definition Random_Select :: "draws \<Rightarrow> UpstreamPool \<Rightarrow> string \<Rightarrow> nat option" where
  "Random_Select rnd pool srcAddr = random_loop rnd pool 0 None 0"

text \<open>The loop runs \<open>uint32(len(pool))\<close> times, counted down here by its first argument.\<close>

fun rr_loop :: "nat \<Rightarrow> UpstreamPool \<Rightarrow> 32 word \<Rightarrow> choice \<times> 32 word" where
  "rr_loop 0 pool robin = (Inr None, robin)"
| "rr_loop (Suc k) pool robin =
     (let newRobin = robin + 1; j = unat (newRobin mod of_nat (length pool)) in
      case index_at pool j of
        Inl e \<Rightarrow> (Inl e, newRobin)
      | Inr b \<Rightarrow> if Available b then (Inr (Some j), newRobin) else rr_loop k pool newRobin)"

definition RoundRobin_Select :: "32 word \<Rightarrow> UpstreamPool \<Rightarrow> string \<Rightarrow> choice \<times> 32 word" where
  "RoundRobin_Select robin pool srcAddr =
     rr_loop (unat (of_nat (length pool) :: 32 word)) pool robin"

text \<open>
  The loop of \<open>LeastConn.Select\<close> and of \<open>LeastTime.Select\<close>, which differ only in the quantity
  \<open>f\<close> they compare; \<open>-1\<close> stands for \<open>no minimum yet\<close>.
\<close>

definition least_step :: "(Upstream \<Rightarrow> int) \<Rightarrow> nat \<Rightarrow> Upstream \<Rightarrow> nat \<Rightarrow> nat option \<times> int \<times> nat \<Rightarrow> nat option \<times> int \<times> nat" where
  "least_step f i b draw st =
     (case st of (best, mn, count) \<Rightarrow>
      if Available b then
        let num = f b;
            (mn, count) = (if mn = -1 \<or> num < mn then (num, 0) else (mn, count))
        in if num = mn then
             let count = count + 1 in (if draw mod count = 0 then Some i else best, mn, count)
           else (best, mn, count)
      else (best, mn, count))"

fun least_loop :: "(Upstream \<Rightarrow> int) \<Rightarrow> draws \<Rightarrow> UpstreamPool \<Rightarrow> nat \<Rightarrow> nat option \<times> int \<times> nat \<Rightarrow> nat option" where
  "least_loop f rnd [] i st = fst st"
| "least_loop f rnd (b # bs) i st = least_loop f rnd bs (Suc i) (least_step f i b (rnd i) st)"

definition LeastConn_Select :: "draws \<Rightarrow> UpstreamPool \<Rightarrow> string \<Rightarrow> nat option" where
  "LeastConn_Select rnd pool srcAddr = least_loop ConnsCount rnd pool 0 (None, -1, 0)"

definition LeastTime_Select :: "draws \<Rightarrow> UpstreamPool \<Rightarrow> string \<Rightarrow> nat option" where
  "LeastTime_Select rnd pool srcAddr = least_loop LeastTime rnd pool 0 (None, -1, 0)"

text \<open>\<open>fnv.New32a\<close>: the 32 bit FNV-1a hash.\<close>

definition hash :: "string \<Rightarrow> 32 word" where
  "hash s = foldl (\<lambda>h c. (h XOR ucast (byte_of_char c)) * 16777619) 2166136261 s"

fun hashing_loop :: "nat \<Rightarrow> UpstreamPool \<Rightarrow> 32 word \<Rightarrow> choice" where
  "hashing_loop 0 pool index = Inr None"
| "hashing_loop (Suc k) pool index =
     (let j = unat (index mod of_nat (length pool)) in
      case index_at pool j of
        Inl e \<Rightarrow> Inl e
      | Inr upstream \<Rightarrow> if Available upstream then Inr (Some j) else hashing_loop k pool (index + 1))"

definition hashing :: "UpstreamPool \<Rightarrow> string \<Rightarrow> choice" where
  "hashing pool s =
     (let poolLen = of_nat (length pool) :: 32 word in
      if poolLen = 0 then Inl (Panic DivideByZero)
      else hashing_loop (unat poolLen) pool (hash s mod poolLen))"

definition IPHash_Select :: "draws \<Rightarrow> UpstreamPool \<Rightarrow> string \<Rightarrow> choice" where
  "IPHash_Select rnd pool srcAddr =
     (if srcAddr = '''' then Inr (Random_Select rnd pool srcAddr)
      else let host = (case SplitHostPort srcAddr of Inl _ \<Rightarrow> srcAddr | Inr (host, _) \<Rightarrow> host)
           in hashing pool host)"

definition AddrHash_Select :: "draws \<Rightarrow> UpstreamPool \<Rightarrow> string \<Rightarrow> choice" where
  "AddrHash_Select rnd pool srcAddr =
     (if srcAddr = '''' then Inr (Random_Select rnd pool srcAddr) else hashing pool srcAddr)"

record Weight =
  index :: int
  curWeight :: int

definition NewWeight :: Weight where
  "NewWeight = \<lparr>index = -1, curWeight = 0\<rparr>"

fun getMaxWeightAndGCD :: "(int \<Rightarrow> int \<Rightarrow> int) \<Rightarrow> UpstreamPool \<Rightarrow> (int \<times> int) result" where
  "getMaxWeightAndGCD gcdx [] = Inl (Panic IndexOutOfRange)"
| "getMaxWeightAndGCD gcdx (p # pool) =
     Inr (foldl (\<lambda>(maxWeight, g) u.
            (if cWeight u > maxWeight then cWeight u else maxWeight, gcdx g (cWeight u)))
          (cWeight p, cWeight p) pool)"

text \<open>
  One turn of the loop of \<open>Weight.Select\<close>: the cursor advances and, at the start of a round, the
  current weight falls by the common divisor. The index is never below \<open>-1\<close>, so Go's remainder
  of \<open>index + 1\<close> is \<open>mod\<close>.
\<close>

definition weight_advance :: "nat \<Rightarrow> int \<Rightarrow> int \<Rightarrow> Weight \<Rightarrow> Weight" where
  "weight_advance n maxWeight g w =
     (let w = w\<lparr>index := (index w + 1) mod int n\<rparr> in
      if index w = 0 then
        let w = w\<lparr>curWeight := curWeight w - g\<rparr> in
        if curWeight w \<le> 0 then w\<lparr>curWeight := maxWeight\<rparr> else w
      else w)"

fun weight_loop :: "nat \<Rightarrow> int \<Rightarrow> int \<Rightarrow> UpstreamPool \<Rightarrow> Weight \<Rightarrow> choice \<times> Weight" where
  "weight_loop 0 maxWeight g pool w = (Inr None, w)"
| "weight_loop (Suc k) maxWeight g pool w =
     (let w = weight_advance (length pool) maxWeight g w in
      case index_at pool (nat (index w)) of
        Inl e \<Rightarrow> (Inl e, w)
      | Inr u \<Rightarrow> if cWeight u \<ge> curWeight w \<and> Available u then (Inr (Some (nat (index w))), w)
               else weight_loop k maxWeight g pool w)"

definition Weight_Select :: "(int \<Rightarrow> int \<Rightarrow> int) \<Rightarrow> Weight \<Rightarrow> UpstreamPool \<Rightarrow> string \<Rightarrow> choice \<times> Weight" where
  "Weight_Select gcdx w pool srcAddr =
     (if length pool = 0 then (Inr None, w)
      else if length pool = 1 then (Inr (Some 0), w)
      else case getMaxWeightAndGCD gcdx pool of
             Inl e \<Rightarrow> (Inl e, w)
           | Inr (maxWeight, g) \<Rightarrow> weight_loop (length pool) maxWeight g pool w)"

text \<open>The seven selectors registered by \<open>init\<close>, behind the interface \<open>Selector\<close>.\<close>

datatype Selector =
    SRandom
  | SRoundRobin "32 word"
  | SLeastConn
  | SIPHash
  | SAddrHash
  | SLeastTime
  | SWeight Weight

definition Select :: "(int \<Rightarrow> int \<Rightarrow> int) \<Rightarrow> draws \<Rightarrow> Selector \<Rightarrow> UpstreamPool \<Rightarrow> string \<Rightarrow> choice \<times> Selector" where
  "Select gcdx rnd sel pool srcAddr =
     (case sel of
        SRandom \<Rightarrow> (Inr (Random_Select rnd pool srcAddr), SRandom)
      | SRoundRobin robin \<Rightarrow> map_prod id SRoundRobin (RoundRobin_Select robin pool srcAddr)
      | SLeastConn \<Rightarrow> (Inr (LeastConn_Select rnd pool srcAddr), SLeastConn)
      | SIPHash \<Rightarrow> (IPHash_Select rnd pool srcAddr, SIPHash)
      | SAddrHash \<Rightarrow> (AddrHash_Select rnd pool srcAddr, SAddrHash)
      | SLeastTime \<Rightarrow> (Inr (LeastTime_Select rnd pool srcAddr), SLeastTime)
      | SWeight w \<Rightarrow> map_prod id SWeight (Weight_Select gcdx w pool srcAddr))"

subsection \<open>First hits and circular scans\<close>

fun first_in :: "nat \<Rightarrow> (nat \<Rightarrow> bool) \<Rightarrow> nat option" where
  "first_in 0 P = None"
| "first_in (Suc k) P = (if P 0 then Some 0 else map_option Suc (first_in k (\<lambda>t. P (Suc t))))"

lemma first_in_None: "first_in k P = None \<longleftrightarrow> (\<forall>t<k. \<not> P t)"
proof (induction k arbitrary: P)
  case (Suc k)
  have "(\<forall>t<Suc k. \<not> P t) \<longleftrightarrow> \<not> P 0 \<and> (\<forall>t<k. \<not> P (Suc t))"
    by (metis Suc_less_eq less_Suc_eq_0_disj)
  with Suc show ?case by simp
qed simp

lemma first_in_Some: "first_in k P = Some t \<Longrightarrow> t < k \<and> P t \<and> (\<forall>s<t. \<not> P s)"
proof (induction k arbitrary: P t)
  case (Suc k)
  show ?case
  proof (cases "P 0")
    case False
    with Suc.prems obtain t' where t: "t = Suc t'" "first_in k (\<lambda>t. P (Suc t)) = Some t'" by auto
    from Suc.IH [OF t(2)] False show ?thesis
      by (auto simp: t(1) less_Suc_eq_0_disj)
  qed (use Suc.prems in auto)
qed simp

lemma first_inI:
  assumes "t < k" "P t" "\<And>s. s < t \<Longrightarrow> \<not> P s"
  shows "first_in k P = Some t"
proof (cases "first_in k P")
  case None
  with assms show ?thesis by (auto simp: first_in_None)
next
  case (Some s)
  with assms first_in_Some [OF Some] show ?thesis by (metis linorder_neqE_nat)
qed

lemma circular_cover:
  fixes a n i :: nat
  assumes "i < n"
  obtains t where "t < n" "(a + t) mod n = i"
proof
  show "(i + (n - a mod n)) mod n < n" using assms by simp
  have "(a + (i + (n - a mod n)) mod n) mod n = (a mod n + (i + (n - a mod n))) mod n"
    by (metis mod_add_left_eq mod_add_right_eq)
  also have "a mod n + (i + (n - a mod n)) = i + n"
    using assms mod_less_divisor [of n a] by linarith
  finally show "(a + (i + (n - a mod n)) mod n) mod n = i" using assms by simp
qed

subsection \<open>Random and the least-loaded choices\<close>

lemma random_loop_Some:
  "random_loop rnd us i b c = Some j \<Longrightarrow> b \<noteq> Some j \<Longrightarrow> i \<le> j \<and> j - i < length us \<and> Available (us ! (j - i))"
proof (induction us arbitrary: i b c)
  case (Cons u us)
  show ?case
  proof (cases "Available u \<and> j = i")
    case False
    with Cons.prems obtain b' c' where "random_loop rnd us (Suc i) b' c' = Some j" "b' \<noteq> Some j"
      by (auto simp: Let_def split: if_splits)
    from Cons.IH [OF this] show ?thesis by (auto simp: Suc_le_eq nth_Cons')
  qed simp
qed simp

lemma random_loop_None:
  "(b = None \<longleftrightarrow> c = 0) \<Longrightarrow>
   random_loop rnd us i b c = None \<longleftrightarrow> c = 0 \<and> (\<forall>u \<in> set us. \<not> Available u)"
  by (induction us arbitrary: i b c) (auto simp: Let_def)

lemma Random_Select_Some:
  "Random_Select rnd pool a = Some i \<Longrightarrow> i < length pool \<and> Available (pool ! i)"
  using random_loop_Some [of rnd pool 0 None 0 i] by (simp add: Random_Select_def)

lemma Random_Select_None: "Random_Select rnd pool a = None \<longleftrightarrow> (\<forall>u \<in> set pool. \<not> Available u)"
  by (simp add: Random_Select_def random_loop_None)

text \<open>
  The state of the least loop over the upstreams \<open>us\<close> already seen: no best yet and no minimum, or
  the best is available and its quantity is the minimum over the available ones.
\<close>

definition least_inv :: "(Upstream \<Rightarrow> int) \<Rightarrow> UpstreamPool \<Rightarrow> nat option \<times> int \<times> nat \<Rightarrow> bool" where
  "least_inv f us st \<longleftrightarrow> (case st of (best, mn, count) \<Rightarrow>
     (case best of
        None \<Rightarrow> mn = -1 \<and> (\<forall>u \<in> set us. \<not> Available u)
      | Some i \<Rightarrow> i < length us \<and> Available (us ! i) \<and> 0 < count \<and>
          ((\<forall>u \<in> set us. 0 \<le> f u) \<longrightarrow>
             mn = f (us ! i) \<and> (\<forall>u \<in> set us. Available u \<longrightarrow> mn \<le> f u))))"

lemma least_step_inv:
  assumes "least_inv f us st"
  shows "least_inv f (us @ [b]) (least_step f (length us) b r st)"
proof -
  obtain best mn count where st: "st = (best, mn, count)" by (cases st)
  show ?thesis
  proof (cases best)
    case None
    with assms show ?thesis
      by (auto simp: st least_inv_def least_step_def Let_def)
  next
    case (Some i)
    with assms have i: "i < length us" "us ! i \<in> set us" by (simp_all add: st least_inv_def)
    have "mn \<noteq> -1" if nonneg: "\<forall>u \<in> set us. 0 \<le> f u"
    proof -
      have "mn = f (us ! i)" using assms nonneg by (simp add: st Some least_inv_def)
      with bspec [OF nonneg i(2)] show ?thesis by linarith
    qed
    with assms i show ?thesis
      by (auto simp: st Some least_inv_def least_step_def Let_def nth_append split: if_splits)
  qed
qed

lemma least_loop_inv:
  assumes "least_inv f us st"
  shows "\<exists>mn count. least_inv f (us @ vs) (least_loop f rnd vs (length us) st, mn, count)"
  using assms
proof (induction vs arbitrary: us st)
  case Nil
  then show ?case by (cases st) auto
next
  case (Cons b vs)
  then have "least_inv f (us @ [b]) (least_step f (length us) b (rnd (length us)) st)"
    by (intro least_step_inv) auto
  from Cons.IH [OF this] show ?case by simp
qed

lemma least_loop_correct:
  "case least_loop f rnd pool 0 (None, -1, 0) of
      None \<Rightarrow> \<forall>u \<in> set pool. \<not> Available u
    | Some i \<Rightarrow> i < length pool \<and> Available (pool ! i) \<and>
        ((\<forall>u \<in> set pool. 0 \<le> f u) \<longrightarrow> (\<forall>u \<in> set pool. Available u \<longrightarrow> f (pool ! i) \<le> f u))"
proof -
  have "least_inv f [] (None, -1, 0)" by (simp add: least_inv_def)
  from least_loop_inv [OF this, of pool rnd] show ?thesis
    by (auto simp: least_inv_def split: option.splits)
qed

lemma least_loop_Some:
  "least_loop f rnd pool 0 (None, -1, 0) = Some i \<Longrightarrow>
   i < length pool \<and> Available (pool ! i) \<and>
   ((\<forall>u \<in> set pool. 0 \<le> f u) \<longrightarrow> (\<forall>u \<in> set pool. Available u \<longrightarrow> f (pool ! i) \<le> f u))"
  using least_loop_correct [where f = f and rnd = rnd and pool = pool] by simp

lemma least_loop_None:
  "least_loop f rnd pool 0 (None, -1, 0) = None \<Longrightarrow> \<forall>u \<in> set pool. \<not> Available u"
  using least_loop_correct [where f = f and rnd = rnd and pool = pool] by simp

subsection \<open>Round robin and hashing\<close>

lemma cursor_in_range:
  assumes "(of_nat (length pool) :: 32 word) \<noteq> 0"
  shows "unat (x mod (of_nat (length pool) :: 32 word)) < length pool"
proof -
  have "unat (x mod (of_nat (length pool) :: 32 word)) < unat (of_nat (length pool) :: 32 word)"
    using assms by (simp add: unat_mod unat_gt_0)
  also have "\<dots> \<le> length pool" by (simp add: unat_of_nat)
  finally show ?thesis .
qed

lemma cursor_mod:
  "length pool < 2 ^ 32 \<Longrightarrow> unat (x mod (of_nat (length pool) :: 32 word)) = unat x mod length pool"
  by (simp add: unat_mod unat_of_nat take_bit_eq_mod)

lemma len32_unat: "length pool < 2 ^ 32 \<Longrightarrow> unat (of_nat (length pool) :: 32 word) = length pool"
  by (simp add: unat_of_nat take_bit_eq_mod)

lemma len32_nonzero: "0 < length pool \<Longrightarrow> length pool < 2 ^ 32 \<Longrightarrow> (of_nat (length pool) :: 32 word) \<noteq> 0"
  by (metis len32_unat unat_0 less_irrefl)

lemma rr_loop_safe:
  assumes "(of_nat (length pool) :: 32 word) \<noteq> 0"
  shows "\<exists>v. fst (rr_loop k pool robin) = Inr v \<and>
    (\<forall>i. v = Some i \<longrightarrow> i < length pool \<and> Available (pool ! i))"
  by (induction k arbitrary: robin) (auto simp: Let_def cursor_in_range [OF assms])

lemma hashing_loop_safe:
  assumes "(of_nat (length pool) :: 32 word) \<noteq> 0"
  shows "\<exists>v. hashing_loop k pool ix = Inr v \<and>
    (\<forall>i. v = Some i \<longrightarrow> i < length pool \<and> Available (pool ! i))"
  by (induction k arbitrary: ix) (auto simp: Let_def cursor_in_range [OF assms])

text \<open>As long as the cursor does not wrap, the loops return the first hit of a circular scan.\<close>

lemma rr_loop_scan:
  assumes "0 < length pool" "length pool < 2 ^ 32"
  shows "unat robin + k < 2 ^ 32 \<Longrightarrow> rr_loop k pool robin =
    (case first_in k (\<lambda>t. Available (pool ! ((unat robin + Suc t) mod length pool))) of
       None \<Rightarrow> (Inr None, robin + of_nat k)
     | Some t \<Rightarrow> (Inr (Some ((unat robin + Suc t) mod length pool)), robin + of_nat (Suc t)))"
proof (induction k arbitrary: robin)
  case (Suc k)
  have inc: "unat (robin + 1) = unat robin + 1" using Suc.prems by (intro unat_inc32) simp
  have "rr_loop k pool (robin + 1) =
      (case first_in k (\<lambda>t. Available (pool ! ((unat robin + Suc (Suc t)) mod length pool))) of
       None \<Rightarrow> (Inr None, robin + 1 + of_nat k)
     | Some t \<Rightarrow> (Inr (Some ((unat robin + Suc (Suc t)) mod length pool)), robin + 1 + of_nat (Suc t)))"
    using Suc.prems by (subst Suc.IH) (simp_all add: inc cong: option.case_cong)
  then show ?case
    using assms by (auto simp: Let_def cursor_mod inc add.assoc split: option.splits)
qed simp

lemma hashing_loop_scan:
  assumes "0 < length pool" "length pool < 2 ^ 32"
  shows "unat ix + k \<le> 2 ^ 32 \<Longrightarrow> hashing_loop k pool ix =
    Inr (map_option (\<lambda>t. (unat ix + t) mod length pool)
      (first_in k (\<lambda>t. Available (pool ! ((unat ix + t) mod length pool)))))"
proof (induction k arbitrary: ix)
  case (Suc k)
  show ?case
  proof (cases k)
    case 0
    then show ?thesis using assms by (simp add: Let_def cursor_mod)
  next
    case (Suc k')
    then have inc: "unat (ix + 1) = unat ix + 1" using Suc.prems by (intro unat_inc32) simp
    with Suc.IH [of "ix + 1"] Suc.prems show ?thesis
      using assms
      by (simp add: Let_def cursor_mod option.map_comp comp_def del: hashing_loop.simps(2) first_in.simps(2))
        (simp add: Let_def cursor_mod option.map_comp comp_def)
  qed
qed simp

subsection \<open>Weighted round robin\<close>

text \<open>What the selector relies on of \<open>extmath.Gcdx\<close>: on positive numbers it is the greatest common divisor.\<close>

definition gcdx_ok :: "(int \<Rightarrow> int \<Rightarrow> int) \<Rightarrow> bool" where
  "gcdx_ok gcdx \<longleftrightarrow> (\<forall>a b. 0 < a \<and> 0 < b \<longrightarrow> gcdx a b = gcd a b)"

definition weights :: "UpstreamPool \<Rightarrow> int set" where
  "weights pool = cWeight ` set pool"

lemma maxgcd_foldl:
  assumes "gcdx_ok gcdx" "\<forall>u \<in> set pool. 0 < cWeight u" "0 < m" "0 < g"
  shows "foldl (\<lambda>(maxWeight, g) u.
      (if cWeight u > maxWeight then cWeight u else maxWeight, gcdx g (cWeight u))) (m, g) pool =
    (Max (insert m (weights pool)), Gcd (insert g (weights pool)))"
  using assms(2-4)
proof (induction pool arbitrary: m g)
  case (Cons u us)
  let ?m = "if cWeight u > m then cWeight u else m"
  have "gcdx g (cWeight u) = gcd g (cWeight u)"
    using assms(1) Cons.prems by (auto simp: gcdx_ok_def)
  moreover have "?m = max m (cWeight u)" by simp
  moreover have "Max (insert (max m (cWeight u)) (weights us)) = Max (insert m (weights (u # us)))"
    by (cases "us = []") (auto simp: weights_def max.assoc)
  moreover have "Gcd (insert (gcd g (cWeight u)) (weights us)) = Gcd (insert g (weights (u # us)))"
    by (simp add: weights_def gcd.assoc)
  ultimately show ?case
    using Cons.prems Cons.IH [of "max m (cWeight u)" "gcd g (cWeight u)"]
    by simp
qed (simp_all add: weights_def)

lemma getMaxWeightAndGCD_ok:
  assumes "gcdx_ok gcdx" "\<forall>u \<in> set pool. 0 < cWeight u" "pool \<noteq> []"
  shows "getMaxWeightAndGCD gcdx pool = Inr (Max (weights pool), Gcd (weights pool))"
  using assms maxgcd_foldl [of gcdx "tl pool"] by (cases pool) (auto simp: weights_def)

abbreviation wpos :: "nat \<Rightarrow> int \<Rightarrow> int \<Rightarrow> nat \<Rightarrow> Weight \<Rightarrow> Weight" where
  "wpos n M g j w \<equiv> (weight_advance n M g ^^ j) w"

definition weight_good :: "UpstreamPool \<Rightarrow> Weight \<Rightarrow> bool" where
  "weight_good pool w \<longleftrightarrow>
     cWeight (pool ! nat (index w)) \<ge> curWeight w \<and> Available (pool ! nat (index w))"

lemma weight_advance_index [simp]: "index (weight_advance n M g w) = (index w + 1) mod int n"
  by (simp add: weight_advance_def Let_def)

lemma weight_advance_curWeight:
  "0 \<le> g \<Longrightarrow> curWeight w \<le> M \<Longrightarrow> curWeight (weight_advance n M g w) \<le> M"
  by (simp add: weight_advance_def Let_def)

lemma wpos_index: "0 < n \<Longrightarrow> index (wpos n M g (Suc j) w) = (index w + 1 + int j) mod int n"
proof (induction j)
  case (Suc j)
  have "index (wpos n M g (Suc (Suc j)) w) = ((index w + 1 + int j) mod int n + 1) mod int n"
    using Suc by simp
  also have "\<dots> = (index w + 1 + int (Suc j)) mod int n"
    by (simp add: mod_add_left_eq add.assoc)
  finally show ?case .
qed simp

lemma wpos_range:
  assumes "0 < n"
  shows "0 \<le> index (wpos n M g (Suc j) w)" "nat (index (wpos n M g (Suc j) w)) < n"
  using assms by (simp_all only: wpos_index) (simp_all add: nat_less_iff)

lemma wpos_curWeight: "0 \<le> g \<Longrightarrow> curWeight w \<le> M \<Longrightarrow> curWeight (wpos n M g j w) \<le> M"
  by (induction j) (simp_all add: weight_advance_curWeight)

lemma weight_loop_scan:
  assumes "0 < length pool"
  shows "weight_loop k M g pool w =
    (case first_in k (\<lambda>t. weight_good pool (wpos (length pool) M g (Suc t) w)) of
       None \<Rightarrow> (Inr None, wpos (length pool) M g k w)
     | Some t \<Rightarrow> (Inr (Some (nat (index (wpos (length pool) M g (Suc t) w)))),
                 wpos (length pool) M g (Suc t) w))"
proof (induction k arbitrary: w)
  case (Suc k)
  let ?w = "weight_advance (length pool) M g w"
  have in_range: "nat (index ?w) < length pool" using wpos_range(2) [OF assms, of 0 M g w] by simp
  have shift: "wpos (length pool) M g j ?w = wpos (length pool) M g (Suc j) w" for j
    by (simp add: funpow_swap1)
  have "weight_loop (Suc k) M g pool w =
      (if weight_good pool ?w then (Inr (Some (nat (index ?w))), ?w) else weight_loop k M g pool ?w)"
    using in_range by (simp add: Let_def weight_good_def del: weight_advance_index)
  also have "weight_loop k M g pool ?w =
    (case first_in k (\<lambda>t. weight_good pool (wpos (length pool) M g (Suc (Suc t)) w)) of
       None \<Rightarrow> (Inr None, wpos (length pool) M g (Suc k) w)
     | Some t \<Rightarrow> (Inr (Some (nat (index (wpos (length pool) M g (Suc (Suc t)) w)))),
                 wpos (length pool) M g (Suc (Suc t)) w))"
    by (simp only: Suc.IH [of ?w] shift)
  finally show ?case
    by (simp del: weight_advance_index weight_loop.simps split: option.splits)
qed simp

text \<open>
  When an upstream of maximal weight is available, one scan of the pool reaches it, so that the
  selector answers; its cursor is then at the first good position.
\<close>

lemma weight_hit:
  assumes "0 < length pool" "-1 \<le> index w" "0 \<le> g" "curWeight w \<le> M"
    and "i < length pool" "cWeight (pool ! i) = M" "Available (pool ! i)"
  obtains t where "t < length pool" "weight_good pool (wpos (length pool) M g (Suc t) w)"
proof -
  obtain t where t: "t < length pool" "(nat (index w + 1) + t) mod length pool = i"
    using circular_cover [OF assms(5)] .
  have "index (wpos (length pool) M g (Suc t) w) = int ((nat (index w + 1) + t) mod length pool)"
    using assms(1,2) by (simp only: wpos_index) (simp add: zmod_int)
  then have "nat (index (wpos (length pool) M g (Suc t) w)) = i" using t(2) by simp
  moreover have "curWeight (wpos (length pool) M g (Suc t) w) \<le> M"
    using assms by (intro wpos_curWeight) auto
  ultimately show thesis using that [OF t(1)] assms(6,7) by (simp add: weight_good_def)
qed

lemma weights_bounds:
  assumes "pool \<noteq> []" "\<forall>u \<in> set pool. 0 < cWeight u"
  shows "0 < Gcd (weights pool)" "0 < Max (weights pool)"
    "i < length pool \<Longrightarrow> Gcd (weights pool) dvd cWeight (pool ! i) \<and> cWeight (pool ! i) \<le> Max (weights pool)"
    "\<exists>i < length pool. cWeight (pool ! i) = Max (weights pool)"
proof -
  have fin: "finite (weights pool)" "weights pool \<noteq> {}" using assms by (simp_all add: weights_def)
  have "Max (weights pool) \<in> weights pool" using fin by (rule Max_in)
  then show max: "\<exists>i < length pool. cWeight (pool ! i) = Max (weights pool)"
    by (auto simp: weights_def in_set_conv_nth)
  from max assms show "0 < Max (weights pool)" by (metis nth_mem)
  from fin assms(2) have "\<not> weights pool \<subseteq> {0}" by (fastforce simp: weights_def)
  then show "0 < Gcd (weights pool)"
    by (metis Gcd_0_iff Gcd_int_greater_eq_0 less_le)
  show "i < length pool \<Longrightarrow> Gcd (weights pool) dvd cWeight (pool ! i) \<and> cWeight (pool ! i) \<le> Max (weights pool)"
    using fin by (auto simp: weights_def)
qed

lemma weights_gcd_le_max:
  assumes "pool \<noteq> []" "\<forall>u \<in> set pool. 0 < cWeight u"
  shows "Gcd (weights pool) \<le> Max (weights pool)"
  using weights_bounds [OF assms] by (metis zdvd_imp_le)

lemma Weight_Select_scan:
  assumes "gcdx_ok gcdx" "\<forall>u \<in> set pool. 0 < cWeight u" "2 \<le> length pool"
  shows "Weight_Select gcdx w pool a =
    (case first_in (length pool) (\<lambda>t. weight_good pool
        (wpos (length pool) (Max (weights pool)) (Gcd (weights pool)) (Suc t) w)) of
       None \<Rightarrow> (Inr None, wpos (length pool) (Max (weights pool)) (Gcd (weights pool)) (length pool) w)
     | Some t \<Rightarrow> (Inr (Some (nat (index (wpos (length pool) (Max (weights pool)) (Gcd (weights pool)) (Suc t) w)))),
                 wpos (length pool) (Max (weights pool)) (Gcd (weights pool)) (Suc t) w))"
proof -
  have "0 < length pool" using assms(3) by linarith
  moreover have "length pool \<noteq> 0" "length pool \<noteq> 1" "pool \<noteq> []" using assms(3) by auto
  ultimately show ?thesis
    using getMaxWeightAndGCD_ok [OF assms(1,2)] by (simp add: Weight_Select_def weight_loop_scan)
qed

text \<open>A sequence of selections.\<close>

fun weight_run :: "(int \<Rightarrow> int \<Rightarrow> int) \<Rightarrow> nat \<Rightarrow> UpstreamPool \<Rightarrow> Weight \<Rightarrow> choice list \<times> Weight" where
  "weight_run gcdx 0 pool w = ([], w)"
| "weight_run gcdx (Suc k) pool w =
     (case Weight_Select gcdx w pool '''' of
        (c, w1) \<Rightarrow> case weight_run gcdx k pool w1 of (cs, w2) \<Rightarrow> (c # cs, w2))"

lemma weight_run_add:
  "weight_run gcdx (k + l) pool w =
     (fst (weight_run gcdx k pool w) @ fst (weight_run gcdx l pool (snd (weight_run gcdx k pool w))),
      snd (weight_run gcdx l pool (snd (weight_run gcdx k pool w))))"
  by (induction k arbitrary: w) (auto split: prod.splits)

lemma upt_Suc_split: "0 < j \<Longrightarrow> j \<le> L \<Longrightarrow> [1..<Suc L] = [1..<j] @ j # map ((+) j) [1..<Suc (L - j)]"
proof -
  assume j: "0 < j" "j \<le> L"
  have "[1..<Suc L] = [1..<j] @ [j..<Suc L]"
    using j upt_add_eq_append [of 1 j "Suc L - j"] by simp
  also have "[j..<Suc L] = j # [Suc j..<Suc L]" using j by (simp add: upt_conv_Cons)
  also have "[Suc j..<Suc L] = map ((+) j) [1..<Suc (L - j)]"
    using j map_add_upt [of j "L - j"] by (intro nth_equalityI) (simp_all del: upt_Suc)
  finally show ?thesis .
qed

lemma weight_select_next:
  fixes pool gcdx
  defines "pos \<equiv> wpos (length pool) (Max (weights pool)) (Gcd (weights pool))"
  assumes gcdx: "gcdx_ok gcdx" and pos: "\<forall>u \<in> set pool. 0 < cWeight u" and two: "2 \<le> length pool"
    and avail: "\<forall>u \<in> set pool. cWeight u = Max (weights pool) \<longrightarrow> Available u"
    and w: "-1 \<le> index w" "curWeight w \<le> Max (weights pool)"
  obtains t where "Weight_Select gcdx w pool a = (Inr (Some (nat (index (pos (Suc t) w)))), pos (Suc t) w)"
    "weight_good pool (pos (Suc t) w)" "\<forall>s<t. \<not> weight_good pool (pos (Suc s) w)"
    "-1 \<le> index (pos (Suc t) w)" "curWeight (pos (Suc t) w) \<le> Max (weights pool)"
proof -
  have ne: "pool \<noteq> []" "0 < length pool" using two by auto
  note wb = weights_bounds [OF ne(1) pos]
  obtain i where i: "i < length pool" "cWeight (pool ! i) = Max (weights pool)" using wb(4) by blast
  then have "Available (pool ! i)" using avail by simp
  then obtain t0 where t0: "t0 < length pool" "weight_good pool (pos (Suc t0) w)"
    using weight_hit [OF ne(2) w(1), of "Gcd (weights pool)" "Max (weights pool)" i]
      i w(2) wb(1) unfolding pos_def by (metis less_imp_le)
  then obtain t where t: "first_in (length pool) (\<lambda>t. weight_good pool (pos (Suc t) w)) = Some t"
    by (metis first_in_None option.exhaust)
  have "0 \<le> index (pos (Suc t) w)" unfolding pos_def by (rule wpos_range(1) [OF ne(2)])
  then have "-1 \<le> index (pos (Suc t) w)" by linarith
  moreover have "curWeight (pos (Suc t) w) \<le> Max (weights pool)"
    unfolding pos_def using wb(1) w(2) by (intro wpos_curWeight) simp_all
  moreover have "Weight_Select gcdx w pool a = (Inr (Some (nat (index (pos (Suc t) w)))), pos (Suc t) w)"
    using t unfolding Weight_Select_scan [OF gcdx pos two] by (simp only: pos_def option.case)
  ultimately show thesis using that first_in_Some [OF t] by blast
qed

text \<open>
  As many selections as there are good positions among the next \<open>L\<close>, the last being good, visit
  exactly these positions.
\<close>

lemma weight_run_positions:
  fixes pool gcdx
  defines "pos \<equiv> wpos (length pool) (Max (weights pool)) (Gcd (weights pool))"
  assumes sel: "gcdx_ok gcdx" "\<forall>u \<in> set pool. 0 < cWeight u" "2 \<le> length pool"
    "\<forall>u \<in> set pool. cWeight u = Max (weights pool) \<longrightarrow> Available u"
  shows "-1 \<le> index w \<Longrightarrow> curWeight w \<le> Max (weights pool) \<Longrightarrow>
    L = 0 \<or> weight_good pool (pos L w) \<Longrightarrow>
    weight_run gcdx (length (filter (\<lambda>j. weight_good pool (pos j w)) [1..<Suc L])) pool w =
      (map (\<lambda>j. Inr (Some (nat (index (pos j w))))) (filter (\<lambda>j. weight_good pool (pos j w)) [1..<Suc L]),
       pos L w)"
proof (induction L arbitrary: w rule: less_induct)
  case (less L)
  show ?case
  proof (cases "L = 0")
    case False
    obtain t where step: "Weight_Select gcdx w pool '''' = (Inr (Some (nat (index (pos (Suc t) w)))), pos (Suc t) w)"
      and good: "weight_good pool (pos (Suc t) w)" and first: "\<forall>s<t. \<not> weight_good pool (pos (Suc s) w)"
      and w1: "-1 \<le> index (pos (Suc t) w)" "curWeight (pos (Suc t) w) \<le> Max (weights pool)"
      using weight_select_next [OF sel less.prems(1,2)] unfolding pos_def by blast
    have tL: "Suc t \<le> L"
    proof (rule ccontr)
      assume "\<not> Suc t \<le> L"
      with False obtain s where "L = Suc s" "s < t" by (cases L) auto
      with first less.prems(3) show False by simp
    qed
    have shift: "pos j (pos (Suc t) w) = pos (Suc t + j) w" for j
      unfolding pos_def by (metis add.commute comp_apply funpow_add)
    have bad: "filter (\<lambda>j. weight_good pool (pos j w)) [1..<Suc t] = []"
    proof -
      have "\<not> weight_good pool (pos j w)" if "j \<in> set [1..<Suc t]" for j
        by (cases j) (use that first in auto)
      then show ?thesis by (simp add: filter_empty_conv del: upt_Suc)
    qed
    have split: "filter (\<lambda>j. weight_good pool (pos j w)) [1..<Suc L] =
        Suc t # map ((+) (Suc t)) (filter (\<lambda>j. weight_good pool (pos (Suc t + j) w)) [1..<Suc (L - Suc t)])"
      using good bad
      by (simp only: upt_Suc_split [OF zero_less_Suc tL] filter_append filter.simps filter_map comp_def) simp
    have "L - Suc t = 0 \<or> weight_good pool (pos (L - Suc t) (pos (Suc t) w))"
      using less.prems(3) False tL by (simp only: shift) simp
    from less.IH [OF _ w1 this] False tL show ?thesis
      by (simp only: split length_Cons length_map weight_run.simps step prod.case list.map map_map comp_def shift)
        simp
  qed (simp add: pos_def)
qed

text \<open>
  The positions of one cycle, from a fresh selector or from the end of the previous cycle: the
  current weight goes down from the maximum by the common divisor, once round the pool each.
\<close>

definition cycle_start :: "UpstreamPool \<Rightarrow> Weight \<Rightarrow> bool" where
  "cycle_start pool w \<longleftrightarrow>
     (index w = -1 \<or> index w = int (length pool) - 1) \<and> curWeight w \<le> Gcd (weights pool)"

lemma wpos_cycle:
  assumes "0 < n" "0 < g" "M = g * int a" "0 < a"
    and "index w = -1 \<or> index w = int n - 1" "curWeight w \<le> g"
  shows "j < a * n \<Longrightarrow>
    wpos n M g (Suc j) w = \<lparr>index = int (j mod n), curWeight = M - g * int (j div n)\<rparr>"
proof (induction j)
  case 0
  then show ?case using assms by (auto simp: weight_advance_def Let_def)
next
  case (Suc j)
  have IH: "wpos n M g (Suc j) w = \<lparr>index = int (j mod n), curWeight = M - g * int (j div n)\<rparr>"
    using Suc by simp
  have lt: "Suc j div n < a" using Suc.prems assms(1) by (simp add: less_mult_imp_div_less)
  have ix: "(int (j mod n) + 1) mod int n = int (Suc j mod n)"
    by (metis add.commute mod_Suc_eq of_nat_Suc of_nat_mod)
  then have ix': "(1 + int (j mod n)) mod int n = int (Suc j mod n)" by (simp only: add.commute)
  show ?case
  proof (cases "Suc j mod n = 0")
    case True
    then have div: "Suc j div n = Suc (j div n)" using assms(1) by (simp add: div_Suc)
    have "0 < g * (int a - int (Suc j div n))" using lt assms(2) by simp
    then have "M - g * int (j div n) - g > 0" by (simp add: div assms(3) algebra_simps)
    then show ?thesis
      using True by (subst funpow.simps) (simp add: comp_def IH weight_advance_def Let_def ix ix' div algebra_simps del: funpow.simps)
  next
    case False
    then have div: "Suc j div n = j div n" by (simp add: div_Suc)
    show ?thesis
      using False by (subst funpow.simps) (simp add: comp_def IH weight_advance_def Let_def ix div del: funpow.simps)
  qed
qed

lemma card_rounds:
  fixes a b :: nat
  assumes "b \<le> a" "i < n"
  shows "card {j. j < a * n \<and> j mod n = i \<and> a - j div n \<le> b} = b"
proof -
  have "{j. j < a * n \<and> j mod n = i \<and> a - j div n \<le> b} = (\<lambda>k. k * n + i) ` {a - b..<a}" (is "?L = ?R")
  proof (intro equalityI subsetI)
    fix j assume j: "j \<in> ?L"
    then have "j = (j div n) * n + i" by (metis (mono_tags) div_mult_mod_eq mem_Collect_eq)
    moreover have "j div n < a" using j by (simp add: less_mult_imp_div_less)
    ultimately show "j \<in> ?R" using j by auto
  next
    fix j assume "j \<in> ?R"
    then obtain k where k: "a - b \<le> k" "k < a" "j = k * n + i" by auto
    have "k * n + i < Suc k * n" using assms(2) by simp
    also have "\<dots> \<le> a * n" using k(2) by (intro mult_le_mono1) simp
    finally show "j \<in> ?L" using k assms by auto
  qed
  moreover have "inj_on (\<lambda>k. k * n + i) {a - b..<a}" using assms(2) by (auto simp: inj_on_def)
  ultimately show ?thesis using assms(1) by (simp add: card_image)
qed

text \<open>One cycle of selections, when every upstream is available.\<close>

definition cycle_length :: "UpstreamPool \<Rightarrow> nat" where
  "cycle_length pool = (\<Sum>u \<leftarrow> pool. nat (cWeight u div Gcd (weights pool)))"

definition share :: "UpstreamPool \<Rightarrow> nat \<Rightarrow> nat" where
  "share pool i = nat (cWeight (pool ! i) div Gcd (weights pool))"

lemma cycle_length_share: "cycle_length pool = (\<Sum>i<length pool. share pool i)"
  by (simp add: cycle_length_def share_def sum_list_sum_nth atLeast0LessThan)

lemma share_weight:
  assumes "pool \<noteq> []" "\<forall>u \<in> set pool. 0 < cWeight u" "i < length pool"
  shows "cWeight (pool ! i) = Gcd (weights pool) * int (share pool i)" "0 < share pool i"
proof -
  note wb = weights_bounds [OF assms(1,2)]
  have "0 < cWeight (pool ! i)" using assms(2,3) by simp
  with wb(1) wb(3) [OF assms(3)]
  have q: "0 < cWeight (pool ! i) div Gcd (weights pool)"
    by (simp add: pos_imp_zdiv_pos_iff zdvd_imp_le)
  then show "0 < share pool i" by (simp add: share_def)
  from q have "int (share pool i) = cWeight (pool ! i) div Gcd (weights pool)" by (simp add: share_def)
  then show "cWeight (pool ! i) = Gcd (weights pool) * int (share pool i)"
    using wb(3) [OF assms(3)] by simp
qed

lemma cycle_positions:
  assumes "pool \<noteq> []" "\<forall>u \<in> set pool. 0 < cWeight u" "\<forall>u \<in> set pool. Available u" "cycle_start pool w"
  obtains a where "0 < a" "\<And>i. i < length pool \<Longrightarrow> share pool i \<le> a"
    "\<And>j. j < a * length pool \<Longrightarrow>
       wpos (length pool) (Max (weights pool)) (Gcd (weights pool)) (Suc j) w =
         \<lparr>index = int (j mod length pool), curWeight = Gcd (weights pool) * (int a - int (j div length pool))\<rparr>"
    "\<And>j. j < a * length pool \<Longrightarrow>
       weight_good pool (wpos (length pool) (Max (weights pool)) (Gcd (weights pool)) (Suc j) w) \<longleftrightarrow>
         a - j div length pool \<le> share pool (j mod length pool)"
proof -
  define n M g where "n = length pool" and "M = Max (weights pool)" and "g = Gcd (weights pool)"
  have n: "0 < n" using assms(1) by (simp add: n_def)
  note wb = weights_bounds [OF assms(1,2), folded g_def M_def n_def]
  note sw = share_weight [OF assms(1,2), folded g_def n_def]
  obtain m where m: "m < n" "cWeight (pool ! m) = M" using wb(4) by blast
  define a where "a = share pool m"
  have a: "M = g * int a" "0 < a" using sw [OF m(1)] m(2) by (simp_all add: a_def)
  have le: "share pool i \<le> a" if "i < n" for i
  proof -
    have "g * int (share pool i) \<le> g * int a" using wb(3) [OF that] sw(1) [OF that] a(1) by simp
    then show ?thesis using wb(1) by simp
  qed
  have pos: "wpos n M g (Suc j) w = \<lparr>index = int (j mod n), curWeight = g * (int a - int (j div n))\<rparr>"
    if "j < a * n" for j
    using wpos_cycle [OF n wb(1) a _ _ that, of w] assms(4)
    by (simp add: cycle_start_def n_def g_def a(1) right_diff_distrib)
  have good: "weight_good pool (wpos n M g (Suc j) w) \<longleftrightarrow> a - j div n \<le> share pool (j mod n)"
    if "j < a * n" for j
  proof -
    have jn: "j mod n < n" "j div n < a" using n that by (simp_all add: less_mult_imp_div_less)
    then have "Available (pool ! (j mod n))" using assms(3) by (simp add: n_def)
    then have "weight_good pool (wpos n M g (Suc j) w) \<longleftrightarrow> g * (int a - int (j div n)) \<le> g * int (share pool (j mod n))"
      using pos [OF that] sw(1) [OF jn(1)] by (simp add: weight_good_def del: funpow.simps)
    also have "\<dots> \<longleftrightarrow> a - j div n \<le> share pool (j mod n)"
      using wb(1) jn(2) by auto
    finally show ?thesis .
  qed
  show thesis using that [of a] a(2) le pos good unfolding n_def M_def g_def by blast
qed

lemma length_filter_upt: "length (filter Q [1..<Suc m]) = card {j. j < m \<and> Q (Suc j)}"
proof -
  have "{j. Q j} \<inter> set [1..<Suc m] = Suc ` {j. j < m \<and> Q (Suc j)}"
    by (auto simp: image_iff Suc_le_eq less_Suc_eq_0_disj simp del: upt_Suc)
  then show ?thesis by (simp only: distinct_length_filter [OF distinct_upt] card_image [OF inj_Suc [THEN inj_on_subset [OF _ subset_UNIV]]])
qed

lemma weight_cycle:
  assumes sel: "gcdx_ok gcdx" "\<forall>u \<in> set pool. 0 < cWeight u" "2 \<le> length pool"
    and avail: "\<forall>u \<in> set pool. Available u" and start: "cycle_start pool w"
  obtains xs where
    "fst (weight_run gcdx (cycle_length pool) pool w) = map (\<lambda>i. Inr (Some i)) xs"
    "\<And>i. i < length pool \<Longrightarrow> count_list xs i = share pool i"
    "cycle_start pool (snd (weight_run gcdx (cycle_length pool) pool w))"
proof -
  define n pos where "n = length pool" and "pos = wpos n (Max (weights pool)) (Gcd (weights pool))"
  have n: "0 < n" "pool \<noteq> []" using sel(3) by (auto simp: n_def)
  obtain a where a: "0 < a" "\<And>i. i < n \<Longrightarrow> share pool i \<le> a"
    and pos: "\<And>j. j < a * n \<Longrightarrow> pos (Suc j) w =
      \<lparr>index = int (j mod n), curWeight = Gcd (weights pool) * (int a - int (j div n))\<rparr>"
    and good: "\<And>j. j < a * n \<Longrightarrow> weight_good pool (pos (Suc j) w) \<longleftrightarrow> a - j div n \<le> share pool (j mod n)"
    using cycle_positions [OF n(2) sel(2) avail start] unfolding n_def pos_def by metis
  let ?js = "filter (\<lambda>j. weight_good pool (pos j w)) [1..<Suc (a * n)]"
  define xs where "xs = map (\<lambda>j. nat (index (pos j w))) ?js"
  have cnt: "count_list xs i = share pool i" if i: "i < n" for i
  proof -
    have "count_list xs i = length (filter (\<lambda>j. weight_good pool (pos j w) \<and> i = nat (index (pos j w))) [1..<Suc (a * n)])"
      by (simp add: xs_def count_list_eq_length_filter filter_map comp_def del: upt_Suc)
    also have "\<dots> = card {j. j < a * n \<and> weight_good pool (pos (Suc j) w) \<and> i = nat (index (pos (Suc j) w))}"
      by (rule length_filter_upt)
    also have "\<dots> = card {j. j < a * n \<and> j mod n = i \<and> a - j div n \<le> share pool i}"
      by (rule arg_cong [of _ _ card], rule Collect_cong) (use good pos in auto)
    also have "\<dots> = share pool i" using card_rounds [OF a(2) [OF i] i] .
    finally show ?thesis .
  qed
  have in_range: "set xs \<subseteq> {..<n}"
  proof
    fix i assume "i \<in> set xs"
    then obtain j where "i = nat (index (pos j w))" "1 \<le> j" "j \<le> a * n" by (auto simp: xs_def simp del: upt_Suc)
    then show "i \<in> {..<n}" using n(1) by (cases j) (simp_all add: pos)
  qed
  have "sum (count_list xs) {..<n} = length xs" by (rule sum_count_set [OF in_range]) simp
  then have len: "length ?js = cycle_length pool"
    using cnt by (simp add: cycle_length_share n_def [symmetric] xs_def del: upt_Suc)
  have "0 < a * n" using a(1) n(1) by simp
  then obtain l where l: "a * n = Suc l" using gr0_implies_Suc by blast
  then have l': "l = (a - 1) * n + (n - 1)" using a(1) n(1) by (cases a; cases n) auto
  have l_pos: "l mod n = n - 1" "l div n = a - 1"
  proof -
    have "((a - 1) * n + r) mod n = r" "((a - 1) * n + r) div n = a - 1" if "r < n" for r
      using that by simp_all
    from this [of "n - 1"] n(1) show "l mod n = n - 1" "l div n = a - 1" by (simp_all only: l')
  qed
  have "weight_good pool (pos (a * n) w)"
    using good [of l] l l_pos a(1) n(1) share_weight(2) [OF n(2) sel(2), of "n - 1"] by (simp add: n_def)
  moreover have "-1 \<le> index w" "curWeight w \<le> Max (weights pool)"
    using start weights_gcd_le_max [OF n(2) sel(2)] by (auto simp: cycle_start_def)
  moreover have "\<forall>u \<in> set pool. cWeight u = Max (weights pool) \<longrightarrow> Available u" using avail by simp
  ultimately have run: "weight_run gcdx (length ?js) pool w =
      (map (\<lambda>j. Inr (Some (nat (index (pos j w))))) ?js, pos (a * n) w)"
    using weight_run_positions [OF sel, of w "a * n"] unfolding pos_def n_def by blast
  show thesis
  proof (rule that [of xs])
    show "fst (weight_run gcdx (cycle_length pool) pool w) = map (\<lambda>i. Inr (Some i)) xs"
      using run unfolding len xs_def map_map comp_def by (simp only: fst_conv)
    show "cycle_start pool (snd (weight_run gcdx (cycle_length pool) pool w))"
      using run pos [of l] l l_pos a(1) n(1) unfolding len
      by (simp add: cycle_start_def n_def [symmetric] of_nat_diff)
  qed (use cnt in \<open>simp add: n_def\<close>)
qed

subsection \<open>The contracts of a selector\<close>

text \<open>
  What the balancer relies on. Every selector answers with a pointer into the pool and does not
  panic on a non-empty pool of at most \<open>2 ^ 31\<close> upstreams (\<open>selector\<close>). All of them but \<open>Weight\<close>
  only ever choose an available upstream (\<open>available_selector\<close>). \<open>Random\<close>, \<open>LeastConn\<close>,
  \<open>LeastTime\<close> and the hashes also find one whenever there is one (\<open>complete_selector\<close>).
\<close>

definition small_pool :: "UpstreamPool \<Rightarrow> bool" where
  "small_pool pool \<longleftrightarrow> pool \<noteq> [] \<and> length pool \<le> 2 ^ 31"

lemma small_pool_bounds:
  assumes "small_pool pool"
  shows "0 < length pool" "length pool < 2 ^ 32" "(of_nat (length pool) :: 32 word) \<noteq> 0"
proof -
  show "0 < length pool" "length pool < 2 ^ 32" using assms by (auto simp: small_pool_def)
  then show "(of_nat (length pool) :: 32 word) \<noteq> 0" by (rule len32_nonzero)
qed

definition chosen_addr :: "UpstreamPool \<Rightarrow> nat option \<Rightarrow> string" where
  "chosen_addr pool c = (case c of None \<Rightarrow> '''' | Some i \<Rightarrow> cAddr (pool ! i))"

locale selector =
  fixes sel :: "draws \<Rightarrow> 's \<Rightarrow> UpstreamPool \<Rightarrow> string \<Rightarrow> choice \<times> 's"
  assumes answers: "small_pool pool \<Longrightarrow> \<exists>c. fst (sel rnd s pool a) = Inr c"
    and in_range: "fst (sel rnd s pool a) = Inr (Some i) \<Longrightarrow> i < length pool"
begin

lemma chosen_known:
  assumes "fst (sel rnd s pool a) = Inr c"
  shows "chosen_addr pool c = '''' \<or> chosen_addr pool c \<in> cAddr ` set pool"
  using assms in_range by (cases c) (auto simp: chosen_addr_def)

end

locale available_selector = selector +
  assumes available: "fst (sel rnd s pool a) = Inr (Some i) \<Longrightarrow> Available (pool ! i)"
begin

lemma chosen_available:
  assumes "fst (sel rnd s pool a) = Inr c" "chosen_addr pool c \<noteq> ''''"
  shows "\<exists>u \<in> set pool. cAddr u = chosen_addr pool c \<and> Available u"
  using assms in_range available
  by (auto simp: chosen_addr_def split: option.splits intro!: bexI [of _ "pool ! _"])

lemma none_when_exhausted:
  assumes "small_pool pool" "\<forall>u \<in> set pool. \<not> Available u"
  shows "fst (sel rnd s pool a) = Inr None"
  using answers [OF assms(1)] available in_range assms(2) by (metis nth_mem option.exhaust)

end

locale complete_selector = available_selector +
  assumes complete: "small_pool pool \<Longrightarrow> fst (sel rnd s pool a) = Inr None \<Longrightarrow> u \<in> set pool \<Longrightarrow> \<not> Available u"
begin

lemma finds_available:
  assumes "small_pool pool" "u \<in> set pool" "Available u"
  shows "\<exists>i. fst (sel rnd s pool a) = Inr (Some i) \<and> i < length pool \<and> Available (pool ! i)"
  using answers [OF assms(1)] complete assms in_range available by (metis not_None_eq)

end

lemma scan_complete:
  assumes "0 < length pool" "first_in (length pool) (\<lambda>t. Available (pool ! ((b + t) mod length pool))) = None"
    "u \<in> set pool"
  shows "\<not> Available u"
proof -
  obtain i where i: "i < length pool" "u = pool ! i" using assms(3) by (metis in_set_conv_nth)
  obtain t where "t < length pool" "(b + t) mod length pool = i" using circular_cover [OF i(1)] .
  then show ?thesis using assms(2) i(2) by (auto simp: first_in_None)
qed

lemma hashing_scan:
  assumes "small_pool pool"
  shows "hashing pool s = Inr (map_option (\<lambda>t. (unat (hash s) mod length pool + t) mod length pool)
    (first_in (length pool) (\<lambda>t. Available (pool ! ((unat (hash s) mod length pool + t) mod length pool)))))"
proof -
  note b = small_pool_bounds [OF assms]
  have "unat (hash s mod of_nat (length pool)) = unat (hash s) mod length pool" using b(2) by (rule cursor_mod)
  moreover have "unat (hash s) mod length pool + length pool \<le> 2 ^ 32"
  proof -
    have "length pool \<le> 2147483648" using assms by (simp add: small_pool_def)
    with mod_less_divisor [OF b(1), of "unat (hash s)"]
    have "unat (hash s) mod length pool + length pool \<le> 4294967296" by linarith
    then show ?thesis by simp
  qed
  ultimately show ?thesis
    using hashing_loop_scan [OF b(1,2), of "hash s mod of_nat (length pool)" "length pool"] b
    by (simp add: hashing_def len32_unat)
qed

lemma hashing_safe: "hashing pool s = Inr (Some i) \<Longrightarrow> i < length pool \<and> Available (pool ! i)"
  using hashing_loop_safe [of pool] by (auto simp: hashing_def Let_def split: if_splits) (metis sum.inject(2))+

lemma hashing_complete: "small_pool pool \<Longrightarrow> hashing pool s = Inr None \<Longrightarrow> u \<in> set pool \<Longrightarrow> \<not> Available u"
  using scan_complete [of pool] small_pool_bounds(1) [of pool] by (auto simp: hashing_scan)

lemma hashing_answers: "small_pool pool \<Longrightarrow> \<exists>c. hashing pool s = Inr c"
  by (simp add: hashing_scan)

interpretation random: complete_selector "\<lambda>rnd (s :: unit) pool a. (Inr (Random_Select rnd pool a), s)"
  by unfold_locales (auto dest: Random_Select_Some simp: Random_Select_None)

interpretation addrhash: complete_selector "\<lambda>rnd (s :: unit) pool a. (AddrHash_Select rnd pool a, s)"
  by unfold_locales
    (auto simp: AddrHash_Select_def hashing_answers Random_Select_None
      dest: Random_Select_Some hashing_safe hashing_complete split: if_splits)

interpretation iphash: complete_selector "\<lambda>rnd (s :: unit) pool a. (IPHash_Select rnd pool a, s)"
  by unfold_locales
    (auto simp: IPHash_Select_def hashing_answers Random_Select_None
      dest: Random_Select_Some hashing_safe hashing_complete split: if_splits)

interpretation leastconn: complete_selector "\<lambda>rnd (s :: unit) pool a. (Inr (LeastConn_Select rnd pool a), s)"
  by unfold_locales (auto simp: LeastConn_Select_def dest: least_loop_Some least_loop_None)

interpretation leasttime: complete_selector "\<lambda>rnd (s :: unit) pool a. (Inr (LeastTime_Select rnd pool a), s)"
  by unfold_locales (auto simp: LeastTime_Select_def dest: least_loop_Some least_loop_None)

interpretation roundrobin: available_selector "\<lambda>rnd s pool a. RoundRobin_Select s pool a"
proof
  fix rnd :: draws and s :: "32 word" and pool :: UpstreamPool and a :: string and i :: nat
  show "\<exists>c. fst (RoundRobin_Select s pool a) = Inr c" if "small_pool pool"
    using rr_loop_safe [OF small_pool_bounds(3) [OF that]] unfolding RoundRobin_Select_def by blast
  assume i: "fst (RoundRobin_Select s pool a) = Inr (Some i)"
  then have "(of_nat (length pool) :: 32 word) \<noteq> 0" by (auto simp: RoundRobin_Select_def)
  from rr_loop_safe [OF this, of "unat (of_nat (length pool) :: 32 word)" s] i
  show "i < length pool" "Available (pool ! i)" by (auto simp: RoundRobin_Select_def)
qed

lemma Weight_Select_safe:
  "\<exists>c. fst (Weight_Select gcdx w pool a) = Inr c \<and>
     (\<forall>i. c = Some i \<longrightarrow> i < length pool \<and> (2 \<le> length pool \<longrightarrow> Available (pool ! i)))"
proof (cases "length pool \<le> 1")
  case True
  then show ?thesis by (auto simp: Weight_Select_def le_Suc_eq)
next
  case False
  then obtain q where "getMaxWeightAndGCD gcdx pool = Inr q" by (cases pool) auto
  then obtain M g where "getMaxWeightAndGCD gcdx pool = Inr (M, g)" by (cases q) auto
  moreover have "0 < length pool" "length pool \<noteq> 1" "pool \<noteq> []" using False by auto
  ultimately show ?thesis
    using wpos_range(2) [of "length pool"]
    by (auto simp: Weight_Select_def weight_loop_scan weight_good_def
        simp del: funpow.simps split: option.splits dest: first_in_Some)
qed

interpretation weight: selector "\<lambda>rnd s pool a. Weight_Select gcdx s pool a" for gcdx
proof
  fix rnd :: draws and s :: Weight and pool :: UpstreamPool and a :: string and i :: nat
  show "\<exists>c. fst (Weight_Select gcdx s pool a) = Inr c" using Weight_Select_safe by blast
  show "i < length pool" if "fst (Weight_Select gcdx s pool a) = Inr (Some i)"
    using Weight_Select_safe [of gcdx s pool a] that by auto
qed

text \<open>The interface \<open>Selector\<close> itself.\<close>

lemma Select_answers: "small_pool pool \<Longrightarrow> \<exists>c. fst (Select gcdx rnd s pool a) = Inr c"
  using iphash.answers [of pool] addrhash.answers [of pool] roundrobin.answers [of pool] weight.answers [of pool]
  by (cases s) (auto simp: Select_def)

lemma Select_in_range: "fst (Select gcdx rnd s pool a) = Inr (Some i) \<Longrightarrow> i < length pool"
  using random.in_range iphash.in_range addrhash.in_range roundrobin.in_range weight.in_range
    leastconn.in_range leasttime.in_range
  by (cases s) (auto simp: Select_def)

lemma Select_available:
  assumes "fst (Select gcdx rnd s pool a) = Inr (Some i)" "length pool = 1 \<Longrightarrow> \<nexists>w. s = SWeight w"
  shows "Available (pool ! i)"
proof (cases s)
  case (SWeight w)
  have "i < length pool" using Select_in_range [OF assms(1)] .
  with assms SWeight Weight_Select_safe [of gcdx w pool a] show ?thesis
    by (cases pool) (auto simp: Select_def Suc_le_eq)
qed (use assms(1) random.available iphash.available addrhash.available roundrobin.available
    leastconn.available leasttime.available in \<open>auto simp: Select_def\<close>)

interpretation dispatch: selector "Select gcdx" for gcdx
  by unfold_locales (auto dest: Select_answers Select_in_range)

subsection \<open>Properties\<close>

text \<open>C10. Weighted round robin is proportional: when every upstream is available, \<open>k\<close> full cycles of
  selections from a fresh selector choose each upstream exactly \<open>k\<close> times its weight divided by
  the greatest common divisor of the weights.\<close>

theorem weight_proportional:
  assumes "gcdx_ok gcdx" "2 \<le> length pool" "list_all (\<lambda>u. 1 \<le> cWeight u \<and> Available u) pool"
    and "i < length pool"
  shows "count_list (fst (weight_run gcdx (k * cycle_length pool) pool NewWeight)) (Inr (Some i)) =
    k * nat (cWeight (pool ! i) div Gcd (weights pool))"
proof -
  have pos: "\<forall>u \<in> set pool. 0 < cWeight u" and avail: "\<forall>u \<in> set pool. Available u"
    using assms(3) by (auto simp: list_all_iff)
  have "pool \<noteq> []" using assms(2) by auto
  then have "0 < Gcd (weights pool)" using weights_bounds(1) pos by blast
  then have "cycle_start pool NewWeight" by (simp add: cycle_start_def NewWeight_def)
  moreover have "cycle_start pool w \<Longrightarrow>
      count_list (fst (weight_run gcdx (k * cycle_length pool) pool w)) (Inr (Some i)) = k * share pool i" for w
  proof (induction k arbitrary: w)
    case (Suc k)
    obtain xs where xs: "fst (weight_run gcdx (cycle_length pool) pool w) = map (\<lambda>i. Inr (Some i)) xs"
      "count_list xs i = share pool i"
      and next_cycle: "cycle_start pool (snd (weight_run gcdx (cycle_length pool) pool w))"
      using weight_cycle [OF assms(1) pos assms(2) avail Suc.prems] assms(4) by metis
    have "count_list (map (\<lambda>i. Inr (Some i) :: choice) xs) (Inr (Some i)) = count_list xs i"
      by (induction xs) auto
    with Suc.IH [OF next_cycle] xs show ?case by (simp add: weight_run_add)
  qed simp
  ultimately show ?thesis by (simp add: share_def)
qed

definition example_upstream :: "string \<Rightarrow> int \<Rightarrow> 32 word \<Rightarrow> Upstream" where
  "example_upstream addr weight up = Config.extend (example_config\<lparr>cAddr := addr, cWeight := weight\<rparr>)
     \<lparr>health = up, successCount = 0, failureCount = 0, connections = 0, leastTime = 0\<rparr>"

lemma example_upstream_simps [simp]:
  "cAddr (example_upstream addr weight up) = addr" "cWeight (example_upstream addr weight up) = weight"
  "Available (example_upstream addr weight up) \<longleftrightarrow> up = 1"
  "ConnsCount (example_upstream addr weight up) = 0" "LeastTime (example_upstream addr weight up) = 0"
  by (simp_all add: example_upstream_def example_config_def Config.extend_def Available_def Healthy_def
      Full_def ConnsCount_def LeastTime_def)

theorem weight_proportional_witness:
  "count_list (fst (weight_run gcd (2 * cycle_length
       [example_upstream ''a:1'' 4 1, example_upstream ''b:1'' 2 1])
     [example_upstream ''a:1'' 4 1, example_upstream ''b:1'' 2 1] NewWeight)) (Inr (Some 0)) = 4"
proof -
  have "Gcd (weights [example_upstream ''a:1'' 4 1, example_upstream ''b:1'' 2 1]) = 2"
    by (simp add: weights_def)
  then show ?thesis
    using weight_proportional [of gcd "[example_upstream ''a:1'' 4 1, example_upstream ''b:1'' 2 1]" 0 2]
    by (simp add: gcdx_ok_def)
qed

text \<open>Round robin: while its cursor does not wrap, the selector takes the first available upstream
  after the last one it took, in circular order, and moves its cursor exactly there; it answers
  \<open>nil\<close> only when no upstream is available.\<close>

theorem round_robin_next:
  assumes "pool \<noteq> []" "unat robin + length pool < 2 ^ 32"
  shows "if \<exists>u \<in> set pool. Available u
    then \<exists>d. 1 \<le> d \<and> d \<le> length pool \<and>
         RoundRobin_Select robin pool a = (Inr (Some ((unat robin + d) mod length pool)), robin + of_nat d) \<and>
         Available (pool ! ((unat robin + d) mod length pool)) \<and>
         (\<forall>e. 1 \<le> e \<and> e < d \<longrightarrow> \<not> Available (pool ! ((unat robin + e) mod length pool)))
    else RoundRobin_Select robin pool a = (Inr None, robin + of_nat (length pool))"
proof -
  have len: "0 < length pool" "length pool < 2 ^ 32" using assms by auto
  let ?P = "\<lambda>t. Available (pool ! ((unat robin + Suc t) mod length pool))"
  have run: "RoundRobin_Select robin pool a =
    (case first_in (length pool) ?P of
       None \<Rightarrow> (Inr None, robin + of_nat (length pool))
     | Some t \<Rightarrow> (Inr (Some ((unat robin + Suc t) mod length pool)), robin + of_nat (Suc t)))"
    unfolding RoundRobin_Select_def len32_unat [OF len(2)]
    using rr_loop_scan [OF len, of robin "length pool"] assms(2) by simp
  show ?thesis
  proof (cases "first_in (length pool) ?P")
    case None
    then have "first_in (length pool) (\<lambda>t. Available (pool ! ((Suc (unat robin) + t) mod length pool))) = None" by simp
    then have "\<not> (\<exists>u \<in> set pool. Available u)" using scan_complete [OF len(1)] by blast
    with run None show ?thesis by simp
  next
    case (Some t)
    note hit = first_in_Some [OF Some]
    have avail: "\<exists>u \<in> set pool. Available u"
      using hit len(1) by (intro bexI [of _ "pool ! ((unat robin + Suc t) mod length pool)"]) simp_all
    have "\<not> Available (pool ! ((unat robin + e) mod length pool))" if "1 \<le> e \<and> e < Suc t" for e
      by (cases e) (use that hit in auto)
    with hit run Some have "1 \<le> Suc t \<and> Suc t \<le> length pool \<and>
         RoundRobin_Select robin pool a = (Inr (Some ((unat robin + Suc t) mod length pool)), robin + of_nat (Suc t)) \<and>
         Available (pool ! ((unat robin + Suc t) mod length pool)) \<and>
         (\<forall>e. 1 \<le> e \<and> e < Suc t \<longrightarrow> \<not> Available (pool ! ((unat robin + e) mod length pool)))"
      by simp
    with avail show ?thesis by metis
  qed
qed

theorem round_robin_next_witness:
  "fst (RoundRobin_Select 1 [example_upstream ''a:1'' 1 1, example_upstream ''b:1'' 1 0] ''c:9'') \<noteq> Inr None"
  using round_robin_next [of "[example_upstream ''a:1'' 1 1, example_upstream ''b:1'' 1 0]" 1 "''c:9''"]
  by auto

text \<open>\<open>LeastConn\<close> and \<open>LeastTime\<close>: whatever numbers are drawn, the chosen upstream is available
  and none of the available ones has fewer connections (answered faster), as long as the
  quantities are not negative.\<close>

theorem least_choice_minimal:
  "(case LeastConn_Select rnd pool a of
      None \<Rightarrow> \<forall>u \<in> set pool. \<not> Available u
    | Some i \<Rightarrow> i < length pool \<and> Available (pool ! i) \<and>
        ((\<forall>u \<in> set pool. 0 \<le> ConnsCount u) \<longrightarrow>
           (\<forall>u \<in> set pool. Available u \<longrightarrow> ConnsCount (pool ! i) \<le> ConnsCount u)))
   \<and> (case LeastTime_Select rnd pool a of
      None \<Rightarrow> \<forall>u \<in> set pool. \<not> Available u
    | Some i \<Rightarrow> i < length pool \<and> Available (pool ! i) \<and>
        ((\<forall>u \<in> set pool. 0 \<le> LeastTime u) \<longrightarrow>
           (\<forall>u \<in> set pool. Available u \<longrightarrow> LeastTime (pool ! i) \<le> LeastTime u)))"
  unfolding LeastConn_Select_def LeastTime_Select_def
  by (intro conjI least_loop_correct)

theorem least_choice_minimal_witness:
  "LeastConn_Select (\<lambda>_. 0) [example_upstream ''a:1'' 1 0, example_upstream ''b:1'' 1 1] ''c:9'' \<noteq> None
   \<and> LeastTime_Select (\<lambda>_. 0) [example_upstream ''a:1'' 1 0, example_upstream ''b:1'' 1 1] ''c:9'' \<noteq> None"
  using least_choice_minimal [where rnd = "\<lambda>_. 0" and a = "''c:9''"
      and pool = "[example_upstream ''a:1'' 1 0, example_upstream ''b:1'' 1 1]"]
  by (auto split: option.splits)

text \<open>Hashing is sticky: a client that was given an upstream is given the same one again whatever
  happens to the availability of the others, as long as its upstream stays available and none of
  the unavailable ones has come back.\<close>

theorem hash_sticky:
  assumes "small_pool pool" "length pool' = length pool" "a \<noteq> ''''"
    and chosen: "AddrHash_Select rnd pool a = Inr (Some i)"
    and still: "Available (pool' ! i)"
    and none_back: "\<forall>j < length pool. Available (pool' ! j) \<longrightarrow> Available (pool ! j)"
  shows "AddrHash_Select rnd' pool' a = Inr (Some i)"
proof -
  have small': "small_pool pool'" using assms(1,2) by (auto simp: small_pool_def)
  let ?at = "\<lambda>t. (unat (hash a) mod length pool + t) mod length pool"
  obtain t where t: "first_in (length pool) (\<lambda>t. Available (pool ! ?at t)) = Some t" "i = ?at t"
    using chosen assms(1,3) by (auto simp: AddrHash_Select_def hashing_scan)
  have lt: "?at s < length pool" for s using small_pool_bounds(1) [OF assms(1)] by simp
  have "\<not> Available (pool' ! ?at s)" if "s < t" for s
    using first_in_Some [OF t(1)] none_back lt that by blast
  moreover have "Available (pool' ! ?at t)" using still t(2) by simp
  moreover have "t < length pool" using first_in_Some [OF t(1)] by blast
  ultimately have "first_in (length pool) (\<lambda>t. Available (pool' ! ?at t)) = Some t"
    by (intro first_inI) auto
  then show ?thesis using t(2) assms(3) by (simp add: AddrHash_Select_def hashing_scan [OF small'] assms(2))
qed

theorem hash_sticky_witness:
  "AddrHash_Select (\<lambda>_. 0) [example_upstream ''a:1'' 1 1, example_upstream ''b:1'' 1 1] ''c'' = Inr (Some 0) \<and>
   AddrHash_Select (\<lambda>_. 1) [example_upstream ''a:1'' 1 1, example_upstream ''b:1'' 1 0] ''c'' = Inr (Some 0)"
proof -
  have "AddrHash_Select (\<lambda>_. 0) [example_upstream ''a:1'' 1 1, example_upstream ''b:1'' 1 1] ''c'' = Inr (Some 0)"
    by (simp add: AddrHash_Select_def hashing_def hash_def byte_of_char_def Let_def) (simp add: numeral_2_eq_2)
  then show ?thesis
    using hash_sticky [of "[example_upstream ''a:1'' 1 1, example_upstream ''b:1'' 1 1]"
        "[example_upstream ''a:1'' 1 1, example_upstream ''b:1'' 1 0]" "''c''" "\<lambda>_. 0" 0 "\<lambda>_. 1"]
    by (simp add: small_pool_def less_Suc_eq)
qed

text \<open>C19. The interface: on a non-empty pool no selector panics, its answer points into the pool, and
  the upstream it points to is available, but for \<open>Weight\<close> on a pool of one.\<close>

theorem select_sound:
  assumes "small_pool pool"
  shows "\<exists>c sel'. Select gcdx rnd sel pool a = (Inr c, sel') \<and>
    (\<forall>i. c = Some i \<longrightarrow> i < length pool \<and>
       ((length pool = 1 \<longrightarrow> (\<nexists>w. sel = SWeight w)) \<longrightarrow> Available (pool ! i)))"
proof -
  obtain c where c: "fst (Select gcdx rnd sel pool a) = Inr c" using dispatch.answers [OF assms] by blast
  then have "Select gcdx rnd sel pool a = (Inr c, snd (Select gcdx rnd sel pool a))"
    by (metis prod.collapse)
  moreover have "\<forall>i. c = Some i \<longrightarrow> i < length pool \<and>
       ((length pool = 1 \<longrightarrow> (\<nexists>w. sel = SWeight w)) \<longrightarrow> Available (pool ! i))"
    using c dispatch.in_range Select_available by metis
  ultimately show ?thesis by blast
qed

theorem select_sound_witness:
  "\<exists>c sel'. Select gcd (\<lambda>_. 0) (SRoundRobin 0) [example_upstream ''a:1'' 1 0] ''c:9'' = (Inr c, sel')"
  using select_sound [of "[example_upstream ''a:1'' 1 0]" gcd "\<lambda>_. 0" "SRoundRobin 0" "''c:9''"]
  by (auto simp: small_pool_def)

definition weight_state :: "UpstreamPool \<Rightarrow> Weight \<Rightarrow> bool" where
  "weight_state pool w \<longleftrightarrow> -1 \<le> index w \<and> curWeight w \<le> Max (weights pool)"

text \<open>C20. Completeness: on a non-empty pool with an available upstream \<open>Random\<close>, \<open>LeastConn\<close>, \<open>LeastTime\<close>
  and both hashes choose one; \<open>Weight\<close> does so, in every state it can be in, when the upstreams of
  maximal weight are available.\<close>

theorem select_complete:
  assumes "small_pool pool" "u \<in> set pool" "Available u" "list_all (\<lambda>u. 1 \<le> cWeight u) pool" "gcdx_ok gcdx"
    and "case sel of SRoundRobin _ \<Rightarrow> False
         | SWeight w \<Rightarrow> weight_state pool w \<and> (\<forall>v \<in> set pool. cWeight v = Max (weights pool) \<longrightarrow> Available v)
         | _ \<Rightarrow> True"
  shows "\<exists>i. fst (Select gcdx rnd sel pool a) = Inr (Some i) \<and> i < length pool \<and> Available (pool ! i)"
proof (cases sel)
  case (SWeight w)
  have pos: "\<forall>u \<in> set pool. 0 < cWeight u" using assms(4) by (auto simp: list_all_iff)
  have w: "-1 \<le> index w" "curWeight w \<le> Max (weights pool)"
    "\<forall>v \<in> set pool. cWeight v = Max (weights pool) \<longrightarrow> Available v"
    using assms(6) SWeight by (auto simp: weight_state_def)
  show ?thesis
  proof (cases "2 \<le> length pool")
    case True
    obtain i w' where "Weight_Select gcdx w pool a = (Inr (Some i), w')"
      using weight_select_next [OF assms(5) pos True w(3,1,2)] by metis
    with Weight_Select_safe [of gcdx w pool a] True SWeight show ?thesis by (simp add: Select_def)
  next
    case False
    with small_pool_bounds(1) [OF assms(1)] have "length pool = 1" by linarith
    then have "pool = [u]" using assms(2) by (auto simp: length_Suc_conv)
    then show ?thesis using assms(3) SWeight by (simp add: Select_def Weight_Select_def)
  qed
qed (use assms random.finds_available [OF assms(1-3)] leastconn.finds_available [OF assms(1-3)]
    leasttime.finds_available [OF assms(1-3)] iphash.finds_available [OF assms(1-3)]
    addrhash.finds_available [OF assms(1-3)] in \<open>auto simp: Select_def\<close>)

theorem select_complete_witness:
  "\<exists>i. fst (Select gcd (\<lambda>_. 0) (SWeight NewWeight)
     [example_upstream ''a:1'' 4 1, example_upstream ''b:1'' 1 0] ''c:9'') = Inr (Some i)"
  using select_complete [of "[example_upstream ''a:1'' 4 1, example_upstream ''b:1'' 1 0]"
      "example_upstream ''a:1'' 4 1" gcd "SWeight NewWeight" "\<lambda>_. 0" "''c:9''"]
  by (auto simp: small_pool_def gcdx_ok_def weight_state_def weights_def NewWeight_def)

text \<open>Three answers the selectors should not give: \<open>Weight\<close> answers \<open>nil\<close> although an upstream is
  available, and chooses the only upstream of a pool although it is unhealthy; \<open>RoundRobin\<close>
  answers \<open>nil\<close> when its cursor wraps although an upstream is available; the hashes divide by
  zero on an empty pool.\<close>

theorem selector_anomalies:
  "fst (Weight_Select gcd NewWeight [example_upstream ''a:1'' 4 0, example_upstream ''b:1'' 1 1] a) = Inr None
   \<and> fst (Weight_Select gcdx w [example_upstream ''a:1'' 1 0] a) = Inr (Some 0)
   \<and> fst (RoundRobin_Select (- 2) [example_upstream ''a:1'' 1 0, example_upstream ''b:1'' 1 0,
            example_upstream ''c:1'' 1 1] a) = Inr None
   \<and> AddrHash_Select rnd [] ''c:9'' = Inl (Panic DivideByZero)"
proof (intro conjI)
  show "fst (RoundRobin_Select (- 2) [example_upstream ''a:1'' 1 0, example_upstream ''b:1'' 1 0,
            example_upstream ''c:1'' 1 1] a) = Inr None"
    by (simp add: RoundRobin_Select_def) (simp add: numeral_3_eq_3)
qed (simp_all add: Weight_Select_def NewWeight_def weight_advance_def Let_def AddrHash_Select_def hashing_def
      numeral_2_eq_2)

end
