(* ===== verification/Balanced.thy ===== *)
theory Balanced
  imports Selector Idns
begin

section \<open>core/loadbalance/loadbalance.go: the load balancer\<close>

text \<open>
  The registry of selector factories is an association list from the method's name to the fresh
  selector its factory returns. The balancer holds its pool, its selector and, when given, a
  resolver. Its operations hold the lock for their whole duration, so they are functions on the
  state; the health checks run concurrently: a tick of the checker starts one check per upstream,
  each ends at some later moment, and \<open>lb_step\<close> interleaves all of this. A check works on the
  upstream object it was started for, so that one still running when \<open>Reset\<close> installs a new pool
  has no effect on the new pool.

  The dialler of the default probe, \<open>extmath.Gcdx\<close>, the concurrent map and the DNS client are
  gathered in \<open>lb_env\<close>. Logging, the \<open>debug\<close> switch that only controls logging, and the choice of
  goroutine pool have no effect on the state and are left out.
\<close>

record 'm lb_env =
  env_gcdx :: "int \<Rightarrow> int \<Rightarrow> int"
  env_dial :: probe
  env_cmap :: "('m, dns_item) cmap"
  env_dns :: dns_client

type_synonym registry = "(string \<times> Selector) list"

text \<open>A factory is \<open>nil\<close>, or a function that returns \<open>nil\<close> or a selector.\<close>

definition RegisterSelector :: "string \<Rightarrow> Selector option option \<Rightarrow> registry \<Rightarrow> registry result" where
  "RegisterSelector meth newSelector selectors =
     (case newSelector of
        None \<Rightarrow> Inl (Panic (PanicMsg ''missing new selector function''))
      | Some None \<Rightarrow> Inl (Panic (PanicMsg ''new selector function must return a non-nil selector instance''))
      | Some (Some s) \<Rightarrow>
          if map_of selectors meth \<noteq> None
          then Inl (Panic (PanicMsg (''method already registered: '' @ meth)))
          else Inr (selectors @ [(meth, s)]))"

definition getNewSelectorFunction :: "string \<Rightarrow> registry \<Rightarrow> Selector option" where
  "getNewSelectorFunction meth selectors =
     (case map_of selectors (to_lower meth) of
        None \<Rightarrow> map_of selectors ''roundrobin''
      | Some s \<Rightarrow> Some s)"

definition HasSupportMethod :: "string \<Rightarrow> registry \<Rightarrow> bool" where
  "HasSupportMethod meth selectors \<longleftrightarrow> map_of selectors (to_lower meth) \<noteq> None"

text \<open>The names are returned in the unspecified order of a Go map; here in order of registration.\<close>

definition Methods :: "registry \<Rightarrow> string list" where
  "Methods selectors = map fst selectors"

definition selector_init :: "registry result" where
  "selector_init =
     foldl (\<lambda>r (name, s). bindR r (RegisterSelector name (Some (Some s)))) (Inr [])
       [(''random'', SRandom), (''roundrobin'', SRoundRobin 0), (''leastconn'', SLeastConn),
        (''hash'', SIPHash), (''addrhash'', SAddrHash), (''leasttime'', SLeastTime),
        (''weight'', SWeight NewWeight)]"

record 'm Balanced =
  lb_method :: string
  lb_interval :: int
  lb_dns :: "'m Resolver option"
  lb_closed :: bool
  lb_upstreams :: UpstreamPool
  lb_selector :: Selector

datatype 'm lb_option = WithDNSServer "'m Resolver option" | WithInterval int

definition apply_option :: "'m Balanced \<Rightarrow> 'm lb_option \<Rightarrow> 'm Balanced" where
  "apply_option lb opt = (case opt of
     WithDNSServer d \<Rightarrow> lb\<lparr>lb_dns := d\<rparr> | WithInterval i \<Rightarrow> lb\<lparr>lb_interval := i\<rparr>)"

definition lb_New :: "registry \<Rightarrow> string \<Rightarrow> Config list \<Rightarrow> 'm lb_option list \<Rightarrow> 'm Balanced result" where
  "lb_New selectors meth configs opts =
     (case getNewSelectorFunction meth selectors of
        None \<Rightarrow> Inl (Panic NilDereference)
      | Some s \<Rightarrow>
          Inr (foldl apply_option
            \<lparr>lb_method = meth, lb_interval = second * 30, lb_dns = None, lb_closed = False,
             lb_upstreams = NewUpstreamPool configs, lb_selector = s\<rparr> opts))"

definition lb_Select :: "'m lb_env \<Rightarrow> draws \<Rightarrow> string \<Rightarrow> 'm Balanced \<Rightarrow> string result \<times> 'm Balanced" where
  "lb_Select env rnd srcAddr sf =
     (case Select (env_gcdx env) rnd (lb_selector sf) (lb_upstreams sf) srcAddr of
        (Inl e, s) \<Rightarrow> (Inl e, sf\<lparr>lb_selector := s\<rparr>)
      | (Inr b, s) \<Rightarrow> (Inr (chosen_addr (lb_upstreams sf) b), sf\<lparr>lb_selector := s\<rparr>))"

definition lb_ConnsIncrease :: "string \<Rightarrow> 'm Balanced \<Rightarrow> 'm Balanced" where
  "lb_ConnsIncrease addr sf = sf\<lparr>lb_upstreams := pool_ConnsIncrease addr (lb_upstreams sf)\<rparr>"

definition lb_ConnsDecrease :: "string \<Rightarrow> 'm Balanced \<Rightarrow> 'm Balanced" where
  "lb_ConnsDecrease addr sf = sf\<lparr>lb_upstreams := pool_ConnsDecrease addr (lb_upstreams sf)\<rparr>"

text \<open>Closing a closed channel would panic; \<open>Close\<close> tests for it.\<close>

definition lb_Close :: "'m Balanced \<Rightarrow> 'm Balanced" where
  "lb_Close sf = (if lb_closed sf then sf else sf\<lparr>lb_closed := True\<rparr>)"

definition lb_HasHealthy :: "'m Balanced \<Rightarrow> bool" where
  "lb_HasHealthy sf = pool_HasHealthy (lb_upstreams sf)"

definition lb_HealthyCount :: "'m Balanced \<Rightarrow> nat" where
  "lb_HealthyCount sf = pool_HealthyCount (lb_upstreams sf) 0"

definition lb_Reset :: "registry \<Rightarrow> Config list \<Rightarrow> 'm Balanced \<Rightarrow> 'm Balanced result" where
  "lb_Reset selectors configs sf =
     (case getNewSelectorFunction (lb_method sf) selectors of
        None \<Rightarrow> Inl (Panic NilDereference)
      | Some s \<Rightarrow> Inr (sf\<lparr>lb_upstreams := NewUpstreamPool configs, lb_selector := s\<rparr>))"

definition lb_resolve :: "'m lb_env \<Rightarrow> int \<Rightarrow> int \<Rightarrow> string \<Rightarrow> 'm Balanced \<Rightarrow> string \<times> 'm Balanced" where
  "lb_resolve env now later addr sf =
     (case lb_dns sf of
        None \<Rightarrow> (addr, sf)
      | Some dns \<Rightarrow>
          if PublicDNSAddr dns \<noteq> '''' then
            case MustResolve (env_cmap env) (env_dns env) now later addr dns of
              (addr, dns) \<Rightarrow> (addr, sf\<lparr>lb_dns := Some dns\<rparr>)
          else (addr, sf))"

text \<open>The body of the goroutine started for one upstream by \<open>activeHealthChecker\<close>.\<close>

definition check_upstream :: "'m lb_env \<Rightarrow> nat \<Rightarrow> int \<Rightarrow> int \<Rightarrow> int \<Rightarrow> nat \<Rightarrow> 'm Balanced \<Rightarrow> 'm Balanced" where
  "check_upstream env moment now later elapsed i sf =
     (case lb_resolve env now later (cAddr (lb_upstreams sf ! i)) sf of
        (addr, sf) \<Rightarrow>
          sf\<lparr>lb_upstreams := (lb_upstreams sf)[i := healthyCheck (env_dial env) moment elapsed addr (lb_upstreams sf ! i)]\<rparr>)"

text \<open>
  The balancer with the checks in flight, and its steps. The answer of a step is the address for
  \<open>Select\<close> and nothing for the others.
\<close>

type_synonym 'm lb_state = "'m Balanced \<times> nat list"

inductive lb_step :: "'m lb_env \<Rightarrow> registry \<Rightarrow> 'm lb_state \<Rightarrow> string option \<Rightarrow> 'm lb_state \<Rightarrow> bool"
  for env :: "'m lb_env" and selectors :: registry where
  step_select: "lb_Select env rnd src lb = (Inr a, lb') \<Longrightarrow> lb_step env selectors (lb, fl) (Some a) (lb', fl)"
| step_open: "lb_step env selectors (lb, fl) None (lb_ConnsIncrease addr lb, fl)"
| step_closed: "lb_step env selectors (lb, fl) None (lb_ConnsDecrease addr lb, fl)"
| step_close: "lb_step env selectors (lb, fl) None (lb_Close lb, fl)"
| step_reset: "lb_Reset selectors configs lb = Inr lb' \<Longrightarrow> lb_step env selectors (lb, fl) None (lb', [])"
| step_tick: "\<not> lb_closed lb \<Longrightarrow> lb_interval lb > 0 \<Longrightarrow>
    lb_step env selectors (lb, fl) None (lb, fl @ [0..<length (lb_upstreams lb)])"
| step_check: "i \<in> set fl \<Longrightarrow>
    lb_step env selectors (lb, fl) None (check_upstream env moment now later elapsed i lb, remove1 i fl)"

inductive_cases lb_stepE: "lb_step env selectors s ans s'"

inductive lb_reach :: "'m lb_env \<Rightarrow> registry \<Rightarrow> 'm lb_state \<Rightarrow> bool"
  for env :: "'m lb_env" and selectors :: registry where
  reach_new: "lb_New selectors meth configs opts = Inr lb \<Longrightarrow> lb_reach env selectors (lb, [])"
| reach_step: "lb_reach env selectors s \<Longrightarrow> lb_step env selectors s ans s' \<Longrightarrow> lb_reach env selectors s'"

subsection \<open>The registry\<close>

lemma selector_init_ok:
  "selector_init = Inr [(''random'', SRandom), (''roundrobin'', SRoundRobin 0), (''leastconn'', SLeastConn),
     (''hash'', SIPHash), (''addrhash'', SAddrHash), (''leasttime'', SLeastTime), (''weight'', SWeight NewWeight)]"
  by (simp add: selector_init_def RegisterSelector_def)

lemma default_roundrobin:
  assumes "selector_init = Inr selectors" "\<not> HasSupportMethod meth selectors"
  shows "getNewSelectorFunction meth selectors = Some (SRoundRobin 0)"
  using assms by (auto simp: selector_init_ok HasSupportMethod_def getNewSelectorFunction_def)

lemma registry_complete:
  assumes "selector_init = Inr selectors"
  shows "\<exists>s. getNewSelectorFunction meth selectors = Some s"
  using default_roundrobin [OF assms, of meth]
  by (cases "HasSupportMethod meth selectors")
    (auto simp: HasSupportMethod_def getNewSelectorFunction_def split: option.splits)

subsection \<open>The invariant of the reachable states\<close>

definition lb_inv :: "'m lb_state \<Rightarrow> bool" where
  "lb_inv s \<longleftrightarrow> (case s of (lb, fl) \<Rightarrow>
     list_all wf_upstream (lb_upstreams lb) \<and> list_all (\<lambda>i. i < length (lb_upstreams lb)) fl)"

lemma wf_upstream_conns [simp]:
  "wf_upstream (u\<lparr>connections := c\<rparr>) = wf_upstream u"
  by (simp add: wf_upstream_def)

lemma wf_upstream_healthyCheck:
  assumes "wf_upstream u"
  shows "wf_upstream (healthyCheck dial m el addr u)"
  using assms
  by (cases "outcome dial u addr m") (auto simp: healthyCheck_success healthyCheck_failure wf_upstream_def)

lemma conn_step_wf: "u \<in> set (conn_step e us) \<Longrightarrow> \<forall>u \<in> set us. wf_upstream u \<Longrightarrow> wf_upstream u"
  using nth_mem by (fastforce simp: in_set_conv_nth conn_step_nth)

lemma conn_step_Balanced:
  "lb_ConnsIncrease addr lb = lb\<lparr>lb_upstreams := conn_step (Opened addr) (lb_upstreams lb)\<rparr>"
  "lb_ConnsDecrease addr lb = lb\<lparr>lb_upstreams := conn_step (Closed addr) (lb_upstreams lb)\<rparr>"
  by (simp_all add: lb_ConnsIncrease_def lb_ConnsDecrease_def conn_step_def)

lemma lb_resolve_frame [simp]:
  "lb_resolve env now later addr lb = (a, lb') \<Longrightarrow>
   lb_upstreams lb' = lb_upstreams lb \<and> lb_closed lb' = lb_closed lb \<and> lb_selector lb' = lb_selector lb
     \<and> lb_method lb' = lb_method lb"
  by (auto simp: lb_resolve_def split: option.splits if_splits prod.splits)

lemma check_upstream_pool:
  obtains addr where "lb_upstreams (check_upstream env m now later el i lb) =
      (lb_upstreams lb)[i := healthyCheck (env_dial env) m el addr (lb_upstreams lb ! i)]"
    "lb_closed (check_upstream env m now later el i lb) = lb_closed lb"
proof -
  obtain a lb' where r: "lb_resolve env now later (cAddr (lb_upstreams lb ! i)) lb = (a, lb')" by fastforce
  from lb_resolve_frame [OF r] r that [of a] show thesis by (simp add: check_upstream_def)
qed

lemma lb_Select_frame:
  "lb_Select env rnd src lb = (r, lb') \<Longrightarrow>
   lb_upstreams lb' = lb_upstreams lb \<and> lb_closed lb' = lb_closed lb"
  by (auto simp: lb_Select_def split: prod.splits sum.splits)

lemma lb_step_inv: "lb_step env selectors s ans s' \<Longrightarrow> lb_inv s \<Longrightarrow> lb_inv s'"
proof (induction rule: lb_step.induct)
  case (step_reset configs lb lb' fl)
  then show ?case
    by (auto simp: lb_Reset_def lb_inv_def list_all_iff NewUpstreamPool_wf split: option.splits)
next
  case (step_check i fl lb m now later el)
  obtain addr where "lb_upstreams (check_upstream env m now later el i lb) =
      (lb_upstreams lb)[i := healthyCheck (env_dial env) m el addr (lb_upstreams lb ! i)]"
    using check_upstream_pool [of env m now later el i lb] by metis
  moreover have "set (remove1 i fl) \<subseteq> set fl" by (rule set_remove1_subset)
  moreover have "wf_upstream u" if "list_all wf_upstream us" "u \<in> set (us[i := healthyCheck d m el addr (us ! i)])"
    "i < length us" for us u d
    using that set_update_subset_insert [of us i] wf_upstream_healthyCheck by (fastforce simp: list_all_iff)
  ultimately show ?case
    using step_check by (auto simp: lb_inv_def list_all_iff)
qed (auto simp: lb_inv_def conn_step_Balanced lb_Close_def list_all_iff dest: lb_Select_frame conn_step_wf)

lemma apply_options_pool: "lb_upstreams (foldl apply_option lb opts) = lb_upstreams lb"
  by (induction opts arbitrary: lb) (auto simp: apply_option_def split: lb_option.splits)

lemma lb_reach_inv: "lb_reach env selectors s \<Longrightarrow> lb_inv s"
proof (induction rule: lb_reach.induct)
  case (reach_new meth cfgs opts lb)
  then show ?case
    by (auto simp: lb_New_def lb_inv_def apply_options_pool list_all_iff NewUpstreamPool_wf split: option.splits)
qed (rule lb_step_inv)

text \<open>Which steps change the set of addresses, and what a closed balancer does.\<close>

lemma conn_step_addrs: "map cAddr (lb_upstreams (lb_ConnsIncrease a lb)) = map cAddr (lb_upstreams lb)"
  "map cAddr (lb_upstreams (lb_ConnsDecrease a lb)) = map cAddr (lb_upstreams lb)"
  by (simp_all add: conn_step_Balanced)

lemma lb_step_closed:
  "lb_step env selectors s ans s' \<Longrightarrow> lb_closed (fst s) \<Longrightarrow>
   lb_closed (fst s') \<and> length (snd s') \<le> length (snd s) \<and> set (snd s') \<subseteq> set (snd s)"
proof (induction rule: lb_step.induct)
  case (step_check i fl lb m now later el)
  then show ?case
    using check_upstream_pool [of env m now later el i lb] set_remove1_subset [of i fl]
    by (simp add: length_remove1) metis
qed (auto simp: lb_Reset_def lb_ConnsIncrease_def lb_ConnsDecrease_def lb_Close_def
    split: option.splits dest: lb_Select_frame)

definition lb_later :: "'m lb_env \<Rightarrow> registry \<Rightarrow> 'm lb_state \<Rightarrow> 'm lb_state \<Rightarrow> bool" where
  "lb_later env selectors = (\<lambda>s s'. \<exists>ans. lb_step env selectors s ans s')\<^sup>*\<^sup>*"

subsection \<open>Properties\<close>

text \<open>In every reachable state of the balancer, whatever the interleaving of selections, connection
  counts, resets, ticks and health checks, a selection from a non-empty pool does not panic; it
  answers the empty string or the host:port address of an upstream of the current pool, which is
  available unless the selector is \<open>Weight\<close> over a pool of one.\<close>

theorem balanced_select_valid:
  assumes "lb_reach env selectors (lb, fl)" "small_pool (lb_upstreams lb)"
  shows "\<exists>a lb'. lb_Select env rnd src lb = (Inr a, lb') \<and> lb_upstreams lb' = lb_upstreams lb \<and>
    (a = '''' \<or> (is_ok (SplitHostPort a) \<and> (\<exists>u \<in> set (lb_upstreams lb). cAddr u = a \<and>
       (Available u \<or> (length (lb_upstreams lb) = 1 \<and> (\<exists>w. lb_selector lb = SWeight w))))))"
proof -
  let ?us = "lb_upstreams lb"
  obtain c s where c: "Select (env_gcdx env) rnd (lb_selector lb) ?us src = (Inr c, s)"
    using dispatch.answers [OF assms(2), of "env_gcdx env" rnd "lb_selector lb" src] by (metis prod.collapse)
  then have fst_c: "fst (Select (env_gcdx env) rnd (lb_selector lb) ?us src) = Inr c" by simp
  have sel: "lb_Select env rnd src lb = (Inr (chosen_addr ?us c), lb\<lparr>lb_selector := s\<rparr>)"
    by (simp add: lb_Select_def c)
  have "chosen_addr ?us c = '''' \<or> (is_ok (SplitHostPort (chosen_addr ?us c)) \<and>
      (\<exists>u \<in> set ?us. cAddr u = chosen_addr ?us c \<and>
         (Available u \<or> (length ?us = 1 \<and> (\<exists>w. lb_selector lb = SWeight w)))))"
  proof (cases c)
    case (Some i)
    then have i: "i < length ?us" using dispatch.in_range fst_c by blast
    have "wf_upstream (?us ! i)"
      using lb_reach_inv [OF assms(1)] i by (simp add: lb_inv_def list_all_length)
    moreover have "Available (?us ! i) \<or> (length ?us = 1 \<and> (\<exists>w. lb_selector lb = SWeight w))"
      using Select_available fst_c Some by blast
    ultimately show ?thesis using Some i by (auto simp: chosen_addr_def wf_upstream_def)
  qed (simp add: chosen_addr_def)
  with sel show ?thesis by simp
qed

definition example_env :: "(string, dns_item) alist lb_env" where
  "example_env = \<lparr>env_gcdx = gcd, env_dial = (\<lambda>_ _ _. None), env_cmap = alist_cmap, env_dns = example_dns\<rparr>"

definition example_lb :: "(string, dns_item) alist Balanced" where
  "example_lb = \<lparr>lb_method = ''leastconn'', lb_interval = second * 30, lb_dns = None, lb_closed = False,
     lb_upstreams = NewUpstreamPool [example_config], lb_selector = SLeastConn\<rparr>"

lemma example_new: "\<exists>regs. selector_init = Inr regs \<and> lb_New regs ''leastconn'' [example_config] [] = Inr example_lb"
  by (simp add: selector_init_ok lb_New_def getNewSelectorFunction_def to_lower_def lower_char_def example_lb_def)

lemma example_pool: "small_pool (lb_upstreams example_lb)"
  by (simp add: example_lb_def small_pool_def NewUpstream_def example_config_def
      SplitHostPort_def break_last_def split_check_def)

theorem balanced_select_valid_witness:
  "\<exists>a lb'. lb_Select example_env (\<lambda>_. 0) ''c:9'' example_lb = (Inr a, lb')"
proof -
  obtain regs where "lb_New regs ''leastconn'' [example_config] [] = Inr example_lb" using example_new by blast
  then have "lb_reach example_env regs (example_lb, [])" by (rule reach_new)
  from balanced_select_valid [OF this example_pool, of "\<lambda>_. 0" "''c:9''"] show ?thesis by blast
qed

text \<open>Closing stops the checker for good: from a closed balancer, along any further steps, it stays
  closed and no new health check is started.\<close>

theorem balanced_close_stops:
  assumes "lb_closed lb" "lb_later env selectors (lb, fl) (lb', fl')"
  shows "lb_closed lb' \<and> length fl' \<le> length fl \<and> set fl' \<subseteq> set fl"
proof -
  have "lb_closed (fst s') \<and> length (snd s') \<le> length (snd s) \<and> set (snd s') \<subseteq> set (snd s)"
    if "(\<lambda>s s'. \<exists>ans. lb_step env selectors s ans s')\<^sup>*\<^sup>* s s'" "lb_closed (fst s)" for s s'
    using that
  proof (induction rule: rtranclp_induct)
    case (step s1 s2)
    then obtain ans where "lb_step env selectors s1 ans s2" by blast
    from lb_step_closed [OF this] step show ?case by (meson order_trans)
  qed simp
  from this [of "(lb, fl)" "(lb', fl')"] assms show ?thesis by (simp add: lb_later_def)
qed

theorem balanced_close_stops_witness:
  "lb_closed (lb_Close (lb_Close example_lb))"
  using balanced_close_stops [of "lb_Close example_lb" example_env "[]" "[0]" "lb_Close (lb_Close example_lb)" "[0]"]
  by (auto simp: lb_later_def lb_Close_def intro: r_into_rtranclp step_close)

end
