(* ===== verification/Service_Common.thy ===== *)
theory Service_Common
  imports Balanced BasicAuth
begin

section \<open>What the services share\<close>

text \<open>
  The services that connect to parents do it alike: a connection is opened, entered into the
  tables and counted at its parent, and released. This theory has what their accounting
  shares: the phases of a connection and the relation between the counters of a pool
  and the connections, which are given by their phases and the addresses of their parents. It also has the
  configuration of a parent with a weight and of the authentication centre, which the services repeat.
\<close>

subsection \<open>Counting the connections of the parents\<close>

datatype phase = Connected | Joined | Released

definition joined_on :: "string \<Rightarrow> (phase \<times> string) list \<Rightarrow> nat" where
  "joined_on a hs = length (filter (\<lambda>(ph, lbAddr). ph = Joined \<and> lbAddr = a) hs)"

text \<open>Every parent counts the connections that are joined to it; an address is counted where it stands first.\<close>

definition counted :: "UpstreamPool \<Rightarrow> (phase \<times> string) list \<Rightarrow> bool" where
  "counted us hs \<longleftrightarrow> (\<forall>i < length us. connections (us ! i) = (if is_first us i then of_nat (joined_on (cAddr (us ! i)) hs) else 0))"

lemma joined_on_Nil [simp]: "joined_on a [] = 0"
  by (simp add: joined_on_def)

lemma joined_on_append: "ph \<noteq> Joined \<Longrightarrow> joined_on a (hs @ [(ph, b)]) = joined_on a hs"
  by (simp add: joined_on_def)

lemma length_filter_update:
  "i < length xs \<Longrightarrow> length (filter P (xs[i := x])) + (if P (xs ! i) then 1 else 0) = length (filter P xs) + (if P x then 1 else 0)"
proof (induction xs arbitrary: i)
  case (Cons y ys)
  show ?case
  proof (cases i)
    case (Suc j)
    then show ?thesis using Cons.IH [of j] Cons.prems by simp
  qed simp
qed simp

lemma joined_on_update:
  assumes "i < length hs" "hs ! i = (ph0, b)"
  shows "joined_on a (hs[i := (ph, b)]) + (if ph0 = Joined \<and> b = a then 1 else 0) =
    joined_on a hs + (if ph = Joined \<and> b = a then 1 else 0)"
  using length_filter_update [OF assms(1), of "\<lambda>(ph, lbAddr). ph = Joined \<and> lbAddr = a" "(ph, b)"] assms(2)
  by (simp add: joined_on_def)

lemma counted_conn_step:
  assumes "counted us hs" "\<And>a. (of_nat (joined_on a hs') :: 64 word) = of_nat (joined_on a hs) + conn_delta a e"
  shows "counted (conn_step e us) hs'"
proof -
  have f: "is_first (conn_step e us) i = is_first us i" for i by (rule is_first_cong) simp
  have "cAddr (conn_step e us ! i) = cAddr (us ! i)" if "i < length us" for i using that by (simp add: conn_step_nth)
  then show ?thesis using assms by (simp add: counted_def f conn_step_nth)
qed

text \<open>A connection is entered, or released, and its parent counts that.\<close>

lemma counted_phase:
  assumes "counted us hs" "i < length hs" "hs ! i = (ph0, b)"
    and "(ph0 \<noteq> Joined \<and> ph = Joined \<and> e = Opened b) \<or> (ph0 = Joined \<and> ph \<noteq> Joined \<and> e = Closed b)"
  shows "counted (conn_step e us) (hs[i := (ph, b)])"
proof (rule counted_conn_step [OF assms(1)])
  show "(of_nat (joined_on a (hs[i := (ph, b)])) :: 64 word) = of_nat (joined_on a hs) + conn_delta a e" for a
    using joined_on_update [OF assms(2,3), of a ph, THEN arg_cong [where f = "of_nat :: nat \<Rightarrow> 64 word"]] assms(4)
    by (auto simp: conn_delta_def algebra_simps split: if_splits)
qed

lemma counted_append: "counted us hs \<Longrightarrow> ph \<noteq> Joined \<Longrightarrow> counted us (hs @ [(ph, b)])"
  by (simp add: counted_def joined_on_append)

lemma counted_check:
  assumes "counted us hs"
  shows "counted (us[i := healthyCheck d m el addr (us ! i)]) hs"
proof -
  let ?vs = "us[i := healthyCheck d m el addr (us ! i)]"
  have n: "connections (?vs ! j) = connections (us ! j)" "cAddr (?vs ! j) = cAddr (us ! j)" if "j < length us" for j
    using that by (cases "i = j"; simp)+
  then have "map cAddr ?vs = map cAddr us" by (simp add: list_eq_iff_nth_eq)
  then have "is_first ?vs j = is_first us j" for j by (rule is_first_cong)
  then show ?thesis using assms n unfolding counted_def by simp
qed

lemma pool_of_lb:
  "map_option lb_upstreams (map_option (lb_ConnsIncrease a) lb) = map_option (conn_step (Opened a)) (map_option lb_upstreams lb)"
  "map_option lb_upstreams (map_option (lb_ConnsDecrease a) lb) = map_option (conn_step (Closed a)) (map_option lb_upstreams lb)"
  "map_option lb_upstreams (map_option lb_Close lb) = map_option lb_upstreams lb"
  by (cases lb; simp add: conn_step_Balanced lb_Close_def)+

lemma NewUpstreamPool_conns: "u \<in> set (NewUpstreamPool cs) \<Longrightarrow> connections u = 0"
  by (induction cs) (auto simp: NewUpstream_ok Config.extend_def split: sum.splits)

lemma counted_fresh: "\<forall>u \<in> set us. connections u = 0 \<Longrightarrow> counted us []"
  by (simp add: counted_def)

subsection \<open>The connections of a service\<close>

text \<open>
  A service keeps a list of its connections. What it keeps true of them is a predicate \<open>good\<close> of each, and the counters of the pool. The
  interface asks that a connection stays good, and at its parent, when it is entered, closed or released, which change its phase only
  as they say.
\<close>

definition conns_ok :: "('h \<Rightarrow> bool) \<Rightarrow> ('h \<Rightarrow> phase \<times> string) \<Rightarrow> UpstreamPool option \<Rightarrow> 'h list \<Rightarrow> bool" where
  "conns_ok good key pool hs \<longleftrightarrow> list_all good hs \<and> (\<forall>us. pool = Some us \<longrightarrow> counted us (map key hs))"

locale tracked =
  fixes good :: "'k \<Rightarrow> 'h \<Rightarrow> bool" and key :: "'h \<Rightarrow> phase \<times> string" and enter :: "'h \<Rightarrow> 'h" and shut :: "'h \<Rightarrow> 'h" and release :: "'h \<Rightarrow> 'h"
  assumes key_enter: "key (enter h) = (Joined, snd (key h))"
    and key_shut: "key (shut h) = key h"
    and key_release: "key (release h) = (Released, snd (key h))"
    and good_enter: "good k (enter h) = good k h"
    and good_shut: "good k (shut h) = good k h"
    and good_release: "good k (release h) = good k h"
begin

lemma list_all_update: "list_all P hs \<Longrightarrow> P h \<Longrightarrow> list_all P (hs[i := h])"
  using set_update_subset_insert [of hs i h] by (auto simp: list_all_iff)

lemma conns_add:
  assumes "conns_ok (good k) key pool hs" "good k h" "fst (key h) \<noteq> Joined"
  shows "conns_ok (good k) key pool (hs @ [h])"
  using assms counted_append [of _ "map key hs" "fst (key h)" "snd (key h)"] by (auto simp: conns_ok_def)

lemma conns_shut:
  assumes "conns_ok (good k) key pool hs"
  shows "conns_ok (good k) key pool (hs[i := shut (hs ! i)])"
proof (cases "i < length hs")
  case True
  then have "map key (hs[i := shut (hs ! i)]) = map key hs"
    by (intro nth_equalityI) (auto simp: nth_list_update key_shut)
  moreover have "good k (shut (hs ! i))" using assms True by (simp add: good_shut conns_ok_def list_all_length)
  ultimately show ?thesis using assms list_all_update [of "good k" hs "shut (hs ! i)" i] by (simp add: conns_ok_def)
qed (use assms in \<open>simp add: list_update_beyond\<close>)

lemma conns_shut_all:
  assumes "conns_ok (good k) key pool hs"
  shows "conns_ok (good k) key pool (foldl (\<lambda>hs (_, i). hs[i := shut (hs ! i)]) hs xs)"
  using assms by (induction xs arbitrary: hs) (auto intro: conns_shut)

lemma conns_enter:
  assumes "conns_ok (good k) key pool hs" "i < length hs" "fst (key (hs ! i)) \<noteq> Joined"
  shows "conns_ok (good k) key (map_option (conn_step (Opened (snd (key (hs ! i))))) pool) (hs[i := enter (hs ! i)])"
proof -
  have "good k (enter (hs ! i))" using assms(1,2) by (simp add: good_enter conns_ok_def list_all_length)
  moreover have "counted (conn_step (Opened (snd (key (hs ! i)))) us) (map key (hs[i := enter (hs ! i)]))" if "pool = Some us" for us
    using assms that counted_phase [of us "map key hs" i "fst (key (hs ! i))" "snd (key (hs ! i))" Joined]
    by (simp add: conns_ok_def map_update key_enter)
  ultimately show ?thesis using assms(1) list_all_update by (auto simp: conns_ok_def)
qed

lemma conns_release:
  assumes "conns_ok (good k) key pool hs" "i < length hs" "fst (key (hs ! i)) = Joined"
  shows "conns_ok (good k) key (map_option (conn_step (Closed (snd (key (hs ! i))))) pool) (hs[i := release (hs ! i)])"
proof -
  have "good k (release (hs ! i))" using assms(1,2) by (simp add: good_release conns_ok_def list_all_length)
  moreover have "counted (conn_step (Closed (snd (key (hs ! i)))) us) (map key (hs[i := release (hs ! i)]))" if "pool = Some us" for us
    using assms that counted_phase [of us "map key hs" i "fst (key (hs ! i))" "snd (key (hs ! i))" Released "Closed (snd (key (hs ! i)))"]
    by (simp add: conns_ok_def map_update key_release prod_eq_iff)
  ultimately show ?thesis using assms(1) list_all_update by (auto simp: conns_ok_def)
qed

lemma conns_check:
  assumes "conns_ok (good k) key (Some us) hs"
  shows "conns_ok (good k) key (Some (us[i := healthyCheck d m el addr (us ! i)])) hs"
  using assms counted_check by (simp add: conns_ok_def)

text \<open>Another connection is shut before one is entered.\<close>

lemma key_after_shut: "key ((hs[j := shut (hs ! j)]) ! i) = key (hs ! i)"
  by (cases "i = j"; cases "j < length hs") (simp_all add: key_shut list_update_beyond)

lemma conns_count:
  assumes "conns_ok (good k) key (Some us) hs" "i < length us"
  shows "connections (us ! i) = (if is_first us i then of_nat (length (filter (\<lambda>h. key h = (Joined, cAddr (us ! i))) hs)) else 0)"
proof -
  have "filter (\<lambda>h. fst (key h) = Joined \<and> snd (key h) = cAddr (us ! i)) hs = filter (\<lambda>h. key h = (Joined, cAddr (us ! i))) hs"
    by (rule filter_cong [OF refl]) (metis prod.collapse fst_conv snd_conv)
  then show ?thesis using assms by (simp add: conns_ok_def counted_def joined_on_def filter_map comp_def case_prod_beta)
qed

end

lemma conns_ok_idle: "\<forall>us. pool = Some us \<longrightarrow> (\<forall>u \<in> set us. connections u = 0) \<Longrightarrow> conns_ok good key pool []"
  by (simp add: conns_ok_def counted_fresh)

subsection \<open>Configuration\<close>

text \<open>The value that \<open>strconv.Atoi\<close> returns besides an error: 0, or the nearest 64 bit integer.\<close>

definition atoi_value :: "string \<Rightarrow> int" where
  "atoi_value s =
     (case Atoi s of
        Inr i \<Rightarrow> i
      | Inl e \<Rightarrow> if e = ErrMsg ''strconv.Atoi: value out of range''
                 then (if has_prefix ''-'' s then - (2 ^ 63) else 2 ^ 63 - 1) else 0)"

text \<open>The services split a parent at \<open>@\<close> into an address and a weight, which is 1 when it is missing or 0, and
  configure an upstream with them.\<close>

definition weighted_config :: "int \<Rightarrow> int \<Rightarrow> string list \<Rightarrow> Config" where
  "weighted_config period timeout addrInfo =
     (let w = (if length addrInfo = 2 then (let w = atoi_value (addrInfo ! 1) in if w = 0 then 1 else w) else 1)
      in \<lparr>cAddr = addrInfo ! 0, cWeight = w, cMaxConnections = 0, cSuccessThreshold = 1, cFailureThreshold = 2,
          cPeriod = period, cTimeout = timeout, cLivenessProbe = None\<rparr>)"

text \<open>The authentication centre as the SOCKS5 service and the protocol converter set it up: none unless a file, users or a
  URL are configured; a file that cannot be loaded is only logged.\<close>

definition init_center ::
  "('m, 'd) auth_env \<Rightarrow> 'd Resolver option \<Rightarrow> string \<Rightarrow> string list \<Rightarrow> string \<Rightarrow> int \<Rightarrow> int \<Rightarrow> nat \<Rightarrow> ('m, 'd) Center option" where
  "init_center env resolver file userPasses url timeout okCode retry =
     (if file \<noteq> '''' \<or> userPasses \<noteq> [] \<or> url \<noteq> '''' then
        let opts = (if resolver \<noteq> None then [AuthDNSServer resolver] else []) @
                   (if url \<noteq> '''' then [AuthURL url timeout okCode retry] else []);
            center = snd (auth_Add env userPasses (auth_New env opts))
        in Some (if file \<noteq> '''' then snd (auth_LoadFromFile env file center) else center)
      else None)"

lemma example_retry_ok: "retry_ok (retry_op example_auth)"
  by (simp add: retry_ok_def example_auth_def) (metis atLeastAtMost_iff not_None_eq zero_le order_refl)

end
