(* ===== verification/Domain_Filter.thy ===== *)
theory Domain_Filter
  imports Concurrent_Map Upstream
begin

section \<open>core/filter: which domains go through the proxy\<close>

text \<open>
  The filter decides from three tables: the proxy and the direct table, loaded from files, and a
  cache of domains whose reachability is probed. The tables are concurrent maps. The clock of a
  call is an argument in Unix seconds; the counters of an item are Go's 64 bit \<open>uint\<close>. A tick of
  \<open>run\<close> starts a probe for every item that needs one, on a copy of the item, and each probe writes
  its copy back when it ends: \<open>filter_tick\<close> and \<open>probe_end\<close> are these two halves.
\<close>

record filter_item =
  fi_addr :: string
  fi_success :: "64 word"
  fi_failure :: "64 word"
  lastActiveTime :: int

record ('m, 't) Filter =
  intelligent :: string
  fl_cache :: 'm
  proxies :: 't
  directs :: 't
  fl_timeout :: int
  livenessPeriod :: int
  livenessProbe :: "probe option"
  successThreshold :: "64 word"
  failureThreshold :: "64 word"
  aliveThreshold :: int
  fl_closed :: bool

record ('m, 't) filter_env =
  item_cmap :: "('m, filter_item) cmap"
  set_cmap :: "('t, unit) cmap"
  fl_dial :: probe
  fl_read :: "string \<Rightarrow> string result"
  fl_not_exist :: "string \<Rightarrow> bool"

definition defaultThreshold :: "64 word" where
  "defaultThreshold = 3"

definition defaultAliveThreshold :: int where
  "defaultAliveThreshold = 30 * 60"

definition isNeedLivenessProde :: "64 word \<Rightarrow> 64 word \<Rightarrow> int \<Rightarrow> int \<Rightarrow> filter_item \<Rightarrow> bool" where
  "isNeedLivenessProde succ fail alive now it \<longleftrightarrow>
     \<not> ((fi_success it \<ge> succ \<or> fi_failure it \<ge> fail) \<and> fi_success it > fi_failure it \<and>
        now - lastActiveTime it < alive)"

datatype filter_option =
    OptTimeout int
  | OptLivenessPeriod int
  | OptLivenessProbe "probe option"
  | OptAliveThreshold int
  | OptSuccessThreshold "64 word"
  | OptFailureThreshold "64 word"

definition filter_opt :: "('m, 't) Filter \<Rightarrow> filter_option \<Rightarrow> ('m, 't) Filter" where
  "filter_opt f opt = (case opt of
     OptTimeout t \<Rightarrow> f\<lparr>fl_timeout := t\<rparr>
   | OptLivenessPeriod p \<Rightarrow> f\<lparr>livenessPeriod := p\<rparr>
   | OptLivenessProbe p \<Rightarrow> f\<lparr>livenessProbe := p\<rparr>
   | OptAliveThreshold s \<Rightarrow> f\<lparr>aliveThreshold := (if s < 60 then defaultAliveThreshold else s)\<rparr>
   | OptSuccessThreshold n \<Rightarrow> f\<lparr>successThreshold := (if n = 0 then defaultThreshold else n)\<rparr>
   | OptFailureThreshold n \<Rightarrow> f\<lparr>failureThreshold := (if n = 0 then defaultThreshold else n)\<rparr>)"

definition filter_New :: "('m, 't) filter_env \<Rightarrow> string \<Rightarrow> filter_option list \<Rightarrow> ('m, 't) Filter" where
  "filter_New env mode opts =
     foldl filter_opt
       \<lparr>intelligent = mode, fl_cache = cm_New (item_cmap env), proxies = cm_New (set_cmap env),
        directs = cm_New (set_cmap env), fl_timeout = second * 1, livenessPeriod = second * 30,
        livenessProbe = None, successThreshold = defaultThreshold, failureThreshold = defaultThreshold,
        aliveThreshold = defaultAliveThreshold, fl_closed = False\<rparr> opts"

definition filter_Close :: "('m, 't) Filter \<Rightarrow> ('m, 't) Filter" where
  "filter_Close f = f\<lparr>fl_closed := True\<rparr>"

definition hostname :: "string \<Rightarrow> string" where
  "hostname domain =
     (let domain = trim_prefix ''http://'' domain;
          domain = trim_prefix ''https://'' domain
      in case SplitHostPort domain of
           Inl _ \<Rightarrow> domain
         | Inr (h, _) \<Rightarrow> if h = '''' then domain else h)"

fun match_loop :: "('m, 't) filter_env \<Rightarrow> 't \<Rightarrow> string list \<Rightarrow> nat \<Rightarrow> bool" where
  "match_loop env tb hn 0 = False"
| "match_loop env tb hn (Suc i) =
     (if cm_Has (set_cmap env) (join_with ''.'' (drop i hn)) tb then True else match_loop env tb hn i)"

definition filter_Match :: "('m, 't) filter_env \<Rightarrow> string \<Rightarrow> bool \<Rightarrow> ('m, 't) Filter \<Rightarrow> bool" where
  "filter_Match env domain isProxy f =
     (let hnSlice = split_on (CHR ''.'') (hostname domain) in
      if length hnSlice \<le> 1 then False
      else match_loop env (if isProxy then proxies f else directs f) hnSlice (length hnSlice))"

definition filter_Add :: "('m, 't) filter_env \<Rightarrow> string \<Rightarrow> string \<Rightarrow> ('m, 't) Filter \<Rightarrow> ('m, 't) Filter" where
  "filter_Add env domain addr f =
     (let domain = hostname domain in
      if \<not> filter_Match env domain False f \<and> \<not> filter_Match env domain True f
      then f\<lparr>fl_cache := cm_SetIfAbsent (item_cmap env) domain
               \<lparr>fi_addr = addr, fi_success = 0, fi_failure = 0, lastActiveTime = 0\<rparr> (fl_cache f)\<rparr>
      else f)"

definition IsProxy :: "('m, 't) filter_env \<Rightarrow> int \<Rightarrow> string \<Rightarrow> ('m, 't) Filter \<Rightarrow> bool \<times> bool \<times> 64 word \<times> 64 word" where
  "IsProxy env now domain f =
     (let domain = hostname domain in
      if filter_Match env domain True f then (True, True, 0, 0)
      else if filter_Match env domain False f then (False, True, 0, 0)
      else case cm_Get (item_cmap env) domain (fl_cache f) of
             None \<Rightarrow> (True, False, 0, 0)
           | Some item \<Rightarrow>
               if intelligent f = ''direct'' then (False, True, 0, 0)
               else if intelligent f = ''proxy'' then (True, True, 0, 0)
               else (fi_success item \<le> fi_failure item \<and> now - lastActiveTime item < aliveThreshold f,
                     True, fi_failure item, fi_success item))"

definition filter_tick :: "('m, 't) filter_env \<Rightarrow> int \<Rightarrow> ('m, 't) Filter \<Rightarrow> (string \<times> filter_item) list" where
  "filter_tick env now f =
     (if fl_closed f then []
      else filter (\<lambda>(dom, it). isNeedLivenessProde (successThreshold f) (failureThreshold f) (aliveThreshold f) now it)
             (cm_Items (item_cmap env) (fl_cache f)))"

definition probe_item :: "('m, 't) filter_env \<Rightarrow> nat \<Rightarrow> int \<Rightarrow> ('m, 't) Filter \<Rightarrow> filter_item \<Rightarrow> filter_item" where
  "probe_item env moment now f it =
     (let it = (if now - lastActiveTime it > aliveThreshold f then it\<lparr>fi_failure := 0, fi_success := 0\<rparr> else it);
          probe = (case livenessProbe f of Some p \<Rightarrow> p | None \<Rightarrow> tcpLivenessProbe (fl_dial env));
          it = (case probe moment (fi_addr it) (fl_timeout f) of
                  Some err \<Rightarrow> it\<lparr>fi_failure := fi_failure it + 1\<rparr>
                | None \<Rightarrow> it\<lparr>fi_success := fi_success it + 1\<rparr>)
      in it\<lparr>lastActiveTime := now\<rparr>)"

definition probe_end :: "('m, 't) filter_env \<Rightarrow> nat \<Rightarrow> int \<Rightarrow> string \<times> filter_item \<Rightarrow> ('m, 't) Filter \<Rightarrow> ('m, 't) Filter" where
  "probe_end env moment now p f =
     f\<lparr>fl_cache := cm_Set (item_cmap env) (fst p) (probe_item env moment now f (snd p)) (fl_cache f)\<rparr>"

text \<open>
  Loading a table: the file is read unless it does not exist; every line that is not empty after
  trimming carriage returns, spaces and tabs is entered.
\<close>

fun load_lines :: "('m, 't) filter_env \<Rightarrow> string list \<Rightarrow> 't \<Rightarrow> nat \<times> 't" where
  "load_lines env [] cmp = (0, cmp)"
| "load_lines env (l # ls) cmp =
     (let line = trim_set [CHR 0x0D, CHR '' '', CHR 0x09] l in
      if line \<noteq> '''' then
        (case load_lines env ls (cm_Set (set_cmap env) line () cmp) of (n, cmp) \<Rightarrow> (n + 1, cmp))
      else load_lines env ls cmp)"

definition loadfile2ConcurrentMap :: "('m, 't) filter_env \<Rightarrow> string \<Rightarrow> 't \<Rightarrow> nat result \<times> 't" where
  "loadfile2ConcurrentMap env filename cmp =
     (if fl_not_exist env filename then (Inr 0, cmp)
      else case fl_read env filename of
             Inl err \<Rightarrow> (Inl err, cmp)
           | Inr contents \<Rightarrow>
               (case load_lines env (split_on (CHR 0x0A) contents) cmp of (n, cmp) \<Rightarrow> (Inr n, cmp)))"

definition LoadProxyFile :: "('m, 't) filter_env \<Rightarrow> string \<Rightarrow> ('m, 't) Filter \<Rightarrow> nat result \<times> ('m, 't) Filter" where
  "LoadProxyFile env filename f =
     (case loadfile2ConcurrentMap env filename (proxies f) of (r, t) \<Rightarrow> (r, f\<lparr>proxies := t\<rparr>))"

definition LoadDirectFile :: "('m, 't) filter_env \<Rightarrow> string \<Rightarrow> ('m, 't) Filter \<Rightarrow> nat result \<times> ('m, 't) Filter" where
  "LoadDirectFile env filename f =
     (case loadfile2ConcurrentMap env filename (directs f) of (r, t) \<Rightarrow> (r, f\<lparr>directs := t\<rparr>))"

definition ProxyItemCount :: "('m, 't) filter_env \<Rightarrow> ('m, 't) Filter \<Rightarrow> nat" where
  "ProxyItemCount env f = cm_Count (set_cmap env) (proxies f)"

definition DirectItemCount :: "('m, 't) filter_env \<Rightarrow> ('m, 't) Filter \<Rightarrow> nat" where
  "DirectItemCount env f = cm_Count (set_cmap env) (directs f)"

subsection \<open>Matching\<close>

lemma match_loop_iff:
  "match_loop env tb hn k \<longleftrightarrow> (\<exists>i<k. cm_Has (set_cmap env) (join_with ''.'' (drop i hn)) tb)"
  by (induction k) (auto simp: less_Suc_eq)

text \<open>The joined label suffixes of a name are the name and what follows one of its dots.\<close>

lemma label_suffixes:
  "(\<exists>i<length (split_on c h). 0 < i \<and> e = join_with [c] (drop i (split_on c h))) \<longleftrightarrow> (\<exists>p. h = p @ c # e)"
proof (induction h)
  case (Cons x xs)
  show ?case
  proof (cases "x = c")
    case True
    have "(\<exists>i<length (split_on c (x # xs)). 0 < i \<and> e = join_with [c] (drop i (split_on c (x # xs)))) \<longleftrightarrow>
        (\<exists>j<length (split_on c xs). e = join_with [c] (drop j (split_on c xs)))"
      using True by (auto simp: gr0_conv_Suc)
    also have "\<dots> \<longleftrightarrow> e = xs \<or> (\<exists>j<length (split_on c xs). 0 < j \<and> e = join_with [c] (drop j (split_on c xs)))"
      by (metis drop_0 gr0I join_split_on length_greater_0_conv split_on_not_Nil)
    also have "\<dots> \<longleftrightarrow> (\<exists>p. x # xs = p @ c # e)"
      unfolding Cons.IH by (auto simp: True Cons_eq_append_conv)
    finally show ?thesis .
  next
    case False
    obtain y ys where ys: "split_on c xs = y # ys" by (meson neq_Nil_conv split_on_not_Nil)
    then have "(\<exists>i<length (split_on c (x # xs)). 0 < i \<and> e = join_with [c] (drop i (split_on c (x # xs)))) \<longleftrightarrow>
        (\<exists>i<length (split_on c xs). 0 < i \<and> e = join_with [c] (drop i (split_on c xs)))"
      using False by (auto simp: gr0_conv_Suc)
    also have "\<dots> \<longleftrightarrow> (\<exists>p. x # xs = p @ c # e)"
      unfolding Cons.IH using False by (auto simp: Cons_eq_append_conv)
    finally show ?thesis .
  qed
qed simp

definition entry_matches :: "string \<Rightarrow> string \<Rightarrow> bool" where
  "entry_matches h e \<longleftrightarrow> h = e \<or> (\<exists>p. h = p @ ''.'' @ e)"

lemma label_suffixes_entry:
  "(\<exists>i<length (split_on (CHR ''.'') h). e = join_with ''.'' (drop i (split_on (CHR ''.'') h))) \<longleftrightarrow> entry_matches h e"
  using label_suffixes [of "CHR ''.''" h e]
  by (auto simp: entry_matches_def join_split_on)
    (metis drop_0 gr0I join_split_on, metis drop_0 join_split_on length_greater_0_conv split_on_not_Nil)+

lemma filter_Match_iff:
  "filter_Match env d isProxy f \<longleftrightarrow>
     CHR ''.'' \<in> set (hostname d) \<and>
     (\<exists>e. entry_matches (hostname d) e \<and> cm_Has (set_cmap env) e (if isProxy then proxies f else directs f))"
proof -
  let ?hn = "split_on (CHR ''.'') (hostname d)"
  have "length ?hn \<le> 1 \<longleftrightarrow> CHR ''.'' \<notin> set (hostname d)"
    by (metis One_nat_def Suc_leI le_antisym length_greater_0_conv order_refl split_on_not_Nil split_on_singleton_iff)
  moreover have "(\<exists>i<length ?hn. cm_Has (set_cmap env) (join_with ''.'' (drop i ?hn)) tb) \<longleftrightarrow>
      (\<exists>e. entry_matches (hostname d) e \<and> cm_Has (set_cmap env) e tb)" for tb
    using label_suffixes_entry [of "hostname d"] by metis
  ultimately show ?thesis by (auto simp: filter_Match_def Let_def match_loop_iff)
qed

subsection \<open>Probing\<close>

definition probe_ok :: "('m, 't) filter_env \<Rightarrow> ('m, 't) Filter \<Rightarrow> string \<Rightarrow> nat \<Rightarrow> bool" where
  "probe_ok env f addr moment \<longleftrightarrow>
     (case livenessProbe f of Some p \<Rightarrow> p | None \<Rightarrow> tcpLivenessProbe (fl_dial env)) moment addr (fl_timeout f) = None"

text \<open>One round for a cached domain: the probe works on the item it finds in the cache.\<close>

definition probe_round :: "('m, 't) filter_env \<Rightarrow> string \<Rightarrow> ('m, 't) Filter \<Rightarrow> nat \<times> int \<Rightarrow> ('m, 't) Filter" where
  "probe_round env dm f p =
     (case cm_Get (item_cmap env) dm (fl_cache f) of
        None \<Rightarrow> f
      | Some it \<Rightarrow> probe_end env (fst p) (snd p) (dm, it) f)"

text \<open>Successive probes are at most \<open>alive\<close> seconds apart.\<close>

fun close_times :: "int \<Rightarrow> int list \<Rightarrow> bool" where
  "close_times alive (a # b # ts) \<longleftrightarrow> b - a \<le> alive \<and> close_times alive (b # ts)"
| "close_times alive _ \<longleftrightarrow> True"

definition item_at :: "('m, 't) filter_env \<Rightarrow> string \<Rightarrow> ('m, 't) Filter \<Rightarrow> filter_item option" where
  "item_at env dm f = cm_Get (item_cmap env) dm (fl_cache f)"

lemma probe_round_frame [simp]:
  "intelligent (probe_round env dm f p) = intelligent f" "proxies (probe_round env dm f p) = proxies f"
  "directs (probe_round env dm f p) = directs f" "aliveThreshold (probe_round env dm f p) = aliveThreshold f"
  "livenessProbe (probe_round env dm f p) = livenessProbe f" "fl_timeout (probe_round env dm f p) = fl_timeout f"
  by (simp_all add: probe_round_def probe_end_def split: option.splits)

lemma probe_rounds_frame [simp]:
  "intelligent (foldl (probe_round env dm) f ps) = intelligent f"
  "proxies (foldl (probe_round env dm) f ps) = proxies f"
  "directs (foldl (probe_round env dm) f ps) = directs f"
  "aliveThreshold (foldl (probe_round env dm) f ps) = aliveThreshold f"
  by (induction ps arbitrary: f) simp_all

lemma probe_round_item:
  assumes "cmap_laws (item_cmap env)" "item_at env dm f = Some it"
    and "t - lastActiveTime it \<le> aliveThreshold f \<or> fi_success it = 0 \<and> fi_failure it = 0"
  shows "item_at env dm (probe_round env dm f (m, t)) = Some
    (if probe_ok env f (fi_addr it) m then it\<lparr>fi_success := fi_success it + 1, lastActiveTime := t\<rparr>
     else it\<lparr>fi_failure := fi_failure it + 1, lastActiveTime := t\<rparr>)"
proof -
  have "probe_item env m t f it =
      (if probe_ok env f (fi_addr it) m then it\<lparr>fi_success := fi_success it + 1, lastActiveTime := t\<rparr>
       else it\<lparr>fi_failure := fi_failure it + 1, lastActiveTime := t\<rparr>)"
    using assms(3) by (cases it) (auto simp: probe_item_def probe_ok_def Let_def split: option.splits)
  with assms(1,2) show ?thesis by (simp add: item_at_def probe_round_def probe_end_def cmap_Set)
qed

lemma probe_rounds_item:
  assumes "cmap_laws (item_cmap env)"
  shows "item_at env dm f = Some it \<Longrightarrow> ps \<noteq> [] \<Longrightarrow>
    (snd (hd ps) - lastActiveTime it \<le> aliveThreshold f \<or> fi_success it = 0 \<and> fi_failure it = 0) \<Longrightarrow>
    close_times (aliveThreshold f) (map snd ps) \<Longrightarrow>
    item_at env dm (foldl (probe_round env dm) f ps) = Some
      (it\<lparr>fi_success := fi_success it + of_nat (length (filter (\<lambda>p. probe_ok env f (fi_addr it) (fst p)) ps)),
          fi_failure := fi_failure it + of_nat (length (filter (\<lambda>p. \<not> probe_ok env f (fi_addr it) (fst p)) ps)),
          lastActiveTime := snd (last ps)\<rparr>)"
proof (induction ps arbitrary: f it)
  case (Cons p ps)
  obtain m t where p: "p = (m, t)" by (cases p)
  define it1 where "it1 = (if probe_ok env f (fi_addr it) m then it\<lparr>fi_success := fi_success it + 1, lastActiveTime := t\<rparr>
     else it\<lparr>fi_failure := fi_failure it + 1, lastActiveTime := t\<rparr>)"
  have it1: "item_at env dm (probe_round env dm f (m, t)) = Some it1"
    using probe_round_item [OF assms Cons.prems(1), of t m] Cons.prems(3) by (simp add: p it1_def)
  have keep: "fi_addr it1 = fi_addr it" "lastActiveTime it1 = t" by (simp_all add: it1_def)
  have ok: "probe_ok env (probe_round env dm f (m, t)) = probe_ok env f" by (simp add: probe_ok_def fun_eq_iff)
  show ?case
  proof (cases ps)
    case Nil
    then show ?thesis using it1 by (cases it) (simp add: p it1_def)
  next
    case (Cons q qs)
    have "item_at env dm (foldl (probe_round env dm) (probe_round env dm f (m, t)) ps) = Some
      (it1\<lparr>fi_success := fi_success it1 + of_nat (length (filter (\<lambda>p. probe_ok env f (fi_addr it1) (fst p)) ps)),
          fi_failure := fi_failure it1 + of_nat (length (filter (\<lambda>p. \<not> probe_ok env f (fi_addr it1) (fst p)) ps)),
          lastActiveTime := snd (last ps)\<rparr>)"
      using Cons.IH [OF it1] Cons.prems(4) Cons by (simp add: ok keep p)
    then show ?thesis using Cons by (cases it) (simp add: p it1_def add.assoc)
  qed
qed simp

subsection \<open>Properties\<close>

text \<open>C21. Matching is by suffix of labels: a domain is in a table when its host name has a dot and the
  table holds the name itself or what follows one of its dots.\<close>

theorem filter_match_suffix:
  "filter_Match env d isProxy f \<longleftrightarrow>
     CHR ''.'' \<in> set (hostname d) \<and>
     (\<exists>e. (hostname d = e \<or> (\<exists>p. hostname d = p @ ''.'' @ e)) \<and>
          cm_Has (set_cmap env) e (if isProxy then proxies f else directs f))"
  by (simp add: filter_Match_iff entry_matches_def)

text \<open>Intelligent routing of a domain that is in neither table: after it is added and probed, the
  probes never more than the alive threshold apart, it goes through the proxy exactly when the
  probes that succeeded do not outnumber those that failed, and both numbers are reported; before
  the first probe, and again when no probe was made for the alive threshold, it goes direct.\<close>

theorem filter_routing:
  fixes env :: "('m, 't) filter_env"
  assumes cm: "cmap_laws (item_cmap env)"
    and new: "item_at env (hostname d) f = None"
    and unmatched: "\<not> filter_Match env (hostname d) True f" "\<not> filter_Match env (hostname d) False f"
    and mode: "intelligent f \<notin> {''direct'', ''proxy''}"
    and f': "f' = foldl (probe_round env (hostname d)) (filter_Add env d addr f) ps"
    and times: "close_times (aliveThreshold f) (map snd ps)" "aliveThreshold f \<le> now" "length ps < 2 ^ 64"
    and counts: "S = length (filter (\<lambda>p. probe_ok env f addr (fst p)) ps)" "F = length ps - S"
  shows "IsProxy env now d f' =
    (ps \<noteq> [] \<and> S \<le> F \<and> now - snd (last ps) < aliveThreshold f, True, of_nat F, of_nat S)"
proof -
  let ?dm = "hostname d"
  let ?it = "\<lparr>fi_addr = addr, fi_success = 0, fi_failure = 0, lastActiveTime = 0\<rparr>"
  let ?f = "filter_Add env d addr f"
  have add: "?f = f\<lparr>fl_cache := cm_SetIfAbsent (item_cmap env) ?dm ?it (fl_cache f)\<rparr>"
    using unmatched by (simp add: filter_Add_def Let_def)
  have it: "item_at env ?dm ?f = Some ?it"
    using new cm by (simp add: add item_at_def cmap_SetIfAbsent)
  have ok: "probe_ok env ?f = probe_ok env f" by (simp add: add probe_ok_def fun_eq_iff)
  have F: "F = length (filter (\<lambda>p. \<not> probe_ok env f addr (fst p)) ps)"
    using counts sum_length_filter_compl [of "\<lambda>p. probe_ok env f addr (fst p)" ps] by simp
  have match: "filter_Match env ?dm b f' = False" for b
    using unmatched by (cases b) (simp_all add: f' filter_Match_iff add)
  have item: "item_at env ?dm f' = Some \<lparr>fi_addr = addr, fi_success = of_nat S, fi_failure = of_nat F,
      lastActiveTime = (if ps = [] then 0 else snd (last ps))\<rparr>"
  proof (cases "ps = []")
    case True
    then show ?thesis using it by (simp add: f' counts F)
  next
    case False
    with probe_rounds_item [OF cm it False] times(1) show ?thesis
      by (simp add: f' add [THEN arg_cong [of _ _ aliveThreshold]] ok counts(1) F)
  qed
  have le: "S \<le> F \<longleftrightarrow> (of_nat S :: 64 word) \<le> of_nat F"
  proof -
    have "S < 2 ^ 64" "F < 2 ^ 64" using times(3) counts le_less_trans [OF length_filter_le times(3)] by auto
    then show ?thesis by (simp add: word_le_nat_alt unat_of_nat take_bit_eq_mod)
  qed
  have frame: "intelligent f' = intelligent f" "aliveThreshold f' = aliveThreshold f"
    by (simp_all add: f' add)
  from mode have "intelligent f \<noteq> ''direct''" "intelligent f \<noteq> ''proxy''" by simp_all
  with item times(2) show ?thesis
    by (auto simp: IsProxy_def Let_def match item_at_def le frame)
qed

definition example_filter_env :: "((string, filter_item) alist, (string, unit) alist) filter_env" where
  "example_filter_env = \<lparr>item_cmap = alist_cmap, set_cmap = alist_cmap, fl_dial = (\<lambda>m _ _. if even m then Some EOF else None),
     fl_read = (\<lambda>_. Inr ''''), fl_not_exist = (\<lambda>_. True)\<rparr>"

theorem filter_routing_witness:
  "IsProxy example_filter_env 2100 ''foo.com''
     (foldl (probe_round example_filter_env (hostname ''foo.com''))
       (filter_Add example_filter_env ''foo.com'' ''foo.com:80'' (filter_New example_filter_env ''intelligent'' []))
       [(0, 2000), (1, 2030)]) = (True, True, 1, 1)"
proof -
  let ?f = "filter_New example_filter_env ''intelligent'' []"
  have h: "hostname ''foo.com'' = ''foo.com''"
    by (simp add: hostname_def trim_prefix_def has_prefix_def SplitHostPort_def break_last_def)
  have fields: "item_at example_filter_env dm ?f = None" "cm_Has (set_cmap example_filter_env) e (proxies ?f) = False"
    "cm_Has (set_cmap example_filter_env) e (directs ?f) = False" "intelligent ?f = ''intelligent''"
    "aliveThreshold ?f = 1800" "livenessProbe ?f = None" for dm e
    by (simp_all add: item_at_def filter_New_def example_filter_env_def cmap_simps [OF alist_cmap_laws] defaultAliveThreshold_def)
  have "probe_ok example_filter_env ?f a m \<longleftrightarrow> odd m" for a m
  proof -
    have "fl_dial example_filter_env = (\<lambda>m _ _. if even m then Some EOF else None)" by (simp add: example_filter_env_def)
    then show ?thesis by (simp add: probe_ok_def fields tcpLivenessProbe_def)
  qed
  moreover have "cmap_laws (item_cmap example_filter_env)" by (simp add: example_filter_env_def alist_cmap_laws)
  ultimately show ?thesis
    using filter_routing [of example_filter_env "''foo.com''" ?f _ "''foo.com:80''" "[(0, 2000), (1, 2030)]" 2100, OF _ _ _ _ _ refl _ _ _ refl refl]
    by (simp add: fields filter_Match_iff)
qed

end
