(* ===== verification/Routing.thy ===== *)
theory Routing
  imports Service_Common Domain_Filter
begin

section \<open>Choosing and trying a route\<close>

text \<open>
  The HTTP and the SOCKS5 service decide alike whether a request would come back to the service itself, load the same
  lists of domains, and try a parent several times with \<open>backoff.Retry\<close>. The code is written twice in the repository; its
  model is shared here, parameterised by what the services take from their configuration.
\<close>

subsection \<open>Requests for the service itself\<close>

text \<open>\<open>net.IP.Equal\<close>; two \<open>nil\<close> addresses are equal.\<close>

definition IP_Equal :: "bytes \<Rightarrow> bytes \<Rightarrow> bool" where
  "IP_Equal x y \<longleftrightarrow>
     (if length x = length y then x = y
      else if length x = 4 \<and> length y = 16 then v4_prefix @ x = y
      else if length x = 16 \<and> length y = 4 then x = v4_prefix @ y
      else False)"

text \<open>A request is for the service itself when it names its port and an address of it: the one that the client connected to,
  one of the host, or one of those in the configuration. The addresses of the requested host come from \<open>lookup\<close>.\<close>

definition dead_loop ::
  "(string \<Rightarrow> 's \<Rightarrow> bytes list \<times> 's) \<Rightarrow> bytes list result \<Rightarrow> string list \<Rightarrow> string \<Rightarrow> string \<Rightarrow> 's \<Rightarrow> bool \<times> 's" where
  "dead_loop lookup systemIPs localIPS inLocalAddr host sf =
     (case SplitHostPort inLocalAddr of
        Inl _ \<Rightarrow> (False, sf)
      | Inr (inIP, inPort) \<Rightarrow>
          (case SplitHostPort host of
             Inl _ \<Rightarrow> (False, sf)
           | Inr (outDomain, outPort) \<Rightarrow>
               if inPort = outPort then
                 (case lookup outDomain sf of
                    (outIPs, sf) \<Rightarrow>
                      if list_ex (\<lambda>ip. IP_String ip = inIP) outIPs then (True, sf)
                      else case systemIPs of
                             Inl _ \<Rightarrow> (False, sf)
                           | Inr ips \<Rightarrow>
                               (list_ex (\<lambda>localIP. list_ex (IP_Equal localIP) outIPs)
                                  (ips @ map (\<lambda>ip. To4 (ParseIP ip)) localIPS), sf))
               else (False, sf)))"

lemma dead_loop_frame:
  "dead_loop lookup ips l a h sf = (r, sf') \<Longrightarrow> sf' = sf \<or> (\<exists>d out. lookup d sf = (out, sf'))"
  by (auto simp: dead_loop_def split: sum.splits prod.splits if_splits)

text \<open>The local address of a direct connection: with \<open>BindListen\<close> the one that the client connected to, unless it is in a
  private network.\<close>

definition bind_local :: "bool \<Rightarrow> (string \<Rightarrow> bool) \<Rightarrow> string \<Rightarrow> string option" where
  "bind_local bindListen isIntranet localAddr =
     (let localIP = (case SplitHostPort localAddr of Inr (h, _) \<Rightarrow> h | Inl _ \<Rightarrow> '''') in
      if bindListen \<and> \<not> isIntranet localIP then Some (localIP @ '':0'') else None)"

subsection \<open>The filter\<close>

text \<open>A new filter, and the error that remains in \<open>err\<close> after its two files have been loaded.\<close>

definition load_filter ::
  "('f, 't) filter_env \<Rightarrow> string \<Rightarrow> int \<Rightarrow> int \<Rightarrow> string \<Rightarrow> string \<Rightarrow> error option \<times> ('f, 't) Filter" where
  "load_filter env mode timeout interval proxyFile directFile =
     (let f = filter_New env mode [OptTimeout timeout, OptLivenessPeriod interval];
          f = snd (LoadProxyFile env proxyFile f)
      in case LoadDirectFile env directFile f of
           (Inl e, f) \<Rightarrow> (Some e, f)
         | (Inr _, f) \<Rightarrow> (None, f))"

subsection \<open>Retrying\<close>

text \<open>
  \<open>backoff.Retry\<close> as the code uses it. An operation is given the number of the attempt and the state;
  \<open>attempts\<close> runs it until it succeeds, panics or was retried \<open>n\<close> times. With a context the retrying
  may stop earlier, with an error, and the error may be that of the context.
\<close>

type_synonym ('s, 'a) retry = "nat \<Rightarrow> (nat \<Rightarrow> 's \<Rightarrow> 'a result \<times> 's) \<Rightarrow> 's \<Rightarrow> 'a result \<times> 's"

fun attempts :: "(nat \<Rightarrow> 's \<Rightarrow> 'a result \<times> 's) \<Rightarrow> nat \<Rightarrow> nat \<Rightarrow> 's \<Rightarrow> 'a result \<times> 's" where
  "attempts op k 0 s = op k s"
| "attempts op k (Suc n) s =
     (case op k s of (r, s') \<Rightarrow> if is_ok r \<or> panics r then (r, s') else attempts op (Suc k) n s')"

definition retry_law :: "('s, 'a) retry \<Rightarrow> bool" where
  "retry_law R \<longleftrightarrow> (\<forall>n op s. \<exists>m \<le> n. R n op s = attempts op 0 m s \<or>
     (\<exists>e. \<not> is_ok (fst (attempts op 0 m s)) \<and> \<not> panics (fst (attempts op 0 m s)) \<and> R n op s = (Inl e, snd (attempts op 0 m s))))"

lemma attempts_state:
  assumes "retry_law R" "R n op s = (r, s')"
  obtains m r' where "attempts op 0 m s = (r', s')" "is_ok r \<Longrightarrow> r' = r"
proof -
  from assms(1) obtain m where "m \<le> n" "R n op s = attempts op 0 m s \<or>
     (\<exists>e. \<not> is_ok (fst (attempts op 0 m s)) \<and> \<not> panics (fst (attempts op 0 m s)) \<and> R n op s = (Inl e, snd (attempts op 0 m s)))"
    unfolding retry_law_def by blast
  then have "snd (attempts op 0 m s) = s' \<and> (is_ok r \<longrightarrow> fst (attempts op 0 m s) = r)" using assms(2) by (metis fst_conv snd_conv is_ok_simps(2))
  then show thesis using that [of m "fst (attempts op 0 m s)"] by (metis prod.collapse)
qed

lemma attempts_retry_law: "retry_law (\<lambda>n op s. attempts op 0 n s)"
  by (auto simp: retry_law_def)

end
