(* ===== verification/Http_Service.thy ===== *)
theory Http_Service
  imports Httpc Routing Binding
begin

section \<open>services/http: the HTTP proxy\<close>

text \<open>
  The service decodes a request, authenticates it, decides between a direct connection and a
  parent proxy, connects, forwards the head of the request and joins the two connections. The
  resolver is one object that the service, its authentication centre and its balancer
  share: it is kept once, in \<open>h_resolver\<close>, and lent to the others for a call.

  What the code calls outside the repository, and the dialling of connections, are fields of
  \<open>http_env\<close>: the classification of hosts of \<open>extnet\<close>, the system resolver, the addresses of the host,
  the loading of certificates and files, \<open>meter.ParseBytes\<close>, the parsing of the SSH settings and of
  a URL, the SSH handshake, \<open>dialParent\<close> (its outcome at each attempt, for every kind of parent) and
  the dialler for direct connections (given the local address to bind, if any). \<open>backoff.Retry\<close> is an argument of its own.
  Encryption with a shared key (\<open>LocalKey\<close>, \<open>ParentKey\<close>), compression and rate limiting are transparent
  wrappers of the connections and left out.
\<close>

record http_config =
  hc_ParentType :: string
  hc_Parent :: "string list"
  hc_LocalType :: string
  hc_Local :: string
  hc_CaCertFile :: string
  hc_CertFile :: string
  hc_KeyFile :: string
  hc_Always :: bool
  hc_Intelligent :: string
  hc_ProxyFile :: string
  hc_DirectFile :: string
  hc_FilterTimeout :: int
  hc_FilterInterval :: int
  hc_AuthFile :: string
  hc_UserPasses :: "string list"
  hc_AuthURL :: string
  hc_AuthTimeout :: int
  hc_AuthOkCode :: int
  hc_AuthRetry :: nat
  hc_DNSAddr :: string
  hc_DNSTTL :: int
  hc_LbMethod :: string
  hc_LbTimeout :: int
  hc_LbRetryTime :: int
  hc_HashTarget :: bool
  hc_RateLimit :: string
  hc_LocalIPS :: "string list"
  hc_BindListen :: bool
  hc_RawProxyURL :: string

record ('m, 'd, 'f, 't, 'u, 'url) http_env =
  he_auth :: "('m, 'd) auth_env"
  he_lb :: "'d lb_env"
  he_filter :: "('f, 't) filter_env"
  he_users :: "('u, nat) cmap"
  he_selectors :: registry
  he_draws :: "nat \<Rightarrow> draws"
  IsDomain :: "string \<Rightarrow> bool"
  IsIntranet :: "string \<Rightarrow> bool"
  LookupIP :: "string \<Rightarrow> bytes list result"
  SystemNetworkIPs :: "bytes list result"
  LoadPair :: "string \<Rightarrow> string \<Rightarrow> error option"
  ReadFile :: "string \<Rightarrow> error option"
  ParseBytes :: "string \<Rightarrow> nat result"
  SSHParse :: "error option"
  url_Parse :: "string \<Rightarrow> 'url result"
  ssh_Dial :: "string \<Rightarrow> error option"
  Listen :: "string \<Rightarrow> error option"
  dialParent :: "nat \<Rightarrow> string \<Rightarrow> conn result"
  Dial :: "string option \<Rightarrow> string \<Rightarrow> conn result"

text \<open>A connection in the hands of \<open>handle\<close>: connected but not entered yet, joined to its target, or released.
  Besides the two connections as they are, the record has them as they were when they were joined.\<close>

record handler =
  hd_src :: string
  hd_req :: HttpRequest
  hd_proxied :: bool
  hd_lbAddr :: string
  hd_in :: conn
  hd_out :: conn
  hd_bind :: binding
  hd_phase :: phase
  hd_closed :: bool

record ('m, 'd, 'f, 't, 'u, 'url) HTTP =
  h_cfg :: http_config
  h_rateLimit :: nat
  h_proxyURL :: "'url option"
  h_listening :: nat
  h_filters :: "('f, 't) Filter option"
  h_center :: "('m, 'd) Center option"
  h_lb :: "'d Balanced option"
  h_resolver :: "'d Resolver option"
  h_ssh :: bool
  h_userConns :: 'u
  h_handlers :: "handler list"
  h_cancelled :: bool

definition http_New :: "('m, 'd, 'f, 't, 'u, 'url) http_env \<Rightarrow> http_config \<Rightarrow> ('m, 'd, 'f, 't, 'u, 'url) HTTP" where
  "http_New env cfg = \<lparr>h_cfg = cfg, h_rateLimit = 0, h_proxyURL = None, h_listening = 0, h_filters = None, h_center = None,
     h_lb = None, h_resolver = None, h_ssh = False, h_userConns = cm_New (he_users env), h_handlers = [], h_cancelled = False\<rparr>"

subsection \<open>Starting\<close>

definition http_check_parent :: "('m, 'd, 'f, 't, 'u, 'url) http_env \<Rightarrow> http_config \<Rightarrow> unit result" where
  "http_check_parent env cfg =
     (if hc_Parent cfg = [] then Inr ()
      else if hc_ParentType cfg = '''' then Inl (ErrMsg ''parent type required'')
      else if hc_ParentType cfg \<notin> set [''tcp'', ''tls'', ''stcp'', ''kcp'', ''ssh''] then Inl (ErrMsg ''parent type suport <tcp|tls|stcp|kcp|ssh>'')
      else if hc_LbMethod cfg \<notin> set (Methods (he_selectors env)) then Inl (ErrMsg ''load balance method'')
      else if hc_ParentType cfg = ''ssh'' \<and> SSHParse env \<noteq> None then Inl (ErrMsg ''parse ssh config'')
      else Inr ())"

definition http_check_tls :: "('m, 'd, 'f, 't, 'u, 'url) http_env \<Rightarrow> http_config \<Rightarrow> unit result" where
  "http_check_tls env cfg =
     (if hc_LocalType cfg = ''tls'' \<or> (hc_ParentType cfg = ''tls'' \<and> hc_Parent cfg \<noteq> []) then
        if hc_CertFile cfg = '''' \<or> hc_KeyFile cfg = '''' then Inl (ErrMsg ''cert file and key file required'')
        else case LoadPair env (hc_CertFile cfg) (hc_KeyFile cfg) of
               Some err \<Rightarrow> Inl err
             | None \<Rightarrow>
                 if hc_CaCertFile cfg \<noteq> '''' \<and> ReadFile env (hc_CaCertFile cfg) \<noteq> None then Inl (ErrMsg ''read ca file'')
                 else Inr ()
      else Inr ())"

definition http_check_rest :: "('m, 'd, 'f, 't, 'u, 'url) http_env \<Rightarrow> http_config \<Rightarrow> (nat \<times> 'url option) result" where
  "http_check_rest env cfg =
     bindR (if hc_RateLimit cfg \<noteq> ''0'' \<and> hc_RateLimit cfg \<noteq> '''' then
              case ParseBytes env (hc_RateLimit cfg) of Inl _ \<Rightarrow> Inl (ErrMsg ''parse rate limit size'') | Inr sz \<Rightarrow> Inr sz
            else Inr 0) (\<lambda>rate.
       if hc_RawProxyURL cfg \<noteq> '''' then
         if hc_ParentType cfg \<notin> set [''tls'', ''tcp''] then Inl (ErrMsg ''proxyURL only support one of <tls|tcp>'')
         else case ParseProxyURL (url_Parse env) (hc_RawProxyURL cfg) of
                Inl _ \<Rightarrow> Inl (ErrMsg ''new proxyURL'')
              | Inr u \<Rightarrow> Inr (rate, Some u)
       else Inr (rate, None))"

definition http_inspectConfig ::
  "('m, 'd, 'f, 't, 'u, 'url) http_env \<Rightarrow> ('m, 'd, 'f, 't, 'u, 'url) HTTP \<Rightarrow> unit result \<times> ('m, 'd, 'f, 't, 'u, 'url) HTTP" where
  "http_inspectConfig env sf =
     (let cfg = (if hc_Parent (h_cfg sf) = [''''] then (h_cfg sf)\<lparr>hc_Parent := []\<rparr> else h_cfg sf);
          sf = sf\<lparr>h_cfg := cfg\<rparr>
      in case bindR (http_check_parent env cfg) (\<lambda>_. bindR (http_check_tls env cfg) (\<lambda>_. http_check_rest env cfg)) of
           Inl e \<Rightarrow> (Inl e, sf)
         | Inr (rate, u) \<Rightarrow> (Inr (), sf\<lparr>h_rateLimit := rate, h_proxyURL := u\<rparr>))"

text \<open>A parent is written \<open>host:port\<close> or \<open>host:port@weight\<close>.\<close>

definition parent_config :: "http_config \<Rightarrow> string \<Rightarrow> Config" where
  "parent_config cfg addr = weighted_config (hc_LbRetryTime cfg) (hc_LbTimeout cfg) (split_on (CHR ''@'') addr)"

definition http_init_auth ::
  "('m, 'd, 'f, 't, 'u, 'url) http_env \<Rightarrow> http_config \<Rightarrow> 'd Resolver option \<Rightarrow> ('m, 'd) Center option result" where
  "http_init_auth env cfg resolver =
     (if hc_AuthFile cfg \<noteq> '''' \<or> hc_UserPasses cfg \<noteq> [] \<or> hc_AuthURL cfg \<noteq> '''' then
        let opts = (if resolver \<noteq> None then [AuthDNSServer resolver] else []) @
                   (if hc_AuthURL cfg \<noteq> '''' then [AuthURL (hc_AuthURL cfg) (hc_AuthTimeout cfg) (hc_AuthOkCode cfg) (hc_AuthRetry cfg)] else []);
            center = snd (auth_Add (he_auth env) (hc_UserPasses cfg) (auth_New (he_auth env) opts))
        in if hc_AuthFile cfg \<noteq> '''' then
             (case auth_LoadFromFile (he_auth env) (hc_AuthFile cfg) center of
                (Inl _, _) \<Rightarrow> Inl (ErrMsg ''load auth-file failed'')
              | (Inr _, center) \<Rightarrow> Inr (Some center))
           else Inr (Some center)
      else Inr None)"

text \<open>The filter, and the error that remains in \<open>err\<close> after its two files have been loaded.\<close>

definition http_init_filter :: "('m, 'd, 'f, 't, 'u, 'url) http_env \<Rightarrow> http_config \<Rightarrow> error option \<times> ('f, 't) Filter" where
  "http_init_filter env cfg =
     load_filter (he_filter env) (hc_Intelligent cfg) (hc_FilterTimeout cfg) (hc_FilterInterval cfg) (hc_ProxyFile cfg) (hc_DirectFile cfg)"

definition http_resolve ::
  "('m, 'd, 'f, 't, 'u, 'url) http_env \<Rightarrow> int \<Rightarrow> int \<Rightarrow> string \<Rightarrow> ('m, 'd, 'f, 't, 'u, 'url) HTTP \<Rightarrow> string \<times> ('m, 'd, 'f, 't, 'u, 'url) HTTP" where
  "http_resolve env now later address sf =
     (case outil_Resolve (env_cmap (he_lb env)) (env_dns (he_lb env)) now later (h_resolver sf) address of
        (a, res) \<Rightarrow> (a, sf\<lparr>h_resolver := res\<rparr>))"

definition http_dialSSH ::
  "('m, 'd, 'f, 't, 'u, 'url) http_env \<Rightarrow> int \<Rightarrow> int \<Rightarrow> string \<Rightarrow> ('m, 'd, 'f, 't, 'u, 'url) HTTP \<Rightarrow> error option \<times> ('m, 'd, 'f, 't, 'u, 'url) HTTP" where
  "http_dialSSH env now later lAddr sf = (case http_resolve env now later lAddr sf of (a, sf) \<Rightarrow> (ssh_Dial env a, sf))"

text \<open>The SSH client is dialled through the balancer, which is \<open>nil\<close> when there is no parent.\<close>

definition http_init_ssh ::
  "('m, 'd, 'f, 't, 'u, 'url) http_env \<Rightarrow> int \<Rightarrow> int \<Rightarrow> ('m, 'd, 'f, 't, 'u, 'url) HTTP \<Rightarrow> unit result \<times> ('m, 'd, 'f, 't, 'u, 'url) HTTP" where
  "http_init_ssh env now later sf =
     (case h_lb sf of
        None \<Rightarrow> (Inl (Panic NilDereference), sf)
      | Some lb \<Rightarrow>
          (case lb_Select (he_lb env) (he_draws env 0) '''' lb of
             (Inl p, lb) \<Rightarrow> (Inl p, sf\<lparr>h_lb := Some lb\<rparr>)
           | (Inr a, lb) \<Rightarrow>
               (case http_resolve env now later a (sf\<lparr>h_lb := Some lb\<rparr>) of
                  (a, sf) \<Rightarrow>
                    (case http_dialSSH env now later a sf of
                       (Some _, sf) \<Rightarrow> (Inl (ErrMsg ''dial ssh fail''), sf)
                     | (None, sf) \<Rightarrow> (Inr (), sf\<lparr>h_ssh := True\<rparr>)))))"

text \<open>The part for parents: what is left in \<open>err\<close>, unless it panics.\<close>

definition http_init_parents ::
  "('m, 'd, 'f, 't, 'u, 'url) http_env \<Rightarrow> ('m, 'd, 'f, 't, 'u, 'url) HTTP \<Rightarrow> error option result \<times> ('m, 'd, 'f, 't, 'u, 'url) HTTP" where
  "http_init_parents env sf =
     (if hc_Parent (h_cfg sf) = [] then (Inr None, sf)
      else case http_init_filter env (h_cfg sf) of
             (err, f) \<Rightarrow>
               (case lb_New (he_selectors env) (hc_LbMethod (h_cfg sf)) (map (parent_config (h_cfg sf)) (hc_Parent (h_cfg sf)))
                       [WithDNSServer (h_resolver sf)] of
                  Inl p \<Rightarrow> (Inl p, sf\<lparr>h_filters := Some f\<rparr>)
                | Inr lb \<Rightarrow> (Inr err, sf\<lparr>h_filters := Some f, h_lb := Some lb\<rparr>)))"

definition http_InitService ::
  "('m, 'd, 'f, 't, 'u, 'url) http_env \<Rightarrow> int \<Rightarrow> int \<Rightarrow> ('m, 'd, 'f, 't, 'u, 'url) HTTP \<Rightarrow> unit result \<times> ('m, 'd, 'f, 't, 'u, 'url) HTTP" where
  "http_InitService env now later sf =
     (let cfg = h_cfg sf;
          sf = (if hc_DNSAddr cfg \<noteq> '''' then sf\<lparr>h_resolver := Some (idns_New (env_cmap (he_lb env)) (hc_DNSAddr cfg) (hc_DNSTTL cfg))\<rparr> else sf)
      in case http_init_auth env cfg (h_resolver sf) of
           Inl e \<Rightarrow> (Inl e, sf)
         | Inr center \<Rightarrow>
             (case http_init_parents env (sf\<lparr>h_center := center\<rparr>) of
                (Inl p, sf) \<Rightarrow> (Inl p, sf)
              | (Inr err, sf) \<Rightarrow>
                  (let res = (case err of Some e \<Rightarrow> Inl e | None \<Rightarrow> Inr ())
                   in if hc_ParentType cfg = ''ssh'' then
                        (case http_init_ssh env now later sf of
                           (Inl e, sf) \<Rightarrow> (Inl e, sf)
                         | (Inr _, sf) \<Rightarrow> (res, sf))
                      else (res, sf))))"

definition http_Stop ::
  "('m, 'd, 'f, 't, 'u, 'url) http_env \<Rightarrow> ('m, 'd, 'f, 't, 'u, 'url) HTTP \<Rightarrow> unit result \<times> ('m, 'd, 'f, 't, 'u, 'url) HTTP" where
  "http_Stop env sf =
     (let sf = sf\<lparr>h_cancelled := True, h_listening := 0, h_lb := map_option lb_Close (h_lb sf)\<rparr>
      in if hc_Parent (h_cfg sf) \<noteq> [] \<and> h_filters sf = None then (Inl (Panic NilDereference), sf)
         else let sf = (if hc_Parent (h_cfg sf) \<noteq> [] then sf\<lparr>h_filters := map_option filter_Close (h_filters sf)\<rparr> else sf)
              in if hc_ParentType (h_cfg sf) = ''ssh'' \<and> \<not> h_ssh sf
                 then (Inl (Panic (PanicMsg ''interface conversion: interface is nil, not *ssh.Client'')), sf)
                 else (Inr (), sf\<lparr>h_handlers := foldl (\<lambda>hs (_, i). hs[i := (hs ! i)\<lparr>hd_closed := True\<rparr>]) (h_handlers sf)
                                     (cm_Items (he_users env) (h_userConns sf))\<rparr>))"

fun http_listen :: "('m, 'd, 'f, 't, 'u, 'url) http_env \<Rightarrow> string list \<Rightarrow> ('m, 'd, 'f, 't, 'u, 'url) HTTP \<Rightarrow> unit result \<times> ('m, 'd, 'f, 't, 'u, 'url) HTTP" where
  "http_listen env [] sf = (Inr (), sf)"
| "http_listen env (addr # as) sf =
     (if addr = '''' then http_listen env as sf
      else case Listen env addr of
             Some err \<Rightarrow> (Inl err, sf)
           | None \<Rightarrow> http_listen env as (sf\<lparr>h_listening := Suc (h_listening sf)\<rparr>))"

text \<open>\<open>Start\<close> stops the service when it fails with an error. A panic of \<open>Start\<close> itself leaves \<open>err\<close> unset, so
  that nothing is stopped. The body of \<open>Start\<close>, and \<open>Start\<close> with its deferred function:\<close>

definition http_begin ::
  "('m, 'd, 'f, 't, 'u, 'url) http_env \<Rightarrow> int \<Rightarrow> int \<Rightarrow> ('m, 'd, 'f, 't, 'u, 'url) HTTP \<Rightarrow> unit result \<times> ('m, 'd, 'f, 't, 'u, 'url) HTTP" where
  "http_begin env now later sf =
     (case http_inspectConfig env sf of
        (Inl e, sf) \<Rightarrow> (Inl e, sf)
      | (Inr _, sf) \<Rightarrow>
          (case http_InitService env now later sf of
             (Inl e, sf) \<Rightarrow> (Inl e, sf)
           | (Inr _, sf) \<Rightarrow> http_listen env (split_on (CHR '','') (hc_Local (h_cfg sf))) sf))"

definition http_Start ::
  "('m, 'd, 'f, 't, 'u, 'url) http_env \<Rightarrow> int \<Rightarrow> int \<Rightarrow> ('m, 'd, 'f, 't, 'u, 'url) HTTP \<Rightarrow> unit result \<times> ('m, 'd, 'f, 't, 'u, 'url) HTTP" where
  "http_Start env now later sf =
     (case http_begin env now later sf of
        (r, sf) \<Rightarrow>
          if is_ok r \<or> panics r then (r, sf)
          else case http_Stop env sf of
                 (Inl p, sf) \<Rightarrow> (Inl p, sf)
               | (Inr _, sf) \<Rightarrow> (r, sf))"

subsection \<open>Choosing the route\<close>

text \<open>The addresses of the requested host: through the configured DNS server, or of the system.\<close>

definition loop_outIPs ::
  "('m, 'd, 'f, 't, 'u, 'url) http_env \<Rightarrow> int \<Rightarrow> int \<Rightarrow> string \<Rightarrow> ('m, 'd, 'f, 't, 'u, 'url) HTTP \<Rightarrow> bytes list \<times> ('m, 'd, 'f, 't, 'u, 'url) HTTP" where
  "loop_outIPs env now later outDomain sf =
     (if hc_DNSAddr (h_cfg sf) \<noteq> '''' then
        (case http_resolve env now later outDomain sf of (a, sf) \<Rightarrow> ([ParseIP a], sf))
      else (case LookupIP env outDomain of Inl _ \<Rightarrow> [] | Inr ips \<Rightarrow> ips, sf))"

definition IsDeadLoop ::
  "('m, 'd, 'f, 't, 'u, 'url) http_env \<Rightarrow> int \<Rightarrow> int \<Rightarrow> string \<Rightarrow> string \<Rightarrow> ('m, 'd, 'f, 't, 'u, 'url) HTTP \<Rightarrow> bool \<times> ('m, 'd, 'f, 't, 'u, 'url) HTTP" where
  "IsDeadLoop env now later inLocalAddr host sf =
     dead_loop (loop_outIPs env now later) (SystemNetworkIPs env) (hc_LocalIPS (h_cfg sf)) inLocalAddr host sf"

definition isUseProxy ::
  "('m, 'd, 'f, 't, 'u, 'url) http_env \<Rightarrow> int \<Rightarrow> int \<Rightarrow> string \<Rightarrow> ('m, 'd, 'f, 't, 'u, 'url) HTTP \<Rightarrow> bool result \<times> ('m, 'd, 'f, 't, 'u, 'url) HTTP" where
  "isUseProxy env now later addr sf =
     (if hc_Parent (h_cfg sf) = [] then (Inr False, sf)
      else let host = (case SplitHostPort addr of Inr (h, _) \<Rightarrow> h | Inl _ \<Rightarrow> '''') in
        if IsDomain env host \<and> hc_Always (h_cfg sf) then (Inr True, sf)
        else if \<not> IsIntranet env host then
          (case h_filters sf of
             None \<Rightarrow> (Inl (Panic NilDereference), sf)
           | Some f \<Rightarrow>
               (case IsProxy (he_filter env) now addr f of
                  (useProxy, inMap, _, _) \<Rightarrow>
                    if inMap then (Inr useProxy, sf)
                    else (case http_resolve env now later addr sf of
                            (a, sf) \<Rightarrow> (Inr useProxy, sf\<lparr>h_filters := Some (filter_Add (he_filter env) addr a f)\<rparr>))))
        else (Inr False, sf))"

subsection \<open>Connecting\<close>

text \<open>One attempt to reach a parent. The variable \<open>lbAddr\<close> outlives the attempt.\<close>

definition parent_attempt ::
  "('m, 'd, 'f, 't, 'u, 'url) http_env \<Rightarrow> string \<Rightarrow> string \<Rightarrow> nat \<Rightarrow> ('m, 'd, 'f, 't, 'u, 'url) HTTP \<times> string \<Rightarrow> conn result \<times> ('m, 'd, 'f, 't, 'u, 'url) HTTP \<times> string" where
  "parent_attempt env remote target k s =
     (case s of (sf, lbAddr) \<Rightarrow>
        if hc_ParentType (h_cfg sf) \<noteq> ''ssh'' then
          let selectAddr = (if hc_LbMethod (h_cfg sf) = ''hash'' \<and> hc_HashTarget (h_cfg sf) then target else remote) in
          (case h_lb sf of
             None \<Rightarrow> (Inl (Panic NilDereference), sf, lbAddr)
           | Some lb \<Rightarrow>
               (case lb_Select (he_lb env) (he_draws env k) selectAddr lb of
                  (Inl p, lb) \<Rightarrow> (Inl p, sf\<lparr>h_lb := Some lb\<rparr>, lbAddr)
                | (Inr a, lb) \<Rightarrow> (dialParent env k a, sf\<lparr>h_lb := Some lb\<rparr>, a)))
        else (dialParent env k target, sf, lbAddr))"

definition dialDirect :: "('m, 'd, 'f, 't, 'u, 'url) http_env \<Rightarrow> http_config \<Rightarrow> string \<Rightarrow> string \<Rightarrow> conn result" where
  "dialDirect env cfg addr localAddr = Dial env (bind_local (hc_BindListen cfg) (IsIntranet env) localAddr) addr"

definition http_connect ::
  "('m, 'd, 'f, 't, 'u, 'url) http_env \<Rightarrow> (('m, 'd, 'f, 't, 'u, 'url) HTTP \<times> string, conn) retry \<Rightarrow> peer \<Rightarrow> bool \<Rightarrow> string \<Rightarrow>
   ('m, 'd, 'f, 't, 'u, 'url) HTTP \<Rightarrow> conn result \<times> ('m, 'd, 'f, 't, 'u, 'url) HTTP \<times> string" where
  "http_connect env retry p useProxy target sf =
     (if useProxy then retry 5 (parent_attempt env (RemoteAddr p) target) (sf, '''')
      else case http_resolve env (p_now p) (p_later p) target sf of
             (a, sf) \<Rightarrow> (dialDirect env (h_cfg sf) a (LocalAddr p), sf, ''''))"

text \<open>
  The first bytes: a CONNECT request on a direct route, or through SSH, is answered; otherwise the
  head is forwarded, on such a route without the headers for proxies unless it is a TLS client hello.
\<close>

definition no_proxy_behind :: "http_config \<Rightarrow> bool \<Rightarrow> bool" where
  "no_proxy_behind cfg useProxy \<longleftrightarrow> \<not> useProxy \<or> hc_ParentType cfg = ''ssh''"

definition http_forward :: "http_config \<Rightarrow> HttpRequest \<Rightarrow> bool \<Rightarrow> conn \<Rightarrow> conn \<Rightarrow> unit result \<times> conn \<times> conn" where
  "http_forward cfg req useProxy inConn target =
     (if IsHTTPS req \<and> no_proxy_behind cfg useProxy then
        (case HTTPSReply inConn of (r, inConn) \<Rightarrow> (r, inConn, target))
      else case conn_Write (str_bytes (if no_proxy_behind cfg useProxy \<and> \<not> rq_IsSNI req
                                       then RemoveProxyHeaders (rq_RawHeader req) else rq_RawHeader req)) target of
             (r, target) \<Rightarrow> (r, inConn, target))"

text \<open>The resolver is lent to the centre for the call.\<close>

definition http_decode ::
  "('m, 'd, 'f, 't, 'u, 'url) http_env \<Rightarrow> peer \<Rightarrow> conn \<Rightarrow> ('m, 'd, 'f, 't, 'u, 'url) HTTP \<Rightarrow> HttpRequest result \<times> conn \<times> ('m, 'd, 'f, 't, 'u, 'url) HTTP" where
  "http_decode env p c sf =
     (case httpc_New (he_auth env) p 4096 (map_option (\<lambda>ce. ce\<lparr>au_resolver := h_resolver sf\<rparr>) (h_center sf)) c of
        ((r, center), c) \<Rightarrow>
          (r, c, sf\<lparr>h_center := center, h_resolver := (case center of None \<Rightarrow> h_resolver sf | Some ce \<Rightarrow> au_resolver ce)\<rparr>))"

text \<open>\<open>handle\<close> up to the point where both connections are open and the first bytes are written.\<close>

definition http_open ::
  "('m, 'd, 'f, 't, 'u, 'url) http_env \<Rightarrow> (('m, 'd, 'f, 't, 'u, 'url) HTTP \<times> string, conn) retry \<Rightarrow> peer \<Rightarrow> conn \<Rightarrow>
   ('m, 'd, 'f, 't, 'u, 'url) HTTP \<Rightarrow> unit result \<times> ('m, 'd, 'f, 't, 'u, 'url) HTTP" where
  "http_open env retry p c sf =
     (case http_decode env p c sf of
        (Inl e, _, sf) \<Rightarrow> (Inl e, sf)
      | (Inr req, c, sf) \<Rightarrow>
          (case IsDeadLoop env (p_now p) (p_later p) (LocalAddr p) (rq_Host req) sf of
             (True, sf) \<Rightarrow> (Inl (ErrMsg ''dead loop detected''), sf)
           | (False, sf) \<Rightarrow>
               (case isUseProxy env (p_now p) (p_later p) (rq_Host req) sf of
                  (Inl e, sf) \<Rightarrow> (Inl e, sf)
                | (Inr useProxy, sf) \<Rightarrow>
                    (case http_connect env retry p useProxy (rq_Host req) sf of
                       (Inl e, sf, _) \<Rightarrow> (Inl e, sf)
                     | (Inr target, sf, lbAddr) \<Rightarrow>
                         (case http_forward (h_cfg sf) req useProxy c target of
                            (Inl e, _, _) \<Rightarrow> (Inl e, sf)
                          | (Inr _, c, target) \<Rightarrow>
                              (Inr (), sf\<lparr>h_handlers := h_handlers sf @
                                 [\<lparr>hd_src = RemoteAddr p, hd_req = req, hd_proxied = useProxy, hd_lbAddr = lbAddr, hd_in = c, hd_out = target,
                                   hd_bind = bind_start c target, hd_phase = Connected, hd_closed = False\<rparr>]\<rparr>))))))"

text \<open>The rest of \<open>handle\<close>: the connection is entered and counted, and after the transfer released.\<close>

definition set_handler :: "nat \<Rightarrow> (handler \<Rightarrow> handler) \<Rightarrow> ('m, 'd, 'f, 't, 'u, 'url) HTTP \<Rightarrow> ('m, 'd, 'f, 't, 'u, 'url) HTTP" where
  "set_handler i f sf = sf\<lparr>h_handlers := (h_handlers sf)[i := f (h_handlers sf ! i)]\<rparr>"

definition http_join :: "('m, 'd, 'f, 't, 'u, 'url) http_env \<Rightarrow> nat \<Rightarrow> ('m, 'd, 'f, 't, 'u, 'url) HTTP \<Rightarrow> ('m, 'd, 'f, 't, 'u, 'url) HTTP" where
  "http_join env i sf =
     (let h = h_handlers sf ! i;
          old = cm_Get (he_users env) (hd_src h) (h_userConns sf);
          sf = (case old of None \<Rightarrow> sf | Some j \<Rightarrow> set_handler j (\<lambda>h. h\<lparr>hd_closed := True\<rparr>) sf);
          sf = sf\<lparr>h_userConns := cm_Upsert (he_users env) (hd_src h) i (\<lambda>_ n. n) (h_userConns sf)\<rparr>;
          sf = (if hc_Parent (h_cfg sf) \<noteq> [] then sf\<lparr>h_lb := map_option (lb_ConnsIncrease (hd_lbAddr h)) (h_lb sf)\<rparr> else sf)
      in set_handler i (\<lambda>h. h\<lparr>hd_phase := Joined\<rparr>) sf)"

definition http_release :: "('m, 'd, 'f, 't, 'u, 'url) http_env \<Rightarrow> nat \<Rightarrow> ('m, 'd, 'f, 't, 'u, 'url) HTTP \<Rightarrow> ('m, 'd, 'f, 't, 'u, 'url) HTTP" where
  "http_release env i sf =
     (let h = h_handlers sf ! i;
          sf = sf\<lparr>h_userConns := cm_Remove (he_users env) (hd_src h) (h_userConns sf)\<rparr>;
          sf = (if hc_Parent (h_cfg sf) \<noteq> [] then sf\<lparr>h_lb := map_option (lb_ConnsDecrease (hd_lbAddr h)) (h_lb sf)\<rparr> else sf)
      in set_handler i (\<lambda>h. h\<lparr>hd_phase := Released, hd_closed := True\<rparr>) sf)"

subsection \<open>The running service\<close>

text \<open>
  The service with the health checks and the probes of the filter that are in flight. \<open>handle\<close> is split
  at the points where other goroutines can observe it: a connection is opened, entered, its bytes are
  copied round by round, and it is released when a direction has ended. New connections come in until \<open>Stop\<close> closes the listeners.
  A round of copying left over after the release has no effect on the client's closed connection and is left out.
\<close>

type_synonym ('m, 'd, 'f, 't, 'u, 'url) http_state =
  "('m, 'd, 'f, 't, 'u, 'url) HTTP \<times> nat list \<times> (string \<times> filter_item) list"


inductive http_step ::
  "('m, 'd, 'f, 't, 'u, 'url) http_env \<Rightarrow> (('m, 'd, 'f, 't, 'u, 'url) HTTP \<times> string, conn) retry \<Rightarrow>
   ('m, 'd, 'f, 't, 'u, 'url) http_state \<Rightarrow> ('m, 'd, 'f, 't, 'u, 'url) http_state \<Rightarrow> bool"
  for env :: "('m, 'd, 'f, 't, 'u, 'url) http_env" and retry :: "(('m, 'd, 'f, 't, 'u, 'url) HTTP \<times> string, conn) retry" where
  s_open: "\<not> h_cancelled sf \<Longrightarrow> outbox c = [] \<Longrightarrow> http_open env retry p c sf = (r, sf') \<Longrightarrow> http_step env retry (sf, fl, pl) (sf', fl, pl)"
| s_join: "i < length (h_handlers sf) \<Longrightarrow> hd_phase (h_handlers sf ! i) = Connected \<Longrightarrow>
    http_step env retry (sf, fl, pl) (http_join env i sf, fl, pl)"
| s_copy: "i < length (h_handlers sf) \<Longrightarrow> hd_phase (h_handlers sf ! i) = Joined \<Longrightarrow>
    bind_step BindingSize (hd_bind (h_handlers sf ! i)) b \<Longrightarrow>
    http_step env retry (sf, fl, pl) (set_handler i (\<lambda>h. h\<lparr>hd_bind := b\<rparr>) sf, fl, pl)"
| s_release: "i < length (h_handlers sf) \<Longrightarrow> hd_phase (h_handlers sf ! i) = Joined \<Longrightarrow>
    Proxy_returns (hd_bind (h_handlers sf ! i)) \<or> hd_closed (h_handlers sf ! i) \<Longrightarrow>
    http_step env retry (sf, fl, pl) (http_release env i sf, fl, pl)"
| s_tick: "h_lb sf = Some lb \<Longrightarrow> \<not> lb_closed lb \<Longrightarrow> http_step env retry (sf, fl, pl) (sf, fl @ [0..<length (lb_upstreams lb)], pl)"
| s_check: "h_lb sf = Some lb \<Longrightarrow> i \<in> set fl \<Longrightarrow>
    lb' = check_upstream (he_lb env) moment now later elapsed i (lb\<lparr>lb_dns := h_resolver sf\<rparr>) \<Longrightarrow>
    http_step env retry (sf, fl, pl) (sf\<lparr>h_lb := Some lb', h_resolver := lb_dns lb'\<rparr>, remove1 i fl, pl)"
| s_probe: "h_filters sf = Some f \<Longrightarrow> http_step env retry (sf, fl, pl) (sf, fl, pl @ filter_tick (he_filter env) now f)"
| s_probed: "h_filters sf = Some f \<Longrightarrow> q \<in> set pl \<Longrightarrow>
    http_step env retry (sf, fl, pl) (sf\<lparr>h_filters := Some (probe_end (he_filter env) moment now q f)\<rparr>, fl, remove1 q pl)"
| s_stop: "http_Stop env sf = (Inr (), sf') \<Longrightarrow> http_step env retry (sf, fl, pl) (sf', fl, pl)"

inductive http_reach ::
  "('m, 'd, 'f, 't, 'u, 'url) http_env \<Rightarrow> (('m, 'd, 'f, 't, 'u, 'url) HTTP \<times> string, conn) retry \<Rightarrow> http_config \<Rightarrow>
   ('m, 'd, 'f, 't, 'u, 'url) http_state \<Rightarrow> bool"
  for env :: "('m, 'd, 'f, 't, 'u, 'url) http_env" and retry :: "(('m, 'd, 'f, 't, 'u, 'url) HTTP \<times> string, conn) retry" and cfg :: http_config where
  r_start: "http_Start env now later (http_New env cfg) = (Inr (), sf) \<Longrightarrow> http_reach env retry cfg (sf, [], [])"
| r_step: "http_reach env retry cfg s \<Longrightarrow> http_step env retry s s' \<Longrightarrow> http_reach env retry cfg s'"

subsection \<open>What the operations leave alone\<close>

definition pool_of :: "('m, 'd, 'f, 't, 'u, 'url) HTTP \<Rightarrow> UpstreamPool option" where
  "pool_of sf = map_option lb_upstreams (h_lb sf)"

definition center_core :: "('m, 'd, 'f, 't, 'u, 'url) HTTP \<Rightarrow> ('m, 'd) Center option" where
  "center_core sf = map_option (\<lambda>ce. ce\<lparr>au_resolver := None\<rparr>) (h_center sf)"

definition same_core :: "('m, 'd, 'f, 't, 'u, 'url) HTTP \<Rightarrow> ('m, 'd, 'f, 't, 'u, 'url) HTTP \<Rightarrow> bool" where
  "same_core sf sf' \<longleftrightarrow> h_cfg sf' = h_cfg sf \<and> pool_of sf' = pool_of sf \<and> center_core sf' = center_core sf \<and>
     h_handlers sf' = h_handlers sf \<and> h_userConns sf' = h_userConns sf \<and> h_cancelled sf' = h_cancelled sf"

lemma same_core_refl [simp]: "same_core sf sf"
  by (simp add: same_core_def)

lemma same_core_trans [trans]: "same_core a b \<Longrightarrow> same_core b c \<Longrightarrow> same_core a c"
  by (simp add: same_core_def)

lemma http_resolve_core: "http_resolve env now later a sf = (b, sf') \<Longrightarrow> same_core sf sf'"
  by (auto simp: http_resolve_def same_core_def pool_of_def center_core_def split: prod.splits)

lemma IsDeadLoop_core: "IsDeadLoop env now later l h sf = (r, sf') \<Longrightarrow> same_core sf sf'"
  by (auto simp: IsDeadLoop_def loop_outIPs_def dest!: dead_loop_frame dest: http_resolve_core split: prod.splits if_splits)

lemma isUseProxy_core: "isUseProxy env now later a sf = (r, sf') \<Longrightarrow> same_core sf sf'"
proof -
  have f: "same_core sf1 (sf1\<lparr>h_filters := f\<rparr>)" for sf1 :: "('a, 'b, 'c, 'd, 'e, 'f) HTTP" and f
    by (simp add: same_core_def pool_of_def center_core_def)
  show "isUseProxy env now later a sf = (r, sf') \<Longrightarrow> same_core sf sf'"
    by (auto simp: isUseProxy_def Let_def split: sum.splits prod.splits if_splits option.splits
        dest!: http_resolve_core intro: same_core_trans [OF _ f])
qed


lemma parent_attempt_core:
  assumes "parent_attempt env remote target k (sf, a) = (r, sf', a')"
  shows "same_core sf sf'"
  using assms by (auto simp: parent_attempt_def Let_def same_core_def pool_of_def center_core_def
      dest: lb_Select_frame split: if_splits option.splits prod.splits sum.splits)

lemma parent_attempt_dialled:
  assumes "parent_attempt env remote target k (sf, a) = (Inr c, sf', a')"
  shows "\<exists>b. dialParent env k b = Inr c \<and> (hc_ParentType (h_cfg sf) \<noteq> ''ssh'' \<longrightarrow> b = a')"
  using assms by (auto simp: parent_attempt_def Let_def split: if_splits option.splits prod.splits sum.splits)

lemma attempts_core:
  assumes "attempts (parent_attempt env remote target) k n (sf, a) = (r, sf', a')"
  shows "same_core sf sf' \<and> (\<forall>c. r = Inr c \<longrightarrow>
    (\<exists>j b. dialParent env j b = Inr c \<and> (hc_ParentType (h_cfg sf) \<noteq> ''ssh'' \<longrightarrow> b = a')))"
  using assms
proof (induction n arbitrary: k sf a)
  case 0
  then show ?case using parent_attempt_core [of env remote target k sf a] parent_attempt_dialled [of env remote target k sf a] by fastforce
next
  case (Suc n)
  obtain r1 sf1 a1 where o: "parent_attempt env remote target k (sf, a) = (r1, sf1, a1)" by (metis prod_cases3)
  note c1 = parent_attempt_core [OF o]
  show ?case
  proof (cases "is_ok r1 \<or> panics r1")
    case True
    then have "r = r1" "sf' = sf1" "a' = a1" using Suc.prems o by simp_all
    then show ?thesis using c1 o parent_attempt_dialled [of env remote target k sf a] by fastforce
  next
    case False
    then have "attempts (parent_attempt env remote target) (Suc k) n (sf1, a1) = (r, sf', a')" using Suc.prems o by simp
    from Suc.IH [OF this] c1 show ?thesis by (simp add: same_core_def)
  qed
qed

text \<open>Which dial a connection comes from.\<close>

definition dialled :: "('m, 'd, 'f, 't, 'u, 'url) http_env \<Rightarrow> http_config \<Rightarrow> bool \<Rightarrow> string \<Rightarrow> conn \<Rightarrow> bool" where
  "dialled env cfg useProxy lbAddr c \<longleftrightarrow>
     (if useProxy then \<exists>k a. dialParent env k a = Inr c \<and> (hc_ParentType cfg \<noteq> ''ssh'' \<longrightarrow> a = lbAddr)
      else (\<exists>l a. Dial env l a = Inr c) \<and> lbAddr = '''')"

lemma http_connect_core:
  assumes "retry_law retry" "http_connect env retry p useProxy target sf = (r, sf', lbAddr)"
  shows "same_core sf sf' \<and> (\<forall>c. r = Inr c \<longrightarrow> dialled env (h_cfg sf) useProxy lbAddr c)"
proof (cases useProxy)
  case True
  then have "retry 5 (parent_attempt env (RemoteAddr p) target) (sf, '''') = (r, sf', lbAddr)"
    using assms(2) by (simp add: http_connect_def)
  from attempts_state [OF assms(1) this] obtain m r' where
    m: "attempts (parent_attempt env (RemoteAddr p) target) 0 m (sf, '''') = (r', sf', lbAddr)" "is_ok r \<Longrightarrow> r' = r" by metis
  from attempts_core [OF m(1)] m(2) True show ?thesis unfolding dialled_def by fastforce
next
  case False
  then show ?thesis using assms(2)
    by (auto simp: http_connect_def dialDirect_def dialled_def dest: http_resolve_core split: prod.splits if_splits)
qed

subsection \<open>A connection that was opened\<close>

text \<open>What is relied on of the diallers: nothing has been written to a connection they return.\<close>

definition fresh_dials :: "('m, 'd, 'f, 't, 'u, 'url) http_env \<Rightarrow> bool" where
  "fresh_dials env \<longleftrightarrow> (\<forall>k a c. dialParent env k a = Inr c \<longrightarrow> outbox c = []) \<and> (\<forall>l a c. Dial env l a = Inr c \<longrightarrow> outbox c = [])"

definition admitted :: "('m, 'd) auth_env \<Rightarrow> ('m, 'd) Center option \<Rightarrow> HttpRequest \<Rightarrow> bool" where
  "admitted env center req \<longleftrightarrow>
     (case center of None \<Rightarrow> True | Some ce \<Rightarrow> \<exists>pair. credentials req = Inr pair \<and> accepted_by env ce pair)"

text \<open>The first bytes on the two connections: the reply to a CONNECT request on a direct route,
  otherwise the head of the request, cleaned on a direct route, unchanged for a parent.\<close>

definition first_bytes :: "http_config \<Rightarrow> handler \<Rightarrow> bool" where
  "first_bytes cfg h \<longleftrightarrow>
     (if IsHTTPS (hd_req h) \<and> no_proxy_behind cfg (hd_proxied h)
      then outbox (hd_in h) = [str_bytes (''HTTP/1.1 200 Connection established'' @ CRLF @ CRLF)] \<and> outbox (hd_out h) = []
      else outbox (hd_in h) = [] \<and>
           outbox (hd_out h) = [str_bytes (if no_proxy_behind cfg (hd_proxied h) \<and> \<not> rq_IsSNI (hd_req h)
                                            then RemoveProxyHeaders (rq_RawHeader (hd_req h)) else rq_RawHeader (hd_req h))])"

definition handler_ok :: "('m, 'd) auth_env \<Rightarrow> http_config \<Rightarrow> ('m, 'd) Center option \<Rightarrow> handler \<Rightarrow> bool" where
  "handler_ok env cfg center h \<longleftrightarrow> admitted env center (hd_req h) \<and> first_bytes cfg h \<and> bound (hd_in h) (hd_out h) (hd_bind h) \<and>
     (if hd_proxied h then hc_Parent cfg \<noteq> [] else hd_lbAddr h = '''')"

lemma http_decode_core:
  assumes "http_decode env p c sf = (r, c', sf')"
  shows "same_core sf sf'"
proof -
  define center where "center = map_option (\<lambda>ce. ce\<lparr>au_resolver := h_resolver sf\<rparr>) (h_center sf)"
  obtain q ce' c1 where n: "httpc_New (he_auth env) p 4096 center c = ((q, ce'), c1)" by (metis prod_cases3 surj_pair)
  have "map_option (\<lambda>ce. ce\<lparr>au_resolver := None\<rparr>) center = center_core sf"
    by (simp add: center_def center_core_def option.map_comp comp_def)
  then show ?thesis using New_core [OF n] assms n unfolding center_def
    by (auto simp: http_decode_def same_core_def pool_of_def) (simp add: center_core_def)
qed

lemma http_decode_sound:
  assumes "retry_ok (retry_op (he_auth env))" "http_decode env p c sf = (Inr req, c', sf')"
  shows "outbox c' = outbox c \<and> admitted (he_auth env) (center_core sf) req"
proof -
  obtain ce' where n: "httpc_New (he_auth env) p 4096 (map_option (\<lambda>ce. ce\<lparr>au_resolver := h_resolver sf\<rparr>) (h_center sf)) c = ((Inr req, ce'), c')"
    using assms(2) by (auto simp: http_decode_def split: prod.splits)
  show ?thesis
  proof (cases "h_center sf")
    case None
    then show ?thesis using New_sound [OF n] by (simp add: admitted_def center_core_def)
  next
    case (Some ce)
    with New_sound [OF n] obtain pair target ce2 where v: "credentials req = Inr pair" "outbox c' = outbox c"
      "Verify (he_auth env) (p_now p) (p_later p) pair (hd (split_on (CHR '':'') (RemoteAddr p))) (hd (split_on (CHR '':'') (LocalAddr p)))
        target (ce\<lparr>au_resolver := h_resolver sf\<rparr>) = (Inr True, ce2)" by auto
    from Verify_accepted [OF assms(1) v(3)] v Some show ?thesis by (simp add: admitted_def center_core_def)
  qed
qed

lemma http_forward_first:
  assumes "http_forward cfg req useProxy c target = (Inr u, c', target')" "outbox c = []" "outbox target = []"
    "hd_req h = req" "hd_proxied h = useProxy" "hd_in h = c'" "hd_out h = target'"
  shows "first_bytes cfg h"
  unfolding first_bytes_def assms(4-7) using assms(1-3)
  by (auto simp: http_forward_def HTTPSReply_def conn_Write_def split: if_splits option.splits)

lemma http_open_okE:
  assumes "http_open env retry p c sf = (Inr u, sf')"
  obtains req c1 s1 s2 useProxy s3 target s4 lbAddr v c2 t2 where
    "http_decode env p c sf = (Inr req, c1, s1)"
    "IsDeadLoop env (p_now p) (p_later p) (LocalAddr p) (rq_Host req) s1 = (False, s2)"
    "isUseProxy env (p_now p) (p_later p) (rq_Host req) s2 = (Inr useProxy, s3)"
    "http_connect env retry p useProxy (rq_Host req) s3 = (Inr target, s4, lbAddr)"
    "http_forward (h_cfg s4) req useProxy c1 target = (Inr v, c2, t2)"
    "sf' = s4\<lparr>h_handlers := h_handlers s4 @ [\<lparr>hd_src = RemoteAddr p, hd_req = req, hd_proxied = useProxy, hd_lbAddr = lbAddr,
       hd_in = c2, hd_out = t2, hd_bind = bind_start c2 t2, hd_phase = Connected, hd_closed = False\<rparr>]\<rparr>"
  using assms by (auto simp: http_open_def split: prod.splits sum.splits bool.splits)

lemma http_open_failed:
  assumes "retry_law retry" "http_open env retry p c sf = (Inl e, sf')"
  shows "same_core sf sf'"
  using assms(2)
  by (auto simp: http_open_def split: prod.splits sum.splits bool.splits
      dest!: http_decode_core IsDeadLoop_core isUseProxy_core http_connect_core [OF assms(1)] intro: same_core_trans)

lemma http_open_ok:
  assumes "retry_law retry" "retry_ok (retry_op (he_auth env))" "fresh_dials env" "outbox c = []"
    and "http_open env retry p c sf = (Inr u, sf')"
  obtains sf1 h where "same_core sf sf1" "sf' = sf1\<lparr>h_handlers := h_handlers sf1 @ [h]\<rparr>"
    "handler_ok (he_auth env) (h_cfg sf) (center_core sf) h" "hd_phase h = Connected"
  using assms(5)
proof (elim http_open_okE)
  fix req c1 s1 s2 useProxy s3 target s4 lbAddr v c2 t2
  define h where "h = \<lparr>hd_src = RemoteAddr p, hd_req = req, hd_proxied = useProxy, hd_lbAddr = lbAddr, hd_in = c2, hd_out = t2,
    hd_bind = bind_start c2 t2, hd_phase = Connected, hd_closed = False\<rparr>"
  assume 1: "http_decode env p c sf = (Inr req, c1, s1)"
    and 2: "IsDeadLoop env (p_now p) (p_later p) (LocalAddr p) (rq_Host req) s1 = (False, s2)"
    and 3: "isUseProxy env (p_now p) (p_later p) (rq_Host req) s2 = (Inr useProxy, s3)"
    and 4: "http_connect env retry p useProxy (rq_Host req) s3 = (Inr target, s4, lbAddr)"
    and 5: "http_forward (h_cfg s4) req useProxy c1 target = (Inr v, c2, t2)"
    and sf': "sf' = s4\<lparr>h_handlers := h_handlers s4 @ [\<lparr>hd_src = RemoteAddr p, hd_req = req, hd_proxied = useProxy, hd_lbAddr = lbAddr,
       hd_in = c2, hd_out = t2, hd_bind = bind_start c2 t2, hd_phase = Connected, hd_closed = False\<rparr>]\<rparr>"
  note k = same_core_trans [OF same_core_trans [OF http_decode_core [OF 1] IsDeadLoop_core [OF 2]] isUseProxy_core [OF 3]]
  note con = http_connect_core [OF assms(1) 4]
  have k4: "same_core sf s4" using same_core_trans [OF k] con by blast
  have d: "dialled env (h_cfg s3) useProxy lbAddr target" using con by blast
  then have "outbox target = []" using assms(3) by (auto simp: dialled_def fresh_dials_def split: if_splits)
  then have "first_bytes (h_cfg sf) h"
    using http_forward_first [OF 5] http_decode_sound [OF assms(2) 1] assms(4) k4 by (simp add: h_def same_core_def)
  moreover have "hc_Parent (h_cfg sf) \<noteq> []" if useProxy
    using that 3 isUseProxy_core [OF 3] k by (auto simp: isUseProxy_def same_core_def)
  moreover have "lbAddr = ''''" if "\<not> useProxy" using d that by (simp add: dialled_def)
  ultimately have "handler_ok (he_auth env) (h_cfg sf) (center_core sf) h"
    using http_decode_sound [OF assms(2) 1] by (auto simp: handler_ok_def h_def bound_start)
  then show thesis using that [OF k4, of h] sf' by (simp add: h_def)
qed

subsection \<open>The invariant\<close>

definition tally :: "handler list \<Rightarrow> (phase \<times> string) list" where
  "tally hs = map (\<lambda>h. (hd_phase h, hd_lbAddr h)) hs"

definition http_inv :: "('m, 'd, 'f, 't, 'u, 'url) http_env \<Rightarrow> ('m, 'd, 'f, 't, 'u, 'url) HTTP \<Rightarrow> bool" where
  "http_inv env sf \<longleftrightarrow> (\<forall>h \<in> set (h_handlers sf). handler_ok (he_auth env) (h_cfg sf) (center_core sf) h) \<and>
     (\<forall>us. pool_of sf = Some us \<longrightarrow> hc_Parent (h_cfg sf) \<noteq> [] \<and> counted us (tally (h_handlers sf)))"

lemma tally_simps [simp]:
  "tally [] = []" "tally (hs @ [h]) = tally hs @ [(hd_phase h, hd_lbAddr h)]" "length (tally hs) = length hs"
  "tally (hs[i := h]) = (tally hs)[i := (hd_phase h, hd_lbAddr h)]"
  by (simp_all add: tally_def map_update)

lemma tally_nth: "i < length hs \<Longrightarrow> tally hs ! i = (hd_phase (hs ! i), hd_lbAddr (hs ! i))"
  by (simp add: tally_def)

lemma tally_same:
  assumes "hd_phase h = hd_phase (hs ! i)" "hd_lbAddr h = hd_lbAddr (hs ! i)"
  shows "tally (hs[i := h]) = tally hs"
  using assms by (cases "i < length hs") (simp_all add: tally_nth [symmetric] list_update_beyond)

subsection \<open>Every step keeps the invariant\<close>

lemma http_inv_core: "same_core sf sf' \<Longrightarrow> http_inv env sf \<Longrightarrow> http_inv env sf'"
  by (simp add: http_inv_def same_core_def)

lemma http_inv_open:
  assumes "retry_law retry" "retry_ok (retry_op (he_auth env))" "fresh_dials env" "outbox c = []"
    and "http_open env retry p c sf = (r, sf')" "http_inv env sf"
  shows "http_inv env sf'"
proof (cases r)
  case (Inl e)
  then show ?thesis using http_open_failed [OF assms(1)] assms(5,6) http_inv_core by blast
next
  case (Inr u)
  obtain sf1 h where h: "same_core sf sf1" "sf' = sf1\<lparr>h_handlers := h_handlers sf1 @ [h]\<rparr>"
    "handler_ok (he_auth env) (h_cfg sf) (center_core sf) h" "hd_phase h = Connected"
    using http_open_ok [OF assms(1-4) assms(5) [unfolded Inr]] .
  from http_inv_core [OF h(1) assms(6)] h show ?thesis
    by (auto simp: http_inv_def same_core_def pool_of_def center_core_def counted_append)
qed

lemma pool_handlers [simp]:
  "pool_of (sf\<lparr>h_handlers := hs\<rparr>) = pool_of sf" "center_core (sf\<lparr>h_handlers := hs\<rparr>) = center_core sf"
  "pool_of (sf\<lparr>h_userConns := um\<rparr>) = pool_of sf" "center_core (sf\<lparr>h_userConns := um\<rparr>) = center_core sf"
  "center_core (sf\<lparr>h_lb := lb\<rparr>) = center_core sf"
  by (simp_all add: pool_of_def center_core_def)

lemma handler_ok_frame [simp]:
  "handler_ok env cfg ce (h\<lparr>hd_closed := b\<rparr>) = handler_ok env cfg ce h"
  "handler_ok env cfg ce (h\<lparr>hd_phase := ph\<rparr>) = handler_ok env cfg ce h"
  by (simp_all add: handler_ok_def first_bytes_def)

text \<open>A handler is changed in place.\<close>

lemma http_inv_set_handler:
  assumes "http_inv env sf" "\<And>h. handler_ok (he_auth env) (h_cfg sf) (center_core sf) h \<Longrightarrow> h = h_handlers sf ! i \<Longrightarrow>
      handler_ok (he_auth env) (h_cfg sf) (center_core sf) (f h) \<and> hd_phase (f h) = hd_phase h \<and> hd_lbAddr (f h) = hd_lbAddr h"
  shows "http_inv env (set_handler i f sf)"
proof (cases "i < length (h_handlers sf)")
  case True
  then have f: "handler_ok (he_auth env) (h_cfg sf) (center_core sf) (f (h_handlers sf ! i))"
    "hd_phase (f (h_handlers sf ! i)) = hd_phase (h_handlers sf ! i)" "hd_lbAddr (f (h_handlers sf ! i)) = hd_lbAddr (h_handlers sf ! i)"
    using assms by (auto simp: http_inv_def)
  have "handler_ok (he_auth env) (h_cfg sf) (center_core sf) h" if "h \<in> set ((h_handlers sf)[i := f (h_handlers sf ! i)])" for h
    using that f(1) assms(1) set_update_subset_insert [of "h_handlers sf" i] by (auto simp: http_inv_def)
  moreover have "tally ((h_handlers sf)[i := f (h_handlers sf ! i)]) = tally (h_handlers sf)" using f(2,3) by (rule tally_same)
  ultimately show ?thesis using assms(1) by (auto simp: http_inv_def set_handler_def simp del: tally_simps)
qed (use assms(1) in \<open>simp add: set_handler_def list_update_beyond\<close>)

text \<open>A connection is entered or released: one handler changes its phase and its parent counts it.\<close>

lemma http_inv_phase:
  assumes "http_inv env sf" "i < length (h_handlers sf)" "h' = (h_handlers sf ! i)\<lparr>hd_phase := ph, hd_closed := b\<rparr>"
    and "h_handlers sf' = (h_handlers sf)[i := h']" "h_cfg sf' = h_cfg sf" "center_core sf' = center_core sf"
    and "pool_of sf' = map_option (conn_step e) (pool_of sf)"
    and "(hd_phase (h_handlers sf ! i) \<noteq> Joined \<and> ph = Joined \<and> e = Opened (hd_lbAddr h')) \<or>
         (hd_phase (h_handlers sf ! i) = Joined \<and> ph \<noteq> Joined \<and> e = Closed (hd_lbAddr h'))"
  shows "http_inv env sf'"
proof -
  have lb: "hd_lbAddr h' = hd_lbAddr (h_handlers sf ! i)" "hd_phase h' = ph" using assms(3) by simp_all
  have d: "counted (conn_step e us) (tally (h_handlers sf'))" if "counted us (tally (h_handlers sf))" for us
    using counted_phase [OF that, of i "hd_phase (h_handlers sf ! i)" "hd_lbAddr h'" ph e] assms(2,4,8) lb by (simp add: tally_nth)
  have "handler_ok (he_auth env) (h_cfg sf) (center_core sf) h'" using assms(1-3) by (simp add: http_inv_def)
  then have "handler_ok (he_auth env) (h_cfg sf) (center_core sf) h" if "h \<in> set ((h_handlers sf)[i := h'])" for h
    using that assms(1) set_update_subset_insert [of "h_handlers sf" i] by (auto simp: http_inv_def)
  then show ?thesis using assms(1,4-7) d by (auto simp: http_inv_def)
qed

lemma closed_fields:
  "hd_phase ((hs[j := (hs ! j)\<lparr>hd_closed := b\<rparr>]) ! i) = hd_phase (hs ! i)"
  "hd_lbAddr ((hs[j := (hs ! j)\<lparr>hd_closed := b\<rparr>]) ! i) = hd_lbAddr (hs ! i)"
  by (cases "j = i"; cases "j < length hs"; simp add: list_update_beyond)+

lemma http_inv_no_parent: "http_inv env sf \<Longrightarrow> hc_Parent (h_cfg sf) = [] \<Longrightarrow> h_lb sf = None"
  by (cases "h_lb sf") (auto simp: http_inv_def pool_of_def)

lemma http_inv_join:
  assumes "http_inv env sf" "i < length (h_handlers sf)" "hd_phase (h_handlers sf ! i) = Connected"
  shows "http_inv env (http_join env i sf)"
proof -
  define h where "h = h_handlers sf ! i"
  define sf1 where "sf1 = (case cm_Get (he_users env) (hd_src h) (h_userConns sf) of
      None \<Rightarrow> sf | Some j \<Rightarrow> set_handler j (\<lambda>h. h\<lparr>hd_closed := True\<rparr>) sf)"
  have inv1: "http_inv env sf1"
    unfolding sf1_def using assms(1) by (auto intro!: http_inv_set_handler split: option.split)
  have 1: "length (h_handlers sf1) = length (h_handlers sf)" "h_cfg sf1 = h_cfg sf" "h_lb sf1 = h_lb sf" "h_userConns sf1 = h_userConns sf"
    by (simp_all add: sf1_def set_handler_def split: option.split)
  have 2: "hd_lbAddr (h_handlers sf1 ! i) = hd_lbAddr h \<and> hd_phase (h_handlers sf1 ! i) = Connected"
    using assms(3) by (simp add: sf1_def set_handler_def h_def closed_fields split: option.split)
  let ?h = "h_handlers sf1 ! i"
  show ?thesis
  proof (rule http_inv_phase [OF inv1, where i = i and b = "hd_closed ?h" and h' = "?h\<lparr>hd_phase := Joined, hd_closed := hd_closed ?h\<rparr>"])
    show "pool_of (http_join env i sf) = map_option (conn_step (Opened (hd_lbAddr h))) (pool_of sf1)"
      using http_inv_no_parent [OF inv1] unfolding http_join_def Let_def h_def [symmetric] sf1_def [symmetric]
      by (simp add: set_handler_def pool_of_def pool_of_lb(1))
    show "h_handlers (http_join env i sf) = (h_handlers sf1)[i := ?h\<lparr>hd_phase := Joined, hd_closed := hd_closed ?h\<rparr>]"
      "h_cfg (http_join env i sf) = h_cfg sf1" "center_core (http_join env i sf) = center_core sf1"
      by (simp_all add: http_join_def Let_def h_def [symmetric] sf1_def [symmetric] set_handler_def)
  qed (use assms 1 2 in auto)
qed

lemma http_inv_release:
  assumes "http_inv env sf" "i < length (h_handlers sf)" "hd_phase (h_handlers sf ! i) = Joined"
  shows "http_inv env (http_release env i sf)"
proof -
  define h where "h = h_handlers sf ! i"
  show ?thesis
  proof (rule http_inv_phase [OF assms(1,2), where h' = "h\<lparr>hd_phase := Released, hd_closed := True\<rparr>"])
    show "pool_of (http_release env i sf) = map_option (conn_step (Closed (hd_lbAddr h))) (pool_of sf)"
      using http_inv_no_parent [OF assms(1)] unfolding http_release_def Let_def h_def [symmetric]
      by (simp add: set_handler_def pool_of_def pool_of_lb(2))
    show "h_handlers (http_release env i sf) = (h_handlers sf)[i := h\<lparr>hd_phase := Released, hd_closed := True\<rparr>]"
      "h_cfg (http_release env i sf) = h_cfg sf" "center_core (http_release env i sf) = center_core sf"
      by (simp_all add: http_release_def Let_def h_def [symmetric] set_handler_def)
  qed (use assms in \<open>auto simp: h_def\<close>)
qed

lemma http_inv_check:
  assumes "http_inv env sf" "h_lb sf = Some lb" "lb' = check_upstream (he_lb env) m now later el i (lb\<lparr>lb_dns := h_resolver sf\<rparr>)"
  shows "http_inv env (sf\<lparr>h_lb := Some lb', h_resolver := r\<rparr>)"
proof -
  obtain addr where "lb_upstreams lb' = (lb_upstreams lb)[i := healthyCheck (env_dial (he_lb env)) m el addr (lb_upstreams lb ! i)]"
    using check_upstream_pool [of "he_lb env" m now later el i "lb\<lparr>lb_dns := h_resolver sf\<rparr>"] assms(3) by auto
  moreover have "center_core (sf\<lparr>h_lb := Some lb', h_resolver := r\<rparr>) = center_core sf" by (simp add: center_core_def)
  ultimately show ?thesis using assms(1,2) counted_check by (simp add: http_inv_def pool_of_def)
qed

lemma http_inv_closed:
  assumes "http_inv env sf"
  shows "http_inv env (sf\<lparr>h_handlers := foldl (\<lambda>hs (_, i). hs[i := (hs ! i)\<lparr>hd_closed := True\<rparr>]) (h_handlers sf) is\<rparr>)"
  using assms
proof (induction "is" arbitrary: sf)
  case (Cons x xs)
  have "http_inv env (set_handler (snd x) (\<lambda>h. h\<lparr>hd_closed := True\<rparr>) sf)"
    using Cons.prems by (intro http_inv_set_handler) simp_all
  from Cons.IH [OF this] show ?case by (simp add: set_handler_def case_prod_beta)
qed simp

lemma http_inv_stop:
  assumes "http_inv env sf" "http_Stop env sf = (r, sf')"
  shows "http_inv env sf'"
proof -
  have c: "pool_of (sf\<lparr>h_cancelled := True, h_listening := 0, h_lb := map_option lb_Close (h_lb sf)\<rparr>) = pool_of sf"
    by (simp add: pool_of_def pool_of_lb(3))
  define s0 where "s0 = sf\<lparr>h_cancelled := True, h_listening := 0, h_lb := map_option lb_Close (h_lb sf)\<rparr>"
  define s1 where "s1 = (if hc_Parent (h_cfg s0) \<noteq> [] then s0\<lparr>h_filters := map_option filter_Close (h_filters s0)\<rparr> else s0)"
  have "http_inv env s0" using assms(1) c by (simp add: http_inv_def pool_of_def center_core_def s0_def)
  moreover from this have "http_inv env s1" by (auto simp: s1_def http_inv_def pool_of_def center_core_def)
  ultimately show ?thesis
    using assms(2) http_inv_closed [of env s1] unfolding http_Stop_def Let_def s0_def [symmetric] s1_def [symmetric]
    by (auto split: if_splits)
qed

text \<open>Starting the service.\<close>

lemma http_listen_frame: "http_listen env as sf = (r, sf') \<Longrightarrow> \<exists>n. sf' = sf\<lparr>h_listening := n\<rparr>"
proof (induction as arbitrary: sf)
  case Nil
  then show ?case by (auto intro: exI [of _ "h_listening sf"])
next
  case (Cons a as)
  show ?case
  proof (cases "a = '''' \<or> Listen env a \<noteq> None")
    case True
    then show ?thesis using Cons by (auto split: if_splits intro: exI [of _ "h_listening sf"])
  next
    case False
    then have "http_listen env as (sf\<lparr>h_listening := Suc (h_listening sf)\<rparr>) = (r, sf')" using Cons.prems by auto
    from Cons.IH [OF this] show ?thesis by simp
  qed
qed

text \<open>A service without connections whose parents, if any, are fresh.\<close>

definition http_idle :: "('m, 'd, 'f, 't, 'u, 'url) HTTP \<Rightarrow> bool" where
  "http_idle sf \<longleftrightarrow> h_handlers sf = [] \<and> (\<forall>us. pool_of sf = Some us \<longrightarrow> hc_Parent (h_cfg sf) \<noteq> [] \<and> (\<forall>u \<in> set us. connections u = 0))"

lemma http_idle_inv: "http_idle sf \<Longrightarrow> http_inv env sf"
  by (auto simp: http_idle_def http_inv_def counted_fresh)

lemma http_idle_frame:
  "same_core sf sf' \<Longrightarrow> http_idle sf = http_idle sf'"
  "http_idle (sf\<lparr>h_ssh := b\<rparr>) = http_idle sf" "http_idle (sf\<lparr>h_center := ce\<rparr>) = http_idle sf" "http_idle (sf\<lparr>h_resolver := rs\<rparr>) = http_idle sf"
  "http_idle (sf\<lparr>h_listening := n\<rparr>) = http_idle sf"
  by (simp_all add: http_idle_def same_core_def pool_of_def)

lemma http_inspect_idle:
  "http_inspectConfig env (http_New env cfg) = (r, sf) \<Longrightarrow> http_idle sf \<and> h_lb sf = None"
  by (auto simp: http_inspectConfig_def http_New_def http_idle_def pool_of_def Let_def split: sum.splits if_splits)

lemma http_init_parents_idle:
  assumes "http_init_parents env sf = (r, sf')" "h_handlers sf = []" "h_lb sf = None"
  shows "http_idle sf'"
  using assms by (auto simp: http_init_parents_def http_idle_def pool_of_def lb_New_def apply_option_def NewUpstreamPool_conns
      split: if_splits prod.splits sum.splits option.splits)

lemma http_init_ssh_idle:
  assumes "http_init_ssh env now later sf = (r, sf')" "http_idle sf"
  shows "http_idle sf'"
proof -
  have l: "http_idle (sf\<lparr>h_lb := Some lb'\<rparr>)" if "h_lb sf = Some lb" "lb_Select e d a lb = (q, lb')" for e d a lb q lb'
    using assms(2) that lb_Select_frame [OF that(2)] by (simp add: http_idle_def pool_of_def)
  have d: "http_idle s'" if "http_dialSSH env now later a s = (q, s')" "http_idle s" for a s q s'
    using that http_resolve_core http_idle_frame(1) by (fastforce simp: http_dialSSH_def split: prod.splits)
  show ?thesis using assms
    by (auto simp: http_init_ssh_def http_idle_frame(2) split: option.splits prod.splits sum.splits
        dest!: l d http_resolve_core [THEN http_idle_frame(1)])
qed

lemma http_start_idle:
  assumes "http_Start env now later (http_New env cfg) = (Inr u, sf)"
  shows "http_idle sf"
proof -
  from assms obtain s1 s2 u1 u2 where s: "http_inspectConfig env (http_New env cfg) = (Inr u1, s1)"
    "http_InitService env now later s1 = (Inr u2, s2)"
    "http_listen env (split_on (CHR '','') (hc_Local (h_cfg s2))) s2 = (Inr u, sf)"
    by (auto simp: http_Start_def http_begin_def split: prod.splits sum.splits if_splits)
  have 1: "h_handlers s1 = []" "h_lb s1 = None" using http_inspect_idle [OF s(1)] by (simp_all add: http_idle_def)
  have "http_idle s2" using s(2) 1
    by (auto simp: http_InitService_def Let_def split: sum.splits prod.splits if_splits option.splits
        dest!: http_init_parents_idle http_init_ssh_idle)
  then show ?thesis using http_listen_frame [OF s(3)] by (auto simp: http_idle_frame(5))
qed

lemma http_reach_inv:
  assumes "retry_law retry" "retry_ok (retry_op (he_auth env))" "fresh_dials env" "http_reach env retry cfg s"
  shows "http_inv env (fst s)"
  using assms(4)
proof (induction rule: http_reach.induct)
  case (r_start now later sf)
  then show ?case using http_start_idle http_idle_inv by fastforce
next
  case (r_step s s')
  from r_step.hyps(2) r_step.IH show ?case
  proof (induction rule: http_step.induct)
    case (s_open sf c p r sf' fl pl)
    then show ?case using http_inv_open [OF assms(1-3)] by simp
  next
    case (s_copy i sf b fl pl)
    then show ?case using bind_step_bound by (auto intro!: http_inv_set_handler simp: handler_ok_def first_bytes_def)
  next
    case (s_probed sf f q pl fl moment now)
    then show ?case by (simp add: http_inv_def pool_of_def center_core_def)
  qed (simp_all add: http_inv_join http_inv_release http_inv_check http_inv_stop)
qed

subsection \<open>Properties\<close>

text \<open>C2. In every reachable state of the HTTP proxy, for every connection it has joined to a target: when
  there is an authentication centre, the request carried credentials that the centre accepts; the first
  bytes are the reply to a CONNECT request on a direct route, and otherwise the head of the request,
  with the headers for proxies removed on a direct route and unchanged for a parent; after these, each side gets exactly the
  bytes of the other side, in order, short of those read when a write failed, which ends that direction; and a parent is
  used only when one is configured.\<close>

theorem http_connections:
  assumes "retry_law retry" "retry_ok (retry_op (he_auth env))" "fresh_dials env" "http_reach env retry cfg (sf, fl, pl)"
    and "h \<in> set (h_handlers sf)"
  shows "(\<forall>ce. h_center sf = Some ce \<longrightarrow> (\<exists>pair. credentials (hd_req h) = Inr pair \<and> accepted_by (he_auth env) ce pair)) \<and>
    first_bytes (h_cfg sf) h \<and>
    relayed (hd_in h) (hd_out h) (rw1 (hd_bind h)) (rw2 (hd_bind h)) (end2 (hd_bind h)) \<and>
    relayed (hd_out h) (hd_in h) (rw2 (hd_bind h)) (rw1 (hd_bind h)) (end1 (hd_bind h)) \<and>
    (hd_proxied h \<longrightarrow> hc_Parent (h_cfg sf) \<noteq> [])"
  using http_reach_inv [OF assms(1-4)] assms(5)
  by (auto simp: http_inv_def handler_ok_def admitted_def center_core_def bound_def split: if_splits)


lemma http_InitService_cfg: "http_InitService env now later sf = (r, sf') \<Longrightarrow> h_cfg sf' = h_cfg sf"
proof -
  have "h_cfg s' = h_cfg s" if "http_init_ssh env now later s = (q, s')" for s q s'
    using that by (auto simp: http_init_ssh_def http_dialSSH_def same_core_def dest!: http_resolve_core split: option.splits prod.splits sum.splits)
  moreover have "h_cfg s' = h_cfg s" if "http_init_parents env s = (q, s')" for s q s'
    using that by (auto simp: http_init_parents_def split: if_splits prod.splits sum.splits)
  ultimately show "http_InitService env now later sf = (r, sf') \<Longrightarrow> h_cfg sf' = h_cfg sf"
    by (auto simp: http_InitService_def Let_def split: sum.splits prod.splits if_splits)
qed

lemma http_inspect_cfg:
  assumes "http_inspectConfig env (http_New env cfg) = (r, sf)"
  shows "h_cfg sf = (if hc_Parent cfg = [''''] then cfg\<lparr>hc_Parent := []\<rparr> else cfg)" "h_filters sf = None" "\<not> h_ssh sf"
  using assms by (auto simp: http_inspectConfig_def http_New_def Let_def split: sum.splits if_splits)

lemma http_Stop_ssh:
  "hc_ParentType (h_cfg sf) = ''ssh'' \<Longrightarrow> \<not> h_ssh sf \<Longrightarrow> panics (fst (http_Stop env sf))"
  by (simp add: http_Stop_def Let_def)

lemma http_Stop_frame: "http_Stop env sf = (r, sf') \<Longrightarrow> h_cfg sf' = h_cfg sf \<and> h_ssh sf' = h_ssh sf"
  by (auto simp: http_Stop_def Let_def split: if_splits)

lemma http_begin_cfg:
  assumes "http_begin env now later (http_New env cfg) = (r, sf)"
  shows "hc_ParentType (h_cfg sf) = hc_ParentType cfg"
proof -
  obtain q s1 where 1: "http_inspectConfig env (http_New env cfg) = (q, s1)" by fastforce
  have p: "hc_ParentType (h_cfg s1) = hc_ParentType cfg" using http_inspect_cfg(1) [OF 1] by simp
  obtain q2 s2 where 2: "http_InitService env now later s1 = (q2, s2)" by fastforce
  note c = http_InitService_cfg [OF 2]
  obtain q3 s3 where 3: "http_listen env (split_on (CHR '','') (hc_Local (h_cfg s2))) s2 = (q3, s3)" by fastforce
  then have "h_cfg s3 = h_cfg s2" using http_listen_frame by fastforce
  then show ?thesis using assms 1 2 3 p c by (cases q; cases q2) (simp_all add: http_begin_def)
qed

lemma http_Start_ssh:
  assumes "http_Start env now later (http_New env cfg) = (Inl e, sf)" "hc_ParentType cfg = ''ssh''" "\<not> h_ssh sf"
  shows "\<exists>p. e = Panic p"
proof -
  obtain r s where b: "http_begin env now later (http_New env cfg) = (r, s)" by fastforce
  then have c: "hc_ParentType (h_cfg s) = ''ssh''" using http_begin_cfg assms(2) by metis
  obtain q s' where st: "http_Stop env s = (q, s')" by fastforce
  show ?thesis
  proof (cases "is_ok r \<or> panics r")
    case True
    then have "r = Inl e" using b assms(1) by (simp add: http_Start_def)
    then show ?thesis using True by (cases e) (simp_all add: panics_def)
  next
    case False
    then have "s' = sf" "q = Inl e \<or> r = Inl e" using b st assms(1) by (simp_all add: http_Start_def split: sum.splits)
    then have "panics q" using http_Stop_ssh [OF c] http_Stop_frame [OF st] st assms(3) by (metis fst_conv)
    then have "q = Inl e" using False b st assms(1) by (cases q) (simp_all add: http_Start_def panics_def)
    then show ?thesis using \<open>panics q\<close> by (cases e) (simp_all add: panics_def)
  qed
qed

lemma http_Start_rejected:
  assumes "http_inspectConfig env (http_New env cfg) = (Inl e, sf1)" "\<forall>p. e \<noteq> Panic p" "hc_ParentType cfg \<noteq> ''ssh''"
  shows "fst (http_Start env now later (http_New env cfg)) = Inl (if hc_Parent cfg \<in> {[], ['''']} then e else Panic NilDereference)"
proof -
  have "\<not> panics (Inl e :: unit result)" using assms(2) by (cases e) (simp_all add: panics_def)
  then show ?thesis using assms http_inspect_cfg [OF assms(1)]
    by (auto simp: http_Start_def http_begin_def http_Stop_def Let_def)
qed

lemma http_Start_no_parent:
  assumes "hc_ParentType cfg = ''ssh''" "hc_Parent cfg \<in> {[], ['''']}"
  shows "\<not> is_ok (fst (http_Start env now later (http_New env cfg)))"
proof -
  obtain q s1 where 1: "http_inspectConfig env (http_New env cfg) = (q, s1)" by fastforce
  have s1: "hc_Parent (h_cfg s1) = []" "hc_ParentType (h_cfg s1) = ''ssh''" "h_lb s1 = None"
    using http_inspect_cfg(1) [OF 1] http_inspect_idle [OF 1] assms by auto
  then have "\<not> is_ok (fst (http_InitService env now later s1))"
    by (auto simp: http_InitService_def http_init_parents_def http_init_ssh_def Let_def split: sum.splits)
  then have "\<not> is_ok (fst (http_begin env now later (http_New env cfg)))"
    using 1 by (cases q; cases "http_InitService env now later s1"; cases "fst (http_InitService env now later s1)") (simp_all add: http_begin_def)
  then show ?thesis by (auto simp: http_Start_def split: prod.splits sum.splits)
qed

text \<open>Errors of \<open>Start\<close>. A rejected configuration is reported as the error when there is no parent and the
  parent type is not ssh. With a parent \<open>Start\<close> panics instead, because \<open>Stop\<close>, called to clean up,
  closes a filter that was never made. With the parent type ssh every failure before the SSH client is connected, a
  failed dial included, ends in a panic; and the start never succeeds with that type and no parent.\<close>

theorem http_start_errors:
  "(\<forall>e. fst (http_inspectConfig env (http_New env cfg)) = Inl e \<and> (\<forall>p. e \<noteq> Panic p) \<and> hc_ParentType cfg \<noteq> ''ssh'' \<longrightarrow>
      fst (http_Start env now later (http_New env cfg)) = Inl (if hc_Parent cfg \<in> {[], ['''']} then e else Panic NilDereference)) \<and>
   (\<forall>e sf. http_Start env now later (http_New env cfg) = (Inl e, sf) \<and> hc_ParentType cfg = ''ssh'' \<and> \<not> h_ssh sf \<longrightarrow> (\<exists>p. e = Panic p)) \<and>
   (hc_ParentType cfg = ''ssh'' \<and> hc_Parent cfg \<in> {[], ['''']} \<longrightarrow> \<not> is_ok (fst (http_Start env now later (http_New env cfg))))"
  using http_Start_rejected [of env cfg _ _ now later] http_Start_ssh [of env now later cfg] http_Start_no_parent [of cfg env now later]
  by (metis prod.collapse)

subsection \<open>An example\<close>

type_synonym example_HTTP = "((string, string) alist, (string, dns_item) alist, (string, filter_item) alist, (string, unit) alist, (string, nat) alist, unit) HTTP"

definition example_http_env ::
  "((string, string) alist, (string, dns_item) alist, (string, filter_item) alist, (string, unit) alist, (string, nat) alist, unit) http_env" where
  "example_http_env = \<lparr>he_auth = example_auth, he_lb = example_env, he_filter = example_filter_env, he_users = alist_cmap,
     he_selectors = [(''roundrobin'', SRoundRobin 0)], he_draws = (\<lambda>_ _. 0), IsDomain = (\<lambda>_. True), IsIntranet = (\<lambda>_. False),
     LookupIP = (\<lambda>_. Inl EOF), SystemNetworkIPs = Inr [], LoadPair = (\<lambda>_ _. None), ReadFile = (\<lambda>_. None), ParseBytes = (\<lambda>_. Inl EOF),
     SSHParse = None, url_Parse = (\<lambda>_. Inl EOF), ssh_Dial = (\<lambda>_. Some EOF), Listen = (\<lambda>_. None),
     dialParent = (\<lambda>_ _. Inr (good_conn [])), Dial = (\<lambda>_ _. Inr (good_conn []))\<rparr>"

definition example_http_cfg :: "string list \<Rightarrow> string \<Rightarrow> http_config" where
  "example_http_cfg parents ptype = \<lparr>hc_ParentType = ptype, hc_Parent = parents, hc_LocalType = ''tcp'', hc_Local = '':8080'', hc_CaCertFile = '''',
     hc_CertFile = '''', hc_KeyFile = '''', hc_Always = True, hc_Intelligent = ''intelligent'', hc_ProxyFile = '''', hc_DirectFile = '''',
     hc_FilterTimeout = 1, hc_FilterInterval = 1, hc_AuthFile = '''', hc_UserPasses = [''tom:pw''], hc_AuthURL = '''', hc_AuthTimeout = 1,
     hc_AuthOkCode = 204, hc_AuthRetry = 1, hc_DNSAddr = '''', hc_DNSTTL = 300, hc_LbMethod = ''roundrobin'', hc_LbTimeout = 1, hc_LbRetryTime = 1,
     hc_HashTarget = False, hc_RateLimit = ''0'', hc_LocalIPS = [], hc_BindListen = False, hc_RawProxyURL = ''''\<rparr>"

text \<open>Without a context the operation is retried as often as allowed.\<close>

lemma example_fresh: "fresh_dials example_http_env"
  by (auto simp: fresh_dials_def example_http_env_def good_conn_def)

definition example_request :: conn where
  "example_request = good_conn [str_bytes (connect_request ''a.b:443'' (Some (''tom'', ''pw'')))]"

definition ex_h0 :: example_HTTP where
  "ex_h0 = snd (http_Start example_http_env 0 0 (http_New example_http_env (example_http_cfg [] '''')))"

lemma ex_h0_start: "http_Start example_http_env 0 0 (http_New example_http_env (example_http_cfg [] '''')) = (Inr (), ex_h0)"
  and ex_h0_fields: "h_cfg ex_h0 = example_http_cfg [] ''''" "h_center ex_h0 = Some example_center" "h_resolver ex_h0 = None"
    "h_handlers ex_h0 = []" "\<not> h_cancelled ex_h0"
  by (simp_all add: ex_h0_def http_Start_def http_begin_def http_inspectConfig_def http_New_def example_http_cfg_def http_check_parent_def
      http_check_tls_def http_check_rest_def http_InitService_def http_init_auth_def http_init_parents_def example_http_env_def
      example_center_def Let_def)

lemma ex_h1:
  obtains sf h where "http_open example_http_env (\<lambda>n op s. attempts op 0 n s) example_peer example_request ex_h0 = (Inr (), sf)"
    "h_handlers sf = [h]" "h_center sf = Some example_center" "rq_Host (hd_req h) = ''a.b:443''"
proof -
  have p: "plain_addr ''a.b:443''" by (simp add: plain_addr_def is_space_def)
  have l: "length (connect_request ''a.b:443'' (Some (''tom'', ''pw''))) \<le> 4096" by code_simp
  have t: "trim_set '' '' (Format ''tom'' ''pw'') = Format ''tom'' ''pw''" by code_simp
  have r: "au_resolver example_center = None" by (simp add: example_center_def auth_New_def example_auth_def)
  then have ce: "example_center\<lparr>au_resolver := None\<rparr> = example_center" by (metis Center.surjective Center.update_convs(2))
  have up: "ex_h0\<lparr>h_center := Some example_center, h_resolver := None\<rparr> = ex_h0"
    unfolding ex_h0_fields(2,3) [symmetric] by simp
  define req where "req = \<lparr>rq_RawHeader = connect_request ''a.b:443'' (Some (''tom'', ''pw'')), rq_Host = ''a.b:443'', rq_Method = ''CONNECT'',
    rq_RawURL = '''', rq_hostOrURL = ''a.b:443'', rq_IsSNI = False\<rparr>"
  have "httpc_New example_auth example_peer 4096 (Some example_center) example_request = ((Inr req, Some example_center), good_conn [])"
    using New_connect [OF p l _ _ t example_center_facts(1), of example_request "[]" example_auth example_peer] example_center_facts(2)
    by (simp add: example_request_def good_conn_def req_def)
  then have d: "http_decode example_http_env example_peer example_request ex_h0 = (Inr req, good_conn [], ex_h0)"
    by (simp add: http_decode_def example_http_env_def ex_h0_fields(2,3) ce r up)
  have "SplitHostPort ''10.0.0.1:8080'' = Inr (''10.0.0.1'', ''8080'')" "SplitHostPort ''a.b:443'' = Inr (''a.b'', ''443'')" by code_simp+
  then have "IsDeadLoop example_http_env 0 0 ''10.0.0.1:8080'' ''a.b:443'' ex_h0 = (False, ex_h0)"
    by (simp add: IsDeadLoop_def dead_loop_def)
  moreover have "isUseProxy example_http_env 0 0 ''a.b:443'' ex_h0 = (Inr False, ex_h0)"
    by (simp add: isUseProxy_def ex_h0_fields(1) example_http_cfg_def)
  moreover have "http_connect example_http_env (\<lambda>n op s. attempts op 0 n s) example_peer False ''a.b:443'' ex_h0 = (Inr (good_conn []), ex_h0, '''')"
    using ex_h0_fields(1,3) by (simp add: http_connect_def http_resolve_def outil_Resolve_def dialDirect_def bind_local_def example_http_env_def example_http_cfg_def Let_def)
  moreover obtain c t' where "http_forward (h_cfg ex_h0) req False (good_conn []) (good_conn []) = (Inr (), c, t')"
    by (simp add: http_forward_def req_def IsHTTPS_def no_proxy_behind_def HTTPSReply_def conn_Write_def good_conn_def)
  ultimately show thesis using d that ex_h0_fields(2,4)
    by (simp add: http_open_def example_peer_def) (simp add: req_def)
qed

theorem http_connections_witness:
  "\<exists>sf h pair. http_reach example_http_env (\<lambda>n op s. attempts op 0 n s) (example_http_cfg [] '''') (sf, [], []) \<and> h \<in> set (h_handlers sf) \<and>
     rq_Host (hd_req h) = ''a.b:443'' \<and> credentials (hd_req h) = Inr pair \<and> accepted_by example_auth example_center pair"
proof (rule ex_h1)
  fix sf h
  assume o: "http_open example_http_env (\<lambda>n op s. attempts op 0 n s) example_peer example_request ex_h0 = (Inr (), sf)"
    and h: "h_handlers sf = [h]" "h_center sf = Some example_center" "rq_Host (hd_req h) = ''a.b:443''"
  have "outbox example_request = []" by (simp add: example_request_def good_conn_def)
  then have "http_step example_http_env (\<lambda>n op s. attempts op 0 n s) (ex_h0, [], []) (sf, [], [])"
    using o ex_h0_fields(5) by (intro s_open)
  then have r: "http_reach example_http_env (\<lambda>n op s. attempts op 0 n s) (example_http_cfg [] '''') (sf, [], [])"
    using r_start [OF ex_h0_start] r_step by blast
  have "he_auth example_http_env = example_auth" by (simp add: example_http_env_def)
  moreover from this have "retry_ok (retry_op (he_auth example_http_env))" using example_retry_ok by simp
  ultimately show ?thesis using http_connections [OF attempts_retry_law _ example_fresh r, of h] r h by auto
qed


theorem http_start_errors_witness:
  "fst (http_Start example_http_env 0 0 (http_New example_http_env (example_http_cfg [''10.0.0.2:80''] ''''))) = Inl (Panic NilDereference)"
proof -
  have "fst (http_inspectConfig example_http_env (http_New example_http_env (example_http_cfg [''10.0.0.2:80''] ''''))) = Inl (ErrMsg ''parent type required'')"
    by (simp add: http_inspectConfig_def http_New_def http_check_parent_def example_http_cfg_def Let_def)
  then show ?thesis
    using http_start_errors [of example_http_env "example_http_cfg [''10.0.0.2:80''] ''''" 0 0] by (simp add: example_http_cfg_def)
qed

end
