(* ===== verification/Socks_Service.thy ===== *)
theory Socks_Service
  imports Routing Outil Go_Conn
begin

section \<open>services/socks: the SOCKS5 proxy\<close>

text \<open>
  The protocol with the client is that of a package outside of the repository (\<open>go-socks5\<close>), which authenticates a client with
  \<open>Credential.Valid\<close> and calls \<open>proxyTCP\<close> with the request. The service decides between a direct connection and
  a parent, which it asks with the SOCKS5 client of \<open>golang.org/x/net\<close>, sends the reply, and joins the connections.

  As for the HTTP proxy, what is outside of the repository and the dialling of connections are fields of \<open>socks_env\<close>. \<open>ke_SOCKS5\<close> is the handshake of
  \<open>proxy.SOCKS5\<close> on a dialled connection, for given credentials and a target; \<open>ke_dialParent\<close> is the outcome of dialling
  an address, by the number of the attempt. \<open>ccrypt\<close> around the connection of a parent is recorded (\<open>kh_encrypted\<close>), because
  it is put on after the handshake; rate limits are left out.
\<close>

record socks_config =
  kc_ParentType :: string
  kc_Parent :: "string list"
  kc_ParentKey :: string
  kc_ParentAuth :: string
  kc_LocalType :: string
  kc_Local :: string
  kc_LocalKey :: string
  kc_CertFile :: string
  kc_KeyFile :: string
  kc_CaCertFile :: string
  kc_KCPKey :: string
  kc_Timeout :: int
  kc_Always :: bool
  kc_Intelligent :: string
  kc_ProxyFile :: string
  kc_DirectFile :: string
  kc_FilterInterval :: int
  kc_AuthFile :: string
  kc_UserPasses :: "string list"
  kc_AuthURL :: string
  kc_AuthTimeout :: int
  kc_AuthOkCode :: int
  kc_AuthRetry :: nat
  kc_DNSAddr :: string
  kc_DNSTTL :: int
  kc_LbMethod :: string
  kc_LbTimeout :: int
  kc_LbRetryTime :: int
  kc_HashTarget :: bool
  kc_RateLimit :: string
  kc_LocalIPS :: "string list"
  kc_BindListen :: bool

record ('m, 'd, 'f, 't, 'u) socks_env =
  ke_auth :: "('m, 'd) auth_env"
  ke_lb :: "'d lb_env"
  ke_filter :: "('f, 't) filter_env"
  ke_users :: "('u, nat) cmap"
  ke_selectors :: registry
  ke_draws :: "nat \<Rightarrow> draws"
  ke_IsDomain :: "string \<Rightarrow> bool"
  ke_IsIntranet :: "string \<Rightarrow> bool"
  ke_LookupIP :: "string \<Rightarrow> bytes list result"
  ke_SystemNetworkIPs :: "bytes list result"
  ke_LoadPair :: "string \<Rightarrow> string \<Rightarrow> (bytes \<times> bytes) result"
  ke_ReadFile :: "string \<Rightarrow> error option"
  ke_ParseBytes :: "string \<Rightarrow> nat result"
  ke_SSHParse :: "error option"
  ke_md5_hex :: "string \<Rightarrow> string"
  ke_ssh_Dial :: "string \<Rightarrow> error option"
  ke_Listen :: "string \<Rightarrow> error option"
  ke_dialParent :: "nat \<Rightarrow> string \<Rightarrow> conn result"
  ke_SOCKS5 :: "(string \<times> string) option \<Rightarrow> string \<Rightarrow> conn \<Rightarrow> conn result"
  ke_Dial :: "string option \<Rightarrow> string \<Rightarrow> conn result"

text \<open>The request of a client, with the two moments of its handling; \<open>kr_replied\<close> is whether the reply can be sent.\<close>

record socks_request =
  kr_RemoteAddr :: string
  kr_LocalAddr :: string
  kr_DestAddr :: string
  kr_username :: string
  kr_password :: string
  kr_now :: int
  kr_later :: int
  kr_replied :: bool

record socks_handler =
  kh_req :: socks_request
  kh_proxied :: bool
  kh_lbAddr :: string
  kh_out :: conn
  kh_encrypted :: bool
  kh_phase :: phase
  kh_closed :: bool

record ('m, 'd, 'f, 't, 'u) Socks =
  k_cfg :: socks_config
  k_rateLimit :: nat
  k_parentAuth :: "(string \<times> string) option"
  k_udpLocalKey :: bytes
  k_udpParentKey :: bytes
  k_listening :: bool
  k_filters :: "('f, 't) Filter option"
  k_center :: "('m, 'd) Center option"
  k_lb :: "'d Balanced option"
  k_resolver :: "'d Resolver option"
  k_ssh :: bool
  k_userConns :: 'u
  k_handlers :: "socks_handler list"
  k_cancelled :: bool

definition socks_New :: "('m, 'd, 'f, 't, 'u) socks_env \<Rightarrow> socks_config \<Rightarrow> ('m, 'd, 'f, 't, 'u) Socks" where
  "socks_New env cfg = \<lparr>k_cfg = cfg, k_rateLimit = 0, k_parentAuth = None, k_udpLocalKey = [], k_udpParentKey = [], k_listening = False,
     k_filters = None, k_center = None, k_lb = None, k_resolver = None, k_ssh = False, k_userConns = cm_New (ke_users env),
     k_handlers = [], k_cancelled = False\<rparr>"

subsection \<open>Starting\<close>

definition socks_check_tls :: "('m, 'd, 'f, 't, 'u) socks_env \<Rightarrow> socks_config \<Rightarrow> bytes result" where
  "socks_check_tls env cfg =
     (if kc_LocalType cfg = ''tls'' \<or> (kc_ParentType cfg = ''tls'' \<and> kc_Parent cfg \<noteq> []) then
        bindR (ke_LoadPair env (kc_CertFile cfg) (kc_KeyFile cfg)) (\<lambda>(_, tlsKey).
          if kc_CaCertFile cfg \<noteq> '''' \<and> ke_ReadFile env (kc_CaCertFile cfg) \<noteq> None then Inl (ErrMsg ''read ca file'')
          else Inr tlsKey)
      else Inr [])"

definition socks_check_parent :: "('m, 'd, 'f, 't, 'u) socks_env \<Rightarrow> socks_config \<Rightarrow> unit result" where
  "socks_check_parent env cfg =
     (if kc_Parent cfg = [] then Inr ()
      else if kc_ParentType cfg = '''' then Inl (ErrMsg ''parent type required'')
      else if kc_ParentType cfg \<notin> set [''tcp'', ''tls'', ''stcp'', ''kcp'', ''ssh''] then Inl (ErrMsg ''parent type suport <tcp|tls|stcp|kcp|ssh>'')
      else if kc_ParentType cfg = ''ssh'' \<and> ke_SSHParse env \<noteq> None then Inl (ErrMsg ''parse ssh config'')
      else Inr ())"

definition socks_check_auth :: "socks_config \<Rightarrow> (string \<times> string) option result" where
  "socks_check_auth cfg =
     (if kc_ParentAuth cfg = '''' then Inr None
      else case split_on (CHR '':'') (kc_ParentAuth cfg) of
             [u, p] \<Rightarrow> Inr (Some (u, p))
           | _ \<Rightarrow> Inl (ErrMsg ''parent auth data format invalid''))"

text \<open>\<open>localUDPKey\<close> and \<open>parentUDPKey\<close> are the same function of the kind of connection and its key; the key of the certificate is empty
  when none was loaded.\<close>

definition socks_udp_key :: "(string \<Rightarrow> string) \<Rightarrow> string \<Rightarrow> string \<Rightarrow> string \<Rightarrow> bytes \<Rightarrow> bytes result" where
  "socks_udp_key md5 kind shared kcpKey tlsKey =
     (if kind = ''tcp'' \<or> kind = ''stcp'' then
        if shared \<noteq> '''' then slice_at (str_bytes (md5 shared)) 0 24 else Inr []
      else if kind = ''tls'' then slice_at tlsKey 0 24
      else if kind = ''kcp'' then slice_at (str_bytes (md5 kcpKey)) 0 24
      else Inr [])"

definition localUDPKey :: "('m, 'd, 'f, 't, 'u) socks_env \<Rightarrow> socks_config \<Rightarrow> bytes \<Rightarrow> bytes result" where
  "localUDPKey env cfg tlsKey = socks_udp_key (ke_md5_hex env) (kc_LocalType cfg) (kc_LocalKey cfg) (kc_KCPKey cfg) tlsKey"

definition parentUDPKey :: "('m, 'd, 'f, 't, 'u) socks_env \<Rightarrow> socks_config \<Rightarrow> bytes \<Rightarrow> bytes result" where
  "parentUDPKey env cfg tlsKey = socks_udp_key (ke_md5_hex env) (kc_ParentType cfg) (kc_ParentKey cfg) (kc_KCPKey cfg) tlsKey"

definition socks_inspectConfig ::
  "('m, 'd, 'f, 't, 'u) socks_env \<Rightarrow> ('m, 'd, 'f, 't, 'u) Socks \<Rightarrow> unit result \<times> ('m, 'd, 'f, 't, 'u) Socks" where
  "socks_inspectConfig env sf =
     (let cfg = (if kc_Parent (k_cfg sf) = [''''] then (k_cfg sf)\<lparr>kc_Parent := []\<rparr> else k_cfg sf);
          sf = sf\<lparr>k_cfg := cfg\<rparr>
      in case bindR (socks_check_tls env cfg) (\<lambda>tlsKey.
              bindR (socks_check_parent env cfg) (\<lambda>_.
              bindR (if kc_RateLimit cfg \<noteq> ''0'' \<and> kc_RateLimit cfg \<noteq> '''' then
                       case ke_ParseBytes env (kc_RateLimit cfg) of Inl _ \<Rightarrow> Inl (ErrMsg ''parse rate limit size'') | Inr sz \<Rightarrow> Inr sz
                     else Inr 0) (\<lambda>rate.
              bindR (socks_check_auth cfg) (\<lambda>auth.
              bindR (localUDPKey env cfg tlsKey) (\<lambda>lk.
              bindR (parentUDPKey env cfg tlsKey) (\<lambda>pk. Inr (rate, auth, lk, pk))))))) of
           Inl e \<Rightarrow> (Inl e, sf)
         | Inr (rate, auth, lk, pk) \<Rightarrow>
             (Inr (), sf\<lparr>k_rateLimit := rate, k_parentAuth := auth, k_udpLocalKey := lk, k_udpParentKey := pk\<rparr>))"

definition socks_resolve ::
  "('m, 'd, 'f, 't, 'u) socks_env \<Rightarrow> int \<Rightarrow> int \<Rightarrow> string \<Rightarrow> ('m, 'd, 'f, 't, 'u) Socks \<Rightarrow> string \<times> ('m, 'd, 'f, 't, 'u) Socks" where
  "socks_resolve env now later address sf =
     (case outil_Resolve (env_cmap (ke_lb env)) (env_dns (ke_lb env)) now later (k_resolver sf) address of
        (a, res) \<Rightarrow> (a, sf\<lparr>k_resolver := res\<rparr>))"

text \<open>An address of a parent for the SSH client, which is dialled through the balancer (\<open>nil\<close> when there is no parent).\<close>

definition ssh_address ::
  "('m, 'd, 'f, 't, 'u) socks_env \<Rightarrow> draws \<Rightarrow> int \<Rightarrow> int \<Rightarrow> ('m, 'd, 'f, 't, 'u) Socks \<Rightarrow> string result \<times> ('m, 'd, 'f, 't, 'u) Socks" where
  "ssh_address env draws now later sf =
     (case k_lb sf of
        None \<Rightarrow> (Inl (Panic NilDereference), sf)
      | Some lb \<Rightarrow>
          (case lb_Select (ke_lb env) draws '''' lb of
             (Inl p, lb) \<Rightarrow> (Inl p, sf\<lparr>k_lb := Some lb\<rparr>)
           | (Inr a, lb) \<Rightarrow> (case socks_resolve env now later a (sf\<lparr>k_lb := Some lb\<rparr>) of (a, sf) \<Rightarrow> (Inr a, sf))))"

definition socks_init_ssh ::
  "('m, 'd, 'f, 't, 'u) socks_env \<Rightarrow> int \<Rightarrow> int \<Rightarrow> ('m, 'd, 'f, 't, 'u) Socks \<Rightarrow> unit result \<times> ('m, 'd, 'f, 't, 'u) Socks" where
  "socks_init_ssh env now later sf =
     (case ssh_address env (ke_draws env 0) now later sf of
        (Inl p, sf) \<Rightarrow> (Inl p, sf)
      | (Inr a, sf) \<Rightarrow>
          (case ke_ssh_Dial env a of
             Some _ \<Rightarrow> (Inl (ErrMsg ''dial ssh fail''), sf)
           | None \<Rightarrow> (Inr (), sf\<lparr>k_ssh := True\<rparr>)))"

text \<open>One round of the keepalive loop: when the parent is not reached, the client is closed and dialled again; a failure leaves the closed
  client in its place.\<close>

definition ssh_keepalive ::
  "('m, 'd, 'f, 't, 'u) socks_env \<Rightarrow> draws \<Rightarrow> int \<Rightarrow> int \<Rightarrow> ('m, 'd, 'f, 't, 'u) Socks \<Rightarrow> unit result \<times> ('m, 'd, 'f, 't, 'u) Socks" where
  "ssh_keepalive env draws now later sf = (case ssh_address env draws now later sf of (r, sf) \<Rightarrow> (bindR r (\<lambda>_. Inr ()), sf))"

text \<open>The part for parents: what is left in \<open>err\<close>, unless it panics.\<close>

definition socks_init_parents ::
  "('m, 'd, 'f, 't, 'u) socks_env \<Rightarrow> ('m, 'd, 'f, 't, 'u) Socks \<Rightarrow> error option result \<times> ('m, 'd, 'f, 't, 'u) Socks" where
  "socks_init_parents env sf =
     (let cfg = k_cfg sf in
      if kc_Parent cfg = [] then (Inr None, sf)
      else case load_filter (ke_filter env) (kc_Intelligent cfg) (kc_Timeout cfg) (kc_FilterInterval cfg) (kc_ProxyFile cfg) (kc_DirectFile cfg) of
             (err, f) \<Rightarrow>
               (case lb_New (ke_selectors env) (kc_LbMethod cfg)
                       (map (\<lambda>addr. weighted_config (kc_LbRetryTime cfg) (kc_LbTimeout cfg) (split_on (CHR ''@'') addr)) (kc_Parent cfg))
                       [WithDNSServer (k_resolver sf)] of
                  Inl p \<Rightarrow> (Inl p, sf\<lparr>k_filters := Some f\<rparr>)
                | Inr lb \<Rightarrow> (Inr err, sf\<lparr>k_filters := Some f, k_lb := Some lb\<rparr>)))"

definition socks_initService ::
  "('m, 'd, 'f, 't, 'u) socks_env \<Rightarrow> int \<Rightarrow> int \<Rightarrow> ('m, 'd, 'f, 't, 'u) Socks \<Rightarrow> unit result \<times> ('m, 'd, 'f, 't, 'u) Socks" where
  "socks_initService env now later sf =
     (let cfg = k_cfg sf;
          sf = (if kc_DNSAddr cfg \<noteq> '''' then sf\<lparr>k_resolver := Some (idns_New (env_cmap (ke_lb env)) (kc_DNSAddr cfg) (kc_DNSTTL cfg))\<rparr> else sf);
          sf = sf\<lparr>k_center := init_center (ke_auth env) (k_resolver sf) (kc_AuthFile cfg) (kc_UserPasses cfg) (kc_AuthURL cfg)
                    (kc_AuthTimeout cfg) (kc_AuthOkCode cfg) (kc_AuthRetry cfg)\<rparr>
      in case socks_init_parents env sf of
           (Inl p, sf) \<Rightarrow> (Inl p, sf)
         | (Inr err, sf) \<Rightarrow>
             (let res = (case err of Some e \<Rightarrow> Inl e | None \<Rightarrow> Inr ())
              in if kc_ParentType cfg = ''ssh'' then
                   (case socks_init_ssh env now later sf of
                      (Inl e, sf) \<Rightarrow> (Inl e, sf)
                    | (Inr _, sf) \<Rightarrow> (res, sf))
                 else (res, sf)))"

definition socks_Stop ::
  "('m, 'd, 'f, 't, 'u) socks_env \<Rightarrow> ('m, 'd, 'f, 't, 'u) Socks \<Rightarrow> unit result \<times> ('m, 'd, 'f, 't, 'u) Socks" where
  "socks_Stop env sf =
     (let sf = sf\<lparr>k_cancelled := True, k_listening := False, k_lb := map_option lb_Close (k_lb sf), k_filters := map_option filter_Close (k_filters sf)\<rparr>
      in if kc_ParentType (k_cfg sf) = ''ssh'' \<and> \<not> k_ssh sf
         then (Inl (Panic (PanicMsg ''interface conversion: interface is nil, not *ssh.Client'')), sf)
         else (Inr (), sf\<lparr>k_handlers := foldl (\<lambda>hs (_, i). hs[i := (hs ! i)\<lparr>kh_closed := True\<rparr>]) (k_handlers sf)
                             (cm_Items (ke_users env) (k_userConns sf))\<rparr>))"

text \<open>The body of \<open>Start\<close>, and \<open>Start\<close> with its deferred function, which stops the service when there is an error.\<close>

definition socks_begin ::
  "('m, 'd, 'f, 't, 'u) socks_env \<Rightarrow> int \<Rightarrow> int \<Rightarrow> ('m, 'd, 'f, 't, 'u) Socks \<Rightarrow> unit result \<times> ('m, 'd, 'f, 't, 'u) Socks" where
  "socks_begin env now later sf =
     (case socks_inspectConfig env sf of
        (Inl e, sf) \<Rightarrow> (Inl e, sf)
      | (Inr _, sf) \<Rightarrow>
          (case socks_initService env now later sf of
             (Inl e, sf) \<Rightarrow> (Inl e, sf)
           | (Inr _, sf) \<Rightarrow>
               (case ke_Listen env (kc_Local (k_cfg sf)) of
                  Some e \<Rightarrow> (Inl e, sf)
                | None \<Rightarrow> (Inr (), sf\<lparr>k_listening := True\<rparr>))))"

definition socks_Start ::
  "('m, 'd, 'f, 't, 'u) socks_env \<Rightarrow> int \<Rightarrow> int \<Rightarrow> ('m, 'd, 'f, 't, 'u) Socks \<Rightarrow> unit result \<times> ('m, 'd, 'f, 't, 'u) Socks" where
  "socks_Start env now later sf =
     (case socks_begin env now later sf of
        (r, sf) \<Rightarrow>
          if is_ok r \<or> panics r then (r, sf)
          else case socks_Stop env sf of
                 (Inl p, sf) \<Rightarrow> (Inl p, sf)
               | (Inr _, sf) \<Rightarrow> (r, sf))"

subsection \<open>Choosing the route\<close>

definition socks_outIPs ::
  "('m, 'd, 'f, 't, 'u) socks_env \<Rightarrow> int \<Rightarrow> int \<Rightarrow> string \<Rightarrow> ('m, 'd, 'f, 't, 'u) Socks \<Rightarrow> bytes list \<times> ('m, 'd, 'f, 't, 'u) Socks" where
  "socks_outIPs env now later outDomain sf =
     (if kc_DNSAddr (k_cfg sf) \<noteq> '''' then
        (case socks_resolve env now later outDomain sf of (a, sf) \<Rightarrow> ([ParseIP a], sf))
      else (case ke_LookupIP env outDomain of Inl _ \<Rightarrow> [] | Inr ips \<Rightarrow> ips, sf))"

definition socks_IsDeadLoop ::
  "('m, 'd, 'f, 't, 'u) socks_env \<Rightarrow> int \<Rightarrow> int \<Rightarrow> string \<Rightarrow> string \<Rightarrow> ('m, 'd, 'f, 't, 'u) Socks \<Rightarrow> bool \<times> ('m, 'd, 'f, 't, 'u) Socks" where
  "socks_IsDeadLoop env now later inLocalAddr outAddr sf =
     dead_loop (socks_outIPs env now later) (ke_SystemNetworkIPs env) (kc_LocalIPS (k_cfg sf)) inLocalAddr outAddr sf"

text \<open>Unlike in the HTTP proxy, \<open>Always\<close> holds for every host outside of the private networks, and for domains in them.\<close>

definition socks_isUseProxy ::
  "('m, 'd, 'f, 't, 'u) socks_env \<Rightarrow> int \<Rightarrow> int \<Rightarrow> string \<Rightarrow> ('m, 'd, 'f, 't, 'u) Socks \<Rightarrow> bool result \<times> ('m, 'd, 'f, 't, 'u) Socks" where
  "socks_isUseProxy env now later addr sf =
     (if kc_Parent (k_cfg sf) = [] then (Inr False, sf)
      else let host = (case SplitHostPort addr of Inr (h, _) \<Rightarrow> h | Inl _ \<Rightarrow> '''') in
        if (ke_IsDomain env host \<and> kc_Always (k_cfg sf)) \<or> \<not> ke_IsIntranet env host then
          if kc_Always (k_cfg sf) then (Inr True, sf)
          else case k_filters sf of
                 None \<Rightarrow> (Inl (Panic NilDereference), sf)
               | Some f \<Rightarrow>
                   (case IsProxy (ke_filter env) now addr f of
                      (useProxy, inMap, _, _) \<Rightarrow>
                        if inMap then (Inr useProxy, sf)
                        else (case socks_resolve env now later addr sf of
                                (a, sf) \<Rightarrow> (Inr useProxy, sf\<lparr>k_filters := Some (filter_Add (ke_filter env) addr a f)\<rparr>)))
        else (Inr False, sf))"

text \<open>The user and the password for the parent: the configured ones, or those of the client if the service has checked them.\<close>

definition proxyAuth :: "('m, 'd, 'f, 't, 'u) Socks \<Rightarrow> string \<times> string \<Rightarrow> bool \<Rightarrow> (string \<times> string) option" where
  "proxyAuth sf auth fromSS =
     (if k_parentAuth sf \<noteq> None then k_parentAuth sf
      else if \<not> fromSS \<and> k_center sf \<noteq> None \<and> fst auth \<noteq> '''' \<and> snd auth \<noteq> '''' then Some auth
      else None)"

definition Valid :: "('m, 'd) auth_env \<Rightarrow> string \<Rightarrow> string \<Rightarrow> string \<Rightarrow> ('m, 'd) Center \<Rightarrow> bool" where
  "Valid env user password userAddr center = VerifyFromLocal env user password center"

subsection \<open>Connecting\<close>

definition socks_dialParent :: "('m, 'd, 'f, 't, 'u) socks_env \<Rightarrow> socks_config \<Rightarrow> nat \<Rightarrow> string \<Rightarrow> conn result" where
  "socks_dialParent env cfg k targetAddr =
     (if kc_ParentType cfg \<in> set [''tcp'', ''tls'', ''stcp'', ''kcp'', ''ssh''] then ke_dialParent env k targetAddr
      else Inl (ErrMsg ''not support parent type''))"

text \<open>\<open>Socks5.Dial\<close> of the package \<open>cs\<close> on top of it: the proxy is dialled and asked for the target.\<close>

definition socks5_Dial ::
  "('m, 'd, 'f, 't, 'u) socks_env \<Rightarrow> socks_config \<Rightarrow> nat \<Rightarrow> string \<Rightarrow> (string \<times> string) option \<Rightarrow> string \<Rightarrow> conn result" where
  "socks5_Dial env cfg k proxyHost auth addr = bindR (socks_dialParent env cfg k proxyHost) (ke_SOCKS5 env auth addr)"

text \<open>One attempt to reach a parent. With SSH the target is dialled through the SSH client, and asked for itself.\<close>

definition socks_attempt ::
  "('m, 'd, 'f, 't, 'u) socks_env \<Rightarrow> socks_request \<Rightarrow> nat \<Rightarrow> ('m, 'd, 'f, 't, 'u) Socks \<times> string \<Rightarrow> conn result \<times> ('m, 'd, 'f, 't, 'u) Socks \<times> string" where
  "socks_attempt env req k s =
     (case s of (sf, lbAddr) \<Rightarrow>
        let realAuth = proxyAuth sf (kr_username req, kr_password req) False; target = kr_DestAddr req in
        if kc_ParentType (k_cfg sf) \<noteq> ''ssh'' then
          let selectAddr = (if kc_LbMethod (k_cfg sf) = ''hash'' \<and> kc_HashTarget (k_cfg sf) then target else kr_RemoteAddr req) in
          (case k_lb sf of
             None \<Rightarrow> (Inl (Panic NilDereference), sf, lbAddr)
           | Some lb \<Rightarrow>
               (case lb_Select (ke_lb env) (ke_draws env k) selectAddr lb of
                  (Inl p, lb) \<Rightarrow> (Inl p, sf\<lparr>k_lb := Some lb\<rparr>, lbAddr)
                | (Inr a, lb) \<Rightarrow> (socks5_Dial env (k_cfg sf) k a realAuth target, sf\<lparr>k_lb := Some lb\<rparr>, a)))
        else (socks5_Dial env (k_cfg sf) k target realAuth target, sf, lbAddr))"

definition socks_dialDirect :: "('m, 'd, 'f, 't, 'u) socks_env \<Rightarrow> socks_config \<Rightarrow> string \<Rightarrow> string \<Rightarrow> conn result" where
  "socks_dialDirect env cfg address localAddr = ke_Dial env (bind_local (kc_BindListen cfg) (ke_IsIntranet env) localAddr) address"

text \<open>\<open>dialForTcp\<close>: whether a parent was used, the connection, and the address of the parent.\<close>

definition dialForTcp ::
  "('m, 'd, 'f, 't, 'u) socks_env \<Rightarrow> (('m, 'd, 'f, 't, 'u) Socks \<times> string, conn) retry \<Rightarrow> socks_request \<Rightarrow> ('m, 'd, 'f, 't, 'u) Socks \<Rightarrow>
   (bool \<times> conn \<times> string) result \<times> ('m, 'd, 'f, 't, 'u) Socks" where
  "dialForTcp env retry req sf =
     (let target = kr_DestAddr req; now = kr_now req; later = kr_later req in
      case socks_IsDeadLoop env now later (kr_LocalAddr req) target sf of
        (True, sf) \<Rightarrow> (Inl (ErrMsg ''dead loop''), sf)
      | (False, sf) \<Rightarrow>
          (case socks_isUseProxy env now later target sf of
             (Inl p, sf) \<Rightarrow> (Inl p, sf)
           | (Inr True, sf) \<Rightarrow>
               (case retry 5 (socks_attempt env req) (sf, '''') of
                  (Inl e, sf, _) \<Rightarrow> (Inl e, sf)
                | (Inr c, sf, lbAddr) \<Rightarrow> (Inr (True, c, lbAddr), sf))
           | (Inr False, sf) \<Rightarrow>
               (case socks_resolve env now later target sf of
                  (a, sf) \<Rightarrow> (bindR (socks_dialDirect env (k_cfg sf) a (kr_LocalAddr req)) (\<lambda>c. Inr (False, c, '''')), sf))))"

text \<open>The codes of the replies; the code for a failure is taken from the text of the error.\<close>

definition RepSuccess_statute :: byte where "RepSuccess_statute = 0"
definition RepNetworkUnreachable :: byte where "RepNetworkUnreachable = 3"
definition RepHostUnreachable :: byte where "RepHostUnreachable = 4"
definition RepConnectionRefused :: byte where "RepConnectionRefused = 5"

lemmas reply_codes = RepSuccess_statute_def RepNetworkUnreachable_def RepHostUnreachable_def RepConnectionRefused_def

definition error_text :: "error \<Rightarrow> string" where
  "error_text e = (case e of EOF \<Rightarrow> ''EOF'' | ErrUnexpectedEOF \<Rightarrow> ''unexpected EOF'' | ErrMsg m \<Rightarrow> m | Panic _ \<Rightarrow> '''')"

definition failure_code :: "error \<Rightarrow> byte" where
  "failure_code e =
     (if str_contains (error_text e) ''refused'' then RepConnectionRefused
      else if str_contains (error_text e) ''network is unreachable'' then RepNetworkUnreachable
      else RepHostUnreachable)"

text \<open>\<open>proxyTCP\<close> up to the point where the connections are joined, with the replies sent to the client.\<close>

definition socks_open ::
  "('m, 'd, 'f, 't, 'u) socks_env \<Rightarrow> (('m, 'd, 'f, 't, 'u) Socks \<times> string, conn) retry \<Rightarrow> socks_request \<Rightarrow> ('m, 'd, 'f, 't, 'u) Socks \<Rightarrow>
   unit result \<times> byte list \<times> ('m, 'd, 'f, 't, 'u) Socks" where
  "socks_open env retry req sf =
     (case dialForTcp env retry req sf of
        (Inl (Panic p), sf) \<Rightarrow> (Inl (Panic p), [], sf)
      | (Inl e, sf) \<Rightarrow>
          if kr_replied req then (Inl (ErrMsg ''connect failed''), [failure_code e], sf)
          else (Inl (ErrMsg ''failed to send reply''), [], sf)
      | (Inr (useProxy, c, lbAddr), sf) \<Rightarrow>
          if kr_replied req then
            (Inr (), [RepSuccess_statute], sf\<lparr>k_handlers := k_handlers sf @
               [\<lparr>kh_req = req, kh_proxied = useProxy, kh_lbAddr = lbAddr, kh_out = c,
                 kh_encrypted = (useProxy \<and> kc_ParentKey (k_cfg sf) \<noteq> ''''), kh_phase = Connected, kh_closed = False\<rparr>]\<rparr>)
          else (Inl (ErrMsg ''failed to send reply''), [], sf))"

text \<open>The rest of \<open>proxyTCP\<close>.\<close>

definition set_socks :: "nat \<Rightarrow> (socks_handler \<Rightarrow> socks_handler) \<Rightarrow> ('m, 'd, 'f, 't, 'u) Socks \<Rightarrow> ('m, 'd, 'f, 't, 'u) Socks" where
  "set_socks i f sf = sf\<lparr>k_handlers := (k_handlers sf)[i := f (k_handlers sf ! i)]\<rparr>"

definition socks_join :: "('m, 'd, 'f, 't, 'u) socks_env \<Rightarrow> nat \<Rightarrow> ('m, 'd, 'f, 't, 'u) Socks \<Rightarrow> ('m, 'd, 'f, 't, 'u) Socks" where
  "socks_join env i sf =
     (let h = k_handlers sf ! i; srcAddr = kr_RemoteAddr (kh_req h);
          sf = (case cm_Get (ke_users env) srcAddr (k_userConns sf) of
                  None \<Rightarrow> sf | Some j \<Rightarrow> set_socks j (\<lambda>h. h\<lparr>kh_closed := True\<rparr>) sf);
          sf = sf\<lparr>k_userConns := cm_Upsert (ke_users env) srcAddr i (\<lambda>_ n. n) (k_userConns sf)\<rparr>;
          sf = (if kc_Parent (k_cfg sf) \<noteq> [] then sf\<lparr>k_lb := map_option (lb_ConnsIncrease (kh_lbAddr h)) (k_lb sf)\<rparr> else sf)
      in set_socks i (\<lambda>h. h\<lparr>kh_phase := Joined\<rparr>) sf)"

definition socks_release :: "('m, 'd, 'f, 't, 'u) socks_env \<Rightarrow> nat \<Rightarrow> ('m, 'd, 'f, 't, 'u) Socks \<Rightarrow> ('m, 'd, 'f, 't, 'u) Socks" where
  "socks_release env i sf =
     (let h = k_handlers sf ! i;
          sf = sf\<lparr>k_userConns := cm_Remove (ke_users env) (kr_RemoteAddr (kh_req h)) (k_userConns sf)\<rparr>;
          sf = (if kc_Parent (k_cfg sf) \<noteq> [] then sf\<lparr>k_lb := map_option (lb_ConnsDecrease (kh_lbAddr h)) (k_lb sf)\<rparr> else sf)
      in set_socks i (\<lambda>h. h\<lparr>kh_phase := Released, kh_closed := True\<rparr>) sf)"

subsection \<open>The running service\<close>

text \<open>
  The service with the health checks and the probes in flight. The package that speaks with the clients calls \<open>proxyTCP\<close> for a client
  whose credentials, when there is a centre, \<open>Valid\<close> has accepted.
\<close>

type_synonym ('m, 'd, 'f, 't, 'u) socks_state =
  "('m, 'd, 'f, 't, 'u) Socks \<times> nat list \<times> (string \<times> filter_item) list"

definition let_in :: "('m, 'd, 'f, 't, 'u) socks_env \<Rightarrow> ('m, 'd, 'f, 't, 'u) Socks \<Rightarrow> socks_request \<Rightarrow> bool" where
  "let_in env sf req \<longleftrightarrow>
     (case k_center sf of None \<Rightarrow> True | Some ce \<Rightarrow> Valid (ke_auth env) (kr_username req) (kr_password req) (kr_RemoteAddr req) ce)"

inductive socks_step ::
  "('m, 'd, 'f, 't, 'u) socks_env \<Rightarrow> (('m, 'd, 'f, 't, 'u) Socks \<times> string, conn) retry \<Rightarrow>
   ('m, 'd, 'f, 't, 'u) socks_state \<Rightarrow> ('m, 'd, 'f, 't, 'u) socks_state \<Rightarrow> bool"
  for env :: "('m, 'd, 'f, 't, 'u) socks_env" and retry :: "(('m, 'd, 'f, 't, 'u) Socks \<times> string, conn) retry" where
  k_open: "\<not> k_cancelled sf \<Longrightarrow> let_in env sf req \<Longrightarrow> socks_open env retry req sf = (r, replies, sf') \<Longrightarrow>
    socks_step env retry (sf, fl, pl) (sf', fl, pl)"
| k_join: "i < length (k_handlers sf) \<Longrightarrow> kh_phase (k_handlers sf ! i) = Connected \<Longrightarrow>
    socks_step env retry (sf, fl, pl) (socks_join env i sf, fl, pl)"
| k_release: "i < length (k_handlers sf) \<Longrightarrow> kh_phase (k_handlers sf ! i) = Joined \<Longrightarrow>
    socks_step env retry (sf, fl, pl) (socks_release env i sf, fl, pl)"
| k_tick: "k_lb sf = Some lb \<Longrightarrow> \<not> lb_closed lb \<Longrightarrow> socks_step env retry (sf, fl, pl) (sf, fl @ [0..<length (lb_upstreams lb)], pl)"
| k_check: "k_lb sf = Some lb \<Longrightarrow> i \<in> set fl \<Longrightarrow>
    lb' = check_upstream (ke_lb env) moment now later elapsed i (lb\<lparr>lb_dns := k_resolver sf\<rparr>) \<Longrightarrow>
    socks_step env retry (sf, fl, pl) (sf\<lparr>k_lb := Some lb', k_resolver := lb_dns lb'\<rparr>, remove1 i fl, pl)"
| k_probe: "k_filters sf = Some f \<Longrightarrow> socks_step env retry (sf, fl, pl) (sf, fl, pl @ filter_tick (ke_filter env) now f)"
| k_probed: "k_filters sf = Some f \<Longrightarrow> q \<in> set pl \<Longrightarrow>
    socks_step env retry (sf, fl, pl) (sf\<lparr>k_filters := Some (probe_end (ke_filter env) moment now q f)\<rparr>, fl, remove1 q pl)"
| k_keepalive: "kc_ParentType (k_cfg sf) = ''ssh'' \<Longrightarrow> ssh_keepalive env draws now later sf = (Inr (), sf') \<Longrightarrow>
    socks_step env retry (sf, fl, pl) (sf', fl, pl)"
| k_stop: "socks_Stop env sf = (Inr (), sf') \<Longrightarrow> socks_step env retry (sf, fl, pl) (sf', fl, pl)"

inductive socks_reach ::
  "('m, 'd, 'f, 't, 'u) socks_env \<Rightarrow> (('m, 'd, 'f, 't, 'u) Socks \<times> string, conn) retry \<Rightarrow> socks_config \<Rightarrow>
   ('m, 'd, 'f, 't, 'u) socks_state \<Rightarrow> bool"
  for env :: "('m, 'd, 'f, 't, 'u) socks_env" and retry :: "(('m, 'd, 'f, 't, 'u) Socks \<times> string, conn) retry" and cfg :: socks_config where
  k_start: "socks_Start env now later (socks_New env cfg) = (Inr (), sf) \<Longrightarrow> socks_reach env retry cfg (sf, [], [])"
| k_step: "socks_reach env retry cfg s \<Longrightarrow> socks_step env retry s s' \<Longrightarrow> socks_reach env retry cfg s'"

subsection \<open>What the operations leave alone\<close>

definition socks_core :: "('m, 'd, 'f, 't, 'u) Socks \<Rightarrow> socks_config \<times> (string \<times> string) option \<times> ('m, 'd) Center option" where
  "socks_core sf = (k_cfg sf, k_parentAuth sf, k_center sf)"

definition socks_pool :: "('m, 'd, 'f, 't, 'u) Socks \<Rightarrow> UpstreamPool option" where
  "socks_pool sf = map_option lb_upstreams (k_lb sf)"

definition socks_same :: "('m, 'd, 'f, 't, 'u) Socks \<Rightarrow> ('m, 'd, 'f, 't, 'u) Socks \<Rightarrow> bool" where
  "socks_same sf sf' \<longleftrightarrow> socks_core sf' = socks_core sf \<and> socks_pool sf' = socks_pool sf \<and> k_handlers sf' = k_handlers sf \<and>
     k_userConns sf' = k_userConns sf"

lemma socks_same_refl [simp]: "socks_same sf sf"
  by (simp add: socks_same_def)

lemma socks_same_trans: "socks_same a b \<Longrightarrow> socks_same b c \<Longrightarrow> socks_same a c"
  by (simp add: socks_same_def)

lemma socks_same_fields [simp]:
  "socks_same sf (sf\<lparr>k_resolver := r\<rparr>)" "socks_same sf (sf\<lparr>k_filters := f\<rparr>)" "socks_same sf (sf\<lparr>k_ssh := b\<rparr>)" "socks_same sf (sf\<lparr>k_listening := b\<rparr>)"
  by (simp_all add: socks_same_def socks_core_def socks_pool_def)

lemma socks_same_select:
  "k_lb sf = Some lb \<Longrightarrow> lb_Select env d a lb = (r, lb') \<Longrightarrow> socks_same sf (sf\<lparr>k_lb := Some lb'\<rparr>)"
  by (auto simp: socks_same_def socks_core_def socks_pool_def dest: lb_Select_frame)

lemma socks_resolve_same: "socks_resolve env now later a sf = (b, sf') \<Longrightarrow> socks_same sf sf'"
  by (auto simp: socks_resolve_def split: prod.splits)

lemma socks_IsDeadLoop_same: "socks_IsDeadLoop env now later l h sf = (r, sf') \<Longrightarrow> socks_same sf sf'"
  by (auto simp: socks_IsDeadLoop_def socks_outIPs_def dest!: dead_loop_frame dest: socks_resolve_same split: prod.splits if_splits)

lemma socks_isUseProxy_same: "socks_isUseProxy env now later a sf = (r, sf') \<Longrightarrow> socks_same sf sf'"
  by (auto simp: socks_isUseProxy_def Let_def split: sum.splits prod.splits if_splits option.splits
      dest!: socks_resolve_same intro: socks_same_trans [OF _ socks_same_fields(2)])

lemma socks_isUseProxy_parent: "socks_isUseProxy env now later a sf = (Inr True, sf') \<Longrightarrow> kc_Parent (k_cfg sf) \<noteq> []"
  by (auto simp: socks_isUseProxy_def split: if_splits)

lemma ssh_address_same: "ssh_address env d now later sf = (r, sf') \<Longrightarrow> socks_same sf sf'"
  by (auto simp: ssh_address_def split: option.splits prod.splits sum.splits
      dest!: socks_resolve_same intro: socks_same_trans socks_same_select)

subsection \<open>A connection that was opened\<close>

text \<open>The connection of a request: through a parent, it is what the SOCKS5 handshake made of a connection dialled to the parent, or to the target
  itself when the parent is an SSH server; otherwise the target was dialled.\<close>

definition socks_route :: "('m, 'd, 'f, 't, 'u) socks_env \<Rightarrow> ('m, 'd, 'f, 't, 'u) Socks \<Rightarrow> socks_request \<Rightarrow> bool \<Rightarrow> string \<Rightarrow> conn \<Rightarrow> bool" where
  "socks_route env sf req proxied lbAddr out \<longleftrightarrow>
     (if proxied then
        \<exists>k c. socks_dialParent env (k_cfg sf) k (if kc_ParentType (k_cfg sf) = ''ssh'' then kr_DestAddr req else lbAddr) = Inr c \<and>
          ke_SOCKS5 env (proxyAuth sf (kr_username req, kr_password req) False) (kr_DestAddr req) c = Inr out
      else lbAddr = '''' \<and> (\<exists>a. ke_Dial env (bind_local (kc_BindListen (k_cfg sf)) (ke_IsIntranet env) (kr_LocalAddr req)) a = Inr out))"

definition socks_good :: "('m, 'd, 'f, 't, 'u) socks_env \<Rightarrow> ('m, 'd, 'f, 't, 'u) Socks \<Rightarrow> socks_handler \<Rightarrow> bool" where
  "socks_good env sf h \<longleftrightarrow> let_in env sf (kh_req h) \<and> socks_route env sf (kh_req h) (kh_proxied h) (kh_lbAddr h) (kh_out h) \<and>
     kh_encrypted h = (kh_proxied h \<and> kc_ParentKey (k_cfg sf) \<noteq> '''') \<and> (kh_proxied h \<longrightarrow> kc_Parent (k_cfg sf) \<noteq> [])"

lemma socks_core_frame:
  assumes "socks_core sf' = socks_core sf"
  shows "k_cfg sf' = k_cfg sf" "let_in env sf' = let_in env sf" "socks_route env sf' = socks_route env sf" "socks_good env sf' = socks_good env sf"
    "proxyAuth sf' = proxyAuth sf"
  using assms by (auto simp: socks_core_def let_in_def socks_route_def socks_good_def proxyAuth_def fun_eq_iff)

interpretation socks_conns: tracked "socks_good env" "\<lambda>h. (kh_phase h, kh_lbAddr h)" "\<lambda>h. h\<lparr>kh_phase := Joined\<rparr>" "\<lambda>h. h\<lparr>kh_closed := True\<rparr>"
  "\<lambda>h. h\<lparr>kh_phase := Released, kh_closed := True\<rparr>" for env
  by unfold_locales (simp_all add: socks_good_def)

lemma socks_attempt_route:
  assumes "socks_attempt env req k (sf, a) = (r, sf', a')"
  shows "socks_same sf sf' \<and> (\<forall>c. r = Inr c \<longrightarrow> socks_route env sf req True a' c)"
proof (cases "kc_ParentType (k_cfg sf) = ''ssh''")
  case True
  then show ?thesis using assms by (auto simp: socks_attempt_def socks5_Dial_def socks_route_def bindR_eq_Inr Let_def)
next
  case False
  show ?thesis
  proof (cases "k_lb sf")
    case None
    then show ?thesis using assms False by (auto simp: socks_attempt_def Let_def)
  next
    case (Some lb)
    define key where "key = (if kc_LbMethod (k_cfg sf) = ''hash'' \<and> kc_HashTarget (k_cfg sf) then kr_DestAddr req else kr_RemoteAddr req)"
    obtain q lb' where q: "lb_Select (ke_lb env) (ke_draws env k) key lb = (q, lb')" by fastforce
    note e = assms [unfolded socks_attempt_def Let_def prod.case, folded key_def, unfolded Some option.case q prod.case]
    have "socks_same sf (sf\<lparr>k_lb := Some lb'\<rparr>)" using socks_same_select [OF Some q] .
    then show ?thesis using e False by (cases q) (auto simp: socks5_Dial_def socks_route_def bindR_eq_Inr)
  qed
qed

lemma socks_attempts_route:
  assumes "attempts (socks_attempt env req) k n (sf, a) = (r, sf', a')"
  shows "socks_same sf sf' \<and> (\<forall>c. r = Inr c \<longrightarrow> socks_route env sf req True a' c)"
  using assms
proof (induction n arbitrary: k sf a)
  case 0
  then show ?case using socks_attempt_route [of env req k sf a] by simp
next
  case (Suc n)
  obtain r1 sf1 a1 where o: "socks_attempt env req k (sf, a) = (r1, sf1, a1)" by (metis prod_cases3)
  note c1 = socks_attempt_route [OF o]
  show ?case
  proof (cases "is_ok r1 \<or> panics r1")
    case True
    then have "r = r1" "sf' = sf1" "a' = a1" using Suc.prems o by simp_all
    then show ?thesis using c1 by simp
  next
    case False
    then have "attempts (socks_attempt env req) (Suc k) n (sf1, a1) = (r, sf', a')" using Suc.prems o by simp
    from Suc.IH [OF this] c1 show ?thesis using socks_core_frame(3) [of sf1 sf env] by (auto simp: socks_same_def)
  qed
qed

lemma dialForTcp_ok:
  assumes "retry_law retry" "dialForTcp env retry req sf = (r, sf')"
  shows "socks_same sf sf' \<and> (\<forall>p c a. r = Inr (p, c, a) \<longrightarrow> socks_route env sf req p a c \<and> (p \<longrightarrow> kc_Parent (k_cfg sf) \<noteq> []))"
proof -
  obtain d s1 where 1: "socks_IsDeadLoop env (kr_now req) (kr_later req) (kr_LocalAddr req) (kr_DestAddr req) sf = (d, s1)" by fastforce
  obtain u s2 where 2: "socks_isUseProxy env (kr_now req) (kr_later req) (kr_DestAddr req) s1 = (u, s2)" by fastforce
  have s1: "socks_same sf s1" by (rule socks_IsDeadLoop_same [OF 1])
  have s2: "socks_same sf s2" by (rule socks_same_trans [OF s1 socks_isUseProxy_same [OF 2]])
  note e = assms(2) [unfolded dialForTcp_def Let_def 1 prod.case 2]
  show ?thesis
  proof (cases "d \<or> (\<exists>p. u = Inl p)")
    case True
    then show ?thesis using e s1 s2 by (cases d) auto
  next
    case False
    then obtain p where p: "u = Inr p" "\<not> d" by (cases u) auto
    show ?thesis
    proof (cases p)
      case True
      obtain q s3 a where 3: "retry 5 (socks_attempt env req) (s2, '''') = (q, s3, a)" by (metis prod_cases3)
      from attempts_state [OF assms(1) 3] obtain m q' where "attempts (socks_attempt env req) 0 m (s2, '''') = (q', s3, a)" "is_ok q \<Longrightarrow> q' = q" by metis
      with socks_attempts_route have r: "socks_same s2 s3" "\<And>c. q = Inr c \<Longrightarrow> socks_route env s2 req True a c" by fastforce+
      have "kc_Parent (k_cfg s1) \<noteq> []" using 2 p(1) True by (auto dest!: socks_isUseProxy_parent)
      then have "kc_Parent (k_cfg sf) \<noteq> []" using s1 by (simp add: socks_same_def socks_core_def)
      moreover have "socks_route env s2 = socks_route env sf" using s2 by (intro socks_core_frame(3)) (simp add: socks_same_def)
      ultimately show ?thesis using e p True 3 r socks_same_trans [OF s2 r(1)] by (cases q) auto
    next
      case False
      obtain a s3 where 3: "socks_resolve env (kr_now req) (kr_later req) (kr_DestAddr req) s2 = (a, s3)" by fastforce
      have s3: "socks_same sf s3" by (rule socks_same_trans [OF s2 socks_resolve_same [OF 3]])
      then have "k_cfg s3 = k_cfg sf" by (simp add: socks_same_def socks_core_def)
      then show ?thesis using e p False 3 s3 by (auto simp: bindR_eq_Inr socks_dialDirect_def socks_route_def)
    qed
  qed
qed

subsection \<open>The invariant\<close>

definition socks_inv :: "('m, 'd, 'f, 't, 'u) socks_env \<Rightarrow> ('m, 'd, 'f, 't, 'u) Socks \<Rightarrow> bool" where
  "socks_inv env sf \<longleftrightarrow> conns_ok (socks_good env sf) (\<lambda>h. (kh_phase h, kh_lbAddr h)) (socks_pool sf) (k_handlers sf) \<and>
     (kc_Parent (k_cfg sf) = [] \<longrightarrow> k_lb sf = None)"

lemma socks_inv_same:
  assumes "socks_same sf sf'"
  shows "socks_inv env sf' = socks_inv env sf"
proof -
  have "k_lb sf' = None \<longleftrightarrow> k_lb sf = None" using assms by (auto simp: socks_same_def socks_pool_def)
  then show ?thesis using assms socks_core_frame(1,4) [of sf' sf] by (simp add: socks_inv_def socks_same_def)
qed

text \<open>What follows changes the connections, the tables and the counters, but not the core.\<close>

lemma socks_invI:
  assumes "socks_core sf' = socks_core sf" "conns_ok (socks_good env sf) (\<lambda>h. (kh_phase h, kh_lbAddr h)) (socks_pool sf') (k_handlers sf')"
    "k_lb sf' = None \<longleftrightarrow> k_lb sf = None" "socks_inv env sf"
  shows "socks_inv env sf'"
  using assms socks_core_frame(1,4) [OF assms(1)] by (simp add: socks_inv_def)

lemma socks_inv_open:
  assumes "socks_inv env sf" "retry_law retry" "let_in env sf req" "socks_open env retry req sf = (r, replies, sf')"
  shows "socks_inv env sf'"
proof -
  obtain q sf1 where d: "dialForTcp env retry req sf = (q, sf1)" by fastforce
  note ok = dialForTcp_ok [OF assms(2) d]
  then have 1: "socks_inv env sf1" "socks_core sf1 = socks_core sf" using assms(1) socks_inv_same [of sf sf1] by (auto simp: socks_same_def)
  consider "sf' = sf1" | p c a where "q = Inr (p, c, a)" "sf' = sf1\<lparr>k_handlers := k_handlers sf1 @
      [\<lparr>kh_req = req, kh_proxied = p, kh_lbAddr = a, kh_out = c, kh_encrypted = (p \<and> kc_ParentKey (k_cfg sf1) \<noteq> ''''), kh_phase = Connected, kh_closed = False\<rparr>]\<rparr>"
    using assms(4) d by (auto simp: socks_open_def split: sum.splits error.splits if_splits prod.splits)
  then show ?thesis
  proof cases
    case (2 p c a)
    define h where "h = \<lparr>kh_req = req, kh_proxied = p, kh_lbAddr = a, kh_out = c, kh_encrypted = (p \<and> kc_ParentKey (k_cfg sf1) \<noteq> ''''),
      kh_phase = Connected, kh_closed = False\<rparr>"
    have "socks_good env sf h" using ok 2(1) assms(3) socks_core_frame(1) [OF 1(2)] by (simp add: socks_good_def h_def)
    then have g: "socks_good env sf1 h" using socks_core_frame(4) [OF 1(2)] by simp
    show ?thesis
    proof (rule socks_invI [OF _ _ _ 1(1)])
      show "conns_ok (socks_good env sf1) (\<lambda>h. (kh_phase h, kh_lbAddr h)) (socks_pool sf') (k_handlers sf')"
        unfolding 2(2) h_def [symmetric] using 1(1) socks_conns.conns_add [OF _ g] by (simp add: socks_inv_def socks_pool_def h_def)
    qed (simp_all add: 2(2) socks_core_def)
  qed (use 1 in simp)
qed

lemma socks_inv_shut:
  assumes "socks_inv env sf"
  shows "socks_inv env (set_socks i (\<lambda>h. h\<lparr>kh_closed := True\<rparr>) sf)"
proof (rule socks_invI [OF _ _ _ assms])
  have "conns_ok (socks_good env sf) (\<lambda>h. (kh_phase h, kh_lbAddr h)) (socks_pool sf) (k_handlers sf)" using assms by (simp add: socks_inv_def)
  from socks_conns.conns_shut [OF this, of i]
  show "conns_ok (socks_good env sf) (\<lambda>h. (kh_phase h, kh_lbAddr h)) (socks_pool (set_socks i (\<lambda>h. h\<lparr>kh_closed := True\<rparr>) sf))
      (k_handlers (set_socks i (\<lambda>h. h\<lparr>kh_closed := True\<rparr>) sf))"
    by (simp add: set_socks_def socks_pool_def)
qed (simp_all add: set_socks_def socks_core_def)

lemma socks_inv_join:
  assumes "socks_inv env sf" "i < length (k_handlers sf)" "kh_phase (k_handlers sf ! i) = Connected"
  shows "socks_inv env (socks_join env i sf)"
proof -
  define h where "h = k_handlers sf ! i"
  define sf1 where "sf1 = (case cm_Get (ke_users env) (kr_RemoteAddr (kh_req h)) (k_userConns sf) of
      None \<Rightarrow> sf | Some j \<Rightarrow> set_socks j (\<lambda>h. h\<lparr>kh_closed := True\<rparr>) sf)"
  have inv1: "socks_inv env sf1" unfolding sf1_def using assms(1) socks_inv_shut by (auto split: option.split)
  have 1: "length (k_handlers sf1) = length (k_handlers sf)" "k_lb sf1 = k_lb sf" "k_cfg sf1 = k_cfg sf"
    by (simp_all add: sf1_def set_socks_def split: option.split)
  have 2: "kh_lbAddr (k_handlers sf1 ! i) = kh_lbAddr h \<and> kh_phase (k_handlers sf1 ! i) = Connected"
    using assms(3) socks_conns.key_after_shut by (auto simp: sf1_def set_socks_def h_def split: option.split)
  have o: "conns_ok (socks_good env sf1) (\<lambda>h. (kh_phase h, kh_lbAddr h)) (socks_pool sf1) (k_handlers sf1)"
    "kc_Parent (k_cfg sf1) = [] \<longrightarrow> k_lb sf1 = None" using inv1 by (simp_all add: socks_inv_def)
  show ?thesis
  proof (rule socks_invI [OF _ _ _ inv1])
    have "socks_pool (socks_join env i sf) = map_option (conn_step (Opened (kh_lbAddr h))) (socks_pool sf1)"
      using o(2) unfolding socks_join_def Let_def h_def [symmetric] sf1_def [symmetric]
      by (simp add: set_socks_def socks_pool_def pool_of_lb(1))
    then show "conns_ok (socks_good env sf1) (\<lambda>h. (kh_phase h, kh_lbAddr h)) (socks_pool (socks_join env i sf)) (k_handlers (socks_join env i sf))"
      using socks_conns.conns_enter [OF o(1), of i] 1 2 assms(2) unfolding socks_join_def Let_def h_def [symmetric] sf1_def [symmetric]
      by (simp add: set_socks_def)
  qed (simp_all add: socks_join_def Let_def h_def [symmetric] sf1_def [symmetric] set_socks_def socks_core_def)
qed

lemma socks_inv_release:
  assumes "socks_inv env sf" "i < length (k_handlers sf)" "kh_phase (k_handlers sf ! i) = Joined"
  shows "socks_inv env (socks_release env i sf)"
proof -
  define h where "h = k_handlers sf ! i"
  have o: "conns_ok (socks_good env sf) (\<lambda>h. (kh_phase h, kh_lbAddr h)) (socks_pool sf) (k_handlers sf)"
    "kc_Parent (k_cfg sf) = [] \<longrightarrow> k_lb sf = None" using assms(1) by (simp_all add: socks_inv_def)
  show ?thesis
  proof (rule socks_invI [OF _ _ _ assms(1)])
    have "socks_pool (socks_release env i sf) = map_option (conn_step (Closed (kh_lbAddr h))) (socks_pool sf)"
      using o(2) unfolding socks_release_def Let_def h_def [symmetric] by (simp add: set_socks_def socks_pool_def pool_of_lb(2))
    then show "conns_ok (socks_good env sf) (\<lambda>h. (kh_phase h, kh_lbAddr h)) (socks_pool (socks_release env i sf)) (k_handlers (socks_release env i sf))"
      using socks_conns.conns_release [OF o(1) assms(2)] assms(3) by (simp add: socks_release_def Let_def h_def set_socks_def)
  qed (simp_all add: socks_release_def Let_def set_socks_def socks_core_def)
qed

lemma socks_inv_check:
  assumes "socks_inv env sf" "k_lb sf = Some lb" "lb' = check_upstream (ke_lb env) m now later el i (lb\<lparr>lb_dns := k_resolver sf\<rparr>)"
  shows "socks_inv env (sf\<lparr>k_lb := Some lb', k_resolver := r\<rparr>)"
proof -
  obtain addr where u: "lb_upstreams lb' = (lb_upstreams lb)[i := healthyCheck (env_dial (ke_lb env)) m el addr (lb_upstreams lb ! i)]"
    using check_upstream_pool [of "ke_lb env" m now later el i "lb\<lparr>lb_dns := k_resolver sf\<rparr>"] assms(3) by auto
  show ?thesis
  proof (rule socks_invI [OF _ _ _ assms(1)])
    show "conns_ok (socks_good env sf) (\<lambda>h. (kh_phase h, kh_lbAddr h)) (socks_pool (sf\<lparr>k_lb := Some lb', k_resolver := r\<rparr>)) (k_handlers (sf\<lparr>k_lb := Some lb', k_resolver := r\<rparr>))"
      using assms(1,2) socks_conns.conns_check [of env sf "lb_upstreams lb" "k_handlers sf" i] u by (simp add: socks_inv_def socks_pool_def)
  qed (use assms(2) in \<open>simp_all add: socks_core_def\<close>)
qed

lemma socks_inv_stop:
  assumes "socks_inv env sf" "socks_Stop env sf = (r, sf')"
  shows "socks_inv env sf'"
proof -
  have c: "socks_core sf' = socks_core sf" "socks_pool sf' = socks_pool sf" "k_lb sf' = None \<longleftrightarrow> k_lb sf = None"
    using assms(2) by (auto simp: socks_Stop_def Let_def socks_core_def socks_pool_def pool_of_lb(3) split: if_splits)
  have "conns_ok (socks_good env sf) (\<lambda>h. (kh_phase h, kh_lbAddr h)) (socks_pool sf) (k_handlers sf)" using assms(1) by (simp add: socks_inv_def)
  note o = this socks_conns.conns_shut_all [OF this]
  have "k_handlers sf' = k_handlers sf \<or> (\<exists>xs. k_handlers sf' = foldl (\<lambda>hs (_, i). hs[i := (hs ! i)\<lparr>kh_closed := True\<rparr>]) (k_handlers sf) (xs :: (string \<times> nat) list))"
    using assms(2) by (auto simp: socks_Stop_def Let_def split: if_splits)
  then have "conns_ok (socks_good env sf) (\<lambda>h. (kh_phase h, kh_lbAddr h)) (socks_pool sf') (k_handlers sf')" unfolding c(2) using o by auto
  then show ?thesis by (rule socks_invI [OF c(1) _ c(3) assms(1)])
qed

text \<open>Starting the service.\<close>

definition socks_idle :: "('m, 'd, 'f, 't, 'u) Socks \<Rightarrow> bool" where
  "socks_idle sf \<longleftrightarrow> k_handlers sf = [] \<and> (\<forall>us. socks_pool sf = Some us \<longrightarrow> (\<forall>u \<in> set us. connections u = 0)) \<and>
     (kc_Parent (k_cfg sf) = [] \<longrightarrow> k_lb sf = None)"

lemma socks_idle_inv: "socks_idle sf \<Longrightarrow> socks_inv env sf"
  by (simp add: socks_idle_def socks_inv_def conns_ok_idle)

lemma socks_idle_same:
  assumes "socks_same sf sf'" "socks_idle sf"
  shows "socks_idle sf'"
proof -
  have "k_lb sf' = None \<longleftrightarrow> k_lb sf = None" using assms(1) by (auto simp: socks_same_def socks_pool_def)
  then show ?thesis using assms by (simp add: socks_idle_def socks_same_def socks_core_def)
qed

lemma socks_init_parents_idle:
  assumes "socks_init_parents env sf = (r, sf')" "k_handlers sf = []" "k_lb sf = None"
  shows "socks_idle sf'"
  using assms by (auto simp: socks_init_parents_def socks_idle_def socks_pool_def lb_New_def apply_option_def NewUpstreamPool_conns Let_def
      split: if_splits prod.splits sum.splits option.splits)

lemma socks_init_ssh_idle:
  assumes "socks_init_ssh env now later sf = (r, sf')" "socks_idle sf"
  shows "socks_idle sf'"
proof -
  obtain q sf1 where a: "ssh_address env (ke_draws env 0) now later sf = (q, sf1)" by fastforce
  have 1: "socks_idle sf1" using socks_idle_same [OF ssh_address_same [OF a] assms(2)] .
  then have "socks_idle (sf1\<lparr>k_ssh := True\<rparr>)" using socks_idle_same [OF socks_same_fields(3)] by blast
  then show ?thesis using assms(1) a 1 by (auto simp: socks_init_ssh_def split: sum.splits option.splits)
qed

lemma socks_start_idle:
  assumes "socks_Start env now later (socks_New env cfg) = (Inr u, sf)"
  shows "socks_idle sf"
proof -
  from assms obtain s1 s2 u1 u2 where s: "socks_inspectConfig env (socks_New env cfg) = (Inr u1, s1)"
    "socks_initService env now later s1 = (Inr u2, s2)" "sf = s2\<lparr>k_listening := True\<rparr>"
    by (auto simp: socks_Start_def socks_begin_def split: prod.splits sum.splits if_splits option.splits)
  have 1: "k_handlers s1 = []" "k_lb s1 = None"
    using s(1) by (auto simp: socks_inspectConfig_def socks_New_def Let_def split: sum.splits)
  have "socks_idle s2" using s(2) 1
    by (auto simp: socks_initService_def Let_def split: sum.splits prod.splits if_splits option.splits
        dest!: socks_init_parents_idle socks_init_ssh_idle)
  then show ?thesis using socks_idle_same [OF socks_same_fields(4)] s(3) by blast
qed

lemma socks_reach_inv:
  assumes "retry_law retry" "socks_reach env retry cfg s"
  shows "socks_inv env (fst s)"
  using assms(2)
proof (induction rule: socks_reach.induct)
  case (k_start now later sf)
  then show ?case using socks_start_idle socks_idle_inv by fastforce
next
  case (k_step s s')
  from k_step.hyps(2) k_step.IH show ?case
  proof (induction rule: socks_step.induct)
    case (k_open sf req r replies sf' fl pl)
    then show ?case using socks_inv_open [OF _ assms(1)] by simp
  next
    case (k_probed sf f q pl fl moment now)
    then show ?case by (simp add: socks_inv_same [OF socks_same_fields(2)])
  next
    case (k_keepalive sf draws now later sf' fl pl)
    then have "socks_same sf sf'" by (auto simp: ssh_keepalive_def dest: ssh_address_same split: prod.splits)
    then show ?case using k_keepalive.prems socks_inv_same by auto
  qed (simp_all add: socks_inv_join socks_inv_release socks_inv_check socks_inv_stop)
qed

subsection \<open>Properties\<close>



subsection \<open>Where the service does not do what it means to\<close>

lemma url_only_center:
  assumes "cmap_laws (pw_cmap env)" "url \<noteq> ''''"
  shows "\<exists>ce. init_center env resolver '''' [] url timeout code n = Some ce \<and> (\<forall>user pw addr. \<not> Valid env user pw addr ce)"
  using assms by (simp add: init_center_def auth_New_def SetAuthURL_def SetDNSServer_def Valid_def VerifyFromLocal_def cmap_New)

lemma ssh_without_parents:
  assumes "kc_Parent cfg = []" "kc_ParentType cfg = ''ssh''" "kc_LocalType cfg = ''tcp''" "kc_LocalKey cfg = ''''" "kc_RateLimit cfg = ''''" "kc_ParentAuth cfg = ''''"
  shows "fst (socks_Start env now later (socks_New env cfg)) = Inl (Panic NilDereference)"
  using assms
  by (simp add: socks_Start_def socks_begin_def socks_inspectConfig_def socks_check_tls_def socks_check_parent_def socks_check_auth_def localUDPKey_def
      parentUDPKey_def socks_udp_key_def socks_initService_def socks_init_parents_def socks_init_ssh_def ssh_address_def socks_New_def Let_def is_ok_def
      panics_def)

lemma ssh_error_panics:
  assumes "kc_ParentType cfg = ''ssh''" "fst (socks_inspectConfig env (socks_New env cfg)) = Inl e"
  shows "panics (fst (socks_Start env now later (socks_New env cfg)))"
proof -
  obtain sf where i: "socks_inspectConfig env (socks_New env cfg) = (Inl e, sf)" using assms(2) by (metis prod.collapse)
  then have "k_ssh sf = False" "kc_ParentType (k_cfg sf) = ''ssh''"
    using assms(1) by (auto simp: socks_inspectConfig_def socks_New_def Let_def split: sum.splits if_splits)
  then show ?thesis using i by (simp add: socks_Start_def socks_begin_def socks_Stop_def Let_def panics_def)
qed

lemma tls_without_parents:
  assumes "kc_Parent cfg = []" "kc_ParentType cfg = ''tls''" "kc_LocalType cfg = ''tcp''" "kc_LocalKey cfg = ''''" "kc_RateLimit cfg = ''''" "kc_ParentAuth cfg = ''''"
  shows "fst (socks_Start env now later (socks_New env cfg)) = Inl (Panic SliceOutOfRange)"
  using assms
  by (simp add: socks_Start_def socks_begin_def socks_inspectConfig_def socks_check_tls_def socks_check_parent_def socks_check_auth_def localUDPKey_def
      parentUDPKey_def socks_udp_key_def slice_at_def socks_New_def Let_def is_ok_def panics_def)

text \<open>Four places where the SOCKS5 proxy does not do what it means to. An SSH parent is not used as a tunnel: the SOCKS5 handshake is spoken
  with the target itself, over the tunnel. When only a URL is configured for the authentication, no client is ever let in, because the URL
  is not consulted. A configuration of the type \<open>ssh\<close> that is rejected ends in a panic instead of the error, and one without
  parents in a \<open>nil\<close> dereference. The default certificate is not loaded without parents, so that the type \<open>tls\<close> without parents ends in a panic.\<close>

theorem socks_anomalies:
  assumes "cmap_laws (pw_cmap (ke_auth env))"
  shows "(\<forall>req k sf a. kc_ParentType (k_cfg sf) = ''ssh'' \<longrightarrow>
      socks_attempt env req k (sf, a) =
        (bindR (ke_dialParent env k (kr_DestAddr req)) (ke_SOCKS5 env (proxyAuth sf (kr_username req, kr_password req) False) (kr_DestAddr req)), sf, a)) \<and>
    (\<forall>resolver url timeout code n. url \<noteq> '''' \<longrightarrow>
      (\<exists>ce. init_center (ke_auth env) resolver '''' [] url timeout code n = Some ce \<and> (\<forall>user pw addr. \<not> Valid (ke_auth env) user pw addr ce))) \<and>
    (\<forall>cfg now later e. kc_ParentType cfg = ''ssh'' \<and> fst (socks_inspectConfig env (socks_New env cfg)) = Inl e \<longrightarrow>
      panics (fst (socks_Start env now later (socks_New env cfg)))) \<and>
    (\<forall>cfg now later. kc_Parent cfg = [] \<and> kc_LocalType cfg = ''tcp'' \<and> kc_LocalKey cfg = '''' \<and> kc_RateLimit cfg = '''' \<and> kc_ParentAuth cfg = '''' \<longrightarrow>
      (kc_ParentType cfg = ''ssh'' \<longrightarrow> fst (socks_Start env now later (socks_New env cfg)) = Inl (Panic NilDereference)) \<and>
      (kc_ParentType cfg = ''tls'' \<longrightarrow> fst (socks_Start env now later (socks_New env cfg)) = Inl (Panic SliceOutOfRange)))"
proof (intro conjI allI impI, goal_cases)
  case (1 req k sf a)
  then show ?case by (simp add: socks_attempt_def socks5_Dial_def socks_dialParent_def Let_def)
next
  case 2
  then show ?case by (rule url_only_center [OF assms])
next
  case 3
  then show ?case by (auto intro: ssh_error_panics)
next
  case 4
  then show ?case by (auto intro: ssh_without_parents)
next
  case 5
  then show ?case by (auto intro: tls_without_parents)
qed

subsection \<open>An example\<close>

definition example_socks_env ::
  "((string, string) alist, (string, dns_item) alist, (string, filter_item) alist, (string, unit) alist, (string, nat) alist) socks_env" where
  "example_socks_env = \<lparr>ke_auth = example_auth, ke_lb = example_env, ke_filter = example_filter_env, ke_users = alist_cmap,
     ke_selectors = [(''roundrobin'', SRoundRobin 0)], ke_draws = (\<lambda>_ _. 0), ke_IsDomain = (\<lambda>_. True), ke_IsIntranet = (\<lambda>_. False),
     ke_LookupIP = (\<lambda>_. Inl EOF), ke_SystemNetworkIPs = Inr [], ke_LoadPair = (\<lambda>_ _. Inl EOF), ke_ReadFile = (\<lambda>_. None), ke_ParseBytes = (\<lambda>_. Inl EOF),
     ke_SSHParse = None, ke_md5_hex = (\<lambda>_. replicate 32 (CHR ''0'')), ke_ssh_Dial = (\<lambda>_. None), ke_Listen = (\<lambda>_. None),
     ke_dialParent = (\<lambda>_ _. Inr (good_conn [])), ke_SOCKS5 = (\<lambda>_ _ c. Inr c), ke_Dial = (\<lambda>_ _. Inr (good_conn []))\<rparr>"

definition example_socks_cfg :: "string \<Rightarrow> socks_config" where
  "example_socks_cfg kind = \<lparr>kc_ParentType = kind, kc_Parent = [], kc_ParentKey = '''', kc_ParentAuth = '''', kc_LocalType = ''tcp'', kc_Local = '':28080'',
     kc_LocalKey = '''', kc_CertFile = '''', kc_KeyFile = '''', kc_CaCertFile = '''', kc_KCPKey = '''', kc_Timeout = 5, kc_Always = False,
     kc_Intelligent = ''intelligent'', kc_ProxyFile = '''', kc_DirectFile = '''', kc_FilterInterval = 10, kc_AuthFile = '''', kc_UserPasses = [''tom:pw''],
     kc_AuthURL = '''', kc_AuthTimeout = 0, kc_AuthOkCode = 0, kc_AuthRetry = 0, kc_DNSAddr = '''', kc_DNSTTL = 0, kc_LbMethod = ''roundrobin'',
     kc_LbTimeout = 0, kc_LbRetryTime = 0, kc_HashTarget = False, kc_RateLimit = '''', kc_LocalIPS = [], kc_BindListen = False\<rparr>"

definition example_socks_request :: socks_request where
  "example_socks_request = \<lparr>kr_RemoteAddr = ''10.0.0.9:4000'', kr_LocalAddr = ''10.0.0.1:28080'', kr_DestAddr = ''a.b:443'', kr_username = ''tom'',
     kr_password = ''pw'', kr_now = 0, kr_later = 0, kr_replied = True\<rparr>"

definition ex_k0 :: "((string, string) alist, (string, dns_item) alist, (string, filter_item) alist, (string, unit) alist, (string, nat) alist) Socks" where
  "ex_k0 = snd (socks_Start example_socks_env 0 0 (socks_New example_socks_env (example_socks_cfg ''tcp'')))"

lemma ex_k0_start:
  "socks_Start example_socks_env 0 0 (socks_New example_socks_env (example_socks_cfg ''tcp'')) = (Inr (), ex_k0)"
  "k_cfg ex_k0 = example_socks_cfg ''tcp''" "k_center ex_k0 = Some (snd (auth_Add example_auth [''tom:pw''] (auth_New example_auth [])))"
  "k_resolver ex_k0 = None" "k_handlers ex_k0 = []" "\<not> k_cancelled ex_k0"
  by (simp_all add: ex_k0_def socks_Start_def socks_begin_def socks_inspectConfig_def socks_check_tls_def socks_check_parent_def socks_check_auth_def
      localUDPKey_def parentUDPKey_def socks_udp_key_def socks_initService_def socks_init_parents_def socks_New_def init_center_def
      example_socks_env_def example_socks_cfg_def Let_def is_ok_def panics_def)

lemma ex_k0_let_in: "let_in example_socks_env ex_k0 example_socks_request"
  by (simp add: let_in_def ex_k0_start(3) Valid_def VerifyFromLocal_def example_socks_request_def example_socks_env_def example_auth_def auth_New_def
      alist_cmap_laws cmap_Set)

lemma ex_k0_dial:
  "dialForTcp example_socks_env (\<lambda>n op s. attempts op 0 n s) example_socks_request ex_k0 = (Inr (False, good_conn [], ''''), ex_k0)"
proof -
  have "SplitHostPort ''10.0.0.1:28080'' = Inr (''10.0.0.1'', ''28080'')" "SplitHostPort ''a.b:443'' = Inr (''a.b'', ''443'')" by code_simp+
  then have "socks_IsDeadLoop example_socks_env 0 0 ''10.0.0.1:28080'' ''a.b:443'' ex_k0 = (False, ex_k0)"
    by (simp add: socks_IsDeadLoop_def dead_loop_def)
  moreover have "socks_isUseProxy example_socks_env 0 0 ''a.b:443'' ex_k0 = (Inr False, ex_k0)"
    by (simp add: socks_isUseProxy_def ex_k0_start(2) example_socks_cfg_def)
  moreover have "socks_resolve example_socks_env 0 0 ''a.b:443'' ex_k0 = (''a.b:443'', ex_k0)"
    using ex_k0_start(4) by (simp add: socks_resolve_def outil_Resolve_def)
  ultimately show ?thesis
    by (simp add: dialForTcp_def example_socks_request_def socks_dialDirect_def example_socks_env_def)
qed



theorem socks_anomalies_witness:
  "fst (socks_Start example_socks_env 0 0 (socks_New example_socks_env (example_socks_cfg ''ssh''))) = Inl (Panic NilDereference)"
proof -
  have l: "cmap_laws (pw_cmap (ke_auth example_socks_env))" by (simp add: example_socks_env_def example_auth_def alist_cmap_laws)
  have "kc_Parent (example_socks_cfg ''ssh'') = []" "kc_LocalType (example_socks_cfg ''ssh'') = ''tcp''" "kc_LocalKey (example_socks_cfg ''ssh'') = ''''"
    "kc_RateLimit (example_socks_cfg ''ssh'') = ''''" "kc_ParentAuth (example_socks_cfg ''ssh'') = ''''" "kc_ParentType (example_socks_cfg ''ssh'') = ''ssh''"
    by (simp_all add: example_socks_cfg_def)
  then show ?thesis using socks_anomalies [OF l, THEN conjunct2, THEN conjunct2, THEN conjunct2] by blast
qed

end
