(* ===== verification/Ss_Request.thy ===== *)
theory Ss_Request
  imports Shadowsocks
begin

section \<open>A request on an encrypted connection\<close>

text \<open>
  \<open>shadowsocks.ParseRequest\<close> reads from any \<open>io.Reader\<close>. The theory of the addresses has it on a byte
  sequence; here it reads from an encrypted connection, whose \<open>Read\<close> returns whatever a segment of
  the network holds. \<open>io.ReadFull\<close> is the loop of the standard library over that \<open>Read\<close>.
\<close>

subsection \<open>Reading exactly so many bytes\<close>

definition seg_measure :: "bytes list \<Rightarrow> nat" where
  "seg_measure ss = sum_list (map (\<lambda>s. Suc (length s)) ss)"

lemma seg_measure_simps [simp]: "seg_measure [] = 0" "seg_measure (s # ss) = Suc (length s) + seg_measure ss"
  by (simp_all add: seg_measure_def)

lemma seg_measure_drop: "seg_measure (drop_segs n ss) \<le> seg_measure ss"
  by (induction n ss rule: drop_segs.induct) auto

lemma conn_Read_measure: "conn_Read n c = (Inr d, c') \<Longrightarrow> 0 < n \<Longrightarrow> seg_measure (inbox c') < seg_measure (inbox c)"
  by (auto simp: conn_Read_def split: list.splits if_splits)

lemma conn_ReadFull_measure: "conn_ReadFull n c = (r, c') \<Longrightarrow> seg_measure (inbox c') \<le> seg_measure (inbox c)"
  by (auto simp: conn_ReadFull_def Let_def seg_measure_drop split: if_splits)

lemma ss_Read_measure:
  assumes "ss_Read env n sf = (Inr d, sf')" "0 < n"
  shows "seg_measure (inbox (raw sf')) < seg_measure (inbox (raw sf))"
  using assms(1)
  by (auto simp: ss_Read_def split: if_splits prod.splits sum.splits dest!: conn_Read_measure [OF _ assms(2)] conn_ReadFull_measure)

function ss_ReadFull :: "'st ss_env \<Rightarrow> nat \<Rightarrow> 'st ss_conn \<Rightarrow> bytes result \<times> 'st ss_conn" where
  "ss_ReadFull env n sf =
     (if n = 0 then (Inr [], sf)
      else case ss_Read env n sf of
             (Inl e, sf) \<Rightarrow> (Inl e, sf)
           | (Inr d, sf) \<Rightarrow>
               (case ss_ReadFull env (n - length d) sf of
                  (Inl e, sf) \<Rightarrow> (Inl (if e = EOF \<and> d \<noteq> [] then ErrUnexpectedEOF else e), sf)
                | (Inr r, sf) \<Rightarrow> (Inr (d @ r), sf)))"
  by pat_completeness auto
termination
proof (relation "measure (\<lambda>(env, n, sf). seg_measure (inbox (raw sf)))")
  show "wf (measure (\<lambda>(env, n, sf). seg_measure (inbox (raw sf))))" by (rule wf_measure)
next
  fix env :: "'st ss_env" and n sf sf' r d
  assume "n \<noteq> 0" "(r, sf') = ss_Read env n sf" "r = Inr d"
  then have "ss_Read env n sf = (Inr d, sf')" "0 < n" by auto
  from ss_Read_measure [OF this]
  show "((env, n - length d, sf'), env, n, sf) \<in> measure (\<lambda>(env, n, sf). seg_measure (inbox (raw sf)))" by simp
qed

declare ss_ReadFull.simps [simp del]

subsection \<open>The request\<close>

definition bindS :: "('s \<Rightarrow> 'a result \<times> 's) \<Rightarrow> ('a \<Rightarrow> 's \<Rightarrow> 'b result \<times> 's) \<Rightarrow> 's \<Rightarrow> 'b result \<times> 's" where
  "bindS m f s = (case m s of (Inl e, s) \<Rightarrow> (Inl e, s) | (Inr x, s) \<Rightarrow> f x s)"

definition ss_conn_ParseRequest :: "'st ss_env \<Rightarrow> 'st ss_conn \<Rightarrow> string result \<times> 'st ss_conn" where
  "ss_conn_ParseRequest env =
     bindS (ss_ReadFull env 1) (\<lambda>tmp.
       let at = tmp ! 0 AND AddrMask in
       if at = typeIPv4 then
         bindS (ss_ReadFull env 6) (\<lambda>t s. (Inr (JoinHostPort (IP_String (take 4 t)) (Itoa (ss_port t 4))), s))
       else if at = typeIPv6 then
         bindS (ss_ReadFull env 18) (\<lambda>t s. (Inr (JoinHostPort (IP_String (take 16 t)) (Itoa (ss_port t 16))), s))
       else if at = typeDomain then
         bindS (ss_ReadFull env 1) (\<lambda>l. let n = unat (l ! 0) in
         bindS (ss_ReadFull env (n + 2)) (\<lambda>t s. (Inr (JoinHostPort (bytes_str (take n t)) (Itoa (ss_port t n))), s)))
       else (\<lambda>s. (Inl (ErrMsg ''address type not supported''), s)))"

text \<open>The bytes that can still be read from an encrypted connection: the decryption of what is to come, behind the
  vector when that has not been read yet.\<close>

definition plain :: "'st ss_env \<Rightarrow> bytes \<Rightarrow> 'st ss_conn \<Rightarrow> bool" where
  "plain env pt sf \<longleftrightarrow>
     (case reader (cipher sf) of
        Some st \<Rightarrow> pt = fst (XORKeyStream env st (concat (inbox (raw sf))))
      | None \<Rightarrow> \<exists>v ct d. concat (inbox (raw sf)) = v @ ct \<and> length v = ivLen (cipher sf) \<and>
                  NewStream env (meth (cipher sf)) (key (cipher sf)) v False = Inr d \<and> pt = fst (XORKeyStream env d ct))"

lemma plain_fresh:
  assumes "reader (cipher sf) = None" "concat (inbox (raw sf)) = v @ ct" "length v = ivLen (cipher sf)"
    "NewStream env (meth (cipher sf)) (key (cipher sf)) v False = Inr d"
  shows "plain env (fst (XORKeyStream env d ct)) sf"
  unfolding plain_def assms(1) option.case using assms(2-4) by blast

text \<open>A read gets a part of these bytes, and fails at their end only.\<close>

lemma plain_Read_started:
  assumes "stream_laws env R" "plain env pt sf" "reader (cipher sf) = Some st" "ss_Read env n sf = (r, sf')"
  shows "case r of Inl e \<Rightarrow> e = EOF \<and> pt = [] \<and> plain env pt sf' | Inr x \<Rightarrow> \<exists>pt'. pt = x @ pt' \<and> length x \<le> n \<and> plain env pt' sf'"
proof -
  have pt: "pt = fst (XORKeyStream env st (concat (inbox (raw sf))))" using assms(2,3) by (simp add: plain_def)
  have len: "length (fst (XORKeyStream env s x)) = length x" for s x using stream_length [OF assms(1)] .
  obtain q c where q: "conn_Read n (raw sf) = (q, c)" by fastforce
  show ?thesis
  proof (cases q)
    case (Inl e)
    then have "inbox (raw sf) = []" "e = EOF" "c = raw sf" using q by (auto simp: conn_Read_def split: list.splits)
    then show ?thesis using assms(3,4) q Inl pt stream_empty [OF assms(1)] by (auto simp: ss_Read_def plain_def)
  next
    case (Inr y)
    then have y: "concat (inbox (raw sf)) = y @ concat (inbox c)" "length y \<le> n"
      using conn_Read_concat q by (auto simp: conn_Read_def split: list.splits)
    obtain x st' where x: "XORKeyStream env st y = (x, st')" by fastforce
    then have *: "pt = x @ fst (XORKeyStream env st' (concat (inbox c)))" "length x = length y"
      using pt y(1) stream_append [OF assms(1), of st y] len [of st y] by simp_all
    show ?thesis
    proof (cases "y = []")
      case True
      then show ?thesis using assms(3,4) q Inr pt y(1) by (auto simp: ss_Read_def plain_def)
    next
      case False
      then have "r = Inr x" "plain env (fst (XORKeyStream env st' (concat (inbox c)))) sf'"
        using assms(3,4) q Inr x by (auto simp: ss_Read_def ss_decrypt_def plain_def)
      then show ?thesis using * y(2) by auto
    qed
  qed
qed

lemma plain_Read:
  assumes "stream_laws env R" "plain env pt sf" "ss_Read env n sf = (r, sf')"
  shows "case r of Inl e \<Rightarrow> e = EOF \<and> pt = [] \<and> plain env pt sf' | Inr x \<Rightarrow> \<exists>pt'. pt = x @ pt' \<and> length x \<le> n \<and> plain env pt' sf'"
proof (cases "reader (cipher sf)")
  case (Some st)
  from plain_Read_started [OF assms(1,2) Some assms(3)] show ?thesis .
next
  case None
  then obtain v ct d where w: "concat (inbox (raw sf)) = v @ ct" "length v = ivLen (cipher sf)"
    "NewStream env (meth (cipher sf)) (key (cipher sf)) v False = Inr d" "pt = fst (XORKeyStream env d ct)"
    using assms(2) by (auto simp: plain_def)
  obtain sf1 where sf1: "\<And>n. ss_Read env n sf = ss_Read env n sf1" "received env d ct [] sf1"
    using ss_Read_first [OF assms(1) None w(1-3)] by blast
  then have s1: "reader (cipher sf1) = Some d" "ct = concat (inbox (raw sf1))"
    by (auto simp: received_def stream_empty [OF assms(1)])
  then have "plain env pt sf1" by (simp add: plain_def w(4))
  from plain_Read_started [OF assms(1) this s1(1), of n r sf'] assms(3) sf1(1) [of n] show ?thesis by simp
qed

lemma plain_ReadFull:
  "stream_laws env R \<Longrightarrow> plain env pt sf \<Longrightarrow> ss_ReadFull env n sf = (r, sf') \<Longrightarrow>
    (case ReadFull n pt of Inl e \<Rightarrow> r = Inl e | Inr (x, pt') \<Rightarrow> r = Inr x \<and> plain env pt' sf')"
proof (induction env n sf arbitrary: pt r sf' rule: ss_ReadFull.induct)
  case (1 env n sf)
  show ?case
  proof (cases "n = 0")
    case True
    then show ?thesis using "1.prems" by (simp add: ss_ReadFull.simps [of env 0])
  next
    case False
    obtain q sf1 where q: "ss_Read env n sf = (q, sf1)" by fastforce
    note step = plain_Read [OF "1.prems"(1,2) q]
    show ?thesis
    proof (cases q)
      case (Inl e)
      then show ?thesis using step "1.prems"(3) q False by (auto simp: ss_ReadFull.simps [of env n] ReadFull_def)
    next
      case (Inr x)
      with step obtain pt1 where p: "pt = x @ pt1" "length x \<le> n" "plain env pt1 sf1" by auto
      obtain q2 sf2 where q2: "ss_ReadFull env (n - length x) sf1 = (q2, sf2)" by fastforce
      have IH: "case ReadFull (n - length x) pt1 of Inl e \<Rightarrow> q2 = Inl e | Inr (x, pt') \<Rightarrow> q2 = Inr x \<and> plain env pt' sf2"
        using "1.IH" [OF False q [symmetric] Inr "1.prems"(1) p(3) q2] .
      have r: "(r, sf') = (case q2 of Inl e \<Rightarrow> (Inl (if e = EOF \<and> x \<noteq> [] then ErrUnexpectedEOF else e), sf2) | Inr y \<Rightarrow> (Inr (x @ y), sf2))"
        using "1.prems"(3) False q Inr q2 by (simp add: ss_ReadFull.simps [of env n] split: sum.splits)
      show ?thesis using IH r p(1,2) by (auto simp: ReadFull_def split: if_splits)
    qed
  qed
qed

text \<open>On the connection the request is parsed as on the byte sequence that the connection delivers: the same result,
  and the same bytes left.\<close>

definition delivers :: "'st ss_env \<Rightarrow> ('a \<times> bytes) result \<Rightarrow> 'a result \<times> 'st ss_conn \<Rightarrow> bool" where
  "delivers env p q \<longleftrightarrow> (case p of Inl e \<Rightarrow> fst q = Inl e | Inr (y, pt) \<Rightarrow> fst q = Inr y \<and> plain env pt (snd q))"

lemma delivers_simps [simp]:
  "delivers env (Inl e) q \<longleftrightarrow> fst q = Inl e" "delivers env (Inr (y, pt)) q \<longleftrightarrow> fst q = Inr y \<and> plain env pt (snd q)"
  by (simp_all add: delivers_def)

lemma plain_bind:
  assumes "stream_laws env R" "plain env pt sf" "\<And>x pt sf. plain env pt sf \<Longrightarrow> delivers env (f x pt) (g x sf)"
  shows "delivers env (bindP (ReadFull n) f pt) (bindS (ss_ReadFull env n) g sf)"
proof -
  obtain r sf' where r: "ss_ReadFull env n sf = (r, sf')" by fastforce
  note * = plain_ReadFull [OF assms(1,2) r]
  show ?thesis
  proof (cases "ReadFull n pt")
    case (Inl e)
    then show ?thesis using * r by (simp add: bindP_def bindS_def)
  next
    case (Inr y)
    then obtain x pt' where "ReadFull n pt = Inr (x, pt')" "r = Inr x" "plain env pt' sf'" using * by (cases y) auto
    then show ?thesis using assms(3) [of pt' sf' x] r by (simp add: bindP_def bindS_def)
  qed
qed

lemma plain_ParseRequest:
  assumes "stream_laws env R" "plain env pt sf"
  shows "delivers env (ss_ParseRequest pt) (ss_conn_ParseRequest env sf)"
  unfolding ss_ParseRequest_def ss_conn_ParseRequest_def Let_def
proof (rule plain_bind [OF assms])
  note b = plain_bind [OF assms(1)]
  show "delivers env ((if x ! 0 AND AddrMask = typeIPv4 then bindP (ReadFull 6) (\<lambda>t. retP (JoinHostPort (IP_String (take 4 t)) (Itoa (ss_port t 4))))
       else if x ! 0 AND AddrMask = typeIPv6 then bindP (ReadFull 18) (\<lambda>t. retP (JoinHostPort (IP_String (take 16 t)) (Itoa (ss_port t 16))))
       else if x ! 0 AND AddrMask = typeDomain then bindP (ReadFull 1) (\<lambda>l.
         bindP (ReadFull (unat (l ! 0) + 2)) (\<lambda>t. retP (JoinHostPort (bytes_str (take (unat (l ! 0)) t)) (Itoa (ss_port t (unat (l ! 0)))))))
       else failP (ErrMsg ''address type not supported'')) pt)
     ((if x ! 0 AND AddrMask = typeIPv4 then bindS (ss_ReadFull env 6) (\<lambda>t s. (Inr (JoinHostPort (IP_String (take 4 t)) (Itoa (ss_port t 4))), s))
       else if x ! 0 AND AddrMask = typeIPv6 then bindS (ss_ReadFull env 18) (\<lambda>t s. (Inr (JoinHostPort (IP_String (take 16 t)) (Itoa (ss_port t 16))), s))
       else if x ! 0 AND AddrMask = typeDomain then bindS (ss_ReadFull env 1) (\<lambda>l.
         bindS (ss_ReadFull env (unat (l ! 0) + 2)) (\<lambda>t s. (Inr (JoinHostPort (bytes_str (take (unat (l ! 0)) t)) (Itoa (ss_port t (unat (l ! 0))))), s)))
       else (\<lambda>s. (Inl (ErrMsg ''address type not supported''), s))) sf)" if "plain env pt sf" for x pt sf
    using that by (auto intro!: b)
qed

end
