(* ===== verification/Sps.thy ===== *)
theory Sps
  imports Httpc Socks5 Ss_Request Service_Common
begin

section \<open>services/sps: the protocol converter\<close>

text \<open>
  The service accepts SOCKS5, HTTP, TLS and shadowsocks clients on one port. It recognises the protocol by
  the first bytes, does the client's handshake, and asks a parent proxy of one configured kind (HTTP, SOCKS5 or shadowsocks) for
  the target.

  Parameters are the same as for the other services: \<open>sps_env\<close> has what is outside of the repository,
  \<open>sps_call\<close> what the environment does during one connection: the addresses and the clock, the random draws, the outcome of
  \<open>dialParent\<close> (\<open>ccs.Dialer\<close>), random bytes (of a given number) and the outcome of a UDP listener. The resolver is one object, kept in \<open>sp_resolver\<close> and lent to
  the authentication centre for a call. \<open>fmt.Sprintf("%x", md5.Sum(s))\<close> is the parameter \<open>md5_hex\<close>. Encryption with a shared
  key and rate limiting of a connection are transparent and left out. UDP associations are in a theory of their own.
\<close>

record sps_config =
  pc_ParentType :: string
  pc_Parent :: "string list"
  pc_ParentKey :: string
  pc_ParentAuth :: string
  pc_ParentTLSSingle :: bool
  pc_LocalType :: string
  pc_Local :: string
  pc_LocalKey :: string
  pc_CertFile :: string
  pc_KeyFile :: string
  pc_CaCertFile :: string
  pc_KCPKey :: string
  pc_AuthFile :: string
  pc_UserPasses :: "string list"
  pc_AuthURL :: string
  pc_AuthTimeout :: int
  pc_AuthOkCode :: int
  pc_AuthRetry :: nat
  pc_DNSAddr :: string
  pc_DNSTTL :: int
  pc_LbMethod :: string
  pc_LbTimeout :: int
  pc_LbRetryTime :: int
  pc_HashTarget :: bool
  pc_ParentServiceType :: string
  pc_ParentSSMethod :: string
  pc_ParentSSKey :: string
  pc_SSMethod :: string
  pc_SSKey :: string
  pc_DisableHTTP :: bool
  pc_DisableSocks5 :: bool
  pc_DisableSS :: bool
  pc_RateLimit :: string
  pc_LocalIPS :: "string list"
  pc_RawProxyURL :: string

record ('m, 'd, 'u, 'url, 'st) sps_env =
  pe_auth :: "('m, 'd) auth_env"
  pe_lb :: "'d lb_env"
  pe_users :: "('u, nat) cmap"
  pe_selectors :: registry
  pe_ss :: "'st ss_env"
  pe_LoadPair :: "string \<Rightarrow> string \<Rightarrow> (bytes \<times> bytes) result"
  pe_ReadFile :: "string \<Rightarrow> error option"
  pe_ParseBytes :: "string \<Rightarrow> nat result"
  pe_url_Parse :: "string \<Rightarrow> 'url result"
  md5_hex :: "string \<Rightarrow> string"
  pe_Listen :: "string \<Rightarrow> error option"
  pe_ListenUDP :: "string \<Rightarrow> error option"

record sps_call =
  cl_peer :: peer
  cl_draws :: draws
  cl_dial :: "string \<Rightarrow> conn result"
  cl_rnd :: "nat \<Rightarrow> bytes result"
  cl_listen :: "string result"

text \<open>A connection of the service, encrypted or not.\<close>

datatype 'st sps_conn = Plain conn | Enc "'st ss_conn"

datatype proto = ProtoSocks5 | ProtoHTTP | ProtoSS

text \<open>What a client asked for: the address, its credentials, the head that is to be forwarded, and the connection.\<close>

record 'st sps_asked =
  sa_proto :: proto
  sa_address :: string
  sa_auth :: "string \<times> string"
  sa_forward :: string
  sa_in :: "'st sps_conn"

record 'st sps_handler =
  sh_src :: string
  sh_asked :: "'st sps_asked"
  sh_lbAddr :: string
  sh_out :: "'st sps_conn"
  sh_phase :: phase
  sh_closed :: bool

record ('m, 'd, 'u, 'url, 'st) SPS =
  sp_cfg :: sps_config
  sp_resolver :: "'d Resolver option"
  sp_center :: "('m, 'd) Center option"
  sp_listening :: "string list"
  sp_udpListening :: "string list"
  sp_userConns :: 'u
  sp_localCipher :: "'st Cipher option"
  sp_parentCipher :: "'st Cipher option"
  sp_lb :: "'d Balanced option"
  sp_rateLimit :: nat
  sp_udpLocalKey :: bytes
  sp_udpParentKey :: bytes
  sp_proxyURL :: "'url option"
  sp_parentAuthData :: "string \<rightharpoonup> string"
  sp_parentCipherData :: "string \<rightharpoonup> 'st Cipher"
  sp_handlers :: "'st sps_handler list"
  sp_stopped :: bool

definition sps_New :: "('m, 'd, 'u, 'url, 'st) sps_env \<Rightarrow> sps_config \<Rightarrow> ('m, 'd, 'u, 'url, 'st) SPS" where
  "sps_New env cfg = \<lparr>sp_cfg = cfg, sp_resolver = None, sp_center = None, sp_listening = [], sp_udpListening = [],
     sp_userConns = cm_New (pe_users env), sp_localCipher = None, sp_parentCipher = None, sp_lb = None, sp_rateLimit = 0,
     sp_udpLocalKey = [], sp_udpParentKey = [], sp_proxyURL = None, sp_parentAuthData = Map.empty, sp_parentCipherData = Map.empty,
     sp_handlers = [], sp_stopped = False\<rparr>"

subsection \<open>Starting\<close>

text \<open>The keys of the UDP relays. The key of the certificate is \<open>nil\<close> when no certificate was loaded.\<close>

definition md5_key :: "('m, 'd, 'u, 'url, 'st) sps_env \<Rightarrow> string \<Rightarrow> bytes result" where
  "md5_key env s = slice_at (str_bytes (md5_hex env s)) 0 24"

definition ParentUDPKey :: "('m, 'd, 'u, 'url, 'st) sps_env \<Rightarrow> sps_config \<Rightarrow> bytes option \<Rightarrow> bytes result" where
  "ParentUDPKey env cfg tlsKey =
     (if pc_ParentType cfg = ''tcp'' then
        if pc_ParentKey cfg \<noteq> '''' then md5_key env (pc_ParentKey cfg) else Inr []
      else if pc_ParentType cfg = ''tls'' then
        (case tlsKey of None \<Rightarrow> Inr [] | Some k \<Rightarrow> slice_at k 0 24)
      else if pc_ParentType cfg = ''kcp'' then md5_key env (pc_KCPKey cfg)
      else Inr [])"

definition LocalUDPKey :: "('m, 'd, 'u, 'url, 'st) sps_env \<Rightarrow> sps_config \<Rightarrow> bytes option \<Rightarrow> bytes result" where
  "LocalUDPKey env cfg tlsKey =
     (if pc_LocalType cfg = ''tcp'' then
        if pc_LocalKey cfg \<noteq> '''' then md5_key env (pc_LocalKey cfg) else Inr []
      else if pc_LocalType cfg = ''tls'' then slice_at (case tlsKey of None \<Rightarrow> [] | Some k \<Rightarrow> k) 0 24
      else if pc_LocalType cfg = ''kcp'' then md5_key env (pc_KCPKey cfg)
      else Inr [])"

definition sps_check_tls :: "('m, 'd, 'u, 'url, 'st) sps_env \<Rightarrow> sps_config \<Rightarrow> bytes option result" where
  "sps_check_tls env cfg =
     (if pc_ParentType cfg = ''tls'' \<or> pc_LocalType cfg = ''tls'' then
        bindR (if pc_ParentTLSSingle cfg then Inr None
               else bindR (pe_LoadPair env (pc_CertFile cfg) (pc_KeyFile cfg)) (\<lambda>(_, k). Inr (Some k))) (\<lambda>tlsKey.
          if pc_CaCertFile cfg \<noteq> '''' \<and> pe_ReadFile env (pc_CaCertFile cfg) \<noteq> None then Inl (ErrMsg ''read ca file error'')
          else Inr tlsKey)
      else Inr None)"

definition sps_check :: "('m, 'd, 'u, 'url, 'st) sps_env \<Rightarrow> sps_config \<Rightarrow> (nat \<times> bytes \<times> bytes \<times> 'url option) result" where
  "sps_check env cfg =
     (if pc_Parent cfg = [] then Inl (ErrMsg ''parent required'')
      else if pc_ParentType cfg = '''' then Inl (ErrMsg ''parent type unkown,use -T <tls|tcp|kcp>'')
      else if pc_ParentType cfg = ''ss'' \<and> (pc_ParentSSKey cfg = '''' \<or> pc_ParentSSMethod cfg = '''')
        then Inl (ErrMsg ''ss parent need a ss key, set it by : -J <sskey>'')
      else
        bindR (sps_check_tls env cfg) (\<lambda>tlsKey.
        bindR (if pc_RateLimit cfg \<noteq> ''0'' \<and> pc_RateLimit cfg \<noteq> '''' then
                 case pe_ParseBytes env (pc_RateLimit cfg) of Inl _ \<Rightarrow> Inl (ErrMsg ''parse rate limit size'') | Inr sz \<Rightarrow> Inr sz
               else Inr 0) (\<lambda>rate.
        bindR (LocalUDPKey env cfg tlsKey) (\<lambda>localKey.
        bindR (ParentUDPKey env cfg tlsKey) (\<lambda>parentKey.
          if pc_RawProxyURL cfg \<noteq> '''' then
            if pc_ParentType cfg \<noteq> ''tls'' \<and> pc_ParentType cfg \<noteq> ''tcp'' then Inl (ErrMsg ''proxyURL only worked of -T is tls or tcp'')
            else case ParseProxyURL (pe_url_Parse env) (pc_RawProxyURL cfg) of
                   Inl _ \<Rightarrow> Inl (ErrMsg ''new proxyURL'')
                 | Inr u \<Rightarrow> Inr (rate, localKey, parentKey, Some u)
          else Inr (rate, localKey, parentKey, None))))))"

definition InspectConfig ::
  "('m, 'd, 'u, 'url, 'st) sps_env \<Rightarrow> ('m, 'd, 'u, 'url, 'st) SPS \<Rightarrow> unit result \<times> ('m, 'd, 'u, 'url, 'st) SPS" where
  "InspectConfig env sf =
     (let cfg = (if pc_Parent (sp_cfg sf) = [''''] then (sp_cfg sf)\<lparr>pc_Parent := []\<rparr> else sp_cfg sf);
          sf = sf\<lparr>sp_cfg := cfg\<rparr>
      in case sps_check env cfg of
           Inl e \<Rightarrow> (Inl e, sf)
         | Inr (rate, localKey, parentKey, u) \<Rightarrow>
             (Inr (), sf\<lparr>sp_rateLimit := rate, sp_udpLocalKey := localKey, sp_udpParentKey := parentKey, sp_proxyURL := u\<rparr>))"

text \<open>
  A parent is written \<open>host:port\<close>, \<open>host:port@weight\<close>, or with the credentials of this parent in base64 and a \<open>#\<close>
  before it: \<open>user:password\<close>, or \<open>method:key\<close> when the parents are shadowsocks servers.
\<close>

definition parent_secret ::
  "('m, 'd, 'u, 'url, 'st) sps_env \<Rightarrow> sps_config \<Rightarrow> string \<Rightarrow> string \<Rightarrow> (string \<rightharpoonup> string) \<times> (string \<rightharpoonup> 'st Cipher) \<Rightarrow>
   ((string \<rightharpoonup> string) \<times> (string \<rightharpoonup> 'st Cipher)) result" where
  "parent_secret env cfg auth addr tabs =
     (case tabs of (authData, cipherData) \<Rightarrow>
        if pc_ParentServiceType cfg = ''ss'' then
          (let s = split_on (CHR '':'') auth; m = s ! 0 in
           bindR (index_at s 1) (\<lambda>k.
           bindR (NewCipher (pe_ss env) (if m = '''' then pc_ParentSSMethod cfg else m) (if k = '''' then pc_ParentSSKey cfg else k)) (\<lambda>c.
             Inr (authData, cipherData(addr \<mapsto> c)))))
        else Inr (authData(addr \<mapsto> auth), cipherData))"

fun sps_parents ::
  "('m, 'd, 'u, 'url, 'st) sps_env \<Rightarrow> sps_config \<Rightarrow> string list \<Rightarrow> (string \<rightharpoonup> string) \<times> (string \<rightharpoonup> 'st Cipher) \<Rightarrow>
   (Config list \<times> (string \<rightharpoonup> string) \<times> (string \<rightharpoonup> 'st Cipher)) result" where
  "sps_parents env cfg [] tabs = Inr ([], tabs)"
| "sps_parents env cfg (addr # as) tabs =
     bindR (if CHR ''#'' \<in> set addr then
              (case DecodeString (takeWhile (\<lambda>c. c \<noteq> CHR ''#'') addr) of
                 None \<Rightarrow> Inl (ErrMsg ''illegal base64 data'')
               | Some b \<Rightarrow>
                   (let addrInfo = split_on (CHR ''@'') (tl (dropWhile (\<lambda>c. c \<noteq> CHR ''#'') addr)) in
                    bindR (parent_secret env cfg (bytes_str b) (addrInfo ! 0) tabs) (\<lambda>tabs. Inr (addrInfo, tabs))))
            else Inr (split_on (CHR ''@'') addr, tabs)) (\<lambda>(addrInfo, tabs).
     bindR (sps_parents env cfg as tabs) (\<lambda>(configs, tabs).
       Inr (weighted_config (pc_LbRetryTime cfg) (pc_LbTimeout cfg) addrInfo # configs, tabs)))"

text \<open>The two ciphers, the client's when it is configured and the parent's when the parents are shadowsocks servers.\<close>

definition sps_ciphers :: "('m, 'd, 'u, 'url, 'st) sps_env \<Rightarrow> sps_config \<Rightarrow> ('st Cipher option \<times> 'st Cipher option) result" where
  "sps_ciphers env cfg =
     bindR (if pc_SSMethod cfg \<noteq> '''' \<and> pc_SSKey cfg \<noteq> '''' then
              bindR (NewCipher (pe_ss env) (pc_SSMethod cfg) (pc_SSKey cfg)) (\<lambda>c. Inr (Some c))
            else Inr None) (\<lambda>lc.
     bindR (if pc_ParentServiceType cfg = ''ss'' then
              bindR (NewCipher (pe_ss env) (pc_ParentSSMethod cfg) (pc_ParentSSKey cfg)) (\<lambda>c. Inr (Some c))
            else Inr None) (\<lambda>pc. Inr (lc, pc)))"

definition InitService ::
  "('m, 'd, 'u, 'url, 'st) sps_env \<Rightarrow> ('m, 'd, 'u, 'url, 'st) SPS \<Rightarrow> unit result \<times> ('m, 'd, 'u, 'url, 'st) SPS" where
  "InitService env sf =
     (let cfg = sp_cfg sf;
          sf = (if pc_DNSAddr cfg \<noteq> '''' then sf\<lparr>sp_resolver := Some (idns_New (env_cmap (pe_lb env)) (pc_DNSAddr cfg) (pc_DNSTTL cfg))\<rparr> else sf);
          sf = sf\<lparr>sp_center := init_center (pe_auth env) (sp_resolver sf) (pc_AuthFile cfg) (pc_UserPasses cfg) (pc_AuthURL cfg)
                    (pc_AuthTimeout cfg) (pc_AuthOkCode cfg) (pc_AuthRetry cfg)\<rparr>
      in case (if pc_Parent cfg = [] then Inr (sp_parentAuthData sf, sp_parentCipherData sf, sp_lb sf)
               else bindR (sps_parents env cfg (pc_Parent cfg) (sp_parentAuthData sf, sp_parentCipherData sf)) (\<lambda>(configs, authData, cipherData).
                    bindR (lb_New (pe_selectors env) (pc_LbMethod cfg) configs [WithDNSServer (sp_resolver sf)]) (\<lambda>lb.
                      Inr (authData, cipherData, Some lb)))) of
           Inl e \<Rightarrow> (Inl e, sf)
         | Inr (authData, cipherData, lb) \<Rightarrow>
             (let sf = sf\<lparr>sp_parentAuthData := authData, sp_parentCipherData := cipherData, sp_lb := lb\<rparr>
              in case sps_ciphers env cfg of
                   Inl e \<Rightarrow> (Inl e, sf)
                 | Inr (lc, pc) \<Rightarrow> (Inr (), sf\<lparr>sp_localCipher := lc, sp_parentCipher := pc\<rparr>)))"

text \<open>The listeners, one for each address and with SOCKS5 parents a UDP listener beside it. \<open>Start\<close> returns at the first that fails and leaves
  the others open.\<close>

fun sps_listen ::
  "('m, 'd, 'u, 'url, 'st) sps_env \<Rightarrow> string list \<Rightarrow> ('m, 'd, 'u, 'url, 'st) SPS \<Rightarrow> unit result \<times> ('m, 'd, 'u, 'url, 'st) SPS" where
  "sps_listen env [] sf = (Inr (), sf)"
| "sps_listen env (addr # as) sf =
     (if addr = '''' then sps_listen env as sf
      else case pe_Listen env addr of
             Some e \<Rightarrow> (Inl e, sf)
           | None \<Rightarrow>
               (let sf = sf\<lparr>sp_listening := sp_listening sf @ [addr]\<rparr>
                in if pc_ParentServiceType (sp_cfg sf) = ''socks'' then
                     (case pe_ListenUDP env addr of
                        Some e \<Rightarrow> (Inl e, sf)
                      | None \<Rightarrow> sps_listen env as (sf\<lparr>sp_udpListening := sp_udpListening sf @ [addr]\<rparr>))
                   else sps_listen env as sf))"

definition sps_Start ::
  "('m, 'd, 'u, 'url, 'st) sps_env \<Rightarrow> ('m, 'd, 'u, 'url, 'st) SPS \<Rightarrow> unit result \<times> ('m, 'd, 'u, 'url, 'st) SPS" where
  "sps_Start env sf =
     (case InspectConfig env sf of
        (Inl e, sf) \<Rightarrow> (Inl e, sf)
      | (Inr _, sf) \<Rightarrow>
          (case InitService env sf of
             (Inl e, sf) \<Rightarrow> (Inl e, sf)
           | (Inr _, sf) \<Rightarrow> sps_listen env (split_on (CHR '','') (pc_Local (sp_cfg sf))) sf))"

definition sps_Stop :: "('m, 'd, 'u, 'url, 'st) sps_env \<Rightarrow> ('m, 'd, 'u, 'url, 'st) SPS \<Rightarrow> ('m, 'd, 'u, 'url, 'st) SPS" where
  "sps_Stop env sf =
     sf\<lparr>sp_stopped := True, sp_listening := [], sp_udpListening := [],
        sp_handlers := foldl (\<lambda>hs (_, i). hs[i := (hs ! i)\<lparr>sh_closed := True\<rparr>]) (sp_handlers sf) (cm_Items (pe_users env) (sp_userConns sf)),
        sp_lb := map_option lb_Close (sp_lb sf)\<rparr>"

subsection \<open>Recognising the client\<close>

text \<open>
  The connection behind a \<open>bufio.Reader\<close> of 4096 bytes: reading a byte and putting it back fills the buffer with what the
  first \<open>Read\<close> returns (empty reads are repeated), and later reads get the buffered bytes first. At most 2048 of the buffered bytes are looked at. A
  connection that ends before its first byte shows an empty head.
\<close>

definition buffered :: "conn \<Rightarrow> conn" where
  "buffered c = c\<lparr>inbox := (case dropWhile (\<lambda>s. s = []) (inbox c) of
     [] \<Rightarrow> []
   | s # ss \<Rightarrow> if length s \<le> bufio_size then s # ss else take bufio_size s # drop bufio_size s # ss)\<rparr>"

definition peek_head :: "conn \<Rightarrow> bytes" where
  "peek_head c = (case inbox (buffered c) of [] \<Rightarrow> [] | s # _ \<Rightarrow> take 2048 s)"

definition classify :: "bytes \<Rightarrow> proto result" where
  "classify h =
     bindR (case ServerNameFromBytes h of Inl (Panic p) \<Rightarrow> Inl (Panic p) | Inl _ \<Rightarrow> Inr '''' | Inr name \<Rightarrow> Inr name) (\<lambda>isSNI.
       Inr (if IsSocks5 h then ProtoSocks5
            else if IsHTTP (bytes_str h) \<or> isSNI \<noteq> '''' then ProtoHTTP
            else ProtoSS))"

text \<open>What comes of a client: it is dropped because its protocol is disabled, it wants a UDP association, or it asks for a
  connection.\<close>

datatype ('m, 'd, 'st) client_outcome =
    Dropped
  | Associated "('m, 'd) SocksServer" conn
  | Asked "'st sps_asked"

definition lend_center :: "('m, 'd, 'u, 'url, 'st) SPS \<Rightarrow> ('m, 'd) Center option" where
  "lend_center sf = map_option (\<lambda>ce. ce\<lparr>au_resolver := sp_resolver sf\<rparr>) (sp_center sf)"

definition back_center :: "('m, 'd) Center option \<Rightarrow> ('m, 'd, 'u, 'url, 'st) SPS \<Rightarrow> ('m, 'd, 'u, 'url, 'st) SPS" where
  "back_center center sf =
     sf\<lparr>sp_center := center, sp_resolver := (case center of None \<Rightarrow> sp_resolver sf | Some ce \<Rightarrow> au_resolver ce)\<rparr>"

text \<open>A SOCKS5 client. The address announced for UDP is that of the connection, or the first of the configured ones.\<close>

definition accept_socks5 ::
  "('m, 'd, 'u, 'url, 'st) sps_env \<Rightarrow> sps_call \<Rightarrow> conn \<Rightarrow> ('m, 'd, 'u, 'url, 'st) SPS \<Rightarrow> ('m, 'd, 'st) client_outcome result \<times> ('m, 'd, 'u, 'url, 'st) SPS" where
  "accept_socks5 env cl c sf =
     (let p = cl_peer cl;
          enableUDP = (pc_ParentServiceType (sp_cfg sf) = ''socks'');
          udpIP = (case pc_LocalIPS (sp_cfg sf) of ip # _ \<Rightarrow> ip
                   | [] \<Rightarrow> (case SplitHostPort (LocalAddr p) of Inl _ \<Rightarrow> '''' | Inr (h, _) \<Rightarrow> h));
          se = \<lparr>se_auth = pe_auth env, se_now = p_now p, se_later = p_later p, se_remote = RemoteAddr p, se_local = LocalAddr p,
                se_listen = cl_listen cl\<rparr>
      in case Server_Handshake se (NewServer (lend_center sf) enableUDP udpIP []) c of
           (Inl e, _) \<Rightarrow> (Inl e, sf)
         | (Inr s, c) \<Rightarrow>
             (Inr (if IsUDP s then Associated s c
                   else Asked \<lparr>sa_proto = ProtoSocks5, sa_address = ss_target s, sa_auth = (ss_pUser s, ss_pPassword s), sa_forward = '''', sa_in = Plain c\<rparr>),
              back_center (ss_auth s) sf))"

text \<open>An HTTP client, or a TLS client whose hello names the server. A CONNECT request is answered at once; the head of any other
  request is kept for the parent. The credentials are read when there is an authentication centre.\<close>

definition accept_http ::
  "('m, 'd, 'u, 'url, 'st) sps_env \<Rightarrow> sps_call \<Rightarrow> bytes \<Rightarrow> conn \<Rightarrow> ('m, 'd, 'u, 'url, 'st) SPS \<Rightarrow> ('m, 'd, 'st) client_outcome result \<times> ('m, 'd, 'u, 'url, 'st) SPS" where
  "accept_http env cl h c sf =
     (case httpc_New (pe_auth env) (cl_peer cl) 1024 (lend_center sf) c of
        ((Inl e, center), _) \<Rightarrow> (Inl e, back_center center sf)
      | ((Inr req, center), c) \<Rightarrow>
          (let sf = back_center center sf;
               isConnect = (7 \<le> length h \<and> to_lower (bytes_str (take 7 h)) = ''connect'');
               c = (if isConnect then snd (HTTPSReply c) else c);
               forward = (if isConnect then '''' else rq_RawHeader req)
           in case (if sp_center sf = None then (Inr ('''', ''''), c)
                    else case GetProxyAuthUserPassPair req c of
                           (Inl e, c) \<Rightarrow> (Inl e, c)
                         | (Inr pair, c) \<Rightarrow> (Inr (case split_on (CHR '':'') pair of [u, p] \<Rightarrow> (u, p) | _ \<Rightarrow> ('''', '''')), c)) of
                (Inl e, _) \<Rightarrow> (Inl e, sf)
              | (Inr auth, c) \<Rightarrow>
                  (Inr (Asked \<lparr>sa_proto = ProtoHTTP, sa_address = rq_Host req, sa_auth = auth, sa_forward = forward, sa_in = Plain c\<rparr>), sf)))"

text \<open>A shadowsocks client; without a configured cipher its clone is taken of a \<open>nil\<close> pointer.\<close>

definition accept_ss ::
  "('m, 'd, 'u, 'url, 'st) sps_env \<Rightarrow> conn \<Rightarrow> ('m, 'd, 'u, 'url, 'st) SPS \<Rightarrow> ('m, 'd, 'st) client_outcome result \<times> ('m, 'd, 'u, 'url, 'st) SPS" where
  "accept_ss env c sf =
     (case sp_localCipher sf of
        None \<Rightarrow> (Inl (Panic NilDereference), sf)
      | Some lc \<Rightarrow>
          (case ss_conn_ParseRequest (pe_ss env) \<lparr>raw = c, cipher = Clone lc\<rparr> of
             (Inl e, _) \<Rightarrow> (Inl e, sf)
           | (Inr address, sc) \<Rightarrow>
               if CHR 0x00 \<in> set address then (Inl (ErrMsg ''invalid domain name''), sf)
               else (Inr (Asked \<lparr>sa_proto = ProtoSS, sa_address = address, sa_auth = ('''', ''''), sa_forward = '''', sa_in = Enc sc\<rparr>), sf)))"

definition accept_client ::
  "('m, 'd, 'u, 'url, 'st) sps_env \<Rightarrow> sps_call \<Rightarrow> conn \<Rightarrow> ('m, 'd, 'u, 'url, 'st) SPS \<Rightarrow> ('m, 'd, 'st) client_outcome result \<times> ('m, 'd, 'u, 'url, 'st) SPS" where
  "accept_client env cl c sf =
     (let h = peek_head c; c = buffered c in
      case classify h of
        Inl e \<Rightarrow> (Inl e, sf)
      | Inr ProtoSocks5 \<Rightarrow> if pc_DisableSocks5 (sp_cfg sf) then (Inr Dropped, sf) else accept_socks5 env cl c sf
      | Inr ProtoHTTP \<Rightarrow> if pc_DisableHTTP (sp_cfg sf) then (Inr Dropped, sf) else accept_http env cl h c sf
      | Inr ProtoSS \<Rightarrow> if pc_DisableSS (sp_cfg sf) then (Inr Dropped, sf) else accept_ss env c sf)"

subsection \<open>Asking the parent\<close>

definition getParentAuth :: "('m, 'd, 'u, 'url, 'st) SPS \<Rightarrow> string \<Rightarrow> string" where
  "getParentAuth sf lbAddr = (case sp_parentAuthData sf lbAddr of Some a \<Rightarrow> a | None \<Rightarrow> pc_ParentAuth (sp_cfg sf))"

definition getParentCipher :: "('m, 'd, 'u, 'url, 'st) SPS \<Rightarrow> string \<Rightarrow> 'st Cipher result" where
  "getParentCipher sf lbAddr =
     (case sp_parentCipherData sf lbAddr of
        Some c \<Rightarrow> Inr (Clone c)
      | None \<Rightarrow> (case sp_parentCipher sf of None \<Rightarrow> Inl (Panic NilDereference) | Some c \<Rightarrow> Inr (Clone c)))"

text \<open>The credentials for the parent: the configured ones, or those of the client when the service does not authenticate
  itself.\<close>

definition real_auth :: "string \<Rightarrow> bool \<Rightarrow> bool \<Rightarrow> string \<times> string \<Rightarrow> (string \<times> string) option result" where
  "real_auth parentAuth fromSS noCenter auth =
     (if parentAuth \<noteq> '''' then
        (case split_on (CHR '':'') parentAuth of
           [u, p] \<Rightarrow> Inr (Some (u, p))
         | _ \<Rightarrow> Inl (ErrMsg ''parent auth data format error''))
      else Inr (if \<not> fromSS \<and> noCenter \<and> snd auth \<noteq> '''' \<and> fst auth \<noteq> '''' then Some auth else None))"

text \<open>A user and a password print as \<open>user:password\<close>; the string for no credentials is empty.\<close>

definition tunnel_headers :: "string \<Rightarrow> (string \<times> string) option \<Rightarrow> string" where
  "tunnel_headers address auth =
     ''Host: '' @ address @ CRLF @ ''Proxy-Host: '' @ address @ CRLF @ ''Proxy-Connection: Keep-Alive'' @ CRLF @
     ''Connection: Keep-Alive'' @ CRLF @
     (case auth of None \<Rightarrow> ''''
      | Some (u, p) \<Rightarrow> ''Proxy-Authorization: Basic '' @ EncodeToString (str_bytes (u @ '':'' @ p)) @ CRLF)"

definition ask_http :: "string \<Rightarrow> (string \<times> string) option \<Rightarrow> string \<Rightarrow> unit io" where
  "ask_http address auth forward =
     (if forward = '''' then
        bindIO (conn_Write (str_bytes (''CONNECT '' @ address @ '' HTTP/1.1'' @ CRLF @ tunnel_headers address auth @ CRLF))) (\<lambda>_.
        bindIO (conn_Read 1024) (\<lambda>_. retIO ()))
      else conn_Write (str_bytes (InsertProxyHeaders forward (tunnel_headers address auth))))"

definition HandshakeSocksParent ::
  "('m, 'd, 'u, 'url, 'st) SPS \<Rightarrow> string \<Rightarrow> string \<Rightarrow> string \<Rightarrow> string \<times> string \<Rightarrow> bool \<Rightarrow> SocksClient io" where
  "HandshakeSocksParent sf parentAuth network dstAddr auth fromSS =
     bindIO (liftR (real_auth parentAuth fromSS (sp_center sf = None) auth)) (\<lambda>realAuth.
       Client_Handshake (NewClient network dstAddr realAuth []))"

text \<open>The request to the parent, on the connection to it. The result is the connection for the client's data, and the head that is
  still to be forwarded.\<close>

definition ask_parent ::
  "('m, 'd, 'u, 'url, 'st) sps_env \<Rightarrow> (nat \<Rightarrow> bytes result) \<Rightarrow> ('m, 'd, 'u, 'url, 'st) SPS \<Rightarrow> string \<Rightarrow> 'st sps_asked \<Rightarrow> string \<Rightarrow> conn \<Rightarrow>
   ('st sps_conn \<times> string) result" where
  "ask_parent env rnd sf lbAddr asked forward out =
     (if pc_ParentServiceType (sp_cfg sf) = ''http'' then
        bindR (real_auth (getParentAuth sf lbAddr) False (sp_center sf = None) (sa_auth asked)) (\<lambda>auth.
          case ask_http (sa_address asked) auth forward out of
            (Inl e, _) \<Rightarrow> Inl e
          | (Inr _, out) \<Rightarrow> Inr (Plain out, ''''))
      else if pc_ParentServiceType (sp_cfg sf) = ''socks'' then
        (case HandshakeSocksParent sf (getParentAuth sf lbAddr) ''tcp'' (sa_address asked) (sa_auth asked) False out of
           (Inl e, _) \<Rightarrow> Inl e
         | (Inr _, out) \<Rightarrow> Inr (Plain out, forward))
      else if pc_ParentServiceType (sp_cfg sf) = ''ss'' then
        (case ss_ParseAddrSpec (sa_address asked) of
           Inl _ \<Rightarrow> Inl (ErrMsg ''build ss raw addr fail'')
         | Inr ra \<Rightarrow>
             bindR (getParentCipher sf lbAddr) (\<lambda>c.
               case NewConnWithRawAddr (pe_ss env) (rnd (ivLen c)) out ra c of
                 Inl (Panic p) \<Rightarrow> Inl (Panic p)
               | Inl _ \<Rightarrow> Inl (ErrMsg ''dial ss parent fail'')
               | Inr sc \<Rightarrow> Inr (Enc sc, forward)))
      else Inl (ErrMsg ''not support''))"

text \<open>The rest of the head, whose writing may fail unnoticed.\<close>

definition write_rest :: "('m, 'd, 'u, 'url, 'st) sps_env \<Rightarrow> (nat \<Rightarrow> bytes result) \<Rightarrow> string \<Rightarrow> 'st sps_conn \<Rightarrow> 'st sps_conn" where
  "write_rest env rnd forward out =
     (if forward = '''' then out
      else case out of
             Plain c \<Rightarrow> Plain (snd (conn_Write (str_bytes forward) c))
           | Enc sc \<Rightarrow> Enc (snd (ss_Write (pe_ss env) (rnd (ivLen (cipher sc))) (str_bytes forward) sc)))"

definition strip_forward :: "('m, 'd, 'u, 'url, 'st) SPS \<Rightarrow> string \<Rightarrow> string \<Rightarrow> string" where
  "strip_forward sf lbAddr forward =
     (if getParentAuth sf lbAddr \<noteq> '''' \<or> pc_ParentSSKey (sp_cfg sf) \<noteq> '''' \<or> sp_center sf \<noteq> None
      then RemoveProxyHeaders forward else forward)"

text \<open>\<open>proxyTCP\<close> after the client's handshake, up to the point where the connections are joined.\<close>

definition sps_connect ::
  "('m, 'd, 'u, 'url, 'st) sps_env \<Rightarrow> sps_call \<Rightarrow> 'st sps_asked \<Rightarrow> ('m, 'd, 'u, 'url, 'st) SPS \<Rightarrow> unit result \<times> ('m, 'd, 'u, 'url, 'st) SPS" where
  "sps_connect env cl asked sf =
     (if sa_address asked = '''' then (Inl (ErrMsg ''unknown request''), sf)
      else
        let src = RemoteAddr (cl_peer cl);
            selectAddr = (if pc_LbMethod (sp_cfg sf) = ''hash'' \<and> pc_HashTarget (sp_cfg sf) then sa_address asked else src)
        in case sp_lb sf of
             None \<Rightarrow> (Inl (Panic NilDereference), sf)
           | Some lb \<Rightarrow>
               (case lb_Select (pe_lb env) (cl_draws cl) selectAddr lb of
                  (Inl p, lb) \<Rightarrow> (Inl p, sf\<lparr>sp_lb := Some lb\<rparr>)
                | (Inr lbAddr, lb) \<Rightarrow>
                    (let sf = sf\<lparr>sp_lb := Some lb\<rparr>
                     in case bindR (cl_dial cl lbAddr) (ask_parent env (cl_rnd cl) sf lbAddr asked (strip_forward sf lbAddr (sa_forward asked))) of
                          Inl e \<Rightarrow> (Inl e, sf)
                        | Inr (out, forward) \<Rightarrow>
                            (Inr (), sf\<lparr>sp_handlers := sp_handlers sf @
                               [\<lparr>sh_src = src, sh_asked = asked, sh_lbAddr = lbAddr, sh_out = write_rest env (cl_rnd cl) forward out,
                                 sh_phase = Connected, sh_closed = False\<rparr>]\<rparr>))))"

definition sps_open ::
  "('m, 'd, 'u, 'url, 'st) sps_env \<Rightarrow> sps_call \<Rightarrow> conn \<Rightarrow> ('m, 'd, 'u, 'url, 'st) SPS \<Rightarrow> unit result \<times> ('m, 'd, 'u, 'url, 'st) SPS" where
  "sps_open env cl c sf =
     (if pc_ParentType (sp_cfg sf) \<notin> set [''tcp'', ''stcp'', ''tls'', ''kcp''] then (Inl (ErrMsg ''unkown parent type''), sf)
      else case accept_client env cl c sf of
             (Inl e, sf) \<Rightarrow> (Inl e, sf)
           | (Inr Dropped, sf) \<Rightarrow> (Inr (), sf)
           | (Inr (Associated _ _), sf) \<Rightarrow> (Inr (), sf)
           | (Inr (Asked asked), sf) \<Rightarrow> sps_connect env cl asked sf)"

text \<open>The rest of \<open>proxyTCP\<close>: the connection is entered and counted, and after the transfer released.\<close>

definition set_conn :: "nat \<Rightarrow> ('st sps_handler \<Rightarrow> 'st sps_handler) \<Rightarrow> ('m, 'd, 'u, 'url, 'st) SPS \<Rightarrow> ('m, 'd, 'u, 'url, 'st) SPS" where
  "set_conn i f sf = sf\<lparr>sp_handlers := (sp_handlers sf)[i := f (sp_handlers sf ! i)]\<rparr>"

definition sps_join :: "('m, 'd, 'u, 'url, 'st) sps_env \<Rightarrow> nat \<Rightarrow> ('m, 'd, 'u, 'url, 'st) SPS \<Rightarrow> ('m, 'd, 'u, 'url, 'st) SPS" where
  "sps_join env i sf =
     (let h = sp_handlers sf ! i;
          sf = (case cm_Get (pe_users env) (sh_src h) (sp_userConns sf) of
                  None \<Rightarrow> sf | Some j \<Rightarrow> set_conn j (\<lambda>h. h\<lparr>sh_closed := True\<rparr>) sf);
          sf = sf\<lparr>sp_userConns := cm_Upsert (pe_users env) (sh_src h) i (\<lambda>_ n. n) (sp_userConns sf),
                  sp_lb := map_option (lb_ConnsIncrease (sh_lbAddr h)) (sp_lb sf)\<rparr>
      in set_conn i (\<lambda>h. h\<lparr>sh_phase := Joined\<rparr>) sf)"

definition sps_release :: "('m, 'd, 'u, 'url, 'st) sps_env \<Rightarrow> nat \<Rightarrow> ('m, 'd, 'u, 'url, 'st) SPS \<Rightarrow> ('m, 'd, 'u, 'url, 'st) SPS" where
  "sps_release env i sf =
     (let h = sp_handlers sf ! i;
          sf = sf\<lparr>sp_userConns := cm_Remove (pe_users env) (sh_src h) (sp_userConns sf),
                  sp_lb := map_option (lb_ConnsDecrease (sh_lbAddr h)) (sp_lb sf)\<rparr>
      in set_conn i (\<lambda>h. h\<lparr>sh_phase := Released, sh_closed := True\<rparr>) sf)"

subsection \<open>The running service\<close>

text \<open>
  The service with the health checks in flight. A connection is opened, entered and released at moments that other
  goroutines can observe; the transfer between them is that of the binding. New clients come until \<open>Stop\<close>.
\<close>

inductive sps_step ::
  "('m, 'd, 'u, 'url, 'st) sps_env \<Rightarrow> ('m, 'd, 'u, 'url, 'st) SPS \<times> nat list \<Rightarrow> ('m, 'd, 'u, 'url, 'st) SPS \<times> nat list \<Rightarrow> bool"
  for env :: "('m, 'd, 'u, 'url, 'st) sps_env" where
  p_open: "\<not> sp_stopped sf \<Longrightarrow> (\<And>a t. cl_dial cl a = Inr t \<Longrightarrow> outbox t = []) \<Longrightarrow>
    (\<And>n v. cl_rnd cl n = Inr v \<Longrightarrow> length v = n) \<Longrightarrow>
    sps_open env cl c sf = (r, sf') \<Longrightarrow> sps_step env (sf, fl) (sf', fl)"
| p_join: "i < length (sp_handlers sf) \<Longrightarrow> sh_phase (sp_handlers sf ! i) = Connected \<Longrightarrow>
    sps_step env (sf, fl) (sps_join env i sf, fl)"
| p_release: "i < length (sp_handlers sf) \<Longrightarrow> sh_phase (sp_handlers sf ! i) = Joined \<Longrightarrow>
    sps_step env (sf, fl) (sps_release env i sf, fl)"
| p_tick: "sp_lb sf = Some lb \<Longrightarrow> \<not> lb_closed lb \<Longrightarrow> sps_step env (sf, fl) (sf, fl @ [0..<length (lb_upstreams lb)])"
| p_check: "sp_lb sf = Some lb \<Longrightarrow> i \<in> set fl \<Longrightarrow>
    lb' = check_upstream (pe_lb env) moment now later elapsed i (lb\<lparr>lb_dns := sp_resolver sf\<rparr>) \<Longrightarrow>
    sps_step env (sf, fl) (sf\<lparr>sp_lb := Some lb', sp_resolver := lb_dns lb'\<rparr>, remove1 i fl)"
| p_stop: "sps_step env (sf, fl) (sps_Stop env sf, fl)"

inductive sps_reach ::
  "('m, 'd, 'u, 'url, 'st) sps_env \<Rightarrow> sps_config \<Rightarrow> ('m, 'd, 'u, 'url, 'st) SPS \<times> nat list \<Rightarrow> bool"
  for env :: "('m, 'd, 'u, 'url, 'st) sps_env" and cfg :: sps_config where
  p_start: "sps_Start env (sps_New env cfg) = (Inr (), sf) \<Longrightarrow> sps_reach env cfg (sf, [])"
| p_step: "sps_reach env cfg s \<Longrightarrow> sps_step env s s' \<Longrightarrow> sps_reach env cfg s'"

subsection \<open>What the steps leave alone\<close>

text \<open>The part of the state that decides how a parent is asked.\<close>

definition sps_core :: "('m, 'd, 'u, 'url, 'st) SPS \<Rightarrow> sps_config \<times> ('m, 'd) Center option \<times> (string \<rightharpoonup> string) \<times> (string \<rightharpoonup> 'st Cipher) \<times> 'st Cipher option" where
  "sps_core sf = (sp_cfg sf, map_option (\<lambda>ce. ce\<lparr>au_resolver := None\<rparr>) (sp_center sf), sp_parentAuthData sf, sp_parentCipherData sf, sp_parentCipher sf)"

definition sps_pool :: "('m, 'd, 'u, 'url, 'st) SPS \<Rightarrow> UpstreamPool option" where
  "sps_pool sf = map_option lb_upstreams (sp_lb sf)"

definition sps_tally :: "'st sps_handler list \<Rightarrow> (phase \<times> string) list" where
  "sps_tally hs = map (\<lambda>h. (sh_phase h, sh_lbAddr h)) hs"

lemma sps_tally_simps [simp]:
  "sps_tally [] = []" "sps_tally (hs @ [h]) = sps_tally hs @ [(sh_phase h, sh_lbAddr h)]" "length (sps_tally hs) = length hs"
  "sps_tally (hs[i := h]) = (sps_tally hs)[i := (sh_phase h, sh_lbAddr h)]"
  by (simp_all add: sps_tally_def map_update)

lemma sps_tally_nth: "i < length hs \<Longrightarrow> sps_tally hs ! i = (sh_phase (hs ! i), sh_lbAddr (hs ! i))"
  by (simp add: sps_tally_def)

lemma sps_core_simps [simp]:
  "sps_core (sf\<lparr>sp_handlers := hs\<rparr>) = sps_core sf" "sps_core (sf\<lparr>sp_userConns := um\<rparr>) = sps_core sf"
  "sps_core (sf\<lparr>sp_lb := lb\<rparr>) = sps_core sf" "sps_core (sf\<lparr>sp_resolver := rs\<rparr>) = sps_core sf"
  "sps_core (sf\<lparr>sp_stopped := b\<rparr>) = sps_core sf" "sps_core (sf\<lparr>sp_listening := ls\<rparr>) = sps_core sf"
  "sps_core (sf\<lparr>sp_udpListening := ls\<rparr>) = sps_core sf"
  by (simp_all add: sps_core_def)

definition center_core' :: "('m, 'd) Center option \<Rightarrow> ('m, 'd) Center option" where
  "center_core' ce = map_option (\<lambda>ce. ce\<lparr>au_resolver := None\<rparr>) ce"

lemma lend_center_core: "center_core' (lend_center sf) = center_core' (sp_center sf)"
  by (simp add: lend_center_def center_core'_def option.map_comp comp_def)

lemma back_center_core: "center_core' ce = center_core' (sp_center sf) \<Longrightarrow> sps_core (back_center ce sf) = sps_core sf"
  by (simp add: back_center_def sps_core_def center_core'_def)

lemma back_center_simps [simp]:
  "sp_lb (back_center ce sf) = sp_lb sf" "sp_handlers (back_center ce sf) = sp_handlers sf" "sp_center (back_center ce sf) = ce"
  by (simp_all add: back_center_def)

text \<open>Who is let in when there is an authentication centre.\<close>

definition sps_admitted :: "('m, 'd) auth_env \<Rightarrow> ('m, 'd) Center option \<Rightarrow> 'st sps_asked \<Rightarrow> bool" where
  "sps_admitted env center asked \<longleftrightarrow>
     (\<forall>ce. center = Some ce \<longrightarrow>
        (case sa_proto asked of
           ProtoHTTP \<Rightarrow> \<exists>pair. accepted_by env ce pair \<and>
             sa_auth asked = (case split_on (CHR '':'') pair of [u, p] \<Rightarrow> (u, p) | _ \<Rightarrow> ('''', ''''))
         | ProtoSocks5 \<Rightarrow> accepted_by env ce (Format '''' '''')
         | ProtoSS \<Rightarrow> True))"

lemma sps_admitted_core: "center_core' ce = center_core' ce' \<Longrightarrow> sps_admitted env ce asked = sps_admitted env ce' asked"
  unfolding sps_admitted_def center_core'_def
  by (cases ce; cases ce') (auto split: proto.splits, (metis accepted_by_resolver)+)

lemma accept_socks5_ok:
  assumes "accept_socks5 env cl c sf = (r, sf')"
  shows "sps_core sf' = sps_core sf \<and> sp_lb sf' = sp_lb sf \<and> sp_handlers sf' = sp_handlers sf \<and>
    (retry_ok (retry_op (pe_auth env)) \<longrightarrow> (\<forall>asked. r = Inr (Asked asked) \<longrightarrow> sps_admitted (pe_auth env) (sp_center sf) asked))"
proof -
  define se where "se = \<lparr>se_auth = pe_auth env, se_now = p_now (cl_peer cl), se_later = p_later (cl_peer cl), se_remote = RemoteAddr (cl_peer cl),
    se_local = LocalAddr (cl_peer cl), se_listen = cl_listen cl\<rparr>"
  define udpIP where "udpIP = (case pc_LocalIPS (sp_cfg sf) of ip # _ \<Rightarrow> ip
    | [] \<Rightarrow> (case SplitHostPort (LocalAddr (cl_peer cl)) of Inl _ \<Rightarrow> '''' | Inr (h, _) \<Rightarrow> h))"
  define srv where "srv = NewServer (lend_center sf) (pc_ParentServiceType (sp_cfg sf) = ''socks'') udpIP []"
  have srv: "ss_auth srv = lend_center sf" "ss_user srv = ''''" "ss_password srv = ''''" by (simp_all add: srv_def NewServer_def)
  obtain q c1 where q: "Server_Handshake se srv c = (q, c1)" by fastforce
  have e: "accept_socks5 env cl c sf = (case Server_Handshake se srv c of
           (Inl e, _) \<Rightarrow> (Inl e, sf)
         | (Inr s, c) \<Rightarrow>
             (Inr (if IsUDP s then Associated s c
                   else Asked \<lparr>sa_proto = ProtoSocks5, sa_address = ss_target s, sa_auth = (ss_pUser s, ss_pPassword s), sa_forward = '''', sa_in = Plain c\<rparr>),
              back_center (ss_auth s) sf))"
    unfolding accept_socks5_def Let_def se_def srv_def udpIP_def ..
  show ?thesis
  proof (cases q)
    case (Inl x)
    then show ?thesis using assms e q by auto
  next
    case (Inr s)
    then have v: "center_verified se srv s" using Server_Handshake_verified q by blast
    then have core: "center_core' (ss_auth s) = center_core' (sp_center sf)"
      using lend_center_core [of sf] unfolding center_verified_def srv
      by (cases "lend_center sf") (auto simp: center_core'_def dest!: Verify_core)
    have "sps_admitted (pe_auth env) (sp_center sf) asked"
      if "retry_ok (retry_op (pe_auth env))" "r = Inr (Asked asked)" for asked
    proof -
      have p: "sa_proto asked = ProtoSocks5" using that(2) assms e q Inr by (auto split: if_splits)
      have "sps_admitted (pe_auth env) (lend_center sf) asked"
        using v Verify_accepted [OF that(1)] by (auto simp: sps_admitted_def p center_verified_def srv se_def)
      then show ?thesis using sps_admitted_core [OF lend_center_core] by blast
    qed
    then show ?thesis using assms e q Inr back_center_core [OF core] by auto
  qed
qed

lemma accept_http_ok:
  assumes "accept_http env cl h c sf = (r, sf')"
  shows "sps_core sf' = sps_core sf \<and> sp_lb sf' = sp_lb sf \<and> sp_handlers sf' = sp_handlers sf \<and>
    (retry_ok (retry_op (pe_auth env)) \<longrightarrow> (\<forall>asked. r = Inr (Asked asked) \<longrightarrow> sps_admitted (pe_auth env) (sp_center sf) asked))"
proof -
  obtain q ce c1 where q: "httpc_New (pe_auth env) (cl_peer cl) 1024 (lend_center sf) c = ((q, ce), c1)" by (metis prod_cases3 surj_pair)
  then have core: "center_core' ce = center_core' (sp_center sf)" using New_core [OF q] lend_center_core [of sf] by (simp add: center_core'_def)
  note bc = back_center_core [OF core]
  show ?thesis
  proof (cases q)
    case (Inl e)
    then show ?thesis using assms q bc by (auto simp: accept_http_def)
  next
    case (Inr req)
    have "sps_admitted (pe_auth env) (sp_center sf) asked" if ok: "retry_ok (retry_op (pe_auth env))" "r = Inr (Asked asked)" for asked
    proof (cases "lend_center sf")
      case None
      then show ?thesis by (simp add: lend_center_def sps_admitted_def)
    next
      case (Some ce0)
      from New_sound [OF q [unfolded Inr]] Some obtain pair target ce' where n: "credentials req = Inr pair" "ce = Some ce'"
        "Verify (pe_auth env) (p_now (cl_peer cl)) (p_later (cl_peer cl)) pair (hd (split_on (CHR '':'') (RemoteAddr (cl_peer cl))))
          (hd (split_on (CHR '':'') (LocalAddr (cl_peer cl)))) target ce0 = (Inr True, ce')"
        by auto
      have g: "GetProxyAuthUserPassPair req c' = (Inr x, c'') \<Longrightarrow> x = pair" for c' c'' x
        using GetProxyAuthUserPassPair_ok [of req c' x c''] n(1) by (simp add: credentials_def)
      have "sa_proto asked = ProtoHTTP \<and> sa_auth asked = (case split_on (CHR '':'') pair of [u, p] \<Rightarrow> (u, p) | _ \<Rightarrow> ('''', ''''))"
        using assms q Inr n(2) ok(2) g unfolding accept_http_def Let_def by (auto split: prod.splits sum.splits if_splits)
      then have "sps_admitted (pe_auth env) (lend_center sf) asked"
        using Verify_accepted [OF ok(1) n(3)] Some by (auto simp: sps_admitted_def)
      then show ?thesis using sps_admitted_core [OF lend_center_core] by blast
    qed
    moreover have "sf' = back_center ce sf"
      using assms q Inr unfolding accept_http_def Let_def by (auto split: prod.splits sum.splits if_splits)
    ultimately show ?thesis using bc by simp
  qed
qed

lemma accept_ss_ok:
  assumes "accept_ss env c sf = (r, sf')"
  shows "sf' = sf \<and> (\<forall>asked. r = Inr (Asked asked) \<longrightarrow> sa_proto asked = ProtoSS)"
  using assms by (auto simp: accept_ss_def split: option.splits prod.splits sum.splits if_splits)

lemma accept_client_ok:
  assumes "accept_client env cl c sf = (r, sf')"
  shows "sps_core sf' = sps_core sf \<and> sp_lb sf' = sp_lb sf \<and> sp_handlers sf' = sp_handlers sf \<and>
    (retry_ok (retry_op (pe_auth env)) \<longrightarrow> (\<forall>asked. r = Inr (Asked asked) \<longrightarrow> sps_admitted (pe_auth env) (sp_center sf) asked))"
proof -
  consider (same) "sf' = sf" "\<forall>asked. r \<noteq> Inr (Asked asked)" | (socks) "accept_socks5 env cl (buffered c) sf = (r, sf')"
    | (http) "accept_http env cl (peek_head c) (buffered c) sf = (r, sf')" | (ss) "accept_ss env (buffered c) sf = (r, sf')"
    using assms unfolding accept_client_def Let_def by (auto split: sum.splits proto.splits if_splits)
  then show ?thesis
  proof cases
    case ss
    then show ?thesis using accept_ss_ok [OF ss] by (auto simp: sps_admitted_def)
  qed (auto dest: accept_socks5_ok accept_http_ok)
qed

subsection \<open>What is written to a parent\<close>

text \<open>Everything that a connection to a parent starts with, for each kind of parent.\<close>

definition http_asked :: "('m, 'd, 'u, 'url, 'st) SPS \<Rightarrow> 'st sps_handler \<Rightarrow> bool" where
  "http_asked sf h \<longleftrightarrow>
     (let a = sh_asked h; fwd = strip_forward sf (sh_lbAddr h) (sa_forward a) in
      \<exists>t auth. sh_out h = Plain t \<and> real_auth (getParentAuth sf (sh_lbAddr h)) False (sp_center sf = None) (sa_auth a) = Inr auth \<and>
        outbox t = [str_bytes (if fwd = '''' then connect_request (sa_address a) auth
                               else InsertProxyHeaders fwd (tunnel_headers (sa_address a) auth))])"

definition socks_asked :: "('m, 'd, 'u, 'url, 'st) SPS \<Rightarrow> 'st sps_handler \<Rightarrow> bool" where
  "socks_asked sf h \<longleftrightarrow>
     (let a = sh_asked h; fwd = strip_forward sf (sh_lbAddr h) (sa_forward a) in
      \<exists>t auth cl host portStr port q mid w. sh_out h = Plain t \<and>
        real_auth (getParentAuth sf (sh_lbAddr h)) False (sp_center sf = None) (sa_auth a) = Inr auth \<and>
        cl = NewClient ''tcp'' (sa_address a) auth [] \<and> SplitHostPort (sa_address a) = Inr (host, portStr) \<and> Atoi portStr = Inr port \<and>
        client_request cl host port = Inr q \<and> outbox t = client_greeting cl # mid @ q # w \<and>
        (mid = [] \<or> mid = [client_auth cl]) \<and> (w = [] \<or> fwd \<noteq> '''' \<and> w = [str_bytes fwd]))"

definition ss_asked :: "('m, 'd, 'u, 'url, 'st) sps_env \<Rightarrow> ('m, 'd, 'u, 'url, 'st) SPS \<Rightarrow> 'st sps_handler \<Rightarrow> bool" where
  "ss_asked env sf h \<longleftrightarrow>
     (\<exists>sc ra c v e w. sh_out h = Enc sc \<and> ss_ParseAddrSpec (sa_address (sh_asked h)) = Inr ra \<and>
        getParentCipher sf (sh_lbAddr h) = Inr c \<and> length v = ivLen c \<and> NewStream (pe_ss env) (meth c) (key c) v True = Inr e \<and>
        concat (outbox (raw sc)) = v @ fst (XORKeyStream (pe_ss env) e ra) @ fst (XORKeyStream (pe_ss env) (snd (XORKeyStream (pe_ss env) e ra)) w))"

definition parent_asked :: "('m, 'd, 'u, 'url, 'st) sps_env \<Rightarrow> ('m, 'd, 'u, 'url, 'st) SPS \<Rightarrow> 'st sps_handler \<Rightarrow> bool" where
  "parent_asked env sf h \<longleftrightarrow>
     (if pc_ParentServiceType (sp_cfg sf) = ''http'' then http_asked sf h
      else if pc_ParentServiceType (sp_cfg sf) = ''socks'' then socks_asked sf h
      else pc_ParentServiceType (sp_cfg sf) = ''ss'' \<and> ss_asked env sf h)"

text \<open>The ciphers have no vector of their own.\<close>

definition fresh_ciphers :: "('m, 'd, 'u, 'url, 'st) SPS \<Rightarrow> bool" where
  "fresh_ciphers sf \<longleftrightarrow> (\<forall>a c. sp_parentCipherData sf a = Some c \<longrightarrow> iv c = None) \<and> (\<forall>c. sp_parentCipher sf = Some c \<longrightarrow> iv c = None)"

lemma core_fields:
  assumes "sps_core sf' = sps_core sf"
  shows "sp_cfg sf' = sp_cfg sf" "(sp_center sf' = None) = (sp_center sf = None)" "center_core' (sp_center sf') = center_core' (sp_center sf)"
    "sp_parentAuthData sf' = sp_parentAuthData sf"
    "sp_parentCipherData sf' = sp_parentCipherData sf" "sp_parentCipher sf' = sp_parentCipher sf"
  using assms by (auto simp: sps_core_def center_core'_def)

lemma parent_asked_core:
  assumes "sps_core sf' = sps_core sf"
  shows "parent_asked env sf' h = parent_asked env sf h" "fresh_ciphers sf' = fresh_ciphers sf"
    "sps_admitted ae (sp_center sf') a = sps_admitted ae (sp_center sf) a"
    "strip_forward sf' lbAddr f = strip_forward sf lbAddr f"
proof -
  note f = core_fields [OF assms]
  have p: "getParentAuth sf' a = getParentAuth sf a" "getParentCipher sf' a = getParentCipher sf a" for a
    using f by (simp_all add: getParentAuth_def getParentCipher_def split: option.split)
  show s: "strip_forward sf' lbAddr f = strip_forward sf lbAddr f" for lbAddr f using f p by (simp add: strip_forward_def)
  show "parent_asked env sf' h = parent_asked env sf h"
    by (simp add: parent_asked_def http_asked_def socks_asked_def ss_asked_def f p s)
  show "fresh_ciphers sf' = fresh_ciphers sf" by (simp add: fresh_ciphers_def f)
  show "sps_admitted ae (sp_center sf') a = sps_admitted ae (sp_center sf) a" by (rule sps_admitted_core [OF f(3)])
qed

lemma ask_http_Inr:
  assumes "ask_http address auth forward c = (Inr u, c')"
  shows "outbox c' = outbox c @ [str_bytes (if forward = '''' then connect_request address auth
    else InsertProxyHeaders forward (tunnel_headers address auth))]"
proof -
  have "connect_request address auth = ''CONNECT '' @ address @ '' HTTP/1.1'' @ CRLF @ tunnel_headers address auth @ CRLF"
    by (simp add: connect_request_def tunnel_headers_def split: option.split)
  moreover have "conn_Read n c = (r, c') \<Longrightarrow> outbox c' = outbox c" for n c r c'
    by (auto simp: conn_Read_def split: list.splits)
  ultimately show ?thesis
    using assms by (auto simp: ask_http_def retIO_def elim!: bindIO_InrE dest!: conn_Write_Inr split: if_splits)
qed

lemma getParentCipher_fresh: "getParentCipher sf a = Inr c \<Longrightarrow> fresh_ciphers sf \<Longrightarrow> iv c = None \<and> writer c = None"
  by (auto simp: getParentCipher_def fresh_ciphers_def Clone_def split: option.splits)

lemma NewConn_Inr:
  assumes "NewConnWithRawAddr env rnd out ra c = Inr sc" "iv c = None" "writer c = None" "outbox out = []"
  obtains v e where "rnd = Inr v" "NewStream env (meth c) (key c) v True = Inr e" "concat (outbox (raw sc)) = v @ fst (XORKeyStream env e ra)"
    "writer (cipher sc) = Some (snd (XORKeyStream env e ra))"
proof -
  from assms(1) have w: "\<exists>r. ss_Write env rnd ra \<lparr>raw = out, cipher = c\<rparr> = (Inr r, sc)"
    by (auto simp: NewConnWithRawAddr_def split: prod.splits sum.splits)
  then obtain v c1 where i: "initEncrypt env rnd c = (Inr v, c1)"
    using assms(3) by (auto simp: ss_Write_def split: prod.splits sum.splits)
  from initEncrypt_ok [OF i] obtain e where e: "NewStream env (meth c) (key c) v True = Inr e" "c1 = c\<lparr>iv := Some v, writer := Some e\<rparr>"
    "iv c = Some v \<or> iv c = None \<and> rnd = Inr v" by blast
  have "concat (outbox (raw sc)) = v @ fst (XORKeyStream env e ra)" "writer (cipher sc) = Some (snd (XORKeyStream env e ra))"
    using w assms(3,4) i e(2) by (auto simp: ss_Write_def ss_encrypt_def conn_Write_def split: prod.splits option.splits)
  with e assms(2) show thesis by (intro that [of v e]) auto
qed

lemma write_rest_plain: "\<exists>w t'. write_rest env rnd f (Plain t) = Plain t' \<and> outbox t' = outbox t @ w \<and> (w = [] \<or> f \<noteq> '''' \<and> w = [str_bytes f])"
  by (auto simp: write_rest_def conn_Write_def split: option.split)

lemma write_rest_enc:
  assumes "writer (cipher sc) = Some st" "\<And>s. XORKeyStream (pe_ss env) s [] = ([], s)"
  shows "\<exists>w sc'. write_rest env rnd f (Enc sc) = Enc sc' \<and> concat (outbox (raw sc')) = concat (outbox (raw sc)) @ fst (XORKeyStream (pe_ss env) st w)"
proof (cases "f = ''''")
  case True
  then show ?thesis using assms(2) by (auto simp: write_rest_def intro!: exI [of _ "[]"])
next
  case False
  obtain d st' where d: "XORKeyStream (pe_ss env) st (str_bytes f) = (d, st')" by fastforce
  show ?thesis
  proof (cases "write_err (raw sc) (write_no (raw sc))")
    case None
    then show ?thesis using False d assms(1)
      by (auto simp: write_rest_def ss_Write_def ss_encrypt_def conn_Write_def intro!: exI [of _ "str_bytes f"])
  next
    case (Some e)
    then show ?thesis using False d assms
      by (auto simp: write_rest_def ss_Write_def ss_encrypt_def conn_Write_def intro!: exI [of _ "[]"])
  qed
qed

lemma ask_parent_asked:
  assumes "ask_parent env rnd sf lbAddr asked (strip_forward sf lbAddr (sa_forward asked)) t = Inr (out, fwd)" "outbox t = []"
    and "\<And>n v. rnd n = Inr v \<Longrightarrow> length v = n" "fresh_ciphers sf" "\<And>s. XORKeyStream (pe_ss env) s [] = ([], s)"
    and h: "sh_asked h = asked" "sh_lbAddr h = lbAddr" "sh_out h = write_rest env rnd fwd out"
  shows "parent_asked env sf h"
proof -
  define f0 where "f0 = strip_forward sf lbAddr (sa_forward asked)"
  note a = assms(1) [folded f0_def, unfolded ask_parent_def]
  consider (http) "pc_ParentServiceType (sp_cfg sf) = ''http''" | (socks) "pc_ParentServiceType (sp_cfg sf) = ''socks''"
    | (ss) "pc_ParentServiceType (sp_cfg sf) = ''ss''" using a by (auto split: if_splits)
  then show ?thesis
  proof cases
    case http
    with a obtain auth where auth: "real_auth (getParentAuth sf lbAddr) False (sp_center sf = None) (sa_auth asked) = Inr auth"
      "(case ask_http (sa_address asked) auth f0 t of (Inl e, _) \<Rightarrow> Inl e | (Inr _, out) \<Rightarrow> Inr (Plain out, '''')) = Inr (out, fwd)"
      by (auto simp: bindR_eq_Inr)
    then obtain t' where r: "real_auth (getParentAuth sf lbAddr) False (sp_center sf = None) (sa_auth asked) = Inr auth"
      "ask_http (sa_address asked) auth f0 t = (Inr (), t')" "out = Plain t'" "fwd = ''''"
      by (cases "ask_http (sa_address asked) auth f0 t") (auto split: sum.splits)
    with ask_http_Inr [OF r(2)] assms(2) h show ?thesis
      by (simp add: parent_asked_def http http_asked_def Let_def write_rest_def f0_def [symmetric])
  next
    case socks
    with a obtain cl' t' where q: "HandshakeSocksParent sf (getParentAuth sf lbAddr) ''tcp'' (sa_address asked) (sa_auth asked) False t = (Inr cl', t')"
      "out = Plain t'" "fwd = f0"
      by (auto split: prod.splits sum.splits)
    from q(1) obtain auth where auth: "real_auth (getParentAuth sf lbAddr) False (sp_center sf = None) (sa_auth asked) = Inr auth"
      "Client_Handshake (NewClient ''tcp'' (sa_address asked) auth []) t = (Inr cl', t')"
      by (auto simp: HandshakeSocksParent_def liftR_def elim!: bindIO_InrE)
    have sc: "sc_addr (NewClient ''tcp'' (sa_address asked) auth []) = sa_address asked" by (simp add: NewClient_def)
    from Client_Handshake_writes [OF auth(2)] obtain host portStr port q mid where w: "SplitHostPort (sa_address asked) = Inr (host, portStr)"
      "Atoi portStr = Inr port" "client_request (NewClient ''tcp'' (sa_address asked) auth []) host port = Inr q"
      "outbox t' = outbox t @ [client_greeting (NewClient ''tcp'' (sa_address asked) auth [])] @ mid @ [q]"
      "mid = [] \<or> mid = [client_auth (NewClient ''tcp'' (sa_address asked) auth [])]" unfolding sc by blast
    obtain x t'' where "write_rest env rnd f0 (Plain t') = Plain t''" "outbox t'' = outbox t' @ x" "x = [] \<or> f0 \<noteq> '''' \<and> x = [str_bytes f0]"
      using write_rest_plain by metis
    then have "socks_asked sf h"
      unfolding socks_asked_def Let_def h f0_def [symmetric] using auth(1) w q(2,3) assms(2)
      by (intro exI [of _ t''] exI [of _ auth] exI [of _ "NewClient ''tcp'' (sa_address asked) auth []"] exI [of _ host] exI [of _ portStr]
          exI [of _ port] exI [of _ q] exI [of _ mid] exI [of _ x]) simp
    then show ?thesis by (simp add: parent_asked_def socks)
  next
    case ss
    with a obtain ra c where "ss_ParseAddrSpec (sa_address asked) = Inr ra" "getParentCipher sf lbAddr = Inr c"
      "(case NewConnWithRawAddr (pe_ss env) (rnd (ivLen c)) t ra c of Inl (Panic p) \<Rightarrow> Inl (Panic p)
        | Inl _ \<Rightarrow> Inl (ErrMsg ''dial ss parent fail'') | Inr sc \<Rightarrow> Inr (Enc sc, f0)) = Inr (out, fwd)"
      by (cases "ss_ParseAddrSpec (sa_address asked)") (auto simp: bindR_eq_Inr)
    then obtain sc where s: "ss_ParseAddrSpec (sa_address asked) = Inr ra" "getParentCipher sf lbAddr = Inr c"
      "NewConnWithRawAddr (pe_ss env) (rnd (ivLen c)) t ra c = Inr sc" "out = Enc sc" "fwd = f0"
      by (cases "NewConnWithRawAddr (pe_ss env) (rnd (ivLen c)) t ra c") (auto split: error.splits)
    obtain v e where v: "rnd (ivLen c) = Inr v" "NewStream (pe_ss env) (meth c) (key c) v True = Inr e"
      "concat (outbox (raw sc)) = v @ fst (XORKeyStream (pe_ss env) e ra)" "writer (cipher sc) = Some (snd (XORKeyStream (pe_ss env) e ra))"
      using NewConn_Inr [OF s(3)] getParentCipher_fresh [OF s(2) assms(4)] assms(2) by blast
    obtain w sc' where "write_rest env rnd f0 (Enc sc) = Enc sc'"
      "concat (outbox (raw sc')) = concat (outbox (raw sc)) @ fst (XORKeyStream (pe_ss env) (snd (XORKeyStream (pe_ss env) e ra)) w)"
      using write_rest_enc [OF v(4) assms(5)] by blast
    then have "ss_asked env sf h"
      unfolding ss_asked_def h using s v assms(3) [OF v(1)]
      by (intro exI [of _ sc'] exI [of _ ra] exI [of _ c] exI [of _ v] exI [of _ e] exI [of _ w]) simp
    then show ?thesis by (simp add: parent_asked_def ss)
  qed
qed

subsection \<open>The invariant\<close>

definition sps_inv :: "('m, 'd, 'u, 'url, 'st) sps_env \<Rightarrow> ('m, 'd, 'u, 'url, 'st) SPS \<Rightarrow> bool" where
  "sps_inv env sf \<longleftrightarrow> fresh_ciphers sf \<and>
     (\<forall>h \<in> set (sp_handlers sf). sps_admitted (pe_auth env) (sp_center sf) (sh_asked h) \<and> parent_asked env sf h) \<and>
     (\<forall>us. sps_pool sf = Some us \<longrightarrow> counted us (sps_tally (sp_handlers sf)))"

lemma sps_inv_core:
  assumes "sps_core sf' = sps_core sf" "sp_handlers sf' = sp_handlers sf" "sps_pool sf' = sps_pool sf"
  shows "sps_inv env sf' = sps_inv env sf"
  using assms by (simp add: sps_inv_def parent_asked_core [OF assms(1)])

lemma sps_inv_add:
  assumes "sps_inv env sf" "parent_asked env sf h" "sps_admitted (pe_auth env) (sp_center sf) (sh_asked h)" "sh_phase h \<noteq> Joined"
  shows "sps_inv env (sf\<lparr>sp_handlers := sp_handlers sf @ [h]\<rparr>)"
proof -
  have "parent_asked env (sf\<lparr>sp_handlers := hs\<rparr>) x = parent_asked env sf x"
    "fresh_ciphers (sf\<lparr>sp_handlers := hs\<rparr>) = fresh_ciphers sf" for hs x
    by (rule parent_asked_core, simp)+
  then show ?thesis using assms by (auto simp: sps_inv_def sps_pool_def counted_append)
qed

lemma sps_inv_connect:
  assumes "sps_inv env sf" "sps_connect env cl asked sf = (r, sf')" "sps_admitted (pe_auth env) (sp_center sf) asked"
    and "\<And>a t. cl_dial cl a = Inr t \<Longrightarrow> outbox t = []" "\<And>n v. cl_rnd cl n = Inr v \<Longrightarrow> length v = n"
    and "\<And>s. XORKeyStream (pe_ss env) s [] = ([], s)"
  shows "sps_inv env sf'"
proof -
  have frame: "sps_inv env (sf\<lparr>sp_lb := Some lb'\<rparr>)" if "sp_lb sf = Some lb" "lb_Select e d a lb = (q, lb')" for e d a lb q lb'
    using assms(1) that lb_Select_frame [OF that(2)] sps_inv_core [of "sf\<lparr>sp_lb := Some lb'\<rparr>" sf] by (simp add: sps_pool_def)
  show ?thesis
  proof (cases "sa_address asked = [] \<or> sp_lb sf = None")
    case True
    then have "sf' = sf" using assms(2) by (auto simp: sps_connect_def Let_def split: if_splits)
    then show ?thesis using assms(1) by simp
  next
    case False
    then obtain lb where lb: "sp_lb sf = Some lb" "sa_address asked \<noteq> []" by auto
    define a where "a = (if pc_LbMethod (sp_cfg sf) = ''hash'' \<and> pc_HashTarget (sp_cfg sf) then sa_address asked else RemoteAddr (cl_peer cl))"
    obtain q lb' where sel: "lb_Select (pe_lb env) (cl_draws cl) a lb = (q, lb')" by fastforce
    define sf1 where "sf1 = sf\<lparr>sp_lb := Some lb'\<rparr>"
    have 1: "sps_inv env sf1" "sps_core sf1 = sps_core sf" "sp_center sf1 = sp_center sf" using frame [OF lb(1) sel] by (simp_all add: sf1_def)
    note c = assms(2) [unfolded sps_connect_def Let_def, folded a_def, unfolded lb(1) option.case sel prod.case, folded sf1_def]
    show ?thesis
    proof (cases q)
      case (Inl p)
      then show ?thesis using c 1(1) lb(2) by simp
    next
      case (Inr lbAddr)
      define ask where "ask = bindR (cl_dial cl lbAddr) (ask_parent env (cl_rnd cl) sf1 lbAddr asked (strip_forward sf1 lbAddr (sa_forward asked)))"
      have c': "(case ask of Inl e \<Rightarrow> (Inl e, sf1) | Inr (out, forward) \<Rightarrow> (Inr (), sf1\<lparr>sp_handlers := sp_handlers sf1 @
          [\<lparr>sh_src = RemoteAddr (cl_peer cl), sh_asked = asked, sh_lbAddr = lbAddr, sh_out = write_rest env (cl_rnd cl) forward out,
            sh_phase = Connected, sh_closed = False\<rparr>]\<rparr>)) = (r, sf')"
        using c lb(2) Inr by (simp add: ask_def)
      show ?thesis
      proof (cases ask)
        case (Inl e)
        then show ?thesis using c' 1(1) by simp
      next
        case (Inr y)
        obtain out fwd where y: "y = (out, fwd)" by fastforce
        define h where "h = \<lparr>sh_src = RemoteAddr (cl_peer cl), sh_asked = asked, sh_lbAddr = lbAddr, sh_out = write_rest env (cl_rnd cl) fwd out,
            sh_phase = Connected, sh_closed = False\<rparr>"
        have sf': "sf' = sf1\<lparr>sp_handlers := sp_handlers sf1 @ [h]\<rparr>" using c' Inr y by (simp add: h_def)
        obtain t where t: "cl_dial cl lbAddr = Inr t" "ask_parent env (cl_rnd cl) sf1 lbAddr asked (strip_forward sf1 lbAddr (sa_forward asked)) t = Inr (out, fwd)"
          using Inr y by (auto simp: bindR_eq_Inr ask_def)
        have "fresh_ciphers sf1" using 1(1) by (simp add: sps_inv_def)
        from ask_parent_asked [OF t(2) assms(4) [OF t(1)] assms(5) this assms(6), of h] have "parent_asked env sf1 h" by (simp add: h_def)
        then show ?thesis unfolding sf' by (rule sps_inv_add [OF 1(1)]) (simp_all add: h_def assms(3) 1(3))
      qed
    qed
  qed
qed

lemma sps_inv_open:
  assumes "sps_inv env sf" "sps_open env cl c sf = (r, sf')" "retry_ok (retry_op (pe_auth env))"
    and "\<And>a t. cl_dial cl a = Inr t \<Longrightarrow> outbox t = []" "\<And>n v. cl_rnd cl n = Inr v \<Longrightarrow> length v = n"
    and "\<And>s. XORKeyStream (pe_ss env) s [] = ([], s)"
  shows "sps_inv env sf'"
proof -
  obtain q sf1 where q: "accept_client env cl c sf = (q, sf1)" by fastforce
  note a = accept_client_ok [OF q]
  then have 1: "sps_inv env sf1" using assms(1) sps_inv_core [of sf1 sf] by (simp add: sps_pool_def)
  consider "sf' = sf" | "sf' = sf1" | asked where "q = Inr (Asked asked)" "sps_connect env cl asked sf1 = (r, sf')"
    using assms(2) q unfolding sps_open_def by (auto split: if_splits sum.splits client_outcome.splits)
  then show ?thesis
  proof cases
    case (3 asked)
    then have "sps_admitted (pe_auth env) (sp_center sf1) asked" using a assms(3) parent_asked_core(3) [of sf1 sf] by blast
    from sps_inv_connect [OF 1 3(2) this assms(4-6)] show ?thesis .
  qed (use assms(1) 1 in simp_all)
qed

text \<open>A handler is changed in place without changing its phase.\<close>

lemma sps_handlers_core:
  "parent_asked env (sf\<lparr>sp_handlers := hs\<rparr>) x = parent_asked env sf x" "fresh_ciphers (sf\<lparr>sp_handlers := hs\<rparr>) = fresh_ciphers sf"
  by (rule parent_asked_core, simp)+

lemma sps_asked_frame [simp]:
  "parent_asked env sf (h\<lparr>sh_closed := b\<rparr>) = parent_asked env sf h" "parent_asked env sf (h\<lparr>sh_phase := ph\<rparr>) = parent_asked env sf h"
  by (simp_all add: parent_asked_def http_asked_def socks_asked_def ss_asked_def)

lemma sps_inv_close:
  assumes "sps_inv env sf"
  shows "sps_inv env (set_conn i (\<lambda>h. h\<lparr>sh_closed := b\<rparr>) sf)"
proof (cases "i < length (sp_handlers sf)")
  case True
  let ?h = "(sp_handlers sf ! i)\<lparr>sh_closed := b\<rparr>"
  have t: "sps_tally ((sp_handlers sf)[i := ?h]) = sps_tally (sp_handlers sf)" using True by (simp add: sps_tally_nth [symmetric])
  have "h \<in> set ((sp_handlers sf)[i := ?h]) \<Longrightarrow> sps_admitted (pe_auth env) (sp_center sf) (sh_asked h) \<and> parent_asked env sf h" for h
    using assms True set_update_subset_insert [of "sp_handlers sf" i ?h] by (auto simp: sps_inv_def)
  with t assms show ?thesis by (simp add: sps_inv_def set_conn_def sps_handlers_core sps_pool_def del: sps_tally_simps)
qed (use assms in \<open>simp add: set_conn_def list_update_beyond\<close>)

lemma sps_inv_phase:
  assumes "sps_inv env sf" "i < length (sp_handlers sf)" "sh_asked h' = sh_asked (sp_handlers sf ! i)" "sh_lbAddr h' = sh_lbAddr (sp_handlers sf ! i)"
    "sh_out h' = sh_out (sp_handlers sf ! i)"
    and "sp_handlers sf' = (sp_handlers sf)[i := h']" "sps_core sf' = sps_core sf" "sps_pool sf' = map_option (conn_step e) (sps_pool sf)"
    and "(sh_phase (sp_handlers sf ! i) \<noteq> Joined \<and> sh_phase h' = Joined \<and> e = Opened (sh_lbAddr h')) \<or>
         (sh_phase (sp_handlers sf ! i) = Joined \<and> sh_phase h' \<noteq> Joined \<and> e = Closed (sh_lbAddr h'))"
  shows "sps_inv env sf'"
proof -
  have p: "parent_asked env sf h' = parent_asked env sf (sp_handlers sf ! i)"
    using assms(3-5) by (simp add: parent_asked_def http_asked_def socks_asked_def ss_asked_def)
  have d: "counted (conn_step e us) (sps_tally (sp_handlers sf'))" if "counted us (sps_tally (sp_handlers sf))" for us
    using counted_phase [OF that, of i "sh_phase (sp_handlers sf ! i)" "sh_lbAddr h'" "sh_phase h'" e] assms(2,4,6,9) by (simp add: sps_tally_nth)
  have "h \<in> set ((sp_handlers sf)[i := h']) \<Longrightarrow> sps_admitted (pe_auth env) (sp_center sf) (sh_asked h) \<and> parent_asked env sf h" for h
    using assms(1-3) p set_update_subset_insert [of "sp_handlers sf" i h'] by (auto simp: sps_inv_def)
  with d assms(1,6,8) show ?thesis by (auto simp: sps_inv_def parent_asked_core [OF assms(7)])
qed

lemma closed_conn_fields:
  "sh_phase ((hs[j := (hs ! j)\<lparr>sh_closed := b\<rparr>]) ! i) = sh_phase (hs ! i)"
  "sh_lbAddr ((hs[j := (hs ! j)\<lparr>sh_closed := b\<rparr>]) ! i) = sh_lbAddr (hs ! i)"
  by (cases "j = i"; cases "j < length hs"; simp add: list_update_beyond)+

lemma sps_inv_join:
  assumes "sps_inv env sf" "i < length (sp_handlers sf)" "sh_phase (sp_handlers sf ! i) = Connected"
  shows "sps_inv env (sps_join env i sf)"
proof -
  define h where "h = sp_handlers sf ! i"
  define sf1 where "sf1 = (case cm_Get (pe_users env) (sh_src h) (sp_userConns sf) of
      None \<Rightarrow> sf | Some j \<Rightarrow> set_conn j (\<lambda>h. h\<lparr>sh_closed := True\<rparr>) sf)"
  have inv1: "sps_inv env sf1" unfolding sf1_def using assms(1) sps_inv_close by (auto split: option.split)
  have 1: "length (sp_handlers sf1) = length (sp_handlers sf)" "sp_lb sf1 = sp_lb sf"
    by (simp_all add: sf1_def set_conn_def split: option.split)
  have 2: "sh_lbAddr (sp_handlers sf1 ! i) = sh_lbAddr h \<and> sh_phase (sp_handlers sf1 ! i) = Connected"
    using assms(3) by (simp add: sf1_def set_conn_def h_def closed_conn_fields split: option.split)
  show ?thesis
  proof (rule sps_inv_phase [OF inv1, where i = i and h' = "(sp_handlers sf1 ! i)\<lparr>sh_phase := Joined\<rparr>"])
    show "sps_pool (sps_join env i sf) = map_option (conn_step (Opened (sh_lbAddr h))) (sps_pool sf1)"
      unfolding sps_join_def Let_def h_def [symmetric] sf1_def [symmetric] by (simp add: set_conn_def sps_pool_def pool_of_lb(1))
    show "sp_handlers (sps_join env i sf) = (sp_handlers sf1)[i := (sp_handlers sf1 ! i)\<lparr>sh_phase := Joined\<rparr>]"
      "sps_core (sps_join env i sf) = sps_core sf1"
      by (simp_all add: sps_join_def Let_def h_def [symmetric] sf1_def [symmetric] set_conn_def)
  qed (use assms 1 2 in auto)
qed

lemma sps_inv_release:
  assumes "sps_inv env sf" "i < length (sp_handlers sf)" "sh_phase (sp_handlers sf ! i) = Joined"
  shows "sps_inv env (sps_release env i sf)"
proof -
  define h where "h = sp_handlers sf ! i"
  show ?thesis
  proof (rule sps_inv_phase [OF assms(1,2), where h' = "h\<lparr>sh_phase := Released, sh_closed := True\<rparr>"])
    show "sps_pool (sps_release env i sf) = map_option (conn_step (Closed (sh_lbAddr h))) (sps_pool sf)"
      unfolding sps_release_def Let_def h_def [symmetric] by (simp add: set_conn_def sps_pool_def pool_of_lb(2))
    show "sp_handlers (sps_release env i sf) = (sp_handlers sf)[i := h\<lparr>sh_phase := Released, sh_closed := True\<rparr>]"
      "sps_core (sps_release env i sf) = sps_core sf"
      by (simp_all add: sps_release_def Let_def h_def [symmetric] set_conn_def)
  qed (use assms in \<open>auto simp: h_def\<close>)
qed

lemma sps_inv_check:
  assumes "sps_inv env sf" "sp_lb sf = Some lb" "lb' = check_upstream (pe_lb env) m now later el i (lb\<lparr>lb_dns := sp_resolver sf\<rparr>)"
  shows "sps_inv env (sf\<lparr>sp_lb := Some lb', sp_resolver := r\<rparr>)"
proof -
  obtain addr where "lb_upstreams lb' = (lb_upstreams lb)[i := healthyCheck (env_dial (pe_lb env)) m el addr (lb_upstreams lb ! i)]"
    using check_upstream_pool [of "pe_lb env" m now later el i "lb\<lparr>lb_dns := sp_resolver sf\<rparr>"] assms(3) by auto
  moreover have c: "sps_core (sf\<lparr>sp_lb := Some lb', sp_resolver := r\<rparr>) = sps_core sf" by simp
  ultimately show ?thesis using assms(1,2) counted_check by (simp add: sps_inv_def sps_pool_def parent_asked_core [OF c])
qed

lemma sps_inv_closed:
  assumes "sps_inv env sf"
  shows "sps_inv env (sf\<lparr>sp_handlers := foldl (\<lambda>hs (_, i). hs[i := (hs ! i)\<lparr>sh_closed := True\<rparr>]) (sp_handlers sf) is\<rparr>)"
  using assms
proof (induction "is" arbitrary: sf)
  case (Cons x xs)
  from Cons.IH [OF sps_inv_close [OF Cons.prems, of "snd x" True]] show ?case by (simp add: set_conn_def case_prod_beta)
qed simp

lemma sps_inv_stop: "sps_inv env sf \<Longrightarrow> sps_inv env (sps_Stop env sf)"
  using sps_inv_closed [of env sf] sps_inv_core [of "sps_Stop env sf" "sf\<lparr>sp_handlers := sp_handlers (sps_Stop env sf)\<rparr>" env]
  by (simp add: sps_Stop_def sps_pool_def pool_of_lb(3))

text \<open>Starting the service.\<close>

lemma NewCipher_iv: "NewCipher env m k = Inr c \<Longrightarrow> iv c = None"
  by (auto simp: NewCipher_def split: if_splits option.splits)

definition fresh_table :: "(string \<rightharpoonup> 'st Cipher) \<Rightarrow> bool" where
  "fresh_table cd \<longleftrightarrow> (\<forall>a c. cd a = Some c \<longrightarrow> iv c = None)"

lemma parent_secret_fresh:
  "parent_secret env cfg auth addr (ad, cd) = Inr (ad', cd') \<Longrightarrow> fresh_table cd \<Longrightarrow> fresh_table cd'"
  by (auto simp: parent_secret_def bindR_eq_Inr Let_def NewCipher_iv fresh_table_def split: if_splits)

lemma sps_parents_fresh:
  "sps_parents env cfg as (ad, cd) = Inr (configs, ad', cd') \<Longrightarrow> fresh_table cd \<Longrightarrow> fresh_table cd'"
proof (induction "as" arbitrary: ad cd configs)
  case (Cons addr "as")
  from Cons.prems(1) obtain info ad1 cd1 where 1: "(if CHR ''#'' \<in> set addr then
              (case DecodeString (takeWhile (\<lambda>c. c \<noteq> CHR ''#'') addr) of
                 None \<Rightarrow> Inl (ErrMsg ''illegal base64 data'')
               | Some b \<Rightarrow>
                   (let addrInfo = split_on (CHR ''@'') (tl (dropWhile (\<lambda>c. c \<noteq> CHR ''#'') addr)) in
                    bindR (parent_secret env cfg (bytes_str b) (addrInfo ! 0) (ad, cd)) (\<lambda>tabs. Inr (addrInfo, tabs))))
            else Inr (split_on (CHR ''@'') addr, ad, cd)) = Inr (info, ad1, cd1)"
    and 2: "\<exists>cs. sps_parents env cfg as (ad1, cd1) = Inr (cs, ad', cd')"
    by (auto simp: bindR_eq_Inr split: prod.splits)
  from 1 have "fresh_table cd1"
    using Cons.prems(2) by (auto simp: bindR_eq_Inr Let_def split: if_splits option.splits dest: parent_secret_fresh)
  with 2 Cons.IH show ?case by blast
qed simp

lemma sps_listen_frame:
  "sps_listen env as sf = (r, sf') \<Longrightarrow> sps_core sf' = sps_core sf \<and> sp_handlers sf' = sp_handlers sf \<and> sp_lb sf' = sp_lb sf"
  by (induction "as" arbitrary: sf) (fastforce simp: Let_def split: if_splits option.splits)+

lemma InspectConfig_fresh:
  "InspectConfig env (sps_New env cfg) = (r, sf) \<Longrightarrow> sp_handlers sf = [] \<and> sp_lb sf = None \<and> sp_parentCipherData sf = Map.empty \<and> sp_parentCipher sf = None"
  by (auto simp: InspectConfig_def sps_New_def Let_def split: sum.splits)

lemma sps_ciphers_iv: "sps_ciphers env cfg = Inr (lc, pc) \<Longrightarrow> pc = Some c \<Longrightarrow> iv c = None"
  by (auto simp: sps_ciphers_def bindR_eq_Inr NewCipher_iv split: if_splits)

text \<open>What \<open>InitService\<close> does with the parents.\<close>

lemma InitService_parents:
  assumes "InitService env sf = (Inr u, sf')" "sp_lb sf = None"
  obtains configs ad cd lc pc where "pc_Parent (sp_cfg sf) = [] \<and> cd = sp_parentCipherData sf \<and> sp_lb sf' = None \<or>
      sps_parents env (sp_cfg sf) (pc_Parent (sp_cfg sf)) (sp_parentAuthData sf, sp_parentCipherData sf) = Inr (configs, ad, cd) \<and>
      (\<exists>lb rs. lb_New (pe_selectors env) (pc_LbMethod (sp_cfg sf)) configs [WithDNSServer rs] = Inr lb \<and> sp_lb sf' = Some lb)"
    "sps_ciphers env (sp_cfg sf) = Inr (lc, pc)" "sp_parentCipherData sf' = cd" "sp_parentCipher sf' = pc" "sp_handlers sf' = sp_handlers sf"
proof -
  define sf1 where "sf1 = (if pc_DNSAddr (sp_cfg sf) \<noteq> '''' then
      sf\<lparr>sp_resolver := Some (idns_New (env_cmap (pe_lb env)) (pc_DNSAddr (sp_cfg sf)) (pc_DNSTTL (sp_cfg sf)))\<rparr> else sf)"
  define sf2 where "sf2 = sf1\<lparr>sp_center := init_center (pe_auth env) (sp_resolver sf1) (pc_AuthFile (sp_cfg sf)) (pc_UserPasses (sp_cfg sf)) (pc_AuthURL (sp_cfg sf))
                    (pc_AuthTimeout (sp_cfg sf)) (pc_AuthOkCode (sp_cfg sf)) (pc_AuthRetry (sp_cfg sf))\<rparr>"
  have 2: "sp_parentAuthData sf2 = sp_parentAuthData sf" "sp_parentCipherData sf2 = sp_parentCipherData sf" "sp_lb sf2 = sp_lb sf" "sp_handlers sf2 = sp_handlers sf"
    by (simp_all add: sf2_def sf1_def)
  define p where "p = (if pc_Parent (sp_cfg sf) = [] then Inr (sp_parentAuthData sf2, sp_parentCipherData sf2, sp_lb sf2)
               else bindR (sps_parents env (sp_cfg sf) (pc_Parent (sp_cfg sf)) (sp_parentAuthData sf2, sp_parentCipherData sf2)) (\<lambda>(configs, authData, cipherData).
                    bindR (lb_New (pe_selectors env) (pc_LbMethod (sp_cfg sf)) configs [WithDNSServer (sp_resolver sf2)]) (\<lambda>lb.
                      Inr (authData, cipherData, Some lb))))"
  note i = assms(1) [unfolded InitService_def Let_def, folded sf1_def, folded sf2_def, folded p_def]
  from i obtain ad cd lb lc pc where q: "p = Inr (ad, cd, lb)" "sps_ciphers env (sp_cfg sf) = Inr (lc, pc)"
    "sf' = sf2\<lparr>sp_parentAuthData := ad, sp_parentCipherData := cd, sp_lb := lb, sp_localCipher := lc, sp_parentCipher := pc\<rparr>"
    by (cases p; cases "sps_ciphers env (sp_cfg sf)") auto
  from q(1) have "pc_Parent (sp_cfg sf) = [] \<and> cd = sp_parentCipherData sf \<and> lb = None \<or>
      (\<exists>configs. sps_parents env (sp_cfg sf) (pc_Parent (sp_cfg sf)) (sp_parentAuthData sf, sp_parentCipherData sf) = Inr (configs, ad, cd) \<and>
      (\<exists>l rs. lb_New (pe_selectors env) (pc_LbMethod (sp_cfg sf)) configs [WithDNSServer rs] = Inr l \<and> lb = Some l))"
    using assms(2) 2 by (auto simp: p_def bindR_eq_Inr split: if_splits)
  then obtain configs where "pc_Parent (sp_cfg sf) = [] \<and> cd = sp_parentCipherData sf \<and> lb = None \<or>
      sps_parents env (sp_cfg sf) (pc_Parent (sp_cfg sf)) (sp_parentAuthData sf, sp_parentCipherData sf) = Inr (configs, ad, cd) \<and>
      (\<exists>l rs. lb_New (pe_selectors env) (pc_LbMethod (sp_cfg sf)) configs [WithDNSServer rs] = Inr l \<and> lb = Some l)" by blast
  then show thesis by (intro that [of cd configs ad lc pc]) (use q 2 in simp_all)
qed

lemma sps_start_inv:
  assumes "sps_Start env (sps_New env cfg) = (Inr u, sf)"
  shows "sps_inv env sf"
proof -
  from assms obtain s1 s2 u1 u2 where s: "InspectConfig env (sps_New env cfg) = (Inr u1, s1)" "InitService env s1 = (Inr u2, s2)"
    "sps_listen env (split_on (CHR '','') (pc_Local (sp_cfg s2))) s2 = (Inr u, sf)"
    by (auto simp: sps_Start_def split: prod.splits sum.splits)
  note 1 = InspectConfig_fresh [OF s(1)]
  then have f1: "fresh_table (sp_parentCipherData s1)" "sp_lb s1 = None" by (simp_all add: fresh_table_def)
  obtain configs ad cd lc pc where 2: "pc_Parent (sp_cfg s1) = [] \<and> cd = sp_parentCipherData s1 \<and> sp_lb s2 = None \<or>
      sps_parents env (sp_cfg s1) (pc_Parent (sp_cfg s1)) (sp_parentAuthData s1, sp_parentCipherData s1) = Inr (configs, ad, cd) \<and>
      (\<exists>lb rs. lb_New (pe_selectors env) (pc_LbMethod (sp_cfg s1)) configs [WithDNSServer rs] = Inr lb \<and> sp_lb s2 = Some lb)"
    "sps_ciphers env (sp_cfg s1) = Inr (lc, pc)" "sp_parentCipherData s2 = cd" "sp_parentCipher s2 = pc" "sp_handlers s2 = sp_handlers s1"
    by (rule InitService_parents [OF s(2) f1(2)])
  have "fresh_table cd" using 2(1) f1(1) sps_parents_fresh by blast
  then have f2: "fresh_ciphers s2" using 2(3,4) sps_ciphers_iv [OF 2(2)] by (auto simp: fresh_ciphers_def fresh_table_def)
  have p2: "counted us []" if "sps_pool s2 = Some us" for us
    using that 2(1) NewUpstreamPool_conns by (intro counted_fresh) (auto simp: sps_pool_def lb_New_def apply_option_def split: option.splits)
  show ?thesis
    using sps_listen_frame [OF s(3)] parent_asked_core [of sf s2] f2 p2 1 2(5) by (auto simp: sps_inv_def sps_pool_def)
qed

lemma sps_reach_inv:
  assumes "retry_ok (retry_op (pe_auth env))" "\<And>s. XORKeyStream (pe_ss env) s [] = ([], s)" "sps_reach env cfg s"
  shows "sps_inv env (fst s)"
  using assms(3)
proof (induction rule: sps_reach.induct)
  case (p_start sf)
  then show ?case using sps_start_inv by fastforce
next
  case (p_step s s')
  from p_step.hyps(2) p_step.IH show ?case
  proof (induction rule: sps_step.induct)
    case (p_open sf cl c r sf' fl)
    then show ?case using sps_inv_open [OF _ p_open(4) assms(1) _ _ assms(2)] by simp
  qed (simp_all add: sps_inv_join sps_inv_release sps_inv_check sps_inv_stop)
qed

subsection \<open>What the parent understands\<close>

lemma plain_JoinHostPort:
  assumes "\<forall>c \<in> set host. \<not> is_space c" "0 \<le> port"
  shows "plain_addr (JoinHostPort host (Itoa port))"
proof -
  have "\<not> is_space c" if "c \<in> set (Itoa port)" for c
    using dec_str_digit_mem [of c "nat port"] that Itoa_nat [OF assms(2)] by (auto simp: is_space_def is_digit_def)
  then show ?thesis using assms(1) by (auto simp: plain_addr_def JoinHostPort_def is_space_def)
qed

lemma http_parent_reads:
  assumes "http_asked sf h" "sa_address (sh_asked h) = addr" "plain_addr addr" "strip_forward sf (sh_lbAddr h) (sa_forward (sh_asked h)) = ''''"
  shows "\<exists>t b. sh_out h = Plain t \<and> outbox t = [b] \<and>
    (\<forall>(penv :: ('p, 'q) auth_env) p n rest. length b \<le> n \<longrightarrow> (\<exists>req. httpc_New penv p n None (good_conn (b # rest)) = ((Inr req, None), good_conn rest) \<and>
       IsHTTPS req \<and> rq_Host req = addr))"
proof -
  obtain t auth where t: "sh_out h = Plain t" "outbox t = [str_bytes (connect_request addr auth)]"
    using assms(1,2,4) by (auto simp: http_asked_def Let_def)
  have g: "(good_conn ss)\<lparr>inbox := rest\<rparr> = good_conn rest" "inbox (good_conn ss) = ss" for ss rest by (simp_all add: good_conn_def)
  have "\<exists>req. httpc_New penv p n None (good_conn (str_bytes (connect_request addr auth) # rest)) = ((Inr req, None), good_conn rest) \<and>
       IsHTTPS req \<and> rq_Host req = addr" if "length (str_bytes (connect_request addr auth)) \<le> n" for penv :: "('p, 'q) auth_env" and p n rest
    using New_connect_open [OF assms(3) _ g(2), of auth n penv p rest] that g(1) by (simp add: IsHTTPS_def)
  then show ?thesis using t by blast
qed

lemma socks_parent_reads:
  assumes "socks_asked sf h" "sa_address (sh_asked h) = JoinHostPort host (Itoa port)" "addr_safe host" "0 \<le> port" "port < 65536"
  shows "\<exists>t pre q w. sh_out h = Plain t \<and> outbox t = pre @ q # w \<and> length w \<le> 1 \<and>
    (\<forall>rest. \<exists>rq. NewRequest (good_conn (q # rest)) = (Inr rq, good_conn rest) \<and> sq_cmd rq = CMD_CONNECT \<and>
       sq_dstAddr rq = JoinHostPort (canon_host host) (Itoa port))"
proof -
  have split: "SplitHostPort (JoinHostPort host (Itoa port)) = Inr (host, Itoa port)"
    using Split_Join assms(3) Itoa_port_chars [OF assms(4)] by blast
  have atoi: "Atoi (Itoa port) = Inr port" using assms(4,5) by (intro Atoi_Itoa) simp_all
  obtain t auth cl host' portStr port' q mid w where c: "sh_out h = Plain t" "cl = NewClient ''tcp'' (JoinHostPort host (Itoa port)) auth []"
    "SplitHostPort (JoinHostPort host (Itoa port)) = Inr (host', portStr)" "Atoi portStr = Inr port'"
    "client_request cl host' port' = Inr q" "outbox t = client_greeting cl # mid @ q # w"
    "w = [] \<or> strip_forward sf (sh_lbAddr h) (sa_forward (sh_asked h)) \<noteq> '''' \<and> w = [str_bytes (strip_forward sf (sh_lbAddr h) (sa_forward (sh_asked h)))]"
    using assms(1) unfolding socks_asked_def Let_def assms(2) by blast
  then have t: "sh_out h = Plain t" "client_request cl host port = Inr q" "outbox t = (client_greeting cl # mid) @ q # w" "length w \<le> 1"
    using split atoi by auto
  have n: "sc_network cl = ''tcp''" using c(2) by (simp add: NewClient_def)
  have "\<exists>rq. NewRequest (good_conn (q # rest)) = (Inr rq, good_conn rest) \<and> sq_cmd rq = CMD_CONNECT \<and>
       sq_dstAddr rq = JoinHostPort (canon_host host) (Itoa port)" for rest
    using NewRequest_client [OF t(2) _ assms(4,5), of "good_conn (q # rest)" rest] n by (simp add: good_conn_def)
  then show ?thesis using t(1,3,4) by blast
qed

lemma ss_parent_reads:
  assumes "ss_asked env sf h" "sa_address (sh_asked h) = JoinHostPort host (Itoa port)" "addr_safe host" "length host \<le> 255" "0 \<le> port" "port < 65536"
    and laws: "stream_laws (pe_ss env) R"
  shows "\<exists>sc c. sh_out h = Enc sc \<and> getParentCipher sf (sh_lbAddr h) = Inr c \<and>
    (\<forall>c2 segs. meth c2 = meth c \<and> key c2 = key c \<and> ivLen c2 = ivLen c \<and> reader c2 = None \<and> concat segs = concat (outbox (raw sc)) \<longrightarrow>
       fst (ss_conn_ParseRequest (pe_ss env) \<lparr>raw = good_conn segs, cipher = c2\<rparr>) = Inr (JoinHostPort (canon_host host) (Itoa port)))"
proof -
  obtain ra where ra: "ss_ParseAddrSpec (JoinHostPort host (Itoa port)) = Inr ra"
    "\<And>r. ss_ParseRequest (ra @ r) = Inr (JoinHostPort (canon_host host) (Itoa port), r)" using ss_address [OF assms(3-6)] by blast
  obtain sc c v e w where s: "sh_out h = Enc sc" "getParentCipher sf (sh_lbAddr h) = Inr c" "length v = ivLen c"
    "NewStream (pe_ss env) (meth c) (key c) v True = Inr e"
    "concat (outbox (raw sc)) = v @ fst (XORKeyStream (pe_ss env) e ra) @ fst (XORKeyStream (pe_ss env) (snd (XORKeyStream (pe_ss env) e ra)) w)"
    using assms(1,2) ra(1) unfolding ss_asked_def by auto
  obtain d where d: "NewStream (pe_ss env) (meth c) (key c) v False = Inr d" "R e d" using stream_pair [OF laws s(4)] by blast
  have wire: "concat (outbox (raw sc)) = v @ fst (XORKeyStream (pe_ss env) e (ra @ w))" using s(5) stream_append [OF laws, of e ra w] by simp
  have "fst (ss_conn_ParseRequest (pe_ss env) \<lparr>raw = good_conn segs, cipher = c2\<rparr>) = Inr (JoinHostPort (canon_host host) (Itoa port))"
    if c2: "meth c2 = meth c" "key c2 = key c" "ivLen c2 = ivLen c" "reader c2 = None" "concat segs = concat (outbox (raw sc))" for c2 segs
  proof -
    have "plain (pe_ss env) (ra @ w) \<lparr>raw = good_conn segs, cipher = c2\<rparr>"
      using plain_fresh [of "\<lparr>raw = good_conn segs, cipher = c2\<rparr>" v "fst (XORKeyStream (pe_ss env) e (ra @ w))" "pe_ss env" d]
        c2 s(3) d(1) wire stream_inverse [OF laws d(2), of "ra @ w"] by (simp add: good_conn_def)
    from plain_ParseRequest [OF laws this] show ?thesis by (simp add: ra(2))
  qed
  then show ?thesis using s(1,2) by blast
qed

subsection \<open>Properties\<close>


subsection \<open>An example\<close>

definition example_sps_env :: "((string, string) alist, (string, dns_item) alist, (string, nat) alist, unit, byte) sps_env" where
  "example_sps_env = \<lparr>pe_auth = example_auth, pe_lb = example_env, pe_users = alist_cmap, pe_selectors = [(''leastconn'', SLeastConn)], pe_ss = example_ss_env,
     pe_LoadPair = (\<lambda>_ _. Inl EOF), pe_ReadFile = (\<lambda>_. None), pe_ParseBytes = (\<lambda>_. Inl EOF), pe_url_Parse = (\<lambda>_. Inl EOF),
     md5_hex = (\<lambda>_. replicate 32 (CHR ''0'')), pe_Listen = (\<lambda>_. None), pe_ListenUDP = (\<lambda>_. None)\<rparr>"

definition example_sps_cfg :: "string list \<Rightarrow> string \<Rightarrow> sps_config" where
  "example_sps_cfg parents service = \<lparr>pc_ParentType = ''tcp'', pc_Parent = parents, pc_ParentKey = '''', pc_ParentAuth = '''', pc_ParentTLSSingle = False,
     pc_LocalType = ''tcp'', pc_Local = '':28080'', pc_LocalKey = '''', pc_CertFile = '''', pc_KeyFile = '''', pc_CaCertFile = '''', pc_KCPKey = '''',
     pc_AuthFile = '''', pc_UserPasses = [], pc_AuthURL = '''', pc_AuthTimeout = 0, pc_AuthOkCode = 0, pc_AuthRetry = 0, pc_DNSAddr = '''', pc_DNSTTL = 0,
     pc_LbMethod = ''leastconn'', pc_LbTimeout = 0, pc_LbRetryTime = 0, pc_HashTarget = False, pc_ParentServiceType = service,
     pc_ParentSSMethod = ''m'', pc_ParentSSKey = ''k'', pc_SSMethod = '''', pc_SSKey = '''', pc_DisableHTTP = False, pc_DisableSocks5 = False, pc_DisableSS = False,
     pc_RateLimit = '''', pc_LocalIPS = [], pc_RawProxyURL = ''''\<rparr>"

definition example_call :: sps_call where
  "example_call = \<lparr>cl_peer = example_peer, cl_draws = (\<lambda>_. 0), cl_dial = (\<lambda>_. Inr (good_conn [str_bytes ''HTTP/1.1 200 OK''])),
     cl_rnd = (\<lambda>n. Inr (replicate n 0)), cl_listen = Inl EOF\<rparr>"

definition ex_p0 :: "((string, string) alist, (string, dns_item) alist, (string, nat) alist, unit, byte) SPS" where
  "ex_p0 = snd (sps_Start example_sps_env (sps_New example_sps_env (example_sps_cfg [''10.0.0.2:80''] ''http'')))"

lemma ex_p0_start:
  "sps_Start example_sps_env (sps_New example_sps_env (example_sps_cfg [''10.0.0.2:80''] ''http'')) = (Inr (), ex_p0) \<and>
   sp_cfg ex_p0 = example_sps_cfg [''10.0.0.2:80''] ''http'' \<and> sp_center ex_p0 = None \<and> sp_resolver ex_p0 = None \<and> sp_handlers ex_p0 = [] \<and>
   \<not> sp_stopped ex_p0 \<and> sp_parentAuthData ex_p0 = Map.empty \<and> (\<exists>lb. sp_lb ex_p0 = Some lb \<and> lb_selector lb = SLeastConn)"
proof -
  have at: "split_on (CHR ''@'') ''10.0.0.2:80'' = [''10.0.0.2:80'']" "to_lower ''leastconn'' = ''leastconn''" "split_on (CHR '','') '':28080'' = ['':28080'']"
    by code_simp+
  show ?thesis
    by (simp add: ex_p0_def sps_Start_def InspectConfig_def sps_check_def sps_check_tls_def LocalUDPKey_def ParentUDPKey_def InitService_def init_center_def
        sps_ciphers_def example_sps_cfg_def example_sps_env_def sps_New_def Let_def at lb_New_def getNewSelectorFunction_def apply_option_def)
qed

definition ex_client :: conn where
  "ex_client = good_conn [str_bytes (connect_request ''a.b:443'' None)]"

lemma ex_client_head:
  "inbox (buffered ex_client) = [str_bytes (connect_request ''a.b:443'' None)]" "peek_head ex_client = str_bytes (connect_request ''a.b:443'' None)"
  "buffered ex_client = ex_client"
proof -
  define raw where "raw = str_bytes (connect_request ''a.b:443'' None)"
  have l: "length raw \<le> 2048" "raw \<noteq> []" unfolding raw_def by code_simp+
  then show "inbox (buffered ex_client) = [str_bytes (connect_request ''a.b:443'' None)]" "peek_head ex_client = str_bytes (connect_request ''a.b:443'' None)"
    "buffered ex_client = ex_client"
    unfolding buffered_def peek_head_def ex_client_def raw_def [symmetric] by (simp_all add: good_conn_def bufio_size_def)
qed

lemma ex_client_class: "classify (str_bytes (connect_request ''a.b:443'' None)) = Inr ProtoHTTP"
proof -
  have "ServerNameFromBytes (str_bytes (connect_request ''a.b:443'' None)) = Inl (ErrMsg ''SNI: not TLS'')"
    by (rule not_tls) (code_simp, simp add: connect_request_def str_bytes_def byte_of_char_def)
  moreover have "\<not> IsSocks5 (str_bytes (connect_request ''a.b:443'' None))" "IsHTTP (connect_request ''a.b:443'' None)" by code_simp+
  ultimately show ?thesis by (simp add: classify_def)
qed

lemma ex_p1:
  obtains sf h where "sps_open example_sps_env example_call ex_client ex_p0 = (Inr (), sf)" "sp_handlers sf = [h]"
    "sp_cfg sf = example_sps_cfg [''10.0.0.2:80''] ''http''" "sa_address (sh_asked h) = ''a.b:443''" "sa_forward (sh_asked h) = ''''"
proof -
  note f = ex_p0_start
  obtain lb where lb: "sp_lb ex_p0 = Some lb" "lb_selector lb = SLeastConn" using f by blast
  have p: "plain_addr ''a.b:443''" by (simp add: plain_addr_def is_space_def)
  have l: "length (connect_request ''a.b:443'' None) \<le> 1024" "7 \<le> length (str_bytes (connect_request ''a.b:443'' None))" by code_simp+
  have conn: "to_lower (bytes_str (take 7 (str_bytes (connect_request ''a.b:443'' None)))) = ''connect''" by code_simp
  define req where "req = \<lparr>rq_RawHeader = connect_request ''a.b:443'' None, rq_Host = ''a.b:443'', rq_Method = ''CONNECT'',
    rq_RawURL = '''', rq_hostOrURL = ''a.b:443'', rq_IsSNI = False\<rparr>"
  have n: "httpc_New example_auth example_peer 1024 None ex_client = ((Inr req, None), good_conn [])"
    using New_connect_open [OF p l(1), of ex_client "[]" example_auth example_peer] by (simp add: req_def ex_client_def good_conn_def)
  have bck: "back_center None ex_p0 = ex_p0" using f by (simp add: back_center_def)
  define asked :: "byte sps_asked" where "asked = \<lparr>sa_proto = ProtoHTTP, sa_address = ''a.b:443'', sa_auth = ('''', ''''), sa_forward = '''',
    sa_in = Plain (snd (HTTPSReply (good_conn [])))\<rparr>"
  have "accept_http example_sps_env example_call (str_bytes (connect_request ''a.b:443'' None)) ex_client ex_p0 = (Inr (Asked asked), ex_p0)"
    using f n bck l(2) conn unfolding accept_http_def lend_center_def
    by (simp add: example_sps_env_def example_call_def asked_def req_def Let_def)
  then have acc: "accept_client example_sps_env example_call ex_client ex_p0 = (Inr (Asked asked), ex_p0)"
    using f by (simp add: accept_client_def ex_client_head ex_client_class Let_def example_sps_cfg_def)
  have ty: "pc_ParentType (sp_cfg ex_p0) = ''tcp''" "pc_ParentServiceType (sp_cfg ex_p0) = ''http''" "pc_ParentAuth (sp_cfg ex_p0) = ''''"
    using f by (simp_all add: example_sps_cfg_def)
  define key where "key = (if pc_LbMethod (sp_cfg ex_p0) = ''hash'' \<and> pc_HashTarget (sp_cfg ex_p0) then sa_address asked else RemoteAddr (cl_peer example_call))"
  obtain a lb' where sel: "lb_Select (pe_lb example_sps_env) (cl_draws example_call) key lb = (Inr a, lb')"
    using lb(2) by (simp add: lb_Select_def Select_def split: option.splits)
  have g: "getParentAuth (ex_p0\<lparr>sp_lb := Some lb'\<rparr>) a = ''''" using f ty by (simp add: getParentAuth_def)
  have "RemoveProxyHeaders '''' = ''''" by code_simp
  then have s: "strip_forward (ex_p0\<lparr>sp_lb := Some lb'\<rparr>) a '''' = ''''" by (simp add: strip_forward_def)
  obtain t where t: "ask_http ''a.b:443'' None '''' (good_conn [str_bytes ''HTTP/1.1 200 OK'']) = (Inr (), t)"
    by (simp add: ask_http_def bindIO_def conn_Write_def conn_Read_def good_conn_def retIO_def)
  have ask: "ask_parent example_sps_env (cl_rnd example_call) (ex_p0\<lparr>sp_lb := Some lb'\<rparr>) a asked '''' (good_conn [str_bytes ''HTTP/1.1 200 OK'']) = Inr (Plain t, '''')"
    using ty g t f by (simp add: ask_parent_def real_auth_def asked_def)
  have d: "cl_dial example_call a = Inr (good_conn [str_bytes ''HTTP/1.1 200 OK''])" by (simp add: example_call_def)
  have af: "sa_forward asked = ''''" "sa_address asked = ''a.b:443''" by (simp_all add: asked_def)
  have "\<exists>sf h. sps_connect example_sps_env example_call asked ex_p0 = (Inr (), sf) \<and> sp_handlers sf = [h] \<and> sp_cfg sf = sp_cfg ex_p0 \<and> sh_asked h = asked"
    unfolding sps_connect_def Let_def key_def [symmetric]
    unfolding lb(1) option.case sel prod.case sum.case d bindR_Inr af(1) s ask using f af(2) by simp
  then show thesis using that acc ty af f by (auto simp: sps_open_def)
qed


end
