(* ===== verification/Sps_Properties.thy ===== *)
theory Sps_Properties
  imports Sps
begin

section \<open>What the protocol converter does with its configuration and its clients\<close>

text \<open>
  The theorems of \<open>Sps\<close> are about every reachable state of the service. Here are the format of the list of parents, the order in
  which protocols are recognised, and the places where the service does something else than it means to.
\<close>

text \<open>In every reachable state of the protocol converter, with any interleaving of connections, health checks and \<open>Stop\<close>, the counter
  of every parent is the number of connections that are joined to it (modulo \<open>2\<^sup>6\<^sup>4\<close>, and at the first of several parents with the
  same address).\<close>

theorem sps_accounting:
  assumes "retry_ok (retry_op (pe_auth env))" "stream_laws (pe_ss env) R" "sps_reach env cfg (sf, fl)"
    and "sp_lb sf = Some lb" "i < length (lb_upstreams lb)"
  shows "connections (lb_upstreams lb ! i) = (if is_first (lb_upstreams lb) i
    then of_nat (length (filter (\<lambda>h. sh_phase h = Joined \<and> sh_lbAddr h = cAddr (lb_upstreams lb ! i)) (sp_handlers sf))) else 0)"
  using sps_reach_inv [OF assms(1) stream_empty [OF assms(2)] assms(3)] assms(4,5)
  by (simp add: sps_inv_def counted_def sps_pool_def joined_on_def sps_tally_def filter_map comp_def)

subsection \<open>The list of parents\<close>

text \<open>How a user writes a parent: its address, perhaps with credentials before it and a weight after it.\<close>

definition parent_entry :: "string \<times> (string \<times> string) option \<times> int option \<Rightarrow> string" where
  "parent_entry = (\<lambda>(addr, secret, w).
     (case secret of None \<Rightarrow> '''' | Some (u, p) \<Rightarrow> EncodeToString (str_bytes (u @ '':'' @ p)) @ ''#'') @ addr @
     (case w of None \<Rightarrow> '''' | Some n \<Rightarrow> ''@'' @ Itoa n))"

definition entry_ok :: "('m, 'd, 'u, 'url, 'st) sps_env \<Rightarrow> sps_config \<Rightarrow> string \<times> (string \<times> string) option \<times> int option \<Rightarrow> bool" where
  "entry_ok env cfg = (\<lambda>(addr, secret, w).
     CHR ''#'' \<notin> set addr \<and> CHR ''@'' \<notin> set addr \<and> (case w of None \<Rightarrow> True | Some n \<Rightarrow> - (2 ^ 63) \<le> n \<and> n < 2 ^ 63) \<and>
     (case secret of None \<Rightarrow> True
      | Some (u, p) \<Rightarrow> CHR '':'' \<notin> set u \<and> CHR '':'' \<notin> set p \<and>
          (pc_ParentServiceType cfg = ''ss'' \<longrightarrow>
             is_ok (NewCipher (pe_ss env) (if u = '''' then pc_ParentSSMethod cfg else u) (if p = '''' then pc_ParentSSKey cfg else p)))))"

text \<open>What the service should remember of it.\<close>

definition entry_config :: "sps_config \<Rightarrow> string \<times> (string \<times> string) option \<times> int option \<Rightarrow> Config" where
  "entry_config cfg = (\<lambda>(addr, _, w).
     \<lparr>cAddr = addr, cWeight = (case w of None \<Rightarrow> 1 | Some n \<Rightarrow> if n = 0 then 1 else n), cMaxConnections = 0, cSuccessThreshold = 1,
      cFailureThreshold = 2, cPeriod = pc_LbRetryTime cfg, cTimeout = pc_LbTimeout cfg, cLivenessProbe = None\<rparr>)"

definition entry_auth :: "sps_config \<Rightarrow> (string \<times> string) option \<Rightarrow> string option" where
  "entry_auth cfg secret = (if pc_ParentServiceType cfg = ''ss'' then None else map_option (\<lambda>(u, p). u @ '':'' @ p) secret)"

definition entry_cipher :: "('m, 'd, 'u, 'url, 'st) sps_env \<Rightarrow> sps_config \<Rightarrow> (string \<times> string) option \<Rightarrow> 'st Cipher option" where
  "entry_cipher env cfg secret =
     (if pc_ParentServiceType cfg = ''ss'' then
        case secret of None \<Rightarrow> None
        | Some (u, p) \<Rightarrow>
            (case NewCipher (pe_ss env) (if u = '''' then pc_ParentSSMethod cfg else u) (if p = '''' then pc_ParentSSKey cfg else p) of
               Inl _ \<Rightarrow> None | Inr c \<Rightarrow> Some c)
      else None)"

lemma Itoa_no_at: "CHR ''@'' \<notin> set (Itoa i)"
  using dec_str_digit_mem [of "CHR ''@''"] by (auto simp: Itoa_def is_digit_def)

lemma atoi_value_Itoa: "- (2 ^ 63) \<le> i \<Longrightarrow> i < 2 ^ 63 \<Longrightarrow> atoi_value (Itoa i) = i"
  by (simp add: atoi_value_def Atoi_Itoa)

lemma base64_no_hash: "c \<in> set (EncodeToString bs) \<Longrightarrow> c \<noteq> CHR ''#''"
  using EncodeToString_text [of c bs] by (auto simp: b64_text_def)

lemma weighted_entry:
  assumes "CHR ''@'' \<notin> set addr" "case w of None \<Rightarrow> True | Some n \<Rightarrow> - (2 ^ 63) \<le> n \<and> n < (2 ^ 63 :: int)"
  shows "split_on (CHR ''@'') (addr @ (case w of None \<Rightarrow> '''' | Some n \<Rightarrow> ''@'' @ Itoa n)) ! 0 = addr"
    "weighted_config (pc_LbRetryTime cfg) (pc_LbTimeout cfg) (split_on (CHR ''@'') (addr @ (case w of None \<Rightarrow> '''' | Some n \<Rightarrow> ''@'' @ Itoa n))) =
       entry_config cfg (addr, secret, w)"
  using assms by (auto simp: split_on_no_sep split_on_append Itoa_no_at weighted_config_def entry_config_def atoi_value_Itoa Let_def split: option.splits)

lemma sps_parents_entry:
  assumes "entry_ok env cfg (addr, secret, w)"
  shows "sps_parents env cfg (parent_entry (addr, secret, w) # es) (ad, cd) =
    bindR (sps_parents env cfg es (ad(addr := (case entry_auth cfg secret of None \<Rightarrow> ad addr | Some s \<Rightarrow> Some s)),
                                   cd(addr := (case entry_cipher env cfg secret of None \<Rightarrow> cd addr | Some c \<Rightarrow> Some c)))) (\<lambda>(configs, tabs).
      Inr (entry_config cfg (addr, secret, w) # configs, tabs))"
proof -
  define rest where "rest = addr @ (case w of None \<Rightarrow> '''' | Some n \<Rightarrow> ''@'' @ Itoa n)"
  have r: "split_on (CHR ''@'') rest ! 0 = addr"
    "weighted_config (pc_LbRetryTime cfg) (pc_LbTimeout cfg) (split_on (CHR ''@'') rest) = entry_config cfg (addr, secret, w)"
    using weighted_entry [of addr w] assms unfolding rest_def by (simp_all add: entry_ok_def)
  have n: "CHR ''#'' \<notin> set (Itoa n)" for n using dec_str_digit_mem [of "CHR ''#''"] by (auto simp: Itoa_def is_digit_def)
  show ?thesis
  proof (cases secret)
    case None
    have "CHR ''#'' \<notin> set rest" using assms n by (auto simp: rest_def entry_ok_def split: option.splits)
    then show ?thesis using None r by (simp add: parent_entry_def rest_def [symmetric] entry_auth_def entry_cipher_def)
  next
    case (Some up)
    obtain u p where up: "up = (u, p)" by fastforce
    define e where "e = EncodeToString (str_bytes (u @ '':'' @ p))"
    have e: "DecodeString e = Some (str_bytes (u @ '':'' @ p))" by (simp add: e_def DecodeString_Encode)
    have pe: "parent_entry (addr, secret, w) = e @ CHR ''#'' # rest" by (simp add: parent_entry_def Some up e_def rest_def)
    have h: "c \<in> set e \<Longrightarrow> c \<noteq> CHR ''#''" for c unfolding e_def by (rule base64_no_hash)
    then have sp: "takeWhile (\<lambda>c. c \<noteq> CHR ''#'') (e @ CHR ''#'' # rest) = e" "dropWhile (\<lambda>c. c \<noteq> CHR ''#'') (e @ CHR ''#'' # rest) = CHR ''#'' # rest"
      by (auto simp: takeWhile_append takeWhile_eq_all_conv dropWhile_append)
    have s: "split_on (CHR '':'') (u @ CHR '':'' # p) = [u, p]" using assms Some up by (simp add: entry_ok_def split_on_append split_on_no_sep)
    have "parent_secret env cfg (u @ '':'' @ p) addr (ad, cd) = Inr (ad(addr := (case entry_auth cfg secret of None \<Rightarrow> ad addr | Some s \<Rightarrow> Some s)),
        cd(addr := (case entry_cipher env cfg secret of None \<Rightarrow> cd addr | Some c \<Rightarrow> Some c)))"
    proof (cases "pc_ParentServiceType cfg = ''ss''")
      case True
      with assms Some up obtain c where
        "NewCipher (pe_ss env) (if u = '''' then pc_ParentSSMethod cfg else u) (if p = '''' then pc_ParentSSKey cfg else p) = Inr c"
        by (auto simp: entry_ok_def is_ok_ex)
      then show ?thesis using True Some up s by (simp add: parent_secret_def entry_auth_def entry_cipher_def index_at_def)
    qed (simp add: parent_secret_def entry_auth_def entry_cipher_def Some up)
    then show ?thesis unfolding pe using e r sp by simp
  qed
qed

lemma sps_parents_entries:
  assumes "list_all (entry_ok env cfg) es" "distinct (map fst es)"
  shows "\<exists>ad' cd'. sps_parents env cfg (map parent_entry es) (ad, cd) = Inr (map (entry_config cfg) es, ad', cd') \<and>
    (\<forall>a. a \<notin> fst ` set es \<longrightarrow> ad' a = ad a \<and> cd' a = cd a) \<and>
    (\<forall>(a, s, w) \<in> set es. ad' a = (case entry_auth cfg s of None \<Rightarrow> ad a | Some x \<Rightarrow> Some x) \<and>
       cd' a = (case entry_cipher env cfg s of None \<Rightarrow> cd a | Some c \<Rightarrow> Some c))"
  using assms
proof (induction es arbitrary: ad cd)
  case (Cons e es)
  obtain a s w where e: "e = (a, s, w)" by (cases e) auto
  define ad1 where "ad1 = ad(a := (case entry_auth cfg s of None \<Rightarrow> ad a | Some x \<Rightarrow> Some x))"
  define cd1 where "cd1 = cd(a := (case entry_cipher env cfg s of None \<Rightarrow> cd a | Some c \<Rightarrow> Some c))"
  have ok: "entry_ok env cfg (a, s, w)" "list_all (entry_ok env cfg) es" "distinct (map fst es)" "a \<notin> fst ` set es" using Cons.prems e by auto
  obtain ad' cd' where r: "sps_parents env cfg (map parent_entry es) (ad1, cd1) = Inr (map (entry_config cfg) es, ad', cd')"
    and o: "\<And>b. b \<notin> fst ` set es \<Longrightarrow> ad' b = ad1 b \<and> cd' b = cd1 b"
    and i: "\<And>b t v. (b, t, v) \<in> set es \<Longrightarrow> ad' b = (case entry_auth cfg t of None \<Rightarrow> ad1 b | Some x \<Rightarrow> Some x) \<and>
       cd' b = (case entry_cipher env cfg t of None \<Rightarrow> cd1 b | Some c \<Rightarrow> Some c)"
    using Cons.IH [OF ok(2,3), of ad1 cd1] by blast
  have "sps_parents env cfg (map parent_entry (e # es)) (ad, cd) = Inr (map (entry_config cfg) (e # es), ad', cd')"
    using sps_parents_entry [OF ok(1), of "map parent_entry es" ad cd] r by (simp add: e ad1_def cd1_def)
  moreover have "ad' b = ad b \<and> cd' b = cd b" if "b \<notin> fst ` set (e # es)" for b
    using that o [of b] by (simp add: e ad1_def cd1_def)
  moreover have "ad' b = (case entry_auth cfg t of None \<Rightarrow> ad b | Some x \<Rightarrow> Some x) \<and> cd' b = (case entry_cipher env cfg t of None \<Rightarrow> cd b | Some c \<Rightarrow> Some c)"
    if "(b, t, v) \<in> set (e # es)" for b t v
  proof (cases "(b, t, v) = e")
    case True
    then have q: "b = a" "t = s" by (simp_all add: e)
    show ?thesis unfolding q using o [of a] ok(4) by (simp add: ad1_def cd1_def)
  next
    case False
    then have m: "(b, t, v) \<in> set es" using that by simp
    then have "b \<noteq> a" using ok(4) by force
    then have q: "ad1 b = ad b" "cd1 b = cd b" by (simp_all add: ad1_def cd1_def)
    show ?thesis using i [OF m] unfolding q .
  qed
  ultimately show ?case by blast
qed simp

text \<open>The list of parents is read as it is written: from \<open>address\<close>, \<open>address@weight\<close> and, before either, the
  base64 code of \<open>user:password\<close> and a \<open>#\<close>, every upstream gets its address and its weight (1 when none or 0 is given), and every
  parent its own credentials, or its own cipher when the parents are shadowsocks servers (an empty method or key stands for the general one).\<close>

theorem sps_parent_list:
  assumes "list_all (entry_ok env cfg) es" "distinct (map fst es)"
  shows "\<exists>authData cipherData. sps_parents env cfg (map parent_entry es) (Map.empty, Map.empty) = Inr (map (entry_config cfg) es, authData, cipherData) \<and>
    (\<forall>addr secret w. (addr, secret, w) \<in> set es \<longrightarrow> authData addr = entry_auth cfg secret \<and> cipherData addr = entry_cipher env cfg secret)"
  using sps_parents_entries [OF assms, of Map.empty Map.empty]
  by (fastforce split: option.splits)

theorem sps_parent_list_witness:
  "\<exists>authData cipherData. sps_parents example_sps_env (example_sps_cfg [] ''http'')
       (map parent_entry [(''a:80'', Some (''u'', ''p''), Some 3), (''b:80'', None, None)]) (Map.empty, Map.empty) =
     Inr (map (entry_config (example_sps_cfg [] ''http'')) [(''a:80'', Some (''u'', ''p''), Some 3), (''b:80'', None, None)], authData, cipherData) \<and>
     authData ''a:80'' = Some ''u:p'' \<and> authData ''b:80'' = None"
  using sps_parent_list [of example_sps_env "example_sps_cfg [] ''http''" "[(''a:80'', Some (''u'', ''p''), Some 3), (''b:80'', None, None)]"]
  by (fastforce simp: entry_ok_def example_sps_cfg_def entry_auth_def)

subsection \<open>Where the service fails its clients\<close>

lemma NewRequest_domain:
  assumes "length d \<le> 255" "0 \<le> port" "port < 65536"
  shows "\<exists>rq. NewRequest (good_conn (([5, 1, 0, 3, of_nat (length d)] @ str_bytes d @ port_bytes port) # rest)) = (Inr rq, good_conn rest) \<and>
    sq_cmd rq = CMD_CONNECT \<and> sq_dstAddr rq = JoinHostPort d (Itoa port)"
proof -
  define q where "q = [5, 1, 0, 3, of_nat (length d)] @ str_bytes d @ port_bytes port"
  define b where "b = q @ replicate (1024 - length q) 0"
  have len: "length q = length d + 7" by (simp add: q_def port_bytes_def)
  have hd_b: "b ! 0 = 5" "b ! 1 = 1" "b ! 2 = 0" "b ! 3 = 3" by (simp_all add: b_def q_def)
  have ix: "index_int b (int (length q) - 2) = Inr (byte_of_int (port div 256))" "index_int b (int (length q) - 1) = Inr (byte_of_int port)"
    unfolding index_int_def len by (simp_all add: b_def q_def nth_append port_bytes_def nat_add_distrib)
  have be: "be16 (byte_of_int (port div 256)) (byte_of_int port) = port" using assms by (simp add: be16_port_bytes)
  have host: "request_host b (length q) = Inr d"
    unfolding request_host_def hd_b len by (simp add: b_def q_def slice_int_def nat_add_distrib)
  have read: "mapErr (ErrMsg ''read req data fail'') (conn_Read 1024) (good_conn (q # rest)) = (Inr q, good_conn rest)"
    using conn_Read_seg [of "good_conn (q # rest)" q rest 1024] assms(1) len by (simp add: mapErr_def good_conn_def)
  show ?thesis
    unfolding q_def [symmetric] NewRequest_def bindIO_simps(1) [of "mapErr (ErrMsg ''read req data fail'') (conn_Read 1024)", OF read]
    using hd_b by (simp add: Let_def b_def [symmetric] host ix bindIO_ret be retIO_simp CMD_CONNECT_def)
qed

lemma ask_http_good:
  assumes "reply \<noteq> []"
  shows "\<exists>t. ask_http address auth '''' (good_conn (reply # rest)) = (Inr (), t) \<and>
    outbox t = [str_bytes (''CONNECT '' @ address @ '' HTTP/1.1'' @ CRLF @ tunnel_headers address auth @ CRLF)]"
  using assms by (simp add: ask_http_def bindIO_def conn_Write_def conn_Read_def good_conn_def retIO_def)

text \<open>A SOCKS5 client can send a request of its own making to an HTTP parent: the name of the target is written into the
  CONNECT request as it came, so that a name with a line break in it ends the request for another target, and what follows the break comes
  to the parent as if the service had written it, on the connection that carries the credentials of the service.\<close>

theorem sps_smuggling:
  assumes "d = h @ '' HTTP/1.1'' @ CRLF @ CRLF @ smuggled" "CHR '':'' \<notin> set d" "length d \<le> 255" "0 \<le> port" "port < 65536"
  shows "\<exists>rq. NewRequest (good_conn (([5, 1, 0, 3, of_nat (length d)] @ str_bytes d @ port_bytes port) # rest)) = (Inr rq, good_conn rest) \<and>
    sq_cmd rq = CMD_CONNECT \<and>
    (\<forall>auth reply ss. reply \<noteq> [] \<longrightarrow>
       (\<exists>t tail. ask_http (sq_dstAddr rq) auth '''' (good_conn (reply # ss)) = (Inr (), t) \<and>
          concat (outbox t) = str_bytes (''CONNECT '' @ h @ '' HTTP/1.1'' @ CRLF @ CRLF) @ str_bytes smuggled @ tail))"
proof -
  obtain rq where rq: "NewRequest (good_conn (([5, 1, 0, 3, of_nat (length d)] @ str_bytes d @ port_bytes port) # rest)) = (Inr rq, good_conn rest)"
    "sq_cmd rq = CMD_CONNECT" "sq_dstAddr rq = JoinHostPort d (Itoa port)" using NewRequest_domain [OF assms(3-5)] by blast
  have a: "sq_dstAddr rq = h @ '' HTTP/1.1'' @ CRLF @ CRLF @ smuggled @ '':'' @ Itoa port"
    using assms(2) unfolding rq(3) by (simp add: JoinHostPort_def assms(1))
  have "\<exists>t tail. ask_http (sq_dstAddr rq) auth '''' (good_conn (reply # ss)) = (Inr (), t) \<and>
      concat (outbox t) = str_bytes (''CONNECT '' @ h @ '' HTTP/1.1'' @ CRLF @ CRLF) @ str_bytes smuggled @ tail" if "reply \<noteq> []" for auth reply ss
    using ask_http_good [OF that, of "sq_dstAddr rq" auth ss] unfolding a by (auto simp: str_bytes_def)
  with rq(1,2) show ?thesis by blast
qed

theorem sps_smuggling_witness:
  "\<exists>rq t tail. NewRequest (good_conn [[5, 1, 0, 3, of_nat (length (''x HTTP/1.1'' @ CRLF @ CRLF @ ''GET / HTTP/1.0''))] @
       str_bytes (''x HTTP/1.1'' @ CRLF @ CRLF @ ''GET / HTTP/1.0'') @ port_bytes 80]) = (Inr rq, good_conn []) \<and>
     ask_http (sq_dstAddr rq) None '''' (good_conn [[72]]) = (Inr (), t) \<and>
     concat (outbox t) = str_bytes (''CONNECT x HTTP/1.1'' @ CRLF @ CRLF) @ str_bytes ''GET / HTTP/1.0'' @ tail"
  using sps_smuggling [of "''x HTTP/1.1'' @ CRLF @ CRLF @ ''GET / HTTP/1.0''" "''x''" "''GET / HTTP/1.0''" 80 "[]"]
  by (force simp: CRLF_def)

lemma classify_empty: "classify [] = Inr ProtoSS"
proof -
  have "case ServerNameFromBytes [] of Inl (Panic p) \<Rightarrow> False | Inl _ \<Rightarrow> True | Inr name \<Rightarrow> False" by code_simp
  moreover have "\<not> IsSocks5 []" "\<not> IsHTTP (bytes_str [])" by code_simp+
  ultimately show ?thesis by (auto simp: classify_def split: sum.splits error.splits)
qed

lemma unkeyed_ss_panics:
  assumes "pc_ParentType (sp_cfg sf) \<in> {''tcp'', ''stcp'', ''tls'', ''kcp''}" "sp_localCipher sf = None" "\<not> pc_DisableSS (sp_cfg sf)"
    "classify (peek_head c) = Inr ProtoSS"
  shows "sps_open env cl c sf = (Inl (Panic NilDereference), sf)"
proof -
  have "accept_client env cl c sf = (Inl (Panic NilDereference), sf)" using assms(2-4) by (simp add: accept_client_def accept_ss_def Let_def)
  then show ?thesis using assms(1) by (auto simp: sps_open_def)
qed

lemma http_credentials_kept:
  assumes "accept_http env cl h c sf = (Inr (Asked asked), sf')"
  shows "real_auth '''' fromSS (sp_center sf' = None) (sa_auth asked) = Inr None"
  using assms by (auto simp: accept_http_def real_auth_def Let_def split: prod.splits sum.splits if_splits)

lemma tls_single_panics:
  assumes "pc_Parent cfg \<noteq> []" "pc_Parent cfg \<noteq> ['''']" "pc_ParentType cfg \<notin> {'''', ''ss''}" "pc_LocalType cfg = ''tls''" "pc_ParentTLSSingle cfg"
    "pc_CaCertFile cfg = ''''" "pc_RateLimit cfg = ''''"
  shows "fst (sps_Start env (sps_New env cfg)) = Inl (Panic SliceOutOfRange)"
  using assms by (simp add: sps_Start_def InspectConfig_def sps_New_def sps_check_def sps_check_tls_def LocalUDPKey_def slice_at_def Let_def)

lemma ss_secret_panics:
  assumes "pc_ParentServiceType cfg = ''ss''" "CHR '':'' \<notin> set s"
  shows "sps_parents env cfg ((EncodeToString (str_bytes s) @ ''#'' @ addr) # es) tabs = Inl (Panic IndexOutOfRange)"
proof -
  have "takeWhile (\<lambda>c. c \<noteq> CHR ''#'') (EncodeToString (str_bytes s) @ CHR ''#'' # addr) = EncodeToString (str_bytes s)"
    using base64_no_hash [of _ "str_bytes s"] by (auto simp: takeWhile_append takeWhile_eq_all_conv)
  then show ?thesis using assms by (cases tabs) (simp add: DecodeString_Encode parent_secret_def index_at_def split_on_no_sep Let_def)
qed

text \<open>Five places where the protocol converter does not do what it means to. A client of none of the other protocols, one that sends
  nothing too, makes its handler dereference a \<open>nil\<close> cipher when shadowsocks is not disabled and not configured. An HTTP parent's answer to CONNECT is not
  read: a refusal is taken for success and the connections are joined. The credentials of an HTTP client are read only when
  the service checks them itself and passed on only when it does not, so they never reach the parent. \<open>Start\<close> panics for TLS listeners without their own
  certificate, and for a shadowsocks parent whose credentials have no colon.\<close>

theorem sps_anomalies:
  "pc_ParentType (sp_cfg sf) \<in> {''tcp'', ''stcp'', ''tls'', ''kcp''} \<Longrightarrow> sp_localCipher sf = None \<Longrightarrow> \<not> pc_DisableSS (sp_cfg sf) \<Longrightarrow>
   (\<forall>c. peek_head c = [] \<or> classify (peek_head c) = Inr ProtoSS \<longrightarrow> sps_open env cl c sf = (Inl (Panic NilDereference), sf)) \<and>
   (\<forall>reply address auth. reply \<noteq> [] \<longrightarrow> fst (ask_http address auth '''' (good_conn [reply])) = Inr ()) \<and>
   (\<forall>h c asked sf' fromSS. accept_http env cl h c sf = (Inr (Asked asked), sf') \<longrightarrow>
      real_auth '''' fromSS (sp_center sf' = None) (sa_auth asked) = Inr None) \<and>
   (\<forall>cfg. pc_Parent cfg \<notin> {[], ['''']} \<and> pc_ParentType cfg \<notin> {'''', ''ss''} \<and> pc_LocalType cfg = ''tls'' \<and> pc_ParentTLSSingle cfg \<and>
      pc_CaCertFile cfg = '''' \<and> pc_RateLimit cfg = '''' \<longrightarrow> fst (sps_Start env (sps_New env cfg)) = Inl (Panic SliceOutOfRange)) \<and>
   (\<forall>cfg s addr es tabs. pc_ParentServiceType cfg = ''ss'' \<and> CHR '':'' \<notin> set s \<longrightarrow>
      sps_parents env cfg ((EncodeToString (str_bytes s) @ ''#'' @ addr) # es) tabs = Inl (Panic IndexOutOfRange))"
proof (intro conjI allI impI, goal_cases)
  case (1 c)
  then show ?case using unkeyed_ss_panics classify_empty by metis
next
  case (2 reply address auth)
  then show ?case using ask_http_good [of reply address auth "[]"] by auto
next
  case 3
  then show ?case by (simp add: http_credentials_kept)
next
  case 4
  then show ?case by (intro tls_single_panics) auto
next
  case 5
  then show ?case by (intro ss_secret_panics) auto
qed

theorem sps_anomalies_witness:
  "sps_open example_sps_env example_call (good_conn []) (sps_New example_sps_env (example_sps_cfg [''10.0.0.2:80''] ''http'')) =
     (Inl (Panic NilDereference), sps_New example_sps_env (example_sps_cfg [''10.0.0.2:80''] ''http''))"
  using sps_anomalies [of "sps_New example_sps_env (example_sps_cfg [''10.0.0.2:80''] ''http'')" example_sps_env example_call]
  by (simp add: sps_New_def example_sps_cfg_def peek_head_def buffered_def good_conn_def)

theorem sps_accounting_witness:
  "\<exists>sf lb. sps_reach example_sps_env (example_sps_cfg [''10.0.0.2:80''] ''http'') (sf, []) \<and> sp_lb sf = Some lb \<and>
     length (lb_upstreams lb) = 1 \<and> (\<forall>u \<in> set (lb_upstreams lb). connections u = 0)"
proof -
  have at: "split_on (CHR ''@'') ''10.0.0.2:80'' = [''10.0.0.2:80'']" "to_lower ''leastconn'' = ''leastconn''" "split_on (CHR '','') '':28080'' = ['':28080'']"
    "is_ok (SplitHostPort ''10.0.0.2:80'')" by code_simp+
  then have "length (NewUpstreamPool [weighted_config 0 0 [''10.0.0.2:80'']]) = 1"
    by (auto simp: weighted_config_def NewUpstream_def is_ok_ex split: sum.splits)
  then have one: "sp_lb ex_p0 = Some lb \<Longrightarrow> length (lb_upstreams lb) = 1" for lb
    by (auto simp: ex_p0_def sps_Start_def InspectConfig_def sps_check_def sps_check_tls_def LocalUDPKey_def ParentUDPKey_def InitService_def init_center_def
        sps_ciphers_def example_sps_cfg_def example_sps_env_def sps_New_def Let_def at(1-3) lb_New_def getNewSelectorFunction_def apply_option_def)
  obtain lb where lb: "sp_lb ex_p0 = Some lb" using ex_p0_start by blast
  have r: "sps_reach example_sps_env (example_sps_cfg [''10.0.0.2:80''] ''http'') (ex_p0, [])" using ex_p0_start by (auto intro: p_start)
  have laws: "stream_laws (pe_ss example_sps_env) (\<lambda>e d. d = - e)"
    by (auto simp: stream_laws_def example_sps_env_def example_ss_env_def comp_def)
  have ok: "retry_ok (retry_op (pe_auth example_sps_env))" using example_retry_ok by (simp add: example_sps_env_def)
  have "connections u = 0" if u: "u \<in> set (lb_upstreams lb)" for u
  proof -
    from u obtain i where i: "i < length (lb_upstreams lb)" "lb_upstreams lb ! i = u" by (auto simp: in_set_conv_nth)
    from sps_accounting [OF ok laws r lb i(1)] show ?thesis using ex_p0_start i(2) by simp
  qed
  with r lb one [OF lb] show ?thesis by blast
qed

end
