(* ===== verification/Ip_Text.thy ===== *)
theory Ip_Text
  imports Go_Net
begin

section \<open>Printed IP addresses\<close>

text \<open>
  \<open>net.ParseIP\<close> undoes \<open>net.IP.String\<close>: the packets of core/socks5 and connection/shadowsocks keep an address as text and
  parse it again when they are written, so that relaying a packet rests on this. The dotted form is treated in Go_Net; here
  is the form with groups of hexadecimal digits, one run of zero groups cut.
\<close>

subsection \<open>A group\<close>

lemma hex_val_hex_char: "d < 16 \<Longrightarrow> hex_val (hex_char d) = Some d"
  by (auto simp: hex_val_def hex_char_def Let_def)

lemma xtoi_loop_hex_str: "xtoi_loop m (hex_str n @ r) = xtoi_loop (m * 16 ^ length (hex_str n) + n) r"
proof (induction n arbitrary: m r rule: hex_str.induct)
  case (1 n)
  show ?case
  proof (cases "n < 16")
    case True
    then show ?thesis by (simp add: hex_str.simps [of n] hex_val_hex_char)
  next
    case False
    have "xtoi_loop m (hex_str n @ r) = xtoi_loop ((m * 16 ^ length (hex_str (n div 16)) + n div 16) * 16 + n mod 16) r"
      using 1 [OF False] False by (simp add: hex_str.simps [of n] hex_val_hex_char)
    also have "(m * 16 ^ length (hex_str (n div 16)) + n div 16) * 16 + n mod 16 = m * 16 ^ length (hex_str n) + n"
      using False div_mult_mod_eq [of n 16] by (simp add: hex_str.simps [of n] algebra_simps)
    finally show ?thesis .
  qed
qed

lemma hex_str_hd: "hex_str n \<noteq> [] \<and> (\<exists>d < 16. hd (hex_str n) = hex_char d)"
proof (induction n rule: hex_str.induct)
  case (1 n)
  then show ?case by (cases "n < 16") (auto simp: hex_str.simps [of n])
qed

lemma hex_str_set: "c \<in> set (hex_str n) \<Longrightarrow> \<exists>d < 16. c = hex_char d"
proof (induction n rule: hex_str.induct)
  case (1 n)
  then show ?case by (cases "n < 16") (force simp: hex_str.simps [of n])+
qed

lemma hex_char_punct: "d < 16 \<Longrightarrow> hex_char d \<noteq> CHR '':'' \<and> hex_char d \<noteq> CHR ''.'' \<and> hex_char d \<noteq> CHR ''['' \<and> hex_char d \<noteq> CHR '']''"
  using hex_val_hex_char [of d] by (auto simp: hex_val_def)

text \<open>Text after a group: nothing, or a colon.\<close>

definition after_group :: "string \<Rightarrow> bool" where
  "after_group r \<longleftrightarrow> r = [] \<or> hd r = CHR '':''"

lemma xtoi_hex_str:
  assumes "after_group r"
  shows "xtoi (hex_str n @ r) = Some (n, r)"
proof -
  have "xtoi_loop k r = (k, r)" for k
    using assms by (cases r) (auto simp: after_group_def hex_val_def)
  moreover have "hex_val (hd (hex_str n)) \<noteq> None" using hex_str_hd [of n] hex_val_hex_char by auto
  ultimately show ?thesis using hex_str_hd [of n] by (simp add: xtoi_def xtoi_loop_hex_str)
qed

subsection \<open>Groups and bytes\<close>

definition group_bytes :: "nat list \<Rightarrow> bytes" where
  "group_bytes gs = concat (map (\<lambda>g. [of_nat (g div 256), of_nat g]) gs)"

lemma group_bytes_simps [simp]:
  "group_bytes [] = []" "group_bytes (g # gs) = [of_nat (g div 256), of_nat g] @ group_bytes gs"
  "group_bytes (gs @ hs) = group_bytes gs @ group_bytes hs" "length (group_bytes gs) = 2 * length gs"
  by (simp_all add: group_bytes_def length_concat comp_def sum_list_triv)

lemma group_bytes_zero: "group_bytes (replicate n 0) = replicate (2 * n) 0"
  by (induction n) simp_all

lemma ip_groups_bytes: "even (length ip) \<Longrightarrow> group_bytes (ip_groups ip) = ip"
proof (induction ip rule: ip_groups.induct)
  case (1 a b bs)
  have "(unat a * 256 + unat b) div 256 = unat a" using unat_byte_less [of b] by simp
  moreover have "(256 :: byte) = 0" by simp
  then have "(of_nat (unat a * 256 + unat b) :: byte) = b" by (simp only: of_nat_add of_nat_mult of_nat_numeral) simp
  ultimately show ?case using 1 by simp
qed simp_all

lemma ip_groups_length: "length (ip_groups ip) = length ip div 2"
  by (induction ip rule: ip_groups.induct) simp_all

lemma ip_groups_bound: "g \<in> set (ip_groups ip) \<Longrightarrow> g \<le> 65535"
proof (induction ip rule: ip_groups.induct)
  case (1 a b bs)
  have "unat a * 256 + unat b \<le> 65535" using unat_byte_less [of a] unat_byte_less [of b] by linarith
  then show ?case using 1 by auto
qed simp_all

subsection \<open>Printing\<close>

definition colons :: "nat list \<Rightarrow> string" where
  "colons gs = join_with '':'' (map hex_str gs)"

definition tail_colons :: "nat list \<Rightarrow> string" where
  "tail_colons gs = concat (map (\<lambda>g. '':'' @ hex_str g) gs)"

lemma tail_colons_simps [simp]: "tail_colons [] = []" "tail_colons (g # gs) = '':'' @ hex_str g @ tail_colons gs"
  by (simp_all add: tail_colons_def)

lemma colons_Cons: "colons (g # gs) = hex_str g @ tail_colons gs"
  by (induction gs arbitrary: g) (simp_all add: colons_def)

lemma after_tail [simp]: "after_group (tail_colons gs)" "after_group (tail_colons gs @ '':'' @ r)"
  by (cases gs; simp add: after_group_def)+

lemma print_tail:
  assumes "i > 0" "case e of None \<Rightarrow> True | Some (e0, e1) \<Rightarrow> e0 < i"
  shows "print_groups gs e i = tail_colons (drop i gs)"
  using assms
proof (induction "length gs - i" arbitrary: i)
  case 0
  then show ?case by (simp add: print_groups.simps [of gs e i])
next
  case (Suc n)
  have "print_groups gs e (Suc i) = tail_colons (drop (Suc i) gs)"
    using Suc.hyps(2) Suc.prems by (intro Suc.hyps(1)) (auto split: option.splits)
  then show ?case using Suc
    by (auto simp: print_groups.simps [of gs e i] Cons_nth_drop_Suc [symmetric] split: option.splits)
qed

lemma print_run:
  assumes "0 < i" "i \<le> e0" "e0 < e1" "e1 \<le> length gs"
  shows "print_groups gs (Some (e0, e1)) i = tail_colons (take (e0 - i) (drop i gs)) @ ''::'' @ colons (drop e1 gs)"
  using assms
proof (induction "e0 - i" arbitrary: i)
  case 0
  then have "print_groups gs (Some (e0, e1)) (Suc e1) = tail_colons (drop (Suc e1) gs)" by (intro print_tail) simp_all
  then show ?case using 0
    by (cases "e1 < length gs")
      (simp_all add: print_groups.simps [of gs _ i] Cons_nth_drop_Suc [symmetric] colons_Cons, simp add: colons_def)
next
  case (Suc n)
  have "print_groups gs (Some (e0, e1)) (Suc i) = tail_colons (take (e0 - Suc i) (drop (Suc i) gs)) @ ''::'' @ colons (drop e1 gs)"
    using Suc.hyps(2) Suc.prems by (intro Suc.hyps(1)) simp_all
  moreover have "take (e0 - i) (drop i gs) = gs ! i # take (e0 - Suc i) (drop (Suc i) gs)"
    using Suc.hyps(2) Suc.prems by (simp add: Cons_nth_drop_Suc [symmetric] take_Cons' Suc_diff_Suc)
  moreover have "i \<noteq> e0" using Suc.hyps(2) by simp
  ultimately show ?case using Suc.prems by (simp add: print_groups.simps [of gs _ i])
qed

lemma print_plain:
  assumes "gs \<noteq> []"
  shows "print_groups gs None 0 = colons gs"
proof (cases gs)
  case (Cons g hs)
  then show ?thesis using print_tail [of "Suc 0" None gs] by (simp add: print_groups.simps [of "g # hs" None 0] colons_Cons)
qed (use assms in simp)

lemma print_cut:
  assumes "e0 < e1" "e1 \<le> length gs"
  shows "print_groups gs (Some (e0, e1)) 0 = colons (take e0 gs) @ ''::'' @ colons (drop e1 gs)"
proof (cases "e0 = 0")
  case True
  have "print_groups gs (Some (0, e1)) (Suc e1) = tail_colons (drop (Suc e1) gs)" by (intro print_tail) simp_all
  moreover have "gs \<noteq> []" using assms by auto
  ultimately show ?thesis using assms True
    by (cases "e1 < length gs")
      (simp_all add: print_groups.simps [of gs _ 0] Cons_nth_drop_Suc [symmetric] colons_Cons, simp_all add: colons_def)
next
  case False
  then have "take e0 gs = gs ! 0 # take (e0 - 1) (drop 1 gs)" using assms by (cases gs; cases e0) simp_all
  moreover have "gs \<noteq> []" using assms by auto
  ultimately show ?thesis using assms False print_run [of "Suc 0" e0 e1 gs]
    by (simp add: print_groups.simps [of gs _ 0] colons_Cons)
qed

subsection \<open>Parsing\<close>

lemma parse6_step_group:
  assumes "g \<le> 65535" "after_group r"
  shows "parse6_step (ell, acc, hex_str g @ r) =
    (let acc' = acc @ [of_nat (g div 256), of_nat g] in
     case r of
       [] \<Rightarrow> Some (Inl (ell, acc', []))
     | c # s1 \<Rightarrow>
         if s1 = [] then None
         else if hd s1 = CHR '':'' then
           (if ell \<noteq> None then None
            else if tl s1 = [] then Some (Inl (Some (length acc'), acc', []))
            else Some (Inr (Some (length acc'), acc', tl s1)))
         else Some (Inr (ell, acc', s1)))"
  using assms(1) assms(2) [unfolded after_group_def] xtoi_hex_str [OF assms(2), of g]
  by (cases r) (simp_all add: parse6_step_def Let_def)

lemma hex_str_first: "hex_str n @ r \<noteq> []" "hd (hex_str n @ r) \<noteq> CHR '':''"
proof -
  obtain d where "d < 16" "hex_str n \<noteq> []" "hd (hex_str n) = hex_char d" using hex_str_hd by blast
  then show "hex_str n @ r \<noteq> []" "hd (hex_str n @ r) \<noteq> CHR '':''" using hex_char_punct [of d] by simp_all
qed

lemma parse6_groups:
  assumes "\<forall>g \<in> set (g # gs). g \<le> 65535" "length acc + 2 * length (g # gs) \<le> 16"
  shows "parse6_loop (ell, acc, hex_str g @ tail_colons gs) = Some (ell, acc @ group_bytes (g # gs), [])"
  using assms
proof (induction gs arbitrary: g acc)
  case Nil
  then show ?case using parse6_step_group [of g "[]" ell acc] by (simp add: parse6_loop.simps [of ell acc] after_group_def)
next
  case (Cons h gs)
  have "parse6_step (ell, acc, hex_str g @ tail_colons (h # gs)) =
      Some (Inr (ell, acc @ [of_nat (g div 256), of_nat g], hex_str h @ tail_colons gs))"
    using parse6_step_group [of g "tail_colons (h # gs)" ell acc] Cons.prems hex_str_first [of h "tail_colons gs"]
    by (simp add: after_group_def Let_def)
  then show ?case using Cons.IH [of h "acc @ [of_nat (g div 256), of_nat g]"] Cons.prems
    by (simp add: parse6_loop.simps [of ell acc])
qed

lemma parse6_cut:
  assumes "\<forall>g \<in> set (g # gs). g \<le> 65535" "length acc + 2 * length (g # gs) < 16"
  shows "parse6_loop (None, acc, hex_str g @ tail_colons gs @ ''::'' @ r) =
    (let acc' = acc @ group_bytes (g # gs) in
     if r = [] then Some (Some (length acc'), acc', []) else parse6_loop (Some (length acc'), acc', r))"
  using assms
proof (induction gs arbitrary: g acc)
  case Nil
  then show ?case using parse6_step_group [of g "''::'' @ r" None acc] by (simp add: parse6_loop.simps [of None acc] after_group_def Let_def)
next
  case (Cons h gs)
  have "parse6_step (None, acc, hex_str g @ tail_colons (h # gs) @ ''::'' @ r) =
      Some (Inr (None, acc @ [of_nat (g div 256), of_nat g], hex_str h @ tail_colons gs @ ''::'' @ r))"
    using parse6_step_group [of g "tail_colons (h # gs) @ ''::'' @ r" None acc] Cons.prems hex_str_first [of h "tail_colons gs @ ''::'' @ r"]
    by (simp add: after_group_def Let_def)
  then show ?case using Cons.IH [of h "acc @ [of_nat (g div 256), of_nat g]"] Cons.prems
    by (simp add: parse6_loop.simps [of None acc])
qed

subsection \<open>The run that is cut\<close>

definition zero_run :: "nat list \<Rightarrow> nat \<times> nat \<Rightarrow> bool" where
  "zero_run gs e \<longleftrightarrow> fst e \<le> snd e \<and> snd e \<le> length gs \<and> (\<forall>k. fst e \<le> k \<and> k < snd e \<longrightarrow> gs ! k = 0)"

lemma best_run_zero: "zero_run gs e \<Longrightarrow> zero_run gs (best_run gs i e)"
proof (induction gs i e rule: best_run.induct)
  case (1 gs i e)
  define n where "n = length (takeWhile (\<lambda>g. g = 0) (drop i gs))"
  have n: "n \<le> length gs - i" unfolding n_def using length_takeWhile_le [of "\<lambda>g. g = 0" "drop i gs"] by simp
  have "gs ! (i + k) = 0" if "k < n" for k
  proof -
    have "takeWhile (\<lambda>g. g = 0) (drop i gs) ! k = 0" using that nth_mem set_takeWhileD unfolding n_def by (metis (full_types))
    then show ?thesis using that n takeWhile_nth [of k "\<lambda>g. g = 0" "drop i gs"] by (simp add: n_def)
  qed
  then have z: "zero_run gs (i, i + n)" if "i < length gs"
    using n that by (auto simp: zero_run_def) (metis le_Suc_ex nat_add_left_cancel_less)
  show ?case
  proof (cases "i \<ge> length gs")
    case True
    then show ?thesis using 1 by (simp add: best_run.simps [of gs i e])
  next
    case False
    then show ?thesis using 1 z by (simp add: best_run.simps [of gs i e] Let_def n_def)
  qed
qed

lemma zero_run_split:
  assumes "zero_run gs (e0, e1)"
  shows "gs = take e0 gs @ replicate (e1 - e0) 0 @ drop e1 gs"
proof -
  have "take (e1 - e0) (drop e0 gs) = replicate (e1 - e0) 0"
    using assms by (intro nth_equalityI) (auto simp: zero_run_def)
  moreover have "drop e0 gs = take (e1 - e0) (drop e0 gs) @ drop e1 gs"
    using assms append_take_drop_id [of "e1 - e0" "drop e0 gs"] by (simp add: zero_run_def)
  ultimately show ?thesis by (metis append_take_drop_id)
qed

subsection \<open>The round trip\<close>

lemma find_colons:
  assumes "\<forall>c \<in> set s. (\<exists>d < 16. c = hex_char d) \<or> c = CHR '':''" "CHR '':'' \<in> set s"
  shows "find (\<lambda>c. c = CHR ''.'' \<or> c = CHR '':'') s = Some (CHR '':'')"
  using assms by (induction s) (auto dest: hex_char_punct)

lemma colons_set: "c \<in> set (colons gs) \<Longrightarrow> (\<exists>d < 16. c = hex_char d) \<or> c = CHR '':''"
  by (cases gs) (auto simp: colons_Cons tail_colons_def dest: hex_str_set split: if_splits, simp add: colons_def)

lemma parse6_colons:
  assumes "\<forall>g \<in> set gs. g \<le> 65535" "length acc + 2 * length gs \<le> 16" "gs \<noteq> []"
  shows "parse6_loop (ell, acc, colons gs) = Some (ell, acc @ group_bytes gs, [])"
  using assms parse6_groups by (cases gs) (auto simp: colons_Cons)

lemma parseIPv6_plain:
  assumes "\<forall>g \<in> set gs. g \<le> 65535" "length gs = 8"
  shows "parseIPv6 (colons gs) = group_bytes gs"
proof -
  obtain g hs where gs: "gs = g # hs" using assms(2) by (cases gs) auto
  have "\<not> has_prefix ''::'' (colons gs)"
    using hex_str_first [of g "tail_colons hs"] by (cases "hex_str g @ tail_colons hs") (auto simp: gs colons_Cons has_prefix_def)
  then show ?thesis using parse6_colons [OF assms(1), of "[]" None] assms(2) gs by (simp add: parseIPv6_def expand6_def Let_def)
qed

lemma colons_Nil [simp]: "colons [] = []"
  by (simp add: colons_def)

lemma colons_eq_Nil [simp]: "colons gs = [] \<longleftrightarrow> gs = []"
  using hex_str_first(1) by (cases gs) (auto simp: colons_Cons)

lemma expand6_cut:
  assumes "length gs = 8" "zero_run gs (e0, e1)" "e0 < e1"
  shows "expand6 (Some (2 * e0), group_bytes (take e0 gs) @ group_bytes (drop e1 gs), []) = group_bytes gs"
proof -
  have l: "e1 \<le> 8" using assms(1,2) by (simp add: zero_run_def)
  have "group_bytes gs = group_bytes (take e0 gs) @ replicate (2 * (e1 - e0)) 0 @ group_bytes (drop e1 gs)"
    using arg_cong [OF zero_run_split [OF assms(2)], of group_bytes] by (simp add: group_bytes_zero)
  moreover have "2 * min 8 e0 = 2 * e0" "16 - (2 * e0 + 2 * (8 - e1)) = 2 * (e1 - e0)" "2 * e0 + 2 * (8 - e1) < 16"
    using l assms(3) by auto
  ultimately show ?thesis using assms(1) by (simp add: expand6_def)
qed

lemma parseIPv6_cut:
  assumes "\<forall>g \<in> set gs. g \<le> 65535" "length gs = 8" "zero_run gs (e0, e1)" "e0 < e1"
  shows "parseIPv6 (colons (take e0 gs) @ ''::'' @ colons (drop e1 gs)) = group_bytes gs"
proof -
  define A B where "A = take e0 gs" and "B = drop e1 gs"
  have l: "length A = e0" "length B = 8 - e1" "e1 \<le> 8" using assms by (auto simp: A_def B_def zero_run_def)
  have bd: "\<forall>g \<in> set A. g \<le> 65535" "\<forall>g \<in> set B. g \<le> 65535" using assms(1) by (auto simp: A_def B_def dest: in_set_takeD in_set_dropD)
  note ex = expand6_cut [OF assms(2-4), folded A_def B_def]
  have B: "parse6_loop (Some (2 * e0), group_bytes A, colons B) = Some (Some (2 * e0), group_bytes A @ group_bytes B, [])" if "B \<noteq> []"
    using that l assms(4) by (intro parse6_colons [OF bd(2)]) simp_all
  show ?thesis
  proof (cases A)
    case Nil
    then have "e0 = 0" "colons A = []" using l by simp_all
    then show ?thesis unfolding A_def [symmetric] B_def [symmetric] using B ex Nil l
      by (cases "B = []") (simp_all add: parseIPv6_def has_prefix_def Let_def, simp add: expand6_def)
  next
    case (Cons a A')
    have "\<not> has_prefix ''::'' (colons A @ ''::'' @ colons B)"
      using hex_str_first [of a "tail_colons A' @ ''::'' @ colons B"]
      by (cases "hex_str a @ tail_colons A' @ ''::'' @ colons B") (auto simp: Cons colons_Cons has_prefix_def)
    moreover have "e0 = Suc (length A')" using l(1) Cons by simp
    then have "parse6_loop (None, [], colons A @ ''::'' @ colons B) = Some (Some (2 * e0), group_bytes A @ group_bytes B, [])"
      using parse6_cut [of a A' "[]" "colons B"] bd(1) l assms(4) B by (simp add: Cons colons_Cons Let_def)
    ultimately show ?thesis using ex by (simp add: parseIPv6_def A_def [symmetric] B_def [symmetric] Let_def)
  qed
qed

lemma ParseIP_ipv6_str:
  assumes "length ip = 16"
  shows "ParseIP (ipv6_str ip) = ip" "addr_safe (ipv6_str ip)"
proof -
  define gs where "gs = ip_groups ip"
  have gs: "length gs = 8" "\<forall>g \<in> set gs. g \<le> 65535" "group_bytes gs = ip" "gs \<noteq> []"
    using assms ip_groups_bytes [of ip] ip_groups_bound [of _ ip] by (auto simp: gs_def ip_groups_length)
  obtain e0 e1 where e: "best_run gs 0 (0, 0) = (e0, e1)" by fastforce
  have z: "zero_run gs (e0, e1)" using best_run_zero [of gs "(0, 0)" 0] e by (simp add: zero_run_def)
  have s: "ipv6_str ip = (if e1 - e0 \<le> 1 then colons gs else colons (take e0 gs) @ ''::'' @ colons (drop e1 gs))"
    using z by (simp add: ipv6_str_def gs_def [symmetric] e Let_def print_plain [OF gs(4)] print_cut zero_run_def)
  have "parseIPv6 (ipv6_str ip) = ip"
    using parseIPv6_plain [OF gs(2,1)] parseIPv6_cut [OF gs(2,1) z] gs(3) by (simp add: s)
  moreover have "\<forall>c \<in> set (ipv6_str ip). (\<exists>d < 16. c = hex_char d) \<or> c = CHR '':''"
    using colons_set by (auto simp: s split: if_splits)
  moreover have "CHR '':'' \<in> set (ipv6_str ip)"
  proof -
    obtain g h hs where "gs = g # h # hs" using gs(1) by (cases gs; cases "tl gs") auto
    then show ?thesis by (simp add: s colons_Cons)
  qed
  moreover have "c \<noteq> CHR ''['' \<and> c \<noteq> CHR '']''" if "c \<in> set (ipv6_str ip)" for c
    using bspec [OF calculation(2) that] hex_char_punct by auto
  ultimately show "ParseIP (ipv6_str ip) = ip" "addr_safe (ipv6_str ip)"
    by (simp_all add: ParseIP_def find_colons addr_safe_def) blast
qed

text \<open>Printing and parsing an address of sixteen bytes gives it back; the text is the same as before for an address that was parsed.\<close>

theorem ParseIP_String:
  assumes "length ip = 16"
  shows "ParseIP (IP_String ip) = ip \<and> addr_safe (IP_String ip)"
proof (cases "To4 ip = []")
  case True
  then have "IP_String ip = ipv6_str ip" using assms by (auto simp: IP_String_def)
  then show ?thesis using ParseIP_ipv6_str [OF assms] by simp
next
  case False
  then have "ip = v4_prefix @ drop 12 ip" "length (drop 12 ip) = 4" using assms by (auto simp: To4_def split: if_splits) (metis append_take_drop_id)
  then obtain a b c d where "ip = IPv4 a b c d" by (metis IPv4_def length4_cases)
  then show ?thesis using ParseIP_dotted dotted_addr_safe by simp
qed

end
