(* ===== verification/Sps_Udp.thy ===== *)
theory Sps_Udp
  imports Sps Binding Ip_Text
begin

section \<open>services/sps: the UDP relays\<close>

text \<open>
  With SOCKS5 parents the protocol converter relays UDP: for a SOCKS5 client that has asked for an association (socksudp.go), and for shadowsocks clients on the listening
  address (ssudp.go). Both read datagrams in a loop, find or make the socket for the source of the datagram in one table that
  they share (\<open>udpRelatedPacketConns\<close>), and send the datagram to a parent; a goroutine per socket (\<open>RunUDPCopy\<close> of core/binding) sends the answers back.

  A socket is an index into \<open>su_outs\<close>; an entry of the table is such an index, or \<open>None\<close> for a listening socket. One round of a loop is one step. \<open>EncryptCFB\<close> and \<open>DecryptCFB\<close> of
  pkg/outil only call a package outside of the repository and are parameters; the former draws an initial vector, here the argument \<open>n\<close>. The
  entries of the control connections in \<open>userConns\<close>, which only serve to close them, and the bytes that keep these connections alive are left out.
\<close>

record 'r udp_env =
  cfb_Encrypt :: "nat \<Rightarrow> bytes \<Rightarrow> bytes \<Rightarrow> bytes result"
  cfb_Decrypt :: "bytes \<Rightarrow> bytes \<Rightarrow> bytes result"
  su_cmap :: "('r, nat option) cmap"

record udp_out =
  uo_client :: string
  uo_dest :: string
  uo_via :: "nat option"
  uo_sent :: "bytes list"
  uo_answers :: "bytes list"
  uo_back :: "bytes list"
  uo_reading :: bool
  uo_closed :: bool

record udp_assoc =
  ua_remote :: string
  ua_dest :: string
  ua_out :: "nat option"
  ua_ended :: bool

record 'r sps_udp =
  su_related :: 'r
  su_outs :: "udp_out list"
  su_assocs :: "udp_assoc list"
  su_relays :: "bool list"
  su_used :: "(nat \<times> nat) list"
  su_recv :: "(string \<times> bytes) list"

definition su_New :: "'r udp_env \<Rightarrow> string list \<Rightarrow> 'r sps_udp" where
  "su_New ue listeners = \<lparr>su_related = foldl (\<lambda>m a. cm_Set (su_cmap ue) a None m) (cm_New (su_cmap ue)) listeners,
     su_outs = [], su_assocs = [], su_relays = map (\<lambda>_. True) listeners, su_used = [], su_recv = []\<rparr>"

subsection \<open>Converting a datagram\<close>

text \<open>From a SOCKS5 client, from a shadowsocks client, to a parent.\<close>

definition client_packet :: "'r udp_env \<Rightarrow> bytes \<Rightarrow> bytes \<Rightarrow> PacketUDP result" where
  "client_packet ue localKey b =
     (if localKey \<noteq> [] then bindR (cfb_Decrypt ue localKey b) (\<lambda>v. PacketUDP_Parse v NewPacketUDP)
      else PacketUDP_Parse b NewPacketUDP)"

definition ss_packet :: "'st ss_env \<Rightarrow> 'st Cipher option \<Rightarrow> bytes \<Rightarrow> PacketUDP result" where
  "ss_packet se localCipher b =
     (case localCipher of
        None \<Rightarrow> Inl (Panic NilDereference)
      | Some c \<Rightarrow> bindR (Decrypt se b c) (\<lambda>d. PacketUDP_Parse ([0, 0, 0] @ d) NewPacketUDP))"

definition parent_datagram :: "'r udp_env \<Rightarrow> nat \<Rightarrow> bytes \<Rightarrow> PacketUDP \<Rightarrow> bytes" where
  "parent_datagram ue n parentKey p =
     (if parentKey \<noteq> [] then (case cfb_Encrypt ue n parentKey (PacketUDP_Bytes p) of Inl _ \<Rightarrow> [] | Inr v \<Rightarrow> v)
      else PacketUDP_Bytes p)"

text \<open>The answers of a parent: what cannot be decrypted becomes an empty datagram. To a shadowsocks client the first three bytes are not sent, which panics
  when there are none.\<close>

definition answer_to_socks :: "'r udp_env \<Rightarrow> nat \<Rightarrow> bytes \<Rightarrow> bytes \<Rightarrow> bytes \<Rightarrow> bytes" where
  "answer_to_socks ue n parentKey localKey b =
     (case (if parentKey \<noteq> [] then cfb_Decrypt ue parentKey b else Inr b) of
        Inl _ \<Rightarrow> []
      | Inr v \<Rightarrow> if localKey \<noteq> [] then (case cfb_Encrypt ue n localKey v of Inl _ \<Rightarrow> [] | Inr w \<Rightarrow> w) else v)"

definition answer_to_ss :: "'r udp_env \<Rightarrow> 'st ss_env \<Rightarrow> bytes result \<Rightarrow> bytes \<Rightarrow> 'st Cipher option \<Rightarrow> bytes \<Rightarrow> bytes result" where
  "answer_to_ss ue se rnd parentKey localCipher b =
     (case (if parentKey \<noteq> [] then cfb_Decrypt ue parentKey b else Inr b) of
        Inl _ \<Rightarrow> Inr []
      | Inr v \<Rightarrow>
          bindR (slice_at v 3 (length v)) (\<lambda>d.
            case localCipher of
              None \<Rightarrow> Inl (Panic NilDereference)
            | Some c \<Rightarrow> (case Encrypt se rnd d c of Inl (Panic p) \<Rightarrow> Inl (Panic p) | Inl _ \<Rightarrow> Inr [] | Inr w \<Rightarrow> Inr w)))"

subsection \<open>The sockets\<close>

definition su_dial :: "'r udp_env \<Rightarrow> string \<Rightarrow> string \<Rightarrow> nat option \<Rightarrow> 'r sps_udp \<Rightarrow> 'r sps_udp" where
  "su_dial ue src dest via su =
     su\<lparr>su_outs := su_outs su @ [\<lparr>uo_client = src, uo_dest = dest, uo_via = via, uo_sent = [], uo_answers = [], uo_back = [], uo_reading = True, uo_closed = False\<rparr>],
        su_related := cm_Set (su_cmap ue) src (Some (length (su_outs su))) (su_related su)\<rparr>"

definition su_set :: "nat \<Rightarrow> (udp_out \<Rightarrow> udp_out) \<Rightarrow> 'r sps_udp \<Rightarrow> 'r sps_udp" where
  "su_set j f su = su\<lparr>su_outs := (su_outs su)[j := f (su_outs su ! j)]\<rparr>"

text \<open>A write, with the error for a closed socket, which ends the loop. A write to a listening socket fails without ending anything.\<close>

definition su_write :: "nat option \<Rightarrow> bytes \<Rightarrow> 'r sps_udp \<Rightarrow> unit result \<times> 'r sps_udp" where
  "su_write out v su =
     (case out of
        None \<Rightarrow> (Inr (), su)
      | Some j \<Rightarrow> if uo_closed (su_outs su ! j) then (Inl (ErrMsg ''use of closed network connection''), su)
                  else (Inr (), su_set j (\<lambda>u. u\<lparr>uo_sent := uo_sent u @ [v]\<rparr>) su))"

subsection \<open>socksudp.go: associations of SOCKS5 clients\<close>

text \<open>\<open>proxyUDP\<close> before its loop: a parent is chosen and asked for an association, whose address is where the datagrams go.\<close>

definition udp_associate ::
  "('m, 'd, 'u, 'url, 'st) sps_env \<Rightarrow> sps_call \<Rightarrow> ('m, 'd) SocksServer \<Rightarrow> ('m, 'd, 'u, 'url, 'st) SPS \<times> 'r sps_udp \<Rightarrow>
   unit result \<times> ('m, 'd, 'u, 'url, 'st) SPS \<times> 'r sps_udp" where
  "udp_associate env cl serverConn s =
     (case s of (sf, su) \<Rightarrow>
        if pc_ParentType (sp_cfg sf) = ''ssh'' then (Inl (ErrMsg ''closed''), sf, su)
        else case sp_lb sf of
          None \<Rightarrow> (Inl (Panic NilDereference), sf, su)
        | Some lb \<Rightarrow>
            (case lb_Select (pe_lb env) (cl_draws cl) (RemoteAddr (cl_peer cl)) lb of
               (Inl p, lb) \<Rightarrow> (Inl p, sf\<lparr>sp_lb := Some lb\<rparr>, su)
             | (Inr lbAddr, lb) \<Rightarrow>
                 (let sf = sf\<lparr>sp_lb := Some lb\<rparr>
                  in case bindR (cl_dial cl lbAddr) (\<lambda>out.
                            fst (HandshakeSocksParent sf (getParentAuth sf lbAddr) ''udp'' (ss_target serverConn)
                                   (ss_pUser serverConn, ss_pPassword serverConn) False out)) of
                       Inl e \<Rightarrow> (Inl e, sf, su)
                     | Inr client \<Rightarrow>
                         (Inr (), sf, su\<lparr>su_assocs := su_assocs su @
                            [\<lparr>ua_remote = RemoteAddr (cl_peer cl), ua_dest = sc_UDPAddr client, ua_out = None, ua_ended = False\<rparr>]\<rparr>))))"

text \<open>One round of its loop: \<open>Inl\<close> means that the function returns. \<open>dials\<close> is whether a socket can be opened.\<close>

definition host_of :: "string \<Rightarrow> string" where
  "host_of addr = (case SplitHostPort addr of Inl _ \<Rightarrow> '''' | Inr (h, _) \<Rightarrow> h)"

definition assoc_round ::
  "'r udp_env \<Rightarrow> bytes \<Rightarrow> bytes \<Rightarrow> nat \<Rightarrow> bool \<Rightarrow> nat \<Rightarrow> string \<Rightarrow> bytes \<Rightarrow> 'r sps_udp \<Rightarrow> unit result \<times> 'r sps_udp" where
  "assoc_round ue localKey parentKey n dials a src b su =
     (let ass = su_assocs su ! a; su = su\<lparr>su_recv := su_recv su @ [(src, b)]\<rparr> in
      if host_of src \<noteq> host_of (ua_remote ass) then (Inr (), su)
      else case client_packet ue localKey (take BindingSize b) of
             Inl (Panic p) \<Rightarrow> (Inl (Panic p), su)
           | Inl _ \<Rightarrow> (Inr (), su)
           | Inr p \<Rightarrow>
               (let found = cm_Get (su_cmap ue) src (su_related su);
                    out = (case found of Some out \<Rightarrow> out | None \<Rightarrow> if dials then Some (length (su_outs su)) else None);
                    su = (if found = None \<and> dials then su_dial ue src (ua_dest ass) (Some a) su else su);
                    su = su\<lparr>su_assocs := (su_assocs su)[a := ass\<lparr>ua_out := out\<rparr>]\<rparr>
                in if found = None \<and> \<not> dials then (Inr (), su)
                   else su_write out (parent_datagram ue n parentKey p) su))"

text \<open>\<open>clean\<close>: the last socket of the association is closed, and its listener.\<close>

definition assoc_clean :: "nat \<Rightarrow> 'r sps_udp \<Rightarrow> 'r sps_udp" where
  "assoc_clean a su =
     (let su' = su\<lparr>su_assocs := (su_assocs su)[a := (su_assocs su ! a)\<lparr>ua_ended := True\<rparr>]\<rparr>
      in case ua_out (su_assocs su ! a) of None \<Rightarrow> su' | Some j \<Rightarrow> su_set j (\<lambda>u. u\<lparr>uo_closed := True\<rparr>) su')"

definition assoc_datagram ::
  "'r udp_env \<Rightarrow> bytes \<Rightarrow> bytes \<Rightarrow> nat \<Rightarrow> bool \<Rightarrow> nat \<Rightarrow> string \<Rightarrow> bytes \<Rightarrow> 'r sps_udp \<Rightarrow> 'r sps_udp" where
  "assoc_datagram ue localKey parentKey n dials a src b su =
     (case assoc_round ue localKey parentKey n dials a src b su of (Inr _, su) \<Rightarrow> su | (Inl _, su) \<Rightarrow> assoc_clean a su)"

subsection \<open>ssudp.go: the relay for shadowsocks clients\<close>

text \<open>One round of the loop of \<open>RunSSUDP\<close>, of the relay number \<open>l\<close> (there is one for every listening address); \<open>Inl\<close> means that the loop, and with it the relay, ends. A parent is asked for an association for every new source.\<close>

definition ss_parent ::
  "('m, 'd, 'u, 'url, 'st) sps_env \<Rightarrow> sps_call \<Rightarrow> string \<Rightarrow> string \<Rightarrow> ('m, 'd, 'u, 'url, 'st) SPS \<Rightarrow> string result \<times> ('m, 'd, 'u, 'url, 'st) SPS" where
  "ss_parent env cl src target sf =
     (case sp_lb sf of
        None \<Rightarrow> (Inl (Panic NilDereference), sf)
      | Some lb \<Rightarrow>
          (case lb_Select (pe_lb env) (cl_draws cl) src lb of
             (Inl p, lb) \<Rightarrow> (Inl p, sf\<lparr>sp_lb := Some lb\<rparr>)
           | (Inr lbAddr, lb) \<Rightarrow>
               (let sf = sf\<lparr>sp_lb := Some lb\<rparr>
                in (bindR (cl_dial cl lbAddr) (\<lambda>out.
                    bindR (fst (HandshakeSocksParent sf (getParentAuth sf lbAddr) ''udp'' target ('''', '''') True out)) (\<lambda>client.
                      Inr (sc_UDPAddr client))), sf))))"

definition ss_round ::
  "('m, 'd, 'u, 'url, 'st) sps_env \<Rightarrow> 'r udp_env \<Rightarrow> sps_call \<Rightarrow> nat \<Rightarrow> bool \<Rightarrow> nat \<Rightarrow> string \<Rightarrow> bytes \<Rightarrow> ('m, 'd, 'u, 'url, 'st) SPS \<times> 'r sps_udp \<Rightarrow>
   unit result \<times> ('m, 'd, 'u, 'url, 'st) SPS \<times> 'r sps_udp" where
  "ss_round env ue cl n dials l src b s =
     (case s of (sf, su) \<Rightarrow>
        let su = su\<lparr>su_recv := su_recv su @ [(src, b)]\<rparr> in
        case ss_packet (pe_ss env) (sp_localCipher sf) (take BindingSize b) of
          Inl e \<Rightarrow> (Inl e, sf, su)
        | Inr p \<Rightarrow>
            (case cm_Get (su_cmap ue) src (su_related su) of
               Some out \<Rightarrow>
                 (case su_write out (parent_datagram ue n (sp_udpParentKey sf) p) (su\<lparr>su_used := su_used su @ (case out of None \<Rightarrow> [] | Some j \<Rightarrow> [(l, j)])\<rparr>) of
                    (r, su) \<Rightarrow> (r, sf, su))
             | None \<Rightarrow>
                 (case ss_parent env cl src (PacketUDP_Addr p) sf of
                    (Inl e, sf) \<Rightarrow> (Inl e, sf, su)
                  | (Inr dest, sf) \<Rightarrow>
                      if \<not> dials then (Inl (ErrMsg ''create out udp conn fail''), sf, su)
                      else let j = length (su_outs su); su = su_dial ue src dest None su in
                           case su_write (Some j) (parent_datagram ue n (sp_udpParentKey sf) p) (su\<lparr>su_used := su_used su @ [(l, j)]\<rparr>) of
                             (r, su) \<Rightarrow> (r, sf, su))))"

text \<open>At the end of the loop the deferred \<open>clean\<close> of every round closes the socket of that round.\<close>

definition ss_clean :: "nat \<Rightarrow> 'r sps_udp \<Rightarrow> 'r sps_udp" where
  "ss_clean l su = foldl (\<lambda>su (_, j). su_set j (\<lambda>u. u\<lparr>uo_closed := True\<rparr>) su) (su\<lparr>su_relays := (su_relays su)[l := False]\<rparr>)
     (filter (\<lambda>(k, _). k = l) (su_used su))"

definition ss_datagram ::
  "('m, 'd, 'u, 'url, 'st) sps_env \<Rightarrow> 'r udp_env \<Rightarrow> sps_call \<Rightarrow> nat \<Rightarrow> bool \<Rightarrow> nat \<Rightarrow> string \<Rightarrow> bytes \<Rightarrow> ('m, 'd, 'u, 'url, 'st) SPS \<times> 'r sps_udp \<Rightarrow>
   ('m, 'd, 'u, 'url, 'st) SPS \<times> 'r sps_udp" where
  "ss_datagram env ue cl n dials l src b s =
     (if l < length (su_relays (snd s)) \<and> su_relays (snd s) ! l then
        (case ss_round env ue cl n dials l src b s of
           (Inr _, sf, su) \<Rightarrow> (sf, su)
         | (Inl _, sf, su) \<Rightarrow> (sf, ss_clean l su))
      else s)"

subsection \<open>The goroutine of a socket\<close>

text \<open>The goroutine ends and removes the entry of its client.\<close>

definition reader_ends :: "'r udp_env \<Rightarrow> nat \<Rightarrow> 'r sps_udp \<Rightarrow> 'r sps_udp" where
  "reader_ends ue j su =
     su_set j (\<lambda>u. u\<lparr>uo_reading := False\<rparr>) (su\<lparr>su_related := cm_Remove (su_cmap ue) (uo_client (su_outs su ! j)) (su_related su)\<rparr>)"

text \<open>One round of \<open>RunUDPCopy\<close> with an answer: it goes back to the client through the listener of the association or of the relay. The
  listener of an association that has ended is closed.\<close>

definition udp_answer ::
  "('m, 'd, 'u, 'url, 'st) sps_env \<Rightarrow> 'r udp_env \<Rightarrow> nat \<Rightarrow> bytes result \<Rightarrow> nat \<Rightarrow> bytes \<Rightarrow> ('m, 'd, 'u, 'url, 'st) SPS \<Rightarrow> 'r sps_udp \<Rightarrow> 'r sps_udp" where
  "udp_answer env ue n rnd j b sf su =
     (let su = su_set j (\<lambda>u. u\<lparr>uo_answers := uo_answers u @ [b]\<rparr>) su; b = take BindingSize b in
      case uo_via (su_outs su ! j) of
        Some a \<Rightarrow>
          if ua_ended (su_assocs su ! a) then reader_ends ue j su
          else su_set j (\<lambda>u. u\<lparr>uo_back := uo_back u @ [answer_to_socks ue n (sp_udpParentKey sf) (sp_udpLocalKey sf) b]\<rparr>) su
      | None \<Rightarrow>
          (case answer_to_ss ue (pe_ss env) rnd (sp_udpParentKey sf) (sp_localCipher sf) b of
             Inl _ \<Rightarrow> reader_ends ue j su
           | Inr v \<Rightarrow> su_set j (\<lambda>u. u\<lparr>uo_back := uo_back u @ [v]\<rparr>) su))"

subsection \<open>The relays running\<close>

inductive sudp_step ::
  "('m, 'd, 'u, 'url, 'st) sps_env \<Rightarrow> 'r udp_env \<Rightarrow> ('m, 'd, 'u, 'url, 'st) SPS \<times> 'r sps_udp \<Rightarrow> ('m, 'd, 'u, 'url, 'st) SPS \<times> 'r sps_udp \<Rightarrow> bool"
  for env :: "('m, 'd, 'u, 'url, 'st) sps_env" and ue :: "'r udp_env" where
  d_associate: "udp_associate env cl serverConn (sf, su) = (r, s') \<Longrightarrow> sudp_step env ue (sf, su) s'"
| d_socks: "a < length (su_assocs su) \<Longrightarrow> \<not> ua_ended (su_assocs su ! a) \<Longrightarrow>
    sudp_step env ue (sf, su) (sf, assoc_datagram ue (sp_udpLocalKey sf) (sp_udpParentKey sf) n dials a src b su)"
| d_end: "a < length (su_assocs su) \<Longrightarrow> \<not> ua_ended (su_assocs su ! a) \<Longrightarrow> sudp_step env ue (sf, su) (sf, assoc_clean a su)"
| d_ss: "sudp_step env ue s (ss_datagram env ue cl n dials l src b s)"
| d_parent: "j < length (su_outs su) \<Longrightarrow> uo_via (su_outs su ! j) = None \<Longrightarrow> sudp_step env ue (sf, su) (sf, su_set j (\<lambda>u. u\<lparr>uo_closed := True\<rparr>) su)"
| d_answer: "j < length (su_outs su) \<Longrightarrow> uo_reading (su_outs su ! j) \<Longrightarrow> \<not> uo_closed (su_outs su ! j) \<Longrightarrow>
    sudp_step env ue (sf, su) (sf, udp_answer env ue n rnd j b sf su)"
| d_reader: "j < length (su_outs su) \<Longrightarrow> uo_reading (su_outs su ! j) \<Longrightarrow> sudp_step env ue (sf, su) (sf, reader_ends ue j su)"

inductive sudp_reach ::
  "('m, 'd, 'u, 'url, 'st) sps_env \<Rightarrow> 'r udp_env \<Rightarrow> ('m, 'd, 'u, 'url, 'st) SPS \<Rightarrow> ('m, 'd, 'u, 'url, 'st) SPS \<times> 'r sps_udp \<Rightarrow> bool"
  for env :: "('m, 'd, 'u, 'url, 'st) sps_env" and ue :: "'r udp_env" and sf0 :: "('m, 'd, 'u, 'url, 'st) SPS" where
  d_start: "sudp_reach env ue sf0 (sf0, su_New ue (sp_udpListening sf0))"
| d_step: "sudp_reach env ue sf0 s \<Longrightarrow> sudp_step env ue s s' \<Longrightarrow> sudp_reach env ue sf0 s'"

subsection \<open>The table and the sockets\<close>

text \<open>An entry of the table is the socket of that client whose goroutine is running, and every such socket is in the table.\<close>

definition su_tab :: "'r udp_env \<Rightarrow> 'r sps_udp \<Rightarrow> bool" where
  "su_tab ue su \<longleftrightarrow>
     (\<forall>k j. cm_Get (su_cmap ue) k (su_related su) = Some (Some j) \<longrightarrow>
        j < length (su_outs su) \<and> uo_client (su_outs su ! j) = k \<and> uo_reading (su_outs su ! j)) \<and>
     (\<forall>j < length (su_outs su). uo_reading (su_outs su ! j) \<longrightarrow>
        cm_Get (su_cmap ue) (uo_client (su_outs su ! j)) (su_related su) = Some (Some j))"

lemma su_set_simps [simp]:
  "su_related (su_set j f su) = su_related su" "su_assocs (su_set j f su) = su_assocs su" "su_relays (su_set j f su) = su_relays su"
  "su_used (su_set j f su) = su_used su" "su_recv (su_set j f su) = su_recv su" "length (su_outs (su_set j f su)) = length (su_outs su)"
  by (simp_all add: su_set_def)

lemma su_set_nth: "k < length (su_outs su) \<Longrightarrow> su_outs (su_set j f su) ! k = (if k = j then f (su_outs su ! k) else su_outs su ! k)"
  by (simp add: su_set_def nth_list_update)

lemma su_tab_set:
  assumes "\<And>u. uo_client (f u) = uo_client u" "\<And>u. uo_reading (f u) = uo_reading u"
  shows "su_tab ue (su_set j f su) = su_tab ue su"
proof -
  have "uo_client (su_outs (su_set j f su) ! k) = uo_client (su_outs su ! k)" "uo_reading (su_outs (su_set j f su) ! k) = uo_reading (su_outs su ! k)"
    if "k < length (su_outs su)" for k using that assms by (simp_all add: su_set_nth)
  then show ?thesis by (simp add: su_tab_def cong: conj_cong)
qed

lemma su_tab_cong:
  "su_related su' = su_related su \<Longrightarrow> su_outs su' = su_outs su \<Longrightarrow> su_tab ue su' = su_tab ue su"
  by (simp add: su_tab_def)

lemma su_tab_dial:
  assumes "cmap_laws (su_cmap ue)" "su_tab ue su" "cm_Get (su_cmap ue) src (su_related su) = None"
  shows "su_tab ue (su_dial ue src dest via su)"
proof -
  have n: "uo_client (su_outs su ! j) \<noteq> src" if "j < length (su_outs su)" "uo_reading (su_outs su ! j)" for j
    using assms(2,3) that by (auto simp: su_tab_def)
  show ?thesis
    using assms(2) n by (auto simp: su_tab_def su_dial_def cmap_Set [OF assms(1)] nth_append less_Suc_eq split: if_splits)
qed

lemma su_tab_reader:
  assumes "cmap_laws (su_cmap ue)" "su_tab ue su" "j < length (su_outs su)" "uo_reading (su_outs su ! j)"
  shows "su_tab ue (reader_ends ue j su)"
proof -
  have u: "k = j" if "k < length (su_outs su)" "uo_reading (su_outs su ! k)" "uo_client (su_outs su ! k) = uo_client (su_outs su ! j)" for k
    using assms(2-4) that by (metis su_tab_def option.inject)
  show ?thesis
    using assms(2,3) u by (auto simp: su_tab_def reader_ends_def su_set_def cmap_Remove [OF assms(1)] nth_list_update split: if_splits)
qed

lemma su_tab_New:
  assumes "cmap_laws (su_cmap ue)"
  shows "su_tab ue (su_New ue as)"
proof -
  have "cm_Get (su_cmap ue) k (foldl (\<lambda>m a. cm_Set (su_cmap ue) a None m) m as) \<noteq> Some (Some j)"
    if "\<And>k. cm_Get (su_cmap ue) k m \<noteq> Some (Some j)" for k j m
    using that by (induction "as" arbitrary: m) (simp_all add: cmap_Set [OF assms])
  then show ?thesis by (simp add: su_tab_def su_New_def cmap_New [OF assms])
qed

subsection \<open>What goes through a socket\<close>

text \<open>Every datagram sent on a socket is the conversion of one that came from its client, and every datagram sent to the client the conversion of an answer on that socket.\<close>

definition out_ok :: "('m, 'd, 'u, 'url, 'st) sps_env \<Rightarrow> 'r udp_env \<Rightarrow> ('m, 'd, 'u, 'url, 'st) SPS \<Rightarrow> (string \<times> bytes) list \<Rightarrow> udp_out \<Rightarrow> bool" where
  "out_ok env ue sf recv u \<longleftrightarrow>
     (\<forall>v \<in> set (uo_sent u). \<exists>b p n. (uo_client u, b) \<in> set recv \<and> v = parent_datagram ue n (sp_udpParentKey sf) p \<and>
        (client_packet ue (sp_udpLocalKey sf) (take BindingSize b) = Inr p \<or> ss_packet (pe_ss env) (sp_localCipher sf) (take BindingSize b) = Inr p)) \<and>
     (\<forall>v \<in> set (uo_back u). \<exists>b \<in> set (uo_answers u).
        (\<exists>n. v = answer_to_socks ue n (sp_udpParentKey sf) (sp_udpLocalKey sf) (take BindingSize b)) \<or>
        (\<exists>rnd. answer_to_ss ue (pe_ss env) rnd (sp_udpParentKey sf) (sp_localCipher sf) (take BindingSize b) = Inr v))"

definition su_inv :: "('m, 'd, 'u, 'url, 'st) sps_env \<Rightarrow> 'r udp_env \<Rightarrow> ('m, 'd, 'u, 'url, 'st) SPS \<Rightarrow> 'r sps_udp \<Rightarrow> bool" where
  "su_inv env ue sf su \<longleftrightarrow> su_tab ue su \<and> list_all (out_ok env ue sf (su_recv su)) (su_outs su)"

lemma out_ok_more: "out_ok env ue sf recv u \<Longrightarrow> out_ok env ue sf (recv @ xs) u"
  unfolding out_ok_def by (auto 4 4)

lemma out_ok_lb [simp]: "out_ok env ue (sf\<lparr>sp_lb := lb\<rparr>) = out_ok env ue sf"
  by (simp add: out_ok_def fun_eq_iff)

lemma su_inv_lb [simp]: "su_inv env ue (sf\<lparr>sp_lb := lb\<rparr>) = su_inv env ue sf"
  by (simp add: su_inv_def fun_eq_iff)

lemma out_ok_frame [simp]:
  "out_ok env ue sf recv (u\<lparr>uo_closed := b\<rparr>) = out_ok env ue sf recv u" "out_ok env ue sf recv (u\<lparr>uo_reading := b\<rparr>) = out_ok env ue sf recv u"
  by (simp_all add: out_ok_def)

lemma su_inv_set:
  assumes "su_inv env ue sf su" "j < length (su_outs su) \<Longrightarrow> out_ok env ue sf (su_recv su) (f (su_outs su ! j))"
    "\<And>u. uo_client (f u) = uo_client u" "\<And>u. uo_reading (f u) = uo_reading u"
  shows "su_inv env ue sf (su_set j f su)"
proof -
  have "list_all (out_ok env ue sf (su_recv su)) (su_outs (su_set j f su))"
    using assms(1,2) by (auto simp: su_inv_def list_all_length su_set_nth)
  then show ?thesis using assms(1) by (simp add: su_inv_def su_tab_set [OF assms(3,4)])
qed

lemma su_inv_frame:
  "su_inv env ue sf su \<Longrightarrow> su_related su' = su_related su \<Longrightarrow> su_outs su' = su_outs su \<Longrightarrow> su_recv su' = su_recv su \<Longrightarrow> su_inv env ue sf su'"
  by (simp add: su_inv_def su_tab_def)

lemma su_inv_recv:
  assumes "su_inv env ue sf su"
  shows "su_inv env ue sf (su\<lparr>su_recv := su_recv su @ xs\<rparr>)"
  using assms by (auto simp: su_inv_def list_all_iff su_tab_def intro: out_ok_more)

lemma su_inv_dial:
  assumes "cmap_laws (su_cmap ue)" "su_inv env ue sf su" "cm_Get (su_cmap ue) src (su_related su) = None"
  shows "su_inv env ue sf (su_dial ue src dest via su)"
  using assms su_tab_dial [OF assms(1) _ assms(3)] by (simp add: su_inv_def) (simp add: su_dial_def out_ok_def)

lemma su_inv_write:
  assumes "su_inv env ue sf su" "su_write out (parent_datagram ue n (sp_udpParentKey sf) p) su = (r, su')"
    and "\<And>j. out = Some j \<Longrightarrow> j < length (su_outs su) \<Longrightarrow> uo_client (su_outs su ! j) = src" "(src, b) \<in> set (su_recv su)"
    and "client_packet ue (sp_udpLocalKey sf) (take BindingSize b) = Inr p \<or> ss_packet (pe_ss env) (sp_localCipher sf) (take BindingSize b) = Inr p"
  shows "su_inv env ue sf su'"
proof (cases "su' = su")
  case True
  then show ?thesis using assms(1) by simp
next
  case False
  then obtain j where j: "out = Some j" "su' = su_set j (\<lambda>u. u\<lparr>uo_sent := uo_sent u @ [parent_datagram ue n (sp_udpParentKey sf) p]\<rparr>) su"
    using assms(2) by (auto simp: su_write_def split: option.splits if_splits)
  show ?thesis unfolding j(2)
  proof (rule su_inv_set [OF assms(1)])
    assume l: "j < length (su_outs su)"
    then have "out_ok env ue sf (su_recv su) (su_outs su ! j)" using assms(1) by (simp add: su_inv_def list_all_length)
    moreover have "\<exists>b' p' n'. (uo_client (su_outs su ! j), b') \<in> set (su_recv su) \<and> parent_datagram ue n (sp_udpParentKey sf) p = parent_datagram ue n' (sp_udpParentKey sf) p' \<and>
        (client_packet ue (sp_udpLocalKey sf) (take BindingSize b') = Inr p' \<or> ss_packet (pe_ss env) (sp_localCipher sf) (take BindingSize b') = Inr p')"
      using assms(4,5) unfolding assms(3) [OF j(1) l] by blast
    ultimately show "out_ok env ue sf (su_recv su) ((su_outs su ! j)\<lparr>uo_sent := uo_sent (su_outs su ! j) @ [parent_datagram ue n (sp_udpParentKey sf) p]\<rparr>)"
      unfolding out_ok_def by auto
  qed simp_all
qed

subsection \<open>The steps keep the invariant\<close>

lemma su_tab_found:
  "su_tab ue su \<Longrightarrow> cm_Get (su_cmap ue) src (su_related su) = Some (Some j) \<Longrightarrow> uo_client (su_outs su ! j) = src"
  by (simp add: su_tab_def)

lemma su_dial_simps [simp]:
  "length (su_outs (su_dial ue src dest via su)) = Suc (length (su_outs su))" "uo_client (su_outs (su_dial ue src dest via su) ! length (su_outs su)) = src"
  "su_recv (su_dial ue src dest via su) = su_recv su"
  by (simp_all add: su_dial_def)

lemma assoc_round_inv:
  assumes "cmap_laws (su_cmap ue)" "su_inv env ue sf su"
    "assoc_round ue (sp_udpLocalKey sf) (sp_udpParentKey sf) n dials a src b su = (r, su')"
  shows "su_inv env ue sf su'"
proof -
  define s1 where "s1 = su\<lparr>su_recv := su_recv su @ [(src, b)]\<rparr>"
  have 1: "su_inv env ue sf s1" "(src, b) \<in> set (su_recv s1)" using su_inv_recv [OF assms(2)] by (simp_all add: s1_def)
  note e = assms(3) [unfolded assoc_round_def Let_def, folded s1_def]
  show ?thesis
  proof (cases "host_of src \<noteq> host_of (ua_remote (su_assocs su ! a)) \<or> \<not> is_ok (client_packet ue (sp_udpLocalKey sf) (take BindingSize b))")
    case True
    then have "su' = s1" using e by (auto simp: is_ok_def split: if_splits sum.splits error.splits)
    then show ?thesis using 1 by simp
  next
    case False
    then obtain p where p: "client_packet ue (sp_udpLocalKey sf) (take BindingSize b) = Inr p" by (auto simp: is_ok_ex)
    define found where "found = cm_Get (su_cmap ue) src (su_related s1)"
    define out where "out = (case found of Some out \<Rightarrow> out | None \<Rightarrow> if dials then Some (length (su_outs s1)) else None)"
    define s2 where "s2 = (if found = None \<and> dials then su_dial ue src (ua_dest (su_assocs su ! a)) (Some a) s1 else s1)"
    define s3 where "s3 = s2\<lparr>su_assocs := (su_assocs s2)[a := (su_assocs su ! a)\<lparr>ua_out := out\<rparr>]\<rparr>"
    have 2: "su_inv env ue sf s2" "(src, b) \<in> set (su_recv s2)" using 1 su_inv_dial [OF assms(1) 1(1)] by (simp_all add: s2_def found_def)
    then have 3: "su_inv env ue sf s3" "(src, b) \<in> set (su_recv s3)" "su_outs s3 = su_outs s2" using su_inv_frame [OF 2(1), of s3] by (simp_all add: s3_def)
    have c: "uo_client (su_outs s3 ! j) = src" if "out = Some j" for j
      using that 1(1) su_tab_found [of ue s1 src j] 3(3) by (auto simp: out_def found_def s2_def su_inv_def split: option.splits if_splits)
    have "su' = s3 \<or> su_write out (parent_datagram ue n (sp_udpParentKey sf) p) s3 = (r, su')"
      using e [unfolded p sum.case, folded found_def, folded out_def, folded s2_def, folded s3_def] False by (auto split: if_splits)
    then show ?thesis using 3(1) su_inv_write [OF 3(1) _ c 3(2)] p by blast
  qed
qed

lemma assoc_clean_inv: "su_inv env ue sf su \<Longrightarrow> su_inv env ue sf (assoc_clean a su)"
  by (auto simp: assoc_clean_def Let_def split: option.splits intro!: su_inv_set elim: su_inv_frame)
    (auto simp: su_inv_def list_all_length)

lemma ss_clean_inv:
  assumes "su_inv env ue sf su"
  shows "su_inv env ue sf (ss_clean l su)"
proof -
  have "su_inv env ue sf (foldl (\<lambda>su (_, j). su_set j (\<lambda>u. u\<lparr>uo_closed := True\<rparr>) su) s xs)" if "su_inv env ue sf s" for s and xs :: "(nat \<times> nat) list"
    using that
  proof (induction xs arbitrary: s)
    case (Cons x xs)
    have "su_inv env ue sf (su_set (snd x) (\<lambda>u. u\<lparr>uo_closed := True\<rparr>) s)"
      by (rule su_inv_set [OF Cons.prems]) (use Cons.prems in \<open>simp_all add: su_inv_def list_all_length\<close>)
    from Cons.IH [OF this] show ?case by (simp add: case_prod_beta)
  qed simp
  then show ?thesis using su_inv_frame [OF assms] by (simp add: ss_clean_def)
qed

lemma ss_parent_lb: "ss_parent env cl src target sf = (r, sf') \<Longrightarrow> \<exists>lb. sf' = sf\<lparr>sp_lb := lb\<rparr>"
  by (auto simp: ss_parent_def Let_def split: option.splits prod.splits sum.splits) (metis SPS.surjective SPS.update_convs(9))

lemma ss_round_inv:
  assumes "cmap_laws (su_cmap ue)" "su_inv env ue sf su" "ss_round env ue cl n dials l src b (sf, su) = (r, sf', su')"
  shows "su_inv env ue sf' su' \<and> (\<exists>lb. sf' = sf\<lparr>sp_lb := lb\<rparr>)"
proof -
  define s1 where "s1 = su\<lparr>su_recv := su_recv su @ [(src, b)]\<rparr>"
  have 1: "su_inv env ue sf s1" "(src, b) \<in> set (su_recv s1)" using su_inv_recv [OF assms(2)] by (simp_all add: s1_def)
  have sf: "\<exists>lb. sf = sf\<lparr>sp_lb := lb\<rparr>" by (rule exI [of _ "sp_lb sf"]) simp
  note e = assms(3) [unfolded ss_round_def Let_def prod.case, folded s1_def]
  show ?thesis
  proof (cases "ss_packet (pe_ss env) (sp_localCipher sf) (take BindingSize b)")
    case (Inl x)
    then show ?thesis using e 1 sf by auto
  next
    case (Inr p)
    show ?thesis
    proof (cases "cm_Get (su_cmap ue) src (su_related s1)")
      case (Some out)
      define s2 where "s2 = s1\<lparr>su_used := su_used s1 @ (case out of None \<Rightarrow> [] | Some j \<Rightarrow> [(l, j)])\<rparr>"
      have 2: "su_inv env ue sf s2" "(src, b) \<in> set (su_recv s2)" using su_inv_frame [OF 1(1), of s2] 1(2) by (simp_all add: s2_def)
      have c: "uo_client (su_outs s2 ! j) = src" if "out = Some j" for j
        using that 1(1) su_tab_found [of ue s1 src j] Some by (simp add: s2_def su_inv_def)
      have "sf' = sf \<and> su_write out (parent_datagram ue n (sp_udpParentKey sf) p) s2 = (r, su')"
        using e Inr Some by (auto simp: s2_def split: prod.splits)
      then show ?thesis using su_inv_write [OF 2(1) _ c 2(2)] Inr sf by blast
    next
      case None
      obtain q sf1 where q: "ss_parent env cl src (PacketUDP_Addr p) sf = (q, sf1)" by fastforce
      from ss_parent_lb [OF q] obtain lb where lb: "sf1 = sf\<lparr>sp_lb := lb\<rparr>" by blast
      show ?thesis
      proof (cases "is_ok q \<and> dials")
        case False
        then have "sf' = sf1 \<and> su' = s1" using e Inr None q by (auto simp: is_ok_def split: sum.splits if_splits)
        then show ?thesis using 1 lb by auto
      next
        case True
        then obtain dest where d: "q = Inr dest" "dials" by (auto simp: is_ok_ex)
        define s2 where "s2 = su_dial ue src dest None s1"
        define s3 where "s3 = s2\<lparr>su_used := su_used s2 @ [(l, length (su_outs s1))]\<rparr>"
        have "su_inv env ue sf s2" unfolding s2_def by (rule su_inv_dial [OF assms(1) 1(1) None])
        then have 3: "su_inv env ue sf s3" "(src, b) \<in> set (su_recv s3)" using 1(2) su_inv_frame [of env ue sf s2 s3] by (simp_all add: s3_def s2_def)
        have c: "uo_client (su_outs s3 ! j) = src" if "Some (length (su_outs s1)) = Some j" for j using that by (auto simp: s3_def s2_def)
        have w: "sf' = sf1 \<and> su_write (Some (length (su_outs s1))) (parent_datagram ue n (sp_udpParentKey sf) p) s3 = (r, su')"
          using e Inr None q d by (auto simp: s2_def s3_def lb split: prod.splits)
        then have "su_inv env ue sf su'" using su_inv_write [OF 3(1) _ c 3(2)] Inr by blast
        then show ?thesis using w lb by auto
      qed
    qed
  qed
qed

lemma reader_ends_inv:
  assumes "cmap_laws (su_cmap ue)" "su_inv env ue sf su" "j < length (su_outs su)" "uo_reading (su_outs su ! j)"
  shows "su_inv env ue sf (reader_ends ue j su)"
proof -
  have "su_recv (reader_ends ue j su) = su_recv su" "list_all (out_ok env ue sf (su_recv su)) (su_outs (reader_ends ue j su))"
    using assms(2,3) by (auto simp: reader_ends_def su_inv_def list_all_length su_set_def nth_list_update)
  then show ?thesis using su_tab_reader [OF assms(1) _ assms(3,4)] assms(2) by (simp add: su_inv_def)
qed

lemma udp_answer_inv:
  assumes "cmap_laws (su_cmap ue)" "su_inv env ue sf su" "j < length (su_outs su)" "uo_reading (su_outs su ! j)"
  shows "su_inv env ue sf (udp_answer env ue n rnd j b sf su)"
proof -
  define s1 where "s1 = su_set j (\<lambda>u. u\<lparr>uo_answers := uo_answers u @ [b]\<rparr>) su"
  have o: "out_ok env ue sf (su_recv su) (su_outs su ! j)" using assms(2,3) by (simp add: su_inv_def list_all_length)
  then have 1: "su_inv env ue sf s1" unfolding s1_def
    by (intro su_inv_set [OF assms(2)]) (auto simp: out_ok_def)
  have l: "j < length (su_outs s1)" "uo_reading (su_outs s1 ! j)" "b \<in> set (uo_answers (su_outs s1 ! j))"
    using assms(3,4) by (simp_all add: s1_def su_set_nth)
  have o1: "out_ok env ue sf (su_recv s1) (su_outs s1 ! j)" using 1 l(1) by (simp add: su_inv_def list_all_length)
  have bk: "su_inv env ue sf (su_set j (\<lambda>u. u\<lparr>uo_back := uo_back u @ [v]\<rparr>) s1)"
    if "(\<exists>n. v = answer_to_socks ue n (sp_udpParentKey sf) (sp_udpLocalKey sf) (take BindingSize b)) \<or>
        (\<exists>rnd. answer_to_ss ue (pe_ss env) rnd (sp_udpParentKey sf) (sp_localCipher sf) (take BindingSize b) = Inr v)" for v
    by (rule su_inv_set [OF 1]) (use l(3) o1 that in \<open>auto simp: out_ok_def\<close>)
  show ?thesis
    unfolding udp_answer_def Let_def s1_def [symmetric] using bk reader_ends_inv [OF assms(1) 1 l(1,2)]
    by (auto split: option.splits sum.splits)
qed

lemma sudp_step_inv:
  assumes "cmap_laws (su_cmap ue)" "sudp_step env ue s s'" "su_inv env ue (fst s) (snd s)"
  shows "su_inv env ue (fst s') (snd s') \<and> (\<exists>lb. fst s' = (fst s)\<lparr>sp_lb := lb\<rparr>)"
proof -
  have refl: "\<exists>lb. fst s = (fst s)\<lparr>sp_lb := lb\<rparr>" by (rule exI [of _ "sp_lb (fst s)"]) simp
  show ?thesis using assms(2,3)
  proof (cases rule: sudp_step.cases)
    case (d_associate cl serverConn sf su r)
    then have "\<exists>lb. fst s' = sf\<lparr>sp_lb := lb\<rparr>" "\<exists>x. snd s' = su\<lparr>su_assocs := x\<rparr>"
      using refl by (auto simp: udp_associate_def Let_def split: option.splits prod.splits sum.splits if_splits) (metis sps_udp.surjective sps_udp.update_convs(3))+
    then show ?thesis using d_associate assms(3) su_inv_frame [of env ue sf su] by auto
  next
    case (d_socks a su sf n dials src b)
    then show ?thesis using assms(3) assoc_round_inv [OF assms(1), of env sf su] assoc_clean_inv refl
      by (auto simp: assoc_datagram_def split: prod.splits sum.splits) blast+
  next
    case (d_end a su sf)
    then show ?thesis using assms(3) assoc_clean_inv refl by auto
  next
    case (d_parent j su sf)
    then have "su_inv env ue sf (su_set j (\<lambda>u. u\<lparr>uo_closed := True\<rparr>) su)"
      using assms(3) by (intro su_inv_set) (simp_all add: su_inv_def list_all_length)
    then show ?thesis using d_parent refl by auto
  next
    case (d_ss cl n dials l src b)
    obtain sf su r sf' su' where s: "s = (sf, su)" "ss_round env ue cl n dials l src b (sf, su) = (r, sf', su')" by (metis prod_cases3 surj_pair)
    have "su_inv env ue sf su" using assms(3) s(1) by simp
    from ss_round_inv [OF assms(1) this s(2)] show ?thesis using d_ss s assms(3) ss_clean_inv refl
      by (auto simp: ss_datagram_def split: sum.splits)
  next
    case (d_answer j su sf n rnd b)
    then show ?thesis using assms(3) udp_answer_inv [OF assms(1)] refl by auto
  next
    case (d_reader j su sf)
    then show ?thesis using assms(3) reader_ends_inv [OF assms(1)] refl by auto
  qed
qed

lemma sudp_reach_inv:
  assumes "cmap_laws (su_cmap ue)" "sudp_reach env ue sf0 s"
  shows "su_inv env ue (fst s) (snd s)"
  using assms(2)
proof (induction rule: sudp_reach.induct)
  case d_start
  then show ?case using su_tab_New [OF assms(1)] by (simp add: su_inv_def) (simp add: su_New_def)
next
  case (d_step s s')
  then show ?case using sudp_step_inv [OF assms(1)] by blast
qed

end
