(* ===== verification/Sps_Transport.thy ===== *)
theory Sps_Transport
  imports Sps_Udp
begin

section \<open>services/sps: datagrams through the UDP relays\<close>

text \<open>
  What the relays of Sps_Udp do to a datagram: a packet sent by a client arrives at the parent, and an answer at the
  client, with the same bytes, whichever of the two kinds of client it is and whichever keys the two sides use; and the datagrams and answers with which the relays
  do not cope.
\<close>

subsection \<open>The other ends\<close>

text \<open>What a client or a parent does with a datagram when it has the key.\<close>

definition udp_seal :: "'r udp_env \<Rightarrow> nat \<Rightarrow> bytes \<Rightarrow> bytes \<Rightarrow> bytes result" where
  "udp_seal ue n k t = (if k \<noteq> [] then cfb_Encrypt ue n k t else Inr t)"

definition udp_open :: "'r udp_env \<Rightarrow> bytes \<Rightarrow> bytes \<Rightarrow> bytes result" where
  "udp_open ue k v = (if k \<noteq> [] then cfb_Decrypt ue k v else Inr v)"

text \<open>The keys of the service are empty or have 24 bytes, with which AES in CFB mode encrypts any text and decrypts it again, whatever the initial vector.\<close>

definition cfb_law :: "'r udp_env \<Rightarrow> bool" where
  "cfb_law ue \<longleftrightarrow> (\<forall>n k t. length k = 24 \<longrightarrow> (\<exists>c. cfb_Encrypt ue n k t = Inr c \<and> cfb_Decrypt ue k c = Inr t))"

definition udp_key :: "bytes \<Rightarrow> bool" where
  "udp_key k \<longleftrightarrow> k = [] \<or> length k = 24"

lemma seal_open: "cfb_law ue \<Longrightarrow> udp_key k \<Longrightarrow> \<exists>c. udp_seal ue n k t = Inr c \<and> udp_open ue k c = Inr t"
  by (auto simp: cfb_law_def udp_key_def udp_seal_def udp_open_def)

lemma open_seal: "cfb_law ue \<Longrightarrow> udp_key k \<Longrightarrow> udp_seal ue n k t = Inr c \<Longrightarrow> udp_open ue k c = Inr t"
  using seal_open [of ue k n t] by auto

lemma client_packet_open: "client_packet ue k b = bindR (udp_open ue k b) (\<lambda>v. PacketUDP_Parse v NewPacketUDP)"
  by (simp add: client_packet_def udp_open_def)

lemma parent_datagram_seal: "parent_datagram ue n k p = (case udp_seal ue n k (PacketUDP_Bytes p) of Inl _ \<Rightarrow> [] | Inr v \<Rightarrow> v)"
  by (simp add: parent_datagram_def udp_seal_def)

lemma answer_to_socks_seal:
  "answer_to_socks ue n pk lk b = (case udp_open ue pk b of Inl _ \<Rightarrow> [] | Inr v \<Rightarrow> (case udp_seal ue n lk v of Inl _ \<Rightarrow> [] | Inr w \<Rightarrow> w))"
  by (simp add: answer_to_socks_def udp_open_def udp_seal_def split: sum.splits)

subsection \<open>A packet is relayed as it is\<close>

text \<open>The packet for a destination, with the data.\<close>

definition udp_bytes :: "string \<Rightarrow> int \<Rightarrow> bytes \<Rightarrow> bytes" where
  "udp_bytes host port d = udp_prefix host @ port_bytes port @ d"

text \<open>Destinations that both parsers take: a name of at most 250 bytes, a port of 16 bits, and enough bytes.\<close>

definition udp_dest :: "string \<Rightarrow> int \<Rightarrow> bytes \<Rightarrow> bool" where
  "udp_dest host port d \<longleftrightarrow> length host \<le> 250 \<and> 0 \<le> port \<and> port < 65536 \<and> udp_long_enough host d"

lemma ParseIP_canon: "ParseIP (canon_host host) = ParseIP host"
  using ParseIP_String [of "ParseIP host"] ParseIP_length [of host] by (auto simp: canon_host_def)

lemma canon_name: "ParseIP host = [] \<Longrightarrow> canon_host host = host"
  by (simp add: canon_host_def)

lemma packet_bytes_kept:
  assumes "udp_dest host port d"
  obtains p where "PacketUDP_Parse (udp_bytes host port d) NewPacketUDP = Inr p" "PacketUDP_Bytes p = udp_bytes host port d"
    "PacketUDP_Addr p = JoinHostPort (canon_host host) (Itoa port)"
proof -
  obtain p where p: "PacketUDP_Parse (udp_bytes host port d) NewPacketUDP = Inr p" "pu_dstHost p = canon_host host" "pu_dstPort p = Itoa port"
    "pu_data p = d" "pu_frag p = 0" "pu_atype p = udp_prefix host ! 3"
    using Parse_prefix [of host d port NewPacketUDP] assms by (auto simp: udp_dest_def udp_bytes_def)
  have port: "ParseUint_val (Itoa port) = port" using assms by (simp add: udp_dest_def ParseUint_Itoa)
  have "PacketUDP_Header p = udp_prefix host @ port_bytes port"
    using p port canon_name by (auto simp: PacketUDP_Header_def ParseIP_canon udp_prefix_def socks_consts)
  then show thesis using p that by (simp add: PacketUDP_Bytes_def udp_bytes_def PacketUDP_Addr_def)
qed

text \<open>The raw address of shadowsocks has the form of the SOCKS5 address.\<close>

lemma ss_raw_address:
  assumes "addr_safe host" "length host \<le> 255" "0 \<le> port" "port < 65536"
  shows "ss_ParseAddrSpec (JoinHostPort host (Itoa port)) = Inr (drop 3 (udp_prefix host @ port_bytes port))"
proof -
  have split: "SplitHostPort (JoinHostPort host (Itoa port)) = Inr (host, Itoa port)"
    using Split_Join assms(1) Itoa_port_chars [OF assms(3)] by blast
  have atoi: "Atoi (Itoa port) = Inr port" using assms(3,4) by (intro Atoi_Itoa) simp_all
  have nil: "To4 [] = []" by (simp add: To4_def)
  show ?thesis
    by (auto simp: ss_ParseAddrSpec_def split atoi udp_prefix_def socks_consts ss_types nil Let_def)
qed

subsection \<open>The datagram on a socket\<close>

text \<open>A source has a socket that is open, or has none and can get one.\<close>

definition udp_usable :: "'r udp_env \<Rightarrow> string \<Rightarrow> bool \<Rightarrow> 'r sps_udp \<Rightarrow> bool" where
  "udp_usable ue src can_dial su =
     (case cm_Get (su_cmap ue) src (su_related su) of
        None \<Rightarrow> can_dial
      | Some None \<Rightarrow> False
      | Some (Some j) \<Rightarrow> \<not> uo_closed (su_outs su ! j))"

text \<open>Between two states one datagram was sent, on a socket of that source.\<close>

definition udp_sent :: "string \<Rightarrow> bytes \<Rightarrow> 'r sps_udp \<Rightarrow> 'r sps_udp \<Rightarrow> bool" where
  "udp_sent src v su su' \<longleftrightarrow>
     (\<exists>j < length (su_outs su'). uo_client (su_outs su' ! j) = src \<and>
        uo_sent (su_outs su' ! j) = (if j < length (su_outs su) then uo_sent (su_outs su ! j) else []) @ [v] \<and>
        (\<forall>k < length (su_outs su). k \<noteq> j \<longrightarrow> uo_sent (su_outs su' ! k) = uo_sent (su_outs su ! k)))"

lemma su_write_open:
  assumes "j < length (su_outs su)" "\<not> uo_closed (su_outs su ! j)" "uo_client (su_outs su ! j) = src"
  shows "\<exists>su'. su_write (Some j) v su = (Inr (), su') \<and> udp_sent src v su su'"
  using assms by (auto simp: su_write_def udp_sent_def su_set_nth)

lemma udp_sent_old:
  "udp_sent src v su1 su' \<Longrightarrow> su_outs su1 = su_outs su \<Longrightarrow> udp_sent src v su su'"
  by (simp only: udp_sent_def)

lemma su_write_new:
  assumes "su_outs su1 = su_outs (su_dial ue src dest via su)"
  shows "\<exists>su'. su_write (Some (length (su_outs su))) v su1 = (Inr (), su') \<and> udp_sent src v su su'"
proof -
  have "udp_sent src v su (su_set (length (su_outs su)) (\<lambda>u. u\<lparr>uo_sent := uo_sent u @ [v]\<rparr>) su1)"
    unfolding udp_sent_def using assms by (intro exI [of _ "length (su_outs su)"]) (simp add: su_set_def su_dial_def nth_append)
  then show ?thesis using assms by (simp add: su_write_def su_dial_def)
qed

lemma assoc_round_sends:
  assumes "su_tab ue su" "host_of src = host_of (ua_remote (su_assocs su ! a))" "client_packet ue lk (take BindingSize b) = Inr p"
    and "udp_usable ue src can_dial su"
  shows "\<exists>su'. assoc_round ue lk pk n can_dial a src b su = (Inr (), su') \<and> udp_sent src (parent_datagram ue n pk p) su su'"
proof (cases "cm_Get (su_cmap ue) src (su_related su)")
  case None
  then have d: can_dial using assms(4) by (simp add: udp_usable_def)
  define s1 where "s1 = su_dial ue src (ua_dest (su_assocs su ! a)) (Some a) (su\<lparr>su_recv := su_recv su @ [(src, b)]\<rparr>)"
  define s2 where "s2 = s1\<lparr>su_assocs := (su_assocs s1)[a := (su_assocs su ! a)\<lparr>ua_out := Some (length (su_outs su))\<rparr>]\<rparr>"
  have "su_outs s2 = su_outs (su_dial ue src (ua_dest (su_assocs su ! a)) (Some a) su)" by (simp add: s2_def s1_def su_dial_def)
  from su_write_new [OF this, of "parent_datagram ue n pk p"] show ?thesis
    using assms(2,3) None d by (simp add: assoc_round_def Let_def s1_def s2_def)
next
  case (Some out)
  then obtain j where j: "out = Some j" "\<not> uo_closed (su_outs su ! j)" using assms(4) by (auto simp: udp_usable_def split: option.splits)
  then have t: "j < length (su_outs su)" "uo_client (su_outs su ! j) = src" using assms(1) Some by (simp_all add: su_tab_def)
  define s2 where "s2 = su\<lparr>su_recv := su_recv su @ [(src, b)], su_assocs := (su_assocs su)[a := (su_assocs su ! a)\<lparr>ua_out := Some j\<rparr>]\<rparr>"
  obtain su' where w: "su_write (Some j) (parent_datagram ue n pk p) s2 = (Inr (), su')" "udp_sent src (parent_datagram ue n pk p) s2 su'"
    using su_write_open [of j s2 src] j t by (auto simp: s2_def)
  then have "assoc_round ue lk pk n can_dial a src b su = (Inr (), su')"
    using assms(2,3) Some j(1) by (simp add: assoc_round_def Let_def s2_def)
  then show ?thesis using udp_sent_old [OF w(2), of su] by (simp add: s2_def)
qed

lemma ss_round_sends:
  assumes "su_tab ue su" "ss_packet (pe_ss env) (sp_localCipher sf) (take BindingSize b) = Inr p" "udp_usable ue src can_dial su"
    and "cm_Get (su_cmap ue) src (su_related su) = None \<Longrightarrow> is_ok (fst (ss_parent env cl src (PacketUDP_Addr p) sf))"
  shows "\<exists>sf' su'. ss_round env ue cl n can_dial l src b (sf, su) = (Inr (), sf', su') \<and> udp_sent src (parent_datagram ue n (sp_udpParentKey sf) p) su su'"
proof (cases "cm_Get (su_cmap ue) src (su_related su)")
  case None
  then have d: can_dial using assms(3) by (simp add: udp_usable_def)
  obtain dest sf' where q: "ss_parent env cl src (PacketUDP_Addr p) sf = (Inr dest, sf')"
    using assms(4) [OF None] by (cases "ss_parent env cl src (PacketUDP_Addr p) sf") (auto simp: is_ok_ex)
  then have k: "sp_udpParentKey sf' = sp_udpParentKey sf" using ss_parent_lb [OF q] by auto
  define s1 where "s1 = su_dial ue src dest None (su\<lparr>su_recv := su_recv su @ [(src, b)]\<rparr>)"
  define s2 where "s2 = s1\<lparr>su_used := su_used s1 @ [(l, length (su_outs su))]\<rparr>"
  have "su_outs s2 = su_outs (su_dial ue src dest None su)" by (simp add: s2_def s1_def su_dial_def)
  from su_write_new [OF this, of "parent_datagram ue n (sp_udpParentKey sf) p"] show ?thesis
    using assms(2) None d q k by (auto simp: ss_round_def Let_def s1_def s2_def)
next
  case (Some out)
  then obtain j where j: "out = Some j" "\<not> uo_closed (su_outs su ! j)" using assms(3) by (auto simp: udp_usable_def split: option.splits)
  then have t: "j < length (su_outs su)" "uo_client (su_outs su ! j) = src" using assms(1) Some by (simp_all add: su_tab_def)
  define s2 where "s2 = su\<lparr>su_recv := su_recv su @ [(src, b)], su_used := su_used su @ [(l, j)]\<rparr>"
  obtain su' where w: "su_write (Some j) (parent_datagram ue n (sp_udpParentKey sf) p) s2 = (Inr (), su')"
    "udp_sent src (parent_datagram ue n (sp_udpParentKey sf) p) s2 su'"
    using su_write_open [of j s2 src] j t by (auto simp: s2_def)
  then have "ss_round env ue cl n can_dial l src b (sf, su) = (Inr (), sf, su')"
    using assms(2) Some j(1) by (simp add: ss_round_def Let_def s2_def)
  then show ?thesis using udp_sent_old [OF w(2), of su] by (simp add: s2_def)
qed

subsection \<open>The keys\<close>

lemma slice_key: "slice_at x 0 24 = Inr k \<Longrightarrow> udp_key k"
  by (auto simp: slice_at_def udp_key_def split: if_splits)

lemma sps_check_keys:
  assumes "sps_check env cfg = Inr (rate, lk, pk, u)"
  shows "udp_key lk \<and> udp_key pk"
proof -
  have "LocalUDPKey env cfg t = Inr k \<Longrightarrow> udp_key k" "ParentUDPKey env cfg t = Inr k \<Longrightarrow> udp_key k" for t k
    by (auto simp: LocalUDPKey_def ParentUDPKey_def md5_key_def slice_key udp_key_def [of "[]"] split: if_splits option.splits)
  then show ?thesis using assms by (auto simp: sps_check_def bindR_eq_Inr split: if_splits sum.splits)
qed

lemma sps_listen_keys:
  "sps_listen env as sf = (r, sf') \<Longrightarrow> sp_udpLocalKey sf' = sp_udpLocalKey sf \<and> sp_udpParentKey sf' = sp_udpParentKey sf"
  by (induction env "as" sf rule: sps_listen.induct) (auto simp: Let_def split: if_splits option.splits)

lemma InitService_keys:
  "InitService env sf = (r, sf') \<Longrightarrow> sp_udpLocalKey sf' = sp_udpLocalKey sf \<and> sp_udpParentKey sf' = sp_udpParentKey sf"
  by (auto simp: InitService_def Let_def split: if_splits sum.splits prod.splits)

lemma sps_Start_keys:
  assumes "sps_Start env (sps_New env cfg) = (Inr (), sf)"
  shows "udp_key (sp_udpLocalKey sf) \<and> udp_key (sp_udpParentKey sf)"
proof -
  obtain s1 s2 where s: "InspectConfig env (sps_New env cfg) = (Inr (), s1)" "InitService env s1 = (Inr (), s2)"
    "sps_listen env (split_on (CHR '','') (pc_Local (sp_cfg s2))) s2 = (Inr (), sf)"
    using assms by (auto simp: sps_Start_def split: prod.splits sum.splits)
  have "udp_key (sp_udpLocalKey s1) \<and> udp_key (sp_udpParentKey s1)"
    using s(1) by (auto simp: InspectConfig_def Let_def split: sum.splits prod.splits dest!: sps_check_keys)
  then show ?thesis using InitService_keys [OF s(2)] sps_listen_keys [OF s(3)] by simp
qed

lemma sudp_reach_keys:
  assumes "cmap_laws (su_cmap ue)" "sudp_reach env ue sf0 s"
  shows "\<exists>lb. fst s = sf0\<lparr>sp_lb := lb\<rparr>"
  using assms(2)
proof (induction rule: sudp_reach.induct)
  case d_start
  then show ?case by (intro exI [of _ "sp_lb sf0"]) simp
next
  case (d_step s s')
  then show ?case using sudp_step_inv [OF assms(1) d_step(2)] sudp_reach_inv [OF assms(1) d_step(1)] by fastforce
qed

subsection \<open>Properties\<close>

lemma sealed_packet:
  assumes "cfb_law ue" "udp_key lk" "udp_key pk" "udp_dest host port d" "udp_seal ue n0 lk (udp_bytes host port d) = Inr wire"
  obtains p where "client_packet ue lk wire = Inr p" "PacketUDP_Addr p = JoinHostPort (canon_host host) (Itoa port)"
    "\<And>n. udp_open ue pk (parent_datagram ue n pk p) = Inr (udp_bytes host port d)"
proof -
  obtain p where p: "PacketUDP_Parse (udp_bytes host port d) NewPacketUDP = Inr p" "PacketUDP_Bytes p = udp_bytes host port d"
    "PacketUDP_Addr p = JoinHostPort (canon_host host) (Itoa port)" using packet_bytes_kept [OF assms(4)] by blast
  have "udp_open ue pk (parent_datagram ue n pk p) = Inr (udp_bytes host port d)" for n
    using seal_open [OF assms(1,3), of n "udp_bytes host port d"] p(2) by (auto simp: parent_datagram_seal)
  then show thesis using that p open_seal [OF assms(1,2,5)] by (simp add: client_packet_open)
qed

lemma encrypted_packet:
  assumes "cfb_law ue" "udp_key pk" "udp_dest host port d" "Decrypt se wire c = Inr (drop 3 (udp_bytes host port d))"
  obtains p where "ss_packet se (Some c) wire = Inr p" "PacketUDP_Addr p = JoinHostPort (canon_host host) (Itoa port)"
    "\<And>n. udp_open ue pk (parent_datagram ue n pk p) = Inr (udp_bytes host port d)"
proof -
  have "[0, 0, 0] @ drop 3 (udp_bytes host port d) = udp_bytes host port d"
    using append_take_drop_id [of 3 "udp_bytes host port d"] udp_prefix_bytes(1) [of host "port_bytes port @ d"] by (simp only: udp_bytes_def)
  then have "ss_packet se (Some c) wire = PacketUDP_Parse (udp_bytes host port d) NewPacketUDP" using assms(4) by (simp add: ss_packet_def)
  moreover have "client_packet ue [] (udp_bytes host port d) = PacketUDP_Parse (udp_bytes host port d) NewPacketUDP" by (simp add: client_packet_def)
  ultimately show thesis
    using that sealed_packet [OF assms(1) _ assms(2,3), of "[]" 0 "udp_bytes host port d"] by (metis udp_key_def udp_seal_def)
qed

text \<open>A shadowsocks client with the password of the service.\<close>

definition same_cipher :: "'st Cipher \<Rightarrow> 'st Cipher \<Rightarrow> bool" where
  "same_cipher c c' \<longleftrightarrow> meth c' = meth c \<and> key c' = key c \<and> ivLen c' = ivLen c"


text \<open>C9. Datagrams reach the parent unchanged. Take a UDP relay of a service that has started, in any reachable state, and a packet for a destination that the
  parsers take, of a client whose socket is usable. If an associated SOCKS5 client sends it, encrypted with the client side's key when there is one, then one datagram is sent, on
  a socket of that client, and a parent with the parent side's key reads from it exactly the packet. The same holds when a shadowsocks client sends the raw address of the destination
  and the data, encrypted with its cipher, and, when it has no socket yet, a parent can be reached.\<close>

theorem sps_udp_transport:
  assumes laws: "cmap_laws (su_cmap ue)" "cfb_law ue" "stream_laws (pe_ss env) R"
    and reach: "sps_Start env (sps_New env cfg) = (Inr (), sf0)" "sudp_reach env ue sf0 (sf, su)"
    and dest: "udp_dest host port d" "addr_safe host" and usable: "udp_usable ue src can_dial su"
  shows "(a < length (su_assocs su) \<and> host_of src = host_of (ua_remote (su_assocs su ! a)) \<and>
      udp_seal ue n0 (sp_udpLocalKey sf) (udp_bytes host port d) = Inr wire \<and> length wire \<le> BindingSize \<longrightarrow>
      (\<exists>v. udp_sent src v su (assoc_datagram ue (sp_udpLocalKey sf) (sp_udpParentKey sf) n can_dial a src wire su) \<and>
           udp_open ue (sp_udpParentKey sf) v = Inr (udp_bytes host port d))) \<and>
    (l < length (su_relays su) \<and> su_relays su ! l \<and> sp_localCipher sf = Some c \<and> same_cipher c' c \<and>
      initEncrypt (pe_ss env) rnd c' = (Inr iv0, c1) \<and> length iv0 = ivLen c' \<and>
      ss_ParseAddrSpec (JoinHostPort host (Itoa port)) = Inr addr \<and> Encrypt (pe_ss env) rnd (addr @ d) c' = Inr wire \<and> length wire \<le> BindingSize \<and>
      (cm_Get (su_cmap ue) src (su_related su) = None \<longrightarrow> is_ok (fst (ss_parent env cl src (JoinHostPort (canon_host host) (Itoa port)) sf))) \<longrightarrow>
      (\<exists>v. udp_sent src v su (snd (ss_datagram env ue cl n can_dial l src wire (sf, su))) \<and>
           udp_open ue (sp_udpParentKey sf) v = Inr (udp_bytes host port d)))"
proof (intro conjI impI; (elim conjE)?)
  have tab: "su_tab ue su" using sudp_reach_inv [OF laws(1) reach(2)] by (simp add: su_inv_def)
  have keys: "udp_key (sp_udpLocalKey sf)" "udp_key (sp_udpParentKey sf)"
    using sps_Start_keys [OF reach(1)] sudp_reach_keys [OF laws(1) reach(2)] by auto
  {
    assume a: "host_of src = host_of (ua_remote (su_assocs su ! a))" "udp_seal ue n0 (sp_udpLocalKey sf) (udp_bytes host port d) = Inr wire"
      "length wire \<le> BindingSize"
    obtain p where p: "client_packet ue (sp_udpLocalKey sf) wire = Inr p"
      "\<And>n. udp_open ue (sp_udpParentKey sf) (parent_datagram ue n (sp_udpParentKey sf) p) = Inr (udp_bytes host port d)"
      using sealed_packet [OF laws(2) keys dest(1) a(2)] by blast
    then show "\<exists>v. udp_sent src v su (assoc_datagram ue (sp_udpLocalKey sf) (sp_udpParentKey sf) n can_dial a src wire su) \<and>
        udp_open ue (sp_udpParentKey sf) v = Inr (udp_bytes host port d)"
      using assoc_round_sends [OF tab a(1) _ usable, of "sp_udpLocalKey sf" wire p "sp_udpParentKey sf" n] a(3) by (auto simp: assoc_datagram_def)
  next
    assume s: "l < length (su_relays su)" "su_relays su ! l" "sp_localCipher sf = Some c" "same_cipher c' c"
      "initEncrypt (pe_ss env) rnd c' = (Inr iv0, c1)" "length iv0 = ivLen c'" "ss_ParseAddrSpec (JoinHostPort host (Itoa port)) = Inr addr"
      "Encrypt (pe_ss env) rnd (addr @ d) c' = Inr wire" "length wire \<le> BindingSize"
      "cm_Get (su_cmap ue) src (su_related su) = None \<longrightarrow> is_ok (fst (ss_parent env cl src (JoinHostPort (canon_host host) (Itoa port)) sf))"
    have "addr @ d = drop 3 (udp_bytes host port d)"
      using ss_raw_address [OF dest(2)] dest(1) s(7) udp_prefix_bytes(2) [of host] by (simp add: udp_dest_def udp_bytes_def)
    then have "Decrypt (pe_ss env) wire c = Inr (drop 3 (udp_bytes host port d))"
      using Decrypt_Encrypt [OF laws(3) s(5,6), of c "addr @ d"] s(4,8) by (simp add: same_cipher_def)
    then obtain p where p: "ss_packet (pe_ss env) (sp_localCipher sf) wire = Inr p" "PacketUDP_Addr p = JoinHostPort (canon_host host) (Itoa port)"
      "\<And>n. udp_open ue (sp_udpParentKey sf) (parent_datagram ue n (sp_udpParentKey sf) p) = Inr (udp_bytes host port d)"
      using encrypted_packet [OF laws(2) keys(2) dest(1)] s(3) by metis
    obtain sf' su' where r: "ss_round env ue cl n can_dial l src wire (sf, su) = (Inr (), sf', su')"
      "udp_sent src (parent_datagram ue n (sp_udpParentKey sf) p) su su'"
      using ss_round_sends [OF tab _ usable, of env sf wire p cl n l] p(1,2) s(9,10) by auto
    then show "\<exists>v. udp_sent src v su (snd (ss_datagram env ue cl n can_dial l src wire (sf, su))) \<and>
        udp_open ue (sp_udpParentKey sf) v = Inr (udp_bytes host port d)"
      using p(3) s(1,2) by (auto simp: ss_datagram_def)
  }
qed


subsection \<open>An example\<close>

text \<open>Parents with a key, shadowsocks clients with a password, and a parent that grants an association.\<close>

definition example_udp_env :: "(string, nat option) alist udp_env" where
  "example_udp_env = \<lparr>cfb_Encrypt = (\<lambda>_ k t. Inr (map ((+) (hd k)) t)), cfb_Decrypt = (\<lambda>k t. Inr (map ((+) (- hd k)) t)), su_cmap = alist_cmap\<rparr>"

definition ex_udp_cfg :: sps_config where
  "ex_udp_cfg = (example_sps_cfg [''10.0.0.2:1080''] ''socks'')\<lparr>pc_SSMethod := ''m'', pc_SSKey := ''pw'', pc_ParentKey := ''k''\<rparr>"

definition ex_u0 :: "((string, string) alist, (string, dns_item) alist, (string, nat) alist, unit, byte) SPS" where
  "ex_u0 = snd (sps_Start example_sps_env (sps_New example_sps_env ex_udp_cfg))"

definition ex_cipher :: "byte Cipher" where
  "ex_cipher = \<lparr>writer = None, reader = None, meth = ''m'', ivLen = 2, key = [7], iv = None\<rparr>"

definition ex_grant :: "bytes list" where
  "ex_grant = [[5, 0], [5, 0, 0, 1], [10, 0, 0, 2], [16, 0]]"

definition ex_udp_call :: sps_call where
  "ex_udp_call = example_call\<lparr>cl_dial := (\<lambda>_. Inr (good_conn ex_grant))\<rparr>"

lemma example_udp_laws: "cmap_laws (su_cmap example_udp_env)" "cfb_law example_udp_env" "stream_laws (pe_ss example_sps_env) (\<lambda>e d. d = - e)"
  by (simp_all add: example_udp_env_def alist_cmap_laws cfb_law_def comp_def example_sps_env_def) (auto simp: stream_laws_def example_ss_env_def comp_def)

lemma ex_u0_start:
  "sps_Start example_sps_env (sps_New example_sps_env ex_udp_cfg) = (Inr (), ex_u0)" "sp_cfg ex_u0 = ex_udp_cfg" "sp_center ex_u0 = None"
  "sp_parentAuthData ex_u0 = Map.empty" "\<exists>lb. sp_lb ex_u0 = Some lb \<and> lb_selector lb = SLeastConn" "sp_udpLocalKey ex_u0 = []"
  "sp_udpParentKey ex_u0 = replicate 24 48" "sp_localCipher ex_u0 = Some ex_cipher" "sp_udpListening ex_u0 = ['':28080'']"
proof -
  have at: "split_on (CHR ''@'') ''10.0.0.2:1080'' = [''10.0.0.2:1080'']" "to_lower ''leastconn'' = ''leastconn''" "split_on (CHR '','') '':28080'' = ['':28080'']"
    "slice_at (str_bytes (replicate 32 (CHR ''0''))) 0 24 = Inr (replicate 24 48)"
    by code_simp+
  have "sps_Start example_sps_env (sps_New example_sps_env ex_udp_cfg) = (Inr (), ex_u0) \<and> sp_cfg ex_u0 = ex_udp_cfg \<and> sp_center ex_u0 = None \<and>
    sp_parentAuthData ex_u0 = Map.empty \<and> (\<exists>lb. sp_lb ex_u0 = Some lb \<and> lb_selector lb = SLeastConn) \<and> sp_udpLocalKey ex_u0 = [] \<and>
    sp_udpParentKey ex_u0 = replicate 24 48 \<and> sp_localCipher ex_u0 = Some ex_cipher \<and> sp_udpListening ex_u0 = ['':28080'']"
    by (simp add: ex_u0_def ex_udp_cfg_def sps_Start_def InspectConfig_def sps_check_def sps_check_tls_def LocalUDPKey_def ParentUDPKey_def md5_key_def
        InitService_def init_center_def sps_ciphers_def NewCipher_def example_ss_env_def ex_cipher_def example_sps_cfg_def example_sps_env_def sps_New_def Let_def at
        lb_New_def getNewSelectorFunction_def apply_option_def)
  then show "sps_Start example_sps_env (sps_New example_sps_env ex_udp_cfg) = (Inr (), ex_u0)" "sp_cfg ex_u0 = ex_udp_cfg" "sp_center ex_u0 = None"
    "sp_parentAuthData ex_u0 = Map.empty" "\<exists>lb. sp_lb ex_u0 = Some lb \<and> lb_selector lb = SLeastConn" "sp_udpLocalKey ex_u0 = []"
    "sp_udpParentKey ex_u0 = replicate 24 48" "sp_localCipher ex_u0 = Some ex_cipher" "sp_udpListening ex_u0 = ['':28080'']"
    by blast+
qed

lemma ex_granted: "\<exists>sc. fst (Client_Handshake (NewClient ''udp'' ''foo:53'' None []) (good_conn ex_grant)) = Inr sc"
proof -
  have h: "SplitHostPort ''foo:53'' = Inr (''foo'', ''53'')" "Atoi ''53'' = Inr 53" "ParseIP ''foo'' = []" by code_simp+
  show ?thesis
    by (simp add: Client_Handshake_def NewClient_def h client_handshake_def client_request_def client_reply_def client_greeting_def liftR_def bindIO_def
        retIO_def mapErr_def conn_Write_def conn_ReadFull_def good_conn_def ex_grant_def socks_consts Let_def)
qed

lemma ex_parent: "\<exists>dest lb. ss_parent example_sps_env ex_udp_call src ''foo:53'' ex_u0 = (Inr dest, ex_u0\<lparr>sp_lb := Some lb\<rparr>)"
proof -
  obtain sc where sc: "fst (Client_Handshake (NewClient ''udp'' ''foo:53'' None []) (good_conn ex_grant)) = Inr sc" using ex_granted by blast
  obtain lb where lb: "sp_lb ex_u0 = Some lb" "lb_selector lb = SLeastConn" using ex_u0_start(5) by blast
  obtain a lb' where sel: "lb_Select (pe_lb example_sps_env) (cl_draws ex_udp_call) src lb = (Inr a, lb')"
    using lb(2) by (simp add: lb_Select_def Select_def split: option.splits)
  have g: "getParentAuth (ex_u0\<lparr>sp_lb := Some lb'\<rparr>) a = ''''"
    by (simp add: getParentAuth_def ex_u0_start ex_udp_cfg_def example_sps_cfg_def)
  have "fst (HandshakeSocksParent (ex_u0\<lparr>sp_lb := Some lb'\<rparr>) '''' ''udp'' ''foo:53'' ('''', '''') True (good_conn ex_grant)) = Inr sc"
    using sc by (simp add: HandshakeSocksParent_def real_auth_def liftR_def bindIO_def)
  then show ?thesis using lb sel g by (simp add: ss_parent_def Let_def ex_udp_call_def) blast
qed

lemma ex_packet:
  "ss_ParseAddrSpec (JoinHostPort ''foo'' (Itoa 53)) = Inr [3, 3, 102, 111, 111, 0, 53]" "udp_dest ''foo'' 53 [1, 2]" "addr_safe ''foo''"
  "JoinHostPort (canon_host ''foo'') (Itoa 53) = ''foo:53''"
  "initEncrypt (pe_ss example_sps_env) (Inr [9, 8]) ex_cipher = (Inr [9, 8], ex_cipher\<lparr>iv := Some [9, 8], writer := Some 7\<rparr>)"
  "Encrypt (pe_ss example_sps_env) (Inr [9, 8]) [3, 3, 102, 111, 111, 0, 53, 1, 2] ex_cipher = Inr [9, 8, 10, 10, 109, 118, 118, 7, 60, 8, 9]" "ivLen ex_cipher = 2"
proof -
  show "ivLen ex_cipher = 2" by (simp add: ex_cipher_def)
  have p: "ParseIP ''foo'' = []" by (simp add: ParseIP_def)
  show "addr_safe ''foo''" by (simp add: addr_safe_def)
  show "ss_ParseAddrSpec (JoinHostPort ''foo'' (Itoa 53)) = Inr [3, 3, 102, 111, 111, 0, 53]" by code_simp
  show "udp_dest ''foo'' 53 [1, 2]" using p by (simp add: udp_dest_def udp_long_enough_def)
  show "JoinHostPort (canon_host ''foo'') (Itoa 53) = ''foo:53''" by code_simp
  show "initEncrypt (pe_ss example_sps_env) (Inr [9, 8]) ex_cipher = (Inr [9, 8], ex_cipher\<lparr>iv := Some [9, 8], writer := Some 7\<rparr>)"
    by (simp add: initEncrypt_def ex_cipher_def example_sps_env_def example_ss_env_def Let_def)
  show "Encrypt (pe_ss example_sps_env) (Inr [9, 8]) [3, 3, 102, 111, 111, 0, 53, 1, 2] ex_cipher = Inr [9, 8, 10, 10, 109, 118, 118, 7, 60, 8, 9]"
    by (simp add: Encrypt_def initEncrypt_def ss_encrypt_def Clone_def ex_cipher_def example_sps_env_def example_ss_env_def Let_def)
qed

definition ex_datagram :: bytes where
  "ex_datagram = [9, 8, 10, 10, 109, 118, 118, 7, 60, 8, 9]"

definition ex_relay :: "(string, nat option) alist sps_udp" where
  "ex_relay = su_New example_udp_env ['':28080'']"

lemma ex_relay_facts:
  "sudp_reach example_sps_env example_udp_env ex_u0 (ex_u0, ex_relay)" "su_relays ex_relay = [True]"
  "cm_Get (su_cmap example_udp_env) ''10.0.0.9:5353'' (su_related ex_relay) = None" "su_outs ex_relay = []"
proof -
  show "sudp_reach example_sps_env example_udp_env ex_u0 (ex_u0, ex_relay)"
    using d_start [of example_sps_env example_udp_env ex_u0] ex_u0_start(9) by (simp add: ex_relay_def)
  show "su_relays ex_relay = [True]" "cm_Get (su_cmap example_udp_env) ''10.0.0.9:5353'' (su_related ex_relay) = None" "su_outs ex_relay = []"
    by (simp_all add: ex_relay_def su_New_def example_udp_env_def alist_cmap_laws cmap_Set cmap_New)
qed

theorem sps_udp_transport_witness:
  "\<exists>v. udp_sent ''10.0.0.9:5353'' v ex_relay
         (snd (ss_datagram example_sps_env example_udp_env ex_udp_call 0 True 0 ''10.0.0.9:5353'' ex_datagram (ex_u0, ex_relay))) \<and>
       udp_open example_udp_env (replicate 24 48) v = Inr (udp_bytes ''foo'' 53 [1, 2])"
proof -
  have u: "udp_usable example_udp_env ''10.0.0.9:5353'' True ex_relay" using ex_relay_facts(3) by (simp add: udp_usable_def)
  have ok: "is_ok (fst (ss_parent example_sps_env ex_udp_call ''10.0.0.9:5353'' ''foo:53'' ex_u0))"
    using ex_parent [of "''10.0.0.9:5353''"] by (auto simp: is_ok_def)
  have "length ex_datagram \<le> BindingSize" by (simp add: ex_datagram_def BindingSize_def)
  then show ?thesis
    using sps_udp_transport [OF example_udp_laws ex_u0_start(1) ex_relay_facts(1) ex_packet(2,3) u, THEN conjunct2, of 0 ex_cipher ex_cipher "Inr [9, 8]" "[9, 8]"
        "ex_cipher\<lparr>iv := Some [9, 8], writer := Some 7\<rparr>" "[3, 3, 102, 111, 111, 0, 53]" ex_datagram ex_udp_call 0] ok
    by (simp add: ex_relay_facts ex_u0_start ex_packet [folded ex_datagram_def] same_cipher_def)
qed

lemma ex_after:
  obtains sf su u where "sudp_reach example_sps_env example_udp_env ex_u0 (sf, su)" "su_outs su = [u]" "uo_via u = None" "uo_reading u"
    "uo_sent u \<noteq> []" "uo_back u = []" "\<exists>lb. sf = ex_u0\<lparr>sp_lb := lb\<rparr>"
proof -
  have "Decrypt (pe_ss example_sps_env) ex_datagram ex_cipher = Inr [3, 3, 102, 111, 111, 0, 53, 1, 2]"
    using Decrypt_Encrypt [OF example_udp_laws(3) ex_packet(5), of ex_cipher "[3, 3, 102, 111, 111, 0, 53, 1, 2]"] ex_packet(6,7)
    by (simp add: ex_datagram_def)
  moreover have "drop 3 (udp_bytes ''foo'' 53 [1, 2]) = [3, 3, 102, 111, 111, 0, 53, 1, 2]" by code_simp
  moreover have "udp_key (replicate 24 48)" by (simp add: udp_key_def)
  ultimately obtain p where p: "ss_packet (pe_ss example_sps_env) (Some ex_cipher) ex_datagram = Inr p" "PacketUDP_Addr p = ''foo:53''"
    using encrypted_packet [OF example_udp_laws(2) _ ex_packet(2)] ex_packet(4) by metis
  obtain dest lb where d: "ss_parent example_sps_env ex_udp_call ''10.0.0.9:5353'' ''foo:53'' ex_u0 = (Inr dest, ex_u0\<lparr>sp_lb := Some lb\<rparr>)"
    using ex_parent by blast
  have t: "take BindingSize ex_datagram = ex_datagram" by (simp add: ex_datagram_def BindingSize_def)
  define s where "s = ss_datagram example_sps_env example_udp_env ex_udp_call 0 True 0 ''10.0.0.9:5353'' ex_datagram (ex_u0, ex_relay)"
  have r: "sudp_reach example_sps_env example_udp_env ex_u0 s" unfolding s_def by (rule d_step [OF ex_relay_facts(1) d_ss])
  have "\<exists>u. su_outs (snd s) = [u] \<and> uo_via u = None \<and> uo_reading u \<and> uo_sent u \<noteq> [] \<and> uo_back u = []" "fst s = ex_u0\<lparr>sp_lb := Some lb\<rparr>"
    by (simp_all add: s_def ss_datagram_def ss_round_def ex_relay_facts ex_u0_start t p d Let_def su_write_def su_dial_def su_set_def)
  moreover have "sudp_reach example_sps_env example_udp_env ex_u0 (fst s, snd s)" using r by simp
  ultimately show thesis using that by blast
qed



end
