(* ===== verification/Sps_Udp_Faults.thy ===== *)
theory Sps_Udp_Faults
  imports Sps_Transport
begin

section \<open>services/sps: what ends a UDP relay\<close>

text \<open>
  The loop of \<open>RunSSUDP\<close> returns where it should continue: one datagram that it cannot decrypt or parse, or one client for which no parent answers, ends the
  relay of a listening address for every client, and nothing starts it again. This theory shows that and other datagrams and answers
  with which the relays do not cope.
\<close>

lemma su_relays_kept [simp]:
  "su_relays (assoc_clean a su) = su_relays su" "su_relays (reader_ends ue j su) = su_relays su" "su_relays (udp_answer env ue n rnd j b sf su) = su_relays su"
  "su_relays (su_dial ue src dest via su) = su_relays su" "su_relays (snd (su_write out v su)) = su_relays su"
  by (auto simp: assoc_clean_def reader_ends_def udp_answer_def su_dial_def su_write_def Let_def split: option.splits sum.splits)

lemma su_write_relays: "su_write out v su = (r, su') \<Longrightarrow> su_relays su' = su_relays su"
  by (metis su_relays_kept(5) snd_conv)

lemma assoc_round_relays: "assoc_round ue lk pk n can_dial a src b su = (r, su') \<Longrightarrow> su_relays su' = su_relays su"
  by (auto simp: assoc_round_def Let_def split: if_splits sum.splits error.splits option.splits dest!: su_write_relays)

lemma ss_round_relays: "ss_round env ue cl n can_dial l src b (sf, su) = (r, sf', su') \<Longrightarrow> su_relays su' = su_relays su"
  by (auto simp: ss_round_def Let_def split: if_splits sum.splits prod.splits option.splits dest!: su_write_relays)

lemma ss_clean_relays: "su_relays (ss_clean l su) = (su_relays su)[l := False]"
proof -
  have "su_relays (foldl (\<lambda>su (_, j). su_set j f su) s xs) = su_relays s" for f s and xs :: "(nat \<times> nat) list"
    by (induction xs arbitrary: s) (auto simp: case_prod_beta)
  note kept = this
  show ?thesis by (simp add: ss_clean_def kept)
qed

text \<open>A relay that has ended does not start again.\<close>

definition relay_ended :: "nat \<Rightarrow> 'r sps_udp \<Rightarrow> bool" where
  "relay_ended l su \<longleftrightarrow> l < length (su_relays su) \<and> \<not> su_relays su ! l"

lemma relay_ended_ss:
  assumes "relay_ended l (snd s)"
  shows "relay_ended l (snd (ss_datagram env ue cl n can_dial k src b s))"
proof -
  obtain sf su r sf' su' where s: "s = (sf, su)" "ss_round env ue cl n can_dial k src b (sf, su) = (r, sf', su')" by (metis prod_cases3 surj_pair)
  then show ?thesis using assms ss_round_relays [OF s(2)]
    by (auto simp: relay_ended_def ss_datagram_def ss_clean_relays nth_list_update split: sum.splits)
qed

lemma relay_ended_step:
  assumes "sudp_step env ue s s'" "relay_ended l (snd s)"
  shows "relay_ended l (snd s')"
  using assms
proof (cases rule: sudp_step.cases)
  case (d_associate cl serverConn sf su r)
  then show ?thesis using assms(2)
    by (auto simp: relay_ended_def udp_associate_def Let_def split: option.splits prod.splits sum.splits if_splits)
next
  case (d_socks a su sf n dials src b)
  then show ?thesis using assms(2)
    by (auto simp: relay_ended_def assoc_datagram_def split: prod.splits sum.splits dest!: assoc_round_relays)
next
  case d_ss
  then show ?thesis using assms(2) relay_ended_ss by blast
qed (use assms(2) in \<open>simp_all add: relay_ended_def\<close>)

lemma relay_ended_steps: "(sudp_step env ue)\<^sup>*\<^sup>* s s' \<Longrightarrow> relay_ended l (snd s) \<Longrightarrow> relay_ended l (snd s')"
  by (induction rule: rtranclp_induct) (auto intro: relay_ended_step)

lemma ss_round_fails:
  assumes "fst (ss_round env ue cl n can_dial l src b s) = Inl e" "l < length (su_relays (snd s))"
  shows "relay_ended l (snd (ss_datagram env ue cl n can_dial l src b s))"
proof -
  obtain sf su r sf' su' where s: "s = (sf, su)" "ss_round env ue cl n can_dial l src b (sf, su) = (r, sf', su')" by (metis prod_cases3 surj_pair)
  then show ?thesis using assms ss_round_relays [OF s(2)]
    by (auto simp: relay_ended_def ss_datagram_def ss_clean_relays)
qed

subsection \<open>Single datagrams\<close>

lemma Parse_long_domain:
  assumes "250 < length host" "length host \<le> 255" "ParseIP host = []"
  shows "PacketUDP_Parse (udp_bytes host port d) q = Inl (Panic SliceOutOfRange)"
proof -
  have b: "udp_bytes host port d = [0, 0, 0, ATYP_DOMAIN, of_nat (length host)] @ str_bytes host @ port_bytes port @ d"
    using assms(3) by (simp add: udp_bytes_def udp_prefix_def)
  have "unat (of_nat (length host) :: byte) = length host" using assms(2) by (simp add: unat_of_nat take_bit_eq_mod)
  moreover have "udp_addr (udp_bytes host port d) = Inl (Panic SliceOutOfRange)" unfolding b by (rule udp_addr_domain_wraps [OF assms(1,2)])
  ultimately show ?thesis using assms(1) by (simp add: PacketUDP_Parse_def Let_def b socks_consts)
qed

lemma ss_round_short:
  assumes "sp_localCipher sf = Some c" "length b < ivLen c"
  shows "\<exists>e. fst (ss_round env ue cl n can_dial l src b (sf, su)) = Inl e"
proof -
  have "length (take BindingSize b) < ivLen c" using assms(2) by simp
  then show ?thesis using assms(1) by (simp add: ss_round_def ss_packet_def Decrypt_def Let_def del: length_take)
qed

lemma ss_round_no_parent:
  assumes "ss_packet (pe_ss env) (sp_localCipher sf) (take BindingSize b) = Inr p" "cm_Get (su_cmap ue) src (su_related su) = None"
    "fst (ss_parent env cl src (PacketUDP_Addr p) sf) = Inl e"
  shows "\<exists>e. fst (ss_round env ue cl n can_dial l src b (sf, su)) = Inl e"
  using assms by (auto simp: ss_round_def Let_def split: prod.splits)

lemma assoc_long_domain:
  assumes "a < length (su_assocs su)" "host_of src = host_of (ua_remote (su_assocs su ! a))" "250 < length host" "length host \<le> 255" "ParseIP host = []"
    "length (udp_bytes host port d) \<le> BindingSize"
  shows "ua_ended (su_assocs (assoc_datagram ue [] pk n can_dial a src (udp_bytes host port d) su) ! a)"
  using assms Parse_long_domain [OF assms(3-5), of port d NewPacketUDP]
  by (simp add: assoc_datagram_def assoc_round_def client_packet_def Let_def assoc_clean_def split: option.splits)

lemma short_answer:
  assumes "j < length (su_outs su)" "uo_via (su_outs su ! j) = None" "length b < 3" "sp_udpParentKey sf = []"
  shows "su_outs (udp_answer env ue n rnd j b sf su) ! j = (su_outs su ! j)\<lparr>uo_answers := uo_answers (su_outs su ! j) @ [b], uo_reading := False\<rparr>"
  using assms by (simp add: udp_answer_def answer_to_ss_def slice_at_def Let_def su_set_nth reader_ends_def)

lemma lost_answer:
  assumes "j < length (su_outs su)" "uo_via (su_outs su ! j) = Some a" "ua_ended (su_assocs su ! a)"
  shows "uo_back (su_outs (udp_answer env ue n rnd j b sf su) ! j) = uo_back (su_outs su ! j)"
  using assms by (simp add: udp_answer_def Let_def su_set_nth reader_ends_def)

lemma garbled_answer:
  assumes "j < length (su_outs su)" "sp_udpParentKey sf \<noteq> []" "cfb_Decrypt ue (sp_udpParentKey sf) (take BindingSize b) = Inl e"
    "case uo_via (su_outs su ! j) of None \<Rightarrow> True | Some a \<Rightarrow> \<not> ua_ended (su_assocs su ! a)"
  shows "uo_back (su_outs (udp_answer env ue n rnd j b sf su) ! j) = uo_back (su_outs su ! j) @ [[]]"
  using assms by (auto simp: udp_answer_def answer_to_ss_def answer_to_socks_def Let_def su_set_nth split: option.splits)

subsection \<open>Properties\<close>

text \<open>Where the UDP relays fail. A datagram too short for the cipher, or a datagram of a new client while no parent can be reached, ends the shadowsocks relay of its listening address: from then on, in every
  state that can follow, every datagram of every client is ignored. A SOCKS5 packet for a host name of 251 to 255 bytes ends the association of its client. An answer of a
  parent with fewer than three bytes ends the goroutine of a shadowsocks client's socket, and an answer that cannot be decrypted is passed on as an empty datagram. A socket that outlives its association
  is used for the datagrams of a later one with the same source, and the answers on it are lost.\<close>

theorem sps_udp_anomalies:
  "(l < length (su_relays su) \<and> sp_localCipher sf = Some c \<and> length b < ivLen c \<and> (sudp_step env ue)\<^sup>*\<^sup>* (ss_datagram env ue cl n can_dial l src b (sf, su)) s \<longrightarrow>
     ss_datagram env ue cl' n' can_dial' l src' b' s = s) \<and>
   (l < length (su_relays su) \<and> ss_packet (pe_ss env) (sp_localCipher sf) (take BindingSize b) = Inr p \<and> cm_Get (su_cmap ue) src (su_related su) = None \<and>
     fst (ss_parent env cl src (PacketUDP_Addr p) sf) = Inl e \<and> (sudp_step env ue)\<^sup>*\<^sup>* (ss_datagram env ue cl n can_dial l src b (sf, su)) s \<longrightarrow>
     ss_datagram env ue cl' n' can_dial' l src' b' s = s) \<and>
   (a < length (su_assocs su) \<and> host_of src = host_of (ua_remote (su_assocs su ! a)) \<and> 250 < length host \<and> length host \<le> 255 \<and> ParseIP host = [] \<and>
     length (udp_bytes host port d) \<le> BindingSize \<longrightarrow>
     ua_ended (su_assocs (assoc_datagram ue [] pk n can_dial a src (udp_bytes host port d) su) ! a)) \<and>
   (j < length (su_outs su) \<and> uo_via (su_outs su ! j) = None \<and> length b < 3 \<and> sp_udpParentKey sf = [] \<longrightarrow>
     \<not> uo_reading (su_outs (udp_answer env ue n rnd j b sf su) ! j)) \<and>
   (j < length (su_outs su) \<and> sp_udpParentKey sf \<noteq> [] \<and> cfb_Decrypt ue (sp_udpParentKey sf) (take BindingSize b) = Inl e \<and>
     (case uo_via (su_outs su ! j) of None \<Rightarrow> True | Some a \<Rightarrow> \<not> ua_ended (su_assocs su ! a)) \<longrightarrow>
     uo_back (su_outs (udp_answer env ue n rnd j b sf su) ! j) = uo_back (su_outs su ! j) @ [[]]) \<and>
   (su_tab ue su \<and> cm_Get (su_cmap ue) src (su_related su) = Some (Some j) \<and> \<not> uo_closed (su_outs su ! j) \<and> uo_via (su_outs su ! j) = Some a0 \<and> ua_ended (su_assocs su ! a0) \<and>
     host_of src = host_of (ua_remote (su_assocs su ! a)) \<and> client_packet ue lk (take BindingSize b) = Inr p \<longrightarrow>
     (\<exists>su'. assoc_round ue lk pk n can_dial a src b su = (Inr (), su') \<and> udp_sent src (parent_datagram ue n pk p) su su') \<and>
     uo_back (su_outs (udp_answer env ue n rnd j b' sf su) ! j) = uo_back (su_outs su ! j))"
proof -
  have idle: "ss_datagram env ue cl' n' can_dial' l src' b' s = s"
    if "fst (ss_round env ue cl n can_dial l src b (sf, su)) = Inl e'" "l < length (su_relays su)"
      "(sudp_step env ue)\<^sup>*\<^sup>* (ss_datagram env ue cl n can_dial l src b (sf, su)) s" for e'
    using relay_ended_steps [OF that(3) ss_round_fails [OF that(1)]] that(2) by (simp add: relay_ended_def ss_datagram_def)
  have old: "j < length (su_outs su) \<and> udp_usable ue src can_dial su"
    if "su_tab ue su" "cm_Get (su_cmap ue) src (su_related su) = Some (Some j)" "\<not> uo_closed (su_outs su ! j)"
    using that by (simp add: su_tab_def udp_usable_def)
  show ?thesis
    apply (intro conjI impI; elim conjE)
    subgoal using idle ss_round_short [of sf c b env ue cl n can_dial l src su] by blast
    subgoal using idle ss_round_no_parent [of env sf b p ue src su cl e n can_dial l] by blast
    subgoal by (rule assoc_long_domain)
    subgoal using short_answer [of j su b sf env ue n rnd] by simp
    subgoal by (rule garbled_answer)
    subgoal using old by (intro assoc_round_sends) simp_all
    subgoal using old by (intro lost_answer) simp_all
    done
qed

theorem sps_udp_anomalies_witness:
  "relay_ended 0 (snd (ss_datagram example_sps_env example_udp_env ex_udp_call 0 True 0 ''10.0.0.9:5353'' [1] (ex_u0, ex_relay))) \<and>
   ss_datagram example_sps_env example_udp_env ex_udp_call 0 True 0 ''10.0.0.8:7000'' ex_datagram
     (ss_datagram example_sps_env example_udp_env ex_udp_call 0 True 0 ''10.0.0.9:5353'' [1] (ex_u0, ex_relay)) =
   ss_datagram example_sps_env example_udp_env ex_udp_call 0 True 0 ''10.0.0.9:5353'' [1] (ex_u0, ex_relay)"
proof -
  have f: "0 < length (su_relays ex_relay)" "length [1 :: byte] < ivLen ex_cipher" by (simp_all add: ex_relay_facts ex_packet)
  obtain e where "fst (ss_round example_sps_env example_udp_env ex_udp_call 0 True 0 ''10.0.0.9:5353'' [1] (ex_u0, ex_relay)) = Inl e"
    using ss_round_short [OF ex_u0_start(8) f(2)] by blast
  then have "relay_ended 0 (snd (ss_datagram example_sps_env example_udp_env ex_udp_call 0 True 0 ''10.0.0.9:5353'' [1] (ex_u0, ex_relay)))"
    using ss_round_fails f(1) by force
  then show ?thesis
    using sps_udp_anomalies [THEN conjunct1, of 0 ex_relay ex_u0 ex_cipher "[1]" example_sps_env example_udp_env ex_udp_call 0 True "''10.0.0.9:5353''"
        "ss_datagram example_sps_env example_udp_env ex_udp_call 0 True 0 ''10.0.0.9:5353'' [1] (ex_u0, ex_relay)" ex_udp_call 0 True "''10.0.0.8:7000''" ex_datagram]
      f ex_u0_start(8) by simp
qed

end
