(* ===== verification/Mux_Ends.thy ===== *)
theory Mux_Ends
  imports Bridge Httpc
begin

section \<open>services/mux/server.go and client.go: the two ends of the tunnel\<close>

text \<open>
  The server node listens for users. It keeps one session to the bridge and opens a stream on it
  for every user, on which it first sends a handshake that names the address to connect to. The
  client node keeps a session to the bridge as well, accepts the streams the bridge opens on it, reads
  the handshake and connects to the address in it.

  A session is an index into \<open>sv_sess\<close>, whose elements say whether it is closed; the connection to
  the bridge a session runs on has the same treatment in \<open>sv_parents\<close>. Dialling, the creation of a session and
  \<open>OpenStream\<close> succeed or fail as the arguments say. The validation of the configuration, the loading of
  certificates, \<open>url.Parse\<close> and \<open>extnet.SplitHostPort\<close> are parameters; \<open>proto.Marshal\<close> and \<open>proto.Unmarshal\<close>
  are those of the theory of the messages.
\<close>

subsection \<open>Configuration and route\<close>

record mux_config =
  mx_ParentType :: string
  mx_SecretKey :: string
  mx_CertFile :: string
  mx_KeyFile :: string
  mx_RawProxyURL :: string
  mx_Route :: string
  mx_isUDP :: bool
  mx_local :: string
  mx_remote_host :: string
  mx_remote_port :: "16 word"

record 'url mux_env =
  mx_Validate :: "mux_config \<Rightarrow> error option"
  mx_LoadPair :: "string \<Rightarrow> string \<Rightarrow> error option"
  mx_url_Parse :: "string \<Rightarrow> 'url result"
  mx_SplitHostPort :: "string \<Rightarrow> (string \<times> 16 word) result"

text \<open>The part that both ends share: \<open>Validate\<close>, the certificates and the proxy URL. (The server and the
  client have their own configuration types with these fields; a proxy URL is kept by the node.)\<close>

definition mux_inspect :: "'url mux_env \<Rightarrow> mux_config \<Rightarrow> 'url option result" where
  "mux_inspect env cfg =
     (case mx_Validate env cfg of
        Some e \<Rightarrow> Inl e
      | None \<Rightarrow>
          bindR (if mx_ParentType cfg = ''tls'' then
                   if mx_CertFile cfg = '''' \<or> mx_KeyFile cfg = '''' then Inl (ErrMsg ''cert file and key file required'')
                   else case mx_LoadPair env (mx_CertFile cfg) (mx_KeyFile cfg) of Some e \<Rightarrow> Inl e | None \<Rightarrow> Inr ()
                 else Inr ()) (\<lambda>_.
            if mx_RawProxyURL cfg \<noteq> '''' then
              if mx_ParentType cfg \<noteq> ''tls'' \<and> mx_ParentType cfg \<noteq> ''tcp'' then Inl (ErrMsg ''proxyURL only worked on tls or tcp'')
              else case ParseProxyURL (mx_url_Parse env) (mx_RawProxyURL cfg) of Inl _ \<Rightarrow> Inl (ErrMsg ''invalid proxyURL parameter'') | Inr u \<Rightarrow> Inr (Some u)
            else Inr None))"

definition mux_route :: "'url mux_env \<Rightarrow> mux_config \<Rightarrow> mux_config result" where
  "mux_route env cfg =
     (let cfg = (if has_prefix ''udp://'' (mx_Route cfg) then cfg\<lparr>mx_isUDP := True\<rparr> else cfg);
          info = trim_prefix ''tcp://'' (trim_prefix ''udp://'' (mx_Route cfg))
      in case split_on (CHR ''@'') info of
           [loc, rem] \<Rightarrow>
             if loc = '''' \<or> rem = '''' then Inl (ErrMsg ''invalid route format'')
             else bindR (mx_SplitHostPort env rem) (\<lambda>(h, p).
                    Inr (cfg\<lparr>mx_local := loc, mx_remote_host := h, mx_remote_port := p\<rparr>))
         | _ \<Rightarrow> Inl (ErrMsg ''invalid route format''))"

definition server_inspectConfig :: "'url mux_env \<Rightarrow> mux_config \<Rightarrow> (mux_config \<times> 'url option) result" where
  "server_inspectConfig env cfg =
     bindR (mux_inspect env cfg) (\<lambda>u. bindR (mux_route env cfg) (\<lambda>cfg. Inr (cfg, u)))"

definition client_inspectConfig :: "'url mux_env \<Rightarrow> mux_config \<Rightarrow> 'url option result" where
  "client_inspectConfig env cfg = mux_inspect env cfg"

subsection \<open>Messages\<close>

text \<open>The handshake message of the generated package \<open>ddt\<close>.\<close>

datatype Network = NetTCP | NetUDP

record hand =
  NodeId :: string
  SessionId :: string
  Protocol :: Network
  HandHost :: string
  HandPort :: "32 word"

definition server_nego :: "string \<Rightarrow> mux_config \<Rightarrow> nego NegotiateRequest" where
  "server_nego node cfg = \<lparr>nr_Types = TypesServer, nr_Version = through_Version, nr_Nego = \<lparr>SecretKey = mx_SecretKey cfg, NegoId = node\<rparr>\<rparr>"

definition client_nego :: "mux_config \<Rightarrow> nego NegotiateRequest" where
  "client_nego cfg = \<lparr>nr_Types = TypesClient, nr_Version = through_Version, nr_Nego = \<lparr>SecretKey = mx_SecretKey cfg, NegoId = ''reserved''\<rparr>\<rparr>"

definition server_hand :: "string \<Rightarrow> string \<Rightarrow> mux_config \<Rightarrow> hand HandshakeRequest" where
  "server_hand node sessId cfg = \<lparr>hr_Version = through_Version,
     hr_Hand = \<lparr>NodeId = node, SessionId = sessId, Protocol = (if mx_isUDP cfg then NetUDP else NetTCP),
                HandHost = mx_remote_host cfg, HandPort = ucast (mx_remote_port cfg)\<rparr>\<rparr>"

text \<open>The exchange with the bridge on a fresh connection, the same at both ends: the request is written
  and the reply read. The result is an error and whether the connection is closed for it.\<close>

definition bridge_reply :: "bytes \<Rightarrow> (error \<times> bool) option" where
  "bridge_reply input =
     (case ParseReply input of
        Inl e \<Rightarrow> Some (e, True)
      | Inr (tr, _) \<Rightarrow> if Status tr \<noteq> RepSuccess then Some (ErrMsg ''bridge response error'', False) else None)"

subsection \<open>The server node\<close>

record mux_server =
  sv_id :: string
  sv_cfg :: mux_config
  sv_sessions :: "nat option"
  sv_sess :: "bool list"
  sv_parents :: "bool list"
  sv_watchers :: nat
  sv_cancelled :: bool
  sv_listener :: bool

definition NewServer_mux :: "string \<Rightarrow> mux_config \<Rightarrow> mux_server" where
  "NewServer_mux node cfg = \<lparr>sv_id = node, sv_cfg = cfg, sv_sessions = None, sv_sess = [], sv_parents = [], sv_watchers = 0,
     sv_cancelled = False, sv_listener = True\<rparr>"

text \<open>What the environment does in one call of \<open>GetConn\<close>.\<close>

record getconn_env =
  g_dial :: "error option"
  g_write :: "error option"
  g_reply :: bytes
  g_smux :: "error option"
  g_open :: "error option"

text \<open>A new connection to the bridge, closed or left open.\<close>

definition add_parent :: "bool \<Rightarrow> mux_server \<Rightarrow> mux_server" where
  "add_parent is_closed sv = sv\<lparr>sv_parents := sv_parents sv @ [is_closed]\<rparr>"

text \<open>The last part of \<open>GetConn\<close>: a stream on the current session, which is given up when that fails.\<close>

definition open_stream :: "error option \<Rightarrow> nat \<Rightarrow> mux_server \<Rightarrow> nat result \<times> mux_server" where
  "open_stream open_err i sv =
     (case (if sv_sess sv ! i then Some ErrClosedPipe else open_err) of
        None \<Rightarrow> (Inr i, sv)
      | Some e \<Rightarrow> (Inl e, sv\<lparr>sv_sess := (sv_sess sv)[i := True], sv_sessions := None\<rparr>))"

definition GetConn :: "(nego \<Rightarrow> bytes result) \<Rightarrow> getconn_env \<Rightarrow> mux_server \<Rightarrow> nat result \<times> bytes \<times> mux_server" where
  "GetConn marshal g sv =
     (case sv_sessions sv of
        Some i \<Rightarrow> (case open_stream (g_open g) i sv of (r, sv) \<Rightarrow> (r, [], sv))
      | None \<Rightarrow>
          (case g_dial g of
             Some e \<Rightarrow> (Inl e, [], sv)
           | None \<Rightarrow>
               (case NegotiateRequest_Bytes marshal (server_nego (sv_id sv) (sv_cfg sv)) of
                  Inl e \<Rightarrow> (Inl e, [], add_parent False sv)
                | Inr d \<Rightarrow>
                    (case g_write g of
                       Some e \<Rightarrow> (Inl e, [], add_parent True sv)
                     | None \<Rightarrow>
                         (case bridge_reply (g_reply g) of
                            Some (e, is_closed) \<Rightarrow> (Inl e, d, add_parent is_closed sv)
                          | None \<Rightarrow>
                              (case g_smux g of
                                 Some e \<Rightarrow> (Inl e, d, add_parent False sv)
                               | None \<Rightarrow>
                                   (let i = length (sv_sess sv);
                                        sv = (add_parent False sv)\<lparr>sv_sessions := Some i, sv_sess := sv_sess sv @ [False], sv_watchers := Suc (sv_watchers sv)\<rparr>
                                    in case open_stream (g_open g) i sv of (r, sv) \<Rightarrow> (r, d, sv))))))))"

text \<open>The stream, and what is written on it before the user's bytes.\<close>

definition dialThroughRemote ::
  "(nego \<Rightarrow> bytes result) \<Rightarrow> (hand \<Rightarrow> bytes result) \<Rightarrow> string \<Rightarrow> getconn_env \<Rightarrow> error option \<Rightarrow> mux_server \<Rightarrow> (nat \<times> bytes) result \<times> mux_server" where
  "dialThroughRemote marshal marshal_hand sessId g werr sv =
     (case GetConn marshal g sv of
        (Inl e, _, sv) \<Rightarrow> (Inl e, sv)
      | (Inr i, _, sv) \<Rightarrow>
          (case HandshakeRequest_Bytes marshal_hand (server_hand (sv_id sv) sessId (sv_cfg sv)) of
             Inl e \<Rightarrow> (Inl e, sv)
           | Inr b \<Rightarrow> (case werr of Some e \<Rightarrow> (Inl e, sv) | None \<Rightarrow> (Inr (i, b), sv))))"

text \<open>A tick of the goroutine that was started with a session: a closed current session is forgotten and the
  goroutine ends.\<close>

definition watch_tick :: "mux_server \<Rightarrow> mux_server" where
  "watch_tick sv =
     (case sv_sessions sv of
        Some i \<Rightarrow> if sv_sess sv ! i then sv\<lparr>sv_sessions := None, sv_watchers := sv_watchers sv - 1\<rparr> else sv
      | None \<Rightarrow> sv)"

definition server_Stop :: "mux_server \<Rightarrow> mux_server" where
  "server_Stop sv =
     sv\<lparr>sv_cancelled := True, sv_listener := False,
        sv_sess := (case sv_sessions sv of None \<Rightarrow> sv_sess sv | Some i \<Rightarrow> (sv_sess sv)[i := True])\<rparr>"

inductive server_step :: "(nego \<Rightarrow> bytes result) \<Rightarrow> mux_server \<Rightarrow> mux_server \<Rightarrow> bool" for marshal :: "nego \<Rightarrow> bytes result" where
  v_get: "server_step marshal sv (snd (snd (GetConn marshal g sv)))"
| v_gone: "i < length (sv_sess sv) \<Longrightarrow> server_step marshal sv (sv\<lparr>sv_sess := (sv_sess sv)[i := True]\<rparr>)"
| v_tick: "0 < sv_watchers sv \<Longrightarrow> server_step marshal sv (watch_tick sv)"
| v_cancelled: "sv_cancelled sv \<Longrightarrow> 0 < sv_watchers sv \<Longrightarrow> server_step marshal sv (sv\<lparr>sv_watchers := sv_watchers sv - 1\<rparr>)"
| v_stop: "server_step marshal sv (server_Stop sv)"

inductive server_reach :: "(nego \<Rightarrow> bytes result) \<Rightarrow> mux_server \<Rightarrow> bool" for marshal :: "nego \<Rightarrow> bytes result" where
  v_new: "server_reach marshal (NewServer_mux node cfg)"
| v_step: "server_reach marshal sv \<Longrightarrow> server_step marshal sv sv' \<Longrightarrow> server_reach marshal sv'"

subsection \<open>The client node\<close>

text \<open>One attempt to register at the bridge: what is written, and whether a session comes about.\<close>

definition client_register :: "(nego \<Rightarrow> bytes result) \<Rightarrow> getconn_env \<Rightarrow> mux_config \<Rightarrow> unit result \<times> bytes" where
  "client_register marshal g cfg =
     (case g_dial g of
        Some e \<Rightarrow> (Inl e, [])
      | None \<Rightarrow>
          (case NegotiateRequest_Bytes marshal (client_nego cfg) of
             Inl e \<Rightarrow> (Inl e, [])
           | Inr d \<Rightarrow>
               (case g_write g of
                  Some e \<Rightarrow> (Inl e, [])
                | None \<Rightarrow>
                    (case bridge_reply (g_reply g) of
                       Some (e, _) \<Rightarrow> (Inl e, d)
                     | None \<Rightarrow> ((case g_smux g of Some e \<Rightarrow> Inl e | None \<Rightarrow> Inr ()), d)))))"

text \<open>The goroutine of an accepted stream: what it connects to, and the bytes that follow the handshake.\<close>

definition client_stream :: "(bytes \<Rightarrow> hand result) \<Rightarrow> bytes \<Rightarrow> (Network \<times> string \<times> string \<times> bytes) result" where
  "client_stream unmarshal_hand input =
     bindR (ParseHandshakeRequest unmarshal_hand input) (\<lambda>(h, r).
       Inr (Protocol (hr_Hand h), JoinHostPort (HandHost (hr_Hand h)) (dec_str (unat (HandPort (hr_Hand h)))), SessionId (hr_Hand h), r))"

subsection \<open>One session at a time\<close>

definition lone :: "bool list \<Rightarrow> nat option \<Rightarrow> bool" where
  "lone ss cur \<longleftrightarrow> (\<forall>i < length ss. \<not> ss ! i \<longrightarrow> cur = Some i) \<and> (\<forall>i. cur = Some i \<longrightarrow> i < length ss)"

definition server_inv :: "mux_server \<Rightarrow> bool" where
  "server_inv sv \<longleftrightarrow> lone (sv_sess sv) (sv_sessions sv) \<and> (sv_sessions sv \<noteq> None \<and> \<not> sv_cancelled sv \<longrightarrow> 0 < sv_watchers sv)"

lemma nth_True: "j < length xs \<Longrightarrow> (xs[i := True]) ! j = (i = j \<or> xs ! j)"
  by (cases "i = j") simp_all

lemma lone_closed: "lone ss cur \<Longrightarrow> lone (ss[i := True]) cur"
  unfolding lone_def by (metis length_list_update nth_True)

lemma lone_given_up: "lone ss (Some i) \<Longrightarrow> lone (ss[i := True]) None"
  unfolding lone_def by (metis length_list_update nth_True option.distinct(1) option.inject)

lemma lone_forgotten: "lone ss (Some i) \<Longrightarrow> ss ! i \<Longrightarrow> lone ss None"
  unfolding lone_def by (metis option.distinct(1) option.inject)

lemma lone_new: "lone ss None \<Longrightarrow> lone (ss @ [False]) (Some (length ss))"
  unfolding lone_def by (auto simp: nth_append less_Suc_eq)

lemma server_inv_parent [simp]: "server_inv (add_parent b sv) = server_inv sv"
  by (simp add: server_inv_def add_parent_def)

lemma server_inv_open:
  assumes "server_inv sv" "sv_sessions sv = Some i"
  shows "server_inv (snd (open_stream e i sv))"
  using assms lone_given_up [of "sv_sess sv" i] by (simp add: server_inv_def open_stream_def split: option.split)

lemma server_inv_GetConn:
  assumes "server_inv sv"
  shows "server_inv (snd (snd (GetConn marshal g sv)))"
proof (cases "sv_sessions sv")
  case (Some i)
  then show ?thesis using server_inv_open [OF assms Some] by (simp add: GetConn_def case_prod_beta)
next
  case None
  define sv' where "sv' = (add_parent False sv)\<lparr>sv_sessions := Some (length (sv_sess sv)), sv_sess := sv_sess sv @ [False], sv_watchers := Suc (sv_watchers sv)\<rparr>"
  have "server_inv sv'" using assms None lone_new by (simp add: server_inv_def sv'_def)
  then have "server_inv (snd (open_stream (g_open g) (length (sv_sess sv)) sv'))"
    by (rule server_inv_open) (simp add: sv'_def)
  then show ?thesis using assms None
    by (simp add: GetConn_def sv'_def [symmetric] Let_def case_prod_beta split: option.split sum.split)
qed

lemma server_inv_closed: "server_inv sv \<Longrightarrow> server_inv (sv\<lparr>sv_sess := (sv_sess sv)[i := True]\<rparr>)"
  by (simp add: server_inv_def lone_closed)

lemma server_inv_Stop: "server_inv sv \<Longrightarrow> server_inv (server_Stop sv)"
  by (cases "sv_sessions sv") (simp_all add: server_inv_def server_Stop_def lone_closed)

lemma server_inv_tick: "server_inv sv \<Longrightarrow> server_inv (watch_tick sv)"
  by (cases "sv_sessions sv") (auto simp: server_inv_def watch_tick_def dest: lone_forgotten)

lemma server_reach_inv: "server_reach marshal sv \<Longrightarrow> server_inv sv"
proof (induction rule: server_reach.induct)
  case (v_new node cfg)
  then show ?case by (simp add: server_inv_def lone_def NewServer_mux_def)
next
  case (v_step sv sv')
  from v_step.hyps(2) v_step.IH show ?case
  proof (induction rule: server_step.induct)
    case (v_get sv g)
    then show ?case by (rule server_inv_GetConn)
  next
    case (v_cancelled sv)
    then show ?case by (simp add: server_inv_def)
  qed (simp_all add: server_inv_closed server_inv_tick server_inv_Stop)
qed

text \<open>An environment in which everything succeeds, with a given reply of the bridge.\<close>

definition good_env :: "bytes \<Rightarrow> getconn_env" where
  "good_env reply = \<lparr>g_dial = None, g_write = None, g_reply = reply, g_smux = None, g_open = None\<rparr>"

lemma bridge_reply_SendReply [simp]: "bridge_reply (SendReply s v) = (if s = RepSuccess then None else Some (ErrMsg ''bridge response error'', False))"
  by (simp add: bridge_reply_def SendReply_def ParseReply_def)

lemma GetConn_good:
  assumes "server_inv sv" "NegotiateRequest_Bytes marshal (server_nego (sv_id sv) (sv_cfg sv)) = Inr d"
  shows "GetConn marshal (good_env (SendReply RepSuccess v)) sv =
    (case sv_sessions sv of
       None \<Rightarrow> (Inr (length (sv_sess sv)), d,
                (add_parent False sv)\<lparr>sv_sessions := Some (length (sv_sess sv)), sv_sess := sv_sess sv @ [False], sv_watchers := Suc (sv_watchers sv)\<rparr>)
     | Some i \<Rightarrow> if sv_sess sv ! i then (Inl ErrClosedPipe, [], sv\<lparr>sv_sess := (sv_sess sv)[i := True], sv_sessions := None\<rparr>)
                 else (Inr i, [], sv))"
  using assms(2) by (simp add: GetConn_def good_env_def open_stream_def Let_def split: option.split)

lemma nego_wire:
  assumes "proto_ok mn un" "fits mn (nr_Nego q)"
  obtains d where "NegotiateRequest_Bytes mn q = Inr d" "\<And>r. ParseNegotiateRequest un (d @ r) = Inr (q, r)"
proof -
  obtain x where x: "mn (nr_Nego q) = Inr x" "length x \<le> max_data" using assms(2) by (auto simp: fits_def)
  let ?q = "\<lparr>Types = nr_Types q, Version = nr_Version q, ReqData = x\<rparr>"
  have "wf_request ?q" using x by (simp add: wf_request_def)
  then obtain d where d: "Request_Bytes ?q = Inr d" using request_codec.enc_ok by metis
  have "un x = Inr (nr_Nego q)" using assms(1) x by (auto simp: proto_ok_def)
  then have "ParseNegotiateRequest un (d @ r) = Inr (q, r)" for r
    using request_frame [OF d, of r] by (simp add: ParseNegotiateRequest_def bindP_def)
  then show thesis using that d x by (simp add: NegotiateRequest_Bytes_def)
qed

lemma hand_wire:
  assumes "proto_ok mh uh" "fits mh (hr_Hand q)"
  obtains d where "HandshakeRequest_Bytes mh q = Inr d" "\<And>r. ParseHandshakeRequest uh (d @ r) = Inr (q, r)"
proof -
  obtain x where x: "mh (hr_Hand q) = Inr x" "length x \<le> max_data" using assms(2) by (auto simp: fits_def)
  let ?q = "\<lparr>Types = 0, Version = hr_Version q, ReqData = x\<rparr>"
  have "wf_request ?q" using x by (simp add: wf_request_def)
  then obtain d where d: "Request_Bytes ?q = Inr d" using request_codec.enc_ok by metis
  have "uh x = Inr (hr_Hand q)" using assms(1) x by (auto simp: proto_ok_def)
  then have "ParseHandshakeRequest uh (d @ r) = Inr (q, r)" for r
    using request_frame [OF d, of r] by (simp add: ParseHandshakeRequest_def bindP_def)
  then show thesis using that d x by (simp add: HandshakeRequest_Bytes_def)
qed

text \<open>A prefix that has a character outside of the first part and lacks the separator is not a prefix of the whole.\<close>

lemma not_prefix_of_route:
  assumes "x \<in> set pre" "x \<notin> set a" "c \<notin> set pre"
  shows "\<not> has_prefix pre (a @ c # b)"
proof
  assume "has_prefix pre (a @ c # b)"
  then obtain t where t: "a @ c # b = pre @ t" by (auto simp: has_prefix_ex)
  then obtain us where "a @ us = pre \<and> c # b = us @ t \<or> a = pre @ us \<and> us @ c # b = t" by (auto simp: append_eq_append_conv2)
  then show False
  proof
    assume "a @ us = pre \<and> c # b = us @ t"
    then show False using assms by (cases us) auto
  next
    assume "a = pre @ us \<and> us @ c # b = t"
    then show False using assms(1,2) by auto
  qed
qed

lemma mux_route_parts:
  assumes "mx_Route cfg = scheme @ loc @ ''@'' @ rem" "scheme \<in> {''tcp://'', ''udp://''}"
    and "CHR ''@'' \<notin> set loc" "CHR ''@'' \<notin> set rem" "CHR ''/'' \<notin> set loc" "loc \<noteq> ''''" "rem \<noteq> ''''"
    and "mx_SplitHostPort env rem = Inr (h, p)"
  shows "mux_route env cfg = Inr ((if scheme = ''udp://'' then cfg\<lparr>mx_isUDP := True\<rparr> else cfg)
    \<lparr>mx_local := loc, mx_remote_host := h, mx_remote_port := p\<rparr>)"
proof -
  define s where "s = loc @ CHR ''@'' # rem"
  have np: "\<not> has_prefix ''tcp://'' s" "\<not> has_prefix ''udp://'' s"
    unfolding s_def by (rule not_prefix_of_route [of "CHR ''/''"]; use assms(5) in simp)+
  have u: "has_prefix ''udp://'' (scheme @ s) = (scheme = ''udp://'')" using assms(2) by (auto simp: has_prefix_def)
  have t: "trim_prefix ''tcp://'' (trim_prefix ''udp://'' (scheme @ s)) = s"
    using assms(2) np by (auto simp: trim_prefix_def has_prefix_def)
  have sp: "split_on (CHR ''@'') s = [loc, rem]" using assms(3,4) by (simp add: s_def split_on_two_iff)
  have R: "mx_Route cfg = scheme @ s" using assms(1) by (simp add: s_def)
  show ?thesis using assms(6-8) t [folded R] u [folded R] sp by (simp add: mux_route_def Let_def)
qed

lemma bridge_takes_server:
  "ParseNegotiateRequest un d = Inr (server_nego node cfg, r) \<Longrightarrow> bridge_handler un cm a d ok b =
     (if ok then ((SendReply RepSuccess through_Version, False), add_server cm a \<lparr>SecretKey = mx_SecretKey cfg, NegoId = node\<rparr> b)
      else ((SendReply RepServerFailure through_Version, True), b))"
  by (simp add: bridge_handler_def server_nego_def SendReply_def)

lemma bridge_takes_client:
  "ParseNegotiateRequest un d = Inr (client_nego cfg, r) \<Longrightarrow> bridge_handler un cm a d ok b =
     (if ok then ((SendReply RepSuccess through_Version, False), add_client cm \<lparr>SecretKey = mx_SecretKey cfg, NegoId = ''reserved''\<rparr> b)
      else ((SendReply RepServerFailure through_Version, True), b))"
  by (simp add: bridge_handler_def client_nego_def TypesClient_def TypesServer_def)

lemma GetConn_first:
  assumes "sv_sessions sv = None" "NegotiateRequest_Bytes mn (server_nego (sv_id sv) (sv_cfg sv)) = Inr d"
  shows "fst (GetConn mn (good_env (SendReply s v)) sv) = (if s = RepSuccess then Inr (length (sv_sess sv)) else Inl (ErrMsg ''bridge response error''))"
  using assms by (simp add: GetConn_def good_env_def open_stream_def Let_def)

lemma client_register_reply:
  "NegotiateRequest_Bytes mn (client_nego cfg) = Inr e \<Longrightarrow> client_register mn (good_env (SendReply s v)) cfg =
     (if s = RepSuccess then Inr () else Inl (ErrMsg ''bridge response error''), e)"
  by (simp add: client_register_def good_env_def)

subsection \<open>Properties\<close>

text \<open>C7. The tunnel leads where the route says. For a route \<open>scheme://local@host:port\<close>: the negotiation that
  the server node writes is taken by the bridge as that of a server node with its secret key, the one of
  the client node as that of a client node with its secret key, and the reply of the bridge makes either of
  them go on; a bridge that cannot make a session makes both fail. What the server node writes on a new stream is
  read by the client node as the host and port and the protocol of the route, and the bytes of the user
  follow untouched.\<close>

theorem mux_tunnel:
  assumes proto: "proto_ok mn un" "proto_ok mh uh"
    and route: "mx_Route cfg = scheme @ loc @ ''@'' @ rem" "scheme \<in> {''tcp://'', ''udp://''}"
      "CHR ''@'' \<notin> set loc" "CHR ''@'' \<notin> set rem" "CHR ''/'' \<notin> set loc" "loc \<noteq> ''''" "rem \<noteq> ''''"
      "mx_SplitHostPort env rem = Inr (h, p)" "\<not> mx_isUDP cfg"
    and fit: "fits mn \<lparr>SecretKey = mx_SecretKey cfg, NegoId = node\<rparr>" "fits mn \<lparr>SecretKey = mx_SecretKey ccfg, NegoId = ''reserved''\<rparr>"
      "\<And>x. fits mh \<lparr>NodeId = node, SessionId = sid, Protocol = x, HandHost = h, HandPort = ucast p\<rparr>"
  shows "\<exists>scfg d e w. mux_route env cfg = Inr scfg \<and> mx_local scfg = loc \<and>
    NegotiateRequest_Bytes mn (server_nego node scfg) = Inr d \<and> NegotiateRequest_Bytes mn (client_nego ccfg) = Inr e \<and>
    (\<forall>cm a b sv. sv_sessions sv = None \<and> sv_id sv = node \<and> sv_cfg sv = scfg \<longrightarrow>
       (\<exists>reply. bridge_handler un cm a d True b = ((reply, False), add_server cm a \<lparr>SecretKey = mx_SecretKey cfg, NegoId = node\<rparr> b) \<and>
          fst (GetConn mn (good_env reply) sv) = Inr (length (sv_sess sv))) \<and>
       (\<exists>reply. bridge_handler un cm a d False b = ((reply, True), b) \<and>
          fst (GetConn mn (good_env reply) sv) = Inl (ErrMsg ''bridge response error''))) \<and>
    (\<forall>cm a b. (\<exists>reply. bridge_handler un cm a e True b =
          ((reply, False), add_client cm \<lparr>SecretKey = mx_SecretKey ccfg, NegoId = ''reserved''\<rparr> b) \<and>
          client_register mn (good_env reply) ccfg = (Inr (), e)) \<and>
       (\<exists>reply. bridge_handler un cm a e False b = ((reply, True), b) \<and>
          fst (client_register mn (good_env reply) ccfg) = Inl (ErrMsg ''bridge response error''))) \<and>
    HandshakeRequest_Bytes mh (server_hand node sid scfg) = Inr w \<and>
    (\<forall>r. client_stream uh (w @ r) =
       Inr (if scheme = ''udp://'' then NetUDP else NetTCP, JoinHostPort h (dec_str (unat p)), sid, r))"
proof -
  define scfg where "scfg = (if scheme = ''udp://'' then cfg\<lparr>mx_isUDP := True\<rparr> else cfg)\<lparr>mx_local := loc, mx_remote_host := h, mx_remote_port := p\<rparr>"
  note rt = mux_route_parts [OF route(1-8), folded scfg_def]
  have f: "mx_SecretKey scfg = mx_SecretKey cfg" "mx_remote_host scfg = h" "mx_remote_port scfg = p" "mx_isUDP scfg = (scheme = ''udp://'')" "mx_local scfg = loc"
    using route(9) by (simp_all add: scfg_def)
  obtain d where d: "NegotiateRequest_Bytes mn (server_nego node scfg) = Inr d" "\<And>r. ParseNegotiateRequest un (d @ r) = Inr (server_nego node scfg, r)"
    using nego_wire [OF proto(1), of "server_nego node scfg"] fit(1) f(1) by (auto simp: server_nego_def)
  obtain e where e: "NegotiateRequest_Bytes mn (client_nego ccfg) = Inr e" "\<And>r. ParseNegotiateRequest un (e @ r) = Inr (client_nego ccfg, r)"
    using nego_wire [OF proto(1), of "client_nego ccfg"] fit(2) by (auto simp: client_nego_def)
  obtain w where w: "HandshakeRequest_Bytes mh (server_hand node sid scfg) = Inr w" "\<And>r. ParseHandshakeRequest uh (w @ r) = Inr (server_hand node sid scfg, r)"
    using hand_wire [OF proto(2), of "server_hand node sid scfg"] fit(3) f by (auto simp: server_hand_def)
  have "unat p < 65536" using unsigned_less [of p, where ?'a = nat] by simp
  then have "unat (ucast p :: 32 word) = unat p" by (simp add: unsigned_ucast_eq take_bit_nat_eq_self)
  then have stream: "\<forall>r. client_stream uh (w @ r) = Inr (if scheme = ''udp://'' then NetUDP else NetTCP, JoinHostPort h (dec_str (unat p)), sid, r)"
    using w(2) f by (simp add: client_stream_def server_hand_def)
  have bad: "RepServerFailure \<noteq> RepSuccess" by (simp add: RepServerFailure_def RepSuccess_def)
  note D = bridge_takes_server [OF d(2) [of "[]", unfolded append_Nil2]] and E = bridge_takes_client [OF e(2) [of "[]", unfolded append_Nil2]]
  show ?thesis
    using rt f(5) d(1) e(1) w(1) stream by (intro exI [of _ scfg] exI [of _ d] exI [of _ e] exI [of _ w])
      (simp add: D E GetConn_first client_register_reply bad f(1))
qed

subsection \<open>An example\<close>

definition ex_cfg :: mux_config where
  "ex_cfg = \<lparr>mx_ParentType = ''tcp'', mx_SecretKey = ''k'', mx_CertFile = '''', mx_KeyFile = '''', mx_RawProxyURL = '''',
     mx_Route = ''udp://:5353@10.0.0.9:53'', mx_isUDP = False, mx_local = '''', mx_remote_host = '''', mx_remote_port = 0\<rparr>"

definition ex_mux_env :: "unit mux_env" where
  "ex_mux_env = \<lparr>mx_Validate = (\<lambda>_. None), mx_LoadPair = (\<lambda>_ _. None), mx_url_Parse = (\<lambda>_. Inl EOF),
     mx_SplitHostPort = (\<lambda>_. Inr (''10.0.0.9'', 53))\<rparr>"

text \<open>Messages of two kinds, each encoded by one byte.\<close>

definition two_marshal :: "'a \<Rightarrow> 'a \<Rightarrow> 'a \<Rightarrow> bytes result" where
  "two_marshal a b x = (if x = a then Inr [1] else if x = b then Inr [2] else Inl EOF)"

definition two_unmarshal :: "'a \<Rightarrow> 'a \<Rightarrow> bytes \<Rightarrow> 'a result" where
  "two_unmarshal a b d = (if d = [1] then Inr a else if d = [2] then Inr b else Inl EOF)"

lemma two_proto: "proto_ok (two_marshal a b) (two_unmarshal a b)"
  by (auto simp: proto_ok_def two_marshal_def two_unmarshal_def split: if_splits)

lemma two_fits: "fits (two_marshal a b) a" "fits (two_marshal a b) b"
  by (auto simp: fits_def two_marshal_def max_data_def)

abbreviation ex_mn :: "nego \<Rightarrow> bytes result" where
  "ex_mn \<equiv> two_marshal \<lparr>SecretKey = ''k'', NegoId = ''n''\<rparr> \<lparr>SecretKey = ''k'', NegoId = ''reserved''\<rparr>"

abbreviation ex_hand :: "Network \<Rightarrow> hand" where
  "ex_hand x \<equiv> \<lparr>NodeId = ''n'', SessionId = ''s'', Protocol = x, HandHost = ''10.0.0.9'', HandPort = ucast (53 :: 16 word)\<rparr>"

theorem mux_tunnel_witness:
  "\<exists>scfg w. mux_route ex_mux_env ex_cfg = Inr scfg \<and> mx_local scfg = '':5353'' \<and>
     HandshakeRequest_Bytes (two_marshal (ex_hand NetTCP) (ex_hand NetUDP)) (server_hand ''n'' ''s'' scfg) = Inr w \<and>
     client_stream (two_unmarshal (ex_hand NetTCP) (ex_hand NetUDP)) (w @ [7]) = Inr (NetUDP, ''10.0.0.9:53'', ''s'', [7])"
proof -
  have fit: "fits (two_marshal (ex_hand NetTCP) (ex_hand NetUDP)) (ex_hand x)" for x by (cases x) (simp_all add: two_fits)
  have "JoinHostPort ''10.0.0.9'' (dec_str (unat (53 :: 16 word))) = ''10.0.0.9:53''" by code_simp
  then show ?thesis
    using mux_tunnel [OF two_proto two_proto, of ex_cfg "''udp://''" "'':5353''" "''10.0.0.9:53''" ex_mux_env "''10.0.0.9''" 53
        "\<lparr>SecretKey = ''k'', NegoId = ''n''\<rparr>" "\<lparr>SecretKey = ''k'', NegoId = ''reserved''\<rparr>" "''n''" ex_cfg "ex_hand NetTCP" "ex_hand NetUDP" "''s''",
        OF _ _ _ _ _ _ _ _ _ _ _ fit]
    by (fastforce simp: ex_cfg_def ex_mux_env_def two_fits)
qed

text \<open>The result of \<open>GetConn\<close>: a stream on a live session that is the current one.\<close>

definition live_stream :: "nat result \<times> bytes \<times> mux_server \<Rightarrow> bool" where
  "live_stream x = (case x of
     (Inr i, _, sv) \<Rightarrow> i < length (sv_sess sv) \<and> \<not> sv_sess sv ! i \<and> sv_sessions sv = Some i
   | (Inl _, _, _) \<Rightarrow> False)"

definition get_ok :: "(nego \<Rightarrow> bytes result) \<Rightarrow> mux_server \<Rightarrow> nat result \<times> bytes \<times> mux_server" where
  "get_ok marshal sv = GetConn marshal (good_env (SendReply RepSuccess through_Version)) sv"

lemma get_ok_first:
  assumes "server_inv sv" "NegotiateRequest_Bytes marshal (server_nego (sv_id sv) (sv_cfg sv)) = Inr d" "sv_sessions sv = None"
  shows "live_stream (get_ok marshal sv)"
  using GetConn_good [OF assms(1,2)] assms(3) by (simp add: get_ok_def live_stream_def nth_append add_parent_def)

lemma get_ok_again:
  assumes "server_inv sv" "NegotiateRequest_Bytes marshal (server_nego (sv_id sv) (sv_cfg sv)) = Inr d" "sv_sessions sv = Some i"
  shows "if sv_sess sv ! i then live_stream (get_ok marshal (snd (snd (get_ok marshal sv)))) else live_stream (get_ok marshal sv)"
proof (cases "sv_sess sv ! i")
  case True
  define sv1 where "sv1 = snd (snd (get_ok marshal sv))"
  have "sv_sessions sv1 = None" "sv_id sv1 = sv_id sv" "sv_cfg sv1 = sv_cfg sv"
    using GetConn_good [OF assms(1,2)] assms(3) True by (simp_all add: sv1_def get_ok_def)
  moreover have "server_inv sv1" unfolding sv1_def get_ok_def by (rule server_inv_GetConn [OF assms(1)])
  ultimately have "live_stream (get_ok marshal sv1)" using get_ok_first [of sv1] assms(2) by simp
  then show ?thesis using True by (simp add: sv1_def)
next
  case False
  then show ?thesis using GetConn_good [OF assms(1,2)] assms(1,3) by (simp add: get_ok_def live_stream_def server_inv_def lone_def)
qed

text \<open>C17. The session of the server node. However dialling, streams, the loss of sessions, the ticks of the watching
  goroutines and \<open>Stop\<close> are interleaved: at most one session is alive, it is the current one, and a goroutine watches it
  unless the node was stopped. With a bridge that accepts, \<open>GetConn\<close> returns a stream on a live session, at the
  second call at the latest, the first one being used up by a session that was lost. A refusal of the
  bridge leaves the new connection to it open and unused.\<close>

theorem mux_session_recovers:
  assumes "server_reach marshal sv" "NegotiateRequest_Bytes marshal (server_nego (sv_id sv) (sv_cfg sv)) = Inr d"
  shows "(\<forall>i < length (sv_sess sv). \<not> sv_sess sv ! i \<longrightarrow> sv_sessions sv = Some i \<and> (sv_cancelled sv \<or> 0 < sv_watchers sv)) \<and>
    (live_stream (get_ok marshal sv) \<or> live_stream (get_ok marshal (snd (snd (get_ok marshal sv))))) \<and>
    (\<forall>s v. s \<noteq> RepSuccess \<and> sv_sessions sv = None \<longrightarrow>
       snd (snd (GetConn marshal (good_env (SendReply s v)) sv)) = sv\<lparr>sv_parents := sv_parents sv @ [False]\<rparr>)"
proof (intro conjI)
  note inv = server_reach_inv [OF assms(1)]
  show "\<forall>i < length (sv_sess sv). \<not> sv_sess sv ! i \<longrightarrow> sv_sessions sv = Some i \<and> (sv_cancelled sv \<or> 0 < sv_watchers sv)"
    using inv unfolding server_inv_def lone_def by (metis option.distinct(1))
  show "live_stream (get_ok marshal sv) \<or> live_stream (get_ok marshal (snd (snd (get_ok marshal sv))))"
    using get_ok_first [OF inv assms(2)] get_ok_again [OF inv assms(2)] by (cases "sv_sessions sv") (auto split: if_splits)
  show "\<forall>s v. s \<noteq> RepSuccess \<and> sv_sessions sv = None \<longrightarrow>
       snd (snd (GetConn marshal (good_env (SendReply s v)) sv)) = sv\<lparr>sv_parents := sv_parents sv @ [False]\<rparr>"
    using assms(2) by (simp add: GetConn_def good_env_def add_parent_def)
qed

theorem mux_session_recovers_witness:
  "server_reach ex_mn (NewServer_mux ''n'' ex_cfg) \<and>
   (live_stream (get_ok ex_mn (NewServer_mux ''n'' ex_cfg)) \<or>
    live_stream (get_ok ex_mn (snd (snd (get_ok ex_mn (NewServer_mux ''n'' ex_cfg))))))"
proof -
  obtain d where "NegotiateRequest_Bytes ex_mn (server_nego ''n'' ex_cfg) = Inr d"
    using nego_wire [OF two_proto, of "\<lparr>SecretKey = ''k'', NegoId = ''n''\<rparr>" "\<lparr>SecretKey = ''k'', NegoId = ''reserved''\<rparr>" "server_nego ''n'' ex_cfg"]
    by (auto simp: server_nego_def ex_cfg_def two_fits)
  then show ?thesis
    using mux_session_recovers [OF v_new, of ex_mn "''n''" ex_cfg d] v_new by (simp add: NewServer_mux_def)
qed

end
