(* ===== verification/Mux_Tcp.thy ===== *)
theory Mux_Tcp
  imports Mux_Ends Routing Binding "HOL-Library.Sublist"
begin

section \<open>services/mux: starting the nodes, and TCP through the tunnel\<close>

text \<open>
  \<open>Start\<close> of both nodes, the loop in which the client node keeps its session to the bridge, and the handlers that join a connection of a user to a stream
  (\<open>handleTCP\<close> of the server node) and a stream to its target (\<open>proxyTCP\<close> of the client node). A stream is a connection of Go\_Conn: its \<open>inbox\<close> is what the
  other end of the stream sends. \<open>backoff.Retry\<close> is the parameter \<open>retry\<close>, as in Routing.
\<close>

subsection \<open>Server.Start and handleTCP\<close>

text \<open>Whether the local address resolves and can be listened on. A node that does not start is cancelled and has no listener.\<close>

record listen_env =
  le_Resolve :: "error option"
  le_ListenUDP :: "error option"
  le_Listen :: "error option"

definition server_listen :: "listen_env \<Rightarrow> mux_config \<Rightarrow> error option" where
  "server_listen le cfg =
     (if mx_isUDP cfg then (case le_Resolve le of Some e \<Rightarrow> Some e | None \<Rightarrow> le_ListenUDP le) else le_Listen le)"

definition server_Start :: "'url mux_env \<Rightarrow> listen_env \<Rightarrow> string \<Rightarrow> mux_config \<Rightarrow> unit result \<times> mux_server" where
  "server_Start env le node cfg =
     (case server_inspectConfig env cfg of
        Inl e \<Rightarrow> (Inl e, (NewServer_mux node cfg)\<lparr>sv_cancelled := True, sv_listener := False\<rparr>)
      | Inr (cfg, _) \<Rightarrow>
          (case server_listen le cfg of
             Some e \<Rightarrow> (Inl e, (NewServer_mux node cfg)\<lparr>sv_cancelled := True, sv_listener := False\<rparr>)
           | None \<Rightarrow> (Inr (), NewServer_mux node cfg)))"

text \<open>What happens at an attempt of \<open>dialThroughRemote\<close>: the new session id, the environment of \<open>GetConn\<close> and the outcome of the write. A stream that was opened
  is a new connection, on which the handshake is written.\<close>

record dial_env =
  de_sid :: "nat \<Rightarrow> string"
  de_get :: "nat \<Rightarrow> getconn_env"
  de_werr :: "nat \<Rightarrow> error option"
  de_stream :: "nat \<Rightarrow> conn"

definition dial_attempt ::
  "(nego \<Rightarrow> bytes result) \<Rightarrow> (hand \<Rightarrow> bytes result) \<Rightarrow> dial_env \<Rightarrow> nat \<Rightarrow> mux_server \<Rightarrow> conn result \<times> mux_server" where
  "dial_attempt mn mh de k sv =
     (case dialThroughRemote mn mh (de_sid de k) (de_get de k) (de_werr de k) sv of
        (Inl e, sv) \<Rightarrow> (Inl e, sv)
      | (Inr (_, w), sv) \<Rightarrow> (Inr ((de_stream de k)\<lparr>outbox := [w]\<rparr>), sv))"

text \<open>The connections of a handler that is joined, and those that are closed when it ends. Without a stream the user's connection is closed.\<close>

record mux_join =
  mj_bind :: binding
  mj_closed :: bool

definition joined :: "conn \<Rightarrow> conn \<Rightarrow> mux_join" where
  "joined a b = \<lparr>mj_bind = bind_start a b, mj_closed = False\<rparr>"

definition handleTCP_open ::
  "(mux_server, conn) retry \<Rightarrow> (nego \<Rightarrow> bytes result) \<Rightarrow> (hand \<Rightarrow> bytes result) \<Rightarrow> dial_env \<Rightarrow> conn \<Rightarrow> mux_server \<Rightarrow> mux_join option \<times> mux_server" where
  "handleTCP_open retry mn mh de inConn sv =
     (case retry 10 (dial_attempt mn mh de) sv of
        (Inl _, sv) \<Rightarrow> (None, sv)
      | (Inr targetConn, sv) \<Rightarrow> (Some (joined targetConn inConn), sv))"

text \<open>The handler while \<open>Proxy\<close> runs, and when it returns: the deferred functions close both connections.\<close>

inductive join_step :: "mux_join \<Rightarrow> mux_join \<Rightarrow> bool" where
  j_copy: "\<not> mj_closed j \<Longrightarrow> bind_step BindingSize (mj_bind j) b \<Longrightarrow> join_step j (j\<lparr>mj_bind := b\<rparr>)"
| j_return: "\<not> mj_closed j \<Longrightarrow> Proxy_returns (mj_bind j) \<Longrightarrow> join_step j (j\<lparr>mj_closed := True\<rparr>)"

subsection \<open>Client.Start and proxyTCP\<close>

text \<open>\<open>Try\<close>: between attempts of \<open>Retry\<close>; \<open>Serve i\<close>: in the loop that accepts streams on session \<open>i\<close>; \<open>Over\<close>: \<open>Retry\<close> has returned. \<open>cl_parents\<close> and \<open>cl_sess\<close> tell which
  connections to the bridge and which sessions are closed, session \<open>i\<close> being on connection \<open>cl_on ! i\<close>. A stream is open, in use by a handler, or closed.\<close>

datatype cl_stage = Try | Serve nat | Over

datatype cl_use = Unread | Handled Network string string bytes | Left

record mux_client =
  cl_cfg :: mux_config
  cl_stage :: cl_stage
  cl_sessions :: "nat option"
  cl_sess :: "bool list"
  cl_on :: "nat list"
  cl_parents :: "bool list"
  cl_streams :: "(nat \<times> cl_use) list"
  cl_cancelled :: bool

text \<open>The node after \<open>Start\<close>; with a bad configuration it is cancelled and no goroutine runs.\<close>

definition client_Start :: "'url mux_env \<Rightarrow> mux_config \<Rightarrow> unit result \<times> mux_client" where
  "client_Start env cfg =
     (let c = \<lparr>cl_cfg = cfg, cl_stage = Try, cl_sessions = None, cl_sess = [], cl_on = [], cl_parents = [], cl_streams = [], cl_cancelled = False\<rparr>
      in case client_inspectConfig env cfg of
           Inl e \<Rightarrow> (Inl e, c\<lparr>cl_stage := Over, cl_cancelled := True\<rparr>)
         | Inr _ \<Rightarrow> (Inr (), c))"

text \<open>One attempt, up to the loop that accepts streams. \<open>defer pConn.Close()\<close> closes the connection of an attempt that fails.\<close>

definition client_attempt :: "(nego \<Rightarrow> bytes result) \<Rightarrow> getconn_env \<Rightarrow> mux_client \<Rightarrow> mux_client" where
  "client_attempt mn g c =
     (case fst (client_register mn g (cl_cfg c)) of
        Inl _ \<Rightarrow> if g_dial g \<noteq> None then c else c\<lparr>cl_parents := cl_parents c @ [True]\<rparr>
      | Inr _ \<Rightarrow> c\<lparr>cl_parents := cl_parents c @ [False], cl_sess := cl_sess c @ [False], cl_on := cl_on c @ [length (cl_parents c)],
                    cl_sessions := Some (length (cl_sess c)), cl_stage := Serve (length (cl_sess c))\<rparr>)"

text \<open>The operation returns: the session is closed when accepting failed, the connection always.\<close>

definition client_returns :: "bool \<Rightarrow> nat \<Rightarrow> cl_stage \<Rightarrow> mux_client \<Rightarrow> mux_client" where
  "client_returns closes i st c =
     c\<lparr>cl_sess := (if closes then (cl_sess c)[i := True] else cl_sess c), cl_parents := (cl_parents c)[cl_on c ! i := True], cl_stage := st\<rparr>"

text \<open>The goroutine of a stream, once its handshake is read. It returns without closing the stream when the handshake cannot be read.\<close>

definition client_hand :: "(bytes \<Rightarrow> hand result) \<Rightarrow> bytes \<Rightarrow> cl_use" where
  "client_hand uh input = (case client_stream uh input of Inl _ \<Rightarrow> Left | Inr (net, addr, sid, r) \<Rightarrow> Handled net addr sid r)"

definition client_Stop :: "mux_client \<Rightarrow> mux_client" where
  "client_Stop c = c\<lparr>cl_cancelled := True, cl_sess := (case cl_sessions c of None \<Rightarrow> cl_sess c | Some i \<Rightarrow> (cl_sess c)[i := True])\<rparr>"

inductive client_step :: "(nego \<Rightarrow> bytes result) \<Rightarrow> (bytes \<Rightarrow> hand result) \<Rightarrow> mux_client \<Rightarrow> mux_client \<Rightarrow> bool"
  for mn :: "nego \<Rightarrow> bytes result" and uh :: "bytes \<Rightarrow> hand result" where
  k_attempt: "cl_stage c = Try \<Longrightarrow> client_step mn uh c (client_attempt mn g c)"
| k_gives_up: "cl_stage c = Try \<Longrightarrow> cl_cancelled c \<Longrightarrow> client_step mn uh c (c\<lparr>cl_stage := Over\<rparr>)"
| k_accept: "cl_stage c = Serve i \<Longrightarrow> \<not> cl_sess c ! i \<Longrightarrow> client_step mn uh c (c\<lparr>cl_streams := cl_streams c @ [(i, Unread)]\<rparr>)"
| k_lost: "cl_stage c = Serve i \<Longrightarrow> client_step mn uh c (client_returns True i Try c)"
| k_done: "cl_stage c = Serve i \<Longrightarrow> cl_cancelled c \<Longrightarrow> client_step mn uh c (client_returns False i Over c)"
| k_hand: "j < length (cl_streams c) \<Longrightarrow> cl_streams c ! j = (i, Unread) \<Longrightarrow>
    client_step mn uh c (c\<lparr>cl_streams := (cl_streams c)[j := (i, client_hand uh input)]\<rparr>)"
| k_gone: "i < length (cl_sess c) \<Longrightarrow> client_step mn uh c (c\<lparr>cl_sess := (cl_sess c)[i := True]\<rparr>)"
| k_stop: "client_step mn uh c (client_Stop c)"

inductive client_reach :: "'url mux_env \<Rightarrow> (nego \<Rightarrow> bytes result) \<Rightarrow> (bytes \<Rightarrow> hand result) \<Rightarrow> mux_config \<Rightarrow> mux_client \<Rightarrow> bool"
  for env :: "'url mux_env" and mn :: "nego \<Rightarrow> bytes result" and uh :: "bytes \<Rightarrow> hand result" and cfg :: mux_config where
  k_start: "client_Start env cfg = (Inr (), c) \<Longrightarrow> client_reach env mn uh cfg c"
| k_next: "client_reach env mn uh cfg c \<Longrightarrow> client_step mn uh c c' \<Longrightarrow> client_reach env mn uh cfg c'"

text \<open>The target is dialled at most four times; an attempt changes nothing of the node.\<close>

definition proxyTCP_open :: "(unit, conn) retry \<Rightarrow> (nat \<Rightarrow> conn result) \<Rightarrow> conn \<Rightarrow> mux_join option" where
  "proxyTCP_open retry dial inConn =
     (case fst (retry 3 (\<lambda>k s. (dial k, s)) ()) of
        Inl _ \<Rightarrow> None
      | Inr targetConn \<Rightarrow> Some (joined inConn targetConn))"

subsection \<open>The session of the client node\<close>

definition client_inv :: "mux_client \<Rightarrow> bool" where
  "client_inv c \<longleftrightarrow> length (cl_on c) = length (cl_sess c) \<and> (\<forall>i < length (cl_on c). cl_on c ! i < length (cl_parents c)) \<and>
     (\<forall>j < length (cl_parents c). \<not> cl_parents c ! j \<longrightarrow> (\<exists>i < length (cl_sess c). cl_stage c = Serve i \<and> cl_on c ! i = j)) \<and>
     (\<forall>i < length (cl_sess c). \<not> cl_sess c ! i \<longrightarrow> cl_stage c = Serve i \<or> cl_stage c = Over) \<and>
     (\<forall>i. cl_stage c = Serve i \<longrightarrow> i < length (cl_sess c))"

lemma client_inv_attempt:
  assumes "client_inv c" "cl_stage c = Try"
  shows "client_inv (client_attempt mn g c)"
proof (cases "fst (client_register mn g (cl_cfg c))")
  case (Inl e)
  then show ?thesis using assms by (auto simp: client_attempt_def client_inv_def nth_append less_Suc_eq)
next
  case (Inr u)
  have "cl_parents c ! j" if "j < length (cl_parents c)" for j using assms that by (auto simp: client_inv_def)
  moreover have "cl_sess c ! i" if "i < length (cl_sess c)" for i using assms that by (auto simp: client_inv_def)
  ultimately show ?thesis using Inr assms by (auto simp: client_attempt_def client_inv_def nth_append less_Suc_eq)
qed

lemma client_inv_returns:
  assumes "client_inv c" "cl_stage c = Serve i"
  shows "client_inv (client_returns True i Try c)" "client_inv (client_returns False i Over c)"
proof -
  have p: "cl_parents c ! j \<or> j = cl_on c ! i" if "j < length (cl_parents c)" for j using assms that by (auto simp: client_inv_def)
  have s: "cl_sess c ! j \<or> j = i" if "j < length (cl_sess c)" for j using assms that by (auto simp: client_inv_def)
  show "client_inv (client_returns True i Try c)" "client_inv (client_returns False i Over c)"
    using assms p s by (auto simp: client_returns_def client_inv_def nth_list_update)
qed

lemma client_inv_closed: "client_inv c \<Longrightarrow> client_inv (c\<lparr>cl_sess := (cl_sess c)[i := True]\<rparr>)"
  by (fastforce simp: client_inv_def nth_True)

lemma client_step_inv: "client_step mn uh c c' \<Longrightarrow> client_inv c \<Longrightarrow> client_inv c'"
proof (induction rule: client_step.induct)
  case (k_stop c)
  then show ?case using client_inv_closed [of c] by (cases "cl_sessions c") (auto simp: client_Stop_def client_inv_def)
next
  case (k_gives_up c)
  then show ?case by (fastforce simp: client_inv_def)
qed (simp_all add: client_inv_attempt client_inv_returns client_inv_closed, simp_all add: client_inv_def)

lemma client_reach_inv: "client_reach env mn uh cfg c \<Longrightarrow> client_inv c"
proof (induction rule: client_reach.induct)
  case (k_start c)
  then show ?case by (auto simp: client_Start_def Let_def client_inv_def split: sum.splits)
qed (rule client_step_inv)

lemma client_step_cfg: "client_step mn uh c c' \<Longrightarrow> cl_cfg c' = cl_cfg c"
  by (induction rule: client_step.induct) (auto simp: client_attempt_def client_returns_def client_Stop_def split: sum.splits)

lemma client_reach_cfg: "client_reach env mn uh cfg c \<Longrightarrow> cl_cfg c = cfg"
proof (induction rule: client_reach.induct)
  case (k_start c)
  then show ?case by (auto simp: client_Start_def Let_def split: sum.splits)
qed (simp add: client_step_cfg)


subsection \<open>From the user to the target\<close>

lemma server_step_id: "server_step marshal sv sv' \<Longrightarrow> sv_id sv' = sv_id sv \<and> sv_cfg sv' = sv_cfg sv"
proof (induction rule: server_step.induct)
  case (v_get sv g)
  then show ?case
    by (auto simp: GetConn_def open_stream_def add_parent_def Let_def split: option.splits sum.splits prod.splits)
qed (auto simp: watch_tick_def server_Stop_def split: option.splits)

lemma dialThrough_id:
  "dialThroughRemote marshal mh sessId g werr sv = (r, sv') \<Longrightarrow> sv_id sv' = sv_id sv \<and> sv_cfg sv' = sv_cfg sv"
  using server_step_id [OF v_get, of marshal g sv]
  by (auto simp: dialThroughRemote_def split: prod.splits sum.splits option.splits)

lemma hand_parse:
  assumes "proto_ok mh uh" "HandshakeRequest_Bytes mh q = Inr w"
  shows "ParseHandshakeRequest uh (w @ r) = Inr (q, r)"
proof -
  obtain x where x: "mh (hr_Hand q) = Inr x" "Request_Bytes \<lparr>Types = 0, Version = hr_Version q, ReqData = x\<rparr> = Inr w"
    using assms(2) by (auto simp: HandshakeRequest_Bytes_def bindR_eq_Inr)
  have "uh x = Inr (hr_Hand q)" using assms(1) x(1) by (auto simp: proto_ok_def)
  then show ?thesis using request_frame [OF x(2), of r] by (simp add: ParseHandshakeRequest_def bindP_def)
qed

lemma client_stream_hand:
  assumes "proto_ok mh uh" "HandshakeRequest_Bytes mh (server_hand node sid cfg) = Inr w"
  shows "client_stream uh (w @ r) = Inr (if mx_isUDP cfg then NetUDP else NetTCP, JoinHostPort (mx_remote_host cfg) (dec_str (unat (mx_remote_port cfg))), sid, r)"
proof -
  have "unat (mx_remote_port cfg) < 65536" using unsigned_less [of "mx_remote_port cfg", where ?'a = nat] by simp
  then have "unat (ucast (mx_remote_port cfg) :: 32 word) = unat (mx_remote_port cfg)" by (simp add: unsigned_ucast_eq take_bit_nat_eq_self)
  then show ?thesis by (simp add: client_stream_def hand_parse [OF assms]) (simp add: server_hand_def)
qed

text \<open>With a bridge that accepts, \<open>handleTCP\<close> has its stream at the second attempt at the latest.\<close>

lemma dial_good:
  assumes "server_inv sv" "HandshakeRequest_Bytes mh (server_hand (sv_id sv) sid (sv_cfg sv)) = Inr w"
  shows "dialThroughRemote mn mh sid (good_env (SendReply RepSuccess through_Version)) None sv =
    (map_sum id (\<lambda>i. (i, w)) (fst (get_ok mn sv)), snd (snd (get_ok mn sv)))"
proof -
  obtain r d sv' where g: "GetConn mn (good_env (SendReply RepSuccess through_Version)) sv = (r, d, sv')" by (metis prod_cases3)
  then have "sv_id sv' = sv_id sv" "sv_cfg sv' = sv_cfg sv"
    using server_step_id [OF v_get, of mn "good_env (SendReply RepSuccess through_Version)" sv] by simp_all
  then show ?thesis using g assms(2) by (simp add: dialThroughRemote_def get_ok_def split: sum.split)
qed

definition good_dials :: "dial_env \<Rightarrow> bool" where
  "good_dials de \<longleftrightarrow> (\<forall>k. de_get de k = good_env (SendReply RepSuccess through_Version) \<and> de_werr de k = None)"

definition hands :: "(hand \<Rightarrow> bytes result) \<Rightarrow> string \<Rightarrow> mux_config \<Rightarrow> dial_env \<Rightarrow> (nat \<Rightarrow> bytes) \<Rightarrow> bool" where
  "hands mh node cfg de w \<longleftrightarrow> (\<forall>k. HandshakeRequest_Bytes mh (server_hand node (de_sid de k) cfg) = Inr (w k))"

lemma attempt_good:
  assumes "server_inv sv" "good_dials de" "hands mh (sv_id sv) (sv_cfg sv) de w"
  shows "dial_attempt mn mh de k sv = (map_sum id (\<lambda>_. (de_stream de k)\<lparr>outbox := [w k]\<rparr>) (fst (get_ok mn sv)), snd (snd (get_ok mn sv)))"
proof -
  have "dialThroughRemote mn mh (de_sid de k) (de_get de k) (de_werr de k) sv = (map_sum id (\<lambda>i. (i, w k)) (fst (get_ok mn sv)), snd (snd (get_ok mn sv)))"
    using dial_good [OF assms(1), of mh "de_sid de k" "w k" mn] assms(2,3) by (simp add: good_dials_def hands_def)
  then show ?thesis by (cases "fst (get_ok mn sv)") (simp_all add: dial_attempt_def)
qed

lemma live_stream_ok: "live_stream x \<Longrightarrow> \<exists>i. fst x = Inr i"
  by (auto simp: live_stream_def split: prod.splits sum.splits)

lemma get_ok_no_panic:
  assumes "server_inv sv" "NegotiateRequest_Bytes mn (server_nego (sv_id sv) (sv_cfg sv)) = Inr d"
  shows "\<not> panics (fst (get_ok mn sv))"
  using GetConn_good [OF assms] by (simp add: get_ok_def ErrClosedPipe_def split: option.split)

lemma handle_connects:
  assumes "server_reach mn sv" "NegotiateRequest_Bytes mn (server_nego (sv_id sv) (sv_cfg sv)) = Inr d"
    and "good_dials de" "hands mh (sv_id sv) (sv_cfg sv) de w" "retry 10 = (\<lambda>op. attempts op 0 10)"
  obtains k sv' where "k \<le> 1" "handleTCP_open retry mn mh de inConn sv =
    (Some (joined ((de_stream de k)\<lparr>outbox := [w k]\<rparr>) inConn), sv')"
proof -
  note inv = server_reach_inv [OF assms(1)]
  have r: "retry 10 op s = attempts op 0 (Suc (Suc 8)) s" for op s using assms(5) by simp
  show thesis
  proof (cases "fst (get_ok mn sv)")
    case (Inr i)
    then show thesis using that [of 0] attempt_good [OF inv assms(3,4), of mn 0] unfolding handleTCP_open_def r attempts.simps by simp
  next
    case (Inl e)
    define sv1 where "sv1 = snd (snd (get_ok mn sv))"
    have "\<not> live_stream (get_ok mn sv)" using live_stream_ok [of "get_ok mn sv"] Inl by auto
    then have "live_stream (get_ok mn sv1)"
      using get_ok_first [OF inv assms(2)] get_ok_again [OF inv assms(2)] unfolding sv1_def by (cases "sv_sessions sv") (auto split: if_splits)
    then obtain i where i: "fst (get_ok mn sv1) = Inr i" using live_stream_ok by blast
    have inv1: "server_inv sv1" unfolding sv1_def get_ok_def by (rule server_inv_GetConn [OF inv])
    have id1: "sv_id sv1 = sv_id sv" "sv_cfg sv1 = sv_cfg sv" unfolding sv1_def get_ok_def using server_step_id [OF v_get] by blast+
    have a0: "dial_attempt mn mh de 0 sv = (Inl e, sv1)" using attempt_good [OF inv assms(3,4), of mn 0] Inl by (simp add: sv1_def)
    have "hands mh (sv_id sv1) (sv_cfg sv1) de w" using assms(4) id1 by simp
    then have a1: "dial_attempt mn mh de 1 sv1 = (Inr ((de_stream de 1)\<lparr>outbox := [w 1]\<rparr>), snd (snd (get_ok mn sv1)))"
      using attempt_good [OF inv1 assms(3), of mh w mn 1] i by simp
    have "\<not> panics (Inl e :: conn result)" using get_ok_no_panic [OF inv assms(2)] Inl by (cases e) simp_all
    then show thesis using that [of 1] a0 a1 unfolding handleTCP_open_def r attempts.simps by simp
  qed
qed

text \<open>What a join has carried in either direction.\<close>

lemma relayed_prefix:
  assumes "relayed src0 dst0 src dst e"
  obtains t where "concat (outbox dst) = concat (outbox dst0) @ t" "prefix t (concat (inbox src0))" "e = Some (Inr ()) \<Longrightarrow> t = concat (inbox src0)"
proof -
  from assms obtain t lost where t: "concat (inbox src0) = t @ lost @ concat (inbox src)" "concat (outbox dst) = concat (outbox dst0) @ t"
    "lost \<noteq> [] \<longrightarrow> (\<exists>err. e = Some (Inl err))" "e = Some (Inr ()) \<longrightarrow> inbox src = []" unfolding relayed_def by blast
  then show thesis using that [of t] by auto
qed

lemma binds_bound: "(bind_step n)\<^sup>*\<^sup>* (bind_start a b) s \<Longrightarrow> bound a b s"
  by (induction rule: rtranclp_induct) (auto simp: bound_start intro: bind_step_bound)

lemma joins_bound: "join_step\<^sup>*\<^sup>* (joined a b) j \<Longrightarrow> bound a b (mj_bind j)"
proof (induction rule: rtranclp_induct)
  case base
  then show ?case by (simp add: joined_def bound_start)
next
  case (step j j')
  from step.hyps(2) show ?case using step.IH by (cases rule: join_step.cases) (auto intro: bind_step_bound)
qed

lemma bound_prefix:
  assumes "bound a b s"
  obtains t u where "concat (outbox (rw2 s)) = concat (outbox b) @ t" "prefix t (concat (inbox a))" "end2 s = Some (Inr ()) \<Longrightarrow> t = concat (inbox a)"
    "concat (outbox (rw1 s)) = concat (outbox a) @ u" "prefix u (concat (inbox b))" "end1 s = Some (Inr ()) \<Longrightarrow> u = concat (inbox b)"
  using assms relayed_prefix [of a b "rw1 s" "rw2 s" "end2 s"] relayed_prefix [of b a "rw2 s" "rw1 s" "end1 s"] unfolding bound_def by metis

text \<open>
  A way through the tunnel: the handler \<open>js\<close> of the server node between the user and its stream, the two streams \<open>jb\<close> at the bridge, and the handler \<open>jc\<close> of the client
  node between its stream and the target. What has arrived at the end of a stream is a prefix of what was written at the other end; \<open>input\<close> is what has arrived at
  the client node, with the handshake of \<open>m\<close> bytes in it.
\<close>

record way =
  w_server :: mux_join
  w_bridge :: binding
  w_client :: mux_join
  w_in :: conn
  w_out :: conn
  w_cin :: conn
  w_input :: bytes

definition way_ok :: "conn \<Rightarrow> conn \<Rightarrow> conn \<Rightarrow> nat \<Rightarrow> way \<Rightarrow> bool" where
  "way_ok strm user tgt m p \<longleftrightarrow>
     join_step\<^sup>*\<^sup>* (joined strm user) (w_server p) \<and> (bind_step BindingSize)\<^sup>*\<^sup>* (bind_start (w_out p) (w_in p)) (w_bridge p) \<and>
     join_step\<^sup>*\<^sup>* (joined (w_cin p) tgt) (w_client p) \<and> outbox (w_in p) = [] \<and> outbox (w_out p) = [] \<and> outbox (w_cin p) = [] \<and>
     prefix (concat (inbox (w_in p))) (concat (outbox (rw1 (mj_bind (w_server p))))) \<and>
     prefix (w_input p) (concat (outbox (rw1 (w_bridge p)))) \<and> m \<le> length (w_input p) \<and> concat (inbox (w_cin p)) = drop m (w_input p) \<and>
     prefix (concat (inbox (w_out p))) (concat (outbox (rw1 (mj_bind (w_client p))))) \<and>
     prefix (concat (inbox strm)) (concat (outbox (rw2 (w_bridge p))))"

text \<open>Everything from the user, or from the target, has gone all the way: it has arrived, and every copy has ended without an error.\<close>

definition all_to_target :: "way \<Rightarrow> bool" where
  "all_to_target p \<longleftrightarrow> concat (inbox (w_in p)) = concat (outbox (rw1 (mj_bind (w_server p)))) \<and> w_input p = concat (outbox (rw1 (w_bridge p))) \<and>
     end1 (mj_bind (w_server p)) = Some (Inr ()) \<and> end1 (w_bridge p) = Some (Inr ()) \<and> end2 (mj_bind (w_client p)) = Some (Inr ())"

definition all_to_user :: "conn \<Rightarrow> way \<Rightarrow> bool" where
  "all_to_user strm p \<longleftrightarrow> concat (inbox (w_out p)) = concat (outbox (rw1 (mj_bind (w_client p)))) \<and> concat (inbox strm) = concat (outbox (rw2 (w_bridge p))) \<and>
     end1 (mj_bind (w_client p)) = Some (Inr ()) \<and> end2 (w_bridge p) = Some (Inr ()) \<and> end2 (mj_bind (w_server p)) = Some (Inr ())"

lemma prefix_behind:
  assumes "prefix x (w @ t)" "length w \<le> length x"
  obtains r where "x = w @ r" "prefix r t"
  using assms by (metis append_eq_append_conv_if prefix_def prefix_length_prefix prefixI same_prefix_prefix)

lemma way_carries:
  assumes "way_ok strm user tgt (length w) p" "concat (outbox strm) = w"
  obtains t u where "w_input p = w @ concat (inbox (w_cin p))"
    "concat (outbox (rw2 (mj_bind (w_client p)))) = concat (outbox tgt) @ t" "prefix t (concat (inbox user))" "all_to_target p \<Longrightarrow> t = concat (inbox user)"
    "concat (outbox (rw2 (mj_bind (w_server p)))) = concat (outbox user) @ u" "prefix u (concat (inbox tgt))" "all_to_user strm p \<Longrightarrow> u = concat (inbox tgt)"
proof -
  note p = assms(1) [unfolded way_ok_def]
  obtain s1 s2 where s: "concat (outbox (rw2 (mj_bind (w_server p)))) = concat (outbox user) @ s1" "prefix s1 (concat (inbox strm))"
    "end2 (mj_bind (w_server p)) = Some (Inr ()) \<Longrightarrow> s1 = concat (inbox strm)" "concat (outbox (rw1 (mj_bind (w_server p)))) = w @ s2"
    "prefix s2 (concat (inbox user))" "end1 (mj_bind (w_server p)) = Some (Inr ()) \<Longrightarrow> s2 = concat (inbox user)"
    using bound_prefix [OF joins_bound, of strm user "w_server p"] p assms(2) by metis
  obtain b1 b2 where b: "concat (outbox (rw2 (w_bridge p))) = b1" "prefix b1 (concat (inbox (w_out p)))"
    "end2 (w_bridge p) = Some (Inr ()) \<Longrightarrow> b1 = concat (inbox (w_out p))" "concat (outbox (rw1 (w_bridge p))) = b2"
    "prefix b2 (concat (inbox (w_in p)))" "end1 (w_bridge p) = Some (Inr ()) \<Longrightarrow> b2 = concat (inbox (w_in p))"
    using bound_prefix [OF binds_bound, of BindingSize "w_out p" "w_in p" "w_bridge p"] p by (metis append_Nil concat.simps(1))
  obtain c1 c2 where c: "concat (outbox (rw2 (mj_bind (w_client p)))) = concat (outbox tgt) @ c1" "prefix c1 (concat (inbox (w_cin p)))"
    "end2 (mj_bind (w_client p)) = Some (Inr ()) \<Longrightarrow> c1 = concat (inbox (w_cin p))" "concat (outbox (rw1 (mj_bind (w_client p)))) = c2"
    "prefix c2 (concat (inbox tgt))" "end1 (mj_bind (w_client p)) = Some (Inr ()) \<Longrightarrow> c2 = concat (inbox tgt)"
    using bound_prefix [OF joins_bound, of "w_cin p" tgt "w_client p"] p by (metis append_Nil concat.simps(1))
  have "prefix (w_input p) (w @ s2)" using p b(4,5) s(4) by (metis prefix_order.trans)
  then obtain r where r: "w_input p = w @ r" "prefix r s2" using prefix_behind p by blast
  then have cin: "concat (inbox (w_cin p)) = r" using p by simp
  have "prefix c1 (concat (inbox user))" using c(2) r(2) s(5) cin by (metis prefix_order.trans)
  moreover have "prefix s1 (concat (inbox tgt))" using s(2) p b(1,2) c(4,5) by (metis prefix_order.trans)
  moreover have "c1 = concat (inbox user)" if "all_to_target p"
    using that c(3) cin r(1) b(4,6) s(4,6) by (simp add: all_to_target_def)
  moreover have "s1 = concat (inbox tgt)" if "all_to_user strm p"
    using that c(4,6) b(1,3) s(3) by (simp add: all_to_user_def)
  ultimately show thesis using that [of c1 s1] r(1) cin c(1) s(1) by simp
qed

subsection \<open>Properties\<close>

text \<open>C5. TCP through the tunnel. From any reachable state of the server node, with a bridge that accepts, the connection of a user gets a stream after at most two attempts. On
  any way through the tunnel, however the copies at the two nodes and at the bridge are interleaved and the streams cut the bytes: the client node
  reads the host and port of the route and the session id of the stream; the target gets a prefix of what the user has sent, in order, and nothing else, and all of it
  when the copies have ended without an error; and the user gets a prefix of what the target has sent, and all of it, likewise.\<close>

theorem mux_tcp_tunnel:
  assumes "server_reach mn sv" "NegotiateRequest_Bytes mn (server_nego (sv_id sv) (sv_cfg sv)) = Inr d" "\<not> mx_isUDP (sv_cfg sv)"
    and "good_dials de" "hands mh (sv_id sv) (sv_cfg sv) de w" "proto_ok mh uh" "retry 10 = (\<lambda>op. attempts op 0 10)"
  shows "\<exists>k sv' strm. k \<le> 1 \<and> handleTCP_open retry mn mh de user sv = (Some (joined strm user), sv') \<and> strm = (de_stream de k)\<lparr>outbox := [w k]\<rparr> \<and>
    (\<forall>p tgt. way_ok strm user tgt (length (w k)) p \<longrightarrow>
       client_stream uh (w_input p) =
         Inr (NetTCP, JoinHostPort (mx_remote_host (sv_cfg sv)) (dec_str (unat (mx_remote_port (sv_cfg sv)))), de_sid de k, concat (inbox (w_cin p))) \<and>
       (\<exists>t. concat (outbox (rw2 (mj_bind (w_client p)))) = concat (outbox tgt) @ t \<and> prefix t (concat (inbox user)) \<and>
          (all_to_target p \<longrightarrow> t = concat (inbox user))) \<and>
       (\<exists>t. concat (outbox (rw2 (mj_bind (w_server p)))) = concat (outbox user) @ t \<and> prefix t (concat (inbox tgt)) \<and>
          (all_to_user strm p \<longrightarrow> t = concat (inbox tgt))))"
proof -
  obtain k sv' where k: "k \<le> 1" "handleTCP_open retry mn mh de user sv = (Some (joined ((de_stream de k)\<lparr>outbox := [w k]\<rparr>) user), sv')"
    using handle_connects [where retry = retry and inConn = user, OF assms(1,2,4,5,7)] by blast
  define strm where "strm = (de_stream de k)\<lparr>outbox := [w k]\<rparr>"
  have h: "HandshakeRequest_Bytes mh (server_hand (sv_id sv) (de_sid de k) (sv_cfg sv)) = Inr (w k)" using assms(5) by (simp add: hands_def)
  have "client_stream uh (w_input p) =
        Inr (NetTCP, JoinHostPort (mx_remote_host (sv_cfg sv)) (dec_str (unat (mx_remote_port (sv_cfg sv)))), de_sid de k, concat (inbox (w_cin p))) \<and>
      (\<exists>t. concat (outbox (rw2 (mj_bind (w_client p)))) = concat (outbox tgt) @ t \<and> prefix t (concat (inbox user)) \<and>
        (all_to_target p \<longrightarrow> t = concat (inbox user))) \<and>
      (\<exists>t. concat (outbox (rw2 (mj_bind (w_server p)))) = concat (outbox user) @ t \<and> prefix t (concat (inbox tgt)) \<and>
        (all_to_user strm p \<longrightarrow> t = concat (inbox tgt)))" if p: "way_ok strm user tgt (length (w k)) p" for p tgt
  proof -
    have "concat (outbox strm) = w k" by (simp add: strm_def)
    from way_carries [OF p this] obtain t u where c: "w_input p = w k @ concat (inbox (w_cin p))"
      "concat (outbox (rw2 (mj_bind (w_client p)))) = concat (outbox tgt) @ t" "prefix t (concat (inbox user))" "all_to_target p \<Longrightarrow> t = concat (inbox user)"
      "concat (outbox (rw2 (mj_bind (w_server p)))) = concat (outbox user) @ u" "prefix u (concat (inbox tgt))" "all_to_user strm p \<Longrightarrow> u = concat (inbox tgt)"
      by blast
    moreover have "client_stream uh (w_input p) =
        Inr (NetTCP, JoinHostPort (mx_remote_host (sv_cfg sv)) (dec_str (unat (mx_remote_port (sv_cfg sv)))), de_sid de k, concat (inbox (w_cin p)))"
      using client_stream_hand [OF assms(6) h, of "concat (inbox (w_cin p))"] c(1) assms(3) by simp
    ultimately show ?thesis by blast
  qed
  then show ?thesis using k strm_def by blast
qed

subsection \<open>An example\<close>

definition ex_tcfg :: mux_config where
  "ex_tcfg = ex_cfg\<lparr>mx_local := '':80'', mx_remote_host := ''10.0.0.9'', mx_remote_port := 53\<rparr>"

definition ex_tmh :: "hand \<Rightarrow> bytes result" where "ex_tmh = two_marshal (ex_hand NetTCP) (ex_hand NetUDP)"

definition ex_tuh :: "bytes \<Rightarrow> hand result" where "ex_tuh = two_unmarshal (ex_hand NetTCP) (ex_hand NetUDP)"

definition ex_de :: dial_env where
  "ex_de = \<lparr>de_sid = (\<lambda>_. ''s''), de_get = (\<lambda>_. good_env (SendReply RepSuccess through_Version)), de_werr = (\<lambda>_. None), de_stream = (\<lambda>_. good_conn [])\<rparr>"

lemma ex_tproto: "proto_ok ex_tmh ex_tuh" by (simp add: ex_tmh_def ex_tuh_def two_proto)

lemma ex_twire:
  "HandshakeRequest_Bytes ex_tmh (server_hand ''n'' ''s'' ex_tcfg) = Inr [0, 1, 1, 1]" "NegotiateRequest_Bytes ex_mn (server_nego ''n'' ex_tcfg) = Inr [2, 1, 1, 1]"
  "NegotiateRequest_Bytes ex_mn (client_nego ex_cfg) = Inr [1, 1, 1, 2]" "JoinHostPort ''10.0.0.9'' (dec_str (unat (53 :: 16 word))) = ''10.0.0.9:53''"
  by code_simp+

text \<open>A join in which one side sends one block and closes, and the other only receives.\<close>

definition plain_conn :: "bytes list \<Rightarrow> bytes list \<Rightarrow> nat \<Rightarrow> conn" where
  "plain_conn i out n = \<lparr>inbox = i, outbox = out, write_no = n, write_err = (\<lambda>_. None)\<rparr>"

lemma plain_copy:
  "length b \<le> BindingSize \<Longrightarrow> b \<noteq> [] \<Longrightarrow> copy_round BindingSize (plain_conn [] out n) (plain_conn [b] out' n') =
     (None, plain_conn [] (out @ [b]) (Suc n), plain_conn [] out' n')"
  "copy_round BindingSize (plain_conn i out n) (plain_conn [] out' n') = (Some (Inr ()), plain_conn i out n, plain_conn [] out' n')"
  by (simp_all add: copy_round_def conn_Read_def conn_Write_def plain_conn_def)

lemma plain_to_rw1:
  assumes "length b \<le> BindingSize" "b \<noteq> []"
  shows "(bind_step BindingSize)\<^sup>*\<^sup>* (bind_start (plain_conn [] out 0) (plain_conn [b] [] 0))
    \<lparr>rw1 = plain_conn [] (out @ [b]) 1, rw2 = plain_conn [] [] 0, end1 = Some (Inr ()), end2 = None\<rparr>"
proof (rule converse_rtranclp_into_rtranclp, rule to_rw1)
  show "(bind_step BindingSize)\<^sup>*\<^sup>* ((bind_start (plain_conn [] out 0) (plain_conn [b] [] 0))\<lparr>rw1 := plain_conn [] (out @ [b]) 1, rw2 := plain_conn [] [] 0, end1 := None\<rparr>)
      \<lparr>rw1 = plain_conn [] (out @ [b]) 1, rw2 = plain_conn [] [] 0, end1 = Some (Inr ()), end2 = None\<rparr>"
    by (rule r_into_rtranclp, subst bind_step.simps) (simp add: bind_start_def plain_copy)
qed (simp_all add: bind_start_def plain_copy assms)

lemma plain_to_rw2:
  assumes "length b \<le> BindingSize" "b \<noteq> []"
  shows "(bind_step BindingSize)\<^sup>*\<^sup>* (bind_start (plain_conn [b] [] 0) (plain_conn [] out 0))
    \<lparr>rw1 = plain_conn [] [] 0, rw2 = plain_conn [] (out @ [b]) 1, end1 = None, end2 = Some (Inr ())\<rparr>"
proof (rule converse_rtranclp_into_rtranclp, rule to_rw2)
  show "(bind_step BindingSize)\<^sup>*\<^sup>* ((bind_start (plain_conn [b] [] 0) (plain_conn [] out 0))\<lparr>rw1 := plain_conn [] [] 0, rw2 := plain_conn [] (out @ [b]) 1, end2 := None\<rparr>)
      \<lparr>rw1 = plain_conn [] [] 0, rw2 = plain_conn [] (out @ [b]) 1, end1 = None, end2 = Some (Inr ())\<rparr>"
    by (rule r_into_rtranclp, subst bind_step.simps) (simp add: bind_start_def plain_copy)
qed (simp_all add: bind_start_def plain_copy assms)

lemma joins_binds: "(bind_step BindingSize)\<^sup>*\<^sup>* b b' \<Longrightarrow> join_step\<^sup>*\<^sup>* \<lparr>mj_bind = b, mj_closed = False\<rparr> \<lparr>mj_bind = b', mj_closed = False\<rparr>"
proof (induction rule: rtranclp_induct)
  case (step b' b'')
  then show ?case using j_copy [of "\<lparr>mj_bind = b', mj_closed = False\<rparr>" b''] by simp
qed simp

definition ex_way :: way where
  "ex_way =
     \<lparr>w_server = \<lparr>mj_bind = \<lparr>rw1 = plain_conn [] [[0, 1, 1, 1], [7]] 1, rw2 = plain_conn [] [] 0, end1 = Some (Inr ()), end2 = None\<rparr>, mj_closed = False\<rparr>,
      w_bridge = \<lparr>rw1 = plain_conn [] [[0, 1, 1, 1, 7]] 1, rw2 = plain_conn [] [] 0, end1 = Some (Inr ()), end2 = None\<rparr>,
      w_client = \<lparr>mj_bind = \<lparr>rw1 = plain_conn [] [] 0, rw2 = plain_conn [] [[7]] 1, end1 = None, end2 = Some (Inr ())\<rparr>, mj_closed = False\<rparr>,
      w_in = plain_conn [[0, 1, 1, 1, 7]] [] 0, w_out = plain_conn [] [] 0, w_cin = plain_conn [[7]] [] 0, w_input = [0, 1, 1, 1, 7]\<rparr>"

lemma ex_way_ok: "way_ok (plain_conn [] [[0, 1, 1, 1]] 0) (plain_conn [[7]] [] 0) (plain_conn [] [] 0) 4 ex_way" "all_to_target ex_way"
proof -
  have j: "join_step\<^sup>*\<^sup>* (joined (plain_conn [] [[0, 1, 1, 1]] 0) (plain_conn [[7]] [] 0)) (w_server ex_way)"
    using joins_binds [OF plain_to_rw1 [of "[7]" "[[0, 1, 1, 1]]"]] by (simp add: joined_def ex_way_def BindingSize_def)
  have b: "(bind_step BindingSize)\<^sup>*\<^sup>* (bind_start (w_out ex_way) (w_in ex_way)) (w_bridge ex_way)"
    using plain_to_rw1 [of "[0, 1, 1, 1, 7]" "[]"] by (simp add: ex_way_def BindingSize_def)
  have c: "join_step\<^sup>*\<^sup>* (joined (w_cin ex_way) (plain_conn [] [] 0)) (w_client ex_way)"
    using joins_binds [OF plain_to_rw2 [of "[7]" "[]"]] by (simp add: joined_def ex_way_def BindingSize_def)
  show "way_ok (plain_conn [] [[0, 1, 1, 1]] 0) (plain_conn [[7]] [] 0) (plain_conn [] [] 0) 4 ex_way"
    using j b c by (simp add: way_ok_def) (simp add: ex_way_def plain_conn_def)
  show "all_to_target ex_way" by (simp add: all_to_target_def ex_way_def plain_conn_def)
qed

theorem mux_tcp_tunnel_witness:
  "client_stream ex_tuh (w_input ex_way) = Inr (NetTCP, ''10.0.0.9:53'', ''s'', [7]) \<and>
   concat (outbox (rw2 (mj_bind (w_client ex_way)))) = [7] \<and> all_to_target ex_way \<and>
   fst (handleTCP_open (\<lambda>n op. attempts op 0 n) ex_mn ex_tmh ex_de (plain_conn [[7]] [] 0) (NewServer_mux ''n'' ex_tcfg)) =
     Some (joined (plain_conn [] [[0, 1, 1, 1]] 0) (plain_conn [[7]] [] 0))"
proof -
  define sv where "sv = NewServer_mux ''n'' ex_tcfg"
  have sv: "server_reach ex_mn sv" "sv_id sv = ''n''" "sv_cfg sv = ex_tcfg" by (simp_all add: sv_def v_new) (simp_all add: NewServer_mux_def)
  have h: "NegotiateRequest_Bytes ex_mn (server_nego (sv_id sv) (sv_cfg sv)) = Inr [2, 1, 1, 1]" "\<not> mx_isUDP (sv_cfg sv)" "good_dials ex_de"
    "hands ex_tmh (sv_id sv) (sv_cfg sv) ex_de (\<lambda>_. [0, 1, 1, 1])"
    by (simp_all add: sv ex_twire good_dials_def hands_def ex_de_def) (simp add: ex_tcfg_def ex_cfg_def)
  have s: "(de_stream ex_de k)\<lparr>outbox := [[0, 1, 1, 1]]\<rparr> = plain_conn [] [[0, 1, 1, 1]] 0" for k by (simp add: ex_de_def good_conn_def plain_conn_def)
  have a: "mx_remote_host ex_tcfg = ''10.0.0.9''" "mx_remote_port ex_tcfg = 53" "de_sid ex_de k = ''s''" for k by (simp_all add: ex_tcfg_def ex_de_def)
  from mux_tcp_tunnel [where retry = "\<lambda>n op. attempts op 0 n" and user = "plain_conn [[7]] [] 0", OF sv(1) h(1-4) ex_tproto refl]
  obtain k sv' strm where t: "handleTCP_open (\<lambda>n op. attempts op 0 n) ex_mn ex_tmh ex_de (plain_conn [[7]] [] 0) sv = (Some (joined strm (plain_conn [[7]] [] 0)), sv')"
    "strm = plain_conn [] [[0, 1, 1, 1]] 0"
    "\<forall>p tgt. way_ok strm (plain_conn [[7]] [] 0) tgt (length [0 :: byte, 1, 1, 1]) p \<longrightarrow>
       client_stream ex_tuh (w_input p) = Inr (NetTCP, ''10.0.0.9:53'', ''s'', concat (inbox (w_cin p))) \<and>
       (\<exists>t. concat (outbox (rw2 (mj_bind (w_client p)))) = concat (outbox tgt) @ t \<and> prefix t (concat (inbox (plain_conn [[7]] [] 0))) \<and>
          (all_to_target p \<longrightarrow> t = concat (inbox (plain_conn [[7]] [] 0))))"
    unfolding s sv a ex_twire(4) by blast
  have "client_stream ex_tuh (w_input ex_way) = Inr (NetTCP, ''10.0.0.9:53'', ''s'', concat (inbox (w_cin ex_way)))"
    "\<exists>t. concat (outbox (rw2 (mj_bind (w_client ex_way)))) = concat (outbox (plain_conn [] [] 0)) @ t \<and> t = concat (inbox (plain_conn [[7]] [] 0))"
    using t(3) [rule_format, of "plain_conn [] [] 0" ex_way] ex_way_ok t(2) by (auto simp: eval_nat_numeral)
  then show ?thesis using t(1,2) ex_way_ok(2) by (simp add: sv_def plain_conn_def ex_way_def)
qed


end
