(* ===== verification/Mux_Udp_Client.thy ===== *)
theory Mux_Udp_Client
  imports Mux_Tcp Udp_Frames
begin

section \<open>services/mux/client.go: UDP at the client node\<close>

text \<open>
  A stream whose handshake asks for UDP is served by a goroutine (\<open>proxyUDP\<close>): it reads frames, finds or makes a local socket for the source address in the frame, in a
  managed table, and sends the data on it; a goroutine for every socket (\<open>runUdpReceive\<close>) frames what comes back and writes it on the stream the socket was made for.

  Streams and items are indices into \<open>uc_streams\<close> and \<open>uc_items\<close>. The variables \<open>item\<close> and \<open>cacheSrcAddr\<close> of \<open>proxyUDP\<close> are shared with the goroutines that it starts, so that
  they are part of the stream: a goroutine that writes a datagram (\<open>uc_writes\<close>) uses the item of the moment in which it runs, and the goroutine of a new
  socket (\<open>uc_starting\<close>) looks up the source address of that moment. The goroutines that frame answers are \<open>uc_frames\<close>.
\<close>

record uc_stream =
  ms_local :: string
  ms_in :: bytes
  ms_read :: "Datagram list"
  ms_out :: "bytes list"
  ms_closed :: bool
  uh_item :: "nat option"
  uh_cacheSrcAddr :: string
  uh_ended :: bool

record uc_item =
  uc_conn :: nat
  uc_key :: string
  uc_srcAddr :: string
  uc_localAddr :: string
  uc_lastActiveTime :: int
  uc_out :: "(nat \<times> bytes) list"
  uc_replies :: "bytes list"
  uc_closed :: bool

type_synonym uc_world = "uc_stream list \<times> uc_item list"

record 'm mux_cudp =
  uc_udpConns :: "('m, nat, uc_world) Manager"
  uc_streams :: "uc_stream list"
  uc_items :: "uc_item list"
  uc_writes :: "(nat \<times> bytes) list"
  uc_starting :: "nat list"
  uc_readers :: "(string \<times> nat) list"
  uc_frames :: "(nat \<times> bytes) list"
  uc_gc :: "nat collector"
  uc_cancelled :: bool

definition ms_Close :: "nat \<Rightarrow> uc_stream list \<Rightarrow> uc_stream list" where
  "ms_Close c = upd_at c (\<lambda>x. x\<lparr>ms_closed := True\<rparr>)"

definition uc_Close :: "nat \<Rightarrow> uc_item list \<Rightarrow> uc_item list" where
  "uc_Close i = upd_at i (\<lambda>x. x\<lparr>uc_closed := True\<rparr>)"

definition MaxUDPIdleTime :: int where "MaxUDPIdleTime = 30"

definition uc_gc_cb :: "(nat, uc_world) gc_cb" where
  "uc_gc_cb k v now w =
     (if now - uc_lastActiveTime (snd w ! v) > MaxUDPIdleTime
      then (True, (ms_Close (uc_conn (snd w ! v)) (fst w), uc_Close v (snd w))) else (False, w))"

definition uc_New :: "('m, nat) cmap \<Rightarrow> 'm mux_cudp" where
  "uc_New cm = \<lparr>uc_udpConns = mgr_New cm 1000000000 (Some uc_gc_cb), uc_streams = [], uc_items = [], uc_writes = [], uc_starting = [],
     uc_readers = [], uc_frames = [], uc_gc = gc_idle, uc_cancelled = False\<rparr>"

subsection \<open>proxyUDP\<close>

definition uc_accept :: "string \<Rightarrow> 'm mux_cudp \<Rightarrow> 'm mux_cudp" where
  "uc_accept localAddr u = u\<lparr>uc_streams := uc_streams u @ [\<lparr>ms_local = localAddr, ms_in = [], ms_read = [], ms_out = [], ms_closed = False,
     uh_item = None, uh_cacheSrcAddr = '''', uh_ended = False\<rparr>]\<rparr>"

text \<open>The deferred function.\<close>

definition uc_ends :: "('m, nat) cmap \<Rightarrow> nat \<Rightarrow> 'm mux_cudp \<Rightarrow> 'm mux_cudp" where
  "uc_ends cm h u =
     (let x = uc_streams u ! h;
          u = u\<lparr>uc_streams := upd_at h (\<lambda>x. x\<lparr>ms_closed := True, uh_ended := True\<rparr>) (uc_streams u)\<rparr>
      in case uh_item x of
           None \<Rightarrow> u
         | Some i \<Rightarrow> u\<lparr>uc_udpConns := (uc_udpConns u)\<lparr>mgr_map := cm_Remove cm (uh_cacheSrcAddr x) (mgr_map (uc_udpConns u))\<rparr>,
                       uc_streams := ms_Close (uc_conn (uc_items u ! i)) (uc_streams u), uc_items := uc_Close i (uc_items u)\<rparr>)"

text \<open>A new local socket for a source, and one round of the loop on the result of \<open>ParseStreamDatagram\<close>. \<open>resolved\<close> is the text of the resolved source address.\<close>

definition uc_dial :: "('m, nat) cmap \<Rightarrow> string \<Rightarrow> nat \<Rightarrow> string \<Rightarrow> 'm mux_cudp \<Rightarrow> 'm mux_cudp" where
  "uc_dial cm resolved h k u =
     u\<lparr>uc_items := uc_items u @ [\<lparr>uc_conn = h, uc_key = k, uc_srcAddr = resolved, uc_localAddr = ms_local (uc_streams u ! h), uc_lastActiveTime = 0,
          uc_out = [], uc_replies = [], uc_closed = False\<rparr>],
       uc_udpConns := (uc_udpConns u)\<lparr>mgr_map := cm_Set cm k (length (uc_items u)) (mgr_map (uc_udpConns u))\<rparr>,
       uc_starting := h # uc_starting u\<rparr>"

definition uc_forward :: "int \<Rightarrow> nat \<Rightarrow> nat \<Rightarrow> bytes \<Rightarrow> 'm mux_cudp \<Rightarrow> 'm mux_cudp" where
  "uc_forward now h i d u =
     u\<lparr>uc_streams := upd_at h (\<lambda>x. x\<lparr>uh_item := Some i\<rparr>) (uc_streams u),
       uc_items := upd_at i (\<lambda>x. x\<lparr>uc_lastActiveTime := now\<rparr>) (uc_items u),
       uc_writes := (h, d) # uc_writes u\<rparr>"

definition uc_round :: "('m, nat) cmap \<Rightarrow> bool \<Rightarrow> string \<Rightarrow> int \<Rightarrow> nat \<Rightarrow> (Datagram \<times> bytes) result \<Rightarrow> 'm mux_cudp \<Rightarrow> 'm mux_cudp" where
  "uc_round cm can_dial resolved now h r u =
     (if uc_cancelled u then uc_ends cm h u
      else case r of
             Inl _ \<Rightarrow> uc_ends cm h u
           | Inr (da, rest) \<Rightarrow>
               (let k = AddrSpec_String (Addr da);
                    u = u\<lparr>uc_streams := upd_at h (\<lambda>x. x\<lparr>ms_in := rest, ms_read := ms_read x @ [da], uh_cacheSrcAddr := k\<rparr>) (uc_streams u)\<rparr>
                in case cm_Get cm k (mgr_map (uc_udpConns u)) of
                     Some i \<Rightarrow> uc_forward now h i (Data da) u
                   | None \<Rightarrow>
                       if \<not> can_dial then uc_ends cm h u
                       else uc_forward now h (length (uc_items u)) (Data da) (uc_dial cm resolved h k u)))"

text \<open>The goroutine that writes a datagram on the socket.\<close>

definition uc_write :: "bool \<Rightarrow> nat \<Rightarrow> bytes \<Rightarrow> 'm mux_cudp \<Rightarrow> 'm mux_cudp" where
  "uc_write ok h d u =
     (let u = u\<lparr>uc_writes := remove1 (h, d) (uc_writes u)\<rparr> in
      case uh_item (uc_streams u ! h) of
        None \<Rightarrow> u
      | Some i \<Rightarrow> u\<lparr>uc_items := upd_at i (\<lambda>x. if ok \<and> \<not> uc_closed x then x\<lparr>uc_out := uc_out x @ [(h, d)]\<rparr> else x) (uc_items u)\<rparr>)"

subsection \<open>runUdpReceive\<close>

definition uc_starts :: "('m, nat) cmap \<Rightarrow> nat \<Rightarrow> 'm mux_cudp \<Rightarrow> 'm mux_cudp" where
  "uc_starts cm h u =
     (let k = uh_cacheSrcAddr (uc_streams u ! h) in
      u\<lparr>uc_starting := remove1 h (uc_starting u),
        uc_readers := (case cm_Get cm k (mgr_map (uc_udpConns u)) of None \<Rightarrow> [] | Some i \<Rightarrow> [(k, i)]) @ uc_readers u\<rparr>)"

definition uc_released :: "('m, nat) cmap \<Rightarrow> string \<Rightarrow> nat \<Rightarrow> 'm mux_cudp \<Rightarrow> 'm mux_cudp" where
  "uc_released cm k i u =
     u\<lparr>uc_udpConns := (uc_udpConns u)\<lparr>mgr_map := cm_Remove cm k (mgr_map (uc_udpConns u))\<rparr>,
       uc_streams := ms_Close (uc_conn (uc_items u ! i)) (uc_streams u), uc_items := uc_Close i (uc_items u),
       uc_readers := remove1 (k, i) (uc_readers u)\<rparr>"

definition uc_reads :: "('m, nat) cmap \<Rightarrow> int \<Rightarrow> string \<Rightarrow> nat \<Rightarrow> bytes result \<Rightarrow> 'm mux_cudp \<Rightarrow> 'm mux_cudp" where
  "uc_reads cm now k i r u =
     (case r of
        Inl _ \<Rightarrow> uc_released cm k i u
      | Inr p \<Rightarrow>
          u\<lparr>uc_items := upd_at i (\<lambda>x. x\<lparr>uc_lastActiveTime := now, uc_replies := uc_replies x @ [take BindingSize p]\<rparr>) (uc_items u),
            uc_frames := (i, take BindingSize p) # uc_frames u\<rparr>)"

text \<open>The goroutine that frames an answer and writes it on the stream; every error closes the socket.\<close>

definition uc_frame :: "nat option \<Rightarrow> nat \<Rightarrow> bytes \<Rightarrow> 'm mux_cudp \<Rightarrow> 'm mux_cudp" where
  "uc_frame fails i p u =
     (let u = u\<lparr>uc_frames := remove1 (i, p) (uc_frames u)\<rparr>; x = uc_items u ! i in
      case stream_frame (uc_srcAddr x) p of
        Inl _ \<Rightarrow> u\<lparr>uc_items := uc_Close i (uc_items u)\<rparr>
      | Inr b \<Rightarrow>
          if ms_closed (uc_streams u ! uc_conn x) then u\<lparr>uc_items := uc_Close i (uc_items u)\<rparr>
          else case fails of
                 None \<Rightarrow> u\<lparr>uc_streams := upd_at (uc_conn x) (\<lambda>y. y\<lparr>ms_out := ms_out y @ [b]\<rparr>) (uc_streams u)\<rparr>
               | Some n \<Rightarrow> u\<lparr>uc_streams := (if n = 0 then uc_streams u else upd_at (uc_conn x) (\<lambda>y. y\<lparr>ms_out := ms_out y @ [take n b]\<rparr>) (uc_streams u)),
                             uc_items := uc_Close i (uc_items u)\<rparr>)"

subsection \<open>The collector and Stop\<close>

definition uc_tick :: "('m, nat) cmap \<Rightarrow> int \<Rightarrow> 'm mux_cudp \<Rightarrow> 'm mux_cudp" where
  "uc_tick cm now u = u\<lparr>uc_gc := gc_tick cm now (mgr_map (uc_udpConns u))\<rparr>"

definition uc_check :: "'m mux_cudp \<Rightarrow> 'm mux_cudp" where
  "uc_check u = (case mgr_gcIterCb (uc_udpConns u) of
     None \<Rightarrow> u | Some cb \<Rightarrow> (let (g, w) = gc_check cb (uc_gc u) (uc_streams u, uc_items u) in u\<lparr>uc_gc := g, uc_streams := fst w, uc_items := snd w\<rparr>))"

definition uc_remove :: "('m, nat) cmap \<Rightarrow> 'm mux_cudp \<Rightarrow> 'm mux_cudp" where
  "uc_remove cm u = (let (g, m) = gc_remove cm (uc_gc u) (mgr_map (uc_udpConns u))
     in u\<lparr>uc_gc := g, uc_udpConns := (uc_udpConns u)\<lparr>mgr_map := m\<rparr>\<rparr>)"

text \<open>\<open>Stop\<close> cancels the context and closes the session, and with it every stream.\<close>

definition uc_Stop :: "'m mux_cudp \<Rightarrow> 'm mux_cudp" where
  "uc_Stop u = u\<lparr>uc_cancelled := True, uc_streams := map (\<lambda>x. x\<lparr>ms_closed := True\<rparr>) (uc_streams u)\<rparr>"

subsection \<open>Interleaving\<close>

text \<open>With the flag \<open>sole\<close> a stream carries the datagrams of one source, no source is used on two streams, and no write on a stream fails half way.\<close>

definition uc_alien :: "('m, nat) cmap \<Rightarrow> nat \<Rightarrow> string \<Rightarrow> 'm mux_cudp \<Rightarrow> bool" where
  "uc_alien cm h k u \<longleftrightarrow>
     ms_read (uc_streams u ! h) \<noteq> [] \<and> uh_cacheSrcAddr (uc_streams u ! h) \<noteq> k \<or>
     (case cm_Get cm k (mgr_map (uc_udpConns u)) of None \<Rightarrow> False | Some i \<Rightarrow> uc_conn (uc_items u ! i) \<noteq> h)"

inductive uc_step :: "bool \<Rightarrow> ('m, nat) cmap \<Rightarrow> 'm mux_cudp \<Rightarrow> 'm mux_cudp \<Rightarrow> bool" for sole :: bool and cm :: "('m, nat) cmap" where
  c_accept: "\<not> uc_cancelled u \<Longrightarrow> uc_step sole cm u (uc_accept localAddr u)"
| c_arrive: "uc_step sole cm u (u\<lparr>uc_streams := upd_at h (\<lambda>x. x\<lparr>ms_in := ms_in x @ bs\<rparr>) (uc_streams u)\<rparr>)"
| c_round: "h < length (uc_streams u) \<Longrightarrow> \<not> uh_ended (uc_streams u ! h) \<Longrightarrow> ParseStreamDatagram (ms_in (uc_streams u ! h)) = Inr (da, rest) \<Longrightarrow>
    \<not> (sole \<and> uc_alien cm h (AddrSpec_String (Addr da)) u) \<Longrightarrow> uc_step sole cm u (uc_round cm can_dial resolved now h (Inr (da, rest)) u)"
| c_fails: "h < length (uc_streams u) \<Longrightarrow> \<not> uh_ended (uc_streams u ! h) \<Longrightarrow> uc_step sole cm u (uc_round cm can_dial resolved now h (Inl err) u)"
| c_write: "(h, d) \<in> set (uc_writes u) \<Longrightarrow> uc_step sole cm u (uc_write ok h d u)"
| c_starts: "h \<in> set (uc_starting u) \<Longrightarrow> uc_step sole cm u (uc_starts cm h u)"
| c_reads: "(k, i) \<in> set (uc_readers u) \<Longrightarrow> uc_step sole cm u (uc_reads cm now k i r u)"
| c_frame: "(i, p) \<in> set (uc_frames u) \<Longrightarrow> \<not> (sole \<and> fails \<noteq> None \<and> fails \<noteq> Some 0) \<Longrightarrow> uc_step sole cm u (uc_frame fails i p u)"
| c_tick: "watches (uc_udpConns u) \<Longrightarrow> \<not> gc_busy (uc_gc u) \<Longrightarrow> uc_step sole cm u (uc_tick cm now u)"
| c_check: "gc_del (uc_gc u) = None \<Longrightarrow> uc_step sole cm u (uc_check u)"
| c_remove: "uc_step sole cm u (uc_remove cm u)"
| c_stop: "uc_step sole cm u (uc_Stop u)"

inductive uc_reach :: "bool \<Rightarrow> ('m, nat) cmap \<Rightarrow> 'm mux_cudp \<Rightarrow> bool" for sole :: bool and cm :: "('m, nat) cmap" where
  uc_start: "uc_reach sole cm (uc_New cm)"
| uc_next: "uc_reach sole cm u \<Longrightarrow> uc_step sole cm u u' \<Longrightarrow> uc_reach sole cm u'"

subsection \<open>Invariant\<close>

text \<open>What was sent on a socket was read from the stream of the socket, with the address of the socket.\<close>

definition uc_item_ok :: "bool \<Rightarrow> uc_stream list \<Rightarrow> uc_item \<Rightarrow> bool" where
  "uc_item_ok sole S x \<longleftrightarrow> uc_conn x < length S \<and>
     (sole \<longrightarrow> (\<forall>(c, d) \<in> set (uc_out x). c = uc_conn x \<and> (\<exists>da \<in> set (ms_read (S ! c)). Data da = d \<and> AddrSpec_String (Addr da) = uc_key x)))"

text \<open>A block on a stream frames an answer on a socket of the stream.\<close>

definition uc_framed :: "uc_item list \<Rightarrow> nat \<Rightarrow> bytes \<Rightarrow> bool" where
  "uc_framed I h b \<longleftrightarrow> (\<exists>i < length I. uc_conn (I ! i) = h \<and> (\<exists>p \<in> set (uc_replies (I ! i)). stream_frame (uc_srcAddr (I ! i)) p = Inr b))"

definition uc_stream_ok :: "bool \<Rightarrow> uc_item list \<Rightarrow> nat \<Rightarrow> uc_stream \<Rightarrow> bool" where
  "uc_stream_ok sole I h x \<longleftrightarrow>
     (\<forall>i. uh_item x = Some i \<longrightarrow> ms_read x \<noteq> [] \<and> i < length I \<and> (sole \<longrightarrow> uc_conn (I ! i) = h \<and> uc_key (I ! i) = uh_cacheSrcAddr x)) \<and>
     (sole \<longrightarrow> (\<forall>da \<in> set (ms_read x). AddrSpec_String (Addr da) = uh_cacheSrcAddr x) \<and> (\<forall>b \<in> set (ms_out x). uc_framed I h b))"

definition uc_write_ok :: "uc_stream list \<Rightarrow> nat \<times> bytes \<Rightarrow> bool" where
  "uc_write_ok S w \<longleftrightarrow> fst w < length S \<and> uh_item (S ! fst w) \<noteq> None \<and> snd w \<in> Data ` set (ms_read (S ! fst w))"

definition uc_frame_ok :: "uc_item list \<Rightarrow> nat \<times> bytes \<Rightarrow> bool" where
  "uc_frame_ok I w \<longleftrightarrow> fst w < length I \<and> snd w \<in> set (uc_replies (I ! fst w))"

definition uc_inv :: "bool \<Rightarrow> ('m, nat) cmap \<Rightarrow> 'm mux_cudp \<Rightarrow> bool" where
  "uc_inv sole cm u \<longleftrightarrow> mgr_gcIterCb (uc_udpConns u) = Some uc_gc_cb \<and>
     (\<forall>k i. cm_Get cm k (mgr_map (uc_udpConns u)) = Some i \<longrightarrow> i < length (uc_items u) \<and> uc_key (uc_items u ! i) = k) \<and>
     (\<forall>h < length (uc_streams u). uc_stream_ok sole (uc_items u) h (uc_streams u ! h)) \<and>
     (\<forall>i < length (uc_items u). uc_item_ok sole (uc_streams u) (uc_items u ! i)) \<and>
     (\<forall>w \<in> set (uc_writes u). uc_write_ok (uc_streams u) w) \<and> (\<forall>h \<in> set (uc_starting u). h < length (uc_streams u)) \<and>
     (\<forall>r \<in> set (uc_readers u). snd r < length (uc_items u)) \<and> (\<forall>w \<in> set (uc_frames u). uc_frame_ok (uc_items u) w)"

text \<open>Streams and items that have grown keep what refers to them.\<close>

definition ms_grow :: "uc_stream list \<Rightarrow> uc_stream list \<Rightarrow> bool" where
  "ms_grow S S' \<longleftrightarrow> length S \<le> length S' \<and>
     (\<forall>h < length S. set (ms_read (S ! h)) \<subseteq> set (ms_read (S' ! h)) \<and> (uh_item (S ! h) \<noteq> None \<longrightarrow> uh_item (S' ! h) \<noteq> None))"

definition uc_grow :: "uc_item list \<Rightarrow> uc_item list \<Rightarrow> bool" where
  "uc_grow I I' \<longleftrightarrow> length I \<le> length I' \<and>
     (\<forall>i < length I. uc_conn (I' ! i) = uc_conn (I ! i) \<and> uc_key (I' ! i) = uc_key (I ! i) \<and> uc_srcAddr (I' ! i) = uc_srcAddr (I ! i) \<and>
        set (uc_replies (I ! i)) \<subseteq> set (uc_replies (I' ! i)))"

lemma ms_grow_ok:
  assumes "ms_grow S S'"
  shows "uc_item_ok sole S x \<Longrightarrow> uc_item_ok sole S' x" "uc_write_ok S w \<Longrightarrow> uc_write_ok S' w" "h < length S \<Longrightarrow> h < length S'"
  using assms by (fastforce simp: ms_grow_def uc_item_ok_def uc_write_ok_def)+

lemma uc_grow_framed:
  assumes "uc_grow I I'" "uc_framed I h b"
  shows "uc_framed I' h b"
proof -
  obtain i p where "i < length I" "uc_conn (I ! i) = h" "p \<in> set (uc_replies (I ! i))" "stream_frame (uc_srcAddr (I ! i)) p = Inr b"
    using assms(2) by (auto simp: uc_framed_def)
  then show ?thesis using assms(1) unfolding uc_framed_def uc_grow_def by (intro exI [of _ i]) auto
qed

lemma uc_grow_ok:
  assumes "uc_grow I I'"
  shows "uc_stream_ok sole I h x \<Longrightarrow> uc_stream_ok sole I' h x" "uc_frame_ok I w \<Longrightarrow> uc_frame_ok I' w" "i < length I \<Longrightarrow> i < length I'"
    "i < length I \<Longrightarrow> uc_key (I' ! i) = uc_key (I ! i)"
  using assms uc_grow_framed [OF assms] unfolding uc_grow_def uc_stream_ok_def uc_frame_ok_def by auto

text \<open>A change that only concerns what is open, active or yet to be read.\<close>

definition ms_quiet :: "uc_stream list \<Rightarrow> uc_stream list \<Rightarrow> bool" where
  "ms_quiet S S' \<longleftrightarrow> length S' = length S \<and>
     (\<forall>h < length S. ms_read (S' ! h) = ms_read (S ! h) \<and> ms_out (S' ! h) = ms_out (S ! h) \<and> uh_item (S' ! h) = uh_item (S ! h) \<and>
        uh_cacheSrcAddr (S' ! h) = uh_cacheSrcAddr (S ! h))"

definition uc_quiet :: "uc_item list \<Rightarrow> uc_item list \<Rightarrow> bool" where
  "uc_quiet I I' \<longleftrightarrow> length I' = length I \<and>
     (\<forall>i < length I. uc_conn (I' ! i) = uc_conn (I ! i) \<and> uc_key (I' ! i) = uc_key (I ! i) \<and> uc_srcAddr (I' ! i) = uc_srcAddr (I ! i) \<and>
        uc_out (I' ! i) = uc_out (I ! i) \<and> uc_replies (I' ! i) = uc_replies (I ! i))"

lemma quiet_grow: "ms_quiet S S' \<Longrightarrow> ms_grow S S'" "uc_quiet I I' \<Longrightarrow> uc_grow I I'"
  by (simp_all add: ms_quiet_def ms_grow_def uc_quiet_def uc_grow_def)

lemma quiet_simps [simp]:
  "ms_quiet S S" "uc_quiet I I" "ms_quiet S (ms_Close c S)" "uc_quiet I (uc_Close i I)"
  "ms_quiet S (upd_at h (\<lambda>x. x\<lparr>ms_in := f x\<rparr>) S)" "ms_quiet S (upd_at h (\<lambda>x. x\<lparr>ms_closed := True, uh_ended := True\<rparr>) S)"
  "ms_quiet S (map (\<lambda>x. x\<lparr>ms_closed := True\<rparr>) S)" "uc_quiet I (upd_at i (\<lambda>x. x\<lparr>uc_lastActiveTime := now\<rparr>) I)"
  by (auto simp: ms_quiet_def uc_quiet_def ms_Close_def uc_Close_def)

lemma ms_quiet_Close [simp]: "ms_quiet S S' \<Longrightarrow> ms_quiet S (ms_Close c S')"
  by (auto simp: ms_quiet_def ms_Close_def)

lemma uc_inv_quiet:
  assumes "uc_inv sole cm u" "ms_quiet (uc_streams u) (uc_streams u')" "uc_quiet (uc_items u) (uc_items u')"
    "mgr_gcIterCb (uc_udpConns u') = mgr_gcIterCb (uc_udpConns u)"
    "\<And>k i. cm_Get cm k (mgr_map (uc_udpConns u')) = Some i \<Longrightarrow> cm_Get cm k (mgr_map (uc_udpConns u)) = Some i"
    "set (uc_writes u') \<subseteq> set (uc_writes u)" "set (uc_starting u') \<subseteq> set (uc_starting u)"
    "set (uc_readers u') \<subseteq> set (uc_readers u)" "set (uc_frames u') \<subseteq> set (uc_frames u)"
  shows "uc_inv sole cm u'"
proof -
  note g = quiet_grow(1) [OF assms(2)] quiet_grow(2) [OF assms(3)]
  have l: "length (uc_streams u') = length (uc_streams u)" "length (uc_items u') = length (uc_items u)" using assms(2,3) by (simp_all add: ms_quiet_def uc_quiet_def)
  have "uc_stream_ok sole (uc_items u') h (uc_streams u' ! h)" if "h < length (uc_streams u)" for h
  proof -
    have "uc_stream_ok sole (uc_items u') h (uc_streams u ! h)" using that assms(1) uc_grow_ok(1) [OF g(2)] by (simp add: uc_inv_def)
    then show ?thesis using that assms(2) by (simp add: ms_quiet_def uc_stream_ok_def)
  qed
  moreover have "uc_item_ok sole (uc_streams u') (uc_items u' ! i)" if "i < length (uc_items u)" for i
  proof -
    have "uc_item_ok sole (uc_streams u') (uc_items u ! i)" using that assms(1) ms_grow_ok(1) [OF g(1)] by (simp add: uc_inv_def)
    then show ?thesis using that assms(3) by (simp add: uc_quiet_def uc_item_ok_def)
  qed
  moreover have "\<forall>w \<in> set (uc_writes u'). uc_write_ok (uc_streams u') w" using assms(1,6) ms_grow_ok(2) [OF g(1)] by (auto simp: uc_inv_def)
  moreover have "\<forall>w \<in> set (uc_frames u'). uc_frame_ok (uc_items u') w" using assms(1,9) uc_grow_ok(2) [OF g(2)] by (auto simp: uc_inv_def)
  moreover have "\<forall>h \<in> set (uc_starting u'). h < length (uc_streams u)" "\<forall>r \<in> set (uc_readers u'). snd r < length (uc_items u)"
    using assms(1,7,8) by (auto simp: uc_inv_def)
  moreover have "i < length (uc_items u) \<and> uc_key (uc_items u' ! i) = k" if "cm_Get cm k (mgr_map (uc_udpConns u')) = Some i" for k i
    using assms(1) assms(5) [OF that] uc_grow_ok(4) [OF g(2)] by (auto simp: uc_inv_def)
  ultimately show ?thesis using assms(1,4) l by (simp add: uc_inv_def)
qed

lemma uc_inv_ends:
  assumes "cmap_laws cm" "uc_inv sole cm u"
  shows "uc_inv sole cm (uc_ends cm h u)"
  by (rule uc_inv_quiet [OF assms(2)])
    (auto simp: uc_ends_def Let_def cmap_Remove [OF assms(1)] split: option.splits if_splits)

lemma uc_inv_released:
  assumes "cmap_laws cm" "uc_inv sole cm u"
  shows "uc_inv sole cm (uc_released cm k i u)"
  by (rule uc_inv_quiet [OF assms(2)]) (auto simp: uc_released_def cmap_Remove [OF assms(1)] split: if_splits dest: in_remove1D)

lemma uc_inv_check:
  assumes "uc_inv sole cm u"
  shows "uc_inv sole cm (uc_check u)"
proof -
  have cb: "mgr_gcIterCb (uc_udpConns u) = Some uc_gc_cb" using assms by (simp add: uc_inv_def)
  show ?thesis
  proof (cases "gc_items (uc_gc u)")
    case Nil
    then show ?thesis by (intro uc_inv_quiet [OF assms]) (simp_all add: uc_check_def cb gc_check_def)
  next
    case (Cons kv r)
    obtain k v where "kv = (k, v)" by (cases kv)
    with Cons show ?thesis
      by (cases "MaxUDPIdleTime < gc_now (uc_gc u) - uc_lastActiveTime (uc_items u ! v)"; intro uc_inv_quiet [OF assms])
        (simp_all add: uc_check_def cb gc_check_def uc_gc_cb_def)
  qed
qed

lemma uc_inv_gc:
  assumes "cmap_laws cm" "uc_inv sole cm u"
  shows "uc_inv sole cm (uc_tick cm now u)" "uc_inv sole cm (uc_remove cm u)" "uc_inv sole cm (uc_Stop u)"
    "uc_inv sole cm (u\<lparr>uc_streams := upd_at h (\<lambda>x. x\<lparr>ms_in := ms_in x @ bs\<rparr>) (uc_streams u)\<rparr>)"
  by (rule uc_inv_quiet [OF assms(2)];
      auto simp: uc_tick_def uc_remove_def gc_remove_def uc_Stop_def cmap_Remove [OF assms(1)] split: option.splits if_splits)+

lemma uc_inv_starts:
  assumes "uc_inv sole cm u"
  shows "uc_inv sole cm (uc_starts cm h u)"
  using assms by (auto simp: uc_inv_def uc_starts_def Let_def split: option.splits dest: in_remove1D)

lemma uc_inv_accept:
  assumes "uc_inv sole cm u"
  shows "uc_inv sole cm (uc_accept a u)"
proof -
  have g: "ms_grow (uc_streams u) (uc_streams (uc_accept a u))" by (simp add: ms_grow_def uc_accept_def nth_append)
  have "uc_stream_ok sole (uc_items u) h (uc_streams (uc_accept a u) ! h)" if "h < Suc (length (uc_streams u))" for h
    using that assms by (auto simp: uc_inv_def uc_accept_def nth_append less_Suc_eq uc_stream_ok_def)
  then show ?thesis using assms ms_grow_ok [OF g] by (simp add: uc_inv_def) (simp add: uc_accept_def less_Suc_eq)
qed

text \<open>The parts of a round.\<close>

lemma uc_inv_heard:
  assumes "uc_inv sole cm u" "h < length (uc_streams u)" "\<not> (sole \<and> uc_alien cm h (AddrSpec_String (Addr da)) u)"
  shows "uc_inv sole cm (u\<lparr>uc_streams := upd_at h (\<lambda>x. x\<lparr>ms_in := rest, ms_read := ms_read x @ [da], uh_cacheSrcAddr := AddrSpec_String (Addr da)\<rparr>) (uc_streams u)\<rparr>)"
proof -
  define S' where "S' = upd_at h (\<lambda>x. x\<lparr>ms_in := rest, ms_read := ms_read x @ [da], uh_cacheSrcAddr := AddrSpec_String (Addr da)\<rparr>) (uc_streams u)"
  have l: "length S' = length (uc_streams u)" by (simp add: S'_def)
  have g: "ms_grow (uc_streams u) S'" by (auto simp: ms_grow_def S'_def)
  have "uc_stream_ok sole (uc_items u) j (S' ! j)" if j: "j < length (uc_streams u)" for j
  proof -
    have o: "uc_stream_ok sole (uc_items u) j (uc_streams u ! j)" using assms(1) j by (simp add: uc_inv_def)
    have c: "uh_cacheSrcAddr (uc_streams u ! h) = AddrSpec_String (Addr da)" if "sole" "ms_read (uc_streams u ! h) \<noteq> []"
      using assms(3) that by (auto simp: uc_alien_def)
    show ?thesis using o j by (cases "j = h") (auto simp: S'_def uc_stream_ok_def c dest: c [symmetric])
  qed
  then show ?thesis using assms(1) ms_grow_ok [OF g] l by (simp add: uc_inv_def S'_def [symmetric])
qed

lemma uc_inv_dial:
  assumes "cmap_laws cm" "uc_inv sole cm u" "h < length (uc_streams u)"
  shows "uc_inv sole cm (uc_dial cm resolved h k u)"
proof -
  have g: "uc_grow (uc_items u) (uc_items (uc_dial cm resolved h k u))" by (simp add: uc_grow_def uc_dial_def nth_append)
  have "uc_item_ok sole (uc_streams u) (uc_items (uc_dial cm resolved h k u) ! i)" if "i < Suc (length (uc_items u))" for i
    using that assms(2,3) by (auto simp: uc_inv_def uc_dial_def nth_append less_Suc_eq uc_item_ok_def)
  moreover have "uc_key (uc_items (uc_dial cm resolved h k u) ! length (uc_items u)) = k" by (simp add: uc_dial_def)
  moreover have "i < length (uc_items u) \<Longrightarrow> uc_key (uc_items (uc_dial cm resolved h k u) ! i) = uc_key (uc_items u ! i)" for i
    by (rule uc_grow_ok(4) [OF g])
  ultimately show ?thesis using assms(2,3) uc_grow_ok(1,2) [OF g]
    by (simp add: uc_inv_def) (auto simp: uc_dial_def cmap_Set [OF assms(1)] less_Suc_eq)
qed

lemma uc_inv_forward:
  assumes "uc_inv sole cm u" "h < length (uc_streams u)" "i < length (uc_items u)"
    "sole \<longrightarrow> uc_conn (uc_items u ! i) = h \<and> uc_key (uc_items u ! i) = uh_cacheSrcAddr (uc_streams u ! h)" "d \<in> Data ` set (ms_read (uc_streams u ! h))"
  shows "uc_inv sole cm (uc_forward now h i d u)"
proof -
  define u1 where "u1 = u\<lparr>uc_items := upd_at i (\<lambda>x. x\<lparr>uc_lastActiveTime := now\<rparr>) (uc_items u)\<rparr>"
  have 1: "uc_inv sole cm u1" by (rule uc_inv_quiet [OF assms(1)]) (simp_all add: u1_def)
  define S' where "S' = upd_at h (\<lambda>x. x\<lparr>uh_item := Some i\<rparr>) (uc_streams u)"
  have g: "ms_grow (uc_streams u1) S'" "length S' = length (uc_streams u1)" by (auto simp: ms_grow_def S'_def u1_def)
  have i: "i < length (uc_items u1)" "sole \<longrightarrow> uc_conn (uc_items u1 ! i) = h \<and> uc_key (uc_items u1 ! i) = uh_cacheSrcAddr (uc_streams u1 ! h)"
    using assms(3,4) by (simp_all add: u1_def)
  have s: "uc_streams u1 = uc_streams u" by (simp add: u1_def)
  have "uc_stream_ok sole (uc_items u1) j (S' ! j)" if "j < length (uc_streams u1)" for j
  proof -
    have "uc_stream_ok sole (uc_items u1) j (uc_streams u ! j)" using 1 that s by (simp add: uc_inv_def)
    then show ?thesis using that i assms(5) s by (cases "j = h") (auto simp: uc_stream_ok_def S'_def)
  qed
  moreover have "uc_write_ok S' (h, d)" using assms(2,5) by (simp add: uc_write_ok_def S'_def)
  moreover have "uc_forward now h i d u = u1\<lparr>uc_streams := S', uc_writes := (h, d) # uc_writes u1\<rparr>" by (simp add: uc_forward_def u1_def S'_def)
  ultimately show ?thesis using 1 ms_grow_ok [OF g(1)] g(2) by (simp add: uc_inv_def)
qed

lemma uc_inv_round:
  assumes "cmap_laws cm" "uc_inv sole cm u" "h < length (uc_streams u)"
    and "\<And>da rest. r = Inr (da, rest) \<Longrightarrow> \<not> (sole \<and> uc_alien cm h (AddrSpec_String (Addr da)) u)"
  shows "uc_inv sole cm (uc_round cm can_dial resolved now h r u)"
proof (cases "uc_cancelled u \<or> (\<exists>e. r = Inl e)")
  case True
  then show ?thesis using uc_inv_ends [OF assms(1,2)] by (auto simp: uc_round_def)
next
  case False
  then obtain da rest where r: "r = Inr (da, rest)" by (cases r) auto
  define k where "k = AddrSpec_String (Addr da)"
  define u1 where "u1 = u\<lparr>uc_streams := upd_at h (\<lambda>x. x\<lparr>ms_in := rest, ms_read := ms_read x @ [da], uh_cacheSrcAddr := k\<rparr>) (uc_streams u)\<rparr>"
  have 1: "uc_inv sole cm u1" unfolding u1_def k_def by (rule uc_inv_heard [OF assms(2,3) assms(4) [OF r]])
  have h: "h < length (uc_streams u1)" "Data da \<in> Data ` set (ms_read (uc_streams u1 ! h))" "uh_cacheSrcAddr (uc_streams u1 ! h) = k"
    using assms(3) by (simp_all add: u1_def)
  show ?thesis
  proof (cases "cm_Get cm k (mgr_map (uc_udpConns u))")
    case (Some i)
    then have "i < length (uc_items u1)" "uc_key (uc_items u1 ! i) = k" "sole \<longrightarrow> uc_conn (uc_items u1 ! i) = h"
      using assms(2) assms(4) [OF r] by (auto simp: uc_inv_def u1_def uc_alien_def k_def)
    then have "uc_inv sole cm (uc_forward now h i (Data da) u1)" using 1 h by (intro uc_inv_forward) simp_all
    then show ?thesis using False Some by (simp add: uc_round_def r k_def [symmetric] u1_def [symmetric] Let_def)
  next
    case None
    have "uc_inv sole cm (uc_forward now h (length (uc_items u1)) (Data da) (uc_dial cm resolved h k u1))"
      using uc_inv_dial [OF assms(1) 1 h(1)] h by (intro uc_inv_forward) (simp_all add: uc_dial_def)
    then show ?thesis using False None uc_inv_ends [OF assms(1) 1] by (simp add: uc_round_def r k_def [symmetric] u1_def [symmetric] Let_def)
  qed
qed

lemma uc_inv_write:
  assumes "uc_inv sole cm u" "(h, d) \<in> set (uc_writes u)"
  shows "uc_inv sole cm (uc_write ok h d u)"
proof -
  have w: "h < length (uc_streams u)" "uh_item (uc_streams u ! h) \<noteq> None" "d \<in> Data ` set (ms_read (uc_streams u ! h))"
    using assms by (auto simp: uc_inv_def uc_write_ok_def)
  then obtain i where i: "uh_item (uc_streams u ! h) = Some i" by blast
  have s: "uc_stream_ok sole (uc_items u) h (uc_streams u ! h)" using assms(1) w(1) by (simp add: uc_inv_def)
  define I' where "I' = upd_at i (\<lambda>x. if ok \<and> \<not> uc_closed x then x\<lparr>uc_out := uc_out x @ [(h, d)]\<rparr> else x) (uc_items u)"
  have g: "uc_grow (uc_items u) I'" "length I' = length (uc_items u)" by (auto simp: uc_grow_def I'_def)
  have "uc_item_ok sole (uc_streams u) (I' ! j)" if "j < length (uc_items u)" for j
  proof -
    have o: "uc_item_ok sole (uc_streams u) (uc_items u ! j)" using assms(1) that by (simp add: uc_inv_def)
    have "sole \<Longrightarrow> uc_conn (uc_items u ! i) = h \<and> (\<exists>da \<in> set (ms_read (uc_streams u ! h)). Data da = d \<and> AddrSpec_String (Addr da) = uc_key (uc_items u ! i))"
      using s i w(3) by (auto simp: uc_stream_ok_def)
    then show ?thesis using o that by (cases "j = i") (auto simp: I'_def uc_item_ok_def)
  qed
  moreover have "i < length (uc_items u) \<Longrightarrow> uc_key (I' ! i) = uc_key (uc_items u ! i)" for i by (rule uc_grow_ok(4) [OF g(1)])
  moreover have "uc_write ok h d u = u\<lparr>uc_writes := remove1 (h, d) (uc_writes u), uc_items := I'\<rparr>" by (simp add: uc_write_def i I'_def)
  ultimately show ?thesis using assms(1) uc_grow_ok(1,2) [OF g(1)] g(2) by (auto simp: uc_inv_def dest: in_remove1D)
qed

lemma uc_inv_reads:
  assumes "cmap_laws cm" "uc_inv sole cm u" "(k, i) \<in> set (uc_readers u)"
  shows "uc_inv sole cm (uc_reads cm now k i r u)"
proof (cases r)
  case (Inl e)
  then show ?thesis using uc_inv_released [OF assms(1,2)] by (simp add: uc_reads_def)
next
  case (Inr p)
  define I' where "I' = upd_at i (\<lambda>x. x\<lparr>uc_lastActiveTime := now, uc_replies := uc_replies x @ [take BindingSize p]\<rparr>) (uc_items u)"
  have i: "i < length (uc_items u)" using assms(2,3) by (auto simp: uc_inv_def)
  have g: "uc_grow (uc_items u) I'" "length I' = length (uc_items u)" by (auto simp: uc_grow_def I'_def)
  have "uc_item_ok sole (uc_streams u) (I' ! j)" if "j < length (uc_items u)" for j
  proof -
    have "uc_item_ok sole (uc_streams u) (uc_items u ! j)" using assms(2) that by (simp add: uc_inv_def)
    then show ?thesis using that by (simp add: I'_def uc_item_ok_def)
  qed
  moreover have "i < length (uc_items u) \<Longrightarrow> uc_key (I' ! i) = uc_key (uc_items u ! i)" for i by (rule uc_grow_ok(4) [OF g(1)])
  moreover have "uc_frame_ok I' (i, take BindingSize p)" using i by (simp add: uc_frame_ok_def I'_def)
  moreover have "uc_reads cm now k i r u = u\<lparr>uc_items := I', uc_frames := (i, take BindingSize p) # uc_frames u\<rparr>" by (simp add: uc_reads_def Inr I'_def)
  ultimately show ?thesis using assms(2) uc_grow_ok(1,2) [OF g(1)] g(2) by (simp add: uc_inv_def)
qed

lemma uc_inv_out:
  assumes "uc_inv sole cm u" "sole \<longrightarrow> uc_framed (uc_items u) c b"
  shows "uc_inv sole cm (u\<lparr>uc_streams := upd_at c (\<lambda>y. y\<lparr>ms_out := ms_out y @ [b]\<rparr>) (uc_streams u)\<rparr>)"
proof -
  define S' where "S' = upd_at c (\<lambda>y. y\<lparr>ms_out := ms_out y @ [b]\<rparr>) (uc_streams u)"
  have g: "ms_grow (uc_streams u) S'" "length S' = length (uc_streams u)" by (auto simp: ms_grow_def S'_def)
  have "uc_stream_ok sole (uc_items u) h (S' ! h)" if "h < length (uc_streams u)" for h
  proof -
    have "uc_stream_ok sole (uc_items u) h (uc_streams u ! h)" using assms(1) that by (simp add: uc_inv_def)
    then show ?thesis using that assms(2) by (auto simp: S'_def uc_stream_ok_def)
  qed
  then show ?thesis using assms(1) ms_grow_ok [OF g(1)] g(2) by (simp add: uc_inv_def S'_def [symmetric])
qed

lemma uc_inv_frame:
  assumes "uc_inv sole cm u" "(i, p) \<in> set (uc_frames u)" "\<not> (sole \<and> fails \<noteq> None \<and> fails \<noteq> Some 0)"
  shows "uc_inv sole cm (uc_frame fails i p u)"
proof -
  define u1 where "u1 = u\<lparr>uc_frames := remove1 (i, p) (uc_frames u)\<rparr>"
  have 1: "uc_inv sole cm u1" by (rule uc_inv_quiet [OF assms(1)]) (auto simp: u1_def dest: in_remove1D)
  have c: "uc_inv sole cm (v\<lparr>uc_items := uc_Close i (uc_items v)\<rparr>)" if "uc_inv sole cm v" for v by (rule uc_inv_quiet [OF that]) simp_all
  have "\<forall>w \<in> set (uc_frames u). uc_frame_ok (uc_items u) w" using assms(1) by (simp add: uc_inv_def)
  then have "uc_frame_ok (uc_items u) (i, p)" using assms(2) by (rule bspec)
  then have f: "uc_framed (uc_items u1) (uc_conn (uc_items u1 ! i)) b" if "stream_frame (uc_srcAddr (uc_items u1 ! i)) p = Inr b" for b
    using that unfolding uc_framed_def by (intro exI [of _ i]) (auto simp: uc_frame_ok_def u1_def)
  have "uc_inv sole cm (u1\<lparr>uc_streams := upd_at (uc_conn (uc_items u1 ! i)) (\<lambda>y. y\<lparr>ms_out := ms_out y @ [take n b]\<rparr>) (uc_streams u1), uc_items := uc_Close i (uc_items u1)\<rparr>)"
    if "fails = Some n" "n \<noteq> 0" for n b
    using c [OF uc_inv_out [OF 1, of "uc_conn (uc_items u1 ! i)" "take n b"]] that assms(3) by simp
  then show ?thesis
    using c [OF 1] uc_inv_out [OF 1] f unfolding uc_frame_def u1_def [symmetric] Let_def by (simp split: sum.split option.split)
qed

lemma uc_inv_step:
  assumes "uc_step sole cm u u'" "cmap_laws cm" "uc_inv sole cm u"
  shows "uc_inv sole cm u'"
  using assms(1)
proof (cases rule: uc_step.cases)
  case (c_round h da rest ok resolved now)
  then show ?thesis using uc_inv_round [OF assms(2,3), of h "Inr (da, rest)"] by simp
next
  case (c_fails h ok resolved now err)
  then show ?thesis using uc_inv_round [OF assms(2,3), of h "Inl err"] by simp
qed (use assms(2,3) in \<open>auto intro: uc_inv_accept uc_inv_gc uc_inv_write uc_inv_starts uc_inv_reads uc_inv_frame uc_inv_check\<close>)

lemma uc_reach_inv:
  assumes "uc_reach sole cm u" "cmap_laws cm"
  shows "uc_inv sole cm u"
  using assms(1)
proof (induction rule: uc_reach.induct)
  case uc_start
  then show ?case by (simp add: uc_inv_def uc_New_def mgr_New_def cmap_New [OF assms(2)])
next
  case (uc_next u u')
  then show ?case using uc_inv_step [OF _ assms(2)] by blast
qed

end
