(* ===== verification/Mux_Udp_Server.thy ===== *)
theory Mux_Udp_Server
  imports Mux_Udp_Client
begin

section \<open>services/mux/server.go: UDP at the server node\<close>

text \<open>
  With a \<open>udp://\<close> route the server node listens for datagrams. Every datagram has a goroutine of its own (\<open>handleUDP\<close>): it looks up the source in a
  managed table, opens a stream to the bridge for a new source and starts a goroutine (\<open>runUDPReceive\<close>) that sends the answers on it back, and
  then writes the datagram on the stream of the source as a frame.

  A stream and its \<open>UDPConnItem\<close> are an index into \<open>us_items\<close>. The goroutine of a datagram is interleaved with the others between the look-up,
  the opening of the stream and the write: nothing serialises them. The goroutine of the answers looks up its item when it starts. The session of the node is
  that of Mux\_Ends. A write on a stream fails with none or some of the bytes written as the argument says. The
  datagrams to a source are sent by goroutines as well, so that their order in \<open>us_answers\<close> says nothing.
\<close>

record us_item =
  us_src :: string
  us_sessId :: string
  us_lastActiveTime :: int
  us_out :: "bytes list"
  us_in :: bytes
  us_read :: "Datagram list"
  us_answers :: "bytes list"
  us_closed :: bool

datatype us_stage = Looking | Dialling | Sending nat

record 'm mux_sudp =
  us_node :: mux_server
  us_udpConns :: "('m, nat, us_item list) Manager"
  us_items :: "us_item list"
  us_handlers :: "(string \<times> bytes \<times> us_stage) list"
  us_readers :: "(string \<times> nat option) list"
  us_gc :: "nat collector"
  us_recv :: "(string \<times> bytes) list"

definition us_Close :: "nat \<Rightarrow> us_item list \<Rightarrow> us_item list" where
  "us_Close i = upd_at i (\<lambda>x. x\<lparr>us_closed := True\<rparr>)"

definition us_gc_cb :: "(nat, us_item list) gc_cb" where
  "us_gc_cb k v now w = (if now - us_lastActiveTime (w ! v) > MaxUDPIdleTime then (True, us_Close v w) else (False, w))"

definition us_New :: "('m, nat) cmap \<Rightarrow> string \<Rightarrow> mux_config \<Rightarrow> 'm mux_sudp" where
  "us_New cm node cfg = \<lparr>us_node = NewServer_mux node cfg, us_udpConns = mgr_New cm 1000000000 (Some us_gc_cb),
     us_items = [], us_handlers = [], us_readers = [], us_gc = gc_idle, us_recv = []\<rparr>"

subsection \<open>handleUDP\<close>

text \<open>The listening loop: one goroutine for every datagram, of which 2048 bytes are read.\<close>

definition us_receive :: "string \<Rightarrow> bytes \<Rightarrow> 'm mux_sudp \<Rightarrow> 'm mux_sudp" where
  "us_receive src d u = u\<lparr>us_handlers := (src, take 2048 d, Looking) # us_handlers u, us_recv := us_recv u @ [(src, take 2048 d)]\<rparr>"

definition us_look :: "('m, nat) cmap \<Rightarrow> string \<Rightarrow> bytes \<Rightarrow> 'm mux_sudp \<Rightarrow> 'm mux_sudp" where
  "us_look cm src d u =
     u\<lparr>us_handlers := (src, d, case cm_Get cm src (mgr_map (us_udpConns u)) of Some i \<Rightarrow> Sending i | None \<Rightarrow> Dialling)
         # remove1 (src, d, Looking) (us_handlers u)\<rparr>"

text \<open>The opening of the stream, with the handshake on it. On an error the goroutine ends.\<close>

definition us_dial ::
  "('m, nat) cmap \<Rightarrow> (nego \<Rightarrow> bytes result) \<Rightarrow> (hand \<Rightarrow> bytes result) \<Rightarrow> string \<Rightarrow> getconn_env \<Rightarrow> error option \<Rightarrow> string \<Rightarrow> bytes \<Rightarrow> 'm mux_sudp \<Rightarrow> 'm mux_sudp" where
  "us_dial cm marshal marshal_hand sessId g werr src d u =
     (let u = u\<lparr>us_handlers := remove1 (src, d, Dialling) (us_handlers u)\<rparr> in
      case dialThroughRemote marshal marshal_hand sessId g werr (us_node u) of
        (Inl _, node) \<Rightarrow> u\<lparr>us_node := node\<rparr>
      | (Inr (_, w), node) \<Rightarrow>
          u\<lparr>us_node := node,
            us_items := us_items u @ [\<lparr>us_src = src, us_sessId = sessId, us_lastActiveTime = 0, us_out = [w], us_in = [], us_read = [], us_answers = [], us_closed = False\<rparr>],
            us_udpConns := (us_udpConns u)\<lparr>mgr_map := cm_Set cm src (length (us_items u)) (mgr_map (us_udpConns u))\<rparr>,
            us_readers := (src, None) # us_readers u,
            us_handlers := (src, d, Sending (length (us_items u))) # us_handlers u\<rparr>)"

text \<open>A write on a stream, and the rest of \<open>handleUDP\<close>.\<close>

definition us_Write :: "nat option \<Rightarrow> bytes \<Rightarrow> us_item \<Rightarrow> us_item" where
  "us_Write fails b x =
     (if us_closed x then x
      else case fails of
             None \<Rightarrow> x\<lparr>us_out := us_out x @ [b]\<rparr>
           | Some n \<Rightarrow> if n = 0 then x else x\<lparr>us_out := us_out x @ [take n b]\<rparr>)"

definition us_send :: "nat option \<Rightarrow> int \<Rightarrow> string \<Rightarrow> bytes \<Rightarrow> nat \<Rightarrow> 'm mux_sudp \<Rightarrow> 'm mux_sudp" where
  "us_send fails now src d i u =
     u\<lparr>us_handlers := remove1 (src, d, Sending i) (us_handlers u),
       us_items := upd_at i (\<lambda>x. let x = x\<lparr>us_lastActiveTime := now\<rparr> in
          case stream_frame src d of Inl _ \<Rightarrow> x | Inr b \<Rightarrow> us_Write fails b x) (us_items u)\<rparr>"

subsection \<open>runUDPReceive\<close>

definition us_reader_starts :: "('m, nat) cmap \<Rightarrow> string \<Rightarrow> 'm mux_sudp \<Rightarrow> 'm mux_sudp" where
  "us_reader_starts cm k u =
     u\<lparr>us_readers := (case cm_Get cm k (mgr_map (us_udpConns u)) of None \<Rightarrow> [] | Some i \<Rightarrow> [(k, Some i)]) @ remove1 (k, None) (us_readers u)\<rparr>"

definition us_released :: "('m, nat) cmap \<Rightarrow> string \<Rightarrow> nat \<Rightarrow> 'm mux_sudp \<Rightarrow> 'm mux_sudp" where
  "us_released cm k i u =
     u\<lparr>us_udpConns := (us_udpConns u)\<lparr>mgr_map := cm_Remove cm k (mgr_map (us_udpConns u))\<rparr>,
       us_items := us_Close i (us_items u), us_readers := remove1 (k, Some i) (us_readers u)\<rparr>"

text \<open>One round of its loop, on the result of \<open>ParseStreamDatagram\<close>; \<open>ok\<close> is whether the datagram can be sent.\<close>

definition us_reads :: "('m, nat) cmap \<Rightarrow> int \<Rightarrow> bool \<Rightarrow> string \<Rightarrow> nat \<Rightarrow> (Datagram \<times> bytes) result \<Rightarrow> 'm mux_sudp \<Rightarrow> 'm mux_sudp" where
  "us_reads cm now ok k i r u =
     (case r of
        Inl err \<Rightarrow> if str_contains (err_text err) ''n != int('' then u else us_released cm k i u
      | Inr (da, rest) \<Rightarrow>
          u\<lparr>us_items := upd_at i (\<lambda>x. x\<lparr>us_in := rest, us_lastActiveTime := now, us_read := us_read x @ [da],
               us_answers := us_answers x @ (if ok then [Data da] else [])\<rparr>) (us_items u)\<rparr>)"

subsection \<open>The collector and Stop\<close>

definition us_tick :: "('m, nat) cmap \<Rightarrow> int \<Rightarrow> 'm mux_sudp \<Rightarrow> 'm mux_sudp" where
  "us_tick cm now u = u\<lparr>us_gc := gc_tick cm now (mgr_map (us_udpConns u))\<rparr>"

definition us_check :: "'m mux_sudp \<Rightarrow> 'm mux_sudp" where
  "us_check u = (case mgr_gcIterCb (us_udpConns u) of
     None \<Rightarrow> u | Some cb \<Rightarrow> (let (g, w) = gc_check cb (us_gc u) (us_items u) in u\<lparr>us_gc := g, us_items := w\<rparr>))"

definition us_remove :: "('m, nat) cmap \<Rightarrow> 'm mux_sudp \<Rightarrow> 'm mux_sudp" where
  "us_remove cm u = (let (g, m) = gc_remove cm (us_gc u) (mgr_map (us_udpConns u))
     in u\<lparr>us_gc := g, us_udpConns := (us_udpConns u)\<lparr>mgr_map := m\<rparr>\<rparr>)"

subsection \<open>Interleaving\<close>

text \<open>With the flag \<open>whole\<close> no write on a stream fails half way. A step of the node itself is one of Mux\_Ends: the loss of the session, its watching goroutine,
  \<open>Stop\<close>.\<close>

inductive us_step :: "bool \<Rightarrow> ('m, nat) cmap \<Rightarrow> (nego \<Rightarrow> bytes result) \<Rightarrow> (hand \<Rightarrow> bytes result) \<Rightarrow> 'm mux_sudp \<Rightarrow> 'm mux_sudp \<Rightarrow> bool"
  for whole :: bool and cm :: "('m, nat) cmap" and marshal :: "nego \<Rightarrow> bytes result" and marshal_hand :: "hand \<Rightarrow> bytes result" where
  u_receive: "sv_listener (us_node u) \<Longrightarrow> us_step whole cm marshal marshal_hand u (us_receive src d u)"
| u_look: "(src, d, Looking) \<in> set (us_handlers u) \<Longrightarrow> us_step whole cm marshal marshal_hand u (us_look cm src d u)"
| u_dial: "(src, d, Dialling) \<in> set (us_handlers u) \<Longrightarrow> us_step whole cm marshal marshal_hand u (us_dial cm marshal marshal_hand sessId g werr src d u)"
| u_send: "(src, d, Sending i) \<in> set (us_handlers u) \<Longrightarrow> \<not> (whole \<and> fails \<noteq> None \<and> fails \<noteq> Some 0) \<Longrightarrow>
    us_step whole cm marshal marshal_hand u (us_send fails now src d i u)"
| u_starts: "(k, None) \<in> set (us_readers u) \<Longrightarrow> us_step whole cm marshal marshal_hand u (us_reader_starts cm k u)"
| u_arrive: "us_step whole cm marshal marshal_hand u (u\<lparr>us_items := upd_at i (\<lambda>x. x\<lparr>us_in := us_in x @ bs\<rparr>) (us_items u)\<rparr>)"
| u_reads: "(k, Some i) \<in> set (us_readers u) \<Longrightarrow> ParseStreamDatagram (us_in (us_items u ! i)) = Inr (da, rest) \<Longrightarrow>
    us_step whole cm marshal marshal_hand u (us_reads cm now ok k i (Inr (da, rest)) u)"
| u_read_fails: "(k, Some i) \<in> set (us_readers u) \<Longrightarrow> us_step whole cm marshal marshal_hand u (us_reads cm now ok k i (Inl err) u)"
| u_tick: "watches (us_udpConns u) \<Longrightarrow> \<not> gc_busy (us_gc u) \<Longrightarrow> us_step whole cm marshal marshal_hand u (us_tick cm now u)"
| u_check: "gc_del (us_gc u) = None \<Longrightarrow> us_step whole cm marshal marshal_hand u (us_check u)"
| u_remove: "us_step whole cm marshal marshal_hand u (us_remove cm u)"
| u_node: "server_step marshal (us_node u) node \<Longrightarrow> us_step whole cm marshal marshal_hand u (u\<lparr>us_node := node\<rparr>)"

inductive us_reach :: "bool \<Rightarrow> ('m, nat) cmap \<Rightarrow> (nego \<Rightarrow> bytes result) \<Rightarrow> (hand \<Rightarrow> bytes result) \<Rightarrow> string \<Rightarrow> mux_config \<Rightarrow> 'm mux_sudp \<Rightarrow> bool"
  for whole :: bool and cm :: "('m, nat) cmap" and marshal :: "nego \<Rightarrow> bytes result" and marshal_hand :: "hand \<Rightarrow> bytes result" and node :: string and cfg :: mux_config where
  us_start: "us_reach whole cm marshal marshal_hand node cfg (us_New cm node cfg)"
| us_next: "us_reach whole cm marshal marshal_hand node cfg u \<Longrightarrow> us_step whole cm marshal marshal_hand u u' \<Longrightarrow> us_reach whole cm marshal marshal_hand node cfg u'"

subsection \<open>Invariant\<close>

text \<open>What a stream carries: the handshake, then frames of datagrams that were received from its source.\<close>

definition us_stream :: "(hand \<Rightarrow> bytes result) \<Rightarrow> string \<Rightarrow> mux_config \<Rightarrow> (string \<times> bytes) list \<Rightarrow> us_item \<Rightarrow> bool" where
  "us_stream mh node cfg recv x \<longleftrightarrow>
     (\<exists>w bs. us_out x = w # bs \<and> HandshakeRequest_Bytes mh (server_hand node (us_sessId x) cfg) = Inr w \<and>
        (\<forall>b \<in> set bs. \<exists>d. (us_src x, d) \<in> set recv \<and> length d \<le> 2048 \<and> stream_frame (us_src x) d = Inr b))"

definition us_item_ok :: "bool \<Rightarrow> (hand \<Rightarrow> bytes result) \<Rightarrow> string \<Rightarrow> mux_config \<Rightarrow> (string \<times> bytes) list \<Rightarrow> us_item \<Rightarrow> bool" where
  "us_item_ok whole mh node cfg recv x \<longleftrightarrow> (whole \<longrightarrow> us_stream mh node cfg recv x) \<and> set (us_answers x) \<subseteq> Data ` set (us_read x)"

text \<open>The owner of an item, a goroutine of a datagram and a goroutine of answers.\<close>

definition us_owns :: "us_item list \<Rightarrow> nat \<Rightarrow> string \<Rightarrow> bool" where
  "us_owns its i s \<longleftrightarrow> i < length its \<and> us_src (its ! i) = s"

definition us_handler_ok :: "(string \<times> bytes) list \<Rightarrow> us_item list \<Rightarrow> string \<times> bytes \<times> us_stage \<Rightarrow> bool" where
  "us_handler_ok recv its h = (case h of (s, d, st) \<Rightarrow>
     (s, d) \<in> set recv \<and> length d \<le> 2048 \<and> (case st of Sending i \<Rightarrow> us_owns its i s | _ \<Rightarrow> True))"

definition us_reader_ok :: "us_item list \<Rightarrow> string \<times> nat option \<Rightarrow> bool" where
  "us_reader_ok its r = (case snd r of None \<Rightarrow> True | Some i \<Rightarrow> us_owns its i (fst r))"

definition us_inv :: "bool \<Rightarrow> ('m, nat) cmap \<Rightarrow> (hand \<Rightarrow> bytes result) \<Rightarrow> string \<Rightarrow> mux_config \<Rightarrow> 'm mux_sudp \<Rightarrow> bool" where
  "us_inv whole cm mh node cfg u \<longleftrightarrow>
     sv_id (us_node u) = node \<and> sv_cfg (us_node u) = cfg \<and> mgr_gcIterCb (us_udpConns u) = Some us_gc_cb \<and>
     (\<forall>k i. cm_Get cm k (mgr_map (us_udpConns u)) = Some i \<longrightarrow> us_owns (us_items u) i k) \<and>
     list_all (us_handler_ok (us_recv u) (us_items u)) (us_handlers u) \<and> list_all (us_reader_ok (us_items u)) (us_readers u) \<and>
     list_all (us_item_ok whole mh node cfg (us_recv u)) (us_items u)"

lemma us_owns_append [simp]: "us_owns its i s \<Longrightarrow> us_owns (its @ xs) i s" "us_src x = s \<Longrightarrow> us_owns (its @ [x]) (length its) s"
  by (simp_all add: us_owns_def nth_append)

lemma us_ok_append:
  "us_handler_ok recv its h \<Longrightarrow> us_handler_ok recv (its @ xs) h" "us_reader_ok its r \<Longrightarrow> us_reader_ok (its @ xs) r"
  "us_handler_ok recv its h \<Longrightarrow> us_handler_ok (recv @ ys) its h"
  by (auto simp: us_handler_ok_def us_reader_ok_def split: us_stage.splits option.splits)

lemma us_stream_more: "us_stream mh node cfg recv x \<Longrightarrow> us_stream mh node cfg (recv @ ys) x"
  unfolding us_stream_def by fastforce

lemma us_item_ok_more: "us_item_ok whole mh node cfg recv x \<Longrightarrow> us_item_ok whole mh node cfg (recv @ ys) x"
  unfolding us_item_ok_def using us_stream_more by blast

lemma list_all_remove1: "list_all P xs \<Longrightarrow> list_all P (remove1 x xs)"
  by (auto simp: list_all_iff dest: in_remove1D)

lemma us_inv_items:
  assumes "us_inv whole cm mh node cfg u" "\<And>x. us_src (f x) = us_src x"
    "i < length (us_items u) \<Longrightarrow> us_item_ok whole mh node cfg (us_recv u) (f (us_items u ! i))"
  shows "us_inv whole cm mh node cfg (u\<lparr>us_items := upd_at i f (us_items u)\<rparr>)"
proof -
  have "us_src (upd_at i f (us_items u) ! j) = us_src (us_items u ! j)" for j by (rule upd_at_field) (rule assms(2))
  then have o: "us_owns (upd_at i f (us_items u)) = us_owns (us_items u)" by (simp add: us_owns_def fun_eq_iff)
  then have "us_handler_ok r (upd_at i f (us_items u)) = us_handler_ok r (us_items u)" "us_reader_ok (upd_at i f (us_items u)) = us_reader_ok (us_items u)" for r
    unfolding us_handler_ok_def us_reader_ok_def fun_eq_iff o by simp_all
  moreover have "us_item_ok whole mh node cfg (us_recv u) (upd_at i f (us_items u) ! j)" if "j < length (us_items u)" for j
    using that assms(1,3) by (cases "j = i") (simp_all add: us_inv_def list_all_length)
  ultimately show ?thesis using assms(1) o by (simp add: us_inv_def list_all_length)
qed

lemma us_inv_Close:
  assumes "us_inv whole cm mh node cfg u"
  shows "us_inv whole cm mh node cfg (u\<lparr>us_items := us_Close i (us_items u)\<rparr>)"
  unfolding us_Close_def using assms
  by (intro us_inv_items) (simp_all add: us_inv_def list_all_length us_item_ok_def us_stream_def)

lemma us_inv_receive:
  assumes "us_inv whole cm mh node cfg u"
  shows "us_inv whole cm mh node cfg (us_receive src d u)"
  using assms us_item_ok_more us_ok_append(3)
  by (auto simp: us_inv_def us_receive_def list_all_iff) (simp add: us_handler_ok_def)

lemma us_inv_look:
  assumes "us_inv whole cm mh node cfg u" "(src, d, Looking) \<in> set (us_handlers u)"
  shows "us_inv whole cm mh node cfg (us_look cm src d u)"
proof -
  have "us_handler_ok (us_recv u) (us_items u) (src, d, Looking)" using assms by (auto simp: us_inv_def list_all_iff)
  then have "us_handler_ok (us_recv u) (us_items u) (src, d, case cm_Get cm src (mgr_map (us_udpConns u)) of Some i \<Rightarrow> Sending i | None \<Rightarrow> Dialling)"
    using assms(1) by (simp add: us_handler_ok_def us_inv_def split: option.split)
  then show ?thesis using assms(1) by (simp add: us_inv_def us_look_def list_all_remove1)
qed

lemma us_inv_dial:
  assumes "cmap_laws cm" "us_inv whole cm mh node cfg u" "(src, d, Dialling) \<in> set (us_handlers u)"
  shows "us_inv whole cm mh node cfg (us_dial cm marshal mh sessId g werr src d u)"
proof -
  obtain r nd where r: "dialThroughRemote marshal mh sessId g werr (us_node u) = (r, nd)" by fastforce
  have id: "sv_id nd = node" "sv_cfg nd = cfg" using dialThrough_id [OF r] assms(2) by (simp_all add: us_inv_def)
  show ?thesis
  proof (cases r)
    case (Inl e)
    then show ?thesis using assms(2) id r by (simp add: us_dial_def us_inv_def list_all_remove1)
  next
    case (Inr x)
    obtain s w where x: "x = (s, w)" by (cases x)
    have w: "HandshakeRequest_Bytes mh (server_hand node sessId cfg) = Inr w"
      using r Inr x assms(2) server_step_id [OF v_get, of marshal g "us_node u"]
      by (auto simp: dialThroughRemote_def us_inv_def split: prod.splits sum.splits option.splits)
    define it where "it = \<lparr>us_src = src, us_sessId = sessId, us_lastActiveTime = 0, us_out = [w], us_in = [], us_read = [], us_answers = [], us_closed = False\<rparr>"
    have it: "us_item_ok whole mh node cfg (us_recv u) it" "us_src it = src" using w by (simp_all add: it_def us_item_ok_def us_stream_def)
    have h: "us_handler_ok (us_recv u) (us_items u @ [it]) (src, d, Sending (length (us_items u)))"
      using assms(2,3) it(2) by (auto simp: us_inv_def list_all_iff us_handler_ok_def)
    have l: "list_all (us_handler_ok (us_recv u) (us_items u @ [it])) (remove1 (src, d, Dialling) (us_handlers u))"
      "list_all (us_reader_ok (us_items u @ [it])) (us_readers u)"
      using assms(2) us_ok_append by (auto simp: us_inv_def list_all_iff dest!: in_remove1D)
    have "us_dial cm marshal mh sessId g werr src d u = u\<lparr>us_node := nd, us_items := us_items u @ [it],
        us_udpConns := (us_udpConns u)\<lparr>mgr_map := cm_Set cm src (length (us_items u)) (mgr_map (us_udpConns u))\<rparr>,
        us_readers := (src, None) # us_readers u,
        us_handlers := (src, d, Sending (length (us_items u))) # remove1 (src, d, Dialling) (us_handlers u)\<rparr>"
      using r Inr x by (simp add: us_dial_def it_def)
    then show ?thesis using assms(2) id it h l
      by (simp add: us_inv_def cmap_Set [OF assms(1)] us_reader_ok_def)
  qed
qed

lemma us_stream_write:
  assumes "us_stream mh node cfg recv x" "stream_frame src d = Inr b" "(src, d) \<in> set recv" "length d \<le> 2048" "us_src x = src" "fails = None \<or> fails = Some 0"
  shows "us_stream mh node cfg recv (us_Write fails b x)"
  using assms unfolding us_stream_def us_Write_def by auto

lemma us_item_ok_write:
  assumes "us_item_ok whole mh node cfg recv x" "stream_frame src d = Inr b" "(src, d) \<in> set recv" "length d \<le> 2048" "us_src x = src"
    "\<not> (whole \<and> fails \<noteq> None \<and> fails \<noteq> Some 0)"
  shows "us_item_ok whole mh node cfg recv (us_Write fails b x)"
  using assms us_stream_write [of mh node cfg recv x src d b fails]
  by (auto simp: us_item_ok_def) (auto simp: us_Write_def split: option.splits if_splits)

lemma us_item_ok_touch [simp]: "us_item_ok whole mh node cfg recv (x\<lparr>us_lastActiveTime := now\<rparr>) = us_item_ok whole mh node cfg recv x"
  by (simp add: us_item_ok_def us_stream_def)

lemma us_inv_send:
  assumes "us_inv whole cm mh node cfg u" "(src, d, Sending i) \<in> set (us_handlers u)" "\<not> (whole \<and> fails \<noteq> None \<and> fails \<noteq> Some 0)"
  shows "us_inv whole cm mh node cfg (us_send fails now src d i u)"
proof -
  have h: "(src, d) \<in> set (us_recv u)" "length d \<le> 2048" "us_owns (us_items u) i src"
    using assms(1,2) by (auto simp: us_inv_def list_all_iff us_handler_ok_def)
  define f where "f = (\<lambda>x. let x = x\<lparr>us_lastActiveTime := now\<rparr> in case stream_frame src d of Inl _ \<Rightarrow> x | Inr b \<Rightarrow> us_Write fails b x)"
  have "us_item_ok whole mh node cfg (us_recv u) (us_items u ! i)" using assms(1) h(3) by (simp add: us_inv_def list_all_length us_owns_def)
  then have ok: "us_item_ok whole mh node cfg (us_recv u) (f (us_items u ! i))"
    using h assms(3) by (auto simp: f_def us_owns_def Let_def split: sum.split intro: us_item_ok_write)
  have "us_inv whole cm mh node cfg (u\<lparr>us_items := upd_at i f (us_items u)\<rparr>)"
    by (rule us_inv_items [OF assms(1)]) (use ok in \<open>simp_all add: f_def us_Write_def Let_def split: sum.split option.split\<close>)
  then show ?thesis by (simp add: us_send_def f_def [symmetric] us_inv_def list_all_remove1)
qed

lemma us_inv_starts:
  assumes "us_inv whole cm mh node cfg u"
  shows "us_inv whole cm mh node cfg (us_reader_starts cm k u)"
  using assms by (auto simp: us_inv_def us_reader_starts_def us_reader_ok_def list_all_remove1 split: option.split)

lemma us_inv_reads:
  assumes "cmap_laws cm" "us_inv whole cm mh node cfg u"
  shows "us_inv whole cm mh node cfg (us_reads cm now ok k i r u)"
proof -
  have "us_inv whole cm mh node cfg (us_released cm k i u)"
    using us_inv_Close [OF assms(2), of i] by (simp add: us_released_def us_inv_def list_all_remove1 cmap_Remove [OF assms(1)])
  moreover have "us_inv whole cm mh node cfg (u\<lparr>us_items := upd_at i (\<lambda>x. x\<lparr>us_in := rest, us_lastActiveTime := now, us_read := us_read x @ [da],
               us_answers := us_answers x @ (if ok then [Data da] else [])\<rparr>) (us_items u)\<rparr>)" for da rest
    using assms(2) by (intro us_inv_items) (auto simp: us_inv_def list_all_length us_item_ok_def us_stream_def)
  ultimately show ?thesis using assms(2) by (auto simp: us_reads_def split: sum.split)
qed

lemma us_inv_check:
  assumes "us_inv whole cm mh node cfg u"
  shows "us_inv whole cm mh node cfg (us_check u)"
proof -
  have cb: "mgr_gcIterCb (us_udpConns u) = Some us_gc_cb" using assms by (simp add: us_inv_def)
  show ?thesis using assms us_inv_Close [OF assms]
    by (cases "gc_items (us_gc u)") (auto simp: us_check_def cb gc_check_def us_gc_cb_def us_inv_def)
qed

lemma us_inv_step:
  assumes "us_step whole cm marshal mh u u'" "cmap_laws cm" "us_inv whole cm mh node cfg u"
  shows "us_inv whole cm mh node cfg u'"
  using assms(1)
proof (cases rule: us_step.cases)
  case (u_arrive i bs)
  have "us_inv whole cm mh node cfg (u\<lparr>us_items := upd_at i (\<lambda>x. x\<lparr>us_in := us_in x @ bs\<rparr>) (us_items u)\<rparr>)"
    using assms(3) by (intro us_inv_items) (simp_all add: us_inv_def list_all_length us_item_ok_def us_stream_def)
  then show ?thesis by (simp add: u_arrive)
next
  case (u_tick now)
  then show ?thesis using assms(3) by (simp add: us_tick_def us_inv_def)
next
  case u_remove
  then show ?thesis using assms(3) by (simp add: us_remove_def gc_remove_def us_inv_def cmap_Remove [OF assms(2)] split: option.split)
next
  case (u_node nd)
  then show ?thesis using assms(3) server_step_id by (auto simp: us_inv_def)
qed (use assms(2,3) in \<open>auto intro: us_inv_receive us_inv_look us_inv_dial us_inv_send us_inv_starts us_inv_reads us_inv_check\<close>)

lemma us_reach_inv:
  assumes "us_reach whole cm marshal mh node cfg u" "cmap_laws cm"
  shows "us_inv whole cm mh node cfg u"
  using assms(1)
proof (induction rule: us_reach.induct)
  case us_start
  then show ?case by (simp add: us_inv_def us_New_def NewServer_mux_def mgr_New_def cmap_New [OF assms(2)])
next
  case (us_next u u')
  then show ?case using us_inv_step [OF _ assms(2)] by blast
qed

end
