(* ===== verification/Mux_Udp.thy ===== *)
theory Mux_Udp
  imports Mux_Udp_Server Tcp_Service Udp_Service
begin

section \<open>Datagrams through the tunnel\<close>

text \<open>
  The two ends of Mux\_Udp\_Server and Mux\_Udp\_Client put together: the bytes of a stream that the server node has opened for a source are read by the client node as
  the handshake of the route and the datagrams of the source, and the answers come back to the source. The bridge in between copies the bytes of a stream (Bridge).
\<close>

subsection \<open>The loop of the client node\<close>

text \<open>A round of \<open>proxyUDP\<close> and its write when nothing else runs, the socket can be made and written, and the source resolves to itself; and \<open>n\<close> of them.\<close>

definition uc_serve_round :: "('m, nat) cmap \<Rightarrow> int \<Rightarrow> nat \<Rightarrow> 'm mux_cudp \<Rightarrow> 'm mux_cudp" where
  "uc_serve_round cm now h u =
     (case ParseStreamDatagram (ms_in (uc_streams u ! h)) of
        Inl err \<Rightarrow> uc_round cm True [] now h (Inl err) u
      | Inr (da, rest) \<Rightarrow> uc_write True h (Data da) (uc_round cm True (AddrSpec_String (Addr da)) now h (Inr (da, rest)) u))"

definition uc_serve :: "('m, nat) cmap \<Rightarrow> int \<Rightarrow> nat \<Rightarrow> nat \<Rightarrow> 'm mux_cudp \<Rightarrow> 'm mux_cudp" where
  "uc_serve cm now h n u = (uc_serve_round cm now h ^^ n) u"

definition uc_ready :: "nat \<Rightarrow> bytes \<Rightarrow> 'm mux_cudp \<Rightarrow> bool" where
  "uc_ready h r u \<longleftrightarrow> h < length (uc_streams u) \<and> \<not> uh_ended (uc_streams u ! h) \<and> \<not> uc_cancelled u \<and> ms_in (uc_streams u ! h) = r"

definition uc_serving :: "('m, nat) cmap \<Rightarrow> nat \<Rightarrow> string \<Rightarrow> nat \<Rightarrow> (nat \<times> bytes) list \<Rightarrow> bytes \<Rightarrow> 'm mux_cudp \<Rightarrow> bool" where
  "uc_serving cm h k i sent r u \<longleftrightarrow> uc_ready h r u \<and> cm_Get cm k (mgr_map (uc_udpConns u)) = Some i \<and> i < length (uc_items u) \<and>
     \<not> uc_closed (uc_items u ! i) \<and> uc_out (uc_items u ! i) = sent \<and> uc_srcAddr (uc_items u ! i) = k \<and> uc_conn (uc_items u ! i) = h"

text \<open>A round is made of steps.\<close>

lemma uc_serve_round_reach:
  assumes "uc_reach False cm u" "uc_ready h r u" "ParseStreamDatagram r = Inr (da, rest)"
  shows "uc_reach False cm (uc_serve_round cm now h u)"
proof -
  define u1 where "u1 = uc_round cm True (AddrSpec_String (Addr da)) now h (Inr (da, rest)) u"
  have "uc_reach False cm u1" unfolding u1_def
    by (rule uc_next [OF assms(1) c_round]) (use assms(2,3) in \<open>simp_all add: uc_ready_def\<close>)
  moreover have "(h, Data da) \<in> set (uc_writes u1)"
    using assms(2) by (simp add: u1_def uc_round_def uc_ready_def Let_def uc_forward_def split: option.split)
  ultimately have "uc_reach False cm (uc_write True h (Data da) u1)" using uc_next c_write by blast
  then show ?thesis using assms(2,3) by (simp add: uc_serve_round_def uc_ready_def u1_def)
qed

lemma uc_serve_known:
  assumes "uc_serving cm h (AddrSpec_String (Addr da)) i sent r u" "ParseStreamDatagram r = Inr (da, rest)"
  shows "uc_serving cm h (AddrSpec_String (Addr da)) i (sent @ [(h, Data da)]) rest (uc_serve_round cm now h u)"
  using assms by (simp add: uc_serving_def uc_ready_def uc_serve_round_def uc_round_def uc_forward_def uc_write_def Let_def)

lemma uc_serve_new:
  assumes "cmap_laws cm" "uc_ready h r u" "cm_Get cm (AddrSpec_String (Addr da)) (mgr_map (uc_udpConns u)) = None" "ParseStreamDatagram r = Inr (da, rest)"
  shows "uc_serving cm h (AddrSpec_String (Addr da)) (length (uc_items u)) [(h, Data da)] rest (uc_serve_round cm now h u)"
  using assms(2-)
  by (simp add: uc_serving_def uc_ready_def uc_serve_round_def uc_round_def uc_forward_def uc_dial_def uc_write_def Let_def cmap_Set [OF assms(1)])

lemma parse_n_Cons:
  assumes "parse_n (length (d # ds)) p r = Inr (map f (d # ds), rest)"
  obtains r1 where "p r = Inr (f d, r1)" "parse_n (length ds) p r1 = Inr (map f ds, rest)"
  using assms by (cases "p r"; cases "parse_n (length ds) p (snd (projr (p r)))") (auto split: prod.splits)

lemma uc_serve_rest:
  assumes "parse_n (length ds) ParseStreamDatagram r = Inr (map (\<lambda>d. \<lparr>Reserved = 0, Addr = as, Data = d\<rparr>) ds, rest)"
    and "uc_serving cm h (AddrSpec_String as) i sent r u" "uc_reach False cm u"
  shows "uc_serving cm h (AddrSpec_String as) i (sent @ map (Pair h) ds) rest (uc_serve cm now h (length ds) u) \<and>
    uc_reach False cm (uc_serve cm now h (length ds) u)"
  using assms
proof (induction ds arbitrary: r sent u)
  case Nil
  then show ?case by (simp add: uc_serve_def)
next
  case (Cons d ds)
  let ?da = "\<lparr>Reserved = 0, Addr = as, Data = d\<rparr>"
  obtain r1 where p: "ParseStreamDatagram r = Inr (?da, r1)"
    "parse_n (length ds) ParseStreamDatagram r1 = Inr (map (\<lambda>d. \<lparr>Reserved = 0, Addr = as, Data = d\<rparr>) ds, rest)"
    using Cons.prems(1) by (rule parse_n_Cons)
  have s: "uc_serving cm h (AddrSpec_String as) i (sent @ [(h, d)]) r1 (uc_serve_round cm now h u)"
    using uc_serve_known [of cm h ?da i sent r u r1 now] Cons.prems(2) p(1) by simp
  have "uc_reach False cm (uc_serve_round cm now h u)"
    by (rule uc_serve_round_reach [OF Cons.prems(3) _ p(1)]) (use Cons.prems(2) in \<open>simp add: uc_serving_def\<close>)
  from Cons.IH [OF p(2) s this] show ?case by (simp add: uc_serve_def funpow_swap1)
qed

lemma uc_serve_all:
  assumes "cmap_laws cm" "uc_ready h r u" "cm_Get cm (AddrSpec_String as) (mgr_map (uc_udpConns u)) = None" "ds \<noteq> []" "uc_reach False cm u"
    and "parse_n (length ds) ParseStreamDatagram r = Inr (map (\<lambda>d. \<lparr>Reserved = 0, Addr = as, Data = d\<rparr>) ds, rest)"
  shows "uc_serving cm h (AddrSpec_String as) (length (uc_items u)) (map (Pair h) ds) rest (uc_serve cm now h (length ds) u) \<and>
    uc_reach False cm (uc_serve cm now h (length ds) u)"
proof -
  obtain d ds' where ds: "ds = d # ds'" using assms(4) by (cases ds) auto
  let ?da = "\<lparr>Reserved = 0, Addr = as, Data = d\<rparr>"
  obtain r1 where p: "ParseStreamDatagram r = Inr (?da, r1)"
    "parse_n (length ds') ParseStreamDatagram r1 = Inr (map (\<lambda>d. \<lparr>Reserved = 0, Addr = as, Data = d\<rparr>) ds', rest)"
    using assms(6) [unfolded ds] by (rule parse_n_Cons)
  have "uc_serving cm h (AddrSpec_String as) (length (uc_items u)) [(h, d)] r1 (uc_serve_round cm now h u)"
    using uc_serve_new [OF assms(1,2), of ?da r1 now] assms(3) p(1) by simp
  from uc_serve_rest [OF p(2) this uc_serve_round_reach [OF assms(5,2) p(1)]] show ?thesis by (simp add: ds uc_serve_def funpow_swap1)
qed


subsection \<open>An example run of the server node\<close>

definition ex_scfg :: mux_config where
  "ex_scfg = ex_cfg\<lparr>mx_isUDP := True, mx_local := '':5353'', mx_remote_host := ''10.0.0.9'', mx_remote_port := 53\<rparr>"

definition ex_mh :: "hand \<Rightarrow> bytes result" where "ex_mh = two_marshal (ex_hand NetTCP) (ex_hand NetUDP)"

definition ex_uh :: "bytes \<Rightarrow> hand result" where "ex_uh = two_unmarshal (ex_hand NetTCP) (ex_hand NetUDP)"

lemma ex_proto: "proto_ok ex_mh ex_uh" "fits ex_mh (hr_Hand (server_hand ''n'' ''s'' ex_scfg))"
  by (simp_all add: ex_mh_def ex_uh_def two_proto two_fits server_hand_def ex_scfg_def)

lemma ex_wire:
  "HandshakeRequest_Bytes ex_mh (server_hand ''n'' ''s'' ex_scfg) = Inr [0, 1, 1, 2]"
  "NegotiateRequest_Bytes ex_mn (server_nego ''n'' ex_scfg) = Inr [2, 1, 1, 1]"
  "stream_frame ''10.0.0.1:53'' [5] = Inr (example_frame 5)" "stream_frame ''10.0.0.1:53'' [6] = Inr (example_frame 6)"
  "JoinHostPort ''10.0.0.9'' (dec_str (unat (53 :: 16 word))) = ''10.0.0.9:53''"
  by code_simp+

definition ex_reply :: bytes where "ex_reply = SendReply RepSuccess through_Version"

text \<open>The node with its session, and a stream on it.\<close>

definition ex_node :: mux_server where
  "ex_node = (NewServer_mux ''n'' ex_scfg)\<lparr>sv_sessions := Some 0, sv_sess := [False], sv_parents := [False], sv_watchers := 1\<rparr>"

lemma ex_dials:
  "dialThroughRemote ex_mn ex_mh ''s'' (good_env ex_reply) None (NewServer_mux ''n'' ex_scfg) = (Inr (0, [0, 1, 1, 2]), ex_node)"
  "dialThroughRemote ex_mn ex_mh ''s'' (good_env ex_reply) None ex_node = (Inr (0, [0, 1, 1, 2]), ex_node)"
  by (simp_all add: dialThroughRemote_def GetConn_def good_env_def ex_reply_def open_stream_def NewServer_mux_def ex_node_def ex_wire add_parent_def Let_def)

text \<open>Two datagrams of one source arrive; the first has the stream opened and is sent.\<close>

definition ex_v1 :: "(string, nat) alist mux_sudp" where
  "ex_v1 = us_look alist_cmap ''10.0.0.1:53'' [5] (us_look alist_cmap ''10.0.0.1:53'' [6]
     (us_receive ''10.0.0.1:53'' [6] (us_receive ''10.0.0.1:53'' [5] (us_New alist_cmap ''n'' ex_scfg))))"

definition ex_v2 :: "(string, nat) alist mux_sudp" where
  "ex_v2 = us_dial alist_cmap ex_mn ex_mh ''s'' (good_env ex_reply) None ''10.0.0.1:53'' [5] ex_v1"

definition ex_v3 :: "(string, nat) alist mux_sudp" where
  "ex_v3 = us_send None 20 ''10.0.0.1:53'' [5] 0 ex_v2"

lemma ex_v1_eval:
  "us_node ex_v1 = NewServer_mux ''n'' ex_scfg" "us_items ex_v1 = []" "us_readers ex_v1 = []"
  "us_handlers ex_v1 = [(''10.0.0.1:53'', [5], Dialling), (''10.0.0.1:53'', [6], Dialling)]"
  "us_recv ex_v1 = [(''10.0.0.1:53'', [5]), (''10.0.0.1:53'', [6])]"
  "us_udpConns ex_v1 = mgr_New alist_cmap 1000000000 (Some us_gc_cb)" "us_gc ex_v1 = gc_idle"
  by (simp_all add: ex_v1_def us_look_def us_receive_def us_New_def mgr_New_def alist_cmap_def lookup_empty)

definition ex_it :: us_item where
  "ex_it = \<lparr>us_src = ''10.0.0.1:53'', us_sessId = ''s'', us_lastActiveTime = 0, us_out = [[0, 1, 1, 2]], us_in = [], us_read = [], us_answers = [], us_closed = False\<rparr>"

lemma ex_v2_eval:
  "us_node ex_v2 = ex_node" "us_items ex_v2 = [ex_it]" "us_readers ex_v2 = [(''10.0.0.1:53'', None)]"
  "us_handlers ex_v2 = [(''10.0.0.1:53'', [5], Sending 0), (''10.0.0.1:53'', [6], Dialling)]"
  "us_recv ex_v2 = [(''10.0.0.1:53'', [5]), (''10.0.0.1:53'', [6])]"
  "us_udpConns ex_v2 = \<lparr>mgr_map = DAList.update ''10.0.0.1:53'' 0 DAList.empty, mgr_interval = 1000000000, mgr_gcIterCb = Some us_gc_cb\<rparr>"
  "us_gc ex_v2 = gc_idle"
  by (simp_all add: ex_v2_def us_dial_def ex_v1_eval ex_dials ex_it_def mgr_New_def alist_cmap_def)

lemma ex_v3_eval:
  "us_node ex_v3 = ex_node" "us_items ex_v3 = [ex_it\<lparr>us_lastActiveTime := 20, us_out := [[0, 1, 1, 2], example_frame 5]\<rparr>]"
  "us_readers ex_v3 = us_readers ex_v2" "us_handlers ex_v3 = [(''10.0.0.1:53'', [6], Dialling)]"
  "us_recv ex_v3 = us_recv ex_v2" "us_udpConns ex_v3 = us_udpConns ex_v2" "us_gc ex_v3 = gc_idle"
  by (simp_all add: ex_v3_def us_send_def ex_v2_eval ex_wire us_Write_def ex_it_def upd_at_def)

lemma ex_v_reach:
  "us_reach whole alist_cmap ex_mn ex_mh ''n'' ex_scfg ex_v1" "us_reach whole alist_cmap ex_mn ex_mh ''n'' ex_scfg ex_v2"
  "us_reach whole alist_cmap ex_mn ex_mh ''n'' ex_scfg ex_v3"
proof -
  have "us_reach whole alist_cmap ex_mn ex_mh ''n'' ex_scfg
      (us_receive ''10.0.0.1:53'' [6] (us_receive ''10.0.0.1:53'' [5] (us_New alist_cmap ''n'' ex_scfg)))"
    by (rule us_next [OF us_next [OF us_start u_receive] u_receive]) (simp_all add: us_receive_def us_New_def NewServer_mux_def)
  then show 1: "us_reach whole alist_cmap ex_mn ex_mh ''n'' ex_scfg ex_v1"
    unfolding ex_v1_def by (rule us_next [OF us_next [OF _ u_look] u_look]) (simp_all add: us_receive_def us_look_def)
  show 2: "us_reach whole alist_cmap ex_mn ex_mh ''n'' ex_scfg ex_v2"
    unfolding ex_v2_def by (rule us_next [OF 1 u_dial]) (simp add: ex_v1_eval)
  show "us_reach whole alist_cmap ex_mn ex_mh ''n'' ex_scfg ex_v3"
    unfolding ex_v3_def by (rule us_next [OF 2 u_send]) (simp_all add: ex_v2_eval)
qed

subsection \<open>The bytes of a stream\<close>

lemma frames_of:
  assumes "\<forall>b \<in> set bs. \<exists>d. P d \<and> stream_frame s d = Inr b"
  shows "\<exists>ds. map (stream_frame s) ds = map Inr bs \<and> (\<forall>d \<in> set ds. P d)"
  using assms
proof (induction bs)
  case (Cons b bs)
  then obtain d ds where "P d" "stream_frame s d = Inr b" "map (stream_frame s) ds = map Inr bs" "\<forall>d \<in> set ds. P d" by auto
  then show ?case by (intro exI [of _ "d # ds"]) simp
qed simp

lemma frames_read:
  assumes "map (stream_frame s) ds = map Inr bs" "\<forall>d \<in> set ds. length d \<le> max_data" "ParseAddrSpec s = Inr as" "wf_addr as"
  shows "parse_n (length ds) ParseStreamDatagram (concat bs @ rest) = Inr (map (\<lambda>d. \<lparr>Reserved = 0, Addr = as, Data = d\<rparr>) ds, rest)"
  using assms(1,2)
proof (induction ds arbitrary: bs)
  case (Cons d ds)
  then obtain b bs' where b: "bs = b # bs'" "stream_frame s d = Inr b" by (cases bs) auto
  then show ?case using Cons frame_decode [OF b(2) _ assms(3,4)] by (simp add: bindP_def)
qed simp

subsection \<open>Properties\<close>


text \<open>A client node with a stream on which the bytes of the example have arrived.\<close>

definition ex_c1 :: "(string, nat) alist mux_cudp" where
  "ex_c1 = (let u = uc_accept ''10.0.0.9:53'' (uc_New alist_cmap)
     in u\<lparr>uc_streams := upd_at 0 (\<lambda>x. x\<lparr>ms_in := ms_in x @ example_frame 5\<rparr>) (uc_streams u)\<rparr>)"

lemma ex_c1_eval:
  "uc_streams ex_c1 = [\<lparr>ms_local = ''10.0.0.9:53'', ms_in = example_frame 5, ms_read = [], ms_out = [], ms_closed = False,
     uh_item = None, uh_cacheSrcAddr = '''', uh_ended = False\<rparr>]"
  "uc_items ex_c1 = []" "uc_writes ex_c1 = []" "uc_starting ex_c1 = []" "uc_readers ex_c1 = []" "uc_frames ex_c1 = []" "uc_gc ex_c1 = gc_idle" "\<not> uc_cancelled ex_c1"
  "uc_udpConns ex_c1 = \<lparr>mgr_map = DAList.empty, mgr_interval = 1000000000, mgr_gcIterCb = Some uc_gc_cb\<rparr>"
  by (simp_all add: ex_c1_def uc_accept_def uc_New_def mgr_New_def alist_cmap_def Let_def upd_at_def)

lemma ex_c1_reach: "uc_reach sole alist_cmap ex_c1"
  unfolding ex_c1_def Let_def by (rule uc_next [OF uc_next [OF uc_start c_accept] c_arrive]) (simp add: uc_New_def)


text \<open>The example goes on: the datagram is sent on a new socket, and its answer framed.\<close>

definition ex_c2 :: "(string, nat) alist mux_cudp" where
  "ex_c2 = uc_round alist_cmap True ''10.0.0.1:53'' 3 0 (Inr (example_datagram 5, [])) ex_c1"

definition ex_c3 :: "(string, nat) alist mux_cudp" where
  "ex_c3 = uc_starts alist_cmap 0 (uc_write True 0 [5] ex_c2)"

definition ex_c4 :: "(string, nat) alist mux_cudp" where
  "ex_c4 = uc_frame None 0 [7] (uc_reads alist_cmap 4 ''10.0.0.1:53'' 0 (Inr [7]) ex_c3)"

definition ex_st :: uc_stream where
  "ex_st = \<lparr>ms_local = ''10.0.0.9:53'', ms_in = [], ms_read = [example_datagram 5], ms_out = [], ms_closed = False,
     uh_item = Some 0, uh_cacheSrcAddr = ''10.0.0.1:53'', uh_ended = False\<rparr>"

definition ex_ci :: uc_item where
  "ex_ci = \<lparr>uc_conn = 0, uc_key = ''10.0.0.1:53'', uc_srcAddr = ''10.0.0.1:53'', uc_localAddr = ''10.0.0.9:53'', uc_lastActiveTime = 3,
     uc_out = [], uc_replies = [], uc_closed = False\<rparr>"

lemma example_Data [simp]: "Data (example_datagram x) = [x]" by (simp add: example_datagram_def)

lemma ex_c2_eval:
  "uc_streams ex_c2 = [ex_st]" "uc_items ex_c2 = [ex_ci]" "uc_writes ex_c2 = [(0, [5])]" "uc_starting ex_c2 = [0]"
  "uc_readers ex_c2 = []" "uc_frames ex_c2 = []" "\<not> uc_cancelled ex_c2"
  "mgr_map (uc_udpConns ex_c2) = DAList.update ''10.0.0.1:53'' 0 DAList.empty"
  by (simp_all add: ex_c2_def uc_round_def ex_c1_eval example_key alist_cmap_def lookup_empty uc_dial_def uc_forward_def Let_def upd_at_def ex_st_def ex_ci_def)

lemma ex_c3_eval:
  "uc_streams ex_c3 = [ex_st]" "uc_items ex_c3 = [ex_ci\<lparr>uc_out := [(0, [5])]\<rparr>]" "uc_writes ex_c3 = []" "uc_starting ex_c3 = []"
  "uc_readers ex_c3 = [(''10.0.0.1:53'', 0)]" "uc_frames ex_c3 = []" "\<not> uc_cancelled ex_c3" "uc_udpConns ex_c3 = uc_udpConns ex_c2"
  by (simp_all add: ex_c3_def uc_write_def uc_starts_def ex_c2_eval alist_cmap_def lookup_update Let_def upd_at_def ex_st_def ex_ci_def)

lemma ex_c4_eval:
  "uc_streams ex_c4 = [ex_st\<lparr>ms_out := [example_frame 7]\<rparr>]"
  "uc_items ex_c4 = [ex_ci\<lparr>uc_out := [(0, [5])], uc_lastActiveTime := 4, uc_replies := [[7]]\<rparr>]"
  "uc_readers ex_c4 = [(''10.0.0.1:53'', 0)]" "\<not> uc_cancelled ex_c4" "uc_udpConns ex_c4 = uc_udpConns ex_c2"
  by (simp_all add: ex_c4_def uc_reads_def uc_frame_def ex_c3_eval example_eval BindingSize_def Let_def upd_at_def ex_st_def ex_ci_def)

lemma ex_c_reach: "uc_reach sole alist_cmap ex_c2" "uc_reach sole alist_cmap ex_c3" "uc_reach sole alist_cmap ex_c4"
proof -
  show 2: "uc_reach sole alist_cmap ex_c2" unfolding ex_c2_def
    by (rule uc_next [OF ex_c1_reach c_round]) (simp_all add: ex_c1_eval example_eval uc_alien_def alist_cmap_def lookup_empty)
  have "uc_reach sole alist_cmap (uc_write True 0 [5] ex_c2)" by (rule uc_next [OF 2 c_write]) (simp add: ex_c2_eval)
  then show 3: "uc_reach sole alist_cmap ex_c3" unfolding ex_c3_def
    by (rule uc_next [OF _ c_starts]) (simp add: uc_write_def ex_c2_eval ex_st_def)
  have "uc_reach sole alist_cmap (uc_reads alist_cmap 4 ''10.0.0.1:53'' 0 (Inr [7]) ex_c3)" by (rule uc_next [OF 3 c_reads]) (simp add: ex_c3_eval)
  then show "uc_reach sole alist_cmap ex_c4" unfolding ex_c4_def
    by (rule uc_next [OF _ c_frame]) (simp_all add: uc_reads_def ex_c3_eval BindingSize_def)
qed

text \<open>At the server node a stream belongs to one source. In every reachable state, as long as no write on a stream fails half way: the table files a stream under its own source;
  what was written on a stream is the handshake for the route with the session id of the stream, and then only frames of datagrams that were
  received from its source; and what was sent back to the source was read from its stream.\<close>

theorem mux_udp_streams:
  assumes "cmap_laws cm" "us_reach True cm mn mh node cfg v"
  shows "(\<forall>k i. cm_Get cm k (mgr_map (us_udpConns v)) = Some i \<longrightarrow> i < length (us_items v) \<and> us_src (us_items v ! i) = k) \<and>
    (\<forall>x \<in> set (us_items v).
       (\<exists>w bs. us_out x = w # bs \<and> HandshakeRequest_Bytes mh (server_hand node (us_sessId x) cfg) = Inr w \<and>
          (\<forall>b \<in> set bs. \<exists>d. (us_src x, d) \<in> set (us_recv v) \<and> length d \<le> 2048 \<and> stream_frame (us_src x) d = Inr b)) \<and>
       set (us_answers x) \<subseteq> Data ` set (us_read x))"
proof -
  have inv: "us_inv True cm mh node cfg v" by (rule us_reach_inv [OF assms(2,1)])
  then have "us_item_ok True mh node cfg (us_recv v) x" if "x \<in> set (us_items v)" for x using that by (simp add: us_inv_def list_all_iff)
  then show ?thesis using inv by (simp add: us_item_ok_def us_stream_def us_inv_def us_owns_def)
qed

theorem mux_udp_streams_witness:
  "us_reach True alist_cmap ex_mn ex_mh ''n'' ex_scfg ex_v3 \<and> us_out (us_items ex_v3 ! 0) = [[0, 1, 1, 2], example_frame 5] \<and>
   (\<exists>d. (''10.0.0.1:53'', d) \<in> set (us_recv ex_v3) \<and> length d \<le> 2048 \<and> stream_frame ''10.0.0.1:53'' d = Inr (example_frame 5))"
  using mux_udp_streams [OF alist_cmap_laws ex_v_reach(3)] ex_v_reach(3) by (simp add: ex_v3_eval ex_it_def)





text \<open>What goes wrong with UDP in the tunnel. Two first datagrams of one source open two streams: the table keeps the later one and both goroutines read that one, while the
  other stays open, with a datagram on it whose answer nobody reads. A new stream is filed with time zero, so that a tick of the collector before the write
  closes it and the datagram is lost. And the client node files sockets under the source alone: a second stream that asks for another target
  has its datagram sent to the target of the first, and the answer goes to the first.\<close>

theorem mux_udp_anomalies:
  "(\<exists>v. us_reach True alist_cmap ex_mn ex_mh ''n'' ex_scfg v \<and> length (us_items v) = 2 \<and> us_handlers v = [] \<and>
      us_out (us_items v ! 0) = [[0, 1, 1, 2], example_frame 5] \<and> us_out (us_items v ! 1) = [[0, 1, 1, 2], example_frame 6] \<and>
      \<not> us_closed (us_items v ! 0) \<and> us_readers v = [(''10.0.0.1:53'', Some 1), (''10.0.0.1:53'', Some 1)] \<and>
      (\<forall>k. cm_Get alist_cmap k (mgr_map (us_udpConns v)) \<noteq> Some 0)) \<and>
   (\<exists>v. us_reach True alist_cmap ex_mn ex_mh ''n'' ex_scfg v \<and> us_recv v = [(''10.0.0.1:53'', [5]), (''10.0.0.1:53'', [6])] \<and>
      us_closed (us_items v ! 0) \<and> us_out (us_items v ! 0) = [[0, 1, 1, 2]] \<and> (\<forall>i. (''10.0.0.1:53'', [5], Sending i) \<notin> set (us_handlers v))) \<and>
   (\<exists>u. uc_reach False alist_cmap u \<and> map ms_local (uc_streams u) = [''10.0.0.9:53'', ''10.0.0.8:99''] \<and>
      length (uc_items u) = 1 \<and> uc_localAddr (uc_items u ! 0) = ''10.0.0.9:53'' \<and> uc_out (uc_items u ! 0) = [(0, [5]), (1, [6])] \<and>
      map ms_out (uc_streams u) = [[example_frame 7], []])"
  (is "?two \<and> ?idle \<and> ?mixed")
proof (intro conjI)
  define v4 where "v4 = us_dial alist_cmap ex_mn ex_mh ''s'' (good_env ex_reply) None ''10.0.0.1:53'' [6] ex_v3"
  define v5 where "v5 = us_send None 21 ''10.0.0.1:53'' [6] 1 v4"
  define v6 where "v6 = us_reader_starts alist_cmap ''10.0.0.1:53'' v5"
  define v7 where "v7 = us_reader_starts alist_cmap ''10.0.0.1:53'' v6"
  have v4: "us_items v4 = us_items ex_v3 @ [ex_it]" "us_handlers v4 = [(''10.0.0.1:53'', [6], Sending 1)]"
    "us_readers v4 = [(''10.0.0.1:53'', None), (''10.0.0.1:53'', None)]"
    "mgr_map (us_udpConns v4) = DAList.update ''10.0.0.1:53'' 1 (DAList.update ''10.0.0.1:53'' 0 DAList.empty)"
    by (simp_all add: v4_def us_dial_def ex_v3_eval ex_v2_eval ex_dials ex_it_def alist_cmap_def)
  have v5: "us_items v5 = us_items ex_v3 @ [ex_it\<lparr>us_lastActiveTime := 21, us_out := [[0, 1, 1, 2], example_frame 6]\<rparr>]" "us_handlers v5 = []"
    "us_readers v5 = us_readers v4" "us_udpConns v5 = us_udpConns v4"
    by (simp_all add: v5_def us_send_def v4 ex_wire us_Write_def ex_v3_eval ex_it_def upd_at_def)
  have g: "cm_Get alist_cmap k (mgr_map (us_udpConns v4)) = (if k = ''10.0.0.1:53'' then Some 1 else None)" for k
    by (simp add: v4 alist_cmap_def lookup_update lookup_empty)
  have v7: "us_items v7 = us_items v5" "us_handlers v7 = []" "us_udpConns v7 = us_udpConns v4"
    "us_readers v6 = [(''10.0.0.1:53'', Some 1), (''10.0.0.1:53'', None)]" "us_readers v7 = [(''10.0.0.1:53'', Some 1), (''10.0.0.1:53'', Some 1)]"
    by (simp_all add: v7_def v6_def us_reader_starts_def v5 g v4(3))
  have 4: "us_reach True alist_cmap ex_mn ex_mh ''n'' ex_scfg v4" unfolding v4_def by (rule us_next [OF ex_v_reach(3) u_dial]) (simp add: ex_v3_eval)
  have 5: "us_reach True alist_cmap ex_mn ex_mh ''n'' ex_scfg v5" unfolding v5_def by (rule us_next [OF 4 u_send]) (simp_all add: v4)
  have 6: "us_reach True alist_cmap ex_mn ex_mh ''n'' ex_scfg v6" unfolding v6_def by (rule us_next [OF 5 u_starts]) (simp add: v5 v4)
  have "us_reach True alist_cmap ex_mn ex_mh ''n'' ex_scfg v7" unfolding v7_def by (rule us_next [OF 6 u_starts]) (simp add: v7)
  then show ?two using g by (intro exI [of _ v7]) (simp add: v7 v5 ex_v3_eval ex_it_def)
next
  define v3 where "v3 = us_check (us_tick alist_cmap 1000 ex_v2)"
  have v3: "us_items v3 = [ex_it\<lparr>us_closed := True\<rparr>]" "us_handlers v3 = us_handlers ex_v2" "us_recv v3 = us_recv ex_v2"
    by (simp_all add: v3_def us_check_def us_tick_def gc_tick_def gc_check_def us_gc_cb_def ex_v2_eval alist_cmap_def
        update.rep_eq empty.rep_eq us_Close_def MaxUDPIdleTime_def upd_at_def) (simp_all add: ex_it_def)
  have "us_reach True alist_cmap ex_mn ex_mh ''n'' ex_scfg (us_tick alist_cmap 1000 ex_v2)"
    by (rule us_next [OF ex_v_reach(2) u_tick]) (simp_all add: ex_v2_eval watches_def gc_busy_def gc_idle_def)
  then have 3: "us_reach True alist_cmap ex_mn ex_mh ''n'' ex_scfg v3"
    unfolding v3_def by (rule us_next [OF _ u_check]) (simp add: us_tick_def gc_tick_def)
  have "us_reach True alist_cmap ex_mn ex_mh ''n'' ex_scfg (us_send None 1001 ''10.0.0.1:53'' [5] 0 v3)"
    by (rule us_next [OF 3 u_send]) (simp_all add: v3 ex_v2_eval)
  then show ?idle
    by (intro exI [of _ "us_send None 1001 ''10.0.0.1:53'' [5] 0 v3"]) (simp add: us_send_def v3 ex_v2_eval ex_wire us_Write_def ex_it_def upd_at_def)
next
  define c5 where "c5 = uc_accept ''10.0.0.8:99'' ex_c4"
  define c6 where "c6 = c5\<lparr>uc_streams := upd_at 1 (\<lambda>x. x\<lparr>ms_in := ms_in x @ example_frame 6\<rparr>) (uc_streams c5)\<rparr>"
  define c7 where "c7 = uc_round alist_cmap True ''10.0.0.1:53'' 5 1 (Inr (example_datagram 6, [])) c6"
  define st where "st = \<lparr>ms_local = ''10.0.0.8:99'', ms_in = example_frame 6, ms_read = [], ms_out = [], ms_closed = False,
     uh_item = None, uh_cacheSrcAddr = '''', uh_ended = False\<rparr>"
  have c6: "uc_streams c6 = uc_streams ex_c4 @ [st]" "uc_items c6 = uc_items ex_c4" "uc_udpConns c6 = uc_udpConns ex_c2" "\<not> uc_cancelled c6"
    by (simp_all add: c6_def c5_def uc_accept_def ex_c4_eval upd_at_def st_def)
  have c7: "uc_streams c7 = uc_streams ex_c4 @ [st\<lparr>ms_in := [], ms_read := [example_datagram 6], uh_cacheSrcAddr := ''10.0.0.1:53'', uh_item := Some 0\<rparr>]"
    "uc_items c7 = [(uc_items ex_c4 ! 0)\<lparr>uc_lastActiveTime := 5\<rparr>]" "(1, [6]) \<in> set (uc_writes c7)"
    by (simp_all add: c7_def uc_round_def c6 ex_c4_eval ex_c2_eval example_key alist_cmap_def lookup_update uc_forward_def Let_def upd_at_def st_def)
  have "uc_reach False alist_cmap c6" unfolding c6_def c5_def
    by (rule uc_next [OF uc_next [OF ex_c_reach(3) c_accept] c_arrive]) (simp add: ex_c4_eval)
  then have "uc_reach False alist_cmap c7" unfolding c7_def
    by (rule uc_next [OF _ c_round]) (simp_all add: c6 ex_c4_eval st_def example_eval)
  then have "uc_reach False alist_cmap (uc_write True 1 [6] c7)" by (rule uc_next [OF _ c_write]) (rule c7(3))
  then show ?mixed
    by (intro exI [of _ "uc_write True 1 [6] c7"]) (simp add: uc_write_def c7 ex_c4_eval st_def ex_ci_def ex_st_def upd_at_def)
qed

end
