(* ===== verification/Conn_Adorn.thy ===== *)
theory Conn_Adorn
  imports Go_Conn "HOL-Library.Sublist"
begin

section \<open>connection: wrappers of a connection\<close>

text \<open>
  A \<open>net.Conn\<close> is its two operations on a state: \<open>Read\<close> into a buffer of \<open>n\<close> bytes returns what was read and an error, which may come
  with data, \<open>Write\<close> the number of bytes written and an error. A wrapper makes the operations on a larger state from those of the connection inside.
  Counters (cflow), rate limits (ciol) and stream ciphers (cencrypt, ccrypt) are modelled; what \<open>golang.org/x/time/rate\<close>, the ciphers and the key derivation do is a parameter.
\<close>

record 'c net =
  Read_op :: "nat \<Rightarrow> 'c \<Rightarrow> (bytes \<times> error option) \<times> 'c"
  Write_op :: "bytes \<Rightarrow> 'c \<Rightarrow> (nat \<times> error option) \<times> 'c"

text \<open>The connection of Go\_Conn.\<close>

definition raw_net :: "conn net" where
  "raw_net = \<lparr>Read_op = (\<lambda>n c. case conn_Read n c of (Inl e, c) \<Rightarrow> (([], Some e), c) | (Inr b, c) \<Rightarrow> ((b, None), c)),
     Write_op = (\<lambda>b c. case conn_Write b c of (Inl e, c) \<Rightarrow> ((0, Some e), c) | (Inr _, c) \<Rightarrow> ((length b, None), c))\<rparr>"

subsection \<open>Sequences of operations\<close>

datatype io_op = IoRead nat | IoWrite bytes

datatype io_res = Got bytes "error option" | Put nat "error option"

fun io_step :: "'c net \<Rightarrow> io_op \<Rightarrow> 'c \<Rightarrow> io_res \<times> 'c" where
  "io_step N (IoRead n) c = (case Read_op N n c of ((b, e), c) \<Rightarrow> (Got b e, c))"
| "io_step N (IoWrite b) c = (case Write_op N b c of ((n, e), c) \<Rightarrow> (Put n e, c))"

fun io_run :: "'c net \<Rightarrow> io_op list \<Rightarrow> 'c \<Rightarrow> io_res list \<times> 'c" where
  "io_run N [] c = ([], c)"
| "io_run N (x # xs) c = (case io_step N x c of (r, c) \<Rightarrow> (case io_run N xs c of (rs, c) \<Rightarrow> (r # rs, c)))"

text \<open>The data of a result, without its error, and the bytes that were transferred in either direction.\<close>

fun io_data :: "io_res \<Rightarrow> bytes + nat" where
  "io_data (Got b e) = Inl b"
| "io_data (Put n e) = Inr n"

fun got :: "io_res \<Rightarrow> bytes" where
  "got (Got b e) = b"
| "got (Put n e) = []"

fun put :: "io_res \<Rightarrow> nat" where
  "put (Got b e) = 0"
| "put (Put n e) = n"

text \<open>A wrapper that passes the data on unchanged in both directions: every sequence of operations transfers what it would without the wrapper.\<close>

locale transparent =
  fixes inner :: "'c net" and outer :: "'d net" and base :: "'d \<Rightarrow> 'c"
  assumes read_same: "fst (fst (Read_op outer n d)) = fst (fst (Read_op inner n (base d)))" "base (snd (Read_op outer n d)) = snd (Read_op inner n (base d))"
    and write_same: "fst (fst (Write_op outer b d)) = fst (fst (Write_op inner b (base d)))" "base (snd (Write_op outer b d)) = snd (Write_op inner b (base d))"
begin

lemma step_same: "io_data (fst (io_step outer x d)) = io_data (fst (io_step inner x (base d)))" "base (snd (io_step outer x d)) = snd (io_step inner x (base d))"
proof -
  show "io_data (fst (io_step outer x d)) = io_data (fst (io_step inner x (base d)))"
    by (cases x) (simp_all add: read_same write_same split: prod.splits, (metis fst_conv read_same(1) write_same(1))+)
  show "base (snd (io_step outer x d)) = snd (io_step inner x (base d))"
    by (cases x) (simp_all split: prod.splits, (metis snd_conv read_same(2) write_same(2))+)
qed

lemma run_same: "map io_data (fst (io_run outer xs d)) = map io_data (fst (io_run inner xs (base d))) \<and> base (snd (io_run outer xs d)) = snd (io_run inner xs (base d))"
proof (induction xs arbitrary: d)
  case (Cons x xs)
  obtain r d' where o: "io_step outer x d = (r, d')" by fastforce
  obtain r' c' where i: "io_step inner x (base d) = (r', c')" by fastforce
  have "io_data r = io_data r'" "base d' = c'" using step_same [of x d] o i by simp_all
  then show ?case using Cons.IH [of d'] o i by (auto split: prod.split)
qed simp

end

subsection \<open>connection/cflow: counting\<close>

record flow =
  fl_Wc :: "64 word option"
  fl_Rc :: "64 word option"
  fl_Tc :: "64 word option"

definition counted :: "nat \<Rightarrow> 64 word option \<Rightarrow> 64 word option" where
  "counted n = map_option (\<lambda>c. c + of_nat n)"

definition flow_net :: "'c net \<Rightarrow> ('c \<times> flow) net" where
  "flow_net N =
     \<lparr>Read_op = (\<lambda>n (c, f). case Read_op N n c of ((b, e), c) \<Rightarrow>
        ((b, e), c, if length b \<noteq> 0 then f\<lparr>fl_Rc := counted (length b) (fl_Rc f), fl_Tc := counted (length b) (fl_Tc f)\<rparr> else f)),
      Write_op = (\<lambda>b (c, f). case Write_op N b c of ((n, e), c) \<Rightarrow>
        ((n, e), c, if n \<noteq> 0 then f\<lparr>fl_Wc := counted n (fl_Wc f), fl_Tc := counted n (fl_Tc f)\<rparr> else f))\<rparr>"

interpretation flow: transparent N "flow_net N" fst for N
  by unfold_locales (simp_all add: flow_net_def split: prod.split)

lemma counted_0 [simp]: "counted 0 c = c"
  by (cases c) (simp_all add: counted_def)

lemma counted_counted: "counted m (counted n c) = counted (n + m) c"
  by (cases c) (simp_all add: counted_def)

lemma flow_step:
  assumes "io_step (flow_net N) x (c, f) = (r, c', f')"
  shows "f' = f\<lparr>fl_Wc := counted (put r) (fl_Wc f), fl_Rc := counted (length (got r)) (fl_Rc f), fl_Tc := counted (length (got r) + put r) (fl_Tc f)\<rparr>"
  using assms by (cases x) (auto simp: flow_net_def split: prod.splits if_splits)

lemma flow_run:
  assumes "io_run (flow_net N) xs (c, f) = (rs, c', f')"
  shows "f' = f\<lparr>fl_Wc := counted (sum_list (map put rs)) (fl_Wc f), fl_Rc := counted (length (concat (map got rs))) (fl_Rc f),
     fl_Tc := counted (length (concat (map got rs)) + sum_list (map put rs)) (fl_Tc f)\<rparr>"
  using assms
proof (induction xs arbitrary: c f rs)
  case (Cons x xs)
  obtain r c1 f1 where s: "io_step (flow_net N) x (c, f) = (r, c1, f1)" by (metis prod_cases3)
  obtain rs1 s1 where r: "io_run (flow_net N) xs (c1, f1) = (rs1, s1)" by (rule prod.exhaust)
  then have e: "s1 = (c', f')" "rs = r # rs1" using Cons.prems s by simp_all
  show ?case using Cons.IH [OF r [unfolded e(1)]] unfolding flow_step [OF s] e(2) by (simp add: counted_counted ac_simps)
qed simp

subsection \<open>connection/ciol: rate limits\<close>

text \<open>\<open>wait\<close> is \<open>WaitN\<close> of a limiter: whether it fails, and the limiter afterwards. Data that has been transferred is reported with the error of the limiter.\<close>

definition limited :: "(nat \<Rightarrow> 'l \<Rightarrow> error option \<times> 'l) \<Rightarrow> nat \<Rightarrow> error option \<Rightarrow> 'l option \<Rightarrow> error option \<times> 'l option" where
  "limited wait n e l =
     (case l of
        None \<Rightarrow> (e, None)
      | Some x \<Rightarrow> if e \<noteq> None then (e, Some x) else (case wait n x of (e', x') \<Rightarrow> (e', Some x')))"

definition iol_net :: "(nat \<Rightarrow> 'l \<Rightarrow> error option \<times> 'l) \<Rightarrow> 'c net \<Rightarrow> ('c \<times> 'l option \<times> 'l option) net" where
  "iol_net wait N =
     \<lparr>Read_op = (\<lambda>n (c, rl, wl). case Read_op N n c of ((b, e), c) \<Rightarrow>
        (case limited wait (length b) e rl of (e, rl) \<Rightarrow> ((b, e), c, rl, wl))),
      Write_op = (\<lambda>b (c, rl, wl). case Write_op N b c of ((n, e), c) \<Rightarrow>
        (case limited wait n e wl of (e, wl) \<Rightarrow> ((n, e), c, rl, wl)))\<rparr>"

interpretation iol: transparent N "iol_net wait N" fst for wait N
  by unfold_locales (simp_all add: iol_net_def split: prod.split)

subsection \<open>crypto/cipher: StreamWriter and StreamReader\<close>

definition ErrShortWrite :: error where "ErrShortWrite = ErrMsg ''short write''"

text \<open>The state of the reading stream comes before that of the writing stream.\<close>

definition stream_net :: "('s \<Rightarrow> bytes \<Rightarrow> bytes \<times> 's) \<Rightarrow> 'c net \<Rightarrow> ('c \<times> 's \<times> 's) net" where
  "stream_net ks N =
     \<lparr>Read_op = (\<lambda>n (c, r, w). case Read_op N n c of ((b, e), c) \<Rightarrow> (case ks r b of (b, r) \<Rightarrow> ((b, e), c, r, w))),
      Write_op = (\<lambda>b (c, r, w). case ks w b of (x, w) \<Rightarrow> (case Write_op N x c of ((n, e), c) \<Rightarrow>
        ((n, if n \<noteq> length b \<and> e = None then Some ErrShortWrite else e), c, r, w)))\<rparr>"

text \<open>What is relied on of a stream: successive calls behave as one (the documentation of \<open>cipher.Stream\<close>), the result is as long as the
  input, and \<open>e\<close> and \<open>d\<close>, made for the same key and vector, undo each other.\<close>

definition stream_law :: "('s \<Rightarrow> bytes \<Rightarrow> bytes \<times> 's) \<Rightarrow> bool" where
  "stream_law ks \<longleftrightarrow> (\<forall>s. ks s [] = ([], s)) \<and> (\<forall>s x. length (fst (ks s x)) = length x) \<and>
     (\<forall>s x y. ks s (x @ y) = (fst (ks s x) @ fst (ks (snd (ks s x)) y), snd (ks (snd (ks s x)) y)))"

definition undoes :: "('s \<Rightarrow> bytes \<Rightarrow> bytes \<times> 's) \<Rightarrow> 's \<Rightarrow> 's \<Rightarrow> bool" where
  "undoes ks e d \<longleftrightarrow> (\<forall>x. fst (ks d (fst (ks e x))) = x)"

lemma stream_lawD:
  assumes "stream_law ks"
  shows "ks s [] = ([], s)" "length (fst (ks s x)) = length x"
    "ks s (x @ y) = (fst (ks s x) @ fst (ks (snd (ks s x)) y), snd (ks (snd (ks s x)) y))"
  using assms unfolding stream_law_def by blast+

text \<open>Blocks written on a connection that takes them: the wire carries the encrypted concatenation.\<close>

lemma stream_writes:
  assumes "stream_law ks" "write_err c = (\<lambda>_. None)"
  shows "\<exists>c' . snd (io_run (stream_net ks raw_net) (map IoWrite bs) (c, r, w)) = (c', r, snd (ks w (concat bs))) \<and>
    concat (outbox c') = concat (outbox c) @ fst (ks w (concat bs)) \<and> write_err c' = (\<lambda>_. None) \<and> inbox c' = inbox c"
  using assms(2)
proof (induction bs arbitrary: c w)
  case Nil
  then show ?case by (simp add: stream_lawD(1) [OF assms(1)])
next
  case (Cons b bs)
  obtain x w1 where x: "ks w b = (x, w1)" by fastforce
  define c1 where "c1 = c\<lparr>write_no := Suc (write_no c), outbox := outbox c @ [x]\<rparr>"
  have "snd (io_step (stream_net ks raw_net) (IoWrite b) (c, r, w)) = (c1, r, w1)"
    using x Cons.prems by (simp add: stream_net_def raw_net_def conn_Write_def c1_def)
  then obtain res where s: "io_step (stream_net ks raw_net) (IoWrite b) (c, r, w) = (res, c1, r, w1)" by (metis prod.collapse)
  have "write_err c1 = (\<lambda>_. None)" using Cons.prems by (simp add: c1_def)
  from Cons.IH [OF this, of w1] s show ?case
    using x by (auto simp: c1_def stream_lawD(3) [OF assms(1), of w b] split: prod.split)
qed

text \<open>Reads give the decryption of what they take from the connection.\<close>

lemma raw_read:
  assumes "Read_op raw_net n c = ((b, e), c')"
  shows "concat (inbox c) = b @ concat (inbox c')"
  using assms by (auto simp: raw_net_def conn_Read_def split: list.splits prod.splits)

lemma stream_reads:
  assumes "stream_law ks" "io_run (stream_net ks raw_net) (map IoRead ns) (c, r, w) = (rs, c', r', w')"
  shows "\<exists>t. concat (inbox c) = t @ concat (inbox c') \<and> concat (map got rs) = fst (ks r t) \<and> r' = snd (ks r t)"
  using assms(2)
proof (induction ns arbitrary: c r rs)
  case Nil
  then show ?case by (simp add: stream_lawD(1) [OF assms(1)])
next
  case (Cons n ns)
  obtain b e c1 where b: "Read_op raw_net n c = ((b, e), c1)" by (metis prod.collapse)
  have s: "io_step (stream_net ks raw_net) (IoRead n) (c, r, w) = (Got (fst (ks r b)) e, c1, snd (ks r b), w)"
    by (simp add: stream_net_def b split: prod.split)
  obtain rs1 s1 where r1: "io_run (stream_net ks raw_net) (map IoRead ns) (c1, snd (ks r b), w) = (rs1, s1)" by (rule prod.exhaust)
  then have e: "s1 = (c', r', w')" "rs = Got (fst (ks r b)) e # rs1" using Cons.prems s by simp_all
  obtain t where "concat (inbox c1) = t @ concat (inbox c')" "concat (map got rs1) = fst (ks (snd (ks r b)) t)" "r' = snd (ks (snd (ks r b)) t)"
    using Cons.IH [OF r1 [unfolded e(1)]] by blast
  then show ?case using raw_read [OF b] e(2) by (intro exI [of _ "b @ t"]) (simp add: stream_lawD(3) [OF assms(1), of r b])
qed

text \<open>Both together: whatever is written at one end and however it is cut on the way, the other end reads a prefix of it, and all of it when everything has arrived and been taken.\<close>

lemma stream_ends:
  assumes "stream_law ks" "undoes ks w r" "write_err a = (\<lambda>_. None)" "outbox a = []"
    and "snd (io_run (stream_net ks raw_net) (map IoWrite bs) (a, ra, w)) = (a', ra', w')"
    and "io_run (stream_net ks raw_net) (map IoRead ns) (b, r, wb) = (rs, b', r', wb')" "prefix (concat (inbox b)) (concat (outbox a'))"
  shows "prefix (concat (map got rs)) (concat bs) \<and>
    (concat (inbox b) = concat (outbox a') \<and> concat (inbox b') = [] \<longrightarrow> concat (map got rs) = concat bs)"
proof -
  have a: "concat (outbox a') = fst (ks w (concat bs))" using stream_writes [OF assms(1,3), of bs ra w] assms(4,5) by auto
  obtain t where t: "concat (inbox b) = t @ concat (inbox b')" "concat (map got rs) = fst (ks r t)" using stream_reads [OF assms(1,6)] by blast
  obtain z where "fst (ks w (concat bs)) = concat (inbox b) @ z" using assms(7) a by (auto simp: prefix_def)
  then have z: "fst (ks w (concat bs)) = t @ concat (inbox b') @ z" using t(1) by simp
  have u: "fst (ks r (fst (ks w (concat bs)))) = concat bs" using assms(2) by (simp add: undoes_def)
  have "concat bs = fst (ks r t) @ fst (ks (snd (ks r t)) (concat (inbox b') @ z))" using u z stream_lawD(3) [OF assms(1), of r t] by simp
  then have "prefix (concat (map got rs)) (concat bs)" using t(2) by (simp add: prefix_def)
  moreover have "concat (map got rs) = concat bs" if "concat (inbox b) = concat (outbox a')" "concat (inbox b') = []"
    using that a t u by simp
  ultimately show ?thesis by blast
qed

subsection \<open>connection/cencrypt\<close>

text \<open>A cipher of \<open>encrypt.NewCipher\<close> has a stream for writing and one for reading.\<close>

definition cencrypt_New :: "'s \<times> 's \<Rightarrow> 'c \<Rightarrow> 'c \<times> 's \<times> 's" where
  "cencrypt_New cip c = (c, snd cip, fst cip)"

subsection \<open>connection/ccrypt\<close>

record 'h crypt_config =
  cc_Password :: string
  cc_Salt :: bytes
  cc_Iterations :: int
  cc_KeySize :: int
  cc_Hash :: "'h option"

text \<open>\<open>cv_Sum\<close> is \<open>DefaultHash().Sum\<close>: it appends the hash of what was written into the hash, which is nothing, to its argument. The ciphers
  are AES in CFB mode for a key and a vector.\<close>

record ('h, 's) crypt_env =
  cv_pbkdf2 :: "string \<Rightarrow> bytes \<Rightarrow> int \<Rightarrow> int \<Rightarrow> 'h \<Rightarrow> bytes"
  cv_DefaultHash :: 'h
  cv_Sum :: "bytes \<Rightarrow> bytes"
  cv_Encrypter :: "bytes \<Rightarrow> bytes \<Rightarrow> 's"
  cv_Decrypter :: "bytes \<Rightarrow> bytes \<Rightarrow> 's"
  cv_XORKeyStream :: "'s \<Rightarrow> bytes \<Rightarrow> bytes \<times> 's"

definition DefaultIterations :: int where "DefaultIterations = 2048"

definition DefaultKeySize :: int where "DefaultKeySize = 32"

definition DefaultSalt :: bytes where
  "DefaultSalt = map (\<lambda>c. of_char c) (''dfaod..ga'' @ [CHR 0x27] @ ''.'' @ [CHR 0x27] @ '';dfa,;dfa'' @ [CHR 0x27] @ '','' @ [CHR 0x27] @ '';023pkadb;j90[[q93jr4poemf'' @ [CHR 0x27] @ '';adm;lcv;aodfm'' @ [CHR 0x27] @ ''a;dlm[f09eqegoain;lfgankd;gihqp8e8hladknaldkpq3h4'' @ [CHR 0x27] @ [CHR 0x27])"

definition crypt_key :: "('h, 's) crypt_env \<Rightarrow> 'h crypt_config \<Rightarrow> bytes" where
  "crypt_key env cfg = cv_pbkdf2 env (cc_Password cfg) (if cc_Salt cfg = [] then DefaultSalt else cc_Salt cfg)
     (if cc_Iterations cfg = 0 then DefaultIterations else cc_Iterations cfg)
     (if cc_KeySize cfg \<noteq> 16 \<and> cc_KeySize cfg \<noteq> 24 \<and> cc_KeySize cfg \<noteq> 32 then DefaultKeySize else cc_KeySize cfg)
     (case cc_Hash cfg of None \<Rightarrow> cv_DefaultHash env | Some h \<Rightarrow> h)"

definition ccrypt_New :: "('h, 's) crypt_env \<Rightarrow> 'h crypt_config \<Rightarrow> 'c \<Rightarrow> ('c \<times> 's \<times> 's) result" where
  "ccrypt_New env cfg c =
     (let k = crypt_key env cfg in
      if length k \<notin> {16, 24, 32} then Inl (Panic (PanicMsg ''crypto/aes: invalid key size''))
      else let riv = cv_Sum env k; wiv = cv_Sum env riv
           in Inr (c, cv_Decrypter env k (take 16 riv), cv_Encrypter env k (take 16 wiv)))"

text \<open>What is relied on: the streams are streams and undo each other for the same key and vector, the derived key has the size asked for, and \<open>Sum\<close> appends.\<close>

definition crypt_law :: "('h, 's) crypt_env \<Rightarrow> bool" where
  "crypt_law env \<longleftrightarrow> stream_law (cv_XORKeyStream env) \<and> (\<forall>k v. undoes (cv_XORKeyStream env) (cv_Encrypter env k v) (cv_Decrypter env k v)) \<and>
     (\<forall>p s i n h. 0 \<le> n \<longrightarrow> length (cv_pbkdf2 env p s i n h) = nat n) \<and> (\<exists>digest. \<forall>b. cv_Sum env b = b @ digest)"

lemma crypt_key_size: "crypt_law env \<Longrightarrow> length (crypt_key env cfg) \<in> {16, 24, 32}"
  by (auto simp: crypt_law_def crypt_key_def DefaultKeySize_def)

lemma ccrypt_New_states:
  assumes "crypt_law env"
  shows "ccrypt_New env cfg c = Inr (c, cv_Decrypter env (crypt_key env cfg) (take 16 (crypt_key env cfg)), cv_Encrypter env (crypt_key env cfg) (take 16 (crypt_key env cfg)))"
proof -
  define k where "k = crypt_key env cfg"
  have k: "length k \<in> {16, 24, 32}" "16 \<le> length k" using crypt_key_size [OF assms, of cfg] by (auto simp: k_def)
  obtain digest where "\<And>b. cv_Sum env b = b @ digest" using assms unfolding crypt_law_def by blast
  then show ?thesis using k by (auto simp: ccrypt_New_def k_def [symmetric] Let_def)
qed

subsection \<open>Properties\<close>

text \<open>What the end \<open>a\<close> writes with the stream \<open>w\<close> is what any other end reads with the stream \<open>r\<close>.\<close>

definition understood :: "('s \<Rightarrow> bytes \<Rightarrow> bytes \<times> 's) \<Rightarrow> conn \<times> 's \<times> 's \<Rightarrow> (conn \<Rightarrow> conn \<times> 's \<times> 's) \<Rightarrow> bool" where
  "understood ks a mk \<longleftrightarrow> (\<forall>bs a' sa b ns rs b' sb. snd (io_run (stream_net ks raw_net) (map IoWrite bs) a) = (a', sa) \<and>
     io_run (stream_net ks raw_net) (map IoRead ns) (mk b) = (rs, b', sb) \<and> prefix (concat (inbox b)) (concat (outbox a')) \<longrightarrow>
       prefix (concat (map got rs)) (concat bs) \<and> (concat (inbox b) = concat (outbox a') \<and> concat (inbox b') = [] \<longrightarrow> concat (map got rs) = concat bs))"

lemma understood_ends:
  assumes "stream_law ks" "undoes ks w r" "write_err a = (\<lambda>_. None)" "outbox a = []"
  shows "understood ks (a, ra, w) (\<lambda>b. (b, r, wb))"
  unfolding understood_def
proof (intro allI impI)
  fix bs a' sa b ns rs b' sb
  assume h: "snd (io_run (stream_net ks raw_net) (map IoWrite bs) (a, ra, w)) = (a', sa) \<and>
    io_run (stream_net ks raw_net) (map IoRead ns) (b, r, wb) = (rs, b', sb) \<and> prefix (concat (inbox b)) (concat (outbox a'))"
  obtain ra' w' r' wb' where "sa = (ra', w')" "sb = (r', wb')" by (cases sa; cases sb) blast
  then show "prefix (concat (map got rs)) (concat bs) \<and> (concat (inbox b) = concat (outbox a') \<and> concat (inbox b') = [] \<longrightarrow> concat (map got rs) = concat bs)"
    using stream_ends [OF assms, of bs ra a' ra' w' ns b wb rs b' r' wb'] h by blast
qed

text \<open>C24. A connection encrypted with ccrypt is transparent between two ends with the same configuration. Making it never panics, whatever the configuration; both directions start
  from the first sixteen bytes of the key as their vector; and whatever blocks one end writes and however the network cuts the bytes, what the other end reads is a prefix
  of them, and all of them when everything has arrived and been read. The same holds for cencrypt with streams that undo each other.\<close>

theorem ccrypt_transparent:
  assumes "crypt_law env" "write_err a = (\<lambda>_. None)" "outbox a = []"
  shows "\<exists>r w. (\<forall>c. ccrypt_New env cfg (c :: conn) = Inr (c, r, w)) \<and>
    r = cv_Decrypter env (crypt_key env cfg) (take 16 (crypt_key env cfg)) \<and> w = cv_Encrypter env (crypt_key env cfg) (take 16 (crypt_key env cfg)) \<and>
    understood (cv_XORKeyStream env) (a, r, w) (\<lambda>b. (b, r, w)) \<and>
    (\<forall>xw xr. undoes (cv_XORKeyStream env) xw xr \<longrightarrow>
       understood (cv_XORKeyStream env) (cencrypt_New (xw, xr) a) (\<lambda>b. cencrypt_New (xw, xr) b))"
proof -
  define k where "k = crypt_key env cfg"
  have law: "stream_law (cv_XORKeyStream env)" and u: "undoes (cv_XORKeyStream env) (cv_Encrypter env k (take 16 k)) (cv_Decrypter env k (take 16 k))"
    using assms(1) by (simp_all add: crypt_law_def)
  have st: "ccrypt_New env cfg (c :: conn) = Inr (c, cv_Decrypter env k (take 16 k), cv_Encrypter env k (take 16 k))" for c
    unfolding k_def by (rule ccrypt_New_states [OF assms(1)])
  show ?thesis
    using st understood_ends [OF law _ assms(2,3)] u
    by - (rule exI [of _ "cv_Decrypter env k (take 16 k)"], rule exI [of _ "cv_Encrypter env k (take 16 k)"], simp add: k_def [symmetric] cencrypt_New_def)
qed

text \<open>An instance: streams that add a number to every byte.\<close>

definition ex_crypt :: "(unit, byte) crypt_env" where
  "ex_crypt = \<lparr>cv_pbkdf2 = (\<lambda>p s i n h. replicate (nat n) 3), cv_DefaultHash = (), cv_Sum = (\<lambda>b. b @ [9]),
     cv_Encrypter = (\<lambda>k v. hd k), cv_Decrypter = (\<lambda>k v. - hd k), cv_XORKeyStream = (\<lambda>s b. (map (\<lambda>x. x + s) b, s))\<rparr>"

lemma ex_crypt_law: "crypt_law ex_crypt"
  by (auto simp: crypt_law_def ex_crypt_def stream_law_def undoes_def comp_def)

definition ex_ccfg :: "unit crypt_config" where
  "ex_ccfg = \<lparr>cc_Password = ''p'', cc_Salt = [], cc_Iterations = 0, cc_KeySize = 0, cc_Hash = None\<rparr>"

theorem ccrypt_transparent_witness:
  "ccrypt_New ex_crypt ex_ccfg (good_conn []) = Inr (good_conn [], - 3, 3) \<and>
   prefix (concat (map got (fst (io_run (stream_net (cv_XORKeyStream ex_crypt) raw_net) (map IoRead [1, 9, 9]) (good_conn [[4, 5], [6]], - 3, 3))))) [1, 2, 3]"
proof -
  have k: "crypt_key ex_crypt ex_ccfg = replicate 32 3" by (simp add: crypt_key_def ex_crypt_def ex_ccfg_def DefaultKeySize_def)
  obtain r w where t: "\<forall>c :: conn. ccrypt_New ex_crypt ex_ccfg c = Inr (c, r, w)" "r = - 3" "w = 3"
    "understood (cv_XORKeyStream ex_crypt) (good_conn [], r, w) (\<lambda>b. (b, r, w))"
    using ccrypt_transparent [OF ex_crypt_law, of "good_conn []" ex_ccfg] unfolding k by (auto simp: good_conn_def ex_crypt_def)
  define a' where "a' = fst (snd (io_run (stream_net (cv_XORKeyStream ex_crypt) raw_net) (map IoWrite [[1, 2], [3]]) (good_conn [], - 3, 3)))"
  have a: "concat (outbox a') = [4, 5, 6]"
    by (simp add: a'_def ex_crypt_def stream_net_def raw_net_def conn_Write_def good_conn_def)
  have "prefix (concat (map got (fst (io_run (stream_net (cv_XORKeyStream ex_crypt) raw_net) (map IoRead [1, 9, 9]) (good_conn [[4, 5], [6]], - 3, 3))))) (concat [[1, 2], [3]])"
    using t(4) [unfolded understood_def t(2,3), rule_format, of "[[1, 2], [3]]" a' _ "[1, 9, 9]" "good_conn [[4, 5], [6]]"] a
    unfolding a'_def by (metis (no_types, lifting) good_conn_def concat.simps append.simps conn.select_convs(1) prefix_order.refl prod.collapse)
  then show ?thesis using t(1-3) by simp
qed

text \<open>C32. Counting and limiting change nothing of what is transferred. A connection that is limited and counted returns, for every sequence of reads and writes, the same bytes and the same
  numbers of bytes as the connection inside, and leaves it in the same state; the counters grow, modulo \<open>2\<^sup>6\<^sup>4\<close>, by exactly the bytes read, the bytes written and
  both; and without limiters every error is that of the connection inside.\<close>

theorem wrappers_transparent:
  assumes "io_run (flow_net (iol_net wait N)) xs ((c, rl, wl), f) = (rs, (c', rl', wl'), f')"
  shows "map io_data rs = map io_data (fst (io_run N xs c)) \<and> c' = snd (io_run N xs c) \<and>
    f' = f\<lparr>fl_Wc := counted (sum_list (map put rs)) (fl_Wc f), fl_Rc := counted (length (concat (map got rs))) (fl_Rc f),
           fl_Tc := counted (length (concat (map got rs)) + sum_list (map put rs)) (fl_Tc f)\<rparr> \<and>
    (rl = None \<and> wl = None \<longrightarrow> rs = fst (io_run N xs c))"
proof (intro conjI)
  show "map io_data rs = map io_data (fst (io_run N xs c))" "c' = snd (io_run N xs c)"
    using flow.run_same [of "iol_net wait N" xs "((c, rl, wl), f)"] iol.run_same [of wait N xs "(c, rl, wl)"] assms by (simp_all, metis fst_conv)
  show "f' = f\<lparr>fl_Wc := counted (sum_list (map put rs)) (fl_Wc f), fl_Rc := counted (length (concat (map got rs))) (fl_Rc f),
           fl_Tc := counted (length (concat (map got rs)) + sum_list (map put rs)) (fl_Tc f)\<rparr>"
    by (rule flow_run [OF assms])
  show "rl = None \<and> wl = None \<longrightarrow> rs = fst (io_run N xs c)"
    using assms
  proof (induction xs arbitrary: c rl wl f rs)
    case (Cons x xs)
    show ?case
    proof
      assume n: "rl = None \<and> wl = None"
      obtain r c1 where i: "io_step N x c = (r, c1)" by fastforce
      then obtain f1 where o: "io_step (flow_net (iol_net wait N)) x ((c, rl, wl), f) = (r, (c1, None, None), f1)"
        using n by (cases x) (auto simp: flow_net_def iol_net_def limited_def split: prod.splits)
      obtain rs1 s1 where r1: "io_run (flow_net (iol_net wait N)) xs ((c1, None, None), f1) = (rs1, s1)" by (rule prod.exhaust)
      then have e: "rs = r # rs1" "s1 = ((c', rl', wl'), f')" using Cons.prems o by simp_all
      show "rs = fst (io_run N (x # xs) c)" using Cons.IH [OF r1 [unfolded e(2)]] e(1) i by (simp split: prod.split)
    qed
  qed simp
qed

theorem wrappers_transparent_witness:
  "io_run (flow_net (iol_net (\<lambda>n l. (if l < n then Some EOF else None, l)) raw_net)) [IoRead 4, IoWrite [9]]
     ((good_conn [[1, 2]], Some (1 :: nat), None), \<lparr>fl_Wc = Some 0, fl_Rc = None, fl_Tc = Some 5\<rparr>) =
   ([Got [1, 2] (Some EOF), Put 1 None], ((good_conn [])\<lparr>write_no := 1, outbox := [[9]]\<rparr>, Some 1, None), \<lparr>fl_Wc = Some 1, fl_Rc = None, fl_Tc = Some 8\<rparr>) \<and>
   map io_data [Got [1, 2] (Some EOF), Put 1 None] = map io_data (fst (io_run raw_net [IoRead 4, IoWrite [9]] (good_conn [[1, 2]])))"
proof -
  have r: "io_run (flow_net (iol_net (\<lambda>n l. (if l < n then Some EOF else None, l)) raw_net)) [IoRead 4, IoWrite [9]]
     ((good_conn [[1, 2]], Some (1 :: nat), None), \<lparr>fl_Wc = Some 0, fl_Rc = None, fl_Tc = Some 5\<rparr>) =
   ([Got [1, 2] (Some EOF), Put 1 None], ((good_conn [])\<lparr>write_no := 1, outbox := [[9]]\<rparr>, Some 1, None), \<lparr>fl_Wc = Some 1, fl_Rc = None, fl_Tc = Some 8\<rparr>)"
    by (simp add: flow_net_def iol_net_def limited_def raw_net_def conn_Read_def conn_Write_def good_conn_def counted_def)
  from wrappers_transparent [OF r] r show ?thesis by blast
qed

end
