(* ===== verification/Dialler.thy ===== *)
theory Dialler
  imports Conn_Adorn Go_Net
begin

section \<open>connection, cs and pkg/ccs: dialling and listening\<close>

text \<open>
  A \<open>ccs.Dialer\<close> and a \<open>ccs.Server\<close> make and accept connections for a protocol name: the raw connection comes from the network, through a proxy or not, or from KCP, and
  is then wrapped by TLS or a cipher and by the chain of the caller. Network, TLS, certificates and the ciphers are parameters; a connection is a value of any type.
\<close>

subsection \<open>connection/conn.go\<close>

definition adorn :: "('c \<Rightarrow> 'c) list \<Rightarrow> 'c \<Rightarrow> 'c" where
  "adorn layers c = foldl (\<lambda>c f. f c) c layers"

definition Client_Dial :: "(string \<Rightarrow> string \<Rightarrow> 'c result) \<Rightarrow> (string \<Rightarrow> string \<Rightarrow> 'c result) option \<Rightarrow> ('c \<Rightarrow> 'c) list \<Rightarrow> string \<Rightarrow> string \<Rightarrow> 'c result" where
  "Client_Dial net_Dial forward layers network addr =
     bindR ((case forward of None \<Rightarrow> net_Dial | Some d \<Rightarrow> d) network addr) (\<lambda>c. Inr (adorn layers c))"

text \<open>A listener, as the function from what arrives to what \<open>Accept\<close> returns.\<close>

definition NewListener :: "('c \<Rightarrow> 'c) list \<Rightarrow> 'c result \<Rightarrow> 'c result" where
  "NewListener layers inner = bindR inner (\<lambda>c. Inr (adorn layers c))"

definition conn_Listen :: "(string \<Rightarrow> error option) \<Rightarrow> string \<Rightarrow> ('c \<Rightarrow> 'c) list \<Rightarrow> ('c result \<Rightarrow> 'c result) result" where
  "conn_Listen net_Listen addr layers = (case net_Listen addr of Some e \<Rightarrow> Inl e | None \<Rightarrow> Inr (NewListener layers))"

subsection \<open>cs/tcp\_config.go\<close>

record TLSConfig =
  tl_CaCert :: "bytes option"
  tl_Cert :: bytes
  tl_Key :: bytes
  tl_Single :: bool

text \<open>\<open>te_Verify roots raw\<close>: the verification of a certificate against the roots in \<open>roots\<close>. \<open>te_Parse\<close> gives the common name of a certificate.\<close>

record 'k tls_env =
  te_X509KeyPair :: "bytes \<Rightarrow> bytes \<Rightarrow> 'k result"
  te_AppendCerts :: "bytes \<Rightarrow> bool"
  te_Decode :: "bytes \<Rightarrow> bytes option"
  te_Parse :: "bytes \<Rightarrow> string result"
  te_Verify :: "bytes \<Rightarrow> bytes \<Rightarrow> error option"

record 'k client_tls =
  ct_RootCAs :: bytes
  ct_Certificate :: "'k option"
  ct_ServerName :: string

record 'k server_tls =
  st_Certificate :: 'k
  st_ClientCAs :: "bytes option"

text \<open>\<open>VerifyPeerCertificate\<close> of a client: a certificate that does not parse is a nil pointer.\<close>

fun VerifyPeer :: "'k tls_env \<Rightarrow> bytes \<Rightarrow> bytes list \<Rightarrow> error option" where
  "VerifyPeer te roots [] = None"
| "VerifyPeer te roots (raw # raws) =
     (case te_Parse te raw of
        Inl _ \<Rightarrow> Some (Panic NilDereference)
      | Inr _ \<Rightarrow> (case te_Verify te roots raw of Some e \<Rightarrow> Some e | None \<Rightarrow> VerifyPeer te roots raws))"

definition ca_bytes :: "TLSConfig \<Rightarrow> bytes" where
  "ca_bytes sf = (case tl_CaCert sf of None \<Rightarrow> tl_Cert sf | Some ca \<Rightarrow> ca)"

definition ClientConfig :: "'k tls_env \<Rightarrow> TLSConfig \<Rightarrow> 'k client_tls result" where
  "ClientConfig te sf =
     (if tl_Single sf then
        (case tl_CaCert sf of
           None \<Rightarrow> Inl (ErrMsg ''invalid root certificate'')
         | Some ca \<Rightarrow>
             if ca = [] then Inl (ErrMsg ''invalid root certificate'')
             else if \<not> te_AppendCerts te ca then Inl (ErrMsg ''failed to parse root certificate'')
             else Inr \<lparr>ct_RootCAs = ca, ct_Certificate = None, ct_ServerName = ''''\<rparr>)
      else bindR (te_X509KeyPair te (tl_Cert sf) (tl_Key sf)) (\<lambda>certificate.
        let ca = ca_bytes sf in
        if \<not> te_AppendCerts te ca then Inl (ErrMsg ''failed to parse root certificate'')
        else case te_Decode te ca of
               None \<Rightarrow> Inl (ErrMsg ''failed to parse certificate PEM'')
             | Some block \<Rightarrow>
                 (case te_Parse te block of
                    Inl _ \<Rightarrow> Inl (ErrMsg ''failed to parse block'')
                  | Inr cn \<Rightarrow> Inr \<lparr>ct_RootCAs = ca, ct_Certificate = Some certificate, ct_ServerName = cn\<rparr>)))"

definition ServerConfig :: "'k tls_env \<Rightarrow> TLSConfig \<Rightarrow> 'k server_tls result" where
  "ServerConfig te sf =
     bindR (te_X509KeyPair te (tl_Cert sf) (tl_Key sf)) (\<lambda>certificate.
       if tl_Single sf then Inr \<lparr>st_Certificate = certificate, st_ClientCAs = None\<rparr>
       else if \<not> te_AppendCerts te (ca_bytes sf) then Inl (ErrMsg ''parse root certificate'')
       else Inr \<lparr>st_Certificate = certificate, st_ClientCAs = Some (ca_bytes sf)\<rparr>)"

subsection \<open>cs/kcp\_config.go: ciphers of KCP\<close>

definition blockCrypts :: "(string \<times> nat) list" where
  "blockCrypts = [(''sm4'', 16), (''tea'', 16), (''xor'', 32), (''none'', 32), (''aes-128'', 16), (''aes-192'', 24), (''blowfish'', 32),
     (''twofish'', 32), (''cast5'', 16), (''3des'', 24), (''xtea'', 16), (''salsa20'', 32), (''aes'', 32)]"

definition NewKcpBlockCrypt :: "(string \<Rightarrow> bytes \<Rightarrow> 'b result) \<Rightarrow> string \<Rightarrow> bytes \<Rightarrow> 'b result" where
  "NewKcpBlockCrypt newBlockCrypt m k =
     (case map_of blockCrypts m of
        None \<Rightarrow> Inl (ErrMsg ''not support block crypt method'')
      | Some keyLen \<Rightarrow>
          if length k < keyLen then Inl (ErrMsg (''key length expect '' @ dec_str keyLen @ '' but '' @ dec_str (length k)))
          else newBlockCrypt m (take keyLen k))"

definition NewKcpBlockCryptWithPbkdf2 :: "(string \<Rightarrow> bytes \<Rightarrow> 'b result) \<Rightarrow> (string \<Rightarrow> string \<Rightarrow> nat \<Rightarrow> nat \<Rightarrow> bytes) \<Rightarrow> string \<Rightarrow> string \<Rightarrow> string \<Rightarrow> 'b result" where
  "NewKcpBlockCryptWithPbkdf2 newBlockCrypt pbkdf2 m password salt = NewKcpBlockCrypt newBlockCrypt m (pbkdf2 password salt 4096 32)"

definition HasKcpBlockCrypt :: "string \<Rightarrow> bool" where
  "HasKcpBlockCrypt m \<longleftrightarrow> map_of blockCrypts m \<noteq> None"

subsection \<open>pkg/ccs/css.go\<close>

text \<open>The environment: the network, the diallers through a SOCKS5 or HTTP proxy, KCP, TLS, and the cipher of a method and password with its wrapper.\<close>

record ('c, 'u, 'k) ccs_env =
  ce_net_Dial :: "string \<Rightarrow> string \<Rightarrow> 'c result"
  ce_net_Listen :: "string \<Rightarrow> error option"
  ce_Scheme :: "'u \<Rightarrow> string"
  ce_Socks5 :: "'u \<Rightarrow> string \<Rightarrow> string \<Rightarrow> 'c result"
  ce_HTTPS :: "'u \<Rightarrow> string \<Rightarrow> string \<Rightarrow> 'c result"
  ce_kcp_Dial :: "string \<Rightarrow> 'c result"
  ce_kcp_Listen :: "string \<Rightarrow> error option"
  ce_tls :: "'k tls_env"
  ce_tls_Client :: "'k client_tls \<Rightarrow> 'c \<Rightarrow> 'c"
  ce_tls_Server :: "'k server_tls \<Rightarrow> 'c \<Rightarrow> 'c"
  ce_Stcp :: "string \<Rightarrow> string \<Rightarrow> ('c \<Rightarrow> 'c) result"

record 'u ccs_config =
  cg_TLSConfig :: TLSConfig
  cg_Method :: string
  cg_Password :: string
  cg_ProxyURL :: "'u option"

definition unknown_scheme :: error where "unknown_scheme = ErrMsg ''unkown scheme of ''"

definition unknown_protocol :: error where "unknown_protocol = ErrMsg ''protocol support one of <tcp|tls|stcp|kcp>''"

definition dialer_forward :: "('c, 'u, 'k) ccs_env \<Rightarrow> 'u ccs_config \<Rightarrow> (string \<Rightarrow> string \<Rightarrow> 'c result) option result" where
  "dialer_forward ce cfg =
     (case cg_ProxyURL cfg of
        None \<Rightarrow> Inr None
      | Some u \<Rightarrow>
          if ce_Scheme ce u = ''socks5'' then Inr (Some (ce_Socks5 ce u))
          else if ce_Scheme ce u = ''https'' then Inr (Some (ce_HTTPS ce u))
          else Inl unknown_scheme)"

definition Dialer_Dial :: "('c, 'u, 'k) ccs_env \<Rightarrow> 'u ccs_config \<Rightarrow> ('c \<Rightarrow> 'c) list \<Rightarrow> string \<Rightarrow> string \<Rightarrow> string \<Rightarrow> 'c result" where
  "Dialer_Dial ce cfg layers protocol network addr =
     bindR (dialer_forward ce cfg) (\<lambda>forward.
       if protocol = ''tcp'' then Client_Dial (ce_net_Dial ce) forward layers network addr
       else if protocol = ''tls'' then
         bindR (ClientConfig (ce_tls ce) (cg_TLSConfig cfg)) (\<lambda>tls. Client_Dial (ce_net_Dial ce) forward (ce_tls_Client ce tls # layers) network addr)
       else if protocol = ''stcp'' then
         (case ce_Stcp ce (cg_Method cfg) (cg_Password cfg) of
            Inl _ \<Rightarrow> Inl (ErrMsg ''invalid stcp config'')
          | Inr f \<Rightarrow> Client_Dial (ce_net_Dial ce) forward (f # layers) network addr)
       else if protocol = ''kcp'' then bindR (ce_kcp_Dial ce addr) (\<lambda>c. Inr (adorn layers c))
       else Inl unknown_protocol)"

definition Server_Listen :: "('c, 'u, 'k) ccs_env \<Rightarrow> 'u ccs_config \<Rightarrow> ('c \<Rightarrow> 'c) list \<Rightarrow> string \<Rightarrow> string \<Rightarrow> ('c result \<Rightarrow> 'c result) result" where
  "Server_Listen ce cfg layers protocol addr =
     (if protocol = ''tcp'' then conn_Listen (ce_net_Listen ce) addr layers
      else if protocol = ''tls'' then
        bindR (ServerConfig (ce_tls ce) (cg_TLSConfig cfg)) (\<lambda>tls. conn_Listen (ce_net_Listen ce) addr (ce_tls_Server ce tls # layers))
      else if protocol = ''stcp'' then
        (case ce_Stcp ce (cg_Method cfg) (cg_Password cfg) of
           Inl _ \<Rightarrow> Inl (ErrMsg ''invalid stcp config'')
         | Inr f \<Rightarrow> conn_Listen (ce_net_Listen ce) addr (f # layers))
      else if protocol = ''kcp'' then conn_Listen (ce_kcp_Listen ce) addr layers
      else Inl (ErrMsg (''not support protocol: '' @ protocol)))"

subsection \<open>pkg/ccs/config.go\<close>

definition SKcpMode :: "string \<Rightarrow> int \<times> int \<times> int \<times> int" where
  "SKcpMode mode = (if mode = ''fast'' then (0, 30, 2, 1) else if mode = ''fast2'' then (1, 20, 2, 1) else if mode = ''fast3'' then (1, 10, 2, 1) else (0, 40, 2, 1))"

record SSHConfig =
  ssh_User :: string
  ssh_Password :: string
  ssh_KeyFile :: string
  ssh_KeyFileSalt :: string

datatype 'k ssh_auth = SshPassword string | SshKey 'k

definition SSH_Parse :: "(string \<Rightarrow> string option \<Rightarrow> 'k result) \<Rightarrow> SSHConfig \<Rightarrow> 'k ssh_auth result" where
  "SSH_Parse load sf =
     (if ssh_User sf = '''' then Inl (ErrMsg ''user required'')
      else if ssh_KeyFile sf = '''' \<and> ssh_Password sf = '''' then Inl (ErrMsg ''password or key file required'')
      else if ssh_Password sf \<noteq> '''' then Inr (SshPassword (ssh_Password sf))
      else bindR (load (ssh_KeyFile sf) (if ssh_KeyFileSalt sf \<noteq> '''' then Some (ssh_KeyFileSalt sf) else None)) (\<lambda>k. Inr (SshKey k)))"

subsection \<open>Properties\<close>

text \<open>\<open>R a b\<close> says that the two ends \<open>a\<close> and \<open>b\<close> understand each other; a pair of layers keeps this.\<close>

definition keeps :: "('c \<Rightarrow> 'c \<Rightarrow> bool) \<Rightarrow> ('c \<Rightarrow> 'c) \<Rightarrow> ('c \<Rightarrow> 'c) \<Rightarrow> bool" where
  "keeps R f g \<longleftrightarrow> (\<forall>a b. R a b \<longrightarrow> R (f a) (g b))"

lemma adorn_keeps: "list_all2 (keeps R) fs gs \<Longrightarrow> R a b \<Longrightarrow> R (adorn fs a) (adorn gs b)"
proof (induction fs gs arbitrary: a b rule: list_all2_induct)
  case (Cons f fs g gs)
  then have "R (f a) (g b)" by (simp add: keeps_def)
  from Cons.IH [OF this] show ?case by (simp add: adorn_def)
qed (simp add: adorn_def)

text \<open>Where the raw connection of a dialler comes from.\<close>

definition raw_dial :: "('c, 'u, 'k) ccs_env \<Rightarrow> 'u ccs_config \<Rightarrow> string \<Rightarrow> string \<Rightarrow> string \<Rightarrow> 'c result" where
  "raw_dial ce cfg protocol network addr =
     (if protocol = ''kcp'' then ce_kcp_Dial ce addr
      else case cg_ProxyURL cfg of
             None \<Rightarrow> ce_net_Dial ce network addr
           | Some u \<Rightarrow> if ce_Scheme ce u = ''socks5'' then ce_Socks5 ce u network addr else ce_HTTPS ce u network addr)"

lemma Client_Dial_Inr:
  "Client_Dial d fw layers network addr = Inr c \<longleftrightarrow> (\<exists>c0. (case fw of None \<Rightarrow> d | Some d \<Rightarrow> d) network addr = Inr c0 \<and> c = adorn layers c0)"
  by (auto simp: Client_Dial_def bindR_eq_Inr)

lemma conn_Listen_Inr: "conn_Listen l addr layers = Inr acc \<Longrightarrow> acc = NewListener layers"
  by (simp add: conn_Listen_def split: option.splits)

text \<open>The layers of the two sides, below the caller's.\<close>

lemma Dialer_Dial_layers:
  assumes "Dialer_Dial ce cfg layers protocol network addr = Inr c"
  obtains c0 base where "raw_dial ce cfg protocol network addr = Inr c0" "c = adorn (base @ layers) c0" "protocol \<in> {''tcp'', ''tls'', ''stcp'', ''kcp''}"
    "protocol = ''tls'' \<longrightarrow> (\<exists>ct. ClientConfig (ce_tls ce) (cg_TLSConfig cfg) = Inr ct \<and> base = [ce_tls_Client ce ct])"
    "protocol = ''stcp'' \<longrightarrow> (\<exists>f. ce_Stcp ce (cg_Method cfg) (cg_Password cfg) = Inr f \<and> base = [f])"
    "protocol \<in> {''tcp'', ''kcp''} \<longrightarrow> base = []"
proof -
  obtain fw where fw: "dialer_forward ce cfg = Inr fw" using assms by (auto simp: Dialer_Dial_def bindR_eq_Inr)
  have raw: "protocol \<noteq> ''kcp'' \<Longrightarrow> (case fw of None \<Rightarrow> ce_net_Dial ce | Some d \<Rightarrow> d) network addr = raw_dial ce cfg protocol network addr"
    using fw by (auto simp: dialer_forward_def raw_dial_def split: option.splits if_splits)
  note d = assms [unfolded Dialer_Dial_def fw bindR_Inr]
  consider "protocol = ''tcp''" | "protocol = ''tls''" | "protocol = ''stcp''" | "protocol = ''kcp''" using d by (auto split: if_splits)
  then show thesis
  proof cases
    case 1
    then show thesis using d raw that [of _ "[]"] by (auto simp: Client_Dial_Inr)
  next
    case 2
    then show thesis using d raw that [of _ "[_]"] by (auto simp: Client_Dial_Inr bindR_eq_Inr)
  next
    case 3
    then show thesis using d raw that [of _ "[_]"] by (auto simp: Client_Dial_Inr split: sum.splits)
  next
    case 4
    then show thesis using d that [of _ "[]"] by (auto simp: bindR_eq_Inr raw_dial_def)
  qed
qed

lemma Server_Listen_layers:
  assumes "Server_Listen ce cfg layers protocol addr = Inr acc"
  obtains base where "acc = NewListener (base @ layers)"
    "protocol = ''tls'' \<longrightarrow> (\<exists>st. ServerConfig (ce_tls ce) (cg_TLSConfig cfg) = Inr st \<and> base = [ce_tls_Server ce st])"
    "protocol = ''stcp'' \<longrightarrow> (\<exists>f. ce_Stcp ce (cg_Method cfg) (cg_Password cfg) = Inr f \<and> base = [f])"
    "protocol \<in> {''tcp'', ''kcp''} \<longrightarrow> base = []"
proof -
  note d = assms [unfolded Server_Listen_def]
  consider "protocol = ''tcp''" | "protocol = ''tls''" | "protocol = ''stcp''" | "protocol = ''kcp''" using d by (auto split: if_splits)
  then show thesis
  proof cases
    case 1
    then show thesis using d that [of "[]"] by (auto dest: conn_Listen_Inr)
  next
    case 2
    then show thesis using d that [of "[_]"] by (auto simp: bindR_eq_Inr dest!: conn_Listen_Inr)
  next
    case 3
    then show thesis using d that [of "[_]"] by (auto split: sum.splits dest!: conn_Listen_Inr)
  next
    case 4
    then show thesis using d that [of "[]"] by (auto dest: conn_Listen_Inr)
  qed
qed

text \<open>A dialler and a listener for the same protocol understand each other. The connection that a dialler returns is made on the raw connection that comes from the network, from the
  proxy of its configuration, or from KCP, which takes no notice of a proxy; and whatever connection a listener for the same protocol accepts at the other end of that raw
  connection, the two understand each other, when TLS with the two configurations, the cipher of the common method and password, and the callers' own layers pair by pair
  do. Every other protocol name, and every proxy other than SOCKS5 and HTTPS, is refused.\<close>

lemma dial_meets_listener:
  assumes "Dialer_Dial ce cfg layers protocol network addr = Inr c" "Server_Listen ce scfg layers' protocol addr' = Inr acc" "list_all2 (keeps R) layers layers'"
    and "\<And>ct st. ClientConfig (ce_tls ce) (cg_TLSConfig cfg) = Inr ct \<Longrightarrow> ServerConfig (ce_tls ce) (cg_TLSConfig scfg) = Inr st \<Longrightarrow> keeps R (ce_tls_Client ce ct) (ce_tls_Server ce st)"
    and "cg_Method scfg = cg_Method cfg" "cg_Password scfg = cg_Password cfg" "\<And>f. ce_Stcp ce (cg_Method cfg) (cg_Password cfg) = Inr f \<Longrightarrow> keeps R f f"
  shows "protocol \<in> {''tcp'', ''tls'', ''stcp'', ''kcp''} \<and>
    (\<exists>c0. raw_dial ce cfg protocol network addr = Inr c0 \<and> (\<forall>s0. R c0 s0 \<longrightarrow> (\<exists>s. acc (Inr s0) = Inr s \<and> R c s))) \<and>
    (protocol \<noteq> ''kcp'' \<longrightarrow> (case cg_ProxyURL cfg of None \<Rightarrow> True | Some u \<Rightarrow> ce_Scheme ce u \<in> {''socks5'', ''https''}))"
proof -
  obtain c0 base where d: "raw_dial ce cfg protocol network addr = Inr c0" "c = adorn (base @ layers) c0" "protocol \<in> {''tcp'', ''tls'', ''stcp'', ''kcp''}"
    "protocol = ''tls'' \<longrightarrow> (\<exists>ct. ClientConfig (ce_tls ce) (cg_TLSConfig cfg) = Inr ct \<and> base = [ce_tls_Client ce ct])"
    "protocol = ''stcp'' \<longrightarrow> (\<exists>f. ce_Stcp ce (cg_Method cfg) (cg_Password cfg) = Inr f \<and> base = [f])"
    "protocol \<in> {''tcp'', ''kcp''} \<longrightarrow> base = []"
    using Dialer_Dial_layers [OF assms(1)] by blast
  obtain base' where l: "acc = NewListener (base' @ layers')"
    "protocol = ''tls'' \<longrightarrow> (\<exists>st. ServerConfig (ce_tls ce) (cg_TLSConfig scfg) = Inr st \<and> base' = [ce_tls_Server ce st])"
    "protocol = ''stcp'' \<longrightarrow> (\<exists>f. ce_Stcp ce (cg_Method scfg) (cg_Password scfg) = Inr f \<and> base' = [f])"
    "protocol \<in> {''tcp'', ''kcp''} \<longrightarrow> base' = []"
    using Server_Listen_layers [OF assms(2)] by blast
  have "list_all2 (keeps R) base base'"
  proof -
    consider "protocol \<in> {''tcp'', ''kcp''}" | "protocol = ''tls''" | "protocol = ''stcp''" using d(3) by blast
    then show ?thesis
    proof cases
      case 1
      then show ?thesis using d(6) l(4) by simp
    next
      case 2
      then obtain ct st where "ClientConfig (ce_tls ce) (cg_TLSConfig cfg) = Inr ct" "base = [ce_tls_Client ce ct]"
        "ServerConfig (ce_tls ce) (cg_TLSConfig scfg) = Inr st" "base' = [ce_tls_Server ce st]" using d(4) l(2) by blast
      then show ?thesis using assms(4) by simp
    next
      case 3
      then obtain f f' where "ce_Stcp ce (cg_Method cfg) (cg_Password cfg) = Inr f" "base = [f]"
        "ce_Stcp ce (cg_Method scfg) (cg_Password scfg) = Inr f'" "base' = [f']" using d(5) l(3) by blast
      then show ?thesis using assms(5-7) by simp
    qed
  qed
  then have k: "list_all2 (keeps R) (base @ layers) (base' @ layers')" using assms(3) by (rule list_all2_appendI)
  have "\<exists>s. acc (Inr s0) = Inr s \<and> R c s" if "R c0 s0" for s0
    using adorn_keeps [OF k that] l(1) d(2) by (simp add: NewListener_def)
  moreover have "case cg_ProxyURL cfg of None \<Rightarrow> True | Some u \<Rightarrow> ce_Scheme ce u \<in> {''socks5'', ''https''}"
    using assms(1) by (auto simp: Dialer_Dial_def dialer_forward_def bindR_eq_Inr split: option.splits if_splits)
  ultimately show ?thesis using d(1,3) by blast
qed

text \<open>What a client with these certificates trusts: exactly the chains of which every certificate verifies against the roots of its configuration; the host name plays no
  part. Without \<open>Single\<close> the server asks for certificates under the same roots.\<close>

lemma tls_trust:
  assumes "ClientConfig te sf = Inr ct"
  shows "VerifyPeer te (ct_RootCAs ct) raws = None \<longleftrightarrow> (\<forall>raw \<in> set raws. (\<exists>cn. te_Parse te raw = Inr cn) \<and> te_Verify te (ct_RootCAs ct) raw = None)"
    "ct_RootCAs ct = ca_bytes sf" "ct_Certificate ct = None \<longleftrightarrow> tl_Single sf"
    "ServerConfig te sf = Inr st \<Longrightarrow> st_ClientCAs st = (if tl_Single sf then None else Some (ct_RootCAs ct))"
proof -
  show "VerifyPeer te (ct_RootCAs ct) raws = None \<longleftrightarrow> (\<forall>raw \<in> set raws. (\<exists>cn. te_Parse te raw = Inr cn) \<and> te_Verify te (ct_RootCAs ct) raw = None)"
    by (induction raws) (auto split: sum.split option.split)
  have "ct_RootCAs ct = ca_bytes sf \<and> (ct_Certificate ct = None \<longleftrightarrow> tl_Single sf)"
  proof (cases "tl_Single sf")
    case True
    then show ?thesis using assms by (auto simp: ClientConfig_def ca_bytes_def split: option.splits if_splits)
  next
    case False
    then show ?thesis using assms
      by (cases "te_X509KeyPair te (tl_Cert sf) (tl_Key sf)"; cases "te_Decode te (ca_bytes sf)"; cases "te_Parse te (the (te_Decode te (ca_bytes sf)))")
        (auto simp: ClientConfig_def Let_def split: if_splits)
  qed
  then show r: "ct_RootCAs ct = ca_bytes sf" "ct_Certificate ct = None \<longleftrightarrow> tl_Single sf" by blast+
  show "ServerConfig te sf = Inr st \<Longrightarrow> st_ClientCAs st = (if tl_Single sf then None else Some (ct_RootCAs ct))"
    using r by (auto simp: ServerConfig_def bindR_eq_Inr split: if_splits)
qed

text \<open>A derived key of 32 bytes is long enough for every method of KCP.\<close>

lemma kcp_key_fits:
  assumes "HasKcpBlockCrypt m" "\<And>p s i n. length (pbkdf2 p s i n) = n"
  shows "\<exists>n \<le> 32. NewKcpBlockCryptWithPbkdf2 newBlockCrypt pbkdf2 m password salt = newBlockCrypt m (take n (pbkdf2 password salt 4096 32))"
proof -
  obtain n where n: "map_of blockCrypts m = Some n" using assms(1) by (auto simp: HasKcpBlockCrypt_def)
  then have "(m, n) \<in> set blockCrypts" by (rule map_of_SomeD)
  then have "n \<le> 32" by (auto simp: blockCrypts_def)
  then show ?thesis using n assms(2) by (intro exI [of _ n]) (simp add: NewKcpBlockCryptWithPbkdf2_def NewKcpBlockCrypt_def)
qed

subsection \<open>pkg/sword/system\_ips.go\<close>

text \<open>The addresses of the network interfaces, looked up once and kept. A caller that waits for the lock looks again at what is kept, so that the two look-ups are
  one function of what is kept when the lock is taken.\<close>

record iface =
  if_Up :: bool
  if_Addrs :: "bytes list result"

definition iface_ip4 :: "iface \<Rightarrow> bytes list" where
  "iface_ip4 i = (if \<not> if_Up i then [] else case if_Addrs i of Inl _ \<Rightarrow> [] | Inr ips \<Rightarrow> filter (\<lambda>ip. To4 ip \<noteq> []) ips)"

definition iface_ips :: "iface list \<Rightarrow> bytes list" where
  "iface_ips ifaces = concat (map iface_ip4 ifaces)"

definition SystemNetworkIPs :: "iface list result \<Rightarrow> bytes list option \<Rightarrow> bytes list result \<times> bytes list option" where
  "SystemNetworkIPs interfaces kept =
     (case kept of
        Some ips \<Rightarrow> (Inr ips, kept)
      | None \<Rightarrow>
          (case interfaces of
             Inl e \<Rightarrow> (Inl e, None)
           | Inr ifaces \<Rightarrow> if iface_ips ifaces = [] then (Inl (ErrMsg ''no address Found, net.Interface''), None)
                           else (Inr (iface_ips ifaces), Some (iface_ips ifaces))))"

text \<open>An answer holds exactly the IPv4 addresses of interfaces that are up, at the time of the first success; later answers are the same, whatever has happened to the interfaces.\<close>

lemma SystemNetworkIPs_kept:
  assumes "SystemNetworkIPs interfaces kept = (Inr ips, kept')"
  shows "kept' = Some ips" "SystemNetworkIPs later kept' = (Inr ips, kept')"
    "kept = None \<Longrightarrow> \<exists>ifaces. interfaces = Inr ifaces \<and> ips \<noteq> [] \<and>
       (\<forall>ip. ip \<in> set ips \<longleftrightarrow> To4 ip \<noteq> [] \<and> (\<exists>i \<in> set ifaces. if_Up i \<and> (\<exists>as. if_Addrs i = Inr as \<and> ip \<in> set as)))"
proof -
  show k: "kept' = Some ips" using assms by (auto simp: SystemNetworkIPs_def split: option.splits sum.splits if_splits)
  show "SystemNetworkIPs later kept' = (Inr ips, kept')" by (simp add: k SystemNetworkIPs_def)
  assume "kept = None"
  then obtain ifaces where i: "interfaces = Inr ifaces" "ips = iface_ips ifaces" "ips \<noteq> []"
    using assms by (auto simp: SystemNetworkIPs_def split: sum.splits if_splits)
  have "ip \<in> set (iface_ips ifaces) \<longleftrightarrow> To4 ip \<noteq> [] \<and> (\<exists>i \<in> set ifaces. if_Up i \<and> (\<exists>as. if_Addrs i = Inr as \<and> ip \<in> set as))" for ip
  proof -
    have "ip \<in> set (iface_ip4 i) \<longleftrightarrow> To4 ip \<noteq> [] \<and> if_Up i \<and> (\<exists>as. if_Addrs i = Inr as \<and> ip \<in> set as)" for i
      by (cases "if_Addrs i") (auto simp: iface_ip4_def)
    then show ?thesis by (auto simp: iface_ips_def)
  qed
  then show "\<exists>ifaces. interfaces = Inr ifaces \<and> ips \<noteq> [] \<and>
       (\<forall>ip. ip \<in> set ips \<longleftrightarrow> To4 ip \<noteq> [] \<and> (\<exists>i \<in> set ifaces. if_Up i \<and> (\<exists>as. if_Addrs i = Inr as \<and> ip \<in> set as)))"
    using i by blast
qed

end
