(* ===== verification/Extcert.thy ===== *)
theory Extcert
  imports Go_Base64 Go_Net
begin

section \<open>pkg/extcert: loading certificates and keys\<close>

text \<open>
  A certificate or key of a configuration is the name of a file or, behind the prefix \<open>base64://\<close>, the data itself. Files are read by a parameter
  \<open>rd\<close>; PEM and X.509 are parameters too: \<open>dec\<close> gives the data of the first PEM block, \<open>parse\<close> a certificate or a key of it.
\<close>

definition base64Prefix :: string where "base64Prefix = ''base64://''"

definition LoadCrt :: "(string \<Rightarrow> bytes result) \<Rightarrow> string \<Rightarrow> bytes result" where
  "LoadCrt rd crt =
     (if has_prefix base64Prefix crt
      then case DecodeString (drop (length base64Prefix) crt) of None \<Rightarrow> Inl (ErrMsg ''illegal base64 data'') | Some b \<Rightarrow> Inr b
      else rd crt)"

definition LoadKey :: "(string \<Rightarrow> bytes result) \<Rightarrow> string \<Rightarrow> bytes result" where
  "LoadKey rd key =
     (if has_prefix base64Prefix key
      then case DecodeString (drop (length base64Prefix) key) of None \<Rightarrow> Inl (ErrMsg ''illegal base64 data'') | Some b \<Rightarrow> Inr b
      else rd key)"

definition LoadPair :: "(string \<Rightarrow> bytes result) \<Rightarrow> string \<Rightarrow> string \<Rightarrow> (bytes \<times> bytes) result" where
  "LoadPair rd crt key = bindR (LoadCrt rd crt) (\<lambda>crtBytes. bindR (LoadKey rd key) (\<lambda>keyBytes. Inr (crtBytes, keyBytes)))"

definition LoadCrtAndKeyFile :: "(string \<Rightarrow> bytes result) \<Rightarrow> string \<Rightarrow> string \<Rightarrow> (bytes \<times> bytes) result" where
  "LoadCrtAndKeyFile rd crtFilename keyFilename = bindR (rd crtFilename) (\<lambda>crt. bindR (rd keyFilename) (\<lambda>key. Inr (crt, key)))"

definition ParseCrt :: "(bytes \<Rightarrow> bytes option) \<Rightarrow> (bytes \<Rightarrow> 'c result) \<Rightarrow> bytes \<Rightarrow> 'c result" where
  "ParseCrt dec parse b = (case dec b of None \<Rightarrow> Inl (ErrMsg ''invalid crt data'') | Some block \<Rightarrow> parse block)"

definition ParseKey :: "(bytes \<Rightarrow> bytes option) \<Rightarrow> (bytes \<Rightarrow> 'k result) \<Rightarrow> bytes \<Rightarrow> 'k result" where
  "ParseKey dec parse b = (case dec b of None \<Rightarrow> Inl (ErrMsg ''invalid key data'') | Some block \<Rightarrow> parse block)"

definition LoadCrtFile :: "(string \<Rightarrow> bytes result) \<Rightarrow> (bytes \<Rightarrow> bytes option) \<Rightarrow> (bytes \<Rightarrow> 'c result) \<Rightarrow> string \<Rightarrow> 'c result" where
  "LoadCrtFile rd dec parse filename = bindR (rd filename) (ParseCrt dec parse)"

definition LoadKeyFile :: "(string \<Rightarrow> bytes result) \<Rightarrow> (bytes \<Rightarrow> bytes option) \<Rightarrow> (bytes \<Rightarrow> 'k result) \<Rightarrow> string \<Rightarrow> 'k result" where
  "LoadKeyFile rd dec parse filename = bindR (rd filename) (ParseKey dec parse)"

definition ParseCrtAndKey ::
  "(bytes \<Rightarrow> bytes option) \<Rightarrow> (bytes \<Rightarrow> 'c result) \<Rightarrow> (bytes \<Rightarrow> 'k result) \<Rightarrow> bytes \<Rightarrow> bytes \<Rightarrow> ('c \<times> 'k) result" where
  "ParseCrtAndKey dec parse parseKey crt key = bindR (ParseCrt dec parse crt) (\<lambda>ca. bindR (ParseKey dec parseKey key) (\<lambda>k. Inr (ca, k)))"

definition ParseCrtAndKeyFile ::
  "(string \<Rightarrow> bytes result) \<Rightarrow> (bytes \<Rightarrow> bytes option) \<Rightarrow> (bytes \<Rightarrow> 'c result) \<Rightarrow> (bytes \<Rightarrow> 'k result) \<Rightarrow> string \<Rightarrow> string \<Rightarrow> ('c \<times> 'k) result" where
  "ParseCrtAndKeyFile rd dec parse parseKey crtFilename keyFilename =
     bindR (LoadCrtFile rd dec parse crtFilename) (\<lambda>ca. bindR (LoadKeyFile rd dec parseKey keyFilename) (\<lambda>k. Inr (ca, k)))"

text \<open>Parsing two files is parsing what is read from them.\<close>

lemma ParseCrtAndKeyFile_eq:
  "LoadCrtAndKeyFile rd c k = Inr (crt, key) \<Longrightarrow> ParseCrtAndKeyFile rd dec parse parseKey c k = ParseCrtAndKey dec parse parseKey crt key"
  by (auto simp: LoadCrtAndKeyFile_def ParseCrtAndKeyFile_def ParseCrtAndKey_def LoadCrtFile_def LoadKeyFile_def bindR_eq_Inr)

text \<open>A pair that stands in the configuration itself is loaded as it is, whatever files there are; a pair of file names is what the files hold.\<close>

lemma LoadPair_inline: "LoadPair rd (base64Prefix @ EncodeToString crt) (base64Prefix @ EncodeToString key) = Inr (crt, key)"
  by (simp add: LoadPair_def LoadCrt_def LoadKey_def has_prefix_def DecodeString_Encode)

lemma LoadPair_files:
  "\<not> has_prefix base64Prefix c \<Longrightarrow> \<not> has_prefix base64Prefix k \<Longrightarrow> LoadPair rd c k = LoadCrtAndKeyFile rd c k"
  by (simp add: LoadPair_def LoadCrt_def LoadKey_def LoadCrtAndKeyFile_def)

end
