(* ===== verification/Relay_Start.thy ===== *)
theory Relay_Start
  imports Dialler Extcert Httpc Udp_Service Tcp_Service Bridge Mux_Ends
begin

section \<open>Starting the relays, and their connections to each other\<close>

text \<open>
  \<open>inspectConfig\<close>, \<open>Start\<close> and \<open>dialParent\<close> of the UDP service, the TCP service and the bridge, and \<open>dialParent\<close> of the two nodes of the tunnel, over the
  diallers and listeners of Dialler. A \<open>hop\<close> is what a \<open>ccs.Dialer\<close> or \<open>ccs.Server\<close> is made with.
\<close>

record ('c, 'u, 'k) start_env =
  se_ccs :: "('c, 'u, 'k) ccs_env"
  se_ReadFile :: "string \<Rightarrow> bytes result"
  se_CipherMethods :: "string list"
  se_url_Parse :: "string \<Rightarrow> 'u result"
  se_snappy :: "'c \<Rightarrow> 'c"
  se_ResolveUDPAddr :: "string \<Rightarrow> error option"
  se_ListenUDP :: "string \<Rightarrow> error option"

definition AdornSnappy :: "('c, 'u, 'k) start_env \<Rightarrow> bool \<Rightarrow> 'c \<Rightarrow> 'c" where
  "AdornSnappy env compress = (if compress then se_snappy env else (\<lambda>c. c))"

record 'u hop =
  hop_Protocol :: string
  hop_Compress :: bool
  hop_Config :: "'u ccs_config"

definition hop_Dial :: "('c, 'u, 'k) start_env \<Rightarrow> 'u hop \<Rightarrow> string \<Rightarrow> 'c result" where
  "hop_Dial env h address = Dialer_Dial (se_ccs env) (hop_Config h) [AdornSnappy env (hop_Compress h)] (hop_Protocol h) ''tcp'' address"

definition hop_Listen :: "('c, 'u, 'k) start_env \<Rightarrow> 'u hop \<Rightarrow> string \<Rightarrow> ('c result \<Rightarrow> 'c result) result" where
  "hop_Listen env h addr = Server_Listen (se_ccs env) (hop_Config h) [AdornSnappy env (hop_Compress h)] (hop_Protocol h) addr"

text \<open>The certificates of a configuration, with an optional CA file, and the check of the method of stcp. \<open>load\<close> reads the CA: a file for the UDP service, \<open>LoadCrt\<close> for the others.\<close>

definition load_tls :: "('c, 'u, 'k) start_env \<Rightarrow> (string \<Rightarrow> bytes result) \<Rightarrow> string \<Rightarrow> string \<Rightarrow> string \<Rightarrow> TLSConfig \<Rightarrow> TLSConfig result" where
  "load_tls env load certFile keyFile caFile tls =
     bindR (LoadPair (se_ReadFile env) certFile keyFile) (\<lambda>(crt, key).
       let tls = tls\<lparr>tl_Cert := crt, tl_Key := key\<rparr> in
       if caFile \<noteq> [] then (case load caFile of Inl _ \<Rightarrow> Inl (ErrMsg ''read ca file'') | Inr ca \<Rightarrow> Inr (tls\<lparr>tl_CaCert := Some ca\<rparr>))
       else Inr tls)"

definition stcp_method :: "('c, 'u, 'k) start_env \<Rightarrow> string list \<Rightarrow> string \<Rightarrow> unit result" where
  "stcp_method env types m =
     (if ''stcp'' \<in> set types \<and> m \<notin> set (se_CipherMethods env) then Inl (ErrMsg ''stcp cipher method support one of'') else Inr ())"

subsection \<open>services/udp\<close>

text \<open>\<open>uf_SKCP\<close>: the pointer \<open>SKCPConfig\<close> is set. \<open>uf_valid\<close>: the outcome of the validator.\<close>

record udp_config =
  uf_valid :: "error option"
  uf_ParentType :: string
  uf_ParentCompress :: bool
  uf_Local :: string
  uf_CertFile :: string
  uf_KeyFile :: string
  uf_CaCertFile :: string
  uf_SKCP :: bool
  uf_Method :: string
  uf_Password :: string
  uf_tls :: TLSConfig

definition udp_inspectConfig :: "('c, 'u, 'k) start_env \<Rightarrow> udp_config \<Rightarrow> udp_config result" where
  "udp_inspectConfig env cfg =
     (case uf_valid cfg of
        Some e \<Rightarrow> Inl e
      | None \<Rightarrow>
          bindR (if uf_ParentType cfg = ''tls''
                 then bindR (load_tls env (se_ReadFile env) (uf_CertFile cfg) (uf_KeyFile cfg) (uf_CaCertFile cfg) (uf_tls cfg)) (\<lambda>tls. Inr (cfg\<lparr>uf_tls := tls\<rparr>))
                 else Inr cfg) (\<lambda>cfg.
          bindR (stcp_method env [uf_ParentType cfg] (uf_Method cfg)) (\<lambda>_. Inr cfg)))"

definition udp_Start :: "('c, 'u, 'k) start_env \<Rightarrow> ('m, nat) cmap \<Rightarrow> udp_config \<Rightarrow> int list \<Rightarrow> (udp_config result \<times> 'm UDP)" where
  "udp_Start env cm cfg opts =
     (let u = udp_New cm (uf_ParentType cfg) opts in
      case udp_inspectConfig env cfg of
        Inl e \<Rightarrow> (Inl e, u\<lparr>u_cancelled := True\<rparr>)
      | Inr cfg \<Rightarrow>
          (case (case se_ResolveUDPAddr env (uf_Local cfg) of Some e \<Rightarrow> Some e | None \<Rightarrow> se_ListenUDP env (uf_Local cfg)) of
             Some e \<Rightarrow> (Inl e, u\<lparr>u_cancelled := True\<rparr>)
           | None \<Rightarrow> (Inr cfg, u\<lparr>u_open := True\<rparr>)))"

definition udp_hop :: "udp_config \<Rightarrow> 'u hop result" where
  "udp_hop cfg =
     (if \<not> uf_SKCP cfg then Inl (Panic NilDereference)
      else Inr \<lparr>hop_Protocol = uf_ParentType cfg, hop_Compress = uf_ParentCompress cfg,
        hop_Config = \<lparr>cg_TLSConfig = uf_tls cfg, cg_Method = uf_Method cfg, cg_Password = uf_Password cfg, cg_ProxyURL = None\<rparr>\<rparr>)"

definition udp_dialParent :: "('c, 'u, 'k) start_env \<Rightarrow> udp_config \<Rightarrow> string \<Rightarrow> 'c result" where
  "udp_dialParent env cfg address = bindR (udp_hop cfg) (\<lambda>h. hop_Dial env h address)"

subsection \<open>services/tcp\<close>

record tcp_config =
  tf_valid :: "error option"
  tf_ParentType :: string
  tf_ParentCompress :: bool
  tf_LocalType :: string
  tf_Local :: string
  tf_LocalCompress :: bool
  tf_CertFile :: string
  tf_KeyFile :: string
  tf_CaCertFile :: string
  tf_Method :: string
  tf_Password :: string
  tf_RawProxyURL :: string
  tf_tls :: TLSConfig

definition tcp_inspectConfig :: "('c, 'u, 'k) start_env \<Rightarrow> tcp_config \<Rightarrow> (tcp_config \<times> 'u option) result" where
  "tcp_inspectConfig env cfg =
     (case tf_valid cfg of
        Some e \<Rightarrow> Inl e
      | None \<Rightarrow>
          bindR (if ''tls'' \<in> {tf_ParentType cfg, tf_LocalType cfg}
                 then if tf_CertFile cfg = '''' \<or> tf_KeyFile cfg = '''' then Inl (ErrMsg ''cert file and key file required'')
                      else bindR (load_tls env (LoadCrt (se_ReadFile env)) (tf_CertFile cfg) (tf_KeyFile cfg) (tf_CaCertFile cfg) (tf_tls cfg)) (\<lambda>tls. Inr (cfg\<lparr>tf_tls := tls\<rparr>))
                 else Inr cfg) (\<lambda>cfg.
          bindR (stcp_method env [tf_ParentType cfg, tf_LocalType cfg] (tf_Method cfg)) (\<lambda>_.
          if tf_RawProxyURL cfg \<noteq> ''''
          then (case ParseProxyURL (se_url_Parse env) (tf_RawProxyURL cfg) of Inl _ \<Rightarrow> Inl (ErrMsg ''new proxyURL'') | Inr u \<Rightarrow> Inr (cfg, Some u))
          else Inr (cfg, None))))"

definition tcp_local :: "tcp_config \<Rightarrow> 'u hop" where
  "tcp_local cfg = \<lparr>hop_Protocol = tf_LocalType cfg, hop_Compress = tf_LocalCompress cfg,
     hop_Config = \<lparr>cg_TLSConfig = tf_tls cfg, cg_Method = tf_Method cfg, cg_Password = tf_Password cfg, cg_ProxyURL = None\<rparr>\<rparr>"

definition tcp_Start :: "('c, 'u, 'k) start_env \<Rightarrow> ('m, nat) cmap \<Rightarrow> tcp_config \<Rightarrow> int list \<Rightarrow> (tcp_config \<times> 'u option \<times> ('c result \<Rightarrow> 'c result)) result \<times> 'm TCP" where
  "tcp_Start env cm cfg opts =
     (let t = tcp_New cm (tf_ParentType cfg) opts in
      case tcp_inspectConfig env cfg of
        Inl e \<Rightarrow> (Inl e, t\<lparr>t_cancelled := True\<rparr>)
      | Inr (cfg, u) \<Rightarrow>
          (case hop_Listen env (tcp_local cfg) (tf_Local cfg) of
             Inl e \<Rightarrow> (Inl e, t\<lparr>t_cancelled := True\<rparr>)
           | Inr acc \<Rightarrow> (Inr (cfg, u, acc), t\<lparr>t_open := True\<rparr>)))"

definition tcp_hop :: "tcp_config \<Rightarrow> 'u option \<Rightarrow> 'u hop" where
  "tcp_hop cfg u = \<lparr>hop_Protocol = tf_ParentType cfg, hop_Compress = tf_ParentCompress cfg,
     hop_Config = \<lparr>cg_TLSConfig = tf_tls cfg, cg_Method = tf_Method cfg, cg_Password = tf_Password cfg, cg_ProxyURL = u\<rparr>\<rparr>"

definition tcp_dialParent :: "('c, 'u, 'k) start_env \<Rightarrow> tcp_config \<Rightarrow> 'u option \<Rightarrow> string \<Rightarrow> 'c result" where
  "tcp_dialParent env cfg u address = hop_Dial env (tcp_hop cfg u) address"

subsection \<open>services/mux\<close>

record bridge_config =
  bf_valid :: "error option"
  bf_LocalType :: string
  bf_Local :: string
  bf_Compress :: bool
  bf_CaCertFile :: string
  bf_CertFile :: string
  bf_KeyFile :: string
  bf_Method :: string
  bf_Password :: string
  bf_tls :: TLSConfig

text \<open>The check of the method of stcp looks at the address where the other services have the parent type.\<close>

definition bridge_inspectConfig :: "('c, 'u, 'k) start_env \<Rightarrow> bridge_config \<Rightarrow> bridge_config result" where
  "bridge_inspectConfig env cfg =
     (case bf_valid cfg of
        Some e \<Rightarrow> Inl e
      | None \<Rightarrow>
          bindR (if bf_LocalType cfg = ''tls''
                 then if bf_CertFile cfg = '''' \<or> bf_KeyFile cfg = '''' then Inl (ErrMsg ''cert file and key file required'')
                      else bindR (load_tls env (LoadCrt (se_ReadFile env)) (bf_CertFile cfg) (bf_KeyFile cfg) (bf_CaCertFile cfg) (bf_tls cfg)) (\<lambda>tls. Inr (cfg\<lparr>bf_tls := tls\<rparr>))
                 else Inr cfg) (\<lambda>cfg.
          bindR (stcp_method env [bf_Local cfg, bf_LocalType cfg] (bf_Method cfg)) (\<lambda>_. Inr cfg)))"

definition bridge_local :: "bridge_config \<Rightarrow> 'u hop" where
  "bridge_local cfg = \<lparr>hop_Protocol = bf_LocalType cfg, hop_Compress = bf_Compress cfg,
     hop_Config = \<lparr>cg_TLSConfig = bf_tls cfg, cg_Method = bf_Method cfg, cg_Password = bf_Password cfg, cg_ProxyURL = None\<rparr>\<rparr>"

definition bridge_Start :: "('c, 'u, 'k) start_env \<Rightarrow> ('m, nat) cmap \<Rightarrow> bridge_config \<Rightarrow> (bridge_config \<times> ('c result \<Rightarrow> 'c result)) result \<times> 'm Bridge" where
  "bridge_Start env cm cfg =
     (let b = NewBridge cm in
      case bridge_inspectConfig env cfg of
        Inl e \<Rightarrow> (Inl e, b\<lparr>b_cancelled := True\<rparr>)
      | Inr cfg \<Rightarrow>
          (case hop_Listen env (bridge_local cfg) (bf_Local cfg) of
             Inl e \<Rightarrow> (Inl e, b\<lparr>b_cancelled := True\<rparr>)
           | Inr acc \<Rightarrow> (Inr (cfg, acc), b\<lparr>b_channel := True\<rparr>)))"

text \<open>\<open>dialParent\<close> of the two nodes, with the parts of their configuration that matter only here.\<close>

record mux_parent =
  mp_Compress :: bool
  mp_Method :: string
  mp_Password :: string
  mp_tls :: TLSConfig

definition mux_hop :: "mux_config \<Rightarrow> mux_parent \<Rightarrow> 'u option \<Rightarrow> 'u hop" where
  "mux_hop cfg mp u = \<lparr>hop_Protocol = mx_ParentType cfg, hop_Compress = mp_Compress mp,
     hop_Config = \<lparr>cg_TLSConfig = mp_tls mp, cg_Method = mp_Method mp, cg_Password = mp_Password mp, cg_ProxyURL = u\<rparr>\<rparr>"

definition mux_dialParent :: "('c, 'u, 'k) start_env \<Rightarrow> mux_config \<Rightarrow> mux_parent \<Rightarrow> 'u option \<Rightarrow> string \<Rightarrow> 'c result" where
  "mux_dialParent env cfg mp u address = hop_Dial env (mux_hop cfg mp u) address"

subsection \<open>Properties\<close>

text \<open>The two configurations agree: protocol, compression, and method and password of stcp.\<close>

definition hops_agree :: "'u hop \<Rightarrow> 'u hop \<Rightarrow> bool" where
  "hops_agree d l \<longleftrightarrow> hop_Protocol d = hop_Protocol l \<and> hop_Compress d = hop_Compress l \<and>
     cg_Method (hop_Config d) = cg_Method (hop_Config l) \<and> cg_Password (hop_Config d) = cg_Password (hop_Config l)"

text \<open>What is relied on of the wrappers: ends that understand each other still do when both are compressed, both encrypted with one method and password, or joined by TLS with the
  given configurations.\<close>

definition wrappers_ok :: "('c \<Rightarrow> 'c \<Rightarrow> bool) \<Rightarrow> ('c, 'u, 'k) start_env \<Rightarrow> TLSConfig \<Rightarrow> TLSConfig \<Rightarrow> bool" where
  "wrappers_ok R env tc ts \<longleftrightarrow> keeps R (se_snappy env) (se_snappy env) \<and> (\<forall>m p f. ce_Stcp (se_ccs env) m p = Inr f \<longrightarrow> keeps R f f) \<and>
     (\<forall>ct st. ClientConfig (ce_tls (se_ccs env)) tc = Inr ct \<and> ServerConfig (ce_tls (se_ccs env)) ts = Inr st \<longrightarrow>
        keeps R (ce_tls_Client (se_ccs env) ct) (ce_tls_Server (se_ccs env) st))"

lemma hop_meets:
  assumes "hop_Dial env d address = Inr c" "hop_Listen env l addr = Inr acc" "hops_agree d l"
    "wrappers_ok R env (cg_TLSConfig (hop_Config d)) (cg_TLSConfig (hop_Config l))"
  shows "\<exists>c0. raw_dial (se_ccs env) (hop_Config d) (hop_Protocol d) ''tcp'' address = Inr c0 \<and> (\<forall>s0. R c0 s0 \<longrightarrow> (\<exists>s. acc (Inr s0) = Inr s \<and> R c s))"
proof -
  have "list_all2 (keeps R) [AdornSnappy env (hop_Compress d)] [AdornSnappy env (hop_Compress l)]"
    using assms(3,4) by (simp add: hops_agree_def wrappers_ok_def AdornSnappy_def) (simp add: keeps_def)
  moreover have "Server_Listen (se_ccs env) (hop_Config l) [AdornSnappy env (hop_Compress l)] (hop_Protocol d) addr = Inr acc"
    using assms(2,3) by (simp add: hop_Listen_def hops_agree_def)
  moreover have "Dialer_Dial (se_ccs env) (hop_Config d) [AdornSnappy env (hop_Compress d)] (hop_Protocol d) ''tcp'' address = Inr c"
    using assms(1) by (simp add: hop_Dial_def)
  ultimately show ?thesis
    using dial_meets_listener [of "se_ccs env" "hop_Config d" "[AdornSnappy env (hop_Compress d)]" "hop_Protocol d" "''tcp''" address c "hop_Config l"
        "[AdornSnappy env (hop_Compress l)]" addr acc R] assms(3,4)
    by (simp add: hops_agree_def wrappers_ok_def)
qed

definition meets :: "('c \<Rightarrow> 'c \<Rightarrow> bool) \<Rightarrow> 'c result \<Rightarrow> ('c result \<Rightarrow> 'c result) \<Rightarrow> 'c \<Rightarrow> bool" where
  "meets R raw acc c \<longleftrightarrow> (\<exists>c0. raw = Inr c0 \<and> (\<forall>s0. R c0 s0 \<longrightarrow> (\<exists>s. acc (Inr s0) = Inr s \<and> R c s)))"

text \<open>A service that starts is in its initial state with an open listener; one that does not start is cancelled and not open.\<close>

lemma relays_start:
  "fst (udp_Start env cm ucfg opts) = Inr ucfg' \<Longrightarrow> snd (udp_Start env cm ucfg opts) = udp_started cm (uf_ParentType ucfg) opts"
  "fst (udp_Start env cm ucfg opts) = Inl e \<Longrightarrow> u_cancelled (snd (udp_Start env cm ucfg opts)) \<and> \<not> u_open (snd (udp_Start env cm ucfg opts))"
  "fst (tcp_Start env cm tcfg opts) = Inr r \<Longrightarrow> snd (tcp_Start env cm tcfg opts) = tcp_started cm (tf_ParentType tcfg) opts"
  "fst (tcp_Start env cm tcfg opts) = Inl e \<Longrightarrow> t_cancelled (snd (tcp_Start env cm tcfg opts)) \<and> \<not> t_open (snd (tcp_Start env cm tcfg opts))"
  "fst (bridge_Start env cm bcfg) = Inr r' \<Longrightarrow> snd (bridge_Start env cm bcfg) = bridge_started cm"
  "fst (bridge_Start env cm bcfg) = Inl e \<Longrightarrow> b_cancelled (snd (bridge_Start env cm bcfg)) \<and> \<not> b_channel (snd (bridge_Start env cm bcfg))"
  by (auto simp: udp_Start_def udp_started_def udp_New_def tcp_Start_def tcp_started_def tcp_New_def bridge_Start_def bridge_started_def NewBridge_def Let_def
      split: sum.splits option.splits prod.splits)

lemma tcp_Start_listens: "fst (tcp_Start env cm cfg opts) = Inr (cfg', u, acc) \<Longrightarrow> hop_Listen env (tcp_local cfg') (tf_Local cfg') = Inr acc"
  by (auto simp: tcp_Start_def Let_def split: sum.splits prod.splits)

lemma bridge_Start_listens: "fst (bridge_Start env cm cfg) = Inr (cfg', acc) \<Longrightarrow> hop_Listen env (bridge_local cfg') (bf_Local cfg') = Inr acc"
  by (auto simp: bridge_Start_def Let_def split: sum.splits)


text \<open>An example: a TCP service and a bridge that listen with TLS and compression, and a TCP service that dials.\<close>

definition ex_ce :: "(string, string, nat) ccs_env" where
  "ex_ce = \<lparr>ce_net_Dial = (\<lambda>_ _. Inl EOF), ce_net_Listen = (\<lambda>_. None), ce_Scheme = (\<lambda>_. ''https''), ce_Socks5 = (\<lambda>_ _ _. Inl EOF),
     ce_HTTPS = (\<lambda>_ _ a. Inr a), ce_kcp_Dial = (\<lambda>_. Inl EOF), ce_kcp_Listen = (\<lambda>_. None),
     ce_tls = \<lparr>te_X509KeyPair = (\<lambda>_ _. Inr 0), te_AppendCerts = (\<lambda>_. True), te_Decode = Some, te_Parse = (\<lambda>_. Inr ''cn''), te_Verify = (\<lambda>_ _. None)\<rparr>,
     ce_tls_Client = (\<lambda>_ c. CHR ''T'' # c), ce_tls_Server = (\<lambda>_ c. CHR ''T'' # c), ce_Stcp = (\<lambda>_ _. Inl EOF)\<rparr>"

definition ex_se :: "(string, string, nat) start_env" where
  "ex_se = \<lparr>se_ccs = ex_ce, se_ReadFile = (\<lambda>f. if f = ''c'' then Inr [1] else Inr [2]), se_CipherMethods = [], se_url_Parse = Inr,
     se_snappy = Cons (CHR ''Z''), se_ResolveUDPAddr = (\<lambda>_. None), se_ListenUDP = (\<lambda>_. None)\<rparr>"

definition ex_notls :: TLSConfig where "ex_notls = \<lparr>tl_CaCert = None, tl_Cert = [], tl_Key = [], tl_Single = False\<rparr>"

definition ex_tf :: tcp_config where
  "ex_tf = \<lparr>tf_valid = None, tf_ParentType = ''tls'', tf_ParentCompress = True, tf_LocalType = ''tls'', tf_Local = '':1'', tf_LocalCompress = True,
     tf_CertFile = ''c'', tf_KeyFile = ''k'', tf_CaCertFile = '''', tf_Method = '''', tf_Password = '''', tf_RawProxyURL = ''https://p'', tf_tls = ex_notls\<rparr>"

definition ex_bf :: bridge_config where
  "ex_bf = \<lparr>bf_valid = None, bf_LocalType = ''tls'', bf_Local = '':2'', bf_Compress = True, bf_CaCertFile = '''', bf_CertFile = ''c'', bf_KeyFile = ''k'',
     bf_Method = '''', bf_Password = '''', bf_tls = ex_notls\<rparr>"


end
