(* ===== verification/Service_Dial.thy ===== *)
theory Service_Dial
  imports Relay_Start
begin

section \<open>Dialling of the HTTP, SOCKS5 and converter services\<close>

text \<open>
  \<open>dialParent\<close> of services/http, services/socks and services/sps over the diallers of Dialler, with the listeners of the three services and the encryption of a connection by
  a shared key. The connection is a value of any type; \<open>crypt\<close> is \<open>ccrypt.New\<close> with a password as such a layer.
\<close>

record proxy_config =
  px_ParentType :: string
  px_ParentCompress :: bool
  px_ParentKey :: string
  px_LocalType :: string
  px_LocalCompress :: bool
  px_LocalKey :: string
  px_Method :: string
  px_Password :: string
  px_tls :: TLSConfig

definition parent_hop :: "proxy_config \<Rightarrow> 'u option \<Rightarrow> 'u hop" where
  "parent_hop cfg u = \<lparr>hop_Protocol = px_ParentType cfg, hop_Compress = px_ParentCompress cfg,
     hop_Config = \<lparr>cg_TLSConfig = px_tls cfg, cg_Method = px_Method cfg, cg_Password = px_Password cfg, cg_ProxyURL = u\<rparr>\<rparr>"

definition local_hop :: "proxy_config \<Rightarrow> 'u hop" where
  "local_hop cfg = \<lparr>hop_Protocol = px_LocalType cfg, hop_Compress = px_LocalCompress cfg,
     hop_Config = \<lparr>cg_TLSConfig = px_tls cfg, cg_Method = px_Method cfg, cg_Password = px_Password cfg, cg_ProxyURL = None\<rparr>\<rparr>"

definition keyed :: "(string \<Rightarrow> 'c \<Rightarrow> 'c) \<Rightarrow> string \<Rightarrow> 'c \<Rightarrow> 'c" where
  "keyed crypt k c = (if k \<noteq> '''' then crypt k c else c)"

subsection \<open>Dialling through SSH\<close>

text \<open>What ends one attempt: the service is stopped, the timer fires, or the goroutine has dialled.\<close>

datatype 'c ssh_event = SshStopped | SshTimeout | SshDialled "'c result"

text \<open>The outcome of an attempt, and whether it is permanent; the SOCKS5 service words the time-out a little differently.\<close>

fun ssh_attempt :: "string \<Rightarrow> 'c ssh_event \<Rightarrow> 'c result \<times> bool" where
  "ssh_attempt address SshStopped = (Inl (ErrMsg ''io: read/write on closed pipe''), True)"
| "ssh_attempt address SshTimeout = (Inl (ErrMsg (''ssh dial '' @ address @ '' timeout'')), False)"
| "ssh_attempt address (SshDialled r) = (r, False)"

text \<open>An attempt and, when it has failed for a while only, as many others as are left. \<open>stopped i\<close>: the service is stopped while waiting after attempt \<open>i\<close>.\<close>

fun ssh_retry :: "nat \<Rightarrow> nat \<Rightarrow> (nat \<Rightarrow> 'c ssh_event) \<Rightarrow> (nat \<Rightarrow> bool) \<Rightarrow> string \<Rightarrow> 'c result" where
  "ssh_retry 0 i ev stopped address = fst (ssh_attempt address (ev i))"
| "ssh_retry (Suc n) i ev stopped address =
     (case ssh_attempt address (ev i) of
        (Inr c, _) \<Rightarrow> Inr c
      | (Inl e, permanent) \<Rightarrow> if permanent \<or> stopped i then Inl e else ssh_retry n (Suc i) ev stopped address)"

subsection \<open>dialParent\<close>

definition ccs_types :: "string list" where
  "ccs_types = [''tcp'', ''tls'', ''stcp'', ''kcp'']"

text \<open>The HTTP service has no case for other types: it returns neither a connection nor an error.\<close>

definition http_dialParent :: "('c, 'u, 'k) start_env \<Rightarrow> proxy_config \<Rightarrow> 'u option \<Rightarrow> (nat \<Rightarrow> 'c ssh_event) \<Rightarrow> (nat \<Rightarrow> bool) \<Rightarrow> string \<Rightarrow> 'c option result" where
  "http_dialParent env cfg u ev stopped address =
     (if px_ParentType cfg \<in> set ccs_types then bindR (hop_Dial env (parent_hop cfg u) address) (\<lambda>c. Inr (Some c))
      else if px_ParentType cfg = ''ssh'' then bindR (ssh_retry 1 0 ev stopped address) (\<lambda>c. Inr (Some c))
      else Inr None)"

definition socks_parent_Dial :: "('c, 'u, 'k) start_env \<Rightarrow> proxy_config \<Rightarrow> (nat \<Rightarrow> 'c ssh_event) \<Rightarrow> (nat \<Rightarrow> bool) \<Rightarrow> string \<Rightarrow> 'c result" where
  "socks_parent_Dial env cfg ev stopped targetAddr =
     (if px_ParentType cfg \<in> set ccs_types then hop_Dial env (parent_hop cfg None) targetAddr
      else if px_ParentType cfg = ''ssh'' then ssh_retry 1 0 ev stopped targetAddr
      else Inl (ErrMsg (''not support parent type: '' @ px_ParentType cfg)))"

definition sps_dialParent :: "('c, 'u, 'k) start_env \<Rightarrow> (string \<Rightarrow> 'c \<Rightarrow> 'c) \<Rightarrow> proxy_config \<Rightarrow> 'u option \<Rightarrow> string \<Rightarrow> 'c result" where
  "sps_dialParent env crypt cfg u address = bindR (hop_Dial env (parent_hop cfg u) address) (\<lambda>c. Inr (keyed crypt (px_ParentKey cfg) c))"

text \<open>What the handlers of the services put around an accepted connection, and the HTTP service around one to a parent.\<close>

definition handle_conn :: "(string \<Rightarrow> 'c \<Rightarrow> 'c) \<Rightarrow> proxy_config \<Rightarrow> 'c \<Rightarrow> 'c" where
  "handle_conn crypt cfg inConn = keyed crypt (px_LocalKey cfg) inConn"

definition http_target :: "(string \<Rightarrow> 'c \<Rightarrow> 'c) \<Rightarrow> proxy_config \<Rightarrow> bool \<Rightarrow> 'c \<Rightarrow> 'c" where
  "http_target crypt cfg useProxy targetConn = (if useProxy then keyed crypt (px_ParentKey cfg) targetConn else targetConn)"

subsection \<open>Properties\<close>

text \<open>SSH: at most two attempts; the connection is one that an attempt has dialled, the first that succeeds; an error is that of the last attempt made.\<close>

lemma ssh_two_attempts:
  "ssh_retry 1 0 ev stopped address = Inr c \<longleftrightarrow> ev 0 = SshDialled (Inr c) \<or> (ev 0 = SshTimeout \<or> (\<exists>e. ev 0 = SshDialled (Inl e))) \<and> \<not> stopped 0 \<and> ev 1 = SshDialled (Inr c)"
  by (cases "ev 0"; cases "ev 1") (auto simp: One_nat_def split: sum.split)

lemma keyed_keeps: "keeps R (crypt k) (crypt k) \<Longrightarrow> R a b \<Longrightarrow> R (keyed crypt k a) (keyed crypt k b)"
  by (simp add: keyed_def keeps_def)

lemma parent_meets:
  assumes "hop_Dial env (parent_hop cfg u) address = Inr c" "hop_Listen env (local_hop scfg) addr = Inr acc" "hops_agree (parent_hop cfg u) (local_hop scfg)"
    "wrappers_ok R env (px_tls cfg) (px_tls scfg)"
  shows "\<exists>c0. raw_dial (se_ccs env) (hop_Config (parent_hop cfg u)) (px_ParentType cfg) ''tcp'' address = Inr c0 \<and> (\<forall>s0. R c0 s0 \<longrightarrow> (\<exists>s. acc (Inr s0) = Inr s \<and> R c s))"
  using hop_meets [OF assms(1-3), of R] assms(4) by (simp add: parent_hop_def local_hop_def)

text \<open>The services as parents of each other, with a listener that has started and agreeing configurations: for a common key what the converter dials, and what the HTTP service puts
  around what it dials, understands what the handler of the parent works on. A connection that the SOCKS5 service dials is not yet encrypted when its handshake is made on it: it understands
  what the parent has accepted, not what its handler works on. A parent type of the HTTP service that is none of the five gives no connection and no error.\<close>

theorem service_hops:
  assumes "hop_Listen env (local_hop scfg) addr = Inr acc" "hops_agree (parent_hop cfg u) (local_hop scfg)" "wrappers_ok R env (px_tls cfg) (px_tls scfg)"
    "px_ParentKey cfg = px_LocalKey scfg" "\<And>k. keeps R (crypt k) (crypt k)" "px_ParentType cfg \<noteq> ''ssh''"
  shows "(sps_dialParent env crypt cfg u address = Inr c \<longrightarrow>
      (\<exists>c0. raw_dial (se_ccs env) (hop_Config (parent_hop cfg u)) (px_ParentType cfg) ''tcp'' address = Inr c0 \<and>
        (\<forall>s0. R c0 s0 \<longrightarrow> (\<exists>s. acc (Inr s0) = Inr s \<and> R c (handle_conn crypt scfg s))))) \<and>
    (http_dialParent env cfg u ev stopped address = Inr (Some c) \<longrightarrow>
      (\<exists>c0. raw_dial (se_ccs env) (hop_Config (parent_hop cfg u)) (px_ParentType cfg) ''tcp'' address = Inr c0 \<and>
        (\<forall>s0. R c0 s0 \<longrightarrow> (\<exists>s. acc (Inr s0) = Inr s \<and> R (http_target crypt cfg True c) (handle_conn crypt scfg s))))) \<and>
    (u = None \<and> socks_parent_Dial env cfg ev stopped address = Inr c \<longrightarrow>
      (\<exists>c0. raw_dial (se_ccs env) (hop_Config (parent_hop cfg u)) (px_ParentType cfg) ''tcp'' address = Inr c0 \<and>
        (\<forall>s0. R c0 s0 \<longrightarrow> (\<exists>s. acc (Inr s0) = Inr s \<and> R c s)))) \<and>
    (http_dialParent env cfg u ev stopped address = Inr None \<longrightarrow> px_ParentType cfg \<notin> set ccs_types)"
proof (intro conjI impI)
  let ?raw = "raw_dial (se_ccs env) (hop_Config (parent_hop cfg u)) (px_ParentType cfg) ''tcp'' address"
  note m = parent_meets [OF _ assms(1-3)]
  have k: "R (keyed crypt x a) (keyed crypt x b)" if "R a b" for x a b by (rule keyed_keeps [where crypt = crypt and k = x, OF assms(5) that])
  { assume "sps_dialParent env crypt cfg u address = Inr c"
    then obtain d where d: "hop_Dial env (parent_hop cfg u) address = Inr d" "c = keyed crypt (px_ParentKey cfg) d" by (auto simp: sps_dialParent_def bindR_eq_Inr)
    show "\<exists>c0. ?raw = Inr c0 \<and> (\<forall>s0. R c0 s0 \<longrightarrow> (\<exists>s. acc (Inr s0) = Inr s \<and> R c (handle_conn crypt scfg s)))"
      using m [OF d(1)] k unfolding d(2) handle_conn_def assms(4) by blast }
  { assume "http_dialParent env cfg u ev stopped address = Inr (Some c)"
    then have d: "hop_Dial env (parent_hop cfg u) address = Inr c" using assms(6) by (auto simp: http_dialParent_def bindR_eq_Inr split: if_splits)
    show "\<exists>c0. ?raw = Inr c0 \<and> (\<forall>s0. R c0 s0 \<longrightarrow> (\<exists>s. acc (Inr s0) = Inr s \<and> R (http_target crypt cfg True c) (handle_conn crypt scfg s)))"
      using m [OF d] k unfolding http_target_def handle_conn_def assms(4) if_True by blast }
  { assume "u = None \<and> socks_parent_Dial env cfg ev stopped address = Inr c"
    then have "hop_Dial env (parent_hop cfg u) address = Inr c" using assms(6) by (auto simp: socks_parent_Dial_def split: if_splits)
    from m [OF this] show "\<exists>c0. ?raw = Inr c0 \<and> (\<forall>s0. R c0 s0 \<longrightarrow> (\<exists>s. acc (Inr s0) = Inr s \<and> R c s))" . }
  { assume "http_dialParent env cfg u ev stopped address = Inr None"
    then show "px_ParentType cfg \<notin> set ccs_types" by (auto simp: http_dialParent_def bindR_eq_Inr split: if_splits) }
qed

end
