(* ===== verification/Socks_Udp.thy ===== *)
theory Socks_Udp
  imports Sps_Udp Socks_Service Udp_Service
begin

section \<open>services/socks/udp.go: UDP associations of the SOCKS5 service\<close>

text \<open>
  \<open>proxyUDP\<close> answers a request for a UDP association. It is complete but no code of the repository calls it. Its socket to the target or parent (\<open>targetUDP\<close>) and its listener
  (\<open>bindLn\<close>) are closed together; a goroutine relays what clients send, and goroutines that this one starts relay the answers, one table
  \<open>udpRelatedPacketConns\<close> deciding when. Packets of SOCKS5 are those of the package \<open>statute\<close>, a parameter.
\<close>

record 'm xudp_env =
  xe_Encrypt :: "nat \<Rightarrow> bytes \<Rightarrow> bytes \<Rightarrow> bytes result"
  xe_Decrypt :: "bytes \<Rightarrow> bytes \<Rightarrow> bytes result"
  xe_ParseDatagram :: "bytes \<Rightarrow> bytes result"
  xe_NewDatagram :: "string \<Rightarrow> bytes \<Rightarrow> bytes result"
  xe_cmap :: "('m, nat) cmap"

record xassoc =
  xa_remote :: string
  xa_useProxy :: bool
  xa_target :: string
  xa_relaying :: bool
  xa_readers :: "string list"
  xa_sent :: "bytes list"
  xa_back :: "(string \<times> bytes) list"
  xa_closed :: bool

record 'm xudp =
  xs_related :: 'm
  xs_assocs :: "xassoc list"
  xs_localKey :: bytes
  xs_parentKey :: bytes

subsection \<open>Conversions\<close>

definition localData2Raw :: "'m xudp_env \<Rightarrow> 'm xudp \<Rightarrow> bytes \<Rightarrow> bytes result" where
  "localData2Raw xe sf b = (if xs_localKey sf \<noteq> [] then xe_Decrypt xe (xs_localKey sf) b else Inr b)"

definition raw2LocalData :: "'m xudp_env \<Rightarrow> nat \<Rightarrow> 'm xudp \<Rightarrow> bytes \<Rightarrow> bytes result" where
  "raw2LocalData xe n sf b = (if xs_localKey sf \<noteq> [] then xe_Encrypt xe n (xs_localKey sf) b else Inr b)"

definition parentData2Raw :: "'m xudp_env \<Rightarrow> 'm xudp \<Rightarrow> bytes \<Rightarrow> bytes result" where
  "parentData2Raw xe sf b = (if xs_parentKey sf \<noteq> [] then xe_Decrypt xe (xs_parentKey sf) b else Inr b)"

definition raw2ParentData :: "'m xudp_env \<Rightarrow> nat \<Rightarrow> 'm xudp \<Rightarrow> bytes \<Rightarrow> bytes result" where
  "raw2ParentData xe n sf b = (if xs_parentKey sf \<noteq> [] then xe_Encrypt xe n (xs_parentKey sf) b else Inr b)"

subsection \<open>dialForUdp and the start of an association\<close>

text \<open>\<open>parent\<close>: the outcome of dialling the parent, and of the handshake on that connection with the address of its association; \<open>dial\<close>: whether the UDP socket can be made. The
  result says whether there is a connection to a parent, and the address of the target. A connection to the parent that is open at an error is not closed.\<close>

record xcall =
  xc_parent :: "string result result"
  xc_dial :: "string \<Rightarrow> error option"
  xc_listen :: "error option"
  xc_replied :: bool

definition dialForUdp :: "xcall \<Rightarrow> bool \<Rightarrow> string \<Rightarrow> (bool \<times> string) result \<times> bool" where
  "dialForUdp xc useProxy targetAddr =
     (if useProxy then
        (case xc_parent xc of
           Inl e \<Rightarrow> (Inl e, False)
         | Inr (Inl e) \<Rightarrow> (Inl e, True)
         | Inr (Inr udpAddr) \<Rightarrow> (case xc_dial xc udpAddr of Some e \<Rightarrow> (Inl e, True) | None \<Rightarrow> (Inr (True, udpAddr), False)))
      else case xc_dial xc targetAddr of Some e \<Rightarrow> (Inl e, False) | None \<Rightarrow> (Inr (False, targetAddr), False))"

text \<open>\<open>proxyUDP\<close> up to its goroutines, with the replies that the client gets: the connection to the parent is entered into a table without a test whether there is one.\<close>

definition RepServerFailure_statute :: byte where "RepServerFailure_statute = 1"

definition xudp_open :: "xcall \<Rightarrow> string \<Rightarrow> bool \<Rightarrow> string \<Rightarrow> string \<Rightarrow> 'm xudp \<Rightarrow> unit result \<times> byte list \<times> 'm xudp" where
  "xudp_open xc parentType useProxy remote targetAddr sf =
     (if parentType = ''ssh'' then (Inl (ErrMsg ''ssh not support udp''), [], sf)
      else case fst (dialForUdp xc useProxy targetAddr) of
        Inl e \<Rightarrow> if xc_replied xc then (Inl (ErrMsg ''connect failed''), [failure_code e], sf) else (Inl (ErrMsg ''failed to send reply''), [], sf)
      | Inr (has_conn, target) \<Rightarrow>
          if \<not> has_conn then (Inl (Panic NilDereference), [], sf)
          else case xc_listen xc of
                 Some e \<Rightarrow> if xc_replied xc then (Inl (ErrMsg ''listen udp failed''), [RepServerFailure_statute], sf) else (Inl (ErrMsg ''failed to send reply''), [], sf)
               | None \<Rightarrow>
                   if \<not> xc_replied xc then (Inl (ErrMsg ''failed to send reply''), [], sf)
                   else (Inr (), [RepSuccess_statute], sf\<lparr>xs_assocs := xs_assocs sf @
                          [\<lparr>xa_remote = remote, xa_useProxy = useProxy, xa_target = target, xa_relaying = True, xa_readers = [], xa_sent = [], xa_back = [], xa_closed = False\<rparr>]\<rparr>))"

subsection \<open>The relaying goroutines\<close>

definition xset :: "nat \<Rightarrow> (xassoc \<Rightarrow> xassoc) \<Rightarrow> 'm xudp \<Rightarrow> 'm xudp" where
  "xset i f sf = sf\<lparr>xs_assocs := upd_at i f (xs_assocs sf)\<rparr>"

text \<open>One round of the loop that reads from clients. A goroutine for the answers is started when the address is already in the table.\<close>

definition xudp_packet :: "'m xudp_env \<Rightarrow> nat \<Rightarrow> nat \<Rightarrow> string \<Rightarrow> bytes \<Rightarrow> 'm xudp \<Rightarrow> 'm xudp" where
  "xudp_packet xe n i src b sf =
     (let a = xs_assocs sf ! i in
      if host_of src \<noteq> host_of (xa_remote a) then sf
      else case localData2Raw xe sf (take BindingSize b) of
             Inl _ \<Rightarrow> sf
           | Inr rawData \<Rightarrow>
               (case xe_ParseDatagram xe rawData of
                  Inl _ \<Rightarrow> sf
                | Inr d \<Rightarrow>
                    (let absent = (cm_Get (xe_cmap xe) src (xs_related sf) = None);
                         sf = sf\<lparr>xs_related := cm_SetIfAbsent (xe_cmap xe) src i (xs_related sf)\<rparr>;
                         sf = (if \<not> absent then xset i (\<lambda>a. a\<lparr>xa_readers := src # xa_readers a\<rparr>) sf else sf)
                     in case (if xa_useProxy a then raw2ParentData xe n sf rawData else Inr d) of
                          Inl _ \<Rightarrow> sf
                        | Inr outData \<Rightarrow>
                            if xa_closed a then xset i (\<lambda>a. a\<lparr>xa_relaying := False\<rparr>) sf
                            else xset i (\<lambda>a. a\<lparr>xa_sent := xa_sent a @ [outData]\<rparr>) sf)))"

text \<open>One round of a goroutine for the answers, and its end, which closes the sockets of the association.\<close>

definition xudp_answer :: "'m xudp_env \<Rightarrow> nat \<Rightarrow> nat \<Rightarrow> string \<Rightarrow> bytes \<Rightarrow> 'm xudp \<Rightarrow> 'm xudp" where
  "xudp_answer xe n i src b sf =
     (let a = xs_assocs sf ! i in
      case bindR (if xa_useProxy a then parentData2Raw xe sf (take BindingSize b) else xe_NewDatagram xe (xa_target a) (take BindingSize b)) (raw2LocalData xe n sf) of
        Inl _ \<Rightarrow> sf
      | Inr lData \<Rightarrow> xset i (\<lambda>a. a\<lparr>xa_back := xa_back a @ [(src, lData)]\<rparr>) sf)"

definition xudp_reader_ends :: "'m xudp_env \<Rightarrow> nat \<Rightarrow> string \<Rightarrow> 'm xudp \<Rightarrow> 'm xudp" where
  "xudp_reader_ends xe i src sf =
     (xset i (\<lambda>a. a\<lparr>xa_closed := True, xa_readers := remove1 src (xa_readers a)\<rparr>) sf)
       \<lparr>xs_related := cm_Remove (xe_cmap xe) src (xs_related sf)\<rparr>"

text \<open>The loop at the end of \<open>proxyUDP\<close>: whether an error of reading the control connection ends it.\<close>

definition control_ends :: "error \<Rightarrow> bool" where
  "control_ends e = str_contains (err_text e) ''use of closed network connection''"

inductive xudp_step :: "'m xudp_env \<Rightarrow> 'm xudp \<Rightarrow> 'm xudp \<Rightarrow> bool" for xe :: "'m xudp_env" where
  x_open: "xudp_open xc parentType useProxy remote targetAddr sf = (r, codes, sf') \<Longrightarrow> xudp_step xe sf sf'"
| x_packet: "i < length (xs_assocs sf) \<Longrightarrow> xa_relaying (xs_assocs sf ! i) \<Longrightarrow> xudp_step xe sf (xudp_packet xe n i src b sf)"
| x_answer: "i < length (xs_assocs sf) \<Longrightarrow> src \<in> set (xa_readers (xs_assocs sf ! i)) \<Longrightarrow> \<not> xa_closed (xs_assocs sf ! i) \<Longrightarrow> xudp_step xe sf (xudp_answer xe n i src b sf)"
| x_reader_ends: "i < length (xs_assocs sf) \<Longrightarrow> src \<in> set (xa_readers (xs_assocs sf ! i)) \<Longrightarrow> xudp_step xe sf (xudp_reader_ends xe i src sf)"
| x_closes: "i < length (xs_assocs sf) \<Longrightarrow> xudp_step xe sf (xset i (\<lambda>a. a\<lparr>xa_closed := True, xa_relaying := False\<rparr>) sf)"
| x_returns: "i < length (xs_assocs sf) \<Longrightarrow> control_ends e \<Longrightarrow> xudp_step xe sf (xset i (\<lambda>a. a\<lparr>xa_closed := True\<rparr>) sf)"

inductive xudp_reach :: "'m xudp_env \<Rightarrow> bytes \<Rightarrow> bytes \<Rightarrow> 'm xudp \<Rightarrow> bool" for xe :: "'m xudp_env" and lk :: bytes and pk :: bytes where
  x_start: "xudp_reach xe lk pk \<lparr>xs_related = cm_New (xe_cmap xe), xs_assocs = [], xs_localKey = lk, xs_parentKey = pk\<rparr>"
| x_next: "xudp_reach xe lk pk sf \<Longrightarrow> xudp_step xe sf sf' \<Longrightarrow> xudp_reach xe lk pk sf'"

subsection \<open>Properties\<close>

text \<open>A packet that the relay of an association accepts, and what it sends for it.\<close>

definition accepted :: "'m xudp_env \<Rightarrow> nat \<Rightarrow> nat \<Rightarrow> string \<Rightarrow> 'm xudp \<Rightarrow> bytes \<Rightarrow> bytes \<Rightarrow> bool" where
  "accepted xe n i src sf b out \<longleftrightarrow> host_of src = host_of (xa_remote (xs_assocs sf ! i)) \<and>
     (\<exists>raw d. localData2Raw xe sf (take BindingSize b) = Inr raw \<and> xe_ParseDatagram xe raw = Inr d \<and>
        (if xa_useProxy (xs_assocs sf ! i) then raw2ParentData xe n sf raw = Inr out else out = d))"

lemma xudp_packet_accepted:
  assumes "cmap_laws (xe_cmap xe)" "accepted xe n i src sf b out" "i < length (xs_assocs sf)" "\<not> xa_closed (xs_assocs sf ! i)"
  shows "xudp_packet xe n i src b sf =
    (xset i (\<lambda>a. a\<lparr>xa_readers := (if cm_Get (xe_cmap xe) src (xs_related sf) = None then [] else [src]) @ xa_readers a, xa_sent := xa_sent a @ [out]\<rparr>) sf)
      \<lparr>xs_related := cm_SetIfAbsent (xe_cmap xe) src i (xs_related sf)\<rparr>"
  using assms(2-4)
  by (auto simp: accepted_def xudp_packet_def Let_def xset_def upd_at_def raw2ParentData_def split: if_splits)

lemma accepted_mono:
  assumes "xs_localKey sf' = xs_localKey sf" "xs_parentKey sf' = xs_parentKey sf"
    "xa_remote (xs_assocs sf' ! i) = xa_remote (xs_assocs sf ! i)" "xa_useProxy (xs_assocs sf' ! i) = xa_useProxy (xs_assocs sf ! i)"
  shows "accepted xe n i src sf' b out = accepted xe n i src sf b out"
  using assms by (simp add: accepted_def localData2Raw_def raw2ParentData_def)

lemma xudp_packets:
  assumes "cmap_laws (xe_cmap xe)" "i < length (xs_assocs sf)" "\<not> xa_closed (xs_assocs sf ! i)" "list_all2 (accepted xe n i src sf) bs outs"
  defines "sf' \<equiv> fold (xudp_packet xe n i src) bs sf"
  shows "xa_sent (xs_assocs sf' ! i) = xa_sent (xs_assocs sf ! i) @ outs \<and>
    xa_readers (xs_assocs sf' ! i) = replicate (if cm_Get (xe_cmap xe) src (xs_related sf) = None then length bs - 1 else length bs) src @ xa_readers (xs_assocs sf ! i)"
  using assms(2-4) unfolding sf'_def
proof (induction bs arbitrary: sf outs)
  case (Cons b bs)
  then obtain out outs' where o: "outs = out # outs'" "accepted xe n i src sf b out" "list_all2 (accepted xe n i src sf) bs outs'" by (cases outs) auto
  define sf1 where "sf1 = xudp_packet xe n i src b sf"
  note p = xudp_packet_accepted [OF assms(1) o(2) Cons.prems(1,2), folded sf1_def]
  have f: "xs_localKey sf1 = xs_localKey sf" "xs_parentKey sf1 = xs_parentKey sf" "xa_remote (xs_assocs sf1 ! i) = xa_remote (xs_assocs sf ! i)"
    "xa_useProxy (xs_assocs sf1 ! i) = xa_useProxy (xs_assocs sf ! i)" "i < length (xs_assocs sf1)" "\<not> xa_closed (xs_assocs sf1 ! i)"
    "xa_sent (xs_assocs sf1 ! i) = xa_sent (xs_assocs sf ! i) @ [out]"
    "xa_readers (xs_assocs sf1 ! i) = (if cm_Get (xe_cmap xe) src (xs_related sf) = None then [] else [src]) @ xa_readers (xs_assocs sf ! i)"
    using Cons.prems(1,2) by (simp_all add: p xset_def)
  have g: "cm_Get (xe_cmap xe) src (xs_related sf1) \<noteq> None" by (simp add: p xset_def cmap_SetIfAbsent [OF assms(1)])
  have "list_all2 (accepted xe n i src sf1) bs outs'" using o(3) accepted_mono [OF f(1-4)] by (simp add: list_all2_conv_all_nth)
  from Cons.IH [OF f(5,6) this] show ?case using f(7,8) g o(1)
    by (cases bs) (auto simp: sf1_def [symmetric] replicate_app_Cons_same)
qed simp

text \<open>In every reachable state.\<close>

definition xassoc_ok :: "xassoc \<Rightarrow> bool" where
  "xassoc_ok a \<longleftrightarrow> xa_useProxy a \<and> (\<forall>(s, d) \<in> set (xa_back a). host_of s = host_of (xa_remote a)) \<and> (\<forall>s \<in> set (xa_readers a). host_of s = host_of (xa_remote a))"

lemma xassoc_ok_upd [simp]:
  "xassoc_ok (a\<lparr>xa_relaying := v\<rparr>) = xassoc_ok a" "xassoc_ok (a\<lparr>xa_sent := y\<rparr>) = xassoc_ok a" "xassoc_ok (a\<lparr>xa_closed := v\<rparr>) = xassoc_ok a"
  by (simp_all add: xassoc_ok_def)

lemma xset_ok:
  assumes "list_all xassoc_ok (xs_assocs sf)" "i < length (xs_assocs sf) \<Longrightarrow> xassoc_ok (f (xs_assocs sf ! i))"
  shows "list_all xassoc_ok (xs_assocs (xset i f sf))"
  using assms by (auto simp: list_all_length xset_def upd_at_def nth_list_update)

lemma xudp_packet_ok:
  assumes "list_all xassoc_ok (xs_assocs sf)" "i < length (xs_assocs sf)"
  shows "list_all xassoc_ok (xs_assocs (xudp_packet xe n i src b sf))"
proof (cases "host_of src = host_of (xa_remote (xs_assocs sf ! i))")
  case True
  have a: "xassoc_ok (xs_assocs sf ! i)" using assms by (simp add: list_all_length)
  define sf0 where "sf0 = sf\<lparr>xs_related := cm_SetIfAbsent (xe_cmap xe) src i (xs_related sf)\<rparr>"
  define sf1 where "sf1 = (if \<not> (cm_Get (xe_cmap xe) src (xs_related sf) = None) then xset i (\<lambda>a. a\<lparr>xa_readers := src # xa_readers a\<rparr>) sf0 else sf0)"
  have e: "xudp_packet xe n i src b sf = (case localData2Raw xe sf (take BindingSize b) of Inl _ \<Rightarrow> sf | Inr rawData \<Rightarrow> (case xe_ParseDatagram xe rawData of Inl _ \<Rightarrow> sf | Inr d \<Rightarrow>
      (case (if xa_useProxy (xs_assocs sf ! i) then raw2ParentData xe n sf1 rawData else Inr d) of Inl _ \<Rightarrow> sf1
       | Inr outData \<Rightarrow> if xa_closed (xs_assocs sf ! i) then xset i (\<lambda>a. a\<lparr>xa_relaying := False\<rparr>) sf1 else xset i (\<lambda>a. a\<lparr>xa_sent := xa_sent a @ [outData]\<rparr>) sf1)))"
    using True unfolding xudp_packet_def Let_def sf1_def sf0_def by presburger
  have r: "xassoc_ok ((xs_assocs sf ! i)\<lparr>xa_readers := src # xa_readers (xs_assocs sf ! i)\<rparr>)" using a True by (simp add: xassoc_ok_def)
  have 1: "list_all xassoc_ok (xs_assocs sf1)" unfolding sf1_def using assms(1) r by (auto intro: xset_ok simp: sf0_def)
  have 2: "list_all xassoc_ok (xs_assocs (xset i (\<lambda>a. a\<lparr>xa_relaying := v\<rparr>) sf1))" "list_all xassoc_ok (xs_assocs (xset i (\<lambda>a. a\<lparr>xa_sent := xa_sent a @ [out]\<rparr>) sf1))" for v out
    by (rule xset_ok [OF 1]; use 1 in \<open>simp add: list_all_length\<close>)+
  show ?thesis using assms(1) 1 2 unfolding e by (simp split: sum.split)
next
  case False
  then show ?thesis using assms(1) by (simp add: xudp_packet_def)
qed

lemma xudp_step_ok: "xudp_step xe sf sf' \<Longrightarrow> list_all xassoc_ok (xs_assocs sf) \<Longrightarrow> list_all xassoc_ok (xs_assocs sf')"
proof (induction rule: xudp_step.induct)
  case (x_open xc parentType useProxy remote targetAddr sf r codes sf')
  then show ?case
    by (auto simp: xudp_open_def dialForUdp_def xassoc_ok_def split: if_splits sum.splits option.splits)
next
  case (x_packet i sf n src b)
  then show ?case by (simp add: xudp_packet_ok)
next
  case (x_answer i sf src n b)
  then have "xassoc_ok (xs_assocs sf ! i)" by (simp add: list_all_length)
  then have "xassoc_ok ((xs_assocs sf ! i)\<lparr>xa_back := xa_back (xs_assocs sf ! i) @ [(src, d)]\<rparr>)" for d using x_answer(2) by (auto simp: xassoc_ok_def)
  then have "list_all xassoc_ok (xs_assocs (xset i (\<lambda>a. a\<lparr>xa_back := xa_back a @ [(src, d)]\<rparr>) sf))" for d using x_answer by (intro xset_ok)
  then show ?case using x_answer.prems by (simp add: xudp_answer_def Let_def split: sum.split)
next
  case (x_reader_ends i sf src)
  then have "xassoc_ok (xs_assocs sf ! i)" by (simp add: list_all_length)
  then have "xassoc_ok ((xs_assocs sf ! i)\<lparr>xa_closed := True, xa_readers := remove1 src (xa_readers (xs_assocs sf ! i))\<rparr>)" by (auto simp: xassoc_ok_def dest: in_remove1D)
  with x_reader_ends show ?case by (auto simp: xudp_reader_ends_def intro: xset_ok)
next
  case (x_closes i sf)
  then show ?case by (intro xset_ok) (simp_all add: list_all_length)
next
  case (x_returns i sf e)
  then show ?case by (intro xset_ok) (simp_all add: list_all_length)
qed

lemma xudp_reach_ok: "xudp_reach xe lk pk sf \<Longrightarrow> list_all xassoc_ok (xs_assocs sf)"
  by (induction rule: xudp_reach.induct) (simp_all add: xudp_step_ok)


definition ex_xe :: "(string, nat) alist xudp_env" where
  "ex_xe = \<lparr>xe_Encrypt = (\<lambda>_ _ b. Inr b), xe_Decrypt = (\<lambda>_ b. Inr b), xe_ParseDatagram = Inr, xe_NewDatagram = (\<lambda>_ b. Inr b), xe_cmap = alist_cmap\<rparr>"

definition ex_xc :: xcall where
  "ex_xc = \<lparr>xc_parent = Inr (Inr ''10.0.0.2:7''), xc_dial = (\<lambda>_. None), xc_listen = None, xc_replied = True\<rparr>"

definition ex_x1 :: "(string, nat) alist xudp" where
  "ex_x1 = snd (snd (xudp_open ex_xc ''tcp'' True ''10.0.0.1:9'' ''t:1'' \<lparr>xs_related = cm_New alist_cmap, xs_assocs = [], xs_localKey = [], xs_parentKey = []\<rparr>))"

lemma ex_x1_reach: "xudp_reach ex_xe [] [] ex_x1"
proof -
  define s0 :: "(string, nat) alist xudp" where "s0 = \<lparr>xs_related = cm_New (xe_cmap ex_xe), xs_assocs = [], xs_localKey = [], xs_parentKey = []\<rparr>"
  have "xudp_reach ex_xe [] [] s0" unfolding s0_def by (rule x_start)
  moreover obtain r codes where "xudp_open ex_xc ''tcp'' True ''10.0.0.1:9'' ''t:1'' s0 = (r, codes, ex_x1)"
    unfolding ex_x1_def s0_def by (metis ex_xe_def prod.collapse xudp_env.select_convs(5))
  then have "xudp_step ex_xe s0 ex_x1" by (rule x_open)
  ultimately show ?thesis by (rule x_next)
qed


end
