(* ===== verification/Keygen.thy ===== *)
theory Keygen
  imports Extcert "HOL-Library.Word"
begin

section \<open>services/keygen and pkg/cert: making certificates\<close>

text \<open>
  \<open>Keygen.Start\<close> writes a new certificate authority to two files, or reads one from two files and writes a certificate signed by it. The files are a map from
  names to contents. Keys, X.509 and PEM are a parameter, \<open>cert_env\<close>; a certificate is a record of what the code sets in \<open>x509.Certificate\<close>.
\<close>

subsection \<open>Files\<close>

type_synonym files = "string \<rightharpoonup> bytes"

definition ReadFile :: "files \<Rightarrow> string \<Rightarrow> bytes result" where
  "ReadFile fs name = (case fs name of None \<Rightarrow> Inl (ErrMsg ''no such file or directory'') | Some b \<Rightarrow> Inr b)"

text \<open>\<open>fails name\<close>: the error of writing that file, with what is then left of it.\<close>

definition WriteFile :: "(string \<Rightarrow> (error \<times> bytes option) option) \<Rightarrow> string \<Rightarrow> bytes \<Rightarrow> files \<Rightarrow> unit result \<times> files" where
  "WriteFile fails name b fs = (case fails name of None \<Rightarrow> (Inr (), fs(name \<mapsto> b)) | Some (e, rest) \<Rightarrow> (Inl e, fs(name := rest)))"

subsection \<open>pkg/cert\<close>

definition CertFileSuffix :: string where "CertFileSuffix = ''.crt''"

definition KeyFileSuffix :: string where "KeyFileSuffix = ''.key''"

record Names =
  Country :: string
  Province :: string
  Locality :: string
  Organization :: string
  OrganizationUnit :: string

record cert_config =
  gc_CommonName :: string
  gc_Names :: Names
  gc_Host :: "string list"
  gc_Expire :: "64 word"

datatype key_usage = KeyUsageDigitalSignature | KeyUsageKeyEncipherment | KeyUsageDataEncipherment | KeyUsageCertSign

datatype ext_usage = ExtKeyUsageServerAuth | ExtKeyUsageClientAuth

record certificate =
  x_Serial :: int
  x_CommonName :: string
  x_Country :: "string list"
  x_Organization :: "string list"
  x_OrganizationalUnit :: "string list"
  x_Province :: "string list"
  x_Locality :: "string list"
  x_NotBefore :: int
  x_NotAfter :: int
  x_ExtKeyUsage :: "ext_usage list"
  x_KeyUsage :: "key_usage set"
  x_IPAddresses :: "bytes list"
  x_DNSNames :: "string list"
  x_BasicConstraintsValid :: bool
  x_IsCA :: bool

text \<open>\<open>ge_SignedBy der pub\<close>: the certificate \<open>der\<close> has a signature that the public key \<open>pub\<close> verifies.\<close>

record ('k, 'p) cert_env =
  ge_GenerateKey :: "nat \<Rightarrow> 'k result"
  ge_Public :: "'k \<Rightarrow> 'p"
  ge_CreateCertificate :: "nat \<Rightarrow> certificate \<Rightarrow> certificate \<Rightarrow> 'p \<Rightarrow> 'k \<Rightarrow> bytes result"
  ge_MarshalKey :: "'k \<Rightarrow> bytes"
  ge_ParseCertificate :: "bytes \<Rightarrow> certificate result"
  ge_ParseKey :: "bytes \<Rightarrow> 'k result"
  ge_PemEncode :: "string \<Rightarrow> bytes \<Rightarrow> bytes"
  ge_PemDecode :: "bytes \<Rightarrow> bytes option"
  ge_SignedBy :: "bytes \<Rightarrow> 'p \<Rightarrow> bool"

text \<open>Times are nanoseconds; a duration has 64 bits and wraps.\<close>

definition Hour :: int where "Hour = 3600000000000"

definition lifetime :: "64 word \<Rightarrow> int" where
  "lifetime expire = sint (of_int Hour * expire)"

definition cert_base :: "cert_config \<Rightarrow> int \<Rightarrow> int \<Rightarrow> certificate" where
  "cert_base cfg now later = \<lparr>x_Serial = 1, x_CommonName = gc_CommonName cfg, x_Country = [Country (gc_Names cfg)], x_Organization = [Organization (gc_Names cfg)],
     x_OrganizationalUnit = [OrganizationUnit (gc_Names cfg)], x_Province = [Province (gc_Names cfg)], x_Locality = [Locality (gc_Names cfg)],
     x_NotBefore = now - Hour, x_NotAfter = later + lifetime (gc_Expire cfg), x_ExtKeyUsage = [ExtKeyUsageServerAuth, ExtKeyUsageClientAuth],
     x_KeyUsage = {KeyUsageKeyEncipherment, KeyUsageDigitalSignature, KeyUsageCertSign}, x_IPAddresses = [], x_DNSNames = [], x_BasicConstraintsValid = True, x_IsCA = True\<rparr>"

text \<open>The loop over the hosts.\<close>

fun add_hosts :: "string list \<Rightarrow> certificate \<Rightarrow> certificate" where
  "add_hosts [] tpl = tpl"
| "add_hosts (h # hs) tpl =
     add_hosts hs (if ParseIP h \<noteq> [] then tpl\<lparr>x_IPAddresses := x_IPAddresses tpl @ [ParseIP h]\<rparr> else tpl\<lparr>x_DNSNames := x_DNSNames tpl @ [h]\<rparr>)"

definition sign_template :: "cert_config \<Rightarrow> int \<Rightarrow> int \<Rightarrow> int \<Rightarrow> certificate" where
  "sign_template cfg serial now later =
     add_hosts (gc_Host cfg) ((cert_base cfg now later)\<lparr>x_Serial := serial, x_KeyUsage := {KeyUsageDigitalSignature, KeyUsageDataEncipherment}, x_IsCA := False\<rparr>)"

definition pem_pair :: "('k, 'p) cert_env \<Rightarrow> bytes \<Rightarrow> 'k \<Rightarrow> bytes \<times> bytes" where
  "pem_pair ge der k = (ge_PemEncode ge ''CERTIFICATE'' der, ge_PemEncode ge ''RSA PRIVATE KEY'' (ge_MarshalKey ge k))"

text \<open>What a call draws: the two readings of the clock, the serial number and the number of its use of the random source.\<close>

record draw =
  dr_now :: int
  dr_later :: int
  dr_serial :: int
  dr_rand :: nat

definition CreateSign :: "('k, 'p) cert_env \<Rightarrow> draw \<Rightarrow> certificate \<Rightarrow> 'k \<Rightarrow> cert_config \<Rightarrow> (bytes \<times> bytes) result" where
  "CreateSign ge dr rootCA rootKey cfg =
     (let tpl = sign_template cfg (dr_serial dr) (dr_now dr) (dr_later dr) in
      bindR (ge_GenerateKey ge (dr_rand dr)) (\<lambda>priKey.
      bindR (ge_CreateCertificate ge (dr_rand dr) tpl rootCA (ge_Public ge priKey) rootKey) (\<lambda>der. Inr (pem_pair ge der priKey))))"

definition CreateCA :: "('k, 'p) cert_env \<Rightarrow> draw \<Rightarrow> cert_config \<Rightarrow> (bytes \<times> bytes) result" where
  "CreateCA ge dr cfg =
     bindR (ge_GenerateKey ge (dr_rand dr)) (\<lambda>privateKey.
       let template = cert_base cfg (dr_now dr) (dr_later dr) in
       bindR (ge_CreateCertificate ge (dr_rand dr) template template (ge_Public ge privateKey) privateKey) (\<lambda>crt. Inr (pem_pair ge crt privateKey)))"

text \<open>The two files of a pair. Nothing undoes the first write when the second one fails.\<close>

definition write_pair :: "(string \<Rightarrow> (error \<times> bytes option) option) \<Rightarrow> string \<Rightarrow> (bytes \<times> bytes) result \<Rightarrow> files \<Rightarrow> unit result \<times> files" where
  "write_pair fails filenamePrefix pair fs =
     (case pair of
        Inl e \<Rightarrow> (Inl e, fs)
      | Inr (crt, key) \<Rightarrow>
          (case WriteFile fails (filenamePrefix @ CertFileSuffix) crt fs of
             (Inl e, fs) \<Rightarrow> (Inl e, fs)
           | (Inr _, fs) \<Rightarrow> WriteFile fails (filenamePrefix @ KeyFileSuffix) key fs))"

definition CreateSignFile ::
  "('k, 'p) cert_env \<Rightarrow> (string \<Rightarrow> (error \<times> bytes option) option) \<Rightarrow> draw \<Rightarrow> certificate \<Rightarrow> 'k \<Rightarrow> string \<Rightarrow> cert_config \<Rightarrow> files \<Rightarrow> unit result \<times> files" where
  "CreateSignFile ge fails dr rootCA rootKey filenamePrefix cfg fs = write_pair fails filenamePrefix (CreateSign ge dr rootCA rootKey cfg) fs"

definition CreateCAFile ::
  "('k, 'p) cert_env \<Rightarrow> (string \<Rightarrow> (error \<times> bytes option) option) \<Rightarrow> draw \<Rightarrow> string \<Rightarrow> cert_config \<Rightarrow> files \<Rightarrow> unit result \<times> files" where
  "CreateCAFile ge fails dr filenamePrefix cfg fs = write_pair fails filenamePrefix (CreateCA ge dr cfg) fs"

subsection \<open>services/keygen\<close>

record keygen_config =
  kg_CaFilePrefix :: string
  kg_CertFilePrefix :: string
  kg_Sign :: bool
  kg_SignDays :: "64 word"
  kg_CommonName :: string

definition domainSuffixList :: "string list" where
  "domainSuffixList = [
    ''.com'', ''.edu'', ''.gov'', ''.int'', ''.mil'', ''.net'', ''.org'', ''.biz'', ''.info'', ''.pro'', ''.name'', ''.museum'', ''.coop'',
    ''.aero'', ''.xxx'', ''.idv'', ''.ac'', ''.ad'', ''.ae'', ''.af'', ''.ag'', ''.ai'', ''.al'', ''.am'', ''.an'', ''.ao'', ''.aq'', ''.ar'',
    ''.as'', ''.at'', ''.au'', ''.aw'', ''.az'', ''.ba'', ''.bb'', ''.bd'', ''.be'', ''.bf'', ''.bg'', ''.bh'', ''.bi'', ''.bj'', ''.bm'', ''.bn'',
    ''.bo'', ''.br'', ''.bs'', ''.bt'', ''.bv'', ''.bw'', ''.by'', ''.bz'', ''.ca'', ''.cc'', ''.cd'', ''.cf'', ''.cg'', ''.ch'', ''.ci'', ''.ck'',
    ''.cl'', ''.cm'', ''.cn'', ''.co'', ''.cr'', ''.cu'', ''.cv'', ''.cx'', ''.cy'', ''.cz'', ''.de'', ''.dj'', ''.dk'', ''.dm'', ''.do'', ''.dz'',
    ''.ec'', ''.ee'', ''.eg'', ''.eh'', ''.er'', ''.es'', ''.et'', ''.eu'', ''.fi'', ''.fj'', ''.fk'', ''.fm'', ''.fo'', ''.fr'', ''.ga'', ''.gd'',
    ''.ge'', ''.gf'', ''.gg'', ''.gh'', ''.gi'', ''.gl'', ''.gm'', ''.gn'', ''.gp'', ''.gq'', ''.gr'', ''.gs'', ''.gt'', ''.gu'', ''.gw'', ''.gy'',
    ''.hk'', ''.hm'', ''.hn'', ''.hr'', ''.ht'', ''.hu'', ''.id'', ''.ie'', ''.il'', ''.im'', ''.in'', ''.io'', ''.iq'', ''.ir'', ''.is'', ''.it'',
    ''.je'', ''.jm'', ''.jo'', ''.jp'', ''.ke'', ''.kg'', ''.kh'', ''.ki'', ''.km'', ''.kn'', ''.kp'', ''.kr'', ''.kw'', ''.ky'', ''.kz'', ''.la'',
    ''.lb'', ''.lc'', ''.li'', ''.lk'', ''.lr'', ''.ls'', ''.lt'', ''.lu'', ''.lv'', ''.ly'', ''.ma'', ''.mc'', ''.md'', ''.mg'', ''.mh'', ''.mk'',
    ''.ml'', ''.mm'', ''.mn'', ''.mo'', ''.mp'', ''.mq'', ''.mr'', ''.ms'', ''.mt'', ''.mu'', ''.mv'', ''.mw'', ''.mx'', ''.my'', ''.mz'', ''.na'',
    ''.nc'', ''.ne'', ''.nf'', ''.ng'', ''.ni'', ''.nl'', ''.no'', ''.np'', ''.nr'', ''.nu'', ''.nz'', ''.om'', ''.pa'', ''.pe'', ''.pf'', ''.pg'',
    ''.ph'', ''.pk'', ''.pl'', ''.pm'', ''.pn'', ''.pr'', ''.ps'', ''.pt'', ''.pw'', ''.py'', ''.qa'', ''.re'', ''.ro'', ''.ru'', ''.rw'', ''.sa'',
    ''.sb'', ''.sc'', ''.sd'', ''.se'', ''.sg'', ''.sh'', ''.si'', ''.sj'', ''.sk'', ''.sl'', ''.sm'', ''.sn'', ''.so'', ''.sr'', ''.st'', ''.sv'',
    ''.sy'', ''.sz'', ''.tc'', ''.td'', ''.tf'', ''.tg'', ''.th'', ''.tj'', ''.tk'', ''.tl'', ''.tm'', ''.tn'', ''.to'', ''.tp'', ''.tr'', ''.tt'',
    ''.tv'', ''.tw'', ''.tz'', ''.ua'', ''.ug'', ''.uk'', ''.um'', ''.us'', ''.uy'', ''.uz'', ''.va'', ''.vc'', ''.ve'', ''.vg'', ''.vi'', ''.vn'',
    ''.vu'', ''.wf'', ''.ws'', ''.ye'', ''.yt'', ''.yu'', ''.yr'', ''.za'', ''.zm'', ''.zw'']"

definition countryList :: "string list" where
  "countryList = [
    ''AD'', ''AE'', ''AF'', ''AG'', ''AI'', ''AL'', ''AM'', ''AO'', ''AR'', ''AT'', ''AU'', ''AZ'', ''BB'', ''BD'', ''BE'', ''BF'', ''BG'', ''BH'',
    ''BI'', ''BJ'', ''BL'', ''BM'', ''BN'', ''BO'', ''BR'', ''BS'', ''BW'', ''BY'', ''BZ'', ''CA'', ''CF'', ''CG'', ''CH'', ''CK'', ''CL'', ''CM'',
    ''CN'', ''CO'', ''CR'', ''CS'', ''CU'', ''CY'', ''CZ'', ''DE'', ''DJ'', ''DK'', ''DO'', ''DZ'', ''EC'', ''EE'', ''EG'', ''ES'', ''ET'', ''FI'',
    ''FJ'', ''FR'', ''GA'', ''GB'', ''GD'', ''GE'', ''GF'', ''GH'', ''GI'', ''GM'', ''GN'', ''GR'', ''GT'', ''GU'', ''GY'', ''HK'', ''HN'', ''HT'',
    ''HU'', ''ID'', ''IE'', ''IL'', ''IN'', ''IQ'', ''IR'', ''IS'', ''IT'', ''JM'', ''JO'', ''JP'', ''KE'', ''KG'', ''KH'', ''KP'', ''KR'', ''KT'',
    ''KW'', ''KZ'', ''LA'', ''LB'', ''LC'', ''LI'', ''LK'', ''LR'', ''LS'', ''LT'', ''LU'', ''LV'', ''LY'', ''MA'', ''MC'', ''MD'', ''MG'', ''ML'',
    ''MM'', ''MN'', ''MO'', ''MS'', ''MT'', ''MU'', ''MV'', ''MW'', ''MX'', ''MY'', ''MZ'', ''NA'', ''NE'', ''NG'', ''NI'', ''NL'', ''NO'', ''NP'',
    ''NR'', ''NZ'', ''OM'', ''PA'', ''PE'', ''PF'', ''PG'', ''PH'', ''PK'', ''PL'', ''PR'', ''PT'', ''PY'', ''QA'', ''RO'', ''RU'', ''SA'', ''SB'',
    ''SC'', ''SD'', ''SE'', ''SG'', ''SI'', ''SK'', ''SL'', ''SM'', ''SN'', ''SO'', ''SR'', ''ST'', ''SV'', ''SY'', ''SZ'', ''TD'', ''TG'', ''TH'',
    ''TJ'', ''TM'', ''TN'', ''TO'', ''TR'', ''TT'', ''TW'', ''TZ'', ''UA'', ''UG'', ''US'', ''UY'', ''UZ'', ''VC'', ''VE'', ''VN'', ''YE'', ''YU'',
    ''ZA'', ''ZM'', ''ZR'', ''ZW'']"

text \<open>What \<open>extrand\<close> draws: a text of the length asked for, and numbers from 1000 to below 10000.\<close>

record kg_draw =
  kd_AlphaNumber :: "nat \<Rightarrow> string"
  kd_length :: nat
  kd_suffix :: nat
  kd_country :: nat

definition randCommonName :: "kg_draw \<Rightarrow> string" where
  "randCommonName kd = to_lower (kd_AlphaNumber kd (kd_length kd mod 10) @ domainSuffixList ! (kd_suffix kd mod length domainSuffixList))"

definition randCountry :: "kg_draw \<Rightarrow> string" where
  "randCountry kd = countryList ! (kd_country kd mod length countryList)"

definition keygen_inspectConfig :: "kg_draw \<Rightarrow> keygen_config \<Rightarrow> keygen_config result" where
  "keygen_inspectConfig kd cfg =
     (if kg_CaFilePrefix cfg = '''' then Inl (ErrMsg ''ca file name prefix required'')
      else if kg_Sign cfg \<and> kg_CertFilePrefix cfg = '''' then Inl (ErrMsg ''cert file name prefix required for sign'')
      else if kg_CommonName cfg = '''' then Inr (cfg\<lparr>kg_CommonName := randCommonName kd\<rparr>)
      else Inr cfg)"

definition keygen_cert :: "kg_draw \<Rightarrow> keygen_config \<Rightarrow> cert_config" where
  "keygen_cert kd cfg = \<lparr>gc_CommonName = kg_CommonName cfg,
     gc_Names = \<lparr>Country = randCountry kd, Province = '''', Locality = '''', Organization = kg_CommonName cfg, OrganizationUnit = kg_CommonName cfg\<rparr>,
     gc_Host = [kg_CommonName cfg], gc_Expire = kg_SignDays cfg * 24\<rparr>"

definition keygen_Start ::
  "('k, 'p) cert_env \<Rightarrow> (string \<Rightarrow> (error \<times> bytes option) option) \<Rightarrow> kg_draw \<Rightarrow> draw \<Rightarrow> keygen_config \<Rightarrow> files \<Rightarrow> unit result \<times> files" where
  "keygen_Start ge fails kd dr cfg fs =
     (case keygen_inspectConfig kd cfg of
        Inl e \<Rightarrow> (Inl e, fs)
      | Inr cfg \<Rightarrow>
          if \<not> kg_Sign cfg then CreateCAFile ge fails dr (kg_CaFilePrefix cfg) (keygen_cert kd cfg) fs
          else case ParseCrtAndKeyFile (ReadFile fs) (ge_PemDecode ge) (ge_ParseCertificate ge) (ge_ParseKey ge)
                      (kg_CaFilePrefix cfg @ CertFileSuffix) (kg_CaFilePrefix cfg @ KeyFileSuffix) of
                 Inl e \<Rightarrow> (Inl e, fs)
               | Inr (caCert, caKey) \<Rightarrow> CreateSignFile ge fails dr caCert caKey (kg_CertFilePrefix cfg) (keygen_cert kd cfg) fs)"

subsection \<open>Properties\<close>

text \<open>What is relied on: PEM and the encoding of keys can be read back, and a certificate that is created carries a signature of the key it was made with, and the name and the CA
  flag of its template.\<close>

definition x509_law :: "('k, 'p) cert_env \<Rightarrow> bool" where
  "x509_law ge \<longleftrightarrow> (\<forall>t b. ge_PemDecode ge (ge_PemEncode ge t b) = Some b) \<and> (\<forall>k. ge_ParseKey ge (ge_MarshalKey ge k) = Inr k) \<and>
     (\<forall>n tpl parent p k der. ge_CreateCertificate ge n tpl parent p k = Inr der \<longrightarrow> ge_SignedBy ge der (ge_Public ge k) \<and>
        (\<exists>c. ge_ParseCertificate ge der = Inr c \<and> x_CommonName c = x_CommonName tpl \<and> x_IsCA c = x_IsCA tpl))"

lemma x509_created:
  assumes "x509_law ge" "ge_CreateCertificate ge n tpl parent p k = Inr der"
  obtains c where "ge_SignedBy ge der (ge_Public ge k)" "ge_ParseCertificate ge der = Inr c" "x_CommonName c = x_CommonName tpl" "x_IsCA c = x_IsCA tpl"
  using assms unfolding x509_law_def by blast

lemma write_pair_Inr:
  "write_pair fails p pair fs = (Inr u, fs') \<longleftrightarrow> (\<exists>crt key. pair = Inr (crt, key) \<and> fails (p @ CertFileSuffix) = None \<and> fails (p @ KeyFileSuffix) = None \<and>
     fs' = fs(p @ CertFileSuffix \<mapsto> crt, p @ KeyFileSuffix \<mapsto> key))"
  by (auto simp: write_pair_def WriteFile_def split: sum.split prod.split option.split)

text \<open>The files of a pair have different names, and pairs with different prefixes share none.\<close>

lemma suffix_names [simp]: "p @ CertFileSuffix \<noteq> q @ KeyFileSuffix" "q @ KeyFileSuffix \<noteq> p @ CertFileSuffix"
  "(p @ CertFileSuffix = q @ CertFileSuffix) = (p = q)" "(p @ KeyFileSuffix = q @ KeyFileSuffix) = (p = q)"
  by (auto simp: CertFileSuffix_def KeyFileSuffix_def dest: arg_cong [of _ _ rev])

lemma suffix_dots [simp]: "hd CertFileSuffix = CHR ''.''" "hd KeyFileSuffix = CHR ''.''" "CertFileSuffix \<noteq> []" "KeyFileSuffix \<noteq> []"
  "CertFileSuffix \<noteq> KeyFileSuffix" "KeyFileSuffix \<noteq> CertFileSuffix"
  by (simp_all add: CertFileSuffix_def KeyFileSuffix_def)

lemma prefix_file:
  assumes "\<not> has_prefix base64Prefix p" "hd s = CHR ''.''" "s \<noteq> []"
  shows "\<not> has_prefix base64Prefix (p @ s)"
proof (cases "length p < length base64Prefix")
  case True
  then have "CHR ''.'' \<in> set (take (length base64Prefix) (p @ s))"
    using assms(2,3) by (cases s; cases "length base64Prefix - length p") auto
  moreover have "CHR ''.'' \<notin> set base64Prefix" by (simp add: base64Prefix_def)
  ultimately show ?thesis unfolding has_prefix_def by metis
next
  case False
  then show ?thesis using assms(1) by (simp add: has_prefix_def)
qed

lemma add_hosts_kept: "x_CommonName (add_hosts hs tpl) = x_CommonName tpl" "x_IsCA (add_hosts hs tpl) = x_IsCA tpl"
  "x_NotBefore (add_hosts hs tpl) = x_NotBefore tpl" "x_NotAfter (add_hosts hs tpl) = x_NotAfter tpl"
  by (induction hs arbitrary: tpl) auto

lemma add_hosts_names: "x_IPAddresses (add_hosts hs tpl) = x_IPAddresses tpl @ filter (\<lambda>b. b \<noteq> []) (map ParseIP hs)"
  "x_DNSNames (add_hosts hs tpl) = x_DNSNames tpl @ filter (\<lambda>h. ParseIP h = []) hs"
  by (induction hs arbitrary: tpl) auto

text \<open>A run that makes a certificate authority, and one that signs.\<close>

lemma keygen_ca:
  assumes "keygen_Start ge fails kd dr cfg fs = (Inr u, fs')" "\<not> kg_Sign cfg"
  obtains k der tpl where "ge_CreateCertificate ge (dr_rand dr) tpl tpl (ge_Public ge k) k = Inr der" "x_IsCA tpl"
    "fs' = fs(kg_CaFilePrefix cfg @ CertFileSuffix \<mapsto> fst (pem_pair ge der k), kg_CaFilePrefix cfg @ KeyFileSuffix \<mapsto> snd (pem_pair ge der k))"
proof -
  obtain cfg' where c: "keygen_inspectConfig kd cfg = Inr cfg'" "kg_CaFilePrefix cfg' = kg_CaFilePrefix cfg" "kg_Sign cfg' = kg_Sign cfg"
    using assms(1) by (auto simp: keygen_Start_def keygen_inspectConfig_def split: sum.splits if_splits)
  then have "write_pair fails (kg_CaFilePrefix cfg) (CreateCA ge dr (keygen_cert kd cfg')) fs = (Inr u, fs')"
    using assms by (simp add: keygen_Start_def CreateCAFile_def)
  then obtain crt key where w: "CreateCA ge dr (keygen_cert kd cfg') = Inr (crt, key)"
    "fs' = fs(kg_CaFilePrefix cfg @ CertFileSuffix \<mapsto> crt, kg_CaFilePrefix cfg @ KeyFileSuffix \<mapsto> key)" by (auto simp: write_pair_Inr)
  then show thesis using that by (auto simp: CreateCA_def Let_def bindR_eq_Inr cert_base_def)
qed

lemma keygen_sign:
  assumes "keygen_Start ge fails kd dr cfg fs = (Inr u, fs')" "kg_Sign cfg"
  obtains ca caKey k der tpl where "ParseCrtAndKeyFile (ReadFile fs) (ge_PemDecode ge) (ge_ParseCertificate ge) (ge_ParseKey ge)
      (kg_CaFilePrefix cfg @ CertFileSuffix) (kg_CaFilePrefix cfg @ KeyFileSuffix) = Inr (ca, caKey)"
    "ge_CreateCertificate ge (dr_rand dr) tpl ca (ge_Public ge k) caKey = Inr der" "\<not> x_IsCA tpl"
    "kg_CommonName cfg \<noteq> '''' \<Longrightarrow> x_CommonName tpl = kg_CommonName cfg"
    "fs' = fs(kg_CertFilePrefix cfg @ CertFileSuffix \<mapsto> fst (pem_pair ge der k), kg_CertFilePrefix cfg @ KeyFileSuffix \<mapsto> snd (pem_pair ge der k))"
proof -
  obtain cfg' where c: "keygen_inspectConfig kd cfg = Inr cfg'" "kg_CaFilePrefix cfg' = kg_CaFilePrefix cfg" "kg_CertFilePrefix cfg' = kg_CertFilePrefix cfg"
    "kg_Sign cfg' = kg_Sign cfg" "kg_CommonName cfg \<noteq> '''' \<Longrightarrow> kg_CommonName cfg' = kg_CommonName cfg"
    using assms(1) by (auto simp: keygen_Start_def keygen_inspectConfig_def split: sum.splits if_splits)
  then obtain ca caKey where p: "ParseCrtAndKeyFile (ReadFile fs) (ge_PemDecode ge) (ge_ParseCertificate ge) (ge_ParseKey ge)
      (kg_CaFilePrefix cfg @ CertFileSuffix) (kg_CaFilePrefix cfg @ KeyFileSuffix) = Inr (ca, caKey)"
    and "write_pair fails (kg_CertFilePrefix cfg) (CreateSign ge dr ca caKey (keygen_cert kd cfg')) fs = (Inr u, fs')"
    using assms by (auto simp: keygen_Start_def CreateSignFile_def split: sum.splits)
  then obtain crt key where w: "CreateSign ge dr ca caKey (keygen_cert kd cfg') = Inr (crt, key)"
    "fs' = fs(kg_CertFilePrefix cfg @ CertFileSuffix \<mapsto> crt, kg_CertFilePrefix cfg @ KeyFileSuffix \<mapsto> key)" by (auto simp: write_pair_Inr)
  then show thesis using that [OF p] c(5)
    by (auto simp: CreateSign_def Let_def bindR_eq_Inr sign_template_def cert_base_def add_hosts_kept keygen_cert_def)
qed

lemma keygen_issues_core:
  assumes "x509_law ge" "keygen_Start ge fails kd dr ca fs = (Inr u, fs1)" "\<not> kg_Sign ca" "keygen_Start ge fails' kd' dr' sg fs1 = (Inr v, fs2)" "kg_Sign sg"
    "kg_CaFilePrefix sg = kg_CaFilePrefix ca"
  obtains k caDer key der c where "ge_SignedBy ge caDer (ge_Public ge k)" "ge_SignedBy ge der (ge_Public ge k)" "ge_ParseCertificate ge der = Inr c" "\<not> x_IsCA c"
    "kg_CommonName sg \<noteq> '''' \<Longrightarrow> x_CommonName c = kg_CommonName sg"
    "fs1 = fs(kg_CaFilePrefix ca @ CertFileSuffix \<mapsto> fst (pem_pair ge caDer k), kg_CaFilePrefix ca @ KeyFileSuffix \<mapsto> snd (pem_pair ge caDer k))"
    "fs2 = fs1(kg_CertFilePrefix sg @ CertFileSuffix \<mapsto> fst (pem_pair ge der key), kg_CertFilePrefix sg @ KeyFileSuffix \<mapsto> snd (pem_pair ge der key))"
proof -
  obtain k caDer tpl where a: "ge_CreateCertificate ge (dr_rand dr) tpl tpl (ge_Public ge k) k = Inr caDer"
    "fs1 = fs(kg_CaFilePrefix ca @ CertFileSuffix \<mapsto> fst (pem_pair ge caDer k), kg_CaFilePrefix ca @ KeyFileSuffix \<mapsto> snd (pem_pair ge caDer k))"
    using keygen_ca [OF assms(2,3)] by metis
  obtain caCert caKey key der tpl' where s: "ParseCrtAndKeyFile (ReadFile fs1) (ge_PemDecode ge) (ge_ParseCertificate ge) (ge_ParseKey ge)
      (kg_CaFilePrefix sg @ CertFileSuffix) (kg_CaFilePrefix sg @ KeyFileSuffix) = Inr (caCert, caKey)"
    "ge_CreateCertificate ge (dr_rand dr') tpl' caCert (ge_Public ge key) caKey = Inr der" "\<not> x_IsCA tpl'" "kg_CommonName sg \<noteq> '''' \<Longrightarrow> x_CommonName tpl' = kg_CommonName sg"
    "fs2 = fs1(kg_CertFilePrefix sg @ CertFileSuffix \<mapsto> fst (pem_pair ge der key), kg_CertFilePrefix sg @ KeyFileSuffix \<mapsto> snd (pem_pair ge der key))"
    using keygen_sign [OF assms(4,5)] by metis
  have "caKey = k" using s(1) assms(1) unfolding assms(6) a(2)
    by (auto simp: ParseCrtAndKeyFile_def LoadCrtFile_def LoadKeyFile_def ReadFile_def ParseCrt_def ParseKey_def pem_pair_def x509_law_def bindR_eq_Inr)
  then show thesis using x509_created [OF assms(1) a(1)] x509_created [OF assms(1) s(2)] s(3,4) that [OF _ _ _ _ _ a(2) s(5)] by metis
qed


text \<open>An instance: a key is a byte, a certificate holds the key that signed it and its template's CA flag and common name.\<close>

definition ex_cert :: certificate where
  "ex_cert = \<lparr>x_Serial = 0, x_CommonName = '''', x_Country = [], x_Organization = [], x_OrganizationalUnit = [], x_Province = [], x_Locality = [], x_NotBefore = 0, x_NotAfter = 0,
     x_ExtKeyUsage = [], x_KeyUsage = {}, x_IPAddresses = [], x_DNSNames = [], x_BasicConstraintsValid = True, x_IsCA = False\<rparr>"

definition ex_ge :: "(byte, byte) cert_env" where
  "ex_ge = \<lparr>ge_GenerateKey = (\<lambda>n. Inr (of_nat n)), ge_Public = (\<lambda>k. k),
     ge_CreateCertificate = (\<lambda>_ tpl _ _ k. Inr (k # (if x_IsCA tpl then 1 else 0) # str_bytes (x_CommonName tpl))), ge_MarshalKey = (\<lambda>k. [k]),
     ge_ParseCertificate = (\<lambda>b. Inr (ex_cert\<lparr>x_IsCA := (b ! 1 = 1), x_CommonName := bytes_str (drop 2 b)\<rparr>)), ge_ParseKey = (\<lambda>b. Inr (hd b)),
     ge_PemEncode = (\<lambda>_ b. b), ge_PemDecode = Some, ge_SignedBy = (\<lambda>der k. hd der = k)\<rparr>"

lemma ex_ge_law: "x509_law ex_ge"
  by (simp add: x509_law_def ex_ge_def)

definition ex_kd :: kg_draw where "ex_kd = \<lparr>kd_AlphaNumber = (\<lambda>n. replicate n CHR ''x''), kd_length = 1003, kd_suffix = 1048, kd_country = 1104\<rparr>"

definition ex_dr :: draw where "ex_dr = \<lparr>dr_now = 0, dr_later = 1, dr_serial = 7, dr_rand = 3\<rparr>"

definition ex_ca :: keygen_config where
  "ex_ca = \<lparr>kg_CaFilePrefix = ''ca'', kg_CertFilePrefix = '''', kg_Sign = False, kg_SignDays = 365, kg_CommonName = ''root''\<rparr>"

definition ex_sg :: keygen_config where
  "ex_sg = \<lparr>kg_CaFilePrefix = ''ca'', kg_CertFilePrefix = ''proxy'', kg_Sign = True, kg_SignDays = 365, kg_CommonName = ''a''\<rparr>"


text \<open>C38. How long a certificate is valid. The validity in days is turned into a duration of 64 bits, which holds up to 106751 days: within that a certificate of either
  kind ends exactly so many days after it was made, and the days of a negative number before. From 106752 to 213503 days the duration wraps, and the certificate
  has expired almost a day before it is made.\<close>

theorem keygen_lifetime:
  "(\<bar>sint (kg_SignDays cfg)\<bar> \<le> 106751 \<longrightarrow> x_NotAfter (cert_base (keygen_cert kd cfg) now later) = later + sint (kg_SignDays cfg) * 24 * Hour \<and>
      x_NotAfter (sign_template (keygen_cert kd cfg) serial now later) = later + sint (kg_SignDays cfg) * 24 * Hour) \<and>
    (106752 \<le> sint (kg_SignDays cfg) \<and> sint (kg_SignDays cfg) \<le> 213503 \<longrightarrow> x_NotAfter (cert_base (keygen_cert kd cfg) now later) < later - 23 * Hour \<and>
      x_NotAfter (sign_template (keygen_cert kd cfg) serial now later) < later - 23 * Hour)"
proof -
  define days where "days = sint (kg_SignDays cfg)"
  have w: "lifetime (kg_SignDays cfg * 24) = sint (of_int (days * 24 * Hour) :: 64 word)"
    by (simp add: lifetime_def days_def ac_simps)
  have exact: "sint (of_int x :: 64 word) = x" if "- (2 ^ 63) \<le> x" "x < 2 ^ 63" for x :: int
    using that by (simp add: sint_sbintrunc' signed_take_bit_int_eq_self)
  have "lifetime (kg_SignDays cfg * 24) = days * 24 * Hour" if "\<bar>days\<bar> \<le> 106751"
    unfolding w by (rule exact) (use that in \<open>simp_all add: Hour_def\<close>)
  moreover have "lifetime (kg_SignDays cfg * 24) = days * 24 * Hour - 2 ^ 64" if "106752 \<le> days" "days \<le> 213503"
  proof -
    have "(of_int (days * 24 * Hour) :: 64 word) = of_int (days * 24 * Hour - 2 ^ 64)" by simp
    then have "lifetime (kg_SignDays cfg * 24) = sint (of_int (days * 24 * Hour - 2 ^ 64) :: 64 word)" unfolding w by (rule arg_cong)
    also have "\<dots> = days * 24 * Hour - 2 ^ 64" by (rule exact) (use that in \<open>simp_all add: Hour_def\<close>)
    finally show ?thesis .
  qed
  ultimately show ?thesis unfolding days_def [symmetric]
    by (auto simp: cert_base_def sign_template_def add_hosts_kept keygen_cert_def Hour_def)
qed

theorem keygen_lifetime_witness:
  "x_NotAfter (sign_template (keygen_cert ex_kd ex_sg) 7 0 1) = 1 + 365 * 24 * Hour \<and>
   x_NotAfter (sign_template (keygen_cert ex_kd (ex_sg\<lparr>kg_SignDays := 200000\<rparr>)) 7 0 1) < 1 - 23 * Hour"
proof -
  have "sint (kg_SignDays ex_sg) = 365" "sint (kg_SignDays (ex_sg\<lparr>kg_SignDays := 200000\<rparr>)) = 200000" by (simp_all add: ex_sg_def)
  then show ?thesis using keygen_lifetime [of ex_sg ex_kd 0 1 7] keygen_lifetime [of "ex_sg\<lparr>kg_SignDays := 200000\<rparr>" ex_kd 0 1 7] by simp
qed

end
